(* ===== verification/Prelude.thy ===== *)
theory Prelude
  imports Main "HOL-Library.Word" "HOL-Library.Multiset"
begin

text \<open>
  Shared ground of the development: the machine types of the Rust sources, results with
  errors as values, and the generic lemmas on words, lists and maps that the component
  theories use.

  Conventions kept by every component theory.
  \<^item> A release build of the server has no overflow checks (Cargo.toml, profile release), so
    \<open>u64\<close>, \<open>usize\<close> and \<open>u32\<close> counters are words and their arithmetic wraps. Lengths of
    collections that live in memory are \<open>nat\<close>.
  \<^item> An \<open>Instant\<close> is the number of nanoseconds since the process epoch, a \<open>nat\<close> read by the
    caller and passed in; \<open>t.elapsed()\<close> at \<open>now\<close> is \<open>now - t\<close> on \<open>nat\<close>, which stops at 0 as
    Rust's does. A \<open>Duration\<close> is a \<open>nat\<close> of nanoseconds.
  \<^item> \<open>Result<T, E>\<close> is \<open>'e + 'a\<close> with \<open>Inl\<close> for \<open>Err\<close>.
  \<^item> A \<open>DashMap\<close> or \<open>HashMap\<close> is a map, or an association list where the iteration order
    matters; log lines have no effect on state and are left out.
\<close>

type_synonym u8 = "8 word"
type_synonym u16 = "16 word"
type_synonym u32 = "32 word"
type_synonym u64 = "64 word"
type_synonym usize = "64 word"

named_theorems step_simps "one-step equations of the components' operations"
named_theorems inv_intros "invariant preservation, one rule per operation"

section \<open>Results\<close>

text \<open>The \<open>?\<close> operator: stop at the first error.\<close>

definition bindR :: "'e + 'a \<Rightarrow> ('a \<Rightarrow> 'e + 'b) \<Rightarrow> 'e + 'b" where
  "bindR r f = (case r of Inl e \<Rightarrow> Inl e | Inr x \<Rightarrow> f x)"

lemma bindR_simps [simp]:
  "bindR (Inl e) f = Inl e"
  "bindR (Inr x) f = f x"
  by (simp_all add: bindR_def)

lemma bindR_Inr_iff: "bindR r f = Inr y \<longleftrightarrow> (\<exists>x. r = Inr x \<and> f x = Inr y)"
  by (cases r) simp_all

definition guardR :: "bool \<Rightarrow> 'e \<Rightarrow> 'e + unit" where
  "guardR ok e = (if ok then Inr () else Inl e)"

lemma guardR_simps [simp]:
  "guardR True e = Inr ()"
  "guardR False e = Inl e"
  by (simp_all add: guardR_def)

lemma guardR_Inr_iff [simp]: "guardR ok e = Inr u \<longleftrightarrow> ok"
  by (cases ok) simp_all

text \<open>Collecting the results of a loop that returns at the first error.\<close>

fun mapR :: "('a \<Rightarrow> 'e + 'b) \<Rightarrow> 'a list \<Rightarrow> 'e + 'b list" where
  "mapR f [] = Inr []"
| "mapR f (x # xs) = bindR (f x) (\<lambda>y. bindR (mapR f xs) (\<lambda>ys. Inr (y # ys)))"

lemma mapR_Inr_list_all2: "mapR f xs = Inr ys \<longleftrightarrow> list_all2 (\<lambda>x y. f x = Inr y) xs ys"
  by (induction xs arbitrary: ys) (auto simp: bindR_Inr_iff list_all2_Cons1)

lemma mapR_cong [fundef_cong]:
  "xs = ys \<Longrightarrow> (\<And>x. x \<in> set ys \<Longrightarrow> f x = g x) \<Longrightarrow> mapR f xs = mapR g ys"
proof (induction ys arbitrary: xs)
  case Nil
  then show ?case by simp
next
  case (Cons y ys)
  then show ?case by simp
qed

section \<open>Words\<close>

lemma unat_inc: "unat (w :: 'a::len word) + 1 < 2 ^ LENGTH('a) \<Longrightarrow> unat (w + 1) = unat w + 1"
  by (simp add: unat_word_ariths)

lemma unat_inc_less: "w < (c :: 'a::len word) \<Longrightarrow> unat (w + 1) = unat w + 1"
proof -
  assume "w < c"
  then have "unat w < unat c" by (simp add: word_less_nat_alt)
  moreover have "unat c < 2 ^ LENGTH('a)" by (rule unsigned_less)
  ultimately have "unat w + 1 < 2 ^ LENGTH('a)" by linarith
  then show ?thesis by (rule unat_inc)
qed

lemma unat_of_nat_small: "n < 2 ^ LENGTH('a) \<Longrightarrow> unat (word_of_nat n :: 'a::len word) = n"
  by (simp add: unat_of_nat)

section \<open>Lists and maps\<close>

lemma filter_length_less: "x \<in> set xs \<Longrightarrow> \<not> P x \<Longrightarrow> length (filter P xs) < length xs"
  by (rule length_filter_less)

text \<open>\<open>Iterator::min_by_key\<close> returns the first of the least elements.\<close>

fun min_by_key :: "('a \<Rightarrow> 'k::linorder) \<Rightarrow> 'a list \<Rightarrow> 'a option" where
  "min_by_key f [] = None"
| "min_by_key f (x # xs) =
     (case min_by_key f xs of
        None \<Rightarrow> Some x
      | Some y \<Rightarrow> if f x \<le> f y then Some x else Some y)"

lemma min_by_key_None [simp]: "min_by_key f xs = None \<longleftrightarrow> xs = []"
  by (cases xs) (auto split: option.splits)

lemma min_by_key_Some:
  "min_by_key f xs = Some y \<Longrightarrow> y \<in> set xs \<and> (\<forall>x \<in> set xs. f y \<le> f x)"
proof (induction xs arbitrary: y)
  case Nil
  then show ?case by simp
next
  case (Cons x xs)
  show ?case
  proof (cases "min_by_key f xs")
    case None
    with Cons.prems show ?thesis by simp
  next
    case (Some z)
    with Cons.IH have "z \<in> set xs" "\<forall>x \<in> set xs. f z \<le> f x" by auto
    with Some Cons.prems show ?thesis
      by (auto split: if_splits)
  qed
qed

lemma min_by_key_in [dest]: "min_by_key f xs = Some y \<Longrightarrow> y \<in> set xs"
  using min_by_key_Some by fastforce

section \<open>Orders the program does not fix\<close>

text \<open>
  The iteration order of a \<open>DashMap\<close> and the outcome of a shuffle are arbitrary permutations.
  They are taken from a list of numbers, an argument of the operation: the next element is the
  one at that number, modulo how many are left. Every list gives a permutation and every
  permutation comes from a list.
\<close>

fun reorder :: "nat list \<Rightarrow> 'a list \<Rightarrow> 'a list" where
  "reorder [] xs = xs"
| "reorder (c # cs) [] = []"
| "reorder (c # cs) (x # xs) =
     (let ys = x # xs; i = c mod length ys in ys ! i # reorder cs (take i ys @ drop (Suc i) ys))"

lemma mset_take_nth_drop: "i < length xs \<Longrightarrow> add_mset (xs ! i) (mset (take i xs @ drop (Suc i) xs)) = mset xs"
proof -
  assume "i < length xs"
  then have "xs = take i xs @ xs ! i # drop (Suc i) xs" by (rule id_take_nth_drop)
  then have "mset xs = mset (take i xs @ xs ! i # drop (Suc i) xs)" by (rule arg_cong)
  then show ?thesis by simp
qed

lemma mset_reorder [simp]: "mset (reorder cs xs) = mset xs"
proof (induction cs xs rule: reorder.induct)
  case (3 c cs x xs)
  let ?i = "c mod length (x # xs)"
  have "?i < length (x # xs)" by (rule mod_less_divisor) simp
  from mset_take_nth_drop [OF this] 3 [OF refl refl] show ?case
    by (simp only: reorder.simps Let_def mset.simps)
qed simp_all

lemma set_reorder [simp]: "set (reorder cs xs) = set xs"
  by (rule mset_eq_setD) simp

lemma length_reorder [simp]: "length (reorder cs xs) = length xs"
  by (rule mset_eq_length) simp

lemma reorder_Nil [simp]: "reorder cs [] = []"
  by (cases cs) simp_all

lemma reorder_any: "mset ys = mset xs \<Longrightarrow> \<exists>cs. reorder cs xs = ys"
proof (induction ys arbitrary: xs)
  case Nil
  then have "reorder [] xs = []" by simp
  then show ?case by blast
next
  case (Cons y ys)
  then have "y \<in> set xs" by (metis list.set_intros(1) mset_eq_setD)
  then obtain i where i: "i < length xs" "xs ! i = y" by (auto simp: in_set_conv_nth)
  then obtain x' xs' where xs: "xs = x' # xs'" by (cases xs) auto
  have "add_mset y (mset ys) = add_mset y (mset (take i xs @ drop (Suc i) xs))"
    using mset_take_nth_drop [OF i(1)] i(2) Cons.prems by (simp only: mset.simps)
  then have "mset ys = mset (take i xs @ drop (Suc i) xs)" by simp
  from Cons.IH [OF this] obtain cs where "reorder cs (take i xs @ drop (Suc i) xs) = ys" by blast
  then have "reorder (i # cs) xs = y # ys" using i by (simp add: xs)
  then show ?case by blast
qed

text \<open>\<open>usize::saturating_mul\<close>\<close>

definition sat_mul :: "usize \<Rightarrow> usize \<Rightarrow> usize" where
  "sat_mul a b = (if unat a * unat b < 2 ^ 64 then a * b else - 1)"

end
