(* ===== verification/Breaker_Spec.thy ===== *)
theory Breaker_Spec
  imports Prelude
begin

text \<open>
  The contract that the two circuit breakers of \<open>src/src/resilience/\<close> share: the state
  machine Closed / Open / HalfOpen and the laws their operations promise to callers. Each
  breaker theory interprets the locale on its own definitions.
\<close>

datatype circuit_state = Closed | Open | HalfOpen

section \<open>The abstract breaker\<close>

text \<open>
  What a breaker promises, with unbounded numbers: failures in a row while closed, the time of
  the last failure while open, successes while half open. \<open>f\<close>, \<open>s\<close> and \<open>d\<close> are the failure
  threshold, the success threshold and the time to wait before a probe.
\<close>

datatype abs_breaker = AClosed nat | AOpen nat | AHalf nat

datatype breaker_op = Acquire nat | Success | Failure nat | Reset

fun spec_admits :: "nat \<Rightarrow> nat \<Rightarrow> abs_breaker \<Rightarrow> bool" where
  "spec_admits d now (AOpen t) \<longleftrightarrow> d \<le> now - t"
| "spec_admits d now a \<longleftrightarrow> True"

fun spec_step :: "nat \<Rightarrow> nat \<Rightarrow> nat \<Rightarrow> breaker_op \<Rightarrow> abs_breaker \<Rightarrow> abs_breaker" where
  "spec_step f s d (Acquire now) (AOpen t) = (if d \<le> now - t then AHalf 0 else AOpen t)"
| "spec_step f s d (Acquire now) a = a"
| "spec_step f s d Success (AHalf k) = (if s \<le> Suc k then AClosed 0 else AHalf (Suc k))"
| "spec_step f s d Success (AClosed n) = AClosed 0"
| "spec_step f s d Success (AOpen t) = AOpen t"
| "spec_step f s d (Failure now) (AClosed n) =
     (if f \<le> Suc n then AOpen now else AClosed (Suc n))"
| "spec_step f s d (Failure now) a = AOpen now"
| "spec_step f s d Reset a = AClosed 0"

text \<open>The admission answers of a run, in order.\<close>

fun spec_answers :: "nat \<Rightarrow> nat \<Rightarrow> nat \<Rightarrow> breaker_op list \<Rightarrow> abs_breaker \<Rightarrow> bool list" where
  "spec_answers f s d [] a = []"
| "spec_answers f s d (e # es) a =
     (case e of Acquire now \<Rightarrow> [spec_admits d now a] | _ \<Rightarrow> []) @
     spec_answers f s d es (spec_step f s d e a)"

text \<open>Times a \<open>u64\<close> of nanoseconds represents, other than the reserved 0.\<close>

fun op_time_ok :: "breaker_op \<Rightarrow> bool" where
  "op_time_ok (Failure now) \<longleftrightarrow> 0 < now \<and> now < 2 ^ 64"
| "op_time_ok e \<longleftrightarrow> True"

section \<open>The contract\<close>

text \<open>
  \<open>st\<close> reads the state, \<open>ready t b\<close> says that an open breaker has waited out its timeout at
  \<open>t\<close>, \<open>need\<close> is the number of successes a half-open breaker still wants, and \<open>room\<close> says that
  the failure counter has not reached its width.
\<close>

locale breaker =
  fixes st :: "'b \<Rightarrow> circuit_state"
    and acquire :: "nat \<Rightarrow> 'b \<Rightarrow> bool \<times> 'b"
    and success :: "'b \<Rightarrow> 'b"
    and failure :: "nat \<Rightarrow> 'b \<Rightarrow> 'b"
    and inv :: "'b \<Rightarrow> bool"
    and ready :: "nat \<Rightarrow> 'b \<Rightarrow> bool"
    and need :: "'b \<Rightarrow> nat"
    and room :: "'b \<Rightarrow> bool"
  assumes inv_acquire: "inv b \<Longrightarrow> inv (snd (acquire t b))"
    and inv_success: "inv b \<Longrightarrow> inv (success b)"
    and inv_failure: "inv b \<Longrightarrow> room b \<Longrightarrow> inv (failure t b)"
    and acquire_not_open: "st b \<noteq> Open \<Longrightarrow> acquire t b = (True, b)"
    and acquire_waiting: "st b = Open \<Longrightarrow> \<not> ready t b \<Longrightarrow> acquire t b = (False, b)"
    and acquire_ready: "inv b \<Longrightarrow> st b = Open \<Longrightarrow> ready t b \<Longrightarrow>
      fst (acquire t b) \<and> st (snd (acquire t b)) = HalfOpen"
    and success_open: "st b = Open \<Longrightarrow> success b = b"
    and success_last: "inv b \<Longrightarrow> st b = HalfOpen \<Longrightarrow> need b \<le> 1 \<Longrightarrow> st (success b) = Closed"
    and success_more: "inv b \<Longrightarrow> st b = HalfOpen \<Longrightarrow> 1 < need b \<Longrightarrow>
      st (success b) = HalfOpen \<and> Suc (need (success b)) = need b"
    and success_closed: "st b = Closed \<Longrightarrow> st (success b) = Closed"
    and failure_open: "st b = Open \<Longrightarrow> st (failure t b) = Open"
    and failure_half: "inv b \<Longrightarrow> room b \<Longrightarrow> st b = HalfOpen \<Longrightarrow> st (failure t b) = Open"
begin

text \<open>While an open breaker waits, every admission is refused and nothing changes.\<close>

lemma refuses_while_waiting:
  "st b = Open \<Longrightarrow> \<forall>t \<in> set ts. \<not> ready t b \<Longrightarrow>
   fold (\<lambda>t b. snd (acquire t b)) ts b = b"
  by (induction ts) (auto simp: acquire_waiting)

text \<open>A half-open breaker that gets the successes it needs closes.\<close>

lemma half_open_closes:
  "inv b \<Longrightarrow> st b = HalfOpen \<Longrightarrow> need b \<le> Suc n \<Longrightarrow> \<exists>k \<le> Suc n. st ((success ^^ k) b) = Closed"
proof (induction n arbitrary: b)
  case 0
  then show ?case using success_last [of b] by (intro exI [of _ 1]) simp
next
  case (Suc n)
  show ?case
  proof (cases "need b \<le> 1")
    case True
    with Suc.prems show ?thesis using success_last [of b] by (intro exI [of _ 1]) simp
  next
    case False
    with Suc.prems have *: "inv (success b)" "st (success b) = HalfOpen" "need (success b) \<le> Suc n"
      using success_more [of b] inv_success [of b] by auto
    from Suc.IH [OF *] obtain k where "k \<le> Suc n" "st ((success ^^ k) (success b)) = Closed"
      by blast
    then show ?thesis by (intro exI [of _ "Suc k"]) (simp add: funpow_swap1)
  qed
qed

text \<open>Recovery: once ready, one admission and then successes alone lead back to Closed.\<close>

lemma recovers:
  assumes "inv b" "st b = Open" "ready t b"
  shows "\<exists>k \<le> max 1 (need (snd (acquire t b))). st ((success ^^ k) (snd (acquire t b))) = Closed"
proof -
  let ?h = "snd (acquire t b)"
  have "inv ?h" "st ?h = HalfOpen"
    using assms inv_acquire acquire_ready by auto
  then show ?thesis
    using half_open_closes [of ?h "max 1 (need ?h) - 1"] by simp
qed

end

end
