(* ===== verification/CircuitBreaker.thy ===== *)
theory CircuitBreaker
  imports Breaker_Spec
begin

text \<open>
  \<open>src/src/resilience/circuit_breaker.rs\<close>: the process-wide circuit breaker, its operations as
  state transformers, an abstract breaker with unbounded counters and the refinement to it.
  Here every operation is atomic; theory \<open>BreakerRace\<close> splits \<open>on_failure\<close> and \<open>reset\<close> into
  their atomic steps.
\<close>

record cb_config =
  failure_threshold :: u32
  success_threshold :: u32
  timeout :: nat

record circuit_breaker =
  cb_state :: circuit_state
  cb_failure_count :: u32
  cb_success_count :: u32
  cb_last_failure_nanos :: u64
  cb_config :: cb_config

definition cb_default_config :: cb_config where
  "cb_default_config =
     \<lparr>failure_threshold = 5, success_threshold = 2, timeout = 60 * 1000000000\<rparr>"

definition cb_new :: "cb_config \<Rightarrow> circuit_breaker" where
  "cb_new c =
     \<lparr>cb_state = Closed, cb_failure_count = 0, cb_success_count = 0,
      cb_last_failure_nanos = 0, cb_config = c\<rparr>"

definition cb_should_retry :: "nat \<Rightarrow> circuit_breaker \<Rightarrow> bool" where
  "cb_should_retry now b \<longleftrightarrow>
     (let nanos = cb_last_failure_nanos b
      in 0 < nanos \<and> timeout (cb_config b) \<le> now - unat nanos)"

definition cb_try_acquire :: "nat \<Rightarrow> circuit_breaker \<Rightarrow> (string + unit) \<times> circuit_breaker" where
  "cb_try_acquire now b =
     (if cb_state b = Open then
        if cb_should_retry now b then (Inr (), b\<lparr>cb_state := HalfOpen\<rparr>)
        else (Inl ''Circuit breaker is open'', b)
      else (Inr (), b))"

definition cb_on_success :: "circuit_breaker \<Rightarrow> circuit_breaker" where
  "cb_on_success b =
     (case cb_state b of
        HalfOpen \<Rightarrow>
          (let n = cb_success_count b + 1; b = b\<lparr>cb_success_count := n\<rparr>
           in if success_threshold (cb_config b) \<le> n
              then b\<lparr>cb_state := Closed, cb_failure_count := 0, cb_success_count := 0\<rparr>
              else b)
      | Closed \<Rightarrow> b\<lparr>cb_failure_count := 0\<rparr>
      | Open \<Rightarrow> b)"

text \<open>
  \<open>as_nanos() as u64\<close> keeps the low 64 bits; \<open>max(1)\<close> reserves 0 for "no recorded failure".
\<close>

definition cb_failure_stamp :: "nat \<Rightarrow> u64" where
  "cb_failure_stamp now = max (word_of_nat now) 1"

definition cb_on_failure :: "nat \<Rightarrow> circuit_breaker \<Rightarrow> circuit_breaker" where
  "cb_on_failure now b =
     (let b = b\<lparr>cb_success_count := 0\<rparr>;
          b = b\<lparr>cb_last_failure_nanos := cb_failure_stamp now\<rparr>;
          n = cb_failure_count b + 1;
          b = b\<lparr>cb_failure_count := n\<rparr>
      in case cb_state b of
           Closed \<Rightarrow> if failure_threshold (cb_config b) \<le> n then b\<lparr>cb_state := Open\<rparr> else b
         | HalfOpen \<Rightarrow> b\<lparr>cb_state := Open\<rparr>
         | Open \<Rightarrow> b)"

definition cb_record_success :: "circuit_breaker \<Rightarrow> circuit_breaker" where
  "cb_record_success = cb_on_success"

definition cb_record_failure :: "nat \<Rightarrow> circuit_breaker \<Rightarrow> circuit_breaker" where
  "cb_record_failure = cb_on_failure"

text \<open>
  \<open>call\<close>: the closure runs with no lock held, so it is a transformer of the breaker too (other
  threads may use the breaker while it runs). \<open>now'\<close> is the time when it has returned.
\<close>

definition cb_call ::
  "nat \<Rightarrow> nat \<Rightarrow> (circuit_breaker \<Rightarrow> (string + 'a) \<times> circuit_breaker) \<Rightarrow> circuit_breaker
     \<Rightarrow> (string + 'a) \<times> circuit_breaker" where
  "cb_call now now' f b =
     (case cb_try_acquire now b of
        (Inl e, b1) \<Rightarrow> (Inl e, b1)
      | (Inr _, b1) \<Rightarrow>
          (case f b1 of
             (Inr r, b2) \<Rightarrow> (Inr r, cb_on_success b2)
           | (Inl e, b2) \<Rightarrow> (Inl e, cb_on_failure now' b2)))"

definition cb_get_state :: "circuit_breaker \<Rightarrow> circuit_state" where
  "cb_get_state b = cb_state b"

definition cb_reset :: "circuit_breaker \<Rightarrow> circuit_breaker" where
  "cb_reset b =
     b\<lparr>cb_state := Closed, cb_failure_count := 0, cb_success_count := 0,
       cb_last_failure_nanos := 0\<rparr>"

section \<open>The invariant\<close>

text \<open>
  A closed breaker has seen fewer failures in a row than its threshold; an open one has a time
  stamp, so it can recover; successes are only counted while half open, below the threshold.
\<close>

definition cb_inv :: "circuit_breaker \<Rightarrow> bool" where
  "cb_inv b \<longleftrightarrow>
     0 < failure_threshold (cb_config b) \<and>
     (cb_state b = Closed \<longrightarrow> cb_failure_count b < failure_threshold (cb_config b)) \<and>
     (cb_state b = Open \<longrightarrow> 0 < cb_last_failure_nanos b) \<and>
     (cb_state b \<noteq> HalfOpen \<longrightarrow> cb_success_count b = 0) \<and>
     (cb_state b = HalfOpen \<longrightarrow>
        cb_success_count b < max 1 (success_threshold (cb_config b)))"

lemma cb_failure_stamp_pos [simp]: "0 < cb_failure_stamp now"
  by (simp add: cb_failure_stamp_def less_max_iff_disj)

lemma cb_new_inv [inv_intros]: "0 < failure_threshold c \<Longrightarrow> cb_inv (cb_new c)"
  by (simp add: cb_inv_def cb_new_def)

lemma cb_reset_inv [inv_intros]: "cb_inv b \<Longrightarrow> cb_inv (cb_reset b)"
  by (simp add: cb_inv_def cb_reset_def)

lemma cb_try_acquire_inv [inv_intros]: "cb_inv b \<Longrightarrow> cb_inv (snd (cb_try_acquire now b))"
  by (auto simp: cb_inv_def cb_try_acquire_def less_max_iff_disj)

lemma cb_on_success_inv [inv_intros]: "cb_inv b \<Longrightarrow> cb_inv (cb_on_success b)"
  by (cases "cb_state b") (auto simp: cb_inv_def cb_on_success_def Let_def not_le less_max_iff_disj)

lemma cb_on_failure_inv [inv_intros]: "cb_inv b \<Longrightarrow> cb_inv (cb_on_failure now b)"
  by (cases "cb_state b") (auto simp: cb_inv_def cb_on_failure_def Let_def not_le)

section \<open>The contract\<close>

definition cb_need :: "circuit_breaker \<Rightarrow> nat" where
  "cb_need b = unat (success_threshold (cb_config b)) - unat (cb_success_count b)"

text \<open>The admission as the contract sees it: whether the caller may go on, and the new state.\<close>

definition cb_admit :: "nat \<Rightarrow> circuit_breaker \<Rightarrow> bool \<times> circuit_breaker" where
  "cb_admit now b = (let (r, b') = cb_try_acquire now b in (\<not> isl r, b'))"

lemma snd_cb_admit [simp]: "snd (cb_admit now b) = snd (cb_try_acquire now b)"
  by (simp add: cb_admit_def split_def Let_def)

lemma cb_success_half:
  assumes "cb_inv b" "cb_state b = HalfOpen" "1 < cb_need b"
  shows "cb_state (cb_on_success b) = HalfOpen \<and> Suc (cb_need (cb_on_success b)) = cb_need b"
proof -
  let ?s = "success_threshold (cb_config b)" and ?c = "cb_success_count b"
  have lt: "unat ?c + 1 < unat ?s" using assms(3) by (simp add: cb_need_def)
  then have "?c < ?s" by (simp add: word_less_nat_alt)
  then have "unat (?c + 1) = unat ?c + 1" by (rule unat_inc_less)
  with lt show ?thesis
    using assms(2) by (simp add: cb_on_success_def cb_need_def word_le_nat_alt)
qed

lemma cb_success_last:
  assumes "cb_inv b" "cb_state b = HalfOpen" "cb_need b \<le> 1"
  shows "cb_state (cb_on_success b) = Closed"
proof -
  let ?s = "success_threshold (cb_config b)" and ?c = "cb_success_count b"
  have "?c < max 1 ?s" using assms by (simp add: cb_inv_def)
  then have "unat (?c + 1) = unat ?c + 1" by (rule unat_inc_less)
  then have "?s \<le> ?c + 1" using assms(3) by (simp add: cb_need_def word_le_nat_alt)
  with assms(2) show ?thesis by (simp add: cb_on_success_def)
qed

interpretation cb: breaker cb_state cb_admit cb_on_success cb_on_failure cb_inv
  cb_should_retry cb_need "\<lambda>_. True"
proof (unfold_locales, goal_cases)
  case (1 b t)
  then show ?case by (simp add: inv_intros)
next
  case (2 b)
  then show ?case by (rule cb_on_success_inv)
next
  case (3 b t)
  then show ?case by (intro cb_on_failure_inv)
next
  case (8 b)
  then show ?case by (rule cb_success_last)
next
  case (9 b)
  then show ?case by (rule cb_success_half)
qed (simp_all add: cb_admit_def cb_try_acquire_def cb_on_success_def cb_on_failure_def Let_def)

section \<open>Refinement\<close>

definition cb_abs :: "circuit_breaker \<Rightarrow> abs_breaker" where
  "cb_abs b =
     (case cb_state b of
        Closed \<Rightarrow> AClosed (unat (cb_failure_count b))
      | Open \<Rightarrow> AOpen (unat (cb_last_failure_nanos b))
      | HalfOpen \<Rightarrow> AHalf (unat (cb_success_count b)))"

fun cb_step :: "breaker_op \<Rightarrow> circuit_breaker \<Rightarrow> circuit_breaker" where
  "cb_step (Acquire now) b = snd (cb_try_acquire now b)"
| "cb_step Success b = cb_record_success b"
| "cb_step (Failure now) b = cb_record_failure now b"
| "cb_step Reset b = cb_reset b"

fun cb_answers :: "breaker_op list \<Rightarrow> circuit_breaker \<Rightarrow> bool list" where
  "cb_answers [] b = []"
| "cb_answers (e # es) b =
     (case e of Acquire now \<Rightarrow> [fst (cb_try_acquire now b) = Inr ()] | _ \<Rightarrow> []) @
     cb_answers es (cb_step e b)"

lemma cb_step_inv [inv_intros]: "cb_inv b \<Longrightarrow> cb_inv (cb_step e b)"
  by (cases e) (simp_all add: inv_intros cb_record_success_def cb_record_failure_def)

lemma cb_step_config [simp]: "cb_config (cb_step e b) = cb_config b"
  by (cases e) (auto simp: cb_try_acquire_def cb_record_success_def cb_on_success_def
      cb_record_failure_def cb_on_failure_def cb_reset_def Let_def split: circuit_state.splits)

lemma unat_cb_failure_stamp: "0 < now \<Longrightarrow> now < 2 ^ 64 \<Longrightarrow> unat (cb_failure_stamp now) = now"
  by (simp add: cb_failure_stamp_def max_def word_le_nat_alt unat_of_nat_small)

lemma cb_on_success_abs:
  assumes "cb_inv b"
  shows "cb_abs (cb_on_success b) =
    spec_step f (unat (success_threshold (cb_config b))) d Success (cb_abs b)"
proof (cases "cb_state b")
  case HalfOpen
  let ?s = "success_threshold (cb_config b)" and ?c = "cb_success_count b"
  have "?c < max 1 ?s" using assms HalfOpen by (simp add: cb_inv_def)
  then have "unat (?c + 1) = unat ?c + 1" by (rule unat_inc_less)
  with HalfOpen show ?thesis
    by (simp add: cb_on_success_def cb_abs_def Let_def word_le_nat_alt)
qed (simp_all add: cb_on_success_def cb_abs_def)

lemma cb_on_failure_abs:
  assumes "cb_inv b" "0 < now" "now < 2 ^ 64"
  shows "cb_abs (cb_on_failure now b) =
    spec_step (unat (failure_threshold (cb_config b))) s d (Failure now) (cb_abs b)"
proof (cases "cb_state b")
  case Closed
  let ?f = "failure_threshold (cb_config b)" and ?c = "cb_failure_count b"
  have "?c < ?f" using assms Closed by (simp add: cb_inv_def)
  then have "unat (?c + 1) = unat ?c + 1" by (rule unat_inc_less)
  with Closed assms show ?thesis
    by (simp add: cb_on_failure_def cb_abs_def Let_def word_le_nat_alt unat_cb_failure_stamp)
qed (use assms in \<open>simp_all add: cb_on_failure_def cb_abs_def Let_def unat_cb_failure_stamp\<close>)

lemma cb_try_acquire_abs:
  assumes "cb_inv b"
  shows "cb_abs (snd (cb_try_acquire now b)) =
      spec_step f s (timeout (cb_config b)) (Acquire now) (cb_abs b)"
    and "(fst (cb_try_acquire now b) = Inr ()) = spec_admits (timeout (cb_config b)) now (cb_abs b)"
  using assms by (cases "cb_state b";
      simp add: cb_inv_def cb_try_acquire_def cb_abs_def cb_should_retry_def Let_def)+

lemma cb_reset_abs [simp]: "cb_abs (cb_reset b) = AClosed 0"
  by (simp add: cb_reset_def cb_abs_def)

lemma cb_run_inv: "cb_inv b \<Longrightarrow> cb_inv (fold cb_step es b)"
  by (induction es arbitrary: b) (simp_all add: inv_intros del: cb_step.simps)

lemma cb_run_config [simp]: "cb_config (fold cb_step es b) = cb_config b"
  by (induction es arbitrary: b) (simp_all del: cb_step.simps)

lemma cb_step_abs:
  "cb_inv b \<Longrightarrow> op_time_ok e \<Longrightarrow> cb_abs (cb_step e b) =
     spec_step (unat (failure_threshold (cb_config b))) (unat (success_threshold (cb_config b)))
       (timeout (cb_config b)) e (cb_abs b)"
  by (cases e) (simp_all add: cb_try_acquire_abs cb_record_success_def cb_record_failure_def
      cb_on_success_abs cb_on_failure_abs)

lemma cb_answers_abs:
  "cb_inv b \<Longrightarrow> \<forall>e \<in> set es. op_time_ok e \<Longrightarrow> cb_answers es b =
     spec_answers (unat (failure_threshold (cb_config b))) (unat (success_threshold (cb_config b)))
       (timeout (cb_config b)) es (cb_abs b)"
proof (induction es arbitrary: b)
  case Nil
  then show ?case by simp
next
  case (Cons e es)
  then show ?case
    by (cases e) (simp_all add: cb_step_abs [symmetric] cb_try_acquire_abs inv_intros
        del: cb_step.simps spec_step.simps)
qed

text \<open>
  C1. From a fresh breaker with a positive failure threshold, every sequence of admissions,
  outcome reports and resets gets exactly the admission answers of the abstract breaker: it
  closes, opens and probes as the contract says, and no 32-bit counter can overflow into a
  different answer.
\<close>

theorem cb_refines_spec:
  assumes "0 < failure_threshold c" and "\<forall>e \<in> set es. op_time_ok e"
  shows "cb_answers es (cb_new c) =
    spec_answers (unat (failure_threshold c)) (unat (success_threshold c)) (timeout c) es (AClosed 0)"
  using cb_answers_abs [OF cb_new_inv [OF assms(1)] assms(2)]
  by (simp add: cb_new_def cb_abs_def)

theorem cb_refines_spec_witness:
  "cb_answers [Failure 10, Acquire 20, Acquire 75, Success, Acquire 80]
      (cb_new \<lparr>failure_threshold = 1, success_threshold = 1, timeout = 60\<rparr>) = [False, True, True]"
  by (subst cb_refines_spec) simp_all

text \<open>
  C2. Recovery: an open breaker reached by any run stays usable. While its timeout has not
  passed since the last failure it refuses and is unchanged; once it has, one admission and at
  most \<open>max 1 success_threshold\<close> successes in a row close it.
\<close>

theorem cb_open_recovers:
  assumes "0 < failure_threshold c" and "cb_state (fold cb_step es (cb_new c)) = Open"
    and "b = fold cb_step es (cb_new c)"
  shows "(now - unat (cb_last_failure_nanos b) < timeout c \<longrightarrow>
            cb_try_acquire now b = (Inl ''Circuit breaker is open'', b)) \<and>
         (timeout c \<le> now - unat (cb_last_failure_nanos b) \<longrightarrow>
            fst (cb_try_acquire now b) = Inr () \<and>
            (\<exists>k \<le> max 1 (unat (success_threshold c)).
               cb_state ((cb_on_success ^^ k) (snd (cb_try_acquire now b))) = Closed))"
proof (intro conjI impI)
  have inv: "cb_inv b" unfolding assms(3) by (intro cb_run_inv cb_new_inv assms(1))
  have cfg: "cb_config b = c" unfolding assms(3) by (simp add: cb_new_def)
  have opn: "cb_state b = Open" using assms(2,3) by simp
  have pos: "0 < cb_last_failure_nanos b" using inv opn by (simp add: cb_inv_def)
  { assume "now - unat (cb_last_failure_nanos b) < timeout c"
    then show "cb_try_acquire now b = (Inl ''Circuit breaker is open'', b)"
      using opn cfg by (simp add: cb_try_acquire_def cb_should_retry_def) }
  assume "timeout c \<le> now - unat (cb_last_failure_nanos b)"
  then have ready: "cb_should_retry now b" using pos cfg by (simp add: cb_should_retry_def)
  then show "fst (cb_try_acquire now b) = Inr ()" using opn by (simp add: cb_try_acquire_def)
  let ?h = "snd (cb_try_acquire now b)"
  have "cb_need ?h \<le> unat (success_threshold c)"
    using opn ready cfg by (simp add: cb_try_acquire_def cb_need_def)
  then show "\<exists>k \<le> max 1 (unat (success_threshold c)). cb_state ((cb_on_success ^^ k) ?h) = Closed"
    using cb.recovers [OF inv opn ready] by (auto simp: le_max_iff_disj intro: order_trans)
qed

theorem cb_open_recovers_witness:
  "let b = fold cb_step [Failure 10] (cb_new \<lparr>failure_threshold = 1, success_threshold = 1, timeout = 60\<rparr>)
   in \<exists>k \<le> 1. cb_state ((cb_on_success ^^ k) (snd (cb_try_acquire 70 b))) = Closed"
proof -
  let ?c = "\<lparr>failure_threshold = 1, success_threshold = 1, timeout = 60\<rparr>"
  let ?b = "fold cb_step [Failure 10] (cb_new ?c)"
  have o: "cb_state ?b = Open" and l: "cb_last_failure_nanos ?b = 10"
    by (simp_all add: cb_new_def cb_record_failure_def cb_on_failure_def cb_failure_stamp_def)
  show ?thesis
    using cb_open_recovers [of ?c "[Failure 10]" ?b 70] o l by simp
qed

end
