(* ===== verification/BreakerRace.thy ===== *)
theory BreakerRace
  imports CircuitBreaker
begin

text \<open>
  The circuit breaker under interleaving. In \<open>circuit_breaker.rs\<close> only the state is behind the
  lock; the counters and the time stamp are separate atomics, and \<open>on_failure\<close> and \<open>reset\<close>
  touch them outside it. Here every thread has a program counter and every step is one atomic
  access (or one critical section that touches only the state), so that any number of
  threads may interleave between them.
\<close>

datatype pc =
    Idle
  | FSuccess nat    \<comment> \<open>\<open>on_failure\<close>, before \<open>success_count.store(0)\<close>\<close>
  | FNanos nat      \<comment> \<open>before \<open>last_failure_nanos.store\<close>\<close>
  | FCount          \<comment> \<open>before \<open>failure_count.fetch_add\<close>\<close>
  | FMatch u32      \<comment> \<open>before taking the lock, with the local \<open>failure_count\<close>\<close>
  | RState          \<comment> \<open>\<open>reset\<close>, before \<open>*state.lock() = Closed\<close>\<close>
  | RFail
  | RSucc
  | RNanos
  | AMatch nat      \<comment> \<open>\<open>try_acquire\<close>, one critical section\<close>
  | SLock           \<comment> \<open>\<open>on_success\<close>, before taking the lock it then holds to the end\<close>
  | SCount
  | SClose
  | SFail
  | SSucc
  | SFailOnly

record race =
  brk :: circuit_breaker
  pcs :: "nat \<Rightarrow> pc"
  lock_of :: "nat option"

definition goto :: "nat \<Rightarrow> pc \<Rightarrow> race \<Rightarrow> race" where
  "goto t p s = s\<lparr>pcs := (pcs s)(t := p)\<rparr>"

definition on_brk :: "(circuit_breaker \<Rightarrow> circuit_breaker) \<Rightarrow> race \<Rightarrow> race" where
  "on_brk f s = s\<lparr>brk := f (brk s)\<rparr>"

text \<open>\<open>on_failure\<close> in the order of the source: two stores, a fetch-add, then the locked match.\<close>

definition failure_pc :: "nat \<Rightarrow> pc \<Rightarrow> race \<Rightarrow> race option" where
  "failure_pc t p s =
     (case p of
        FSuccess now \<Rightarrow> Some (goto t (FNanos now) (on_brk (\<lambda>b. b\<lparr>cb_success_count := 0\<rparr>) s))
      | FNanos now \<Rightarrow>
          Some (goto t FCount (on_brk (\<lambda>b. b\<lparr>cb_last_failure_nanos := cb_failure_stamp now\<rparr>) s))
      | FCount \<Rightarrow>
          (let n = cb_failure_count (brk s) + 1
           in Some (goto t (FMatch n) (on_brk (\<lambda>b. b\<lparr>cb_failure_count := n\<rparr>) s)))
      | FMatch n \<Rightarrow>
          if lock_of s = None then
            Some (goto t Idle (on_brk (\<lambda>b.
              case cb_state b of
                Closed \<Rightarrow> if failure_threshold (cb_config b) \<le> n then b\<lparr>cb_state := Open\<rparr> else b
              | HalfOpen \<Rightarrow> b\<lparr>cb_state := Open\<rparr>
              | Open \<Rightarrow> b) s))
          else None
      | _ \<Rightarrow> None)"

text \<open>\<open>reset\<close>: the state under the lock, then three stores outside it.\<close>

definition reset_pc :: "nat \<Rightarrow> pc \<Rightarrow> race \<Rightarrow> race option" where
  "reset_pc t p s =
     (case p of
        RState \<Rightarrow>
          if lock_of s = None then Some (goto t RFail (on_brk (\<lambda>b. b\<lparr>cb_state := Closed\<rparr>) s))
          else None
      | RFail \<Rightarrow> Some (goto t RSucc (on_brk (\<lambda>b. b\<lparr>cb_failure_count := 0\<rparr>) s))
      | RSucc \<Rightarrow> Some (goto t RNanos (on_brk (\<lambda>b. b\<lparr>cb_success_count := 0\<rparr>) s))
      | RNanos \<Rightarrow> Some (goto t Idle (on_brk (\<lambda>b. b\<lparr>cb_last_failure_nanos := 0\<rparr>) s))
      | _ \<Rightarrow> None)"

text \<open>\<open>on_success\<close>: the lock is held over all of its accesses.\<close>

definition success_pc :: "nat \<Rightarrow> pc \<Rightarrow> race \<Rightarrow> race option" where
  "success_pc t p s =
     (case p of
        SLock \<Rightarrow>
          if lock_of s = None then
            (case cb_state (brk s) of
               HalfOpen \<Rightarrow> Some (goto t SCount (s\<lparr>lock_of := Some t\<rparr>))
             | Closed \<Rightarrow> Some (goto t SFailOnly (s\<lparr>lock_of := Some t\<rparr>))
             | Open \<Rightarrow> Some (goto t Idle s))
          else None
      | SCount \<Rightarrow>
          (let n = cb_success_count (brk s) + 1; s' = on_brk (\<lambda>b. b\<lparr>cb_success_count := n\<rparr>) s
           in if success_threshold (cb_config (brk s)) \<le> n then Some (goto t SClose s')
              else Some (goto t Idle (s'\<lparr>lock_of := None\<rparr>)))
      | SClose \<Rightarrow> Some (goto t SFail (on_brk (\<lambda>b. b\<lparr>cb_state := Closed\<rparr>) s))
      | SFail \<Rightarrow> Some (goto t SSucc (on_brk (\<lambda>b. b\<lparr>cb_failure_count := 0\<rparr>) s))
      | SSucc \<Rightarrow>
          Some (goto t Idle ((on_brk (\<lambda>b. b\<lparr>cb_success_count := 0\<rparr>) s)\<lparr>lock_of := None\<rparr>))
      | SFailOnly \<Rightarrow>
          Some (goto t Idle ((on_brk (\<lambda>b. b\<lparr>cb_failure_count := 0\<rparr>) s)\<lparr>lock_of := None\<rparr>))
      | _ \<Rightarrow> None)"

definition acquire_pc :: "nat \<Rightarrow> pc \<Rightarrow> race \<Rightarrow> race option" where
  "acquire_pc t p s =
     (case p of
        AMatch now \<Rightarrow>
          if lock_of s = None
          then Some (goto t Idle (on_brk (\<lambda>b. snd (cb_try_acquire now b)) s)) else None
      | _ \<Rightarrow> None)"

text \<open>Where an operation starts, with the time its caller read the clock.\<close>

fun entry_pc :: "breaker_op \<Rightarrow> pc" where
  "entry_pc (Acquire now) = AMatch now"
| "entry_pc Success = SLock"
| "entry_pc (Failure now) = FSuccess now"
| "entry_pc Reset = RState"

text \<open>
  One step of the system: an idle thread calls an operation, or a thread inside one takes its
  next atomic step. \<open>ops\<close> are the operations the program calls.
\<close>

inductive race_step :: "breaker_op set \<Rightarrow> race \<Rightarrow> race \<Rightarrow> bool" for ops where
  start: "e \<in> ops \<Longrightarrow> pcs s t = Idle \<Longrightarrow> race_step ops s (goto t (entry_pc e) s)"
| in_failure: "failure_pc t (pcs s t) s = Some s' \<Longrightarrow> race_step ops s s'"
| in_reset: "reset_pc t (pcs s t) s = Some s' \<Longrightarrow> race_step ops s s'"
| in_success: "success_pc t (pcs s t) s = Some s' \<Longrightarrow> race_step ops s s'"
| in_acquire: "acquire_pc t (pcs s t) s = Some s' \<Longrightarrow> race_step ops s s'"

definition race_init :: "cb_config \<Rightarrow> race" where
  "race_init c = \<lparr>brk = cb_new c, pcs = (\<lambda>_. Idle), lock_of = None\<rparr>"

inductive race_reach :: "breaker_op set \<Rightarrow> cb_config \<Rightarrow> race \<Rightarrow> bool" for ops c where
  init: "race_reach ops c (race_init c)"
| step: "race_reach ops c s \<Longrightarrow> race_step ops s s' \<Longrightarrow> race_reach ops c s'"

lemmas pc_defs = failure_pc_def reset_pc_def success_pc_def acquire_pc_def goto_def on_brk_def
  Let_def

section \<open>Without reset the time stamp is safe\<close>

text \<open>
  A thread that has passed its time stamp store, and an open state, both need a stamp that is
  not 0; without resets nothing takes it away.
\<close>

definition past_stamp :: "pc \<Rightarrow> bool" where
  "past_stamp p \<longleftrightarrow> (case p of FCount \<Rightarrow> True | FMatch _ \<Rightarrow> True | _ \<Rightarrow> False)"

definition resetting :: "pc \<Rightarrow> bool" where
  "resetting p \<longleftrightarrow> (case p of RState \<Rightarrow> True | RFail \<Rightarrow> True | RSucc \<Rightarrow> True | RNanos \<Rightarrow> True | _ \<Rightarrow> False)"

definition race_inv :: "race \<Rightarrow> bool" where
  "race_inv s \<longleftrightarrow>
     (\<forall>t. \<not> resetting (pcs s t)) \<and>
     ((cb_state (brk s) = Open \<or> (\<exists>t. past_stamp (pcs s t))) \<longrightarrow>
        0 < cb_last_failure_nanos (brk s))"

lemma race_inv_init: "race_inv (race_init c)"
  by (simp add: race_inv_def race_init_def cb_new_def past_stamp_def resetting_def)

text \<open>
  One rule for every step: the thread moves to \<open>p\<close>, the others stay, and whatever makes the
  breaker open or passes the stamp has a stamp already or writes one.
\<close>

lemma race_inv_goto:
  assumes "race_inv s" and "pcs s' = pcs s" and "\<not> resetting p"
    and "cb_last_failure_nanos (brk s') = cb_last_failure_nanos (brk s) \<or>
         0 < cb_last_failure_nanos (brk s')"
    and "cb_state (brk s') = Open \<Longrightarrow>
         cb_state (brk s) = Open \<or> past_stamp (pcs s t) \<or> 0 < cb_last_failure_nanos (brk s')"
    and "past_stamp p \<Longrightarrow> past_stamp (pcs s t) \<or> 0 < cb_last_failure_nanos (brk s')"
  shows "race_inv (goto t p s')"
  unfolding race_inv_def
proof (intro conjI impI allI)
  fix u
  show "\<not> resetting (pcs (goto t p s') u)"
    using assms(1-3) by (simp add: race_inv_def goto_def)
next
  assume "cb_state (brk (goto t p s')) = Open \<or> (\<exists>u. past_stamp (pcs (goto t p s') u))"
  then have "cb_state (brk s) = Open \<or> (\<exists>u. past_stamp (pcs s u)) \<or>
             0 < cb_last_failure_nanos (brk s')"
    using assms(2,5,6) by (auto simp: goto_def split: if_splits)
  then have "0 < cb_last_failure_nanos (brk s')"
    using assms(1,4) by (auto simp: race_inv_def)
  then show "0 < cb_last_failure_nanos (brk (goto t p s'))"
    by (simp add: goto_def)
qed

lemma race_inv_start: "race_inv s \<Longrightarrow> e \<noteq> Reset \<Longrightarrow> race_inv (goto t (entry_pc e) s)"
  by (erule race_inv_goto; cases e; simp add: past_stamp_def resetting_def)

lemma race_inv_failure: "race_inv s \<Longrightarrow> failure_pc t (pcs s t) s = Some s' \<Longrightarrow> race_inv s'"
proof (cases "pcs s t")
  case (FMatch n)
  assume "race_inv s" "failure_pc t (pcs s t) s = Some s'"
  with FMatch show ?thesis
    by (auto simp: failure_pc_def past_stamp_def resetting_def on_brk_def
        split: if_splits circuit_state.splits intro!: race_inv_goto [of s])
qed (auto simp: failure_pc_def past_stamp_def resetting_def on_brk_def Let_def
       intro!: race_inv_goto [of s])

lemma race_inv_success: "race_inv s \<Longrightarrow> success_pc t (pcs s t) s = Some s' \<Longrightarrow> race_inv s'"
  by (cases "pcs s t")
     (auto simp: success_pc_def past_stamp_def resetting_def on_brk_def Let_def
        split: if_splits circuit_state.splits intro!: race_inv_goto [of s])

lemma race_inv_acquire: "race_inv s \<Longrightarrow> acquire_pc t (pcs s t) s = Some s' \<Longrightarrow> race_inv s'"
  by (cases "pcs s t")
     (auto simp: acquire_pc_def past_stamp_def resetting_def on_brk_def cb_try_acquire_def
        split: if_splits intro!: race_inv_goto [of s])

lemma race_inv_reset: "race_inv s \<Longrightarrow> reset_pc t (pcs s t) s = Some s' \<Longrightarrow> race_inv s'"
  by (cases "pcs s t") (auto simp: race_inv_def reset_pc_def resetting_def dest: spec [of _ t])

lemma race_reach_inv: "race_reach ops c s \<Longrightarrow> Reset \<notin> ops \<Longrightarrow> race_inv s"
proof (induction rule: race_reach.induct)
  case init
  then show ?case by (simp add: race_inv_init)
next
  case (step s s')
  then have "race_inv s" by simp
  with step.hyps(2) step.prems show ?case
    by (auto elim!: race_step.cases intro: race_inv_start race_inv_failure race_inv_success
        race_inv_acquire race_inv_reset)
qed

lemma race_step_config: "race_step ops s s' \<Longrightarrow> cb_config (brk s') = cb_config (brk s)"
proof (induction rule: race_step.induct)
  case (in_acquire t s s')
  then show ?case
    by (cases "pcs s t") (auto simp: pc_defs cb_try_acquire_def split: if_splits)
next
  case (in_failure t s s')
  then show ?case
    by (cases "pcs s t") (auto simp: pc_defs split: if_splits circuit_state.splits)
next
  case (in_reset t s s')
  then show ?case by (cases "pcs s t") (auto simp: pc_defs split: if_splits)
next
  case (in_success t s s')
  then show ?case
    by (cases "pcs s t") (auto simp: pc_defs split: if_splits circuit_state.splits)
qed (simp add: goto_def)

lemma race_reach_config: "race_reach ops c s \<Longrightarrow> cb_config (brk s) = c"
  by (induction rule: race_reach.induct)
     (simp_all add: race_init_def cb_new_def race_step_config)

lemma race_reach_run:
  "race_reach ops c s \<Longrightarrow> (race_step ops)\<^sup>*\<^sup>* s s' \<Longrightarrow> race_reach ops c s'"
  by (rotate_tac, induction rule: rtranclp_induct) (auto intro: race_reach.step)

text \<open>
  C3. Under every interleaving of admissions, successes and failures from any number of
  threads, an open breaker has a time stamp of its last failure, so the timeout can run out and
  it admits a probe again.
\<close>

theorem race_open_can_recover:
  assumes "race_reach ops c s" and "Reset \<notin> ops" and "cb_state (brk s) = Open"
    and "timeout c \<le> now - unat (cb_last_failure_nanos (brk s))"
  shows "fst (cb_try_acquire now (brk s)) = Inr ()"
  using race_reach_inv [OF assms(1,2)] race_reach_config [OF assms(1)] assms(3,4)
  by (simp add: race_inv_def cb_try_acquire_def cb_should_retry_def)

section \<open>A reset that races with a failure wedges the breaker\<close>

text \<open>An open breaker without a time stamp refuses for ever: no admission changes it.\<close>

lemma wedged_refuses:
  "cb_state b = Open \<Longrightarrow> cb_last_failure_nanos b = 0 \<Longrightarrow>
   cb_try_acquire now b = (Inl ''Circuit breaker is open'', b)"
  by (simp add: cb_try_acquire_def cb_should_retry_def)

lemma wedged_refuses_run:
  "cb_state b = Open \<Longrightarrow> cb_last_failure_nanos b = 0 \<Longrightarrow>
   fold (\<lambda>now b. snd (cb_try_acquire now b)) ts b = b"
  by (induction ts) (simp_all add: wedged_refuses)

text \<open>One whole failure report by thread 0, with no other thread inside an operation.\<close>

lemma race_reach_failure:
  assumes "race_reach ops c s" "Failure now \<in> ops" "pcs s = (\<lambda>_. Idle)" "lock_of s = None"
  shows "race_reach ops c (s\<lparr>brk := cb_on_failure now (brk s)\<rparr>)"
proof -
  let ?b = "brk s"
  let ?b1 = "?b\<lparr>cb_success_count := 0\<rparr>"
  let ?b2 = "?b1\<lparr>cb_last_failure_nanos := cb_failure_stamp now\<rparr>"
  let ?n = "cb_failure_count ?b + 1"
  let ?b3 = "?b2\<lparr>cb_failure_count := ?n\<rparr>"
  let ?at = "\<lambda>p b. s\<lparr>brk := b, pcs := (\<lambda>_. Idle)(0 := p)\<rparr>"
  have "race_reach ops c (?at (FSuccess now) ?b)"
    using race_reach.step [OF assms(1) race_step.start [OF assms(2), of s 0]] assms(3)
    by (simp add: goto_def)
  then have "race_reach ops c (?at (FNanos now) ?b1)"
    by (rule race_reach.step) (rule race_step.in_failure [of 0], simp add: pc_defs)
  then have "race_reach ops c (?at FCount ?b2)"
    by (rule race_reach.step) (rule race_step.in_failure [of 0], simp add: pc_defs)
  then have "race_reach ops c (?at (FMatch ?n) ?b3)"
    by (rule race_reach.step) (rule race_step.in_failure [of 0], simp add: pc_defs)
  then have "race_reach ops c (?at Idle (cb_on_failure now ?b))"
    by (rule race_reach.step)
       (rule race_step.in_failure [of 0], simp add: pc_defs assms(4) cb_on_failure_def
         split: circuit_state.splits)
  moreover have "?at Idle (cb_on_failure now ?b) = s\<lparr>brk := cb_on_failure now ?b\<rparr>"
    using assms(3) by (simp add: fun_upd_idem)
  ultimately show ?thesis by simp
qed

text \<open>
  The race: thread 0 has counted a failure that reaches the threshold, thread 1 runs a whole
  reset, then thread 0 takes the lock with its stale count.
\<close>

lemma race_reach_wedge:
  assumes "race_reach ops c s" "Failure now \<in> ops" "Reset \<in> ops"
    and "pcs s = (\<lambda>_. Idle)" "lock_of s = None"
    and "failure_threshold (cb_config (brk s)) \<le> cb_failure_count (brk s) + 1"
  shows "race_reach ops c (s\<lparr>brk := (cb_reset (brk s))\<lparr>cb_state := Open\<rparr>\<rparr>)"
proof -
  let ?b = "brk s" and ?n = "cb_failure_count (brk s) + 1"
  let ?b3 = "?b\<lparr>cb_success_count := 0, cb_last_failure_nanos := cb_failure_stamp now,
      cb_failure_count := ?n\<rparr>"
  let ?at = "\<lambda>p q b. s\<lparr>brk := b, pcs := (\<lambda>_. Idle)(0 := p, 1 := q)\<rparr>"
  have "race_reach ops c (?at (FSuccess now) Idle ?b)"
    using race_reach.step [OF assms(1) race_step.start [OF assms(2), of s 0]] assms(4)
    by (simp add: goto_def fun_upd_twist fun_upd_idem)
  then have "race_reach ops c (?at (FNanos now) Idle (?b\<lparr>cb_success_count := 0\<rparr>))"
    by (rule race_reach.step)
       (rule race_step.in_failure [of 0], simp add: pc_defs fun_upd_twist)
  then have "race_reach ops c (?at FCount Idle
      (?b\<lparr>cb_success_count := 0, cb_last_failure_nanos := cb_failure_stamp now\<rparr>))"
    by (rule race_reach.step)
       (rule race_step.in_failure [of 0], simp add: pc_defs fun_upd_twist)
  then have "race_reach ops c (?at (FMatch ?n) Idle ?b3)"
    by (rule race_reach.step)
       (rule race_step.in_failure [of 0], simp add: pc_defs fun_upd_twist)
  then have "race_reach ops c (?at (FMatch ?n) RState ?b3)"
    by (rule race_reach.step)
       (use race_step.start [OF assms(3), of "?at (FMatch ?n) Idle ?b3" 1] in
         \<open>simp add: goto_def fun_upd_twist\<close>)
  then have "race_reach ops c (?at (FMatch ?n) RFail (?b3\<lparr>cb_state := Closed\<rparr>))"
    by (rule race_reach.step)
       (rule race_step.in_reset [of 1], simp add: pc_defs fun_upd_twist assms(5))
  then have "race_reach ops c (?at (FMatch ?n) RSucc (?b3\<lparr>cb_state := Closed, cb_failure_count := 0\<rparr>))"
    by (rule race_reach.step) (rule race_step.in_reset [of 1], simp add: pc_defs fun_upd_twist)
  then have "race_reach ops c (?at (FMatch ?n) RNanos (?b3\<lparr>cb_state := Closed, cb_failure_count := 0\<rparr>))"
    by (rule race_reach.step) (rule race_step.in_reset [of 1], simp add: pc_defs fun_upd_twist)
  then have "race_reach ops c (?at (FMatch ?n) Idle (cb_reset ?b))"
    by (rule race_reach.step)
       (rule race_step.in_reset [of 1], simp add: pc_defs fun_upd_twist cb_reset_def)
  then have "race_reach ops c (?at Idle Idle ((cb_reset ?b)\<lparr>cb_state := Open\<rparr>))"
    by (rule race_reach.step)
       (rule race_step.in_failure [of 0],
        simp add: pc_defs fun_upd_twist assms(5,6) cb_reset_def)
  moreover have "?at Idle Idle ((cb_reset ?b)\<lparr>cb_state := Open\<rparr>) =
      s\<lparr>brk := (cb_reset ?b)\<lparr>cb_state := Open\<rparr>\<rparr>"
    using assms(4) by (simp add: fun_upd_idem)
  ultimately show ?thesis by simp
qed

text \<open>Failures one by one bring the count just below the threshold.\<close>

lemma race_reach_count:
  assumes "Failure 1 \<in> ops"
  shows "k < unat (failure_threshold c) \<Longrightarrow>
    \<exists>s. race_reach ops c s \<and> pcs s = (\<lambda>_. Idle) \<and> lock_of s = None \<and>
        cb_state (brk s) = Closed \<and> unat (cb_failure_count (brk s)) = k"
proof (induction k)
  case 0
  then show ?case
    by (intro exI [of _ "race_init c"]) (simp add: race_reach.init, simp add: race_init_def cb_new_def)
next
  case (Suc k)
  then obtain s where s: "race_reach ops c s" "pcs s = (\<lambda>_. Idle)" "lock_of s = None"
      "cb_state (brk s) = Closed" "unat (cb_failure_count (brk s)) = k"
    by auto
  have cfg: "cb_config (brk s) = c" by (rule race_reach_config [OF s(1)])
  have "cb_failure_count (brk s) < failure_threshold c"
    using s(5) Suc.prems by (simp add: word_less_nat_alt)
  then have inc: "unat (cb_failure_count (brk s) + 1) = Suc k"
    using s(5) by (simp add: unat_inc_less)
  then have "\<not> failure_threshold c \<le> cb_failure_count (brk s) + 1"
    using Suc.prems by (simp add: word_le_nat_alt)
  then show ?case
    using race_reach_failure [OF s(1) assms s(2,3)] s cfg inc
    by (intro exI [of _ "s\<lparr>brk := cb_on_failure 1 (brk s)\<rparr>"]) (simp add: cb_on_failure_def)
qed

text \<open>
  With resets the recovery guarantee is lost: for every configuration with a positive
  failure threshold there is an interleaving of failure reports and one reset after which no
  thread is inside an operation, the breaker is open without a time stamp, and every admission
  at every time, and every run of admissions, is refused and leaves it so.
\<close>

theorem race_reset_wedges:
  assumes "0 < failure_threshold c"
  shows "\<exists>s. race_reach {Failure 1, Reset} c s \<and> pcs s = (\<lambda>_. Idle) \<and>
    cb_state (brk s) = Open \<and>
    (\<forall>now. cb_try_acquire now (brk s) = (Inl ''Circuit breaker is open'', brk s)) \<and>
    (\<forall>ts. fold (\<lambda>now b. snd (cb_try_acquire now b)) ts (brk s) = brk s)"
proof -
  let ?f = "failure_threshold c"
  have f: "0 < unat ?f" using assms by (simp add: word_less_nat_alt)
  obtain s where s: "race_reach {Failure 1, Reset} c s" "pcs s = (\<lambda>_. Idle)" "lock_of s = None"
      "cb_state (brk s) = Closed" "unat (cb_failure_count (brk s)) = unat ?f - 1"
    using race_reach_count [of "{Failure 1, Reset}" "unat ?f - 1" c] f by auto
  have "cb_failure_count (brk s) < ?f" using s(5) f by (simp add: word_less_nat_alt)
  then have "?f \<le> cb_failure_count (brk s) + 1"
    using s(5) f by (simp add: word_le_nat_alt unat_inc_less)
  then have r: "race_reach {Failure 1, Reset} c (s\<lparr>brk := (cb_reset (brk s))\<lparr>cb_state := Open\<rparr>\<rparr>)"
      (is "race_reach _ c ?w")
    using race_reach_wedge [OF s(1) _ _ s(2,3)] race_reach_config [OF s(1)] by simp
  have w: "cb_state (brk ?w) = Open" "cb_last_failure_nanos (brk ?w) = 0" "pcs ?w = (\<lambda>_. Idle)"
    using s(2) by (simp_all add: cb_reset_def)
  show ?thesis
    using r w(1,3) wedged_refuses [OF w(1,2)] wedged_refuses_run [OF w(1,2)] by blast
qed

theorem race_reset_wedges_witness:
  "\<exists>s. race_reach {Failure 1, Reset} cb_default_config s \<and>
     cb_try_acquire (10 ^ 30) (brk s) = (Inl ''Circuit breaker is open'', brk s)"
  using race_reset_wedges [of cb_default_config] by (auto simp: cb_default_config_def)

theorem race_open_can_recover_witness:
  "\<exists>s. race_reach {Failure 1} \<lparr>failure_threshold = 1, success_threshold = 1, timeout = 60\<rparr> s \<and>
     fst (cb_try_acquire 61 (brk s)) = Inr ()"
proof -
  let ?c = "\<lparr>failure_threshold = 1, success_threshold = 1, timeout = 60\<rparr>"
  let ?s = "(race_init ?c)\<lparr>brk := cb_on_failure 1 (brk (race_init ?c))\<rparr>"
  have r: "race_reach {Failure 1} ?c ?s"
    by (rule race_reach_failure [OF race_reach.init]) (simp_all add: race_init_def)
  have o: "cb_state (brk ?s) = Open" "cb_last_failure_nanos (brk ?s) = 1"
    by (simp_all add: race_init_def cb_new_def cb_on_failure_def cb_failure_stamp_def)
  show ?thesis
    using race_open_can_recover [OF r _ o(1), of 61] r o(2) by auto
qed

end
