(* ===== verification/PerModelBreaker.thy ===== *)
theory PerModelBreaker
  imports Breaker_Spec
begin

text \<open>
  \<open>src/src/resilience/per_model_breaker.rs\<close>: the breaker kept per model and its registry. It
  differs from \<open>circuit_breaker.rs\<close> in three ways: it probes only when strictly more than the
  timeout has passed, a failure opens it when the running failure count has reached the
  threshold (in whatever state it is), and it has no reset. It refines the same abstract breaker.
\<close>

record pm_config =
  pm_failure_threshold :: usize
  pm_success_threshold :: usize
  pm_timeout :: nat

record pm_breaker =
  pm_state :: circuit_state
  pm_failure_count :: usize
  pm_success_count :: usize
  pm_last_failure_nanos :: u64
  pm_cfg :: pm_config

datatype 'e pm_error = BreakerOpen | Inner 'e

definition pm_default_config :: pm_config where
  "pm_default_config =
     \<lparr>pm_failure_threshold = 5, pm_success_threshold = 2, pm_timeout = 60 * 1000000000\<rparr>"

definition pm_new :: "pm_config \<Rightarrow> pm_breaker" where
  "pm_new c = \<lparr>pm_state = Closed, pm_failure_count = 0, pm_success_count = 0,
     pm_last_failure_nanos = 0, pm_cfg = c\<rparr>"

definition pm_should_try_recovery :: "nat \<Rightarrow> pm_breaker \<Rightarrow> bool" where
  "pm_should_try_recovery now b \<longleftrightarrow>
     (let nanos = pm_last_failure_nanos b
      in 0 < nanos \<and> pm_timeout (pm_cfg b) < now - unat nanos)"

text \<open>Phase 1 of \<open>call\<close>: \<open>None\<close> stands for going on, \<open>Some\<close> for the early return.\<close>

definition pm_admit :: "nat \<Rightarrow> pm_breaker \<Rightarrow> bool \<times> pm_breaker" where
  "pm_admit now b =
     (if pm_state b = Open then
        if pm_should_try_recovery now b then (True, b\<lparr>pm_state := HalfOpen\<rparr>)
        else (False, b)
      else (True, b))"

definition pm_on_success :: "pm_breaker \<Rightarrow> pm_breaker" where
  "pm_on_success b =
     (case pm_state b of
        HalfOpen \<Rightarrow>
          (let n = pm_success_count b + 1; b = b\<lparr>pm_success_count := n\<rparr>
           in if pm_success_threshold (pm_cfg b) \<le> n
              then b\<lparr>pm_state := Closed, pm_failure_count := 0, pm_success_count := 0\<rparr>
              else b)
      | Closed \<Rightarrow> b\<lparr>pm_failure_count := 0\<rparr>
      | Open \<Rightarrow> b)"

definition pm_failure_stamp :: "nat \<Rightarrow> u64" where
  "pm_failure_stamp now = max (word_of_nat now) 1"

definition pm_on_failure :: "nat \<Rightarrow> pm_breaker \<Rightarrow> pm_breaker" where
  "pm_on_failure now b =
     (let n = pm_failure_count b + 1;
          b = b\<lparr>pm_failure_count := n\<rparr>;
          b = b\<lparr>pm_last_failure_nanos := pm_failure_stamp now\<rparr>
      in if pm_failure_threshold (pm_cfg b) \<le> n then
           if pm_state b \<noteq> Open then b\<lparr>pm_state := Open, pm_success_count := 0\<rparr> else b
         else b)"

definition pm_call ::
  "nat \<Rightarrow> nat \<Rightarrow> (pm_breaker \<Rightarrow> ('e + 'a) \<times> pm_breaker) \<Rightarrow> pm_breaker
     \<Rightarrow> ('e pm_error + 'a) \<times> pm_breaker" where
  "pm_call now now' f b =
     (case pm_admit now b of
        (False, b1) \<Rightarrow> (Inl BreakerOpen, b1)
      | (True, b1) \<Rightarrow>
          (case f b1 of
             (Inr r, b2) \<Rightarrow> (Inr r, pm_on_success b2)
           | (Inl e, b2) \<Rightarrow> (Inl (Inner e), pm_on_failure now' b2)))"

definition pm_error_display :: "('e \<Rightarrow> string) \<Rightarrow> 'e pm_error \<Rightarrow> string" where
  "pm_error_display disp e =
     (case e of BreakerOpen \<Rightarrow> ''Circuit breaker is open'' | Inner x \<Rightarrow> disp x)"

section \<open>The registry\<close>

text \<open>
  The registry's map holds one shared breaker per model name; entries are never removed, so the
  \<open>Arc\<close> handed out for a name is the value the map keeps for it.
\<close>

record pm_registry =
  pm_breakers :: "string \<rightharpoonup> pm_breaker"
  pm_default :: pm_config

definition pm_registry_new :: "pm_config \<Rightarrow> pm_registry" where
  "pm_registry_new c = \<lparr>pm_breakers = Map.empty, pm_default = c\<rparr>"

definition pm_get_or_create :: "string \<Rightarrow> pm_registry \<Rightarrow> pm_breaker \<times> pm_registry" where
  "pm_get_or_create name r =
     (case pm_breakers r name of
        Some b \<Rightarrow> (b, r)
      | None \<Rightarrow>
          (let b = pm_new (pm_default r)
           in (b, r\<lparr>pm_breakers := (pm_breakers r)(name \<mapsto> b)\<rparr>)))"

text \<open>\<open>iter\<close> lists the keys in the order the concurrent map happens to iterate in.\<close>

definition pm_get_all_states :: "string list \<Rightarrow> pm_registry \<Rightarrow> (string \<times> circuit_state) list" where
  "pm_get_all_states iter r = map (\<lambda>k. (k, pm_state (the (pm_breakers r k)))) iter"

text \<open>A call through the registry: the handler's \<open>get_or_create(name).call(f)\<close>.\<close>

definition pm_registry_call ::
  "nat \<Rightarrow> nat \<Rightarrow> string \<Rightarrow> ('e + 'a) \<Rightarrow> pm_registry \<Rightarrow> ('e pm_error + 'a) \<times> pm_registry" where
  "pm_registry_call now now' name outcome r =
     (let (b, r) = pm_get_or_create name r;
          (res, b) = pm_call now now' (Pair outcome) b
      in (res, r\<lparr>pm_breakers := (pm_breakers r)(name \<mapsto> b)\<rparr>))"

section \<open>Invariant\<close>

definition pm_inv :: "pm_breaker \<Rightarrow> bool" where
  "pm_inv b \<longleftrightarrow>
     0 < pm_failure_threshold (pm_cfg b) \<and>
     (pm_state b = Closed \<longleftrightarrow> pm_failure_count b < pm_failure_threshold (pm_cfg b)) \<and>
     (pm_state b = Open \<longrightarrow> 0 < pm_last_failure_nanos b) \<and>
     (pm_state b \<noteq> HalfOpen \<longrightarrow> pm_success_count b = 0) \<and>
     (pm_state b = HalfOpen \<longrightarrow>
        pm_success_count b < max 1 (pm_success_threshold (pm_cfg b)))"

definition pm_room :: "pm_breaker \<Rightarrow> bool" where
  "pm_room b \<longleftrightarrow> unat (pm_failure_count b) + 1 < 2 ^ 64"

definition pm_need :: "pm_breaker \<Rightarrow> nat" where
  "pm_need b = unat (pm_success_threshold (pm_cfg b)) - unat (pm_success_count b)"

lemma pm_failure_stamp_pos [simp]: "0 < pm_failure_stamp now"
  by (simp add: pm_failure_stamp_def less_max_iff_disj)

lemma pm_new_inv [inv_intros]: "0 < pm_failure_threshold c \<Longrightarrow> pm_inv (pm_new c)"
  by (simp add: pm_inv_def pm_new_def)

lemma pm_admit_inv [inv_intros]: "pm_inv b \<Longrightarrow> pm_inv (snd (pm_admit now b))"
  by (auto simp: pm_inv_def pm_admit_def less_max_iff_disj)

lemma pm_on_success_inv [inv_intros]: "pm_inv b \<Longrightarrow> pm_inv (pm_on_success b)"
  by (cases "pm_state b") (auto simp: pm_inv_def pm_on_success_def Let_def not_le less_max_iff_disj)

lemma pm_room_inc: "pm_room b \<Longrightarrow> unat (pm_failure_count b + 1) = unat (pm_failure_count b) + 1"
  unfolding pm_room_def by (rule unat_inc) simp

lemma pm_on_failure_inv [inv_intros]:
  assumes "pm_inv b" "pm_room b"
  shows "pm_inv (pm_on_failure now b)"
  using assms(1) pm_room_inc [OF assms(2)] pm_failure_stamp_pos [of now]
  by (cases "pm_state b") (auto simp: pm_inv_def pm_on_failure_def Let_def word_le_nat_alt word_less_nat_alt)

lemma pm_success_count_inc:
  assumes "pm_inv b" "pm_state b = HalfOpen"
  shows "unat (pm_success_count b + 1) = unat (pm_success_count b) + 1"
  using assms by (intro unat_inc_less [of _ "max 1 (pm_success_threshold (pm_cfg b))"]) (simp add: pm_inv_def)

interpretation pm: breaker pm_state pm_admit pm_on_success pm_on_failure pm_inv
  pm_should_try_recovery pm_need pm_room
proof (unfold_locales, goal_cases)
  case (1 b t)
  then show ?case by (rule pm_admit_inv)
next
  case (2 b)
  then show ?case by (rule pm_on_success_inv)
next
  case (3 b t)
  then show ?case by (rule pm_on_failure_inv)
next
  case (8 b)
  then show ?case using pm_success_count_inc [of b]
    by (simp add: pm_on_success_def pm_need_def word_le_nat_alt Let_def)
next
  case (9 b)
  then show ?case using pm_success_count_inc [of b]
    by (auto simp: pm_on_success_def pm_need_def word_le_nat_alt Let_def)
next
  case (12 b t)
  then show ?case using pm_room_inc [of b]
    by (auto simp: pm_on_failure_def pm_inv_def word_le_nat_alt word_less_nat_alt Let_def)
qed (simp_all add: pm_admit_def pm_on_success_def pm_on_failure_def Let_def)

section \<open>Refinement\<close>

definition pm_abs :: "pm_breaker \<Rightarrow> abs_breaker" where
  "pm_abs b =
     (case pm_state b of
        Closed \<Rightarrow> AClosed (unat (pm_failure_count b))
      | Open \<Rightarrow> AOpen (unat (pm_last_failure_nanos b))
      | HalfOpen \<Rightarrow> AHalf (unat (pm_success_count b)))"

fun pm_step :: "breaker_op \<Rightarrow> pm_breaker \<Rightarrow> pm_breaker" where
  "pm_step (Acquire now) b = snd (pm_admit now b)"
| "pm_step Success b = pm_on_success b"
| "pm_step (Failure now) b = pm_on_failure now b"
| "pm_step Reset b = b"

fun pm_answers :: "breaker_op list \<Rightarrow> pm_breaker \<Rightarrow> bool list" where
  "pm_answers [] b = []"
| "pm_answers (e # es) b =
     (case e of Acquire now \<Rightarrow> [fst (pm_admit now b)] | _ \<Rightarrow> []) @ pm_answers es (pm_step e b)"

lemma unat_pm_failure_stamp: "0 < now \<Longrightarrow> now < 2 ^ 64 \<Longrightarrow> unat (pm_failure_stamp now) = now"
  by (simp add: pm_failure_stamp_def max_def word_le_nat_alt unat_of_nat_small)

lemma pm_step_config [simp]: "pm_cfg (pm_step e b) = pm_cfg b"
  by (cases e) (auto simp: pm_admit_def pm_on_success_def pm_on_failure_def Let_def
      split: circuit_state.splits)

lemma pm_step_inv [inv_intros]: "pm_inv b \<Longrightarrow> pm_room b \<Longrightarrow> pm_inv (pm_step e b)"
  by (cases e) (simp_all add: inv_intros)

lemma pm_step_failures: "pm_room b \<Longrightarrow>
    unat (pm_failure_count (pm_step e b)) \<le> Suc (unat (pm_failure_count b))"
  by (cases e) (auto simp: pm_admit_def pm_on_success_def pm_on_failure_def Let_def pm_room_inc
      split: circuit_state.splits)

lemma pm_on_success_abs:
  assumes "pm_inv b"
  shows "pm_abs (pm_on_success b) =
    spec_step f (unat (pm_success_threshold (pm_cfg b))) d Success (pm_abs b)"
  using assms pm_success_count_inc [OF assms]
  by (cases "pm_state b") (simp_all add: pm_on_success_def pm_abs_def Let_def word_le_nat_alt)

lemma pm_on_failure_abs:
  assumes "pm_inv b" "pm_room b" "0 < now" "now < 2 ^ 64"
  shows "pm_abs (pm_on_failure now b) =
    spec_step (unat (pm_failure_threshold (pm_cfg b))) s d (Failure now) (pm_abs b)"
  using assms pm_room_inc [OF assms(2)]
  by (cases "pm_state b") (auto simp: pm_on_failure_def pm_abs_def pm_inv_def Let_def
      word_le_nat_alt word_less_nat_alt unat_pm_failure_stamp)

lemma pm_admit_abs:
  assumes "pm_inv b"
  shows "pm_abs (snd (pm_admit now b)) =
      spec_step f s (Suc (pm_timeout (pm_cfg b))) (Acquire now) (pm_abs b)"
    and "fst (pm_admit now b) = spec_admits (Suc (pm_timeout (pm_cfg b))) now (pm_abs b)"
  using assms by (cases "pm_state b";
      simp add: pm_inv_def pm_admit_def pm_abs_def pm_should_try_recovery_def Let_def Suc_le_eq)+

lemma pm_step_abs:
  "pm_inv b \<Longrightarrow> pm_room b \<Longrightarrow> op_time_ok e \<Longrightarrow> e \<noteq> Reset \<Longrightarrow> pm_abs (pm_step e b) =
     spec_step (unat (pm_failure_threshold (pm_cfg b))) (unat (pm_success_threshold (pm_cfg b)))
       (Suc (pm_timeout (pm_cfg b))) e (pm_abs b)"
  by (cases e) (simp_all add: pm_admit_abs pm_on_success_abs pm_on_failure_abs)

lemma pm_answers_abs:
  "pm_inv b \<Longrightarrow> unat (pm_failure_count b) + length es < 2 ^ 64 \<Longrightarrow>
   \<forall>e \<in> set es. op_time_ok e \<and> e \<noteq> Reset \<Longrightarrow> pm_answers es b =
     spec_answers (unat (pm_failure_threshold (pm_cfg b))) (unat (pm_success_threshold (pm_cfg b)))
       (Suc (pm_timeout (pm_cfg b))) es (pm_abs b)"
proof (induction es arbitrary: b)
  case Nil
  then show ?case by simp
next
  case (Cons e es)
  then have room: "pm_room b" by (simp add: pm_room_def)
  have "unat (pm_failure_count (pm_step e b)) + length es < 2 ^ 64"
    using pm_step_failures [OF room, of e] Cons.prems(2) by simp
  with Cons room show ?case
    by (cases e) (simp_all add: pm_step_abs [symmetric] pm_admit_abs inv_intros
        del: pm_step.simps spec_step.simps)
qed

text \<open>
  The per-model breaker gives exactly the admission answers of the same abstract breaker,
  with one nanosecond more of waiting (it asks for strictly more than the timeout), over every
  run shorter than its 64-bit failure counter: counting failures across the half-open state
  does not change an answer, because a breaker that has opened keeps its count at or above the
  threshold until it closes.
\<close>

theorem pm_refines_spec:
  assumes "0 < pm_failure_threshold c" and "length es < 2 ^ 64"
    and "\<forall>e \<in> set es. op_time_ok e \<and> e \<noteq> Reset"
  shows "pm_answers es (pm_new c) =
    spec_answers (unat (pm_failure_threshold c)) (unat (pm_success_threshold c))
      (Suc (pm_timeout c)) es (AClosed 0)"
  using pm_answers_abs [OF pm_new_inv [OF assms(1)], of es] assms(2,3)
  by (simp add: pm_new_def pm_abs_def)

theorem pm_refines_spec_witness:
  "pm_answers [Failure 10, Acquire 70, Acquire 71, Failure 80, Acquire 90]
      (pm_new \<lparr>pm_failure_threshold = 1, pm_success_threshold = 1, pm_timeout = 60\<rparr>)
    = [False, True, False]"
  by (subst pm_refines_spec) simp_all

text \<open>
  C5. Isolation: a call for one model, whatever its outcome, changes only that model's breaker,
  creates it with the default configuration when it is new, and acts on it as a direct call
  would.
\<close>

theorem pm_registry_isolated:
  assumes "pm_registry_call now now' name outcome r = (res, r')"
  shows "(\<forall>other. other \<noteq> name \<longrightarrow> pm_breakers r' other = pm_breakers r other) \<and>
    pm_default r' = pm_default r \<and>
    (let b = (case pm_breakers r name of Some b \<Rightarrow> b | None \<Rightarrow> pm_new (pm_default r));
         (res1, b') = pm_call now now' (Pair outcome) b
     in res = res1 \<and> pm_breakers r' name = Some b')"
  using assms
  by (auto simp: pm_registry_call_def pm_get_or_create_def Let_def split: option.splits prod.splits)

theorem pm_registry_isolated_witness:
  "\<exists>res r'. pm_registry_call 5 9 ''yolo'' (Inl ''boom'' :: string + unit)
       (pm_registry_new pm_default_config) = (res, r') \<and>
     pm_breakers r' ''bert'' = None \<and> pm_breakers r' ''yolo'' \<noteq> None"
proof -
  obtain res r' where eq: "pm_registry_call 5 9 ''yolo'' (Inl ''boom'' :: string + unit)
       (pm_registry_new pm_default_config) = (res, r')"
    by fastforce
  show ?thesis
    using eq pm_registry_isolated [OF eq] by (auto simp: pm_registry_new_def Let_def split: prod.splits)
qed

end
