(* ===== verification/Floats.thy ===== *)
theory Floats
  imports Prelude Complex_Main
begin

text \<open>
  Floating point. An \<open>f64\<close> or \<open>f32\<close> value that is finite is a real number, and an operation on
  it is the exact operation followed by a rounding \<open>fl\<close>, which every definition takes as an
  argument. What the proofs use of \<open>fl\<close> is \<open>rounding\<close>: it is monotone and keeps 0 and
  the values it yields. Round to nearest, the mode of the hardware, is one such function; the
  identity is exact arithmetic. NaN and the infinities appear in the model only where the code
  can produce them from finite inputs (a division by zero), and there they are a branch of the
  definition.
\<close>

type_synonym rnd = "real \<Rightarrow> real"

definition rounding :: "rnd \<Rightarrow> bool" where
  "rounding fl \<longleftrightarrow> mono fl \<and> fl 0 = 0 \<and> (\<forall>x. fl (fl x) = fl x)"

definition representable :: "rnd \<Rightarrow> real \<Rightarrow> bool" where
  "representable fl x \<longleftrightarrow> fl x = x"

abbreviation exact :: rnd where
  "exact \<equiv> id"

lemma rounding_exact [simp]: "rounding exact"
  by (simp add: rounding_def mono_def)

lemma rounding_mono: "rounding fl \<Longrightarrow> x \<le> y \<Longrightarrow> fl x \<le> fl y"
  by (simp add: rounding_def mono_def)

lemma rounding_zero [simp]: "rounding fl \<Longrightarrow> fl 0 = 0"
  by (simp add: rounding_def)

lemma rounding_nonneg: "rounding fl \<Longrightarrow> 0 \<le> x \<Longrightarrow> 0 \<le> fl x"
  using rounding_mono [of fl 0 x] by simp

lemma rounding_below: "rounding fl \<Longrightarrow> representable fl c \<Longrightarrow> x \<le> c \<Longrightarrow> fl x \<le> c"
  using rounding_mono [of fl x c] by (simp add: representable_def)

lemma rounding_above: "rounding fl \<Longrightarrow> representable fl c \<Longrightarrow> c \<le> x \<Longrightarrow> c \<le> fl x"
  using rounding_mono [of fl c x] by (simp add: representable_def)

text \<open>\<open>Duration::as_secs_f64\<close>: whole seconds plus the nanoseconds over \<open>1e9\<close>.\<close>

definition as_secs_f64 :: "rnd \<Rightarrow> nat \<Rightarrow> real" where
  "as_secs_f64 fl d =
     fl (fl (real (d div 1000000000)) + fl (real (d mod 1000000000) / 1000000000))"

lemma as_secs_f64_nonneg: "rounding fl \<Longrightarrow> 0 \<le> as_secs_f64 fl d"
  by (simp add: as_secs_f64_def rounding_nonneg [of fl])

lemma as_secs_f64_exact [simp]: "as_secs_f64 exact d = real d / 1000000000"
proof -
  have "real d = real (d div 1000000000 * 1000000000 + d mod 1000000000)"
    by (simp only: div_mult_mod_eq)
  then have "real d = real (d div 1000000000) * 1000000000 + real (d mod 1000000000)"
    by (simp only: of_nat_add of_nat_mult of_nat_numeral)
  then show ?thesis by (simp add: as_secs_f64_def)
qed

text \<open>Round half to even, as \<open>Duration::from_secs_f64\<close> does on nanoseconds.\<close>

definition round_half_even :: "real \<Rightarrow> int" where
  "round_half_even x =
     (let n = \<lfloor>x\<rfloor>; d = x - of_int n
      in if d < 1 / 2 \<or> (d = 1 / 2 \<and> even n) then n else n + 1)"

text \<open>\<open>None\<close> is the panic on a negative or too large number of seconds.\<close>

definition from_secs_f64 :: "real \<Rightarrow> nat option" where
  "from_secs_f64 x =
     (if x < 0 \<or> 2 ^ 64 \<le> x then None else Some (nat (round_half_even (x * 1000000000))))"

text \<open>\<open>as u64\<close> from a float truncates and saturates.\<close>

definition f64_to_u64 :: "real \<Rightarrow> u64" where
  "f64_to_u64 x =
     (if x \<le> 0 then 0 else if 2 ^ 64 \<le> x then - 1 else word_of_nat (nat \<lfloor>x\<rfloor>))"

lemma f64_to_u64_le: "real (unat (f64_to_u64 x)) \<le> max x 0"
proof (cases "0 < x \<and> x < 2 ^ 64")
  case True
  then have "nat \<lfloor>x\<rfloor> < 2 ^ 64" by (simp add: nat_less_iff floor_less_iff)
  then have "unat (word_of_nat (nat \<lfloor>x\<rfloor>) :: u64) = nat \<lfloor>x\<rfloor>"
    by (intro unat_of_nat_small) simp
  moreover have "f64_to_u64 x = word_of_nat (nat \<lfloor>x\<rfloor>)"
    using True by (simp add: f64_to_u64_def)
  ultimately have "unat (f64_to_u64 x) = nat \<lfloor>x\<rfloor>" by (simp only:)
  moreover have "real (nat \<lfloor>x\<rfloor>) \<le> x" using True by (simp add: of_nat_nat)
  ultimately show ?thesis by simp
next
  case False
  have "real (unat (- 1 :: u64)) = 18446744073709551615"
    by (simp only: unsigned_minus_1_eq_mask mask_eq_exp_minus_1) simp
  with False show ?thesis by (auto simp: f64_to_u64_def simp del: of_nat_unat)
qed

end
