(* ===== verification/TokenBucket.thy ===== *)
theory TokenBucket
  imports Floats
begin

text \<open>
  \<open>src/src/resilience/token_bucket.rs\<close>: the token bucket and the per-key rate limiter. The two
  fields behind the bucket's mutex are fields of the record; every operation runs with the mutex
  held, so it is one transformer.
\<close>

record token_bucket =
  tb_capacity :: real
  tb_refill_rate :: real
  tb_tokens :: real
  tb_last_refill :: nat

definition tb_new :: "rnd \<Rightarrow> nat \<Rightarrow> nat \<Rightarrow> real \<Rightarrow> token_bucket" where
  "tb_new fl now capacity rate =
     \<lparr>tb_capacity = fl (real capacity), tb_refill_rate = rate,
      tb_tokens = fl (real capacity), tb_last_refill = now\<rparr>"

definition do_refill :: "rnd \<Rightarrow> nat \<Rightarrow> token_bucket \<Rightarrow> token_bucket" where
  "do_refill fl now b =
     (let elapsed = as_secs_f64 fl (now - tb_last_refill b);
          to_add = fl (elapsed * tb_refill_rate b)
      in if 0 < to_add
         then b\<lparr>tb_tokens := min (fl (tb_tokens b + to_add)) (tb_capacity b),
                tb_last_refill := now\<rparr>
         else b)"

definition tb_try_acquire :: "rnd \<Rightarrow> nat \<Rightarrow> real \<Rightarrow> token_bucket \<Rightarrow> bool \<times> token_bucket" where
  "tb_try_acquire fl now n b =
     (let s = do_refill fl now b
      in if n \<le> tb_tokens s then (True, s\<lparr>tb_tokens := fl (tb_tokens s - n)\<rparr>)
         else (False, s))"

text \<open>
  \<open>acquire\<close> returns the time to wait. \<open>Panic\<close> is \<open>Duration::from_secs_f64\<close> on a quotient that is
  negative, too large or, when the rate is 0, infinite.
\<close>

datatype acquire_result = Granted | WaitFor nat | Panic

definition wait_time :: "rnd \<Rightarrow> real \<Rightarrow> real \<Rightarrow> nat option" where
  "wait_time fl deficit rate =
     (if rate = 0 then None else from_secs_f64 (fl (deficit / rate)))"

definition tb_acquire :: "rnd \<Rightarrow> nat \<Rightarrow> real \<Rightarrow> token_bucket \<Rightarrow> acquire_result \<times> token_bucket" where
  "tb_acquire fl now n b =
     (let s = do_refill fl now b
      in if n \<le> tb_tokens s then (Granted, s\<lparr>tb_tokens := fl (tb_tokens s - n)\<rparr>)
         else (case wait_time fl (fl (n - tb_tokens s)) (tb_refill_rate s) of
                 Some d \<Rightarrow> (WaitFor d, s)
               | None \<Rightarrow> (Panic, s)))"

definition tb_available_tokens :: "rnd \<Rightarrow> nat \<Rightarrow> token_bucket \<Rightarrow> real \<times> token_bucket" where
  "tb_available_tokens fl now b = (let s = do_refill fl now b in (tb_tokens s, s))"

text \<open>\<open>Some 0\<close> is \<open>Duration::ZERO\<close>, \<open>None\<close> the panic.\<close>

definition tb_time_until_token :: "rnd \<Rightarrow> nat \<Rightarrow> token_bucket \<Rightarrow> nat option \<times> token_bucket" where
  "tb_time_until_token fl now b =
     (let s = do_refill fl now b
      in if 1 \<le> tb_tokens s then (Some 0, s)
         else (wait_time fl (fl (1 - tb_tokens s)) (tb_refill_rate s), s))"

section \<open>The per-key limiter\<close>

record keyed_limiter =
  kl_limiters :: "string \<rightharpoonup> token_bucket"
  kl_default_capacity :: nat
  kl_default_rate :: real

definition kl_new :: "nat \<Rightarrow> real \<Rightarrow> keyed_limiter" where
  "kl_new c r = \<lparr>kl_limiters = Map.empty, kl_default_capacity = c, kl_default_rate = r\<rparr>"

definition kl_get_or_create :: "rnd \<Rightarrow> nat \<Rightarrow> string \<Rightarrow> keyed_limiter \<Rightarrow> token_bucket \<times> keyed_limiter" where
  "kl_get_or_create fl now k l =
     (case kl_limiters l k of
        Some b \<Rightarrow> (b, l)
      | None \<Rightarrow>
          (let b = tb_new fl now (kl_default_capacity l) (kl_default_rate l)
           in (b, l\<lparr>kl_limiters := (kl_limiters l)(k \<mapsto> b)\<rparr>)))"

definition kl_try_acquire :: "rnd \<Rightarrow> nat \<Rightarrow> string \<Rightarrow> real \<Rightarrow> keyed_limiter \<Rightarrow> bool \<times> keyed_limiter" where
  "kl_try_acquire fl now k n l =
     (let (b, l) = kl_get_or_create fl now k l; (ok, b) = tb_try_acquire fl now n b
      in (ok, l\<lparr>kl_limiters := (kl_limiters l)(k \<mapsto> b)\<rparr>))"

definition kl_acquire ::
  "rnd \<Rightarrow> nat \<Rightarrow> string \<Rightarrow> real \<Rightarrow> keyed_limiter \<Rightarrow> acquire_result \<times> keyed_limiter" where
  "kl_acquire fl now k n l =
     (let (b, l) = kl_get_or_create fl now k l; (r, b) = tb_acquire fl now n b
      in (r, l\<lparr>kl_limiters := (kl_limiters l)(k \<mapsto> b)\<rparr>))"

definition kl_get_stats :: "rnd \<Rightarrow> nat \<Rightarrow> string \<Rightarrow> keyed_limiter \<Rightarrow> real option \<times> keyed_limiter" where
  "kl_get_stats fl now k l =
     (case kl_limiters l k of
        None \<Rightarrow> (None, l)
      | Some b \<Rightarrow>
          (let (t, b) = tb_available_tokens fl now b
           in (Some t, l\<lparr>kl_limiters := (kl_limiters l)(k \<mapsto> b)\<rparr>)))"

definition kl_remove :: "string \<Rightarrow> keyed_limiter \<Rightarrow> keyed_limiter" where
  "kl_remove k l = l\<lparr>kl_limiters := (kl_limiters l)(k := None)\<rparr>"

definition kl_clear :: "keyed_limiter \<Rightarrow> keyed_limiter" where
  "kl_clear l = l\<lparr>kl_limiters := Map.empty\<rparr>"

section \<open>Bounds, for every rounding\<close>

definition tb_inv :: "rnd \<Rightarrow> token_bucket \<Rightarrow> bool" where
  "tb_inv fl b \<longleftrightarrow> 0 \<le> tb_tokens b \<and> tb_tokens b \<le> tb_capacity b \<and> representable fl (tb_capacity b)"

lemma tb_new_inv [inv_intros]: "rounding fl \<Longrightarrow> tb_inv fl (tb_new fl now c r)"
  by (simp add: tb_inv_def tb_new_def rounding_nonneg [of fl] representable_def)
     (simp add: rounding_def)

lemma do_refill_inv [inv_intros]: "rounding fl \<Longrightarrow> tb_inv fl b \<Longrightarrow> tb_inv fl (do_refill fl now b)"
  by (auto simp: tb_inv_def do_refill_def Let_def min_def intro!: rounding_nonneg [of fl])

lemma do_refill_capacity [simp]: "tb_capacity (do_refill fl now b) = tb_capacity b"
  by (simp add: do_refill_def Let_def)

lemma do_refill_rate [simp]: "tb_refill_rate (do_refill fl now b) = tb_refill_rate b"
  by (simp add: do_refill_def Let_def)

lemma tb_spend_inv:
  assumes "rounding fl" "tb_inv fl s" "0 \<le> n" "n \<le> tb_tokens s"
  shows "tb_inv fl (s\<lparr>tb_tokens := fl (tb_tokens s - n)\<rparr>)"
proof -
  have "fl (tb_tokens s - n) \<le> tb_capacity s"
    using assms by (intro rounding_below [of fl]) (auto simp: tb_inv_def)
  with assms show ?thesis by (simp add: tb_inv_def rounding_nonneg [of fl])
qed

lemma tb_try_acquire_inv [inv_intros]:
  "rounding fl \<Longrightarrow> tb_inv fl b \<Longrightarrow> 0 \<le> n \<Longrightarrow> tb_inv fl (snd (tb_try_acquire fl now n b))"
  by (auto simp: tb_try_acquire_def Let_def intro: tb_spend_inv inv_intros)

lemma tb_acquire_inv [inv_intros]:
  "rounding fl \<Longrightarrow> tb_inv fl b \<Longrightarrow> 0 \<le> n \<Longrightarrow> tb_inv fl (snd (tb_acquire fl now n b))"
  by (auto simp: tb_acquire_def Let_def intro: tb_spend_inv inv_intros split: option.splits)

datatype tb_op = TryAcquire real | AcquireWait real | Available | TimeUntil

fun tb_step :: "rnd \<Rightarrow> nat \<times> tb_op \<Rightarrow> token_bucket \<Rightarrow> token_bucket" where
  "tb_step fl (now, TryAcquire n) b = snd (tb_try_acquire fl now n b)"
| "tb_step fl (now, AcquireWait n) b = snd (tb_acquire fl now n b)"
| "tb_step fl (now, Available) b = snd (tb_available_tokens fl now b)"
| "tb_step fl (now, TimeUntil) b = snd (tb_time_until_token fl now b)"

fun tb_demand :: "tb_op \<Rightarrow> real" where
  "tb_demand (TryAcquire n) = n"
| "tb_demand (AcquireWait n) = n"
| "tb_demand _ = 0"

lemma tb_step_inv [inv_intros]:
  assumes "rounding fl" "tb_inv fl b" "0 \<le> tb_demand (snd e)"
  shows "tb_inv fl (tb_step fl e b)"
  using assms by (cases e; cases "snd e")
     (auto simp: tb_available_tokens_def tb_time_until_token_def Let_def intro!: inv_intros)

lemma tb_run_inv:
  "rounding fl \<Longrightarrow> tb_inv fl b \<Longrightarrow> \<forall>e \<in> set es. 0 \<le> tb_demand (snd e) \<Longrightarrow>
   tb_inv fl (fold (tb_step fl) es b)"
  by (induction es arbitrary: b) (simp_all add: inv_intros del: tb_step.simps)

lemma tb_step_capacity [simp]: "tb_capacity (tb_step fl e b) = tb_capacity b"
  by (cases e; cases "snd e")
     (auto simp: tb_try_acquire_def tb_acquire_def tb_available_tokens_def
        tb_time_until_token_def Let_def split: option.splits)

lemma tb_run_capacity [simp]: "tb_capacity (fold (tb_step fl) es b) = tb_capacity b"
  by (induction es arbitrary: b) (simp_all del: tb_step.simps)

text \<open>
  Under every rounding mode and every sequence of operations whose demands are not negative,
  at any clock readings, the bucket holds between 0 and its capacity, and a demand above the
  capacity is never granted (so the wait that \<open>acquire\<close> then reports leads nowhere).
\<close>

theorem tb_tokens_bounded:
  assumes "rounding fl" and "\<forall>e \<in> set es. 0 \<le> tb_demand (snd e)"
    and "b = fold (tb_step fl) es (tb_new fl t0 c r)"
  shows "0 \<le> tb_tokens b \<and> tb_tokens b \<le> fl (real c) \<and>
    (fl (real c) < n \<longrightarrow>
       \<not> fst (tb_try_acquire fl now n b) \<and> fst (tb_acquire fl now n b) \<noteq> Granted)"
proof -
  have inv: "tb_inv fl b"
    unfolding assms(3) using assms(1,2) by (intro tb_run_inv tb_new_inv)
  have cap: "tb_capacity b = fl (real c)" unfolding assms(3) by (simp add: tb_new_def)
  have "tb_tokens (do_refill fl now b) \<le> fl (real c)"
    using do_refill_inv [OF assms(1) inv, of now] cap by (simp add: tb_inv_def)
  then show ?thesis
    using inv cap by (auto simp: tb_inv_def tb_try_acquire_def tb_acquire_def Let_def split: option.splits)
qed

theorem tb_tokens_bounded_witness:
  "let b = fold (tb_step exact) [(5, TryAcquire 3)] (tb_new exact 0 10 2)
   in 0 \<le> tb_tokens b \<and> tb_tokens b \<le> 10 \<and> fst (tb_acquire exact 9 11 b) \<noteq> Granted"
  using tb_tokens_bounded [of exact "[(5, TryAcquire 3)]" _ 0 10 2 11 9] by simp

section \<open>The rate, in exact arithmetic\<close>

text \<open>Tokens handed out by a run of \<open>try_acquire\<close> calls.\<close>

fun tb_granted :: "rnd \<Rightarrow> (nat \<times> real) list \<Rightarrow> token_bucket \<Rightarrow> real" where
  "tb_granted fl [] b = 0"
| "tb_granted fl ((now, n) # es) b =
     (let (ok, b') = tb_try_acquire fl now n b in (if ok then n else 0) + tb_granted fl es b')"

lemma tb_spend_exact: "tb_inv exact s \<Longrightarrow> 0 \<le> n \<Longrightarrow> n \<le> tb_tokens s \<Longrightarrow>
    tb_inv exact (s\<lparr>tb_tokens := tb_tokens s - n\<rparr>)"
  by (simp add: tb_inv_def representable_def)

lemma tb_granted_bound:
  assumes "sorted (map fst es)" "\<forall>(now, n) \<in> set es. tb_last_refill b \<le> now \<and> now \<le> t \<and> 0 \<le> n"
    and "0 \<le> tb_refill_rate b" "tb_inv exact b" "tb_last_refill b \<le> t"
  shows "tb_granted exact es b \<le>
    tb_tokens b + tb_refill_rate b * (real (t - tb_last_refill b) / 1000000000)"
  using assms
proof (induction es arbitrary: b)
  case Nil
  then show ?case by (simp add: tb_inv_def)
next
  case (Cons e es)
  obtain now n where e: "e = (now, n)" by (cases e)
  let ?s = "do_refill exact now b"
  have now: "tb_last_refill b \<le> now" "now \<le> t" "0 \<le> n" using Cons.prems(2) e by auto
  have later: "\<forall>(u, m) \<in> set es. now \<le> u \<and> u \<le> t \<and> 0 \<le> m"
    using Cons.prems(1,2) e by auto
  have inv: "tb_inv exact ?s" by (rule do_refill_inv [OF rounding_exact Cons.prems(4)])
  have last: "tb_last_refill ?s \<le> now" using now by (simp add: do_refill_def Let_def)
  have bank: "tb_tokens ?s + tb_refill_rate b * (real (t - tb_last_refill ?s) / 1000000000) \<le>
      tb_tokens b + tb_refill_rate b * (real (t - tb_last_refill b) / 1000000000)"
    using now by (auto simp: do_refill_def Let_def of_nat_diff min_def field_simps)
  show ?case
  proof (cases "n \<le> tb_tokens ?s")
    case True
    let ?b' = "?s\<lparr>tb_tokens := tb_tokens ?s - n\<rparr>"
    have "tb_granted exact es ?b' \<le>
        tb_tokens ?b' + tb_refill_rate ?b' * (real (t - tb_last_refill ?b') / 1000000000)"
      using Cons.prems(1,3) later last now tb_spend_exact [OF inv now(3) True] e
      by (intro Cons.IH) (auto simp del: id_apply)
    moreover have "tb_try_acquire exact now n b = (True, ?b')"
      using True by (simp add: tb_try_acquire_def Let_def)
    then have "tb_granted exact (e # es) b = n + tb_granted exact es ?b'"
      by (simp only: e tb_granted.simps Let_def split_conv if_True)
    ultimately show ?thesis using bank by (simp del: id_apply)
  next
    case False
    have "tb_granted exact es ?s \<le>
        tb_tokens ?s + tb_refill_rate ?s * (real (t - tb_last_refill ?s) / 1000000000)"
      using Cons.prems(1,3) later last now inv e by (intro Cons.IH) (auto simp del: id_apply)
    moreover have "tb_try_acquire exact now n b = (False, ?s)"
      using False by (simp add: tb_try_acquire_def Let_def)
    then have "tb_granted exact (e # es) b = tb_granted exact es ?s"
      by (simp only: e tb_granted.simps Let_def split_conv if_False add_0)
    ultimately show ?thesis using bank by (simp del: id_apply)
  qed
qed

text \<open>
  C4. The rate limit itself, in exact arithmetic: over any run of \<open>try_acquire\<close> calls at clock
  readings that do not go back, from the creation of the bucket to time \<open>t\<close>, the tokens
  handed out are at most the capacity plus the rate times the seconds passed.
\<close>

theorem tb_rate_limited:
  assumes "sorted (map fst es)" and "\<forall>(now, n) \<in> set es. t0 \<le> now \<and> now \<le> t \<and> 0 \<le> n"
    and "0 \<le> r" and "t0 \<le> t"
  shows "tb_granted exact es (tb_new exact t0 c r) \<le>
    real c + r * (real (t - t0) / 1000000000)"
  using tb_granted_bound [OF assms(1), of "tb_new exact t0 c r" t] assms(2-4)
    tb_new_inv [OF rounding_exact, of t0 c r]
  by (simp add: tb_new_def)

theorem tb_rate_limited_witness:
  "tb_granted exact [(0, 2), (500000000, 1), (1000000000, 1)] (tb_new exact 0 2 1) \<le> 3"
  using tb_rate_limited [of "[(0, 2), (500000000, 1), (1000000000, 1)]" 0 1000000000 1 2]
  by simp

end
