(* ===== verification/Permits.thy ===== *)
theory Permits
  imports Prelude
begin

text \<open>
  Counting semaphores. The server and the LLM service gate work with tokio semaphores: a permit
  is taken without waiting or with waiting, and comes back when its guard is dropped. The locale
  is what those users need of a gate: how many permits are left, taking one when there is one,
  giving one back.
\<close>

datatype gate_op = TakePermit | DropPermit

locale permit_gate =
  fixes cap :: nat
    and avail :: "'s \<Rightarrow> nat"
    and take :: "'s \<Rightarrow> 's option"
    and give :: "'s \<Rightarrow> 's"
    and init :: 's
  assumes avail_init: "avail init = cap"
    and take_None: "take s = None \<longleftrightarrow> avail s = 0"
    and take_Some: "take s = Some s' \<Longrightarrow> Suc (avail s') = avail s"
    and avail_give: "avail (give s) = Suc (avail s)"
begin

text \<open>
  A run of clients: the second component counts the guards alive. A drop without a live guard
  cannot happen (a guard is dropped once), so it leaves the state as it is.
\<close>

fun gate_step :: "gate_op \<Rightarrow> 's \<times> nat \<Rightarrow> 's \<times> nat" where
  "gate_step TakePermit (s, held) =
     (case take s of Some s' \<Rightarrow> (s', Suc held) | None \<Rightarrow> (s, held))"
| "gate_step DropPermit (s, held) = (if 0 < held then (give s, held - 1) else (s, held))"

lemma gate_step_conserves:
  "avail s + held = cap \<Longrightarrow> gate_step e (s, held) = (s', held') \<Longrightarrow> avail s' + held' = cap"
  by (cases e) (auto simp: avail_give dest: take_Some split: option.splits if_splits)

lemma gate_run_conserves:
  "avail s + held = cap \<Longrightarrow> fold gate_step es (s, held) = (s', held') \<Longrightarrow> avail s' + held' = cap"
proof (induction es arbitrary: s held)
  case Nil
  then show ?case by simp
next
  case (Cons e es)
  obtain s1 h1 where st: "gate_step e (s, held) = (s1, h1)" by (cases "gate_step e (s, held)")
  with Cons.prems have "fold gate_step es (s1, h1) = (s', held')" by simp
  with gate_step_conserves [OF Cons.prems(1) st] show ?case by (rule Cons.IH)
qed

text \<open>Never more guards than permits, and a refusal means that all of them are out.\<close>

lemma gate_held_le:
  "fold gate_step es (init, 0) = (s, held) \<Longrightarrow> held \<le> cap \<and> (take s = None \<longleftrightarrow> held = cap)"
  using gate_run_conserves [of init 0 es s held] by (auto simp: avail_init take_None)

end

section \<open>The bulkhead\<close>

text \<open>\<open>src/src/resilience/bulkhead.rs\<close>; the semaphore is its number of available permits.\<close>

record bulkhead_config =
  max_concurrent :: nat
  queue_size :: nat

record bulkhead =
  bh_permits :: nat
  bh_config :: bulkhead_config

definition bh_default_config :: bulkhead_config where
  "bh_default_config = \<lparr>max_concurrent = 100, queue_size = 1000\<rparr>"

definition bh_new :: "bulkhead_config \<Rightarrow> bulkhead" where
  "bh_new c = \<lparr>bh_permits = max_concurrent c, bh_config = c\<rparr>"

definition bh_acquire_permit :: "bulkhead \<Rightarrow> (string + unit) \<times> bulkhead" where
  "bh_acquire_permit b =
     (if 0 < bh_permits b then (Inr (), b\<lparr>bh_permits := bh_permits b - 1\<rparr>)
      else (Inl ''Bulkhead at capacity'', b))"

text \<open>Dropping the \<open>OwnedSemaphorePermit\<close> returned by \<open>acquire_permit\<close>.\<close>

definition bh_drop_permit :: "bulkhead \<Rightarrow> bulkhead" where
  "bh_drop_permit b = b\<lparr>bh_permits := Suc (bh_permits b)\<rparr>"

definition bh_available_permits :: "bulkhead \<Rightarrow> nat" where
  "bh_available_permits b = bh_permits b"

definition bh_max_concurrent :: "bulkhead \<Rightarrow> nat" where
  "bh_max_concurrent b = max_concurrent (bh_config b)"

definition bh_take :: "bulkhead \<Rightarrow> bulkhead option" where
  "bh_take b = (case bh_acquire_permit b of (Inr _, b') \<Rightarrow> Some b' | (Inl _, _) \<Rightarrow> None)"

interpretation bh: permit_gate "max_concurrent c" bh_available_permits bh_take bh_drop_permit
  "bh_new c" for c
  by unfold_locales
     (auto simp: bh_available_permits_def bh_take_def bh_acquire_permit_def bh_drop_permit_def
        bh_new_def split: if_splits)

section \<open>The engine lease\<close>

text \<open>
  \<open>src/services/llm/src/engine_lease.rs\<close>: at least one permit; \<open>acquire\<close> waits, so a step
  without a permit leaves the caller waiting (\<open>None\<close>) and the lease as it is.
\<close>

record engine_lease =
  el_permits :: nat

definition el_new :: "nat \<Rightarrow> engine_lease" where
  "el_new permits = \<lparr>el_permits = max permits 1\<rparr>"

definition el_acquire :: "engine_lease \<Rightarrow> engine_lease option" where
  "el_acquire l = (if 0 < el_permits l then Some (l\<lparr>el_permits := el_permits l - 1\<rparr>) else None)"

definition el_drop :: "engine_lease \<Rightarrow> engine_lease" where
  "el_drop l = l\<lparr>el_permits := Suc (el_permits l)\<rparr>"

definition el_available :: "engine_lease \<Rightarrow> nat" where
  "el_available l = el_permits l"

interpretation el: permit_gate "max n 1" el_available el_acquire el_drop "el_new n" for n
  by unfold_locales
     (auto simp: el_available_def el_acquire_def el_drop_def el_new_def split: if_splits)

section \<open>Properties\<close>

text \<open>A run of a bulkhead's clients: the permits alive are counted beside it.\<close>

fun bh_step :: "gate_op \<Rightarrow> bulkhead \<times> nat \<Rightarrow> bulkhead \<times> nat" where
  "bh_step TakePermit (b, held) =
     (case bh_acquire_permit b of (Inr _, b') \<Rightarrow> (b', Suc held) | (Inl _, b') \<Rightarrow> (b', held))"
| "bh_step DropPermit (b, held) = (if 0 < held then (bh_drop_permit b, held - 1) else (b, held))"

lemma bh_step_gate: "bh_step e s = bh.gate_step e s"
  by (cases s; cases e) (auto simp: bh_take_def bh_acquire_permit_def)

text \<open>
  In every run of acquisitions and drops the bulkhead has at most \<open>max_concurrent\<close> permits
  out, the permits out and the permits available add up to it, and an acquisition is refused
  exactly when all of them are out.
\<close>

theorem bulkhead_bounded:
  assumes "fold bh_step es (bh_new c, 0) = (b, held)"
  shows "held \<le> max_concurrent c \<and> bh_available_permits b + held = max_concurrent c \<and>
    (fst (bh_acquire_permit b) = Inl ''Bulkhead at capacity'' \<longleftrightarrow> held = max_concurrent c)"
proof -
  have run: "fold bh.gate_step es (bh_new c, 0) = (b, held)"
    using assms by (simp add: bh_step_gate [abs_def])
  have "bh_available_permits b + held = max_concurrent c"
    using run by (rule bh.gate_run_conserves [rotated]) (simp add: bh.avail_init)
  with bh.gate_held_le [OF run] show ?thesis
    by (auto simp: bh_take_def bh_acquire_permit_def bh_available_permits_def split: if_splits)
qed

theorem bulkhead_bounded_witness:
  "\<exists>b held. fold bh_step [TakePermit, TakePermit, TakePermit, DropPermit]
      (bh_new \<lparr>max_concurrent = 2, queue_size = 9\<rparr>, 0) = (b, held) \<and> held = 1 \<and> held \<le> 2"
proof -
  have run: "fold bh_step [TakePermit, TakePermit, TakePermit, DropPermit]
      (bh_new \<lparr>max_concurrent = 2, queue_size = 9\<rparr>, 0) =
      (\<lparr>bh_permits = 1, bh_config = \<lparr>max_concurrent = 2, queue_size = 9\<rparr>\<rparr>, 1)"
    by (simp add: bh_new_def bh_acquire_permit_def bh_drop_permit_def)
  show ?thesis using run bulkhead_bounded [OF run] by simp
qed

end
