(* ===== verification/Retry.thy ===== *)
theory Retry
  imports Floats
begin

text \<open>
  \<open>src/src/resilience/retry.rs\<close>: the retry policy. The operation retried is \<open>f\<close>, given as the
  result of its n-th call (from 0); the random jitter of a delay is an argument; the waits are
  collected in order instead of slept.
\<close>

record retry_policy =
  max_retries :: nat
  base_delay :: nat
  max_delay :: nat
  multiplier :: real
  jitter :: bool

definition retry_default :: retry_policy where
  "retry_default = \<lparr>max_retries = 3, base_delay = 100 * 1000000, max_delay = 30 * 1000000000,
     multiplier = 2, jitter = True\<rparr>"

definition retry_new :: "nat \<Rightarrow> retry_policy" where
  "retry_new n = retry_default\<lparr>max_retries := n\<rparr>"

definition retry_with_delays :: "nat \<Rightarrow> nat \<Rightarrow> nat \<Rightarrow> retry_policy" where
  "retry_with_delays n b m = retry_default\<lparr>max_retries := n, base_delay := b, max_delay := m\<rparr>"

definition as_millis :: "nat \<Rightarrow> nat" where
  "as_millis d = d div 1000000"

text \<open>
  The delay in milliseconds. \<open>attempt as i32 - 1\<close> is the exponent, read at 32 bits; \<open>rnd_jitter\<close>
  is what \<open>gen_range(-0.15..=0.15)\<close> returned.
\<close>

definition calculate_delay :: "rnd \<Rightarrow> real \<Rightarrow> retry_policy \<Rightarrow> nat \<Rightarrow> u64" where
  "calculate_delay fl rnd_jitter p attempt =
     (let base_ms = fl (real (as_millis (base_delay p)));
          e = sint (word_of_nat attempt :: 32 word) - 1;
          delay_ms = fl (base_ms * fl (multiplier p powi e));
          capped_ms = min delay_ms (fl (real (as_millis (max_delay p))));
          final_ms = (if jitter p then max (fl (capped_ms * fl (1 + rnd_jitter))) 0 else capped_ms)
      in f64_to_u64 final_ms)"

text \<open>
  \<open>execute\<close>: \<open>attempt\<close> is the number of calls that have failed. The result carries the waits.
\<close>

function retry_loop ::
  "(nat \<Rightarrow> u64) \<Rightarrow> nat \<Rightarrow> (nat \<Rightarrow> 'e + 'a) \<Rightarrow> nat \<Rightarrow> ('e + 'a) \<times> u64 list" where
  "retry_loop delay n f attempt =
     (case f attempt of
        Inr r \<Rightarrow> (Inr r, [])
      | Inl e \<Rightarrow>
          (let attempt = attempt + 1
           in if n < attempt then (Inl e, [])
              else (let (r, waits) = retry_loop delay n f attempt in (r, delay attempt # waits))))"
  by pat_completeness auto
termination
  by (relation "measure (\<lambda>(delay, n, f, attempt). Suc n - attempt)") auto

declare retry_loop.simps [simp del]

definition retry_execute ::
  "rnd \<Rightarrow> (nat \<Rightarrow> real) \<Rightarrow> retry_policy \<Rightarrow> (nat \<Rightarrow> 'e + 'a) \<Rightarrow> ('e + 'a) \<times> u64 list" where
  "retry_execute fl jit p f = retry_loop (\<lambda>k. calculate_delay fl (jit k) p k) (max_retries p) f 0"

function retry_loop_if ::
  "(nat \<Rightarrow> u64) \<Rightarrow> nat \<Rightarrow> ('e \<Rightarrow> bool) \<Rightarrow> (nat \<Rightarrow> 'e + 'a) \<Rightarrow> nat \<Rightarrow> ('e + 'a) \<times> u64 list" where
  "retry_loop_if delay n retryable f attempt =
     (case f attempt of
        Inr r \<Rightarrow> (Inr r, [])
      | Inl e \<Rightarrow>
          if \<not> retryable e then (Inl e, [])
          else
            (let attempt = attempt + 1
             in if n < attempt then (Inl e, [])
                else (let (r, waits) = retry_loop_if delay n retryable f attempt
                      in (r, delay attempt # waits))))"
  by pat_completeness auto
termination
  by (relation "measure (\<lambda>(delay, n, q, f, attempt). Suc n - attempt)") auto

declare retry_loop_if.simps [simp del]

definition retry_execute_if ::
  "rnd \<Rightarrow> (nat \<Rightarrow> real) \<Rightarrow> retry_policy \<Rightarrow> ('e \<Rightarrow> bool) \<Rightarrow> (nat \<Rightarrow> 'e + 'a)
     \<Rightarrow> ('e + 'a) \<times> u64 list" where
  "retry_execute_if fl jit p retryable f =
     retry_loop_if (\<lambda>k. calculate_delay fl (jit k) p k) (max_retries p) retryable f 0"

section \<open>What the loops do\<close>

lemma retry_loop_if_True: "retry_loop_if delay n (\<lambda>_. True) f k = retry_loop delay n f k"
proof (induction delay n f k rule: retry_loop.induct)
  case (1 delay n f k)
  then show ?case
    by (simp add: retry_loop_if.simps [of delay n _ f k] retry_loop.simps [of delay n f k] Let_def
        split: sum.splits)
qed

text \<open>
  The loop stops at the first call that succeeds, fails for good or is the last allowed one.
\<close>

definition stops_at :: "nat \<Rightarrow> ('e \<Rightarrow> bool) \<Rightarrow> ('e + 'a) \<Rightarrow> nat \<Rightarrow> bool" where
  "stops_at n retryable r k \<longleftrightarrow> (case r of Inr _ \<Rightarrow> True | Inl e \<Rightarrow> \<not> retryable e \<or> n \<le> k)"

lemma retry_loop_if_spec:
  assumes "\<forall>j. a \<le> j \<and> j < k \<longrightarrow> \<not> stops_at n retryable (f j) j" "a \<le> k"
    and "stops_at n retryable (f k) k"
  shows "retry_loop_if delay n retryable f a = (f k, map delay [Suc a..<Suc k])"
  using assms
proof (induction "k - a" arbitrary: a)
  case 0
  then have [simp]: "a = k" by simp
  show ?case
    using "0.prems"(3) by (auto simp: retry_loop_if.simps [of _ _ _ _ k] stops_at_def split: sum.splits)
next
  case (Suc m)
  then have lt: "a < k" by simp
  then have "\<not> stops_at n retryable (f a) a" using Suc.prems(1) by simp
  then obtain e where e: "f a = Inl e" "retryable e" "a < n"
    by (auto simp: stops_at_def not_le split: sum.splits)
  have "retry_loop_if delay n retryable f (Suc a) = (f k, map delay [Suc (Suc a)..<Suc k])"
    using Suc.prems lt Suc.hyps(2) by (intro Suc.hyps(1)) auto
  moreover have "[Suc a..<Suc k] = Suc a # [Suc (Suc a)..<Suc k]"
    using lt by (simp add: upt_conv_Cons)
  ultimately show ?case
    using e by (simp add: retry_loop_if.simps [of _ _ _ _ a])
qed

lemma stops_at_first:
  "\<exists>k \<le> n. stops_at n retryable (f k) k \<and> (\<forall>j < k. \<not> stops_at n retryable (f j) j)"
proof -
  have ex: "stops_at n retryable (f n) n" by (auto simp: stops_at_def split: sum.splits)
  let ?k = "LEAST k. stops_at n retryable (f k) k"
  have "stops_at n retryable (f ?k) ?k" using ex by (rule LeastI)
  moreover have "?k \<le> n" using ex by (rule Least_le)
  moreover have "\<forall>j < ?k. \<not> stops_at n retryable (f j) j" using not_less_Least by blast
  ultimately show ?thesis by blast
qed

text \<open>
  C5. \<open>execute_if\<close> calls the operation at most \<open>max_retries + 1\<close> times and returns the result
  of its last call \<open>k\<close>: every earlier call failed with a retryable error, and call \<open>k\<close> succeeded,
  failed with an error that is not retryable, or was the last one allowed. Between the calls
  it waits the \<open>k\<close> delays of attempts \<open>1..k\<close>. \<open>execute\<close> is the case where every error is
  retryable.
\<close>

theorem retry_execute_spec:
  "(\<exists>k \<le> max_retries p.
      (\<forall>j < k. \<exists>e. f j = Inl e \<and> retryable e) \<and>
      (isl (f k) \<longrightarrow> \<not> retryable (projl (f k)) \<or> k = max_retries p) \<and>
      retry_execute_if fl jit p retryable f =
        (f k, map (\<lambda>i. calculate_delay fl (jit i) p i) [1..<Suc k])) \<and>
   retry_execute fl jit p f = retry_execute_if fl jit p (\<lambda>_. True) f"
proof (intro conjI)
  obtain k where k: "k \<le> max_retries p" "stops_at (max_retries p) retryable (f k) k"
      "\<forall>j < k. \<not> stops_at (max_retries p) retryable (f j) j"
    using stops_at_first by blast
  have run: "retry_execute_if fl jit p retryable f =
      (f k, map (\<lambda>i. calculate_delay fl (jit i) p i) [1..<Suc k])"
    unfolding retry_execute_if_def using k by (subst retry_loop_if_spec [of 0 k]) auto
  have "\<forall>j < k. \<exists>e. f j = Inl e \<and> retryable e"
  proof (intro allI impI)
    fix j assume "j < k"
    with k(3) have "\<not> stops_at (max_retries p) retryable (f j) j" by simp
    then show "\<exists>e. f j = Inl e \<and> retryable e" by (cases "f j") (auto simp: stops_at_def)
  qed
  moreover have "isl (f k) \<longrightarrow> \<not> retryable (projl (f k)) \<or> k = max_retries p"
    using k(1,2) by (cases "f k") (auto simp: stops_at_def)
  ultimately show "\<exists>k \<le> max_retries p.
      (\<forall>j < k. \<exists>e. f j = Inl e \<and> retryable e) \<and>
      (isl (f k) \<longrightarrow> \<not> retryable (projl (f k)) \<or> k = max_retries p) \<and>
      retry_execute_if fl jit p retryable f =
        (f k, map (\<lambda>i. calculate_delay fl (jit i) p i) [1..<Suc k])"
    using k(1) run by blast
  show "retry_execute fl jit p f = retry_execute_if fl jit p (\<lambda>_. True) f"
    by (simp add: retry_execute_def retry_execute_if_def retry_loop_if_True)
qed

theorem retry_execute_spec_witness:
  "fst (retry_execute_if exact (\<lambda>_. 0) (retry_new 3) (\<lambda>_. True) (\<lambda>n. Inl n :: nat + unit)) = Inl 3"
  using retry_execute_spec [of "retry_new 3" "\<lambda>n. Inl n :: nat + unit" "\<lambda>_. True" exact "\<lambda>_. 0"]
  by (auto simp: retry_new_def)

text \<open>
  Under every rounding mode, a wait without jitter never exceeds \<open>max_delay\<close> (in
  milliseconds, as a float), and one with jitter exceeds it by at most the 15 percent of the
  jitter range, whatever the attempt, the base delay and the (not negative) multiplier are.
\<close>

theorem retry_delay_bounded:
  assumes "rounding fl" and "-0.15 \<le> r" and "r \<le> 0.15" and "0 \<le> multiplier p"
  shows "real (unat (calculate_delay fl r p attempt)) \<le>
    (if jitter p then fl (fl (real (as_millis (max_delay p))) * fl (1 + 0.15))
     else fl (real (as_millis (max_delay p))))"
proof -
  let ?m = "fl (real (as_millis (max_delay p)))"
  let ?c = "min (fl (fl (real (as_millis (base_delay p))) *
    fl (multiplier p powi (sint (word_of_nat attempt :: 32 word) - 1)))) ?m"
  let ?w = "if jitter p then max (fl (?c * fl (1 + r))) 0 else ?c"
  have m: "0 \<le> ?m" using assms(1) by (simp add: rounding_nonneg [of fl])
  have "0 \<le> multiplier p powi (sint (word_of_nat attempt :: 32 word) - 1)"
    using assms(4) by simp
  then have c: "0 \<le> ?c" using assms(1) m by (simp add: rounding_nonneg [of fl])
  have up: "fl (1 + r) \<le> fl (1 + 0.15)" using assms(1,3) by (intro rounding_mono [of fl]) auto
  have "?c * fl (1 + r) \<le> ?m * fl (1 + 0.15)"
    using c m up assms by (intro mult_mono) (auto intro: rounding_nonneg [of fl])
  then have "fl (?c * fl (1 + r)) \<le> fl (?m * fl (1 + 0.15))"
    by (rule rounding_mono [OF assms(1)])
  moreover have "0 \<le> fl (?m * fl (1 + 0.15))"
    using assms(1) m by (intro rounding_nonneg [of fl] mult_nonneg_nonneg) auto
  ultimately have "max ?w 0 \<le> (if jitter p then fl (?m * fl (1 + 0.15)) else ?m)"
    using m by simp
  moreover have "real (unat (calculate_delay fl r p attempt)) \<le> max ?w 0"
    unfolding calculate_delay_def Let_def by (rule f64_to_u64_le)
  ultimately show ?thesis by linarith
qed

theorem retry_delay_bounded_witness:
  "real (unat (calculate_delay exact 0.1 (retry_default\<lparr>jitter := False\<rparr>) 40)) \<le> 30000"
  using retry_delay_bounded [of exact "0.1" "retry_default\<lparr>jitter := False\<rparr>" 40]
  by (simp add: retry_default_def as_millis_def)

end
