(* ===== verification/HeapQueue.thy ===== *)
theory HeapQueue
  imports Prelude "HOL-Library.Product_Lexorder"
begin

text \<open>
  The priority queue both batchers are built on. A \<open>std::collections::BinaryHeap\<close> pops an
  element that is greatest in the element's \<open>Ord\<close>; here the order is a rank (smaller pops
  first) and the heap is the list of its elements. The locale states what a drain loop needs
  of a queue, and proves once what draining returns.
\<close>

section \<open>Selection sort is the stable sort\<close>

lemma sort_key_stable': "filter (\<lambda>y. k = f y) (sort_key f xs) = filter (\<lambda>y. k = f y) xs"
  using sort_key_stable [of f k xs] by (simp add: eq_commute)

lemma min_by_key_head:
  assumes "min_by_key f xs = Some x"
  shows "sort_key f xs = x # sort_key f (remove1 x xs)"
proof (rule properties_for_sort_key)
  have x: "x \<in> set xs" "\<forall>y \<in> set xs. f x \<le> f y" using min_by_key_Some [OF assms] by auto
  show "mset (x # sort_key f (remove1 x xs)) = mset xs" using x(1) by simp
  show "sorted (map f (x # sort_key f (remove1 x xs)))"
    using x(2) by (auto dest: notin_set_remove1 set_remove1_subset [THEN subsetD])
next
  fix k assume "k \<in> set (x # sort_key f (remove1 x xs))"
  have first: "filter (\<lambda>y. f x = f y) xs = x # filter (\<lambda>y. f x = f y) (remove1 x xs)"
    using assms
  proof (induction xs arbitrary: x)
    case Nil
    then show ?case by simp
  next
    case (Cons a xs)
    show ?case
    proof (cases "min_by_key f xs")
      case None
      with Cons.prems show ?thesis by simp
    next
      case (Some y)
      show ?thesis
      proof (cases "f a \<le> f y")
        case True
        with Some Cons.prems show ?thesis by simp
      next
        case False
        with Some Cons.prems have "x = y" by simp
        with Cons.IH [OF Some] False show ?thesis by auto
      qed
    qed
  qed
  show "filter (\<lambda>y. f k = f y) (x # sort_key f (remove1 x xs)) = filter (\<lambda>y. f k = f y) xs"
  proof (cases "f k = f x")
    case True
    then show ?thesis using first by (simp add: sort_key_stable')
  next
    case False
    then have "filter (\<lambda>y. f k = f y) (remove1 x xs) = filter (\<lambda>y. f k = f y) xs"
      by (induction xs) auto
    with False show ?thesis by (simp add: sort_key_stable')
  qed
qed

locale ranked_queue =
  fixes rank :: "'a \<Rightarrow> 'k::linorder"
    and pop :: "'q \<Rightarrow> ('a \<times> 'q) option"
    and elems :: "'q \<Rightarrow> 'a list"
  assumes pop_None: "pop q = None \<longleftrightarrow> elems q = []"
    and pop_elems: "pop q = Some (x, q') \<Longrightarrow> elems q' = remove1 x (elems q)"
    and pop_first: "pop q = Some (x, q') \<Longrightarrow> min_by_key rank (elems q) = Some x"
begin

text \<open>\<open>n\<close> pops, stopping when the queue is empty.\<close>

fun pops :: "nat \<Rightarrow> 'q \<Rightarrow> 'a list \<times> 'q" where
  "pops 0 q = ([], q)"
| "pops (Suc n) q =
     (case pop q of
        None \<Rightarrow> ([], q)
      | Some (x, q') \<Rightarrow> (let (xs, q'') = pops n q' in (x # xs, q'')))"

text \<open>Draining gives the front of the stable sort by rank, and leaves the rest of it.\<close>

lemma pops_sorted:
  "pops n q = (xs, q') \<Longrightarrow>
     xs = take n (sort_key rank (elems q)) \<and>
     sort_key rank (elems q') = drop n (sort_key rank (elems q)) \<and>
     mset (elems q) = mset xs + mset (elems q')"
proof (induction n arbitrary: q xs)
  case 0
  then show ?case by simp
next
  case (Suc n)
  show ?case
  proof (cases "pop q")
    case None
    with Suc.prems show ?thesis by (simp add: pop_None)
  next
    case (Some p)
    obtain x q1 where p: "pop q = Some (x, q1)" using Some by (cases p) simp
    obtain ys where ys: "pops n q1 = (ys, q')" "xs = x # ys"
      using Suc.prems p by (auto split: prod.splits)
    have head: "sort_key rank (elems q) = x # sort_key rank (elems q1)"
      using min_by_key_head [OF pop_first [OF p]] by (simp add: pop_elems [OF p])
    have "x \<in> set (elems q)" using pop_first [OF p] by blast
    then have "mset (elems q) = add_mset x (mset (elems q1))"
      by (simp add: pop_elems [OF p])
    with Suc.IH [OF ys(1)] ys(2) head show ?thesis by simp
  qed
qed

lemma pops_length: "pops n q = (xs, q') \<Longrightarrow> length xs = min n (length (elems q))"
  using pops_sorted [of n q xs q'] by simp

end

section \<open>The heap\<close>

definition heap_pop :: "('a \<Rightarrow> 'k::linorder) \<Rightarrow> 'a list \<Rightarrow> ('a \<times> 'a list) option" where
  "heap_pop rank h =
     (case min_by_key rank h of None \<Rightarrow> None | Some x \<Rightarrow> Some (x, remove1 x h))"

interpretation heap: ranked_queue rank "heap_pop rank" "\<lambda>h. h" for rank
  by unfold_locales (auto simp: heap_pop_def split: option.splits)

text \<open>\<open>while let Some(o) = heap.pop()\<close>: pop until nothing is left.\<close>

function heap_drain :: "('a \<Rightarrow> 'k::linorder) \<Rightarrow> 'a list \<Rightarrow> 'a list" where
  "heap_drain rank h =
     (case heap_pop rank h of None \<Rightarrow> [] | Some (x, h') \<Rightarrow> x # heap_drain rank h')"
  by pat_completeness auto
termination
  by (relation "measure (\<lambda>(rank, h). length h)")
     (auto simp: heap_pop_def length_remove1 dest!: min_by_key_in split: option.splits
       intro!: diff_less length_pos_if_in_set)

declare heap_drain.simps [simp del]

lemma heap_drain_sort: "heap_drain rank h = sort_key rank h"
proof (induction rank h rule: heap_drain.induct)
  case (1 rank h)
  show ?case
  proof (cases "min_by_key rank h")
    case None
    then show ?thesis by (simp add: heap_drain.simps [of rank "[]"] heap_pop_def)
  next
    case (Some x)
    then have "heap_pop rank h = Some (x, remove1 x h)" by (simp add: heap_pop_def)
    with 1 min_by_key_head [OF Some] show ?thesis
      by (simp add: heap_drain.simps [of rank h])
  qed
qed

text \<open>\<open>for _ in 0..max\<close> with a \<open>break\<close> on an empty heap.\<close>

fun heap_take :: "('a \<Rightarrow> 'k::linorder) \<Rightarrow> nat \<Rightarrow> 'a list \<Rightarrow> 'a list \<times> 'a list" where
  "heap_take rank 0 h = ([], h)"
| "heap_take rank (Suc n) h =
     (case heap_pop rank h of
        None \<Rightarrow> ([], h)
      | Some (x, h') \<Rightarrow> (let (xs, h'') = heap_take rank n h' in (x # xs, h'')))"

lemma heap_take_pops: "heap_take rank n h = ranked_queue.pops (heap_pop rank) n h"
  by (induction n arbitrary: h) (auto split: option.splits)

lemmas heap_take_sorted = heap.pops_sorted [folded heap_take_pops]

section \<open>Priority first, then first come first served\<close>

text \<open>
  The \<open>Ord\<close> of both request wrappers: the higher priority is greater, and among equal
  priorities the lower sequence number is. Popping the greatest is popping the least rank.
\<close>

definition ord_rank :: "int \<Rightarrow> u64 \<Rightarrow> int \<times> nat" where
  "ord_rank priority seq = (- priority, unat seq)"

lemma sort_key_lex:
  assumes "sorted (map g xs)"
  shows "sort_key (\<lambda>x. (f x, g x)) xs = sort_key f xs"
  using assms
proof (induction xs)
  case Nil
  then show ?case by simp
next
  case (Cons x xs)
  have ge: "\<forall>y \<in> set xs. g x \<le> g y" using Cons.prems by simp
  have "insort_key (\<lambda>x. (f x, g x)) x ys = insort_key f x ys" if "set ys \<subseteq> set xs" for ys
    using that ge by (induction ys) (auto simp: less_eq_prod_def)
  with Cons show ?case by simp
qed

lemma ord_rank_sort:
  "sorted (map (\<lambda>x. unat (g x)) xs) \<Longrightarrow>
     sort_key (\<lambda>x. ord_rank (f x) (g x)) xs = sort_key (\<lambda>x. - f x) xs"
  unfolding ord_rank_def by (rule sort_key_lex)

text \<open>Unwrapping the queued requests commutes with the sort.\<close>

lemma insort_key_map_req:
  "\<forall>y \<in> set (x # ys). f y = g (h y) \<Longrightarrow>
     map h (insort_key f x ys) = insort_key g (h x) (map h ys)"
  by (induction ys) auto

lemma sort_key_map_req:
  "\<forall>x \<in> set xs. f x = g (h x) \<Longrightarrow> map h (sort_key f xs) = sort_key g (map h xs)"
proof (induction xs)
  case Nil
  then show ?case by simp
next
  case (Cons x xs)
  then have "\<forall>y \<in> set (x # sort_key f xs). f y = g (h y)" by simp
  from insort_key_map_req [of x "sort_key f xs" f g h, OF this] Cons show ?case by simp
qed

text \<open>A push with a fresh number keeps the numbers of a queue ascending.\<close>

definition seqs_below :: "nat list \<Rightarrow> nat \<Rightarrow> bool" where
  "seqs_below ns n = (sorted ns \<and> (\<forall>i \<in> set ns. i < n))"

lemma seqs_below_Nil [simp]: "seqs_below [] n"
  by (simp add: seqs_below_def)

lemma seqs_below_push: "seqs_below ns n \<Longrightarrow> seqs_below (ns @ [n]) (Suc n)"
  by (auto simp: seqs_below_def sorted_append less_Suc_eq)

lemma seqs_below_remove1: "seqs_below (map f xs) n \<Longrightarrow> seqs_below (map f (remove1 x xs)) n"
  by (auto simp: seqs_below_def sorted_map_remove1 dest: set_remove1_subset [THEN subsetD])

text \<open>What a take leaves is part of the queue, still in order of arrival.\<close>

lemma heap_take_rest:
  "heap_take rank n h = (xs, h') \<Longrightarrow> seqs_below (map f h) k \<Longrightarrow> seqs_below (map f h') k"
proof (induction n arbitrary: h xs)
  case 0
  then show ?case by simp
next
  case (Suc n)
  show ?case
  proof (cases "heap_pop rank h")
    case None
    with Suc.prems show ?thesis by simp
  next
    case (Some p)
    obtain x h1 where p: "heap_pop rank h = Some (x, h1)" using Some by (cases p) simp
    then have "h1 = remove1 x h" by (auto simp: heap_pop_def split: option.splits)
    with Suc.prems(2) have "seqs_below (map f h1) k" by (simp add: seqs_below_remove1)
    moreover obtain ys where "heap_take rank n h1 = (ys, h')"
      using Suc.prems(1) p by (auto split: prod.splits)
    ultimately show ?thesis using Suc.IH by blast
  qed
qed

end
