(* ===== verification/Batch.thy ===== *)
theory Batch
  imports HeapQueue
begin

text \<open>
  The batch processor (\<open>src/src/batch.rs\<close>): a bounded priority queue of requests that is
  drained whole, highest priority first and in order of arrival within a priority, with a
  lock-free test of whether it is time to drain it. Payload values are of type \<open>'v\<close>. Each
  operation is taken as one step; \<open>ep\<close> is the batch epoch and \<open>now\<close> the clock reading of a
  call, both in nanoseconds. The two \<open>async\<close> waits are not modelled.
\<close>

section \<open>Requests and the queue\<close>

record 'v batch_request =
  br_id :: string
  br_model_name :: string
  br_inputs :: "'v list"
  br_priority :: int
  br_timestamp :: nat

record 'v ordered_batch_request =
  obr_priority :: int
  obr_seq :: u64
  obr_request :: "'v batch_request"

definition obr_rank :: "'v ordered_batch_request \<Rightarrow> int \<times> nat" where
  "obr_rank r = ord_rank (obr_priority r) (obr_seq r)"

record 'v batch_queue =
  bq_heap :: "'v ordered_batch_request list"
  bq_next_seq :: u64
  bq_oldest_enqueue :: "nat option"

definition bq_new :: "'v batch_queue" where
  "bq_new = \<lparr>bq_heap = [], bq_next_seq = 0, bq_oldest_enqueue = None\<rparr>"

definition bq_push :: "'v batch_request \<Rightarrow> 'v batch_queue \<Rightarrow> 'v batch_queue" where
  "bq_push request q =
     (let ts = br_timestamp request;
          seq = bq_next_seq q;
          q1 = q\<lparr>bq_next_seq := bq_next_seq q + 1,
                 bq_heap := bq_heap q @
                   [\<lparr>obr_priority = br_priority request, obr_seq = seq, obr_request = request\<rparr>]\<rparr>
      in case bq_oldest_enqueue q of
           None \<Rightarrow> q1\<lparr>bq_oldest_enqueue := Some ts\<rparr>
         | Some prev \<Rightarrow> if ts < prev then q1\<lparr>bq_oldest_enqueue := Some ts\<rparr> else q1)"

definition bq_len :: "'v batch_queue \<Rightarrow> nat" where
  "bq_len q = length (bq_heap q)"

definition bq_oldest_age :: "nat \<Rightarrow> 'v batch_queue \<Rightarrow> nat option" where
  "bq_oldest_age now q = map_option (\<lambda>t. now - t) (bq_oldest_enqueue q)"

definition bq_drain_all :: "'v batch_queue \<Rightarrow> 'v batch_request list \<times> 'v batch_queue" where
  "bq_drain_all q =
     (map obr_request (heap_drain obr_rank (bq_heap q)),
      q\<lparr>bq_heap := [], bq_oldest_enqueue := None\<rparr>)"

definition bq_clear :: "'v batch_queue \<Rightarrow> 'v batch_queue" where
  "bq_clear q = q\<lparr>bq_heap := [], bq_oldest_enqueue := None\<rparr>"

section \<open>The processor\<close>

record 'v batch_processor =
  bp_max_batch_size :: nat
  bp_min_batch_size :: nat
  bp_batch_timeout_ms :: u64
  bp_adaptive_timeout_enabled :: bool
  bp_current_batch :: "'v batch_queue"
  bp_processed_batches :: u64
  bp_total_latency_ms :: u64
  bp_queue_depth :: nat
  bp_oldest_enqueue_nanos :: u64
  bp_full_notified :: bool

definition bp_new :: "nat \<Rightarrow> u64 \<Rightarrow> 'v batch_processor" where
  "bp_new max_batch_size batch_timeout_ms =
     \<lparr>bp_max_batch_size = max_batch_size, bp_min_batch_size = 1,
      bp_batch_timeout_ms = batch_timeout_ms, bp_adaptive_timeout_enabled = True,
      bp_current_batch = bq_new, bp_processed_batches = 0, bp_total_latency_ms = 0,
      bp_queue_depth = 0, bp_oldest_enqueue_nanos = 0, bp_full_notified = False\<rparr>"

definition bp_default :: "'v batch_processor" where
  "bp_default = bp_new 32 100"

definition bp_with_adaptive_batching :: "bool \<Rightarrow> 'v batch_processor \<Rightarrow> 'v batch_processor" where
  "bp_with_adaptive_batching enabled p = p\<lparr>bp_adaptive_timeout_enabled := enabled\<rparr>"

definition bp_with_min_batch_size :: "nat \<Rightarrow> 'v batch_processor \<Rightarrow> 'v batch_processor" where
  "bp_with_min_batch_size n p = p\<lparr>bp_min_batch_size := n\<rparr>"

text \<open>\<open>bp_full_notified\<close> is the permit that \<open>notify_one\<close> leaves in the \<open>Notify\<close>.\<close>

definition bp_add_request ::
  "nat \<Rightarrow> 'v batch_request \<Rightarrow> 'v batch_processor \<Rightarrow> (string + bool) \<times> 'v batch_processor" where
  "bp_add_request ep request p =
     (if bp_max_batch_size p \<le> bq_len (bp_current_batch p) then (Inl ''Batch is full'', p)
      else
        let batch = bq_push request (bp_current_batch p);
            len = bq_len batch;
            oldest_ts = (case bq_oldest_enqueue batch of
                           None \<Rightarrow> br_timestamp request | Some t \<Rightarrow> t);
            nanos = (word_of_nat (oldest_ts - ep) :: u64);
            is_full = (bp_max_batch_size p \<le> len)
        in (Inr is_full,
            p\<lparr>bp_current_batch := batch, bp_queue_depth := len,
              bp_oldest_enqueue_nanos := max nanos 1,
              bp_full_notified := bp_full_notified p \<or> is_full\<rparr>))"

definition bp_get_adaptive_timeout :: "'v batch_processor \<Rightarrow> u64" where
  "bp_get_adaptive_timeout p =
     (if \<not> bp_adaptive_timeout_enabled p then bp_batch_timeout_ms p
      else let queue_depth = bp_queue_depth p
           in if queue_depth \<le> 2 then bp_batch_timeout_ms p
              else if queue_depth \<le> 5 then bp_batch_timeout_ms p div 2
              else if queue_depth \<le> 10 then bp_batch_timeout_ms p div 4
              else bp_batch_timeout_ms p div 8)"

definition bp_should_process_batch :: "nat \<Rightarrow> nat \<Rightarrow> 'v batch_processor \<Rightarrow> bool" where
  "bp_should_process_batch ep now p =
     (let len = bp_queue_depth p; nanos = bp_oldest_enqueue_nanos p
      in if len = 0 then False
         else if bp_max_batch_size p \<le> len then True
         else if len < bp_min_batch_size p then False
         else if 0 < nanos then
           let oldest = ep + unat nanos
           in unat (bp_get_adaptive_timeout p) * 1000000 \<le> now - oldest
         else False)"

definition bp_get_batch :: "'v batch_processor \<Rightarrow> 'v batch_request list \<times> 'v batch_processor" where
  "bp_get_batch p =
     (let (requests, batch) = bq_drain_all (bp_current_batch p)
      in (requests,
          p\<lparr>bp_current_batch := batch, bp_queue_depth := 0, bp_oldest_enqueue_nanos := 0,
            bp_processed_batches := bp_processed_batches p + 1\<rparr>))"

definition bp_record_batch_latency :: "u64 \<Rightarrow> 'v batch_processor \<Rightarrow> 'v batch_processor" where
  "bp_record_batch_latency latency_ms p =
     p\<lparr>bp_total_latency_ms := bp_total_latency_ms p + latency_ms\<rparr>"

record batch_stats =
  bs_processed_batches :: u64
  bs_avg_latency_ms :: u64
  bs_current_queue_depth :: nat

definition bp_get_stats :: "'v batch_processor \<Rightarrow> batch_stats" where
  "bp_get_stats p =
     (let batches = bp_processed_batches p;
          total_latency = bp_total_latency_ms p
      in \<lparr>bs_processed_batches = batches,
          bs_avg_latency_ms = (if 0 < batches then total_latency div batches else 0),
          bs_current_queue_depth = bp_queue_depth p\<rparr>)"

definition bp_get_batch_size :: "'v batch_processor \<Rightarrow> nat" where
  "bp_get_batch_size p = bq_len (bp_current_batch p)"

definition bp_clear_batch :: "'v batch_processor \<Rightarrow> 'v batch_processor" where
  "bp_clear_batch p =
     p\<lparr>bp_current_batch := bq_clear (bp_current_batch p), bp_queue_depth := 0,
       bp_oldest_enqueue_nanos := 0\<rparr>"

section \<open>The abstract queue\<close>

text \<open>
  What the processor promises: a list of pending requests in order of arrival, bounded by the
  maximal batch size, which a drain returns sorted by falling priority and, as the sort is
  stable, by arrival within a priority.
\<close>

datatype 'v batch_op = AddRequest "'v batch_request" | GetBatch | ClearBatch

datatype 'v batch_answer = Added "string + bool" | Drained "'v batch_request list" | Cleared

fun batch_spec_step ::
  "nat \<Rightarrow> 'v batch_request list \<Rightarrow> 'v batch_op \<Rightarrow> 'v batch_answer \<times> 'v batch_request list" where
  "batch_spec_step cap pending (AddRequest r) =
     (if length pending < cap
      then (Added (Inr (length pending + 1 = cap)), pending @ [r])
      else (Added (Inl ''Batch is full''), pending))"
| "batch_spec_step cap pending GetBatch = (Drained (sort_key (\<lambda>r. - br_priority r) pending), [])"
| "batch_spec_step cap pending ClearBatch = (Cleared, [])"

fun batch_spec_run ::
  "nat \<Rightarrow> 'v batch_request list \<Rightarrow> 'v batch_op list \<Rightarrow> 'v batch_answer list \<times> 'v batch_request list" where
  "batch_spec_run cap pending [] = ([], pending)"
| "batch_spec_run cap pending (e # es) =
     (let (a, pending') = batch_spec_step cap pending e;
          (as, pending'') = batch_spec_run cap pending' es
      in (a # as, pending''))"

fun bp_step :: "nat \<Rightarrow> 'v batch_processor \<Rightarrow> 'v batch_op \<Rightarrow> 'v batch_answer \<times> 'v batch_processor" where
  "bp_step ep p (AddRequest r) = (let (a, p') = bp_add_request ep r p in (Added a, p'))"
| "bp_step ep p GetBatch = (let (rs, p') = bp_get_batch p in (Drained rs, p'))"
| "bp_step ep p ClearBatch = (Cleared, bp_clear_batch p)"

fun bp_run ::
  "nat \<Rightarrow> 'v batch_processor \<Rightarrow> 'v batch_op list \<Rightarrow> 'v batch_answer list \<times> 'v batch_processor" where
  "bp_run ep p [] = ([], p)"
| "bp_run ep p (e # es) =
     (let (a, p') = bp_step ep p e; (as, p'') = bp_run ep p' es in (a # as, p''))"

section \<open>The invariant\<close>

definition bq_wf :: "'v batch_queue \<Rightarrow> bool" where
  "bq_wf q \<longleftrightarrow>
     seqs_below (map (\<lambda>r. unat (obr_seq r)) (bq_heap q)) (unat (bq_next_seq q)) \<and>
     (\<forall>r \<in> set (bq_heap q). obr_priority r = br_priority (obr_request r)) \<and>
     bq_oldest_enqueue q =
       (if bq_heap q = [] then None
        else Some (Min ((\<lambda>r. br_timestamp (obr_request r)) ` set (bq_heap q))))"

definition bq_pending :: "'v batch_queue \<Rightarrow> 'v batch_request list" where
  "bq_pending q = map obr_request (bq_heap q)"

definition oldest_ts :: "'v batch_request list \<Rightarrow> nat" where
  "oldest_ts rs = Min (br_timestamp ` set rs)"

definition bp_inv :: "nat \<Rightarrow> 'v batch_processor \<Rightarrow> 'v batch_request list \<Rightarrow> bool" where
  "bp_inv ep p pending \<longleftrightarrow>
     bq_wf (bp_current_batch p) \<and> bq_pending (bp_current_batch p) = pending \<and>
     bp_queue_depth p = length pending \<and>
     bp_oldest_enqueue_nanos p =
       (if pending = [] then 0 else max (word_of_nat (oldest_ts pending - ep)) 1)"

lemma bq_wf_empty [simp]:
  "bq_wf \<lparr>bq_heap = [], bq_next_seq = n, bq_oldest_enqueue = None\<rparr>"
  by (simp add: bq_wf_def)

lemma bq_wf_oldest:
  "bq_wf q \<Longrightarrow> bq_oldest_enqueue q =
     (if bq_pending q = [] then None else Some (oldest_ts (bq_pending q)))"
  by (simp add: bq_wf_def bq_pending_def oldest_ts_def image_image)

lemma bq_pending_push [simp]: "bq_pending (bq_push r q) = bq_pending q @ [r]"
  by (simp add: bq_push_def bq_pending_def Let_def split: option.splits)

lemma bq_next_seq_push [simp]: "bq_next_seq (bq_push r q) = bq_next_seq q + 1"
  by (simp add: bq_push_def Let_def split: option.splits)

lemma bq_heap_push:
  "bq_heap (bq_push r q) = bq_heap q @
     [\<lparr>obr_priority = br_priority r, obr_seq = bq_next_seq q, obr_request = r\<rparr>]"
  by (simp add: bq_push_def Let_def split: option.splits)

lemma bq_oldest_push:
  "bq_oldest_enqueue (bq_push r q) =
     (case bq_oldest_enqueue q of None \<Rightarrow> Some (br_timestamp r)
      | Some t \<Rightarrow> Some (min (br_timestamp r) t))"
  by (auto simp: bq_push_def Let_def min_def split: option.splits)

lemma bq_wf_push:
  assumes "bq_wf q" "unat (bq_next_seq q) + 1 < 2 ^ 64"
  shows "bq_wf (bq_push r q)"
proof -
  have nxt: "unat (bq_next_seq q + 1) = Suc (unat (bq_next_seq q))"
    using assms(2) unat_inc [of "bq_next_seq q"] by simp
  show ?thesis
    using assms(1) seqs_below_push [of _ "unat (bq_next_seq q)"]
    by (auto simp: bq_wf_def bq_heap_push nxt bq_oldest_push)
qed

lemma bq_drain_all_sort:
  assumes "bq_wf q"
  shows "fst (bq_drain_all q) = sort_key (\<lambda>r. - br_priority r) (bq_pending q)"
proof -
  have "sort_key obr_rank (bq_heap q) = sort_key (\<lambda>r. - obr_priority r) (bq_heap q)"
    unfolding obr_rank_def [abs_def]
    using assms by (intro ord_rank_sort) (simp add: bq_wf_def seqs_below_def)
  then have "map obr_request (heap_drain obr_rank (bq_heap q)) =
      map obr_request (sort_key (\<lambda>r. - obr_priority r) (bq_heap q))"
    by (simp add: heap_drain_sort)
  also have "\<dots> = sort_key (\<lambda>r. - br_priority r) (bq_pending q)"
    unfolding bq_pending_def using assms by (intro sort_key_map_req) (simp add: bq_wf_def)
  finally show ?thesis by (simp add: bq_drain_all_def)
qed

lemma bp_inv_new [inv_intros]: "bp_inv ep (bp_new n t) []"
  by (simp add: bp_inv_def bp_new_def bq_new_def bq_pending_def)

lemma bp_step_sim:
  assumes "bp_inv ep p pending" "unat (bq_next_seq (bp_current_batch p)) + 1 < 2 ^ 64"
    "bp_step ep p e = (a, p')"
  shows "\<exists>pending'. batch_spec_step (bp_max_batch_size p) pending e = (a, pending') \<and>
    bp_inv ep p' pending' \<and> bp_max_batch_size p' = bp_max_batch_size p \<and>
    unat (bq_next_seq (bp_current_batch p')) \<le> unat (bq_next_seq (bp_current_batch p)) + 1"
proof -
  note q = assms(1) [unfolded bp_inv_def]
  have wf: "bq_wf (bp_current_batch p)" using q by simp
  have len: "bq_len (bp_current_batch p) = length pending"
    using q by (auto simp: bq_len_def bq_pending_def)
  show ?thesis
  proof (cases e)
    case (AddRequest r)
    let ?b = "bq_push r (bp_current_batch p)"
    have wf': "bq_wf ?b" using wf assms(2) by (rule bq_wf_push)
    have pend: "bq_pending ?b = pending @ [r]" using q by simp
    have len': "bq_len ?b = Suc (length pending)"
      using pend by (simp add: bq_len_def bq_pending_def) (metis length_append_singleton length_map)
    have old: "bq_oldest_enqueue ?b = Some (oldest_ts (pending @ [r]))"
      using bq_wf_oldest [OF wf'] pend by simp
    have nxt: "unat (bq_next_seq (bp_current_batch p) + 1) \<le> Suc (unat (bq_next_seq (bp_current_batch p)))"
      using unat_inc [of "bq_next_seq (bp_current_batch p)"] assms(2) by simp
    show ?thesis
    proof (cases "length pending < bp_max_batch_size p")
      case True
      then show ?thesis using assms(3) AddRequest q wf' pend len len' old nxt
        by (auto simp: bp_add_request_def Let_def bp_inv_def)
    next
      case False
      then show ?thesis using assms(1,3) AddRequest len
        by (simp add: bp_add_request_def)
    qed
  next
    case GetBatch
    then show ?thesis using assms(3) q bq_drain_all_sort [OF wf]
      by (auto simp: bp_get_batch_def bq_drain_all_def bp_inv_def bq_pending_def bq_wf_def)
  next
    case ClearBatch
    then show ?thesis using assms(3) q
      by (auto simp: bp_clear_batch_def bq_clear_def bp_inv_def bq_pending_def bq_wf_def)
  qed
qed

lemma bp_run_sim:
  assumes "bp_inv ep p pending" "unat (bq_next_seq (bp_current_batch p)) + length es < 2 ^ 64"
    "bp_run ep p es = (as, p')"
  shows "\<exists>pending'. batch_spec_run (bp_max_batch_size p) pending es = (as, pending') \<and>
    bp_inv ep p' pending' \<and> bp_max_batch_size p' = bp_max_batch_size p"
  using assms
proof (induction es arbitrary: p pending as)
  case Nil
  then show ?case by simp
next
  case (Cons e es)
  obtain a p1 where s: "bp_step ep p e = (a, p1)" by (cases "bp_step ep p e")
  obtain as' where r: "bp_run ep p1 es = (as', p')" "as = a # as'"
    using Cons.prems(3) s by (auto split: prod.splits)
  obtain pending1 where 1: "batch_spec_step (bp_max_batch_size p) pending e = (a, pending1)"
    "bp_inv ep p1 pending1" "bp_max_batch_size p1 = bp_max_batch_size p"
    "unat (bq_next_seq (bp_current_batch p1)) \<le> unat (bq_next_seq (bp_current_batch p)) + 1"
    using bp_step_sim [OF Cons.prems(1) _ s] Cons.prems(2) by auto
  have "unat (bq_next_seq (bp_current_batch p1)) + length es < 2 ^ 64"
    using 1(4) Cons.prems(2) by simp
  from Cons.IH [OF 1(2) this r(1)] 1(1,3) r(2) show ?case by auto
qed

section \<open>Properties\<close>

lemma bp_run_new_sim:
  assumes "bp_run ep (bp_with_min_batch_size k (bp_with_adaptive_batching b (bp_new n t))) es = (as, p)"
    and "length es < 2 ^ 64"
  shows "\<exists>pending. batch_spec_run n [] es = (as, pending) \<and> bp_inv ep p pending"
  using bp_run_sim [OF _ _ assms(1), of "[]"] assms(2)
  by (simp add: bp_inv_def bp_new_def bq_new_def bq_pending_def bp_with_min_batch_size_def
        bp_with_adaptive_batching_def)

text \<open>The options of the processor do not change in a run.\<close>

lemma bp_run_options:
  "bp_run ep p es = (as, p') \<Longrightarrow> bp_min_batch_size p' = bp_min_batch_size p \<and>
     bp_max_batch_size p' = bp_max_batch_size p \<and>
     bp_batch_timeout_ms p' = bp_batch_timeout_ms p \<and>
     bp_adaptive_timeout_enabled p' = bp_adaptive_timeout_enabled p"
proof (induction es arbitrary: p as)
  case Nil
  then show ?case by simp
next
  case (Cons e es)
  obtain a p1 where s: "bp_step ep p e = (a, p1)" by (cases "bp_step ep p e")
  obtain as' where r: "bp_run ep p1 es = (as', p')"
    using Cons.prems s by (auto split: prod.splits)
  have "bp_min_batch_size p1 = bp_min_batch_size p \<and> bp_max_batch_size p1 = bp_max_batch_size p \<and>
     bp_batch_timeout_ms p1 = bp_batch_timeout_ms p \<and>
     bp_adaptive_timeout_enabled p1 = bp_adaptive_timeout_enabled p"
    using s by (cases e) (auto simp: bp_add_request_def bp_get_batch_def bp_clear_batch_def Let_def
        split: if_splits prod.splits)
  with Cons.IH [OF r] show ?case by simp
qed

text \<open>
  C6. Every run of fewer than \<open>2 ^ 64\<close> operations on a new processor gives the answers of the
  abstract queue: a request is refused exactly when the batch is full, and a drain returns what
  was accepted since the last drain or clear, by falling priority and by arrival within a
  priority.
\<close>

theorem batch_refines_spec:
  assumes "bp_run ep (bp_new n t) es = (as, p)" "length es < 2 ^ 64"
  shows "\<exists>pending. batch_spec_run n [] es = (as, pending) \<and>
    bp_get_batch_size p = length pending \<and> length pending \<le> n"
proof -
  obtain pending where s: "batch_spec_run n [] es = (as, pending)" "bp_inv ep p pending"
    using bp_run_sim [OF bp_inv_new _ assms(1)] assms(2)
    by (auto simp: bp_new_def bq_new_def)
  have "length rs \<le> n \<Longrightarrow> batch_spec_run n rs es = (as, pending) \<Longrightarrow> length pending \<le> n" for rs
  proof (induction es arbitrary: rs as)
    case Nil
    then show ?case by simp
  next
    case (Cons e es)
    from Cons.prems(1) have "length (snd (batch_spec_step n rs e)) \<le> n" by (cases e) auto
    with Cons show ?case by (auto split: prod.splits)
  qed
  from this [OF _ s(1)] s show ?thesis
    by (auto simp: bp_inv_def bp_get_batch_size_def bq_len_def bq_pending_def)
qed

abbreviation sample_request :: "string \<Rightarrow> int \<Rightarrow> nat \<Rightarrow> unit batch_request" where
  "sample_request name prio ts \<equiv> \<lparr>br_id = name, br_model_name = ''m'', br_inputs = [],
     br_priority = prio, br_timestamp = ts\<rparr>"

theorem batch_refines_spec_witness:
  "\<exists>p pending. bp_run 0 (bp_new 3 100)
      [AddRequest (sample_request ''a'' 1 5), AddRequest (sample_request ''b'' 2 6),
       AddRequest (sample_request ''c'' 1 7), AddRequest (sample_request ''d'' 9 8), GetBatch] =
      ([Added (Inr False), Added (Inr False), Added (Inr True), Added (Inl ''Batch is full''),
        Drained [sample_request ''b'' 2 6, sample_request ''a'' 1 5, sample_request ''c'' 1 7]], p)
     \<and> bp_get_batch_size p = length pending \<and> length pending \<le> 3"
proof -
  let ?es = "[AddRequest (sample_request ''a'' 1 5), AddRequest (sample_request ''b'' 2 6),
       AddRequest (sample_request ''c'' 1 7), AddRequest (sample_request ''d'' 9 8), GetBatch]"
  obtain as p where run: "bp_run 0 (bp_new 3 100) ?es = (as, p)" by (metis surj_pair)
  from batch_refines_spec [OF run] obtain pending where
    "batch_spec_run 3 [] ?es = (as, pending)" "bp_get_batch_size p = length pending"
    "length pending \<le> 3" by auto
  then show ?thesis using run by (auto simp: eval_nat_numeral)
qed

text \<open>The adaptive timeout divides the configured one by a power of two.\<close>

definition patience :: "bool \<Rightarrow> nat \<Rightarrow> nat" where
  "patience adaptive depth =
     (if \<not> adaptive \<or> depth \<le> 2 then 1 else if depth \<le> 5 then 2 else if depth \<le> 10 then 4 else 8)"

lemma bp_adaptive_timeout:
  "unat (bp_get_adaptive_timeout p) =
     unat (bp_batch_timeout_ms p) div patience (bp_adaptive_timeout_enabled p) (bp_queue_depth p)"
  by (simp add: bp_get_adaptive_timeout_def patience_def Let_def unat_div)

text \<open>
  After every run, the lock-free test says to dispatch exactly when there is a request
  pending and the batch is full, or has the minimal size and its oldest request (one that
  arrived before the epoch counts as 1 ns after it) has waited the timeout, divided as the
  batch fills.
\<close>

theorem batch_dispatch_when:
  assumes "bp_run ep (bp_with_min_batch_size k (bp_with_adaptive_batching b (bp_new n t))) es = (as, p)"
    and "length es < 2 ^ 64"
    and "batch_spec_run n [] es = (as', pending)"
    and "oldest_ts pending < ep + 2 ^ 64"
  shows "bp_should_process_batch ep now p \<longleftrightarrow>
    pending \<noteq> [] \<and>
    (n \<le> length pending \<or>
     k \<le> length pending \<and>
     unat t div patience b (length pending) * 1000000 \<le> now - max (ep + 1) (oldest_ts pending))"
proof -
  obtain pending' where s: "batch_spec_run n [] es = (as, pending')" "bp_inv ep p pending'"
    using bp_run_new_sim [OF assms(1,2)] by blast
  then have inv: "bp_inv ep p pending" using assms(3) by simp
  have opt: "bp_min_batch_size p = k" "bp_max_batch_size p = n" "bp_batch_timeout_ms p = t"
    "bp_adaptive_timeout_enabled p = b"
    using bp_run_options [OF assms(1)]
    by (simp_all add: bp_with_min_batch_size_def bp_with_adaptive_batching_def bp_new_def)
  define d where "d = oldest_ts pending - ep"
  have "d < 2 ^ 64" using assms(4) by (simp add: d_def)
  then have "unat (max (word_of_nat d) (1 :: u64)) = max d 1"
    by (auto simp: max_def word_le_nat_alt unat_of_nat_small)
  then have old: "pending \<noteq> [] \<Longrightarrow>
      0 < bp_oldest_enqueue_nanos p \<and> ep + unat (bp_oldest_enqueue_nanos p) = max (ep + 1) (oldest_ts pending)"
    using inv by (auto simp: bp_inv_def d_def [symmetric] word_less_nat_alt)
      (auto simp: d_def)
  show ?thesis
  proof (cases "pending = []")
    case True
    then show ?thesis using inv by (simp add: bp_should_process_batch_def bp_inv_def)
  next
    case False
    then show ?thesis using old inv
      by (simp add: bp_should_process_batch_def bp_adaptive_timeout opt Let_def bp_inv_def)
  qed
qed

theorem batch_dispatch_when_witness:
  "\<exists>p. bp_run 0 (bp_with_min_batch_size 2 (bp_with_adaptive_batching True (bp_new 4 100)))
      [AddRequest (sample_request ''a'' 1 5000), AddRequest (sample_request ''b'' 2 6000)] =
      ([Added (Inr False), Added (Inr False)], p) \<and>
     bp_should_process_batch 0 100005000 p \<and> \<not> bp_should_process_batch 0 100004999 p"
proof -
  let ?es = "[AddRequest (sample_request ''a'' 1 5000), AddRequest (sample_request ''b'' 2 6000)]"
  have spec: "batch_spec_run 4 [] ?es = ([Added (Inr False), Added (Inr False)],
      [sample_request ''a'' 1 5000, sample_request ''b'' 2 6000])" by simp
  obtain as p where run:
    "bp_run 0 (bp_with_min_batch_size 2 (bp_with_adaptive_batching True (bp_new 4 100))) ?es = (as, p)"
    by (metis surj_pair)
  have as: "as = [Added (Inr False), Added (Inr False)]"
    using bp_run_new_sim [OF run] spec by auto
  show ?thesis
    using run as batch_dispatch_when [OF run _ spec, of 100005000]
      batch_dispatch_when [OF run _ spec, of 100004999]
    by (auto simp: oldest_ts_def patience_def)
qed

end
