(* ===== verification/Inflight.thy ===== *)
theory Inflight
  imports HeapQueue Permits Floats
begin

text \<open>
  The inflight batcher (\<open>src/src/inflight_batch.rs\<close>): requests wait in a priority queue while at
  most \<open>max_inflight_batches\<close> batches are processed. Forming a batch is three steps that other
  threads can come between: a look at the queue under the read lock, taking a permit without
  waiting, and draining under the write lock. Each is a definition here, their sequence is
  \<open>ib_try_form_batch\<close>, and \<open>ib_step\<close> interleaves them with every other operation. The response
  channel of a request is a number, its payload values have type \<open>'v\<close>.
\<close>

section \<open>Requests and the queue\<close>

record 'v inflight_request =
  ir_id :: string
  ir_model_name :: string
  ir_inputs :: "'v list"
  ir_priority :: int
  ir_timestamp :: nat
  ir_response_tx :: nat

record 'v ordered_request =
  or_priority :: int
  or_seq :: u64
  or_request :: "'v inflight_request"

definition or_rank :: "'v ordered_request \<Rightarrow> int \<times> nat" where
  "or_rank r = ord_rank (or_priority r) (or_seq r)"

record 'v priority_queue =
  pq_heap :: "'v ordered_request list"
  pq_next_seq :: u64
  pq_oldest_enqueue :: "nat option"

definition pq_new :: "'v priority_queue" where
  "pq_new = \<lparr>pq_heap = [], pq_next_seq = 0, pq_oldest_enqueue = None\<rparr>"

definition pq_push :: "'v inflight_request \<Rightarrow> 'v priority_queue \<Rightarrow> 'v priority_queue" where
  "pq_push request q =
     (let ts = ir_timestamp request;
          seq = pq_next_seq q
      in q\<lparr>pq_next_seq := pq_next_seq q + 1,
           pq_heap := pq_heap q @
             [\<lparr>or_priority = ir_priority request, or_seq = seq, or_request = request\<rparr>],
           pq_oldest_enqueue :=
             Some (case pq_oldest_enqueue q of
                     Some prev \<Rightarrow> if prev \<le> ts then prev else ts
                   | None \<Rightarrow> ts)\<rparr>)"

definition pq_drain_all :: "'v priority_queue \<Rightarrow> 'v inflight_request list \<times> 'v priority_queue" where
  "pq_drain_all q =
     (map or_request (heap_drain or_rank (pq_heap q)),
      q\<lparr>pq_heap := [], pq_oldest_enqueue := None\<rparr>)"

definition pq_drain_up_to ::
  "nat \<Rightarrow> 'v priority_queue \<Rightarrow> 'v inflight_request list \<times> 'v priority_queue" where
  "pq_drain_up_to m q =
     (let (items, h) = heap_take or_rank m (pq_heap q)
      in (map or_request items,
          q\<lparr>pq_heap := h,
            pq_oldest_enqueue :=
              (if h = [] then None
               else Some (Min (set (map (\<lambda>r. ir_timestamp (or_request r)) h))))\<rparr>))"

definition pq_len :: "'v priority_queue \<Rightarrow> nat" where
  "pq_len q = length (pq_heap q)"

definition pq_is_empty :: "'v priority_queue \<Rightarrow> bool" where
  "pq_is_empty q = (pq_heap q = [])"

definition pq_oldest_age :: "nat \<Rightarrow> 'v priority_queue \<Rightarrow> nat option" where
  "pq_oldest_age now q = map_option (\<lambda>t. now - t) (pq_oldest_enqueue q)"

section \<open>The processor\<close>

record 'v inflight_processor =
  ib_max_batch_size :: nat
  ib_max_inflight_batches :: nat
  ib_batch_timeout_ms :: u64
  ib_pending_queue :: "'v priority_queue"
  ib_semaphore :: nat
  ib_processed_batches :: u64
  ib_processed_requests :: u64
  ib_total_latency_ms :: u64
  ib_current_queue_depth :: nat
  ib_peak_queue_depth :: nat
  ib_inflight_batches :: usize

definition ib_new :: "nat \<Rightarrow> nat \<Rightarrow> u64 \<Rightarrow> 'v inflight_processor" where
  "ib_new max_batch_size max_inflight_batches batch_timeout_ms =
     \<lparr>ib_max_batch_size = max_batch_size, ib_max_inflight_batches = max_inflight_batches,
      ib_batch_timeout_ms = batch_timeout_ms, ib_pending_queue = pq_new,
      ib_semaphore = max_inflight_batches, ib_processed_batches = 0, ib_processed_requests = 0,
      ib_total_latency_ms = 0, ib_current_queue_depth = 0, ib_peak_queue_depth = 0,
      ib_inflight_batches = 0\<rparr>"

definition ib_default :: "'v inflight_processor" where
  "ib_default = ib_new 32 4 100"

definition ib_add_request ::
  "'v inflight_request \<Rightarrow> 'v inflight_processor \<Rightarrow> (string + unit) \<times> 'v inflight_processor" where
  "ib_add_request request p =
     (let queue = pq_push request (ib_pending_queue p);
          queue_size = pq_len queue
      in (Inr (),
          p\<lparr>ib_pending_queue := queue, ib_current_queue_depth := queue_size,
            ib_peak_queue_depth := max (ib_peak_queue_depth p) queue_size\<rparr>))"

text \<open>The guard of a formed batch; its permit is held while it lives.\<close>

record 'v inflight_guard =
  ig_batch :: "'v inflight_request list"
  ig_completed :: bool

definition ig_new :: "'v inflight_request list \<Rightarrow> 'v inflight_guard" where
  "ig_new batch = \<lparr>ig_batch = batch, ig_completed = False\<rparr>"

text \<open>The first phase, under the read lock.\<close>

definition ib_should_form :: "nat \<Rightarrow> 'v inflight_processor \<Rightarrow> bool" where
  "ib_should_form now p =
     (let queue = ib_pending_queue p
      in if pq_is_empty queue then False
         else
           let oldest_age = (case pq_oldest_age now queue of Some d \<Rightarrow> d | None \<Rightarrow> 0);
               full = (ib_max_batch_size p \<le> pq_len queue)
           in full \<or> unat (ib_batch_timeout_ms p) * 1000000 \<le> oldest_age)"

definition ib_take_permit :: "'v inflight_processor \<Rightarrow> 'v inflight_processor option" where
  "ib_take_permit p =
     (if 0 < ib_semaphore p then Some (p\<lparr>ib_semaphore := ib_semaphore p - 1\<rparr>) else None)"

definition ib_release_permit :: "'v inflight_processor \<Rightarrow> 'v inflight_processor" where
  "ib_release_permit p = p\<lparr>ib_semaphore := Suc (ib_semaphore p)\<rparr>"

text \<open>The second phase, under the write lock; with an empty queue the permit is dropped.\<close>

definition ib_drain_phase ::
  "'v inflight_processor \<Rightarrow> 'v inflight_guard option \<times> 'v inflight_processor" where
  "ib_drain_phase p =
     (let queue = ib_pending_queue p
      in if pq_is_empty queue then (None, ib_release_permit p)
         else
           let batch_size = min (pq_len queue) (ib_max_batch_size p);
               (batch, queue') = pq_drain_up_to batch_size queue
           in (Some (ig_new batch),
               p\<lparr>ib_pending_queue := queue', ib_current_queue_depth := pq_len queue',
                 ib_inflight_batches := ib_inflight_batches p + 1\<rparr>))"

definition ib_try_form_batch ::
  "nat \<Rightarrow> 'v inflight_processor \<Rightarrow> 'v inflight_guard option \<times> 'v inflight_processor" where
  "ib_try_form_batch now p =
     (if \<not> ib_should_form now p then (None, p)
      else case ib_take_permit p of
             None \<Rightarrow> (None, p)
           | Some p' \<Rightarrow> ib_drain_phase p')"

text \<open>Dropping a guard, and \<open>complete\<close>, which ends by dropping it.\<close>

definition ig_drop :: "'v inflight_guard \<Rightarrow> 'v inflight_processor \<Rightarrow> 'v inflight_processor" where
  "ig_drop g p =
     ib_release_permit
       (if \<not> ig_completed g then p\<lparr>ib_inflight_batches := ib_inflight_batches p - 1\<rparr> else p)"

definition ig_complete ::
  "u64 \<Rightarrow> 'v inflight_guard \<Rightarrow> 'v inflight_processor \<Rightarrow> 'v inflight_processor" where
  "ig_complete processing_time_ms g p =
     (let g' = g\<lparr>ig_completed := True\<rparr>;
          batch_size = length (ig_batch g')
      in ig_drop g'
           (p\<lparr>ib_processed_batches := ib_processed_batches p + 1,
              ib_processed_requests := ib_processed_requests p + word_of_nat batch_size,
              ib_total_latency_ms := ib_total_latency_ms p + processing_time_ms,
              ib_inflight_batches := ib_inflight_batches p - 1\<rparr>))"

definition ib_get_adaptive_timeout :: "'v inflight_processor \<Rightarrow> nat" where
  "ib_get_adaptive_timeout p =
     (let queue_depth = ib_current_queue_depth p;
          timeout_ms =
            (if queue_depth \<le> 2 then ib_batch_timeout_ms p
             else if queue_depth \<le> 5 then ib_batch_timeout_ms p div 2
             else if queue_depth \<le> 10 then ib_batch_timeout_ms p div 4
             else if queue_depth \<le> 20 then ib_batch_timeout_ms p div 8
             else ib_batch_timeout_ms p div 16)
      in unat timeout_ms * 1000000)"

definition ib_queue_depth :: "'v inflight_processor \<Rightarrow> nat" where
  "ib_queue_depth p = ib_current_queue_depth p"

definition ib_inflight_count :: "'v inflight_processor \<Rightarrow> usize" where
  "ib_inflight_count p = ib_inflight_batches p"

definition ib_can_accept_batch :: "'v inflight_processor \<Rightarrow> bool" where
  "ib_can_accept_batch p = (0 < ib_semaphore p)"

record inflight_stats =
  is_processed_batches :: u64
  is_processed_requests :: u64
  is_avg_latency_ms :: u64
  is_avg_batch_size :: real
  is_current_queue_depth :: nat
  is_peak_queue_depth :: nat
  is_inflight_batches :: usize
  is_max_inflight_batches :: nat

definition ib_get_stats :: "rnd \<Rightarrow> 'v inflight_processor \<Rightarrow> inflight_stats" where
  "ib_get_stats fl p =
     (let batches = ib_processed_batches p;
          requests = ib_processed_requests p;
          total_latency = ib_total_latency_ms p
      in \<lparr>is_processed_batches = batches, is_processed_requests = requests,
          is_avg_latency_ms = (if 0 < batches then total_latency div batches else 0),
          is_avg_batch_size =
            (if 0 < batches
             then fl (fl (real (unat requests)) / fl (real (unat batches))) else 0),
          is_current_queue_depth = ib_current_queue_depth p,
          is_peak_queue_depth = ib_peak_queue_depth p,
          is_inflight_batches = ib_inflight_batches p,
          is_max_inflight_batches = ib_max_inflight_batches p\<rparr>)"

text \<open>\<open>clear_queue\<close> answers every pending request with an error and returns their number; the
  answers are listed as channel and message.\<close>

definition ib_clear_queue ::
  "'v inflight_processor \<Rightarrow> nat \<times> (nat \<times> string) list \<times> 'v inflight_processor" where
  "ib_clear_queue p =
     (let (requests, queue) = pq_drain_all (ib_pending_queue p)
      in (length requests, map (\<lambda>r. (ir_response_tx r, ''Queue cleared'')) requests,
          p\<lparr>ib_pending_queue := queue, ib_current_queue_depth := 0\<rparr>))"

text \<open>The permits are a gate.\<close>

interpretation ibg: permit_gate n ib_semaphore ib_take_permit ib_release_permit "ib_new b n t"
  for b n t
  by unfold_locales
     (auto simp: ib_take_permit_def ib_release_permit_def ib_new_def split: if_splits)

section \<open>Interleavings\<close>

text \<open>
  A processor shared by any number of threads: \<open>peeked\<close> of them have seen a queue worth a
  batch, \<open>holding\<close> of them have a permit and wait for the write lock, and \<open>guards\<close> are the
  batches being processed. The rest of the world counts what became of each request.
\<close>

record 'v ib_world =
  proc :: "'v inflight_processor"
  peeked :: nat
  holding :: nat
  guards :: "'v inflight_guard list"
  added :: "'v inflight_request multiset"
  handled :: "'v inflight_request multiset"
  cleared :: "'v inflight_request multiset"

definition ib_world_init :: "nat \<Rightarrow> nat \<Rightarrow> u64 \<Rightarrow> 'v ib_world" where
  "ib_world_init b n t =
     \<lparr>proc = ib_new b n t, peeked = 0, holding = 0, guards = [], added = {#}, handled = {#},
      cleared = {#}\<rparr>"

inductive ib_step :: "'v ib_world \<Rightarrow> 'v ib_world \<Rightarrow> bool" where
  add: "ib_add_request r (proc w) = (a, p') \<Longrightarrow>
    ib_step w (w\<lparr>proc := p', added := add_mset r (added w)\<rparr>)"
| peek: "ib_should_form now (proc w) \<Longrightarrow> ib_step w (w\<lparr>peeked := Suc (peeked w)\<rparr>)"
| take: "peeked w = Suc k \<Longrightarrow> ib_take_permit (proc w) = Some p' \<Longrightarrow>
    ib_step w (w\<lparr>proc := p', peeked := k, holding := Suc (holding w)\<rparr>)"
| refuse: "peeked w = Suc k \<Longrightarrow> ib_take_permit (proc w) = None \<Longrightarrow>
    ib_step w (w\<lparr>peeked := k\<rparr>)"
| form: "holding w = Suc k \<Longrightarrow> ib_drain_phase (proc w) = (Some g, p') \<Longrightarrow>
    ib_step w (w\<lparr>proc := p', holding := k, guards := g # guards w\<rparr>)"
| emptied: "holding w = Suc k \<Longrightarrow> ib_drain_phase (proc w) = (None, p') \<Longrightarrow>
    ib_step w (w\<lparr>proc := p', holding := k\<rparr>)"
| complete: "guards w = gs @ g # gs' \<Longrightarrow>
    ib_step w (w\<lparr>proc := ig_complete ms g (proc w), guards := gs @ gs',
      handled := handled w + mset (ig_batch g)\<rparr>)"
| abandon: "guards w = gs @ g # gs' \<Longrightarrow>
    ib_step w (w\<lparr>proc := ig_drop g (proc w), guards := gs @ gs',
      handled := handled w + mset (ig_batch g)\<rparr>)"
| clear: "ib_clear_queue (proc w) = (n, answers, p') \<Longrightarrow>
    ib_step w (w\<lparr>proc := p',
      cleared := cleared w + mset (fst (pq_drain_all (ib_pending_queue (proc w))))\<rparr>)"

inductive ib_reach :: "nat \<Rightarrow> nat \<Rightarrow> u64 \<Rightarrow> 'v ib_world \<Rightarrow> bool" for b n t where
  init: "ib_reach b n t (ib_world_init b n t)"
| step: "ib_reach b n t w \<Longrightarrow> ib_step w w' \<Longrightarrow> ib_reach b n t w'"

section \<open>The invariant\<close>

definition pq_pending :: "'v priority_queue \<Rightarrow> 'v inflight_request list" where
  "pq_pending q = map or_request (pq_heap q)"

definition pq_wf :: "'v priority_queue \<Rightarrow> bool" where
  "pq_wf q \<longleftrightarrow>
     (\<forall>r \<in> set (pq_heap q). or_priority r = ir_priority (or_request r)) \<and>
     pq_oldest_enqueue q =
       (if pq_heap q = [] then None else Some (Min (ir_timestamp ` set (pq_pending q))))"

definition pq_fifo :: "nat \<Rightarrow> 'v priority_queue \<Rightarrow> bool" where
  "pq_fifo n q \<longleftrightarrow> pq_next_seq q = word_of_nat n \<and>
     (n < 2 ^ 64 \<longrightarrow> seqs_below (map (\<lambda>r. unat (or_seq r)) (pq_heap q)) n)"

definition ib_inv :: "nat \<Rightarrow> nat \<Rightarrow> 'v ib_world \<Rightarrow> bool" where
  "ib_inv b n w \<longleftrightarrow>
     ib_semaphore (proc w) + holding w + length (guards w) = n \<and>
     ib_inflight_batches (proc w) = word_of_nat (length (guards w)) \<and>
     handled w + cleared w + (\<Sum>g\<leftarrow>guards w. mset (ig_batch g)) +
       mset (pq_pending (ib_pending_queue (proc w))) = added w \<and>
     ib_max_batch_size (proc w) = b \<and>
     (\<forall>g \<in> set (guards w). \<not> ig_completed g \<and> length (ig_batch g) \<le> b) \<and>
     pq_wf (ib_pending_queue (proc w)) \<and> pq_fifo (size (added w)) (ib_pending_queue (proc w))"

lemma pq_push_simps:
  "pq_pending (pq_push r q) = pq_pending q @ [r]"
  "pq_heap (pq_push r q) = pq_heap q @
     [\<lparr>or_priority = ir_priority r, or_seq = pq_next_seq q, or_request = r\<rparr>]"
  "pq_next_seq (pq_push r q) = pq_next_seq q + 1"
  by (simp_all add: pq_push_def pq_pending_def Let_def)

lemma pq_oldest_push:
  "pq_oldest_enqueue (pq_push r q) =
     (case pq_oldest_enqueue q of None \<Rightarrow> Some (ir_timestamp r)
      | Some t \<Rightarrow> Some (min (ir_timestamp r) t))"
  by (auto simp: pq_push_def Let_def min_def split: option.splits)

lemma pq_wf_push: "pq_wf q \<Longrightarrow> pq_wf (pq_push r q)"
  by (auto simp: pq_wf_def pq_push_simps pq_oldest_push pq_pending_def)

lemma pq_fifo_push: "pq_fifo n q \<Longrightarrow> pq_fifo (Suc n) (pq_push r q)"
  using seqs_below_push [of "map (\<lambda>r. unat (or_seq r)) (pq_heap q)" n]
  by (auto simp: pq_fifo_def pq_push_simps unat_of_nat_small)

lemma pq_drain_all_pending:
  "mset (fst (pq_drain_all q)) = mset (pq_pending q)"
  by (simp add: pq_drain_all_def pq_pending_def heap_drain_sort)

lemma pq_drain_up_to_mset:
  "pq_drain_up_to m q = (batch, q') \<Longrightarrow> mset (pq_pending q) = mset batch + mset (pq_pending q')"
  using heap_take_sorted [of or_rank m "pq_heap q"]
  by (auto simp: pq_drain_up_to_def pq_pending_def split: prod.splits)

lemma pq_drain_up_to_length: "pq_drain_up_to m q = (batch, q') \<Longrightarrow> length batch \<le> m"
  using heap_take_sorted [of or_rank m "pq_heap q"]
  by (auto simp: pq_drain_up_to_def split: prod.splits)

lemma pq_wf_drain_up_to: "pq_wf q \<Longrightarrow> pq_drain_up_to m q = (batch, q') \<Longrightarrow> pq_wf q'"
  using heap_take_sorted [of or_rank m "pq_heap q"]
  by (auto simp: pq_drain_up_to_def pq_wf_def pq_pending_def image_image split: prod.splits)
     (metis UnCI set_mset_mset set_mset_union)

lemma pq_fifo_drain_up_to: "pq_fifo n q \<Longrightarrow> pq_drain_up_to m q = (batch, q') \<Longrightarrow> pq_fifo n q'"
  using heap_take_rest [of or_rank m "pq_heap q"]
  by (auto simp: pq_drain_up_to_def pq_fifo_def split: prod.splits)

lemmas pq_drain_up_to_facts = pq_drain_up_to_mset pq_drain_up_to_length pq_wf_drain_up_to
  pq_fifo_drain_up_to

lemma ib_inv_init [inv_intros]: "ib_inv b n (ib_world_init b n t)"
  by (simp add: ib_inv_def ib_world_init_def ib_new_def pq_new_def pq_wf_def pq_fifo_def
        pq_pending_def)

lemma ib_inv_add [inv_intros]:
  "ib_inv b n w \<Longrightarrow> ib_add_request r (proc w) = (a, p') \<Longrightarrow>
     ib_inv b n (w\<lparr>proc := p', added := add_mset r (added w)\<rparr>)"
  by (auto simp: ib_inv_def ib_add_request_def Let_def pq_wf_push pq_push_simps
        intro: pq_fifo_push)

lemma ib_inv_peeked [inv_intros]: "ib_inv b n w \<Longrightarrow> ib_inv b n (w\<lparr>peeked := k\<rparr>)"
  by (simp add: ib_inv_def)

lemma ib_inv_take [inv_intros]:
  "ib_inv b n w \<Longrightarrow> ib_take_permit (proc w) = Some p' \<Longrightarrow>
     ib_inv b n (w\<lparr>proc := p', peeked := k, holding := Suc (holding w)\<rparr>)"
  by (auto simp: ib_inv_def ib_take_permit_def split: if_splits)

lemma ib_inv_form [inv_intros]:
  assumes "ib_inv b n w" "holding w = Suc k" "ib_drain_phase (proc w) = (Some g, p')"
  shows "ib_inv b n (w\<lparr>proc := p', holding := k, guards := g # guards w\<rparr>)"
proof -
  let ?q = "ib_pending_queue (proc w)"
  obtain batch q' where d: "pq_drain_up_to (min (pq_len ?q) (ib_max_batch_size (proc w))) ?q = (batch, q')"
    by fastforce
  have inv: "pq_wf ?q" "pq_fifo (size (added w)) ?q" using assms(1) by (simp_all add: ib_inv_def)
  show ?thesis
    using assms d pq_drain_up_to_mset [OF d] pq_drain_up_to_length [OF d]
      pq_wf_drain_up_to [OF inv(1) d] pq_fifo_drain_up_to [OF inv(2) d]
    by (auto simp: ib_drain_phase_def ib_inv_def ig_new_def Let_def add_ac split: if_splits)
qed

lemma ib_inv_emptied [inv_intros]:
  "ib_inv b n w \<Longrightarrow> holding w = Suc k \<Longrightarrow> ib_drain_phase (proc w) = (None, p') \<Longrightarrow>
     ib_inv b n (w\<lparr>proc := p', holding := k\<rparr>)"
  by (auto simp: ib_inv_def ib_drain_phase_def ib_release_permit_def Let_def
        split: if_splits prod.splits)

lemma ib_inv_drop [inv_intros]:
  "ib_inv b n w \<Longrightarrow> guards w = gs @ g # gs' \<Longrightarrow>
     ib_inv b n (w\<lparr>proc := ig_drop g (proc w), guards := gs @ gs',
       handled := handled w + mset (ig_batch g)\<rparr>)"
  by (auto simp: ib_inv_def ig_drop_def ib_release_permit_def add_ac)

lemma ib_inv_complete [inv_intros]:
  "ib_inv b n w \<Longrightarrow> guards w = gs @ g # gs' \<Longrightarrow>
     ib_inv b n (w\<lparr>proc := ig_complete ms g (proc w), guards := gs @ gs',
       handled := handled w + mset (ig_batch g)\<rparr>)"
  by (auto simp: ib_inv_def ig_complete_def ig_drop_def ib_release_permit_def Let_def add_ac)

lemma ib_inv_clear [inv_intros]:
  assumes "ib_inv b n w" "ib_clear_queue (proc w) = (m, answers, p')"
  shows "ib_inv b n (w\<lparr>proc := p',
    cleared := cleared w + mset (fst (pq_drain_all (ib_pending_queue (proc w))))\<rparr>)"
  using assms
  by (auto simp: ib_inv_def ib_clear_queue_def pq_drain_all_pending split: prod.splits)
     (auto simp: pq_drain_all_def pq_wf_def pq_fifo_def pq_pending_def add_ac)

lemma ib_inv_step: "ib_step w w' \<Longrightarrow> ib_inv b n w \<Longrightarrow> ib_inv b n w'"
  by (induction rule: ib_step.induct) (auto intro: inv_intros)

lemma ib_inv_reach: "ib_reach b n t w \<Longrightarrow> ib_inv b n w"
  by (induction rule: ib_reach.induct) (auto intro: inv_intros ib_inv_step)

section \<open>Properties\<close>

text \<open>
  C7. Under every interleaving of additions, batch formations in their separate phases,
  completions, abandoned guards and clears: no more batches are in flight than permitted, the
  counter of batches in flight counts the live guards, no batch is larger than the maximum, and
  every request added is in exactly one place, in the queue, in a live batch, handled or cleared.
\<close>

theorem inflight_accounts:
  assumes "ib_reach b n t w" "n < 2 ^ 64"
  shows "length (guards w) \<le> n \<and> unat (ib_inflight_count (proc w)) = length (guards w) \<and>
    (\<forall>g \<in> set (guards w). length (ig_batch g) \<le> b) \<and>
    added w = handled w + cleared w + (\<Sum>g\<leftarrow>guards w. mset (ig_batch g)) +
      mset (pq_pending (ib_pending_queue (proc w)))"
proof -
  have inv: "ib_inv b n w" using assms(1) by (rule ib_inv_reach)
  then have "length (guards w) \<le> n" by (simp add: ib_inv_def)
  with inv assms(2) show ?thesis
    by (auto simp: ib_inv_def ib_inflight_count_def unat_of_nat_small)
qed

text \<open>The pending requests of a reachable world are in order of arrival under the rank.\<close>

lemma pq_sort_pending:
  assumes "pq_wf q" "pq_fifo k q" "k < 2 ^ 64"
  shows "map or_request (sort_key or_rank (pq_heap q)) =
    sort_key (\<lambda>r. - ir_priority r) (pq_pending q)"
proof -
  have "sort_key or_rank (pq_heap q) = sort_key (\<lambda>r. - or_priority r) (pq_heap q)"
    unfolding or_rank_def [abs_def]
    using assms by (intro ord_rank_sort) (simp add: pq_fifo_def seqs_below_def)
  then have "map or_request (sort_key or_rank (pq_heap q)) =
      map or_request (sort_key (\<lambda>r. - or_priority r) (pq_heap q))"
    by simp
  also have "\<dots> = sort_key (\<lambda>r. - ir_priority r) (pq_pending q)"
    unfolding pq_pending_def using assms(1) by (intro sort_key_map_req) (simp add: pq_wf_def)
  finally show ?thesis .
qed

lemma pq_drain_up_to_sorted:
  assumes "pq_wf q" "pq_fifo k q" "k < 2 ^ 64" "pq_drain_up_to m q = (batch, q')"
  shows "batch = take m (sort_key (\<lambda>r. - ir_priority r) (pq_pending q)) \<and>
    sort_key (\<lambda>r. - ir_priority r) (pq_pending q') =
      drop m (sort_key (\<lambda>r. - ir_priority r) (pq_pending q))"
proof -
  obtain items h where t: "heap_take or_rank m (pq_heap q) = (items, h)" by fastforce
  then have b: "batch = map or_request items" and h: "pq_heap q' = h"
    using assms(4) by (auto simp: pq_drain_up_to_def)
  have q': "pq_wf q'" "pq_fifo k q'"
    using pq_wf_drain_up_to [OF assms(1,4)] pq_fifo_drain_up_to [OF assms(2,4)] by simp_all
  note s = heap_take_sorted [OF t]
  show ?thesis
    using s b h pq_sort_pending [OF assms(1-3)] pq_sort_pending [OF q' assms(3)]
    by (simp add: take_map [symmetric] drop_map [symmetric])
qed

text \<open>
  C11. As long as fewer than \<open>2 ^ 64\<close> requests were added, \<open>try_form_batch\<close> in any reachable
  state forms a batch exactly when a request is pending, the queue holds a full batch or its
  oldest request has waited the timeout, and a permit is left. The batch is the front of the
  pending requests by falling priority and arrival, at most the maximal size, and the rest
  stays queued; otherwise nothing changes.
\<close>

theorem inflight_batch_order:
  assumes "ib_reach b n t w" "size (added w) < 2 ^ 64"
    and "ranked = sort_key (\<lambda>r. - ir_priority r) (pq_pending (ib_pending_queue (proc w)))"
  shows "case ib_try_form_batch now (proc w) of
      (Some g, p') \<Rightarrow> ranked \<noteq> [] \<and> ib_can_accept_batch (proc w) \<and> ig_batch g = take b ranked \<and>
        sort_key (\<lambda>r. - ir_priority r) (pq_pending (ib_pending_queue p')) = drop b ranked
    | (None, p') \<Rightarrow> p' = proc w \<and>
        (ranked = [] \<or> \<not> ib_can_accept_batch (proc w) \<or>
         length ranked < b \<and>
         now - Min (ir_timestamp ` set ranked) < unat (ib_batch_timeout_ms (proc w)) * 1000000)"
proof -
  let ?q = "ib_pending_queue (proc w)"
  have inv: "pq_wf ?q" "pq_fifo (size (added w)) ?q" "ib_max_batch_size (proc w) = b"
    using ib_inv_reach [OF assms(1)] by (simp_all add: ib_inv_def)
  have empty: "pq_is_empty ?q \<longleftrightarrow> ranked = []" "pq_heap ?q = [] \<longleftrightarrow> ranked = []"
    by (auto simp: pq_is_empty_def pq_pending_def assms(3) dest: arg_cong [of _ _ length])
  have len: "pq_len ?q = length ranked" by (simp add: pq_len_def pq_pending_def assms(3))
  have age: "ranked \<noteq> [] \<Longrightarrow>
      pq_oldest_age now ?q = Some (now - Min (ir_timestamp ` set ranked))"
    using inv(1) empty by (simp add: pq_wf_def pq_oldest_age_def assms(3))
  obtain batch q' where d: "pq_drain_up_to (min (pq_len ?q) b) ?q = (batch, q')" by fastforce
  have m: "take (min (length ranked) b) ranked = take b ranked"
    "drop (min (length ranked) b) ranked = drop b ranked"
    by (auto simp: min_def)
  note o = pq_drain_up_to_sorted [OF inv(1,2) assms(2) d, folded assms(3), unfolded len m]
  show ?thesis
    using o empty age d inv(3)
    by (auto simp: ib_try_form_batch_def ib_should_form_def ib_take_permit_def ib_drain_phase_def
        ib_can_accept_batch_def Let_def len ig_new_def not_le)
qed

text \<open>A run with two requests, of which a batch of one takes the more urgent.\<close>

abbreviation sample_inflight :: "string \<Rightarrow> int \<Rightarrow> nat \<Rightarrow> unit inflight_request" where
  "sample_inflight name prio tx \<equiv> \<lparr>ir_id = name, ir_model_name = ''m'', ir_inputs = [],
     ir_priority = prio, ir_timestamp = 5, ir_response_tx = tx\<rparr>"

definition sample_added :: "unit ib_world" where
  "sample_added = (ib_world_init 1 2 100)\<lparr>
     proc := snd (ib_add_request (sample_inflight ''b'' 2 1)
               (snd (ib_add_request (sample_inflight ''a'' 1 0) (ib_new 1 2 100)))),
     added := {#sample_inflight ''b'' 2 1, sample_inflight ''a'' 1 0#}\<rparr>"

definition sample_formed :: "unit ib_world" where
  "sample_formed = sample_added\<lparr>
     proc := snd (ib_try_form_batch 9 (proc sample_added)),
     guards := [ig_new [sample_inflight ''b'' 2 1]]\<rparr>"

lemma sample_added_reach: "ib_reach 1 2 100 sample_added"
proof -
  let ?w0 = "ib_world_init 1 2 100 :: unit ib_world"
  let ?w1 = "?w0\<lparr>proc := snd (ib_add_request (sample_inflight ''a'' 1 0) (proc ?w0)),
    added := add_mset (sample_inflight ''a'' 1 0) (added ?w0)\<rparr>"
  have "ib_step ?w0 ?w1" by (rule ib_step.add [of _ _ "Inr ()"]) (simp add: ib_add_request_def Let_def)
  then have r1: "ib_reach 1 2 100 ?w1" by (rule ib_reach.step [OF ib_reach.init])
  have "ib_step ?w1 (?w1\<lparr>proc := snd (ib_add_request (sample_inflight ''b'' 2 1) (proc ?w1)),
    added := add_mset (sample_inflight ''b'' 2 1) (added ?w1)\<rparr>)"
    by (rule ib_step.add [of _ _ "Inr ()"]) (simp add: ib_add_request_def Let_def)
  from ib_reach.step [OF r1 this] show ?thesis
    by (simp add: sample_added_def ib_world_init_def)
qed

lemma sample_formed_reach: "ib_reach 1 2 100 sample_formed"
proof -
  note defs = sample_added_def sample_formed_def ib_world_init_def ib_new_def ib_add_request_def
    pq_push_def pq_new_def Let_def ib_should_form_def pq_is_empty_def pq_len_def ib_take_permit_def
    ib_drain_phase_def pq_drain_up_to_def heap_pop_def or_rank_def ord_rank_def ig_new_def
    ib_try_form_batch_def pq_oldest_age_def
  let ?w1 = "sample_added\<lparr>peeked := Suc (peeked sample_added)\<rparr>"
  have "ib_step sample_added ?w1"
    by (rule ib_step.peek [of 9]) (simp add: defs)
  then have r1: "ib_reach 1 2 100 ?w1" by (rule ib_reach.step [OF sample_added_reach])
  let ?p = "(proc ?w1)\<lparr>ib_semaphore := 1\<rparr>"
  let ?w2 = "?w1\<lparr>proc := ?p, peeked := 0, holding := Suc (holding ?w1)\<rparr>"
  have "ib_step ?w1 ?w2" by (rule ib_step.take) (simp_all add: defs)
  then have r2: "ib_reach 1 2 100 ?w2" by (rule ib_reach.step [OF r1])
  have "ib_step ?w2 (?w2\<lparr>proc := snd (ib_drain_phase ?p), holding := 0,
      guards := ig_new [sample_inflight ''b'' 2 1] # guards ?w2\<rparr>)"
    by (rule ib_step.form) (simp_all add: defs eval_nat_numeral)
  from ib_reach.step [OF r2 this] show ?thesis by (simp add: defs)
qed

theorem inflight_accounts_witness:
  "ib_reach 1 2 100 sample_formed \<and> guards sample_formed \<noteq> [] \<and>
     unat (ib_inflight_count (proc sample_formed)) = 1"
  using inflight_accounts [OF sample_formed_reach] sample_formed_reach
  by (simp add: sample_formed_def)

theorem inflight_batch_order_witness:
  "case ib_try_form_batch 9 (proc sample_added) of
      (Some g, p') \<Rightarrow> ig_batch g = [sample_inflight ''b'' 2 1]
    | (None, p') \<Rightarrow> False"
proof -
  have pend: "pq_pending (ib_pending_queue (proc sample_added)) =
      [sample_inflight ''a'' 1 0, sample_inflight ''b'' 2 1]"
    by (simp add: sample_added_def ib_add_request_def Let_def ib_new_def pq_push_simps pq_new_def
        pq_pending_def)
  have "ib_can_accept_batch (proc sample_added)"
    by (simp add: sample_added_def ib_add_request_def Let_def ib_new_def ib_can_accept_batch_def)
  moreover have "size (added sample_added) < 2 ^ 64" by (simp add: sample_added_def)
  ultimately show ?thesis
    using inflight_batch_order [OF sample_added_reach _ refl, of 9]
    by (auto simp: pend split: prod.splits option.splits)
qed

end
