(* ===== verification/Store.thy ===== *)
theory Store
  imports Prelude
begin

text \<open>
  The contract shared by the server's caches. A cache is read through the entries it holds, as
  (value, time stored, time to live); what a client relies on is that no operation invents or
  refreshes an entry, that storing only adds the entry stored, that a removal or an erasure
  leaves nothing behind, and that a lookup answers from an entry still fresh. The locale proves
  once, over any run, that a hit is the value last stored under its key and not expired, and
  that the cache keeps to its capacity. \<open>'c\<close> is what chance decides in a store, \<open>'o\<close> the other
  operations of the object the cache is part of.
\<close>

datatype ('c, 'k, 'v, 'o) store_op =
  Lookup u64 'k | Insert 'c u64 'k 'v u64 | Forget 'k | Other 'o

type_synonym ('k, 'v) bindings = "'k \<Rightarrow> ('v \<times> u64 \<times> u64) option"

text \<open>What was last stored under each key, in a history of operations.\<close>

fun last_stored ::
  "('o \<Rightarrow> bool) \<Rightarrow> ('c, 'k, 'v, 'o) store_op \<Rightarrow> ('k, 'v) bindings \<Rightarrow> ('k, 'v) bindings" where
  "last_stored erases (Insert c now k v l) m = m(k \<mapsto> (v, now, l))"
| "last_stored erases (Forget k) m = m(k := None)"
| "last_stored erases (Lookup now k) m = m"
| "last_stored erases (Other x) m = (if erases x then Map.empty else m)"

lemma map_le_upd_mono: "f \<subseteq>\<^sub>m g \<Longrightarrow> f(k := x) \<subseteq>\<^sub>m g(k := x)"
  by (auto simp: map_le_def)

lemma map_leI: "(\<And>x. f x = None \<or> f x = g x) \<Longrightarrow> f \<subseteq>\<^sub>m g"
  unfolding map_le_def by (metis domIff)

locale expiring_store =
  fixes binding :: "'s \<Rightarrow> ('k, 'v) bindings"
    and fresh :: "u64 \<Rightarrow> u64 \<Rightarrow> u64 \<Rightarrow> bool"
    and lookup :: "u64 \<Rightarrow> 'k \<Rightarrow> 's \<Rightarrow> 'v option \<times> 's"
    and store :: "'c \<Rightarrow> u64 \<Rightarrow> 'k \<Rightarrow> 'v \<Rightarrow> u64 \<Rightarrow> 's \<Rightarrow> 's"
    and forget :: "'k \<Rightarrow> 's \<Rightarrow> 's"
    and other :: "'o \<Rightarrow> 's \<Rightarrow> 's"
    and erases :: "'o \<Rightarrow> bool"
    and init :: 's
    and wf :: "'s \<Rightarrow> bool"
    and room :: "'s \<Rightarrow> nat"
    and cap :: nat
  assumes init_binding: "wf init \<and> binding init = Map.empty \<and> room init \<le> cap"
    and lookup_binding: "wf s \<Longrightarrow> lookup now k s = (r, s') \<Longrightarrow>
      wf s' \<and> binding s' \<subseteq>\<^sub>m binding s \<and> (room s \<le> cap \<longrightarrow> room s' \<le> cap)"
    and lookup_hit: "wf s \<Longrightarrow> lookup now k s = (Some v, s') \<Longrightarrow>
      \<exists>t l. binding s k = Some (v, t, l) \<and> fresh now t l"
    and store_binding: "wf s \<Longrightarrow>
      wf (store c now k v l s) \<and> binding (store c now k v l s) \<subseteq>\<^sub>m (binding s)(k \<mapsto> (v, now, l))"
    and store_room: "wf s \<Longrightarrow> room s \<le> cap \<Longrightarrow> room (store c now k v l s) \<le> cap"
    and forget_binding: "wf s \<Longrightarrow>
      wf (forget k s) \<and> binding (forget k s) \<subseteq>\<^sub>m (binding s)(k := None) \<and>
      (room s \<le> cap \<longrightarrow> room (forget k s) \<le> cap)"
    and other_binding: "wf s \<Longrightarrow>
      wf (other x s) \<and> binding (other x s) \<subseteq>\<^sub>m binding s \<and>
      (room s \<le> cap \<longrightarrow> room (other x s) \<le> cap)"
    and other_erases: "wf s \<Longrightarrow> erases x \<Longrightarrow> binding (other x s) = Map.empty"
begin

fun store_step :: "('c, 'k, 'v, 'o) store_op \<Rightarrow> 's \<Rightarrow> 's" where
  "store_step (Lookup now k) s = snd (lookup now k s)"
| "store_step (Insert c now k v l) s = store c now k v l s"
| "store_step (Forget k) s = forget k s"
| "store_step (Other x) s = other x s"

lemma store_step_le:
  assumes "wf s" "binding s \<subseteq>\<^sub>m m" "room s \<le> cap"
  shows "wf (store_step e s) \<and> binding (store_step e s) \<subseteq>\<^sub>m last_stored erases e m \<and>
    room (store_step e s) \<le> cap"
proof (cases e)
  case (Lookup now k)
  then show ?thesis
    using assms lookup_binding [of s now k "fst (lookup now k s)" "snd (lookup now k s)"]
      map_le_trans by fastforce
next
  case (Insert c now k v l)
  then show ?thesis
    using assms store_binding [of s c now k v l] store_room [of s c now k v l]
      map_le_upd_mono [OF assms(2), of k "Some (v, now, l)"] map_le_trans by fastforce
next
  case (Forget k)
  then show ?thesis
    using assms forget_binding [of s k] map_le_upd_mono [OF assms(2), of k None] map_le_trans
    by fastforce
next
  case (Other x)
  then show ?thesis
    using assms other_binding [of s x] other_erases [of s x] map_le_trans by fastforce
qed

lemma store_run_le:
  "wf s \<Longrightarrow> binding s \<subseteq>\<^sub>m m \<Longrightarrow> room s \<le> cap \<Longrightarrow>
     wf (fold store_step es s) \<and> binding (fold store_step es s) \<subseteq>\<^sub>m fold (last_stored erases) es m \<and>
     room (fold store_step es s) \<le> cap"
proof (induction es arbitrary: s m)
  case Nil
  then show ?case by simp
next
  case (Cons e es)
  note inv = store_step_le [OF Cons.prems, of e]
  show ?case using inv Cons.IH [of "store_step e s" "last_stored erases e m"] by simp
qed

lemma store_run_init:
  "wf (fold store_step es init) \<and>
   binding (fold store_step es init) \<subseteq>\<^sub>m fold (last_stored erases) es Map.empty \<and>
   room (fold store_step es init) \<le> cap"
  using init_binding by (intro store_run_le) simp_all

text \<open>A hit is what was last stored under the key, and still fresh.\<close>

lemma store_hit:
  assumes "lookup now k (fold store_step es init) = (Some v, s')"
  shows "\<exists>t l. fold (last_stored erases) es Map.empty k = Some (v, t, l) \<and> fresh now t l"
proof -
  note inv = store_run_init [of es]
  from lookup_hit [OF conjunct1 [OF inv] assms] obtain t l where
    "binding (fold store_step es init) k = Some (v, t, l)" "fresh now t l" by blast
  with inv show ?thesis by (fastforce simp: map_le_def dom_def)
qed

lemma store_within: "room (fold store_step es init) \<le> cap"
  using store_run_init by blast

end

end
