(* ===== verification/Cache.thy ===== *)
theory Cache
  imports Store Floats "HOL-Library.AList" "HOL-Library.Product_Lexorder"
begin

text \<open>
  The response cache (\<open>src/src/cache.rs\<close>) and its coarse clock (\<open>src/src/clock.rs\<close>): a JSON map
  with segmented LRU eviction over a random sample, and a map of raw bytes beside it, each with
  entries that expire. JSON values are of type \<open>'v\<close> and shared bytes of type \<open>'b\<close>. A \<open>DashMap\<close>
  is an association list with distinct keys; the order an iteration meets them in is chosen by
  the \<open>reorder\<close> argument of the operation, like the shuffle of the sample.
\<close>

section \<open>The clock\<close>

text \<open>
  \<open>coarse_unix_secs\<close> returns the second just read, plus the offset that only tests set; the
  cached second is stored but never returned.
\<close>

definition coarse_unix_secs :: "u64 \<Rightarrow> u64 \<Rightarrow> u64 \<Rightarrow> u64 \<times> u64" where
  "coarse_unix_secs cached secs mock =
     (if unat secs + unat mock < 2 ^ 64 then secs + mock else - 1,
      if secs \<noteq> cached then secs else cached)"

section \<open>Entries and the cache\<close>

record 'v cache_entry =
  ce_data :: 'v
  ce_timestamp :: u64
  ce_ttl :: u64
  ce_last_access :: u64
  ce_access_count :: u64
  ce_insertion_order :: u64

record 'b bytes_cache_entry =
  be_data :: 'b
  be_timestamp :: u64
  be_ttl :: u64

definition ce_is_expired_at :: "u64 \<Rightarrow> 'v cache_entry \<Rightarrow> bool" where
  "ce_is_expired_at now e = (ce_ttl e < now - ce_timestamp e)"

definition be_is_expired_at :: "u64 \<Rightarrow> 'b bytes_cache_entry \<Rightarrow> bool" where
  "be_is_expired_at now e = (be_ttl e < now - be_timestamp e)"

record ('v, 'b) cache =
  ca_data :: "(string \<times> 'v cache_entry) list"
  ca_bytes_data :: "(string \<times> 'b bytes_cache_entry) list"
  ca_max_size :: nat
  ca_hits :: u64
  ca_misses :: u64
  ca_evictions :: u64
  ca_insertion_counter :: u64
  ca_eviction_samples :: u64

definition ca_new :: "nat \<Rightarrow> ('v, 'b) cache" where
  "ca_new max_size =
     \<lparr>ca_data = [], ca_bytes_data = [], ca_max_size = max_size, ca_hits = 0, ca_misses = 0,
      ca_evictions = 0, ca_insertion_counter = 0, ca_eviction_samples = 0\<rparr>"

definition ca_default :: "('v, 'b) cache" where
  "ca_default = ca_new 1000"

section \<open>The bytes map\<close>

definition ca_set_bytes ::
  "nat list \<Rightarrow> u64 \<Rightarrow> string \<Rightarrow> 'b \<Rightarrow> u64 \<Rightarrow> ('v, 'b) cache \<Rightarrow> (string + unit) \<times> ('v, 'b) cache" where
  "ca_set_bytes order now key value ttl c =
     (let bytes =
        (if ca_max_size c \<le> length (ca_bytes_data c) \<and> map_of (ca_bytes_data c) key = None
         then case reorder order (ca_bytes_data c) of
                [] \<Rightarrow> ca_bytes_data c
              | (evict_key, _) # _ \<Rightarrow> AList.delete evict_key (ca_bytes_data c)
         else ca_bytes_data c)
      in (Inr (), c\<lparr>ca_bytes_data := AList.update key
            \<lparr>be_data = value, be_timestamp = now, be_ttl = ttl\<rparr> bytes\<rparr>))"

definition ca_get_bytes :: "u64 \<Rightarrow> string \<Rightarrow> ('v, 'b) cache \<Rightarrow> 'b option \<times> ('v, 'b) cache" where
  "ca_get_bytes now key c =
     (case map_of (ca_bytes_data c) key of
        Some entry \<Rightarrow>
          if be_is_expired_at now entry
          then (None, c\<lparr>ca_bytes_data := AList.delete key (ca_bytes_data c),
                        ca_misses := ca_misses c + 1\<rparr>)
          else (Some (be_data entry), c\<lparr>ca_hits := ca_hits c + 1\<rparr>)
      | None \<Rightarrow> (None, c\<lparr>ca_misses := ca_misses c + 1\<rparr>))"

definition ca_remove_bytes :: "string \<Rightarrow> ('v, 'b) cache \<Rightarrow> ('v, 'b) cache" where
  "ca_remove_bytes key c = c\<lparr>ca_bytes_data := AList.delete key (ca_bytes_data c)\<rparr>"

section \<open>The JSON map\<close>

definition ca_get :: "u64 \<Rightarrow> string \<Rightarrow> ('v, 'b) cache \<Rightarrow> 'v option \<times> ('v, 'b) cache" where
  "ca_get now key c =
     (case map_of (ca_data c) key of
        Some entry \<Rightarrow>
          if ce_is_expired_at now entry
          then (None, c\<lparr>ca_data := AList.delete key (ca_data c), ca_misses := ca_misses c + 1\<rparr>)
          else
            let entry' = entry\<lparr>ce_last_access := now, ce_access_count := ce_access_count entry + 1\<rparr>
            in (Some (ce_data entry'),
                c\<lparr>ca_data := AList.update key entry' (ca_data c), ca_hits := ca_hits c + 1\<rparr>)
      | None \<Rightarrow> (None, c\<lparr>ca_misses := ca_misses c + 1\<rparr>))"

definition ca_evict_sample_size :: "rnd \<Rightarrow> ('v, 'b) cache \<Rightarrow> nat" where
  "ca_evict_sample_size fl c =
     (let total = ca_hits c + ca_misses c;
          hit_rate = (if total = 0 then 1
                      else fl (fl (real (unat (ca_hits c))) / fl (real (unat total))))
      in max 20 (min 100 (unat (f64_to_u64 (fl (20 + fl (fl (1 - hit_rate) * 80)))))))"

text \<open>A candidate is compared by its last access and then by its place of insertion.\<close>

record evict_candidate =
  ev_key :: string
  ev_last_access :: u64
  ev_access_count :: u64
  ev_insertion_order :: u64

definition ev_rank :: "evict_candidate \<Rightarrow> u64 \<times> u64" where
  "ev_rank c = (ev_last_access c, ev_insertion_order c)"

definition candidate_of :: "string \<times> 'v cache_entry \<Rightarrow> evict_candidate" where
  "candidate_of ke =
     \<lparr>ev_key = fst ke, ev_last_access = ce_last_access (snd ke),
      ev_access_count = ce_access_count (snd ke), ev_insertion_order = ce_insertion_order (snd ke)\<rparr>"

definition evict_victim :: "evict_candidate list \<Rightarrow> evict_candidate option" where
  "evict_victim candidates =
     (case min_by_key ev_rank (filter (\<lambda>c. ev_access_count c = 0) candidates) of
        Some c \<Rightarrow> Some c
      | None \<Rightarrow> min_by_key ev_rank candidates)"

text \<open>What an eviction cannot control: the map's order, the shuffle, and its own clock reading.\<close>

record chance =
  ch_order :: "nat list"
  ch_shuffle :: "nat list"
  ch_now :: u64

definition ca_evict_lru :: "rnd \<Rightarrow> chance \<Rightarrow> ('v, 'b) cache \<Rightarrow> ('v, 'b) cache" where
  "ca_evict_lru fl ch c =
     (let sample_size = ca_evict_sample_size fl c;
          entries = reorder (ch_order ch) (ca_data c);
          live = filter (\<lambda>ke. \<not> ce_is_expired_at (ch_now ch) (snd ke)) entries;
          all_candidates = reorder (ch_shuffle ch) (map candidate_of (take (sample_size * 2) live));
          c1 = c\<lparr>ca_eviction_samples := ca_eviction_samples c + word_of_nat (length all_candidates)\<rparr>
      in if all_candidates = []
         then case min_by_key (\<lambda>ke. ce_insertion_order (snd ke)) entries of
                Some (key, _) \<Rightarrow>
                  c1\<lparr>ca_data := AList.delete key (ca_data c1), ca_evictions := ca_evictions c1 + 1\<rparr>
              | None \<Rightarrow> c1
         else case evict_victim all_candidates of
                Some v \<Rightarrow>
                  c1\<lparr>ca_data := AList.delete (ev_key v) (ca_data c1),
                     ca_evictions := ca_evictions c1 + 1\<rparr>
              | None \<Rightarrow> c1)"

definition ca_set ::
  "rnd \<Rightarrow> chance \<Rightarrow> u64 \<Rightarrow> string \<Rightarrow> 'v \<Rightarrow> u64 \<Rightarrow> ('v, 'b) cache \<Rightarrow> (string + unit) \<times> ('v, 'b) cache" where
  "ca_set fl ch now key value ttl c =
     (let c1 = (if ca_max_size c \<le> length (ca_data c) \<and> map_of (ca_data c) key = None
                then ca_evict_lru fl ch c else c);
          insertion_order = ca_insertion_counter c1
      in (Inr (),
          c1\<lparr>ca_insertion_counter := ca_insertion_counter c1 + 1,
             ca_data := AList.update key
               \<lparr>ce_data = value, ce_timestamp = now, ce_ttl = ttl, ce_last_access = now,
                ce_access_count = 0, ce_insertion_order = insertion_order\<rparr> (ca_data c1)\<rparr>))"

record cache_stats =
  cs_hits :: u64
  cs_misses :: u64
  cs_evictions :: u64
  cs_size :: nat
  cs_hit_rate :: real
  cs_avg_samples_per_eviction :: real

definition ca_get_stats :: "rnd \<Rightarrow> ('v, 'b) cache \<Rightarrow> cache_stats" where
  "ca_get_stats fl c =
     (let hits = ca_hits c; misses = ca_misses c; total = hits + misses; evictions = ca_evictions c
      in \<lparr>cs_hits = hits, cs_misses = misses, cs_evictions = evictions,
          cs_size = length (ca_data c),
          cs_hit_rate =
            (if 0 < total then fl (fl (fl (real (unat hits)) / fl (real (unat total))) * 100) else 0),
          cs_avg_samples_per_eviction =
            (if 0 < evictions
             then fl (fl (real (unat (ca_eviction_samples c))) / fl (real (unat evictions)))
             else 0)\<rparr>)"

definition ca_remove :: "string \<Rightarrow> ('v, 'b) cache \<Rightarrow> ('v, 'b) cache" where
  "ca_remove key c = c\<lparr>ca_data := AList.delete key (ca_data c)\<rparr>"

definition ca_clear :: "('v, 'b) cache \<Rightarrow> ('v, 'b) cache" where
  "ca_clear c = c\<lparr>ca_data := []\<rparr>"

definition ca_size :: "('v, 'b) cache \<Rightarrow> nat" where
  "ca_size c = length (ca_data c)"

definition ca_cleanup_expired :: "u64 \<Rightarrow> ('v, 'b) cache \<Rightarrow> ('v, 'b) cache" where
  "ca_cleanup_expired now c =
     (let expired = map fst (filter (\<lambda>ke. ce_is_expired_at now (snd ke)) (ca_data c))
      in c\<lparr>ca_data := fold AList.delete expired (ca_data c)\<rparr>)"

section \<open>Association lists\<close>

lemma length_update:
  "length (AList.update k v xs) = (if map_of xs k = None then Suc (length xs) else length xs)"
  by (induction xs) auto

lemma length_delete_in:
  "distinct (map fst xs) \<Longrightarrow> map_of xs k \<noteq> None \<Longrightarrow> Suc (length (AList.delete k xs)) = length xs"
proof (induction xs)
  case Nil
  then show ?case by simp
next
  case (Cons a xs)
  show ?case
  proof (cases "fst a = k")
    case True
    then have "k \<notin> fst ` set xs" using Cons.prems(1) by auto
    then have "AList.delete k xs = xs" by (simp add: AList.delete_eq filter_id_conv)
       (auto simp: image_iff)
    with True show ?thesis by (cases a) simp
  next
    case False
    with Cons show ?thesis by (cases a) auto
  qed
qed

lemma length_delete_le: "length (AList.delete k xs) \<le> length xs"
  by (simp add: AList.delete_eq)

lemma fold_delete_facts:
  "distinct (map fst xs) \<Longrightarrow> distinct (map fst (fold AList.delete ks xs)) \<and>
     map_of (fold AList.delete ks xs) \<subseteq>\<^sub>m map_of xs \<and>
     length (fold AList.delete ks xs) \<le> length xs"
proof (induction ks arbitrary: xs)
  case Nil
  then show ?case by simp
next
  case (Cons k ks)
  have "map_of (AList.delete k xs) \<subseteq>\<^sub>m map_of xs" by (auto simp: map_le_def AList.delete_conv)
  with Cons.IH [of "AList.delete k xs"] Cons.prems length_delete_le [of k xs] show ?case
    by (auto simp: AList.distinct_delete intro: map_le_trans order_trans)
qed

lemma map_le_compose: "f \<subseteq>\<^sub>m g \<Longrightarrow> (\<lambda>k. map_option h (f k)) \<subseteq>\<^sub>m (\<lambda>k. map_option h (g k))"
  by (auto simp: map_le_def dom_def)

lemma map_le_update:
  "f \<subseteq>\<^sub>m g \<Longrightarrow> (\<lambda>x. map_option h ((f(k \<mapsto> e)) x)) \<subseteq>\<^sub>m (\<lambda>x. map_option h (g x))(k \<mapsto> h e)"
  by (auto simp: map_le_def dom_def)

section \<open>Eviction\<close>

text \<open>An eviction from a full map removes exactly one of its entries.\<close>

lemma ca_evict_data:
  "\<exists>ks. ca_data (ca_evict_lru fl ch c) = fold AList.delete ks (ca_data c)"
proof -
  have "\<exists>ks. AList.delete k xs = fold AList.delete ks xs" for k and xs :: "(string \<times> 'v cache_entry) list"
    by (rule exI [of _ "[k]"]) simp
  moreover have "\<exists>ks. xs = fold AList.delete ks xs" for xs :: "(string \<times> 'v cache_entry) list"
    by (rule exI [of _ "[]"]) simp
  ultimately show ?thesis
    by (auto simp: ca_evict_lru_def Let_def split: option.split)
qed

lemma ca_evict_same [simp]:
  "ca_bytes_data (ca_evict_lru fl ch c) = ca_bytes_data c"
  "ca_max_size (ca_evict_lru fl ch c) = ca_max_size c"
  by (simp_all add: ca_evict_lru_def Let_def split: option.split)

lemma evict_victim_in: "evict_victim cs = Some c \<Longrightarrow> c \<in> set cs"
  by (auto simp: evict_victim_def split: option.splits)

lemma evict_victim_None [simp]: "evict_victim cs = None \<longleftrightarrow> cs = []"
  by (auto simp: evict_victim_def split: option.splits)

lemma ca_evict_length:
  assumes "distinct (map fst (ca_data c))" "ca_data c \<noteq> []"
  shows "Suc (length (ca_data (ca_evict_lru fl ch c))) = length (ca_data c)"
proof -
  have del: "Suc (length (AList.delete k (ca_data c))) = length (ca_data c)"
    if "k \<in> fst ` set (ca_data c)" for k
    using that assms(1) by (intro length_delete_in) (auto simp: map_of_eq_None_iff)
  let ?live = "filter (\<lambda>ke. \<not> ce_is_expired_at (ch_now ch) (snd ke)) (reorder (ch_order ch) (ca_data c))"
  have vic: "ev_key v \<in> fst ` set (ca_data c)"
    if "evict_victim (reorder (ch_shuffle ch) (map candidate_of (take n ?live))) = Some v" for n v
    using evict_victim_in [OF that]
    by (auto simp: candidate_of_def dest!: in_set_takeD intro: rev_image_eqI)
  have old: "k \<in> fst ` set (ca_data c)"
    if "min_by_key f (reorder (ch_order ch) (ca_data c)) = Some (k, e)" for f :: "_ \<Rightarrow> u64" and k e
    using min_by_key_in [OF that] by (force simp: image_iff)
  have ne: "reorder (ch_order ch) (ca_data c) \<noteq> []"
    using assms(2) by (metis length_0_conv length_reorder)
  show ?thesis
    using ne by (auto simp: ca_evict_lru_def Let_def intro: del vic old split: option.split)
qed

section \<open>Both maps are expiring stores\<close>

text \<open>Every operation of a cache, and the two maps' views of it.\<close>

datatype ('v, 'b) cache_op =
  Get u64 string | SetJson chance u64 string 'v u64 | Remove string | CleanupExpired u64 | Clear
| GetBytes u64 string | SetBytes "nat list" u64 string 'b u64 | RemoveBytes string

fun ca_step :: "rnd \<Rightarrow> ('v, 'b) cache_op \<Rightarrow> ('v, 'b) cache \<Rightarrow> ('v, 'b) cache" where
  "ca_step fl (Get now k) c = snd (ca_get now k c)"
| "ca_step fl (SetJson ch now k v l) c = snd (ca_set fl ch now k v l c)"
| "ca_step fl (Remove k) c = ca_remove k c"
| "ca_step fl (CleanupExpired now) c = ca_cleanup_expired now c"
| "ca_step fl Clear c = ca_clear c"
| "ca_step fl (GetBytes now k) c = snd (ca_get_bytes now k c)"
| "ca_step fl (SetBytes order now k b l) c = snd (ca_set_bytes order now k b l c)"
| "ca_step fl (RemoveBytes k) c = ca_remove_bytes k c"

fun json_view :: "('v, 'b) cache_op \<Rightarrow> (chance, string, 'v, ('v, 'b) cache_op) store_op" where
  "json_view (Get now k) = Lookup now k"
| "json_view (SetJson ch now k v l) = Insert ch now k v l"
| "json_view (Remove k) = Forget k"
| "json_view e = Other e"

fun bytes_view :: "('v, 'b) cache_op \<Rightarrow> (nat list, string, 'b, ('v, 'b) cache_op) store_op" where
  "bytes_view (GetBytes now k) = Lookup now k"
| "bytes_view (SetBytes order now k b l) = Insert order now k b l"
| "bytes_view (RemoveBytes k) = Forget k"
| "bytes_view e = Other e"

definition json_binding :: "('v, 'b) cache \<Rightarrow> (string, 'v) bindings" where
  "json_binding c k = map_option (\<lambda>e. (ce_data e, ce_timestamp e, ce_ttl e)) (map_of (ca_data c) k)"

definition bytes_binding :: "('v, 'b) cache \<Rightarrow> (string, 'b) bindings" where
  "bytes_binding c k =
     map_option (\<lambda>e. (be_data e, be_timestamp e, be_ttl e)) (map_of (ca_bytes_data c) k)"

definition ca_wf :: "nat \<Rightarrow> ('v, 'b) cache \<Rightarrow> bool" where
  "ca_wf n c \<longleftrightarrow> distinct (map fst (ca_data c)) \<and> distinct (map fst (ca_bytes_data c)) \<and>
     ca_max_size c = n"

definition cache_fresh :: "u64 \<Rightarrow> u64 \<Rightarrow> u64 \<Rightarrow> bool" where
  "cache_fresh now stored ttl \<longleftrightarrow> now - stored \<le> ttl"

definition json_other :: "rnd \<Rightarrow> ('v, 'b) cache_op \<Rightarrow> ('v, 'b) cache \<Rightarrow> ('v, 'b) cache" where
  "json_other fl e c = (case json_view e of Other _ \<Rightarrow> ca_step fl e c | _ \<Rightarrow> c)"

definition bytes_other :: "rnd \<Rightarrow> ('v, 'b) cache_op \<Rightarrow> ('v, 'b) cache \<Rightarrow> ('v, 'b) cache" where
  "bytes_other fl e c = (case bytes_view e of Other _ \<Rightarrow> ca_step fl e c | _ \<Rightarrow> c)"

definition is_clear :: "('v, 'b) cache_op \<Rightarrow> bool" where
  "is_clear e = (case e of Clear \<Rightarrow> True | _ \<Rightarrow> False)"

lemmas store_defs = json_binding_def [abs_def] bytes_binding_def [abs_def] ca_wf_def json_other_def
  bytes_other_def

lemma ca_evict_facts:
  assumes "distinct (map fst (ca_data c))"
  shows "distinct (map fst (ca_data (ca_evict_lru fl ch c)))"
    "map_of (ca_data (ca_evict_lru fl ch c)) \<subseteq>\<^sub>m map_of (ca_data c)"
    "length (ca_data (ca_evict_lru fl ch c)) \<le> length (ca_data c)"
  using ca_evict_data [of fl ch c] fold_delete_facts [OF assms] by auto

text \<open>What a store does to the JSON map: at most one entry goes when it is full, one comes.\<close>

lemma ca_set_facts:
  assumes "ca_wf n c"
  obtains c1 i where
    "ca_data (snd (ca_set fl ch now k v l c)) = AList.update k
       \<lparr>ce_data = v, ce_timestamp = now, ce_ttl = l, ce_last_access = now, ce_access_count = 0,
        ce_insertion_order = i\<rparr> c1"
    "distinct (map fst c1)" "map_of c1 \<subseteq>\<^sub>m map_of (ca_data c)" "length c1 \<le> length (ca_data c)"
    "map_of (ca_data c) k = None \<Longrightarrow> n \<le> length (ca_data c) \<Longrightarrow> length c1 \<le> length (ca_data c) - 1"
    "\<not> (n \<le> length (ca_data c) \<and> map_of (ca_data c) k = None) \<Longrightarrow> c1 = ca_data c"
proof -
  have wf: "distinct (map fst (ca_data c))" "ca_max_size c = n"
    using assms by (simp_all add: ca_wf_def)
  note ev = ca_evict_facts [OF wf(1), of fl ch]
  define c1 where "c1 = (if ca_max_size c \<le> length (ca_data c) \<and> map_of (ca_data c) k = None
    then ca_evict_lru fl ch c else c)"
  have len: "length (ca_data (ca_evict_lru fl ch c)) \<le> length (ca_data c) - 1"
    using ca_evict_length [OF wf(1), of fl ch] ev(3) by (cases "ca_data c = []") auto
  show thesis
    by (rule that [of "ca_insertion_counter c1" "ca_data c1"])
      (use wf ev len in \<open>auto simp: c1_def ca_set_def Let_def\<close>)
qed

lemma ca_set_same [simp]:
  "ca_bytes_data (snd (ca_set fl ch now k v l c)) = ca_bytes_data c"
  "ca_max_size (snd (ca_set fl ch now k v l c)) = ca_max_size c"
  by (simp_all add: ca_set_def Let_def)

lemma json_store_facts:
  assumes "ca_wf n c"
  shows "ca_wf n (snd (ca_set fl ch now k v l c))"
    "json_binding (snd (ca_set fl ch now k v l c)) \<subseteq>\<^sub>m (json_binding c)(k \<mapsto> (v, now, l))"
    "length (ca_data c) \<le> max n 1 \<Longrightarrow> length (ca_data (snd (ca_set fl ch now k v l c))) \<le> max n 1"
proof -
  obtain c1 i where st: "ca_data (snd (ca_set fl ch now k v l c)) = AList.update k
       \<lparr>ce_data = v, ce_timestamp = now, ce_ttl = l, ce_last_access = now, ce_access_count = 0,
        ce_insertion_order = i\<rparr> c1"
    and c1: "distinct (map fst c1)" "map_of c1 \<subseteq>\<^sub>m map_of (ca_data c)"
      "length c1 \<le> length (ca_data c)"
      "map_of (ca_data c) k = None \<Longrightarrow> n \<le> length (ca_data c) \<Longrightarrow> length c1 \<le> length (ca_data c) - 1"
      "\<not> (n \<le> length (ca_data c) \<and> map_of (ca_data c) k = None) \<Longrightarrow> c1 = ca_data c"
    using ca_set_facts [OF assms] by metis
  show "ca_wf n (snd (ca_set fl ch now k v l c))"
    using c1(1) assms by (simp add: ca_wf_def st AList.distinct_update)
  show "json_binding (snd (ca_set fl ch now k v l c)) \<subseteq>\<^sub>m (json_binding c)(k \<mapsto> (v, now, l))"
    using map_le_update [OF c1(2), of "\<lambda>e. (ce_data e, ce_timestamp e, ce_ttl e)" k
        "\<lparr>ce_data = v, ce_timestamp = now, ce_ttl = l, ce_last_access = now, ce_access_count = 0,
          ce_insertion_order = i\<rparr>"]
    by (simp add: json_binding_def [abs_def] st AList.update_conv' del: fun_upd_apply)
  assume len: "length (ca_data c) \<le> max n 1"
  show "length (ca_data (snd (ca_set fl ch now k v l c))) \<le> max n 1"
  proof (cases "map_of (ca_data c) k = None \<and> n \<le> length (ca_data c)")
    case True
    with c1(4) len show ?thesis by (auto simp: st length_update)
  next
    case False
    with c1(5) len show ?thesis by (auto simp: st length_update)
  qed
qed

lemma bytes_store_facts:
  assumes "ca_wf n c"
  shows "ca_wf n (snd (ca_set_bytes order now k b l c))"
    "bytes_binding (snd (ca_set_bytes order now k b l c)) \<subseteq>\<^sub>m (bytes_binding c)(k \<mapsto> (b, now, l))"
    "length (ca_bytes_data c) \<le> max n 1 \<Longrightarrow>
      length (ca_bytes_data (snd (ca_set_bytes order now k b l c))) \<le> max n 1"
proof -
  have dist: "distinct (map fst (ca_bytes_data c))" and n: "ca_max_size c = n"
    using assms by (simp_all add: ca_wf_def)
  define full where "full = (n \<le> length (ca_bytes_data c) \<and> map_of (ca_bytes_data c) k = None)"
  define bs where "bs = (if full
    then case reorder order (ca_bytes_data c) of [] \<Rightarrow> ca_bytes_data c
         | (evict_key, _) # _ \<Rightarrow> AList.delete evict_key (ca_bytes_data c)
    else ca_bytes_data c)"
  have st: "ca_bytes_data (snd (ca_set_bytes order now k b l c)) =
      AList.update k \<lparr>be_data = b, be_timestamp = now, be_ttl = l\<rparr> bs"
    "ca_data (snd (ca_set_bytes order now k b l c)) = ca_data c"
    "ca_max_size (snd (ca_set_bytes order now k b l c)) = n"
    by (simp_all add: ca_set_bytes_def Let_def bs_def full_def n)
  have bs: "distinct (map fst bs) \<and> map_of bs \<subseteq>\<^sub>m map_of (ca_bytes_data c) \<and>
      length bs \<le> length (ca_bytes_data c) \<and> (full \<longrightarrow> length bs \<le> length (ca_bytes_data c) - 1)"
  proof (cases "full \<and> ca_bytes_data c \<noteq> []")
    case True
    then obtain ek e es where r: "reorder order (ca_bytes_data c) = (ek, e) # es"
      by (metis length_0_conv length_reorder list.exhaust surj_pair)
    then have "(ek, e) \<in> set (ca_bytes_data c)" by (metis list.set_intros(1) set_reorder)
    then have "map_of (ca_bytes_data c) ek \<noteq> None"
      using dist by simp
    from length_delete_in [OF dist this] show ?thesis
      using True r fold_delete_facts [OF dist, of "[ek]"] by (simp add: bs_def)
  next
    case False
    then have "bs = ca_bytes_data c" by (auto simp: bs_def)
    with False dist show ?thesis by auto
  qed
  show "ca_wf n (snd (ca_set_bytes order now k b l c))"
    using assms bs by (simp add: ca_wf_def st AList.distinct_update)
  show "bytes_binding (snd (ca_set_bytes order now k b l c)) \<subseteq>\<^sub>m (bytes_binding c)(k \<mapsto> (b, now, l))"
    using bs map_le_update [of "map_of bs" "map_of (ca_bytes_data c)"
        "\<lambda>e. (be_data e, be_timestamp e, be_ttl e)" k "\<lparr>be_data = b, be_timestamp = now, be_ttl = l\<rparr>"]
    by (simp add: bytes_binding_def [abs_def] st AList.update_conv' del: fun_upd_apply)
  assume "length (ca_bytes_data c) \<le> max n 1"
  then show "length (ca_bytes_data (snd (ca_set_bytes order now k b l c))) \<le> max n 1"
    using bs by (auto simp: st length_update full_def bs_def not_le)
qed

lemma ca_get_facts:
  assumes "ca_wf n c" "ca_get now k c = (r, c')"
  shows "ca_wf n c' \<and> json_binding c' \<subseteq>\<^sub>m json_binding c \<and> length (ca_data c') \<le> length (ca_data c) \<and>
    ca_bytes_data c' = ca_bytes_data c \<and>
    (\<forall>v. r = Some v \<longrightarrow> (\<exists>t l. json_binding c k = Some (v, t, l) \<and> cache_fresh now t l))"
  using assms
  by (auto simp: ca_get_def ca_wf_def json_binding_def [abs_def] Let_def AList.distinct_delete
      AList.distinct_update AList.delete_conv' AList.update_conv' map_le_def length_update
      length_delete_le cache_fresh_def ce_is_expired_at_def not_less split: option.splits if_splits)

lemma ca_get_bytes_facts:
  assumes "ca_wf n c" "ca_get_bytes now k c = (r, c')"
  shows "ca_wf n c' \<and> bytes_binding c' \<subseteq>\<^sub>m bytes_binding c \<and>
    length (ca_bytes_data c') \<le> length (ca_bytes_data c) \<and> ca_data c' = ca_data c \<and>
    (\<forall>v. r = Some v \<longrightarrow> (\<exists>t l. bytes_binding c k = Some (v, t, l) \<and> cache_fresh now t l))"
  using assms
  by (auto simp: ca_get_bytes_def ca_wf_def bytes_binding_def [abs_def] AList.distinct_delete
      AList.delete_conv' map_le_def length_delete_le cache_fresh_def be_is_expired_at_def not_less
      split: option.splits if_splits)

lemma ca_set_bytes_same [simp]: "ca_data (snd (ca_set_bytes order now k b l c)) = ca_data c"
  by (simp add: ca_set_bytes_def Let_def)

lemma json_other_facts:
  assumes "ca_wf n c"
  shows "ca_wf n (json_other fl e c) \<and> json_binding (json_other fl e c) \<subseteq>\<^sub>m json_binding c \<and>
    length (ca_data (json_other fl e c)) \<le> length (ca_data c)"
proof (cases e)
  case (CleanupExpired now)
  then show ?thesis
    using assms fold_delete_facts [of "ca_data c"]
    by (auto simp: json_other_def ca_wf_def ca_cleanup_expired_def json_binding_def [abs_def]
        intro!: map_le_compose)
next
  case (GetBytes now k)
  then show ?thesis
    using ca_get_bytes_facts [OF assms, of now k "fst (ca_get_bytes now k c)" "snd (ca_get_bytes now k c)"]
    by (simp add: json_other_def json_binding_def [abs_def])
next
  case (SetBytes order now k b l)
  then show ?thesis
    using bytes_store_facts(1) [OF assms] by (simp add: json_other_def json_binding_def [abs_def])
qed (use assms in \<open>auto simp: json_other_def ca_wf_def ca_clear_def json_binding_def [abs_def]
       ca_remove_bytes_def AList.distinct_delete\<close>)

lemma bytes_other_facts:
  assumes "ca_wf n c"
  shows "ca_wf n (bytes_other fl e c) \<and> ca_bytes_data (bytes_other fl e c) = ca_bytes_data c"
proof (cases e)
  case (Get now k)
  then show ?thesis
    using ca_get_facts [OF assms, of now k "fst (ca_get now k c)" "snd (ca_get now k c)"]
    by (simp add: bytes_other_def)
next
  case (SetJson ch now k v l)
  then show ?thesis using json_store_facts(1) [OF assms] by (simp add: bytes_other_def)
next
  case (CleanupExpired now)
  then show ?thesis
    using assms fold_delete_facts [of "ca_data c"]
    by (simp add: bytes_other_def ca_wf_def ca_cleanup_expired_def)
qed (use assms in \<open>auto simp: bytes_other_def ca_wf_def ca_clear_def ca_remove_def
       AList.distinct_delete\<close>)

interpretation json: expiring_store json_binding cache_fresh ca_get
  "\<lambda>ch now k v l c. snd (ca_set fl ch now k v l c)" ca_remove "json_other fl" is_clear
  "ca_new n" "ca_wf n" "\<lambda>c. length (ca_data c)" "max n 1"
  for fl n
proof (unfold_locales, goal_cases)
  case 1
  show ?case by (simp add: ca_new_def ca_wf_def json_binding_def [abs_def])
next
  case (2 s now k r s')
  then show ?case using ca_get_facts order_trans by blast
next
  case (3 s now k v s')
  then show ?case using ca_get_facts by blast
next
  case (4 s c now k v l)
  then show ?case by (intro conjI json_store_facts)
next
  case (5 s c now k v l)
  then show ?case by (rule json_store_facts(3))
next
  case (6 s k)
  then show ?case
    by (auto simp: ca_wf_def json_binding_def [abs_def] ca_remove_def AList.distinct_delete
        AList.delete_conv' map_le_def intro: order_trans [OF length_delete_le])
next
  case (7 s x)
  then show ?case using json_other_facts order_trans by blast
next
  case (8 s x)
  then show ?case
    by (auto simp: is_clear_def json_other_def ca_clear_def json_binding_def [abs_def]
        split: cache_op.splits)
qed

interpretation bytes: expiring_store bytes_binding cache_fresh ca_get_bytes
  "\<lambda>order now k b l c. snd (ca_set_bytes order now k b l c)" ca_remove_bytes "bytes_other fl"
  "\<lambda>_. False" "ca_new n" "ca_wf n" "\<lambda>c. length (ca_bytes_data c)" "max n 1"
  for fl n
proof (unfold_locales, goal_cases)
  case 1
  show ?case by (simp add: ca_new_def ca_wf_def bytes_binding_def [abs_def])
next
  case (2 s now k r s')
  then show ?case using ca_get_bytes_facts order_trans by blast
next
  case (3 s now k v s')
  then show ?case using ca_get_bytes_facts by blast
next
  case (4 s c now k v l)
  then show ?case by (intro conjI bytes_store_facts)
next
  case (5 s c now k v l)
  then show ?case by (rule bytes_store_facts(3))
next
  case (6 s k)
  then show ?case
    by (auto simp: ca_wf_def bytes_binding_def [abs_def] ca_remove_bytes_def AList.distinct_delete
        AList.delete_conv' map_le_def intro: order_trans [OF length_delete_le])
next
  case (7 s x)
  then show ?case using bytes_other_facts [of n s fl x] by (simp add: bytes_binding_def [abs_def])
qed simp

lemma ca_step_json: "ca_step fl e c = json.store_step fl (json_view e) c"
  by (cases e) (simp_all add: json_other_def)

lemma ca_step_bytes: "ca_step fl e c = bytes.store_step fl (bytes_view e) c"
  by (cases e) (simp_all add: bytes_other_def)

section \<open>Properties\<close>

text \<open>The history of a key: what was last stored under it, unless removed or cleared since.\<close>

definition json_history :: "('v, 'b) cache_op list \<Rightarrow> (string, 'v) bindings" where
  "json_history es = fold (last_stored is_clear) (map json_view es) Map.empty"

definition bytes_history :: "('v, 'b) cache_op list \<Rightarrow> (string, 'b) bindings" where
  "bytes_history es = fold (last_stored (\<lambda>_. False)) (map bytes_view es) Map.empty"

text \<open>
  C8. After every run of the cache's operations, under every iteration order, shuffle, rounding
  and clock, a hit is the value last stored under its key, not removed or cleared since and not
  older than its time to live; and neither map holds more than \<open>max_size\<close> entries (one, for a
  \<open>max_size\<close> of 0).
\<close>

theorem cache_never_stale:
  assumes "fold (ca_step fl) es (ca_new n) = c"
  shows "(fst (ca_get now k c) = Some v \<longrightarrow>
      (\<exists>t l. json_history es k = Some (v, t, l) \<and> now - t \<le> l)) \<and>
    (fst (ca_get_bytes now k c) = Some b \<longrightarrow>
      (\<exists>t l. bytes_history es k = Some (b, t, l) \<and> now - t \<le> l)) \<and>
    ca_size c \<le> max n 1 \<and> length (ca_bytes_data c) \<le> max n 1"
proof -
  have j: "c = fold (json.store_step fl) (map json_view es) (ca_new n)"
    using assms by (simp add: fold_map o_def ca_step_json [abs_def])
  have b: "c = fold (bytes.store_step fl) (map bytes_view es) (ca_new n)"
    using assms by (simp add: fold_map o_def ca_step_bytes [abs_def])
  show ?thesis
    using json.store_hit [of now k fl "map json_view es" n v "snd (ca_get now k c)", folded j]
      bytes.store_hit [of now k fl "map bytes_view es" n b "snd (ca_get_bytes now k c)", folded b]
      json.store_within [of fl "map json_view es" n, folded j]
      bytes.store_within [of fl "map bytes_view es" n, folded b]
    by (auto simp: json_history_def bytes_history_def cache_fresh_def ca_size_def prod_eq_iff)
qed

abbreviation no_chance :: chance where
  "no_chance \<equiv> \<lparr>ch_order = [1], ch_shuffle = [], ch_now = 5\<rparr>"

theorem cache_never_stale_witness:
  "\<exists>c. fold (ca_step exact)
      [SetJson no_chance 3 ''a'' (1 :: nat) 10, SetJson no_chance 4 ''b'' 2 10,
       Get 5 ''a'', SetJson no_chance 5 ''c'' 3 10] (ca_new 2 :: (nat, nat) cache) = c \<and>
     map fst (ca_data c) = [''a'', ''c''] \<and> ca_size c \<le> 2 \<and> fst (ca_get 13 ''a'' c) = Some 1 \<and>
     fst (ca_get 14 ''a'' c) = None"
proof -
  let ?es = "[SetJson no_chance 3 ''a'' (1 :: nat) 10, SetJson no_chance 4 ''b'' 2 10,
       Get 5 ''a'', SetJson no_chance 5 ''c'' 3 10]"
  let ?c = "fold (ca_step exact) ?es (ca_new 2 :: (nat, nat) cache)"
  have "ca_size ?c \<le> 2" using cache_never_stale [where fl = exact and es = ?es and n = 2 and
      now = 13 and k = "''a''" and v = 1 and b = 0 and c = ?c] by simp
  then show ?thesis
    by (simp add: ca_new_def ca_set_def ca_get_def ca_evict_lru_def ca_evict_sample_size_def
        ce_is_expired_at_def candidate_of_def evict_victim_def ev_rank_def Let_def
        f64_to_u64_def ca_size_def)
qed

lemma evict_victim_least:
  assumes "evict_victim cs = Some v"
    and "cands = (let prob = filter (\<lambda>c. ev_access_count c = 0) cs in if prob = [] then cs else prob)"
  shows "v \<in> set cands \<and> (\<forall>c \<in> set cands. ev_rank v \<le> ev_rank c)"
proof (cases "filter (\<lambda>c. ev_access_count c = 0) cs = []")
  case True
  then have "cands = cs" using assms(2) by simp
  moreover have "min_by_key ev_rank cs = Some v"
    using assms(1) True by (simp add: evict_victim_def)
  ultimately show ?thesis using min_by_key_Some [of ev_rank cs v] by simp
next
  case False
  then obtain w where w: "min_by_key ev_rank (filter (\<lambda>c. ev_access_count c = 0) cs) = Some w"
    by (cases "min_by_key ev_rank (filter (\<lambda>c. ev_access_count c = 0) cs)") auto
  with assms(1) have "w = v" by (simp add: evict_victim_def)
  moreover have "cands = filter (\<lambda>c. ev_access_count c = 0) cs" using False assms(2) by simp
  ultimately show ?thesis using min_by_key_Some [OF w] by auto
qed

text \<open>The rank of an entry: last access, then place of insertion.\<close>

definition ce_rank :: "'v cache_entry \<Rightarrow> u64 \<times> u64" where
  "ce_rank e = (ce_last_access e, ce_insertion_order e)"

text \<open>
  When at least one and at most 40 entries are alive, so that the sample holds them all, an
  eviction removes the entry with the least last access, and among those the first inserted, of
  the live entries never fetched, or of all live entries when each was fetched; whatever the
  iteration order and the shuffle. An expired entry is never what it removes.
\<close>

theorem cache_evicts_slru:
  assumes "live = filter (\<lambda>ke. \<not> ce_is_expired_at (ch_now ch) (snd ke)) (ca_data c)"
    and "live \<noteq> []" "length live \<le> 40"
    and "cands = (let prob = filter (\<lambda>ke. ce_access_count (snd ke) = 0) live
                  in if prob = [] then live else prob)"
  shows "\<exists>k e. (k, e) \<in> set cands \<and> (\<forall>ke \<in> set cands. ce_rank e \<le> ce_rank (snd ke)) \<and>
    ca_data (ca_evict_lru fl ch c) = AList.delete k (ca_data c)"
proof -
  define live' where
    "live' = filter (\<lambda>ke. \<not> ce_is_expired_at (ch_now ch) (snd ke)) (reorder (ch_order ch) (ca_data c))"
  have set_live: "mset live' = mset live" by (simp add: live'_def assms(1))
  then have len: "length live' = length live" by (rule mset_eq_length)
  have "20 \<le> ca_evict_sample_size fl c" by (simp add: ca_evict_sample_size_def Let_def)
  then have tk: "take (ca_evict_sample_size fl c * 2) live' = live'"
    using len assms(3) by simp
  define cs where "cs = reorder (ch_shuffle ch) (map candidate_of live')"
  have cs_set: "set cs = candidate_of ` set live"
    using mset_eq_setD [OF set_live] by (simp add: cs_def)
  have ne: "cs \<noteq> []" using cs_set assms(2) by auto
  then obtain v where v: "evict_victim cs = Some v" by (cases "evict_victim cs") auto
  define vc where "vc = (let prob = filter (\<lambda>c. ev_access_count c = 0) cs in if prob = [] then cs else prob)"
  have "filter (\<lambda>c. ev_access_count c = 0) cs = [] \<longleftrightarrow>
      filter (\<lambda>ke. ce_access_count (snd ke) = 0) live = []"
    using cs_set by (auto simp: filter_empty_conv candidate_of_def)
  then have vc_set: "set vc = candidate_of ` set cands"
    using cs_set by (auto simp: vc_def assms(4) Let_def candidate_of_def)
  note least = evict_victim_least [OF v vc_def]
  then obtain ke where ke: "ke \<in> set cands" "v = candidate_of ke" using vc_set by auto
  have rank: "ev_rank (candidate_of x) = ce_rank (snd x)" for x :: "string \<times> 'a cache_entry"
    by (simp add: ev_rank_def candidate_of_def ce_rank_def)
  have "\<forall>x \<in> set cands. ce_rank (snd ke) \<le> ce_rank (snd x)"
    using least vc_set ke(2) by (auto simp: rank)
  moreover have "ca_data (ca_evict_lru fl ch c) = AList.delete (fst ke) (ca_data c)"
    using ne v ke(2)
    by (simp add: ca_evict_lru_def Let_def live'_def [symmetric] tk cs_def [symmetric] candidate_of_def)
  ultimately show ?thesis using ke(1) by (metis prod.collapse)
qed

theorem cache_evicts_slru_witness:
  "\<exists>k. ca_data (ca_evict_lru exact no_chance
      (fold (ca_step exact) [SetJson no_chance 3 ''a'' (1 :: nat) 10, SetJson no_chance 4 ''b'' 2 10,
         Get 5 ''a''] (ca_new 2 :: (nat, nat) cache))) =
    AList.delete k (ca_data (fold (ca_step exact) [SetJson no_chance 3 ''a'' (1 :: nat) 10,
         SetJson no_chance 4 ''b'' 2 10, Get 5 ''a''] (ca_new 2 :: (nat, nat) cache))) \<and> k = ''b''"
proof -
  define c where "c = fold (ca_step exact) [SetJson no_chance 3 ''a'' (1 :: nat) 10,
    SetJson no_chance 4 ''b'' 2 10, Get 5 ''a''] (ca_new 2 :: (nat, nat) cache)"
  have d: "ca_data c =
    [(''a'', \<lparr>ce_data = 1, ce_timestamp = 3, ce_ttl = 10, ce_last_access = 5, ce_access_count = 1,
       ce_insertion_order = 0\<rparr>),
     (''b'', \<lparr>ce_data = 2, ce_timestamp = 4, ce_ttl = 10, ce_last_access = 4, ce_access_count = 0,
       ce_insertion_order = 1\<rparr>)]"
    by (simp add: c_def ca_new_def ca_set_def ca_get_def ce_is_expired_at_def Let_def)
  show ?thesis
    using cache_evicts_slru [OF refl _ _ refl, of no_chance c exact]
    unfolding c_def [symmetric] by (simp add: d ce_is_expired_at_def Let_def)
qed

end
