(* ===== verification/Lru.thy ===== *)
theory Lru
  imports Prelude "HOL-Library.AList"
begin

text \<open>
  The interface of the \<open>lru\<close> crate's \<open>LruCache\<close>, which two caches are built on. The crate is not
  part of the sources: its operations are an argument of the definitions that call it. The
  locale states what its documentation says of them, in terms of the entries from the most to
  the least recently used; the list itself is the instance the witnesses compute with.
\<close>

record ('k, 'v, 'c) lru_ops =
  lru_new :: "nat \<Rightarrow> 'c"
  lru_get :: "'k \<Rightarrow> 'c \<Rightarrow> 'v option \<times> 'c"
  lru_peek :: "'k \<Rightarrow> 'c \<Rightarrow> 'v option"
  lru_put :: "'k \<Rightarrow> 'v \<Rightarrow> 'c \<Rightarrow> 'c"
  lru_pop :: "'k \<Rightarrow> 'c \<Rightarrow> 'c"
  lru_clear :: "'c \<Rightarrow> 'c"
  lru_iter :: "'c \<Rightarrow> ('k \<times> 'v) list"
  lru_len :: "'c \<Rightarrow> nat"

lemma length_AList_delete: "length (AList.delete k xs) \<le> length xs"
  by (simp add: AList.delete_eq)

lemma distinct_AList_delete: "distinct (map fst xs) \<Longrightarrow> k \<notin> fst ` set (AList.delete k xs)"
  by (auto simp: AList.delete_eq)

lemma distinct_map_take: "distinct (map f xs) \<Longrightarrow> distinct (map f (take n xs))"
  by (simp add: take_map [symmetric])

lemma length_AList_delete_found: "map_of xs k = Some v \<Longrightarrow> length (AList.delete k xs) < length xs"
  by (auto simp: AList.delete_eq dest!: map_of_SomeD intro!: length_filter_less)

lemma map_leD: "m \<subseteq>\<^sub>m m' \<Longrightarrow> m k = Some v \<Longrightarrow> m' k = Some v"
  by (fastforce simp: map_le_def dom_def)

lemma map_of_take: "map_of (take n xs) \<subseteq>\<^sub>m map_of xs"
proof (induction xs arbitrary: n)
  case Nil
  then show ?case by simp
next
  case (Cons x xs)
  have "\<forall>a y. map_of (take m xs) a = Some y \<longrightarrow> map_of xs a = Some y" for m
    using Cons [of m] by (auto simp: map_le_def dom_def)
  then show ?case by (cases n) (auto simp: map_le_def dom_def)
qed

locale lru =
  fixes L :: "('k, 'v, 'c) lru_ops" and lru_wf :: "nat \<Rightarrow> 'c \<Rightarrow> bool"
  assumes new_iter: "0 < n \<Longrightarrow> lru_wf n (lru_new L n) \<and> lru_iter L (lru_new L n) = []"
    and iter_wf: "lru_wf n c \<Longrightarrow> distinct (map fst (lru_iter L c)) \<and> length (lru_iter L c) \<le> n"
    and len_iter: "lru_wf n c \<Longrightarrow> lru_len L c = length (lru_iter L c)"
    and peek_iter: "lru_wf n c \<Longrightarrow> lru_peek L k c = map_of (lru_iter L c) k"
    and get_iter: "lru_wf n c \<Longrightarrow> lru_get L k c = (r, c') \<Longrightarrow>
      lru_wf n c' \<and> r = map_of (lru_iter L c) k \<and>
      lru_iter L c' = (case r of None \<Rightarrow> lru_iter L c
                       | Some v \<Rightarrow> (k, v) # AList.delete k (lru_iter L c))"
    and put_iter: "lru_wf n c \<Longrightarrow> 0 < n \<Longrightarrow>
      lru_wf n (lru_put L k v c) \<and>
      lru_iter L (lru_put L k v c) = take n ((k, v) # AList.delete k (lru_iter L c))"
    and pop_iter: "lru_wf n c \<Longrightarrow>
      lru_wf n (lru_pop L k c) \<and> lru_iter L (lru_pop L k c) = AList.delete k (lru_iter L c)"
    and clear_iter: "lru_wf n c \<Longrightarrow> lru_wf n (lru_clear L c) \<and> lru_iter L (lru_clear L c) = []"
begin

lemma get_same: "lru_wf n c \<Longrightarrow> map_of (lru_iter L (snd (lru_get L k c))) = map_of (lru_iter L c)"
  using get_iter [of n c k "fst (lru_get L k c)" "snd (lru_get L k c)"]
  by (auto simp: fun_eq_iff AList.delete_conv' split: option.splits)

lemma put_same:
  "lru_wf n c \<Longrightarrow> 0 < n \<Longrightarrow> map_of (lru_iter L (lru_put L k v c)) \<subseteq>\<^sub>m (map_of (lru_iter L c))(k \<mapsto> v)"
proof -
  assume wf: "lru_wf n c" "0 < n"
  have "map_of (lru_iter L (lru_put L k v c)) \<subseteq>\<^sub>m map_of ((k, v) # AList.delete k (lru_iter L c))"
    using map_of_take [of n "(k, v) # AList.delete k (lru_iter L c)"] put_iter [OF wf, of k v]
      by simp
  also have "map_of ((k, v) # AList.delete k (lru_iter L c)) = (map_of (lru_iter L c))(k \<mapsto> v)"
    by (auto simp: AList.delete_conv' fun_eq_iff)
  finally show ?thesis .
qed

lemma put_found: "lru_wf n c \<Longrightarrow> 0 < n \<Longrightarrow> map_of (lru_iter L (lru_put L k v c)) k = Some v"
  using put_iter [of n c k v] by (cases n) auto

lemma pop_fold:
  "lru_wf n c \<Longrightarrow> lru_wf n (fold (lru_pop L) ks c) \<and>
     lru_iter L (fold (lru_pop L) ks c) = fold AList.delete ks (lru_iter L c)"
  by (induction ks arbitrary: c) (simp_all add: pop_iter)

end

definition list_lru :: "('k, 'v, nat \<times> ('k \<times> 'v) list) lru_ops" where
  "list_lru =
     \<lparr>lru_new = (\<lambda>n. (n, [])),
      lru_get = (\<lambda>k c. case map_of (snd c) k of None \<Rightarrow> (None, c)
                   | Some v \<Rightarrow> (Some v, fst c, (k, v) # AList.delete k (snd c))),
      lru_peek = (\<lambda>k c. map_of (snd c) k),
      lru_put = (\<lambda>k v c. (fst c, take (fst c) ((k, v) # AList.delete k (snd c)))),
      lru_pop = (\<lambda>k c. (fst c, AList.delete k (snd c))),
      lru_clear = (\<lambda>c. (fst c, [])),
      lru_iter = snd,
      lru_len = (\<lambda>c. length (snd c))\<rparr>"

definition list_lru_wf :: "nat \<Rightarrow> nat \<times> ('k \<times> 'v) list \<Rightarrow> bool" where
  "list_lru_wf n c \<longleftrightarrow> fst c = n \<and> distinct (map fst (snd c)) \<and> length (snd c) \<le> n"

interpretation list_lru: lru list_lru list_lru_wf
proof (unfold_locales, goal_cases)
  case (5 n c k r c')
  then show ?case
    using length_AList_delete_found [of "snd c" k]
    by (auto simp: list_lru_def list_lru_wf_def AList.distinct_delete distinct_AList_delete
        split: option.splits) (fastforce simp: Suc_le_eq)
next
  case (6 n c k v)
  then show ?case
    by (auto simp: list_lru_def list_lru_wf_def AList.distinct_delete distinct_AList_delete
        intro!: distinct_map_take)
next
  case (7 n c k)
  then show ?case
    by (auto simp: list_lru_def list_lru_wf_def AList.distinct_delete
        intro: order_trans [OF length_AList_delete])
qed (auto simp: list_lru_def list_lru_wf_def)

end
