(* ===== verification/Fnv.thy ===== *)
theory Fnv
  imports Prelude
begin

text \<open>
  FNV-1a, 64 bit, of which the sources hold a copy in \<open>src/src/dedup.rs\<close>, one in
  \<open>src/src/core/model_cache.rs\<close> and one in \<open>src/src/core/tts_manager.rs\<close>. A byte is a \<open>u8\<close>, and a
  Rust string is the list of its bytes, each a \<open>char\<close>.
\<close>

unbundle bit_operations_syntax

definition as_bytes :: "string \<Rightarrow> u8 list" where
  "as_bytes s = map (\<lambda>c. word_of_nat (of_char c)) s"

definition FNV_OFFSET :: u64 where
  "FNV_OFFSET = 14695981039346656037"

definition FNV_PRIME :: u64 where
  "FNV_PRIME = 1099511628211"

definition fnv_step :: "u64 \<Rightarrow> u8 \<Rightarrow> u64" where
  "fnv_step h b = (h XOR ucast b) * FNV_PRIME"

definition fnv1a :: "u8 list \<Rightarrow> u64" where
  "fnv1a data = foldl fnv_step FNV_OFFSET data"

lemma as_bytes_append [simp]: "as_bytes (s @ t) = as_bytes s @ as_bytes t"
  by (simp add: as_bytes_def)

lemma byte_of_char_inject: "(word_of_nat (of_char c) :: u8) = word_of_nat (of_char d) \<longleftrightarrow> c = d"
proof
  assume eq: "(word_of_nat (of_char c) :: u8) = word_of_nat (of_char d)"
  have "unat (word_of_nat (of_char e) :: u8) = (of_char e :: nat)" for e
    by (intro unat_of_nat_small) simp
  with eq have "(of_char c :: nat) = of_char d" by metis
  then show "c = d" by simp
qed simp

lemma as_bytes_inject [simp]: "as_bytes s = as_bytes t \<longleftrightarrow> s = t"
  unfolding as_bytes_def by (rule inj_map_eq_map) (auto simp: inj_def byte_of_char_inject)

text \<open>The prime is odd, so that a step can be undone.\<close>

lemma FNV_PRIME_inverse: "FNV_PRIME * 14886173955864302971 = 1"
  by (simp add: FNV_PRIME_def)

lemma FNV_PRIME_cancel: "x * FNV_PRIME = y * FNV_PRIME \<longleftrightarrow> x = y"
proof
  assume "x * FNV_PRIME = y * FNV_PRIME"
  then have "x * (FNV_PRIME * 14886173955864302971) = y * (FNV_PRIME * 14886173955864302971)"
    by (simp only: mult.assoc [symmetric])
  then show "x = y" by (simp add: FNV_PRIME_inverse)
qed simp

lemma xor_cancel: "(x XOR z = y XOR z) = (x = (y :: 'a::len word))"
proof
  assume "x XOR z = y XOR z"
  then have "(x XOR z) XOR z = (y XOR z) XOR z" by simp
  then show "x = y" by (simp add: xor.assoc)
qed simp

lemma fnv_step_state: "fnv_step h b = fnv_step h' b \<longleftrightarrow> h = h'"
  by (simp add: fnv_step_def FNV_PRIME_cancel xor_cancel)

lemma fnv_step_byte: "fnv_step h b = fnv_step h b' \<longleftrightarrow> b = b'"
proof -
  have "h XOR ucast b = h XOR ucast b' \<longleftrightarrow> (ucast b :: u64) = ucast b'"
    using xor_cancel [of "ucast b" h "ucast b'"] by (simp add: xor.commute)
  moreover have "(ucast b :: u64) = ucast b' \<longleftrightarrow> b = b'"
  proof
    assume eq: "(ucast b :: u64) = ucast b'"
    have "unat (ucast x :: u64) = unat x" for x :: u8
    proof -
      have "unat x < 2 ^ LENGTH(8)" by (rule unsigned_less)
      then have "unat x < 2 ^ 64" by (rule less_le_trans) simp
      then show ?thesis by (simp add: unsigned_ucast_eq take_bit_nat_eq_self_iff)
    qed
    with eq have "unat b = unat b'" by metis
    then show "b = b'" by (rule word_unat_eq_iff [THEN iffD2])
  qed simp
  ultimately show ?thesis by (simp add: fnv_step_def FNV_PRIME_cancel)
qed

lemma foldl_fnv_state: "foldl fnv_step h bs = foldl fnv_step h' bs \<longleftrightarrow> h = h'"
  by (induction bs arbitrary: h h') (simp_all add: fnv_step_state)

text \<open>Inputs that differ in one byte never collide.\<close>

lemma fnv1a_one_byte: "fnv1a (xs @ b # ys) = fnv1a (xs @ b' # ys) \<longleftrightarrow> b = b'"
  by (simp add: fnv1a_def foldl_fnv_state fnv_step_byte)

end
