(* ===== verification/Text.thy ===== *)
theory Text
  imports Prelude "HOL-Library.Char_ord" "HOL-Library.List_Lexorder"
begin

text \<open>
  Strings and what the sources use of Rust's formatting: \<open>{}\<close> of an unsigned number, \<open>{:016x}\<close>,
  splitting at a separator, and the ASCII tests and conversions on bytes. A string is the list
  of its bytes.
\<close>

definition digit :: "nat \<Rightarrow> char" where
  "digit d = char_of (48 + d)"

fun show_nat :: "nat \<Rightarrow> string" where
  "show_nat n = (if n < 10 then [digit n] else show_nat (n div 10) @ [digit (n mod 10)])"

declare show_nat.simps [simp del]

definition hex_digit :: "nat \<Rightarrow> char" where
  "hex_digit d = (if d < 10 then char_of (48 + d) else char_of (87 + d))"

definition hex16 :: "u64 \<Rightarrow> string" where
  "hex16 w = map (\<lambda>i. hex_digit (unat w div 16 ^ i mod 16)) (rev [0..<16])"

lemma of_char_digit: "d < 10 \<Longrightarrow> of_char (digit d) = (48 + d :: nat)"
  by (simp add: digit_def)

lemma digit_inject: "d < 10 \<Longrightarrow> e < 10 \<Longrightarrow> digit d = digit e \<longleftrightarrow> d = e"
  by (metis of_char_digit add_left_cancel)

lemma show_nat_digits: "c \<in> set (show_nat n) \<Longrightarrow> \<exists>d < 10. c = digit d"
proof (induction n rule: show_nat.induct)
  case (1 n)
  then show ?case by (cases "n < 10") (auto simp: show_nat.simps [of n] intro: exI [of _ "n mod 10"])
qed

lemma colon_not_digit: "d < 10 \<Longrightarrow> CHR '':'' \<noteq> digit d"
proof
  assume "d < 10" "CHR '':'' = digit d"
  then have "of_char (CHR '':'') = (48 + d :: nat)" using of_char_digit [of d] by metis
  with \<open>d < 10\<close> show False by simp
qed

lemma colon_not_in_show_nat: "CHR '':'' \<notin> set (show_nat n)"
  using show_nat_digits colon_not_digit by blast

lemma show_nat_inject: "show_nat m = show_nat n \<longleftrightarrow> m = n"
proof
  assume "show_nat m = show_nat n"
  then show "m = n"
  proof (induction m arbitrary: n rule: show_nat.induct)
    case (1 m)
    have ne: "show_nat k \<noteq> []" for k by (subst show_nat.simps) simp
    show ?case
    proof (cases "m < 10")
      case True
      then show ?thesis using 1 ne [of "n div 10"]
        by (cases "n < 10") (auto simp: show_nat.simps [of m] show_nat.simps [of n] digit_inject)
    next
      case False
      with 1(2) ne [of "m div 10"] have n: "\<not> n < 10"
        by (auto simp: show_nat.simps [of m] show_nat.simps [of n])
      with 1(2) False have "show_nat (m div 10) = show_nat (n div 10)" "m mod 10 = n mod 10"
        by (auto simp: show_nat.simps [of m] show_nat.simps [of n] digit_inject)
      with 1(1) [OF False] have "m div 10 = n div 10" by blast
      with \<open>m mod 10 = n mod 10\<close> show ?thesis by (metis div_mult_mod_eq)
    qed
  qed
qed simp

lemma of_char_hex_digit:
  "d < 16 \<Longrightarrow> of_char (hex_digit d) = (if d < 10 then 48 + d else 87 + d :: nat)"
  by (simp add: hex_digit_def)

lemma hex_digit_inject: "d < 16 \<Longrightarrow> e < 16 \<Longrightarrow> hex_digit d = hex_digit e \<longleftrightarrow> d = e"
proof
  assume lt: "d < 16" "e < 16" and "hex_digit d = hex_digit e"
  then have "(of_char (hex_digit d) :: nat) = of_char (hex_digit e)" by simp
  then have "(if d < 10 then 48 + d else 87 + d) = (if e < 10 then 48 + e else 87 + e)"
    by (simp only: of_char_hex_digit [OF lt(1)] of_char_hex_digit [OF lt(2)])
  then show "d = e" by (simp split: if_splits)
qed simp

lemma length_hex16 [simp]: "length (hex16 w) = 16"
  by (simp add: hex16_def)

lemma colon_not_in_hex16: "CHR '':'' \<notin> set (hex16 w)"
proof
  assume "CHR '':'' \<in> set (hex16 w)"
  then obtain i where "CHR '':'' = hex_digit (unat w div 16 ^ i mod 16)" by (auto simp: hex16_def)
  moreover have "unat w div 16 ^ i mod 16 < 16" by simp
  ultimately obtain d where d: "d < 16" "CHR '':'' = hex_digit d" by blast
  then have "of_char (CHR '':'') = (if d < 10 then 48 + d else 87 + d :: nat)"
    using of_char_hex_digit by metis
  with d(1) show False by (simp split: if_splits)
qed

lemma hex_digits_value: "n < 16 ^ k \<Longrightarrow> (\<Sum>i<k. (n div 16 ^ i mod 16) * 16 ^ i) = (n :: nat)"
proof (induction k arbitrary: n)
  case 0
  then show ?case by simp
next
  case (Suc k)
  have "n div 16 < 16 ^ k" using Suc.prems by (simp add: less_mult_imp_div_less mult.commute)
  then have "(\<Sum>i<k. (n div 16 div 16 ^ i mod 16) * 16 ^ i) = n div 16" by (rule Suc.IH)
  then have "16 * (\<Sum>i<k. (n div 16 div 16 ^ i mod 16) * 16 ^ i) = 16 * (n div 16)" by simp
  then have "(\<Sum>i<k. (n div 16 ^ Suc i mod 16) * 16 ^ Suc i) = 16 * (n div 16)"
    by (simp add: sum_distrib_left div_mult2_eq ac_simps)
  then show ?case by (simp add: sum.lessThan_Suc_shift del: sum.lessThan_Suc power_Suc)
qed

lemma hex16_inject: "hex16 v = hex16 w \<longleftrightarrow> v = w"
proof
  assume eq: "hex16 v = hex16 w"
  have dig: "unat v div 16 ^ i mod 16 = unat w div 16 ^ i mod 16" if "i < 16" for i
  proof -
    have "i \<in> set (rev [0..<16])" using that by simp
    with eq have "hex_digit (unat v div 16 ^ i mod 16) = hex_digit (unat w div 16 ^ i mod 16)"
      unfolding hex16_def by (rule map_eq_conv [THEN iffD1, THEN bspec])
    then show ?thesis by (simp add: hex_digit_inject)
  qed
  have "unat x < 16 ^ 16" for x :: u64
    using unsigned_less [of x, where 'a = nat] by simp
  note bound = this
  have "unat v = (\<Sum>i<16. (unat v div 16 ^ i mod 16) * 16 ^ i)"
    by (rule hex_digits_value [OF bound, symmetric])
  also have "\<dots> = (\<Sum>i<16. (unat w div 16 ^ i mod 16) * 16 ^ i)"
    using dig by (intro sum.cong refl) (simp only: lessThan_iff)
  also have "\<dots> = unat w" by (rule hex_digits_value [OF bound])
  finally have "unat v = unat w" .
  then show "v = w" by (rule word_unat_eq_iff [THEN iffD2])
qed simp

text \<open>Splitting at the last separator is unique.\<close>

lemma append_sep_inject:
  "c \<notin> set ys \<Longrightarrow> c \<notin> set ys' \<Longrightarrow> xs @ c # ys = xs' @ c # ys' \<longleftrightarrow> xs = xs' \<and> ys = ys'"
proof (induction xs arbitrary: xs')
  case Nil
  then show ?case by (cases xs') auto
next
  case (Cons x xs)
  show ?case
  proof (cases xs')
    case Nil
    have "ys' \<noteq> xs @ c # ys" using Cons.prems(2) by (metis in_set_conv_decomp)
    with Nil show ?thesis by auto
  next
    case (Cons a as)
    with Cons.IH [OF Cons.prems, of as] show ?thesis by simp
  qed
qed

section \<open>Whitespace and prefixes\<close>

text \<open>ASCII white space; \<open>str::trim\<close> removes it at both ends.\<close>

definition is_space :: "char \<Rightarrow> bool" where
  "is_space c \<longleftrightarrow> of_char c \<in> {9, 10, 11, 12, 13, 32 :: nat}"

definition trim_start :: "string \<Rightarrow> string" where
  "trim_start s = dropWhile is_space s"

definition trim :: "string \<Rightarrow> string" where
  "trim s = rev (dropWhile is_space (rev (dropWhile is_space s)))"

fun starts_with :: "string \<Rightarrow> string \<Rightarrow> bool" where
  "starts_with s [] = True"
| "starts_with [] (c # cs) = False"
| "starts_with (d # ds) (c # cs) = (c = d \<and> starts_with ds cs)"

definition strip_prefix :: "string \<Rightarrow> string \<Rightarrow> string option" where
  "strip_prefix p s = (if starts_with s p then Some (drop (length p) s) else None)"

lemma starts_with_iff: "starts_with s p \<longleftrightarrow> (\<exists>t. s = p @ t)"
  by (induction s p rule: starts_with.induct) auto

lemma strip_prefix_Some: "strip_prefix p s = Some t \<longleftrightarrow> s = p @ t"
  by (auto simp: strip_prefix_def starts_with_iff)

definition ends_with :: "string \<Rightarrow> string \<Rightarrow> bool" where
  "ends_with s p \<longleftrightarrow> starts_with (rev s) (rev p)"

text \<open>\<open>str::contains\<close>.\<close>

fun contains :: "string \<Rightarrow> string \<Rightarrow> bool" where
  "contains [] p = (p = [])"
| "contains (c # cs) p = (starts_with (c # cs) p \<or> contains cs p)"

lemma contains_iff: "contains s p \<longleftrightarrow> (\<exists>xs ys. s = xs @ p @ ys)"
proof (induction s)
  case (Cons c cs)
  show ?case
  proof
    assume "contains (c # cs) p"
    then consider "starts_with (c # cs) p" | "contains cs p" by auto
    then show "\<exists>xs ys. c # cs = xs @ p @ ys"
    proof cases
      case 1
      then obtain t where "c # cs = [] @ p @ t" by (auto simp: starts_with_iff)
      then show ?thesis by blast
    next
      case 2
      then obtain xs ys where "cs = xs @ p @ ys" using Cons.IH by blast
      then have "c # cs = (c # xs) @ p @ ys" by simp
      then show ?thesis by blast
    qed
  next
    assume "\<exists>xs ys. c # cs = xs @ p @ ys"
    then obtain xs ys where eq: "c # cs = xs @ p @ ys" by blast
    show "contains (c # cs) p"
    proof (cases xs)
      case Nil
      with eq have "starts_with (c # cs) p" by (auto simp: starts_with_iff)
      then show ?thesis by simp
    next
      case (Cons x zs)
      with eq have "cs = zs @ p @ ys" by simp
      with Cons.IH show ?thesis by auto
    qed
  qed
qed auto

definition ascii_lower :: "char \<Rightarrow> char" where
  "ascii_lower c = (let n = of_char c in if 65 \<le> n \<and> n \<le> (90 :: nat) then char_of (n + 32) else c)"

definition ascii_upper :: "char \<Rightarrow> char" where
  "ascii_upper c = (let n = of_char c in if 97 \<le> n \<and> n \<le> (122 :: nat) then char_of (n - 32) else c)"

definition to_ascii_lowercase :: "string \<Rightarrow> string" where
  "to_ascii_lowercase s = map ascii_lower s"

definition to_ascii_uppercase :: "string \<Rightarrow> string" where
  "to_ascii_uppercase s = map ascii_upper s"

text \<open>
  A character as the list of its UTF-8 bytes, and those with the property \<open>White_Space\<close>, which \<open>trim\<close> removes.
\<close>

type_synonym uchar = string

definition utf8 :: "nat list \<Rightarrow> uchar" where
  "utf8 bs = map char_of bs"

definition white_chars :: "uchar list" where
  "white_chars = map utf8
     ([[9], [10], [11], [12], [13], [32], [194, 133], [194, 160], [225, 154, 128]] @
      map (\<lambda>b. [226, 128, b]) [128 ..< 139] @
      [[226, 128, 168], [226, 128, 169], [226, 128, 175], [226, 129, 159], [227, 128, 128]])"

definition is_white :: "uchar \<Rightarrow> bool" where
  "is_white c \<longleftrightarrow> c \<in> set white_chars"

text \<open>\<open>s.trim().is_empty()\<close> for a text given by its bytes.\<close>

function is_blank :: "string \<Rightarrow> bool" where
  "is_blank s =
     (if s = [] then True
      else case find (starts_with s) white_chars of None \<Rightarrow> False | Some w \<Rightarrow> is_blank (drop (length w) s))"
  by pat_completeness auto
termination
proof (relation "measure length")
  fix s w
  assume s: "s \<noteq> []" and w: "find (starts_with s) white_chars = Some w"
  have "w \<in> set white_chars" using w by (auto simp: find_Some_iff)
  then have "w \<noteq> []" by (auto simp: white_chars_def utf8_def)
  with s show "(drop (length w) s, s) \<in> measure length" by simp
qed simp

declare is_blank.simps [simp del]

text \<open>\<open>str::trim\<close>, for all white space; the text has at most as many characters as bytes.\<close>

fun skip_any :: "string list \<Rightarrow> nat \<Rightarrow> string \<Rightarrow> string" where
  "skip_any ws 0 s = s"
| "skip_any ws (Suc n) s = (case find (starts_with s) ws of Some w \<Rightarrow> skip_any ws n (drop (length w) s) | None \<Rightarrow> s)"

definition trim_white :: "string \<Rightarrow> string" where
  "trim_white s =
     rev (skip_any (map rev white_chars) (length s) (rev (skip_any white_chars (length s) s)))"

text \<open>\<open>str::split_whitespace\<close>: \<open>cur\<close> is the word being read, the first argument bounds what is left.\<close>

fun split_white_n :: "nat \<Rightarrow> string \<Rightarrow> string \<Rightarrow> string list" where
  "split_white_n 0 cur s = (if cur = [] then [] else [cur])"
| "split_white_n (Suc n) cur [] = (if cur = [] then [] else [cur])"
| "split_white_n (Suc n) cur (c # cs) =
     (case find (starts_with (c # cs)) white_chars of
        Some w \<Rightarrow> (if cur = [] then [] else [cur]) @ split_white_n n [] (drop (length w) (c # cs))
      | None \<Rightarrow> split_white_n n (cur @ [c]) cs)"

definition split_white :: "string \<Rightarrow> string list" where
  "split_white s = split_white_n (length s) [] s"

end
