(* ===== verification/Json.thy ===== *)
theory Json
  imports Text
begin

text \<open>
  JSON values as \<open>serde_json::Value\<close> has them. Numbers are of type \<open>'n\<close>, which no component
  looks into. The keys of an object are distinct; their order is the order of iteration.
\<close>

datatype 'n json =
  JNull | JBool bool | JNumber 'n | JString string
| JArray "'n json list" | JObject "(string \<times> 'n json) list"

text \<open>The same value up to the order of object keys.\<close>

inductive same_json :: "'n json \<Rightarrow> 'n json \<Rightarrow> bool" where
  scalar: "(\<And>vs. v \<noteq> JArray vs) \<Longrightarrow> (\<And>ps. v \<noteq> JObject ps) \<Longrightarrow> same_json v v"
| array: "list_all2 same_json vs ws \<Longrightarrow> same_json (JArray vs) (JArray ws)"
| object: "distinct (map fst ps) \<Longrightarrow> mset rs = mset qs \<Longrightarrow>
    list_all2 (\<lambda>p r. fst p = fst r \<and> same_json (snd p) (snd r)) ps rs \<Longrightarrow>
    same_json (JObject ps) (JObject qs)"

end
