(* ===== verification/Dedup.thy ===== *)
theory Dedup
  imports Store Lru Fnv Json
begin

text \<open>
  Request deduplication (\<open>src/src/dedup.rs\<close>): a key made of the model's name, a hash of the
  canonical JSON of the inputs and a ten second window, and sixteen LRU shards of results that
  expire. What \<open>serde_json\<close> prints for a scalar and for an object key are the arguments
  \<open>scalar\<close> and \<open>quote\<close>; the LRU cache is the argument \<open>L\<close>.
\<close>

section \<open>Keys\<close>

text \<open>Elements separated by commas, as the two loops write them.\<close>

fun commas :: "string list \<Rightarrow> string" where
  "commas [] = []"
| "commas [s] = s"
| "commas (s # t # ts) = s @ '','' @ commas (t # ts)"

fun canonical_json :: "('n json \<Rightarrow> string) \<Rightarrow> (string \<Rightarrow> string) \<Rightarrow> 'n json \<Rightarrow> string" where
  "canonical_json scalar quote (JObject ps) =
     (let pairs = sort_key fst (map (\<lambda>p. (fst p, canonical_json scalar quote (snd p))) ps)
      in ''{'' @ commas (map (\<lambda>(k, v). quote k @ '':'' @ v) pairs) @ ''}'')"
| "canonical_json scalar quote (JArray vs) =
     ''['' @ commas (map (canonical_json scalar quote) vs) @ '']''"
| "canonical_json scalar quote v = scalar v"

definition dd_generate_key ::
  "('n json \<Rightarrow> string) \<Rightarrow> (string \<Rightarrow> string) \<Rightarrow> u64 \<Rightarrow> string \<Rightarrow> 'n json \<Rightarrow> string" where
  "dd_generate_key scalar quote now model inputs =
     (let hash = fnv1a (as_bytes (canonical_json scalar quote inputs));
          epoch_window = now div 10
      in model @ '':'' @ hex16 hash @ '':'' @ show_nat (unat epoch_window))"

section \<open>The shards\<close>

definition NUM_SHARDS :: nat where
  "NUM_SHARDS = 16"

record 'v dedup_entry =
  de_result :: 'v
  de_timestamp :: u64
  de_ttl :: u64

record 'c deduplicator =
  dd_shards :: "'c list"

type_synonym ('v, 'c) dedup_lru = "(string, 'v dedup_entry, 'c) lru_ops"

definition dd_per_shard :: "nat \<Rightarrow> nat" where
  "dd_per_shard max_entries = max ((max_entries + (NUM_SHARDS - 1)) div NUM_SHARDS) 1"

definition dd_new :: "('v, 'c) dedup_lru \<Rightarrow> nat \<Rightarrow> 'c deduplicator" where
  "dd_new L max_entries =
     \<lparr>dd_shards = map (\<lambda>_. lru_new L (dd_per_shard max_entries)) [0..<NUM_SHARDS]\<rparr>"

definition dd_default :: "('v, 'c) dedup_lru \<Rightarrow> 'c deduplicator" where
  "dd_default L = dd_new L 5000"

definition dd_shard_index :: "string \<Rightarrow> nat" where
  "dd_shard_index key = unat (fnv1a (as_bytes key) AND (word_of_nat NUM_SHARDS - 1))"

definition on_shard :: "nat \<Rightarrow> ('c \<Rightarrow> 'c) \<Rightarrow> 'c deduplicator \<Rightarrow> 'c deduplicator" where
  "on_shard i f d = d\<lparr>dd_shards := (dd_shards d)[i := f (dd_shards d ! i)]\<rparr>"

text \<open>\<open>now.saturating_sub(timestamp) < ttl\<close>.\<close>

definition dd_valid :: "u64 \<Rightarrow> u64 \<Rightarrow> u64 \<Rightarrow> bool" where
  "dd_valid now timestamp ttl \<longleftrightarrow> unat now - unat timestamp < unat ttl"

definition dd_get ::
  "('v, 'c) dedup_lru \<Rightarrow> u64 \<Rightarrow> string \<Rightarrow> 'c deduplicator \<Rightarrow> 'v option \<times> 'c deduplicator" where
  "dd_get L now key d =
     (let i = dd_shard_index key;
          cache = dd_shards d ! i;
          is_valid = (case lru_peek L key cache of
                        None \<Rightarrow> False | Some e \<Rightarrow> dd_valid now (de_timestamp e) (de_ttl e))
      in if is_valid
         then let (r, cache') = lru_get L key cache
              in (map_option de_result r, on_shard i (\<lambda>_. cache') d)
         else (None, on_shard i (lru_pop L key) d))"

definition dd_set ::
  "('v, 'c) dedup_lru \<Rightarrow> u64 \<Rightarrow> string \<Rightarrow> 'v \<Rightarrow> u64 \<Rightarrow> 'c deduplicator \<Rightarrow> 'c deduplicator" where
  "dd_set L now key result ttl d =
     on_shard (dd_shard_index key)
       (lru_put L key \<lparr>de_result = result, de_timestamp = now, de_ttl = ttl\<rparr>) d"

definition dd_invalidate ::
  "('v, 'c) dedup_lru \<Rightarrow> string \<Rightarrow> 'c deduplicator \<Rightarrow> 'c deduplicator" where
  "dd_invalidate L key d = on_shard (dd_shard_index key) (lru_pop L key) d"

definition dd_clear :: "('v, 'c) dedup_lru \<Rightarrow> 'c deduplicator \<Rightarrow> 'c deduplicator" where
  "dd_clear L d = d\<lparr>dd_shards := map (lru_clear L) (dd_shards d)\<rparr>"

definition dd_cleanup_shard :: "('v, 'c) dedup_lru \<Rightarrow> u64 \<Rightarrow> 'c \<Rightarrow> 'c" where
  "dd_cleanup_shard L now cache =
     (let expired = map fst (filter (\<lambda>(_, e). \<not> dd_valid now (de_timestamp e) (de_ttl e))
                       (lru_iter L cache))
      in fold (lru_pop L) expired cache)"

definition dd_cleanup_expired ::
  "('v, 'c) dedup_lru \<Rightarrow> u64 \<Rightarrow> 'c deduplicator \<Rightarrow> 'c deduplicator" where
  "dd_cleanup_expired L now d = d\<lparr>dd_shards := map (dd_cleanup_shard L now) (dd_shards d)\<rparr>"

definition dd_size :: "('v, 'c) dedup_lru \<Rightarrow> 'c deduplicator \<Rightarrow> nat" where
  "dd_size L d = sum_list (map (lru_len L) (dd_shards d))"

section \<open>The shards are an expiring store\<close>

lemma dd_shard_index_less: "dd_shard_index key < 16"
proof -
  have "fnv1a (as_bytes key) AND (word_of_nat NUM_SHARDS - 1) \<le> 15"
    by (simp add: NUM_SHARDS_def word_and_le1)
  then have "dd_shard_index key \<le> unat (15 :: u64)"
    unfolding dd_shard_index_def by (simp only: word_le_nat_alt)
  then show ?thesis by simp
qed

definition dd_binding ::
  "('v, 'c) dedup_lru \<Rightarrow> 'c deduplicator \<Rightarrow> (string, 'v) bindings" where
  "dd_binding L d k =
     map_option (\<lambda>e. (de_result e, de_timestamp e, de_ttl e))
       (map_of (lru_iter L (dd_shards d ! dd_shard_index k)) k)"

definition dd_wf :: "(nat \<Rightarrow> 'c \<Rightarrow> bool) \<Rightarrow> nat \<Rightarrow> 'c deduplicator \<Rightarrow> bool" where
  "dd_wf lru_wf n d \<longleftrightarrow>
     length (dd_shards d) = 16 \<and> (\<forall>c \<in> set (dd_shards d). lru_wf (dd_per_shard n) c)"

datatype dedup_other = CleanupAll u64 | ClearAll

fun dd_other :: "('v, 'c) dedup_lru \<Rightarrow> dedup_other \<Rightarrow> 'c deduplicator \<Rightarrow> 'c deduplicator" where
  "dd_other L (CleanupAll now) d = dd_cleanup_expired L now d"
| "dd_other L ClearAll d = dd_clear L d"

locale dedup_lru = lru L lru_wf for L :: "('v, 'c) dedup_lru" and lru_wf
begin

lemma per_shard_pos: "0 < dd_per_shard n"
  by (simp add: dd_per_shard_def)

lemma dd_wf_shard: "dd_wf lru_wf n d \<Longrightarrow> lru_wf (dd_per_shard n) (dd_shards d ! dd_shard_index k)"
  using dd_shard_index_less [of k] by (simp add: dd_wf_def)

lemma dd_wf_on_shard:
  "dd_wf lru_wf n d \<Longrightarrow> lru_wf (dd_per_shard n) (f (dd_shards d ! dd_shard_index k)) \<Longrightarrow>
     dd_wf lru_wf n (on_shard (dd_shard_index k) f d)"
  by (auto simp: dd_wf_def on_shard_def dest!: set_update_subset_insert [THEN subsetD])

lemma shard_after:
  "dd_wf lru_wf n d \<Longrightarrow> dd_shards (on_shard (dd_shard_index k) f d) ! dd_shard_index k' =
     (if dd_shard_index k' = dd_shard_index k then f (dd_shards d ! dd_shard_index k)
      else dd_shards d ! dd_shard_index k')"
  using dd_shard_index_less [of k'] by (simp add: dd_wf_def on_shard_def nth_list_update)

lemma dd_binding_on_shard:
  "dd_wf lru_wf n d \<Longrightarrow> dd_binding L (on_shard (dd_shard_index k) f d) k' =
     (if dd_shard_index k' = dd_shard_index k
      then map_option (\<lambda>e. (de_result e, de_timestamp e, de_ttl e))
             (map_of (lru_iter L (f (dd_shards d ! dd_shard_index k'))) k')
      else dd_binding L d k')"
  by (auto simp: dd_binding_def shard_after)

lemma dd_get_facts:
  assumes "dd_wf lru_wf n d" "dd_get L now k d = (r, d')"
  shows "dd_wf lru_wf n d' \<and> dd_binding L d' \<subseteq>\<^sub>m dd_binding L d \<and>
    (\<forall>v. r = Some v \<longrightarrow> (\<exists>t l. dd_binding L d k = Some (v, t, l) \<and> dd_valid now t l))"
proof -
  let ?c = "dd_shards d ! dd_shard_index k"
  have c: "lru_wf (dd_per_shard n) ?c" using assms(1) by (rule dd_wf_shard)
  note peek = peek_iter [OF c] and pop = pop_iter [OF c] and same = get_same [OF c]
  obtain r1 c1 where g: "lru_get L k ?c = (r1, c1)" by fastforce
  note get = get_iter [OF c g]
  have le: "dd_binding L (on_shard (dd_shard_index k) f d) \<subseteq>\<^sub>m dd_binding L d"
    if "\<And>k'. map_of (lru_iter L (f ?c)) k' = None \<or>
      map_of (lru_iter L (f ?c)) k' = map_of (lru_iter L ?c) k'" for f
  proof (rule map_leI)
    fix k'
    show "dd_binding L (on_shard (dd_shard_index k) f d) k' = None \<or>
      dd_binding L (on_shard (dd_shard_index k) f d) k' = dd_binding L d k'"
      using that [of k'] by (auto simp: dd_binding_on_shard [OF assms(1)]) (auto simp: dd_binding_def)
  qed
  show ?thesis
  proof (cases "case map_of (lru_iter L ?c) k of None \<Rightarrow> False
      | Some e \<Rightarrow> dd_valid now (de_timestamp e) (de_ttl e)")
    case True
    then have d': "r = map_option de_result r1" "d' = on_shard (dd_shard_index k) (\<lambda>_. c1) d"
      using assms(2) g by (auto simp: dd_get_def Let_def peek)
    have "dd_wf lru_wf n d'" unfolding d' using assms(1) get by (intro dd_wf_on_shard) simp_all
    moreover have "dd_binding L d' \<subseteq>\<^sub>m dd_binding L d"
      unfolding d' using same [of k] g by (intro le) simp
    ultimately show ?thesis using True get by (auto simp: d' dd_binding_def split: option.splits)
  next
    case False
    then have d': "r = None" "d' = on_shard (dd_shard_index k) (lru_pop L k) d"
      using assms(2) by (auto simp: dd_get_def Let_def peek split: if_splits)
    have "dd_wf lru_wf n d'" unfolding d' using assms(1) pop by (intro dd_wf_on_shard) simp_all
    moreover have "dd_binding L d' \<subseteq>\<^sub>m dd_binding L d"
      unfolding d' using pop [of k] by (intro le) (simp add: AList.delete_conv')
    ultimately show ?thesis using d' by simp
  qed
qed

lemma dd_set_facts:
  assumes "dd_wf lru_wf n d"
  shows "dd_wf lru_wf n (dd_set L now k v l d) \<and>
    dd_binding L (dd_set L now k v l d) \<subseteq>\<^sub>m (dd_binding L d)(k \<mapsto> (v, now, l))"
proof
  let ?c = "dd_shards d ! dd_shard_index k"
  let ?e = "\<lparr>de_result = v, de_timestamp = now, de_ttl = l\<rparr>"
  have c: "lru_wf (dd_per_shard n) ?c" using assms by (rule dd_wf_shard)
  note put = put_iter [OF c per_shard_pos, of k ?e] and same = put_same [OF c per_shard_pos, of k ?e]
  show "dd_wf lru_wf n (dd_set L now k v l d)"
    unfolding dd_set_def using assms put by (intro dd_wf_on_shard) simp_all
  show "dd_binding L (dd_set L now k v l d) \<subseteq>\<^sub>m (dd_binding L d)(k \<mapsto> (v, now, l))"
  proof (rule map_leI)
    fix k'
    have "map_of (lru_iter L (lru_put L k ?e ?c)) k' = None \<or>
      map_of (lru_iter L (lru_put L k ?e ?c)) k' = ((map_of (lru_iter L ?c))(k \<mapsto> ?e)) k'"
      using same by (auto simp: map_le_def dom_def)
    then show "dd_binding L (dd_set L now k v l d) k' = None \<or>
      dd_binding L (dd_set L now k v l d) k' = ((dd_binding L d)(k \<mapsto> (v, now, l))) k'"
      by (auto simp: dd_set_def dd_binding_on_shard [OF assms]) (auto simp: dd_binding_def)
  qed
qed

lemma dd_map_shards:
  assumes "dd_wf lru_wf n d"
    and "\<And>c. lru_wf (dd_per_shard n) c \<Longrightarrow> lru_wf (dd_per_shard n) (f c) \<and>
      map_of (lru_iter L (f c)) \<subseteq>\<^sub>m map_of (lru_iter L c)"
  shows "dd_wf lru_wf n (d\<lparr>dd_shards := map f (dd_shards d)\<rparr>) \<and>
    dd_binding L (d\<lparr>dd_shards := map f (dd_shards d)\<rparr>) \<subseteq>\<^sub>m dd_binding L d"
proof
  show "dd_wf lru_wf n (d\<lparr>dd_shards := map f (dd_shards d)\<rparr>)"
    using assms by (auto simp: dd_wf_def)
  show "dd_binding L (d\<lparr>dd_shards := map f (dd_shards d)\<rparr>) \<subseteq>\<^sub>m dd_binding L d"
  proof (rule map_leI)
    fix k
    have "map_of (lru_iter L (f (dd_shards d ! dd_shard_index k))) \<subseteq>\<^sub>m
        map_of (lru_iter L (dd_shards d ! dd_shard_index k))"
      using assms(2) [OF dd_wf_shard [OF assms(1)]] by blast
    moreover have "dd_shard_index k < length (dd_shards d)"
      using assms(1) dd_shard_index_less [of k] by (simp add: dd_wf_def)
    ultimately show "dd_binding L (d\<lparr>dd_shards := map f (dd_shards d)\<rparr>) k = None \<or>
        dd_binding L (d\<lparr>dd_shards := map f (dd_shards d)\<rparr>) k = dd_binding L d k"
      by (auto simp: dd_binding_def map_le_def dom_def)
  qed
qed

lemma map_of_fold_delete: "map_of (fold AList.delete ks xs) \<subseteq>\<^sub>m map_of xs"
proof (induction ks arbitrary: xs)
  case Nil
  then show ?case by simp
next
  case (Cons k ks)
  have "map_of (AList.delete k xs) \<subseteq>\<^sub>m map_of xs" by (rule map_leI) (simp add: AList.delete_conv')
  with Cons show ?case by (auto intro: map_le_trans)
qed

lemma dd_other_facts:
  assumes "dd_wf lru_wf n d"
  shows "dd_wf lru_wf n (dd_other L x d) \<and> dd_binding L (dd_other L x d) \<subseteq>\<^sub>m dd_binding L d"
proof (cases x)
  case (CleanupAll now)
  have "lru_wf (dd_per_shard n) (dd_cleanup_shard L now c) \<and>
      map_of (lru_iter L (dd_cleanup_shard L now c)) \<subseteq>\<^sub>m map_of (lru_iter L c)"
    if "lru_wf (dd_per_shard n) c" for c
    using that by (simp add: dd_cleanup_shard_def Let_def pop_fold map_of_fold_delete)
  from dd_map_shards [OF assms this] CleanupAll show ?thesis
    by (simp add: dd_cleanup_expired_def)
next
  case ClearAll
  then show ?thesis
    using dd_map_shards [OF assms, of "lru_clear L"] by (simp add: dd_clear_def clear_iter)
qed

lemma dd_size_le:
  assumes "dd_wf lru_wf n d"
  shows "dd_size L d \<le> 16 * dd_per_shard n"
proof -
  have "\<forall>c \<in> set cs. lru_wf (dd_per_shard n) c \<Longrightarrow>
      sum_list (map (lru_len L) cs) \<le> length cs * dd_per_shard n" for cs
  proof (induction cs)
    case Nil
    then show ?case by simp
  next
    case (Cons c cs)
    then show ?case using len_iter [of _ c] iter_wf [of _ c] by (force simp: add_mono)
  qed
  from this [of "dd_shards d"] assms show ?thesis by (simp add: dd_wf_def dd_size_def)
qed

end

sublocale dedup_lru \<subseteq> dedup: expiring_store "dd_binding L" dd_valid "dd_get L"
  "\<lambda>(_ :: unit) now k v l d. dd_set L now k v l d" "dd_invalidate L" "dd_other L"
  "\<lambda>x. x = ClearAll" "dd_new L n" "dd_wf lru_wf n" "dd_size L" "16 * dd_per_shard n"
  for n
proof (unfold_locales, goal_cases)
  case 1
  have "dd_shards (dd_new L n) ! dd_shard_index k = lru_new L (dd_per_shard n)" for k
    using dd_shard_index_less [of k] by (simp add: dd_new_def NUM_SHARDS_def)
  moreover have wf: "dd_wf lru_wf n (dd_new L n)"
    using new_iter [OF per_shard_pos, of n] by (simp add: dd_wf_def dd_new_def NUM_SHARDS_def)
  ultimately show ?case
    using dd_size_le [OF wf] new_iter [OF per_shard_pos, of n] by (simp add: dd_binding_def [abs_def])
next
  case (2 s now k r s')
  then show ?case using dd_get_facts dd_size_le by blast
next
  case (3 s now k v s')
  then show ?case using dd_get_facts by blast
next
  case (4 s c now k v l)
  then show ?case by (rule dd_set_facts)
next
  case (5 s c now k v l)
  then show ?case using dd_set_facts dd_size_le by blast
next
  case (6 s k)
  then have c: "lru_wf (dd_per_shard n) (dd_shards s ! dd_shard_index k)" by (rule dd_wf_shard)
  have "dd_wf lru_wf n (dd_invalidate L k s)"
    unfolding dd_invalidate_def using 6 pop_iter [OF c] by (intro dd_wf_on_shard) simp_all
  moreover have "dd_binding L (dd_invalidate L k s) \<subseteq>\<^sub>m (dd_binding L s)(k := None)"
  proof (rule map_leI)
    fix k'
    show "dd_binding L (dd_invalidate L k s) k' = None \<or>
      dd_binding L (dd_invalidate L k s) k' = ((dd_binding L s)(k := None)) k'"
      using pop_iter [OF c, of k] by (auto simp: dd_invalidate_def dd_binding_on_shard [OF 6]
          AList.delete_conv') (auto simp: dd_binding_def)
  qed
  ultimately show ?case using dd_size_le by blast
next
  case (7 s x)
  then show ?case using dd_other_facts dd_size_le by blast
next
  case (8 s x)
  have "lru_iter L (lru_clear L (dd_shards s ! dd_shard_index k)) = []" for k
    using clear_iter [OF dd_wf_shard [OF 8(1)]] by blast
  moreover have "dd_shard_index k < length (dd_shards s)" for k
    using 8(1) dd_shard_index_less [of k] by (simp add: dd_wf_def)
  ultimately show ?case
    using 8(2) by (simp add: dd_clear_def dd_binding_def [abs_def])
qed

interpretation list_dedup: dedup_lru list_lru list_lru_wf
  by unfold_locales

section \<open>Properties\<close>

fun dd_step ::
  "('v, 'c) dedup_lru \<Rightarrow> (unit, string, 'v, dedup_other) store_op \<Rightarrow> 'c deduplicator \<Rightarrow> 'c deduplicator"
where
  "dd_step L (Lookup now k) d = snd (dd_get L now k d)"
| "dd_step L (Insert _ now k v l) d = dd_set L now k v l d"
| "dd_step L (Forget k) d = dd_invalidate L k d"
| "dd_step L (Other x) d = dd_other L x d"

context dedup_lru
begin

lemma dd_step_store: "dd_step L e d = dedup.store_step e d"
  by (cases e) simp_all

lemma dedup_run:
  "(fst (dd_get L now k (fold (dd_step L) es (dd_new L n))) = Some v \<longrightarrow>
      (\<exists>t l. fold (last_stored (\<lambda>x. x = ClearAll)) es Map.empty k = Some (v, t, l) \<and> dd_valid now t l)) \<and>
   dd_size L (fold (dd_step L) es (dd_new L n)) \<le> 16 * dd_per_shard n"
  using dedup.store_hit [of now k es n v] dedup.store_within [where n = n and es = es]
  by (auto simp: dd_step_store [abs_def] prod_eq_iff)

end

text \<open>
  With any LRU cache that behaves as documented, after every run a deduplication hit is the
  result last set for its key, not invalidated or cleared since and stored less than its time to
  live ago; and the sixteen shards hold at most 16 times a sixteenth of the capacity, rounded
  up to at least one entry each.
\<close>

theorem dedup_never_stale:
  assumes "dedup_lru L lru_wf" "fold (dd_step L) es (dd_new L n) = d"
  shows "(fst (dd_get L now k d) = Some v \<longrightarrow>
      (\<exists>t l. fold (last_stored (\<lambda>x. x = ClearAll)) es Map.empty k = Some (v, t, l) \<and>
        unat now - unat t < unat l)) \<and>
    dd_size L d \<le> 16 * max ((n + 15) div 16) 1"
  using dedup_lru.dedup_run [OF assms(1), of now k es n v] assms(2)
  by (simp add: dd_valid_def dd_per_shard_def NUM_SHARDS_def)

theorem dedup_never_stale_witness:
  "\<exists>d. fold (dd_step list_lru) [Insert () 3 ''k'' (7 :: nat) 10, Insert () 4 ''k'' 8 10] (dd_new list_lru 20) = d
     \<and> dd_size list_lru d \<le> 32 \<and> fst (dd_get list_lru 14 ''k'' d) = None"
proof -
  let ?d = "fold (dd_step list_lru) [Insert () 3 ''k'' (7 :: nat) 10, Insert () 4 ''k'' 8 10] (dd_new list_lru 20)"
  note run = dedup_never_stale [OF list_dedup.dedup_lru_axioms refl,
      of 14 "''k''" "[Insert () 3 ''k'' (7 :: nat) 10, Insert () 4 ''k'' 8 10]" 20]
  have "fst (dd_get list_lru 14 ''k'' ?d) = None"
    by (rule ccontr) (use run in auto)
  moreover have "dd_size list_lru ?d \<le> 32" using run by simp
  ultimately show ?thesis by blast
qed

text \<open>The keys of an object are distinct, so sorting by key gives one result.\<close>

lemma sort_fst_unique:
  "distinct (map fst xs) \<Longrightarrow> mset xs = mset ys \<Longrightarrow> sort_key fst xs = sort_key fst ys"
  by (rule sort_key_inj_key_eq) (auto simp: distinct_map)

lemma canonical_same_json: "same_json v w \<Longrightarrow> canonical_json scalar quote v = canonical_json scalar quote w"
proof (induction rule: same_json.induct)
  case (scalar v)
  then show ?case by simp
next
  case (array vs ws)
  then have "map (canonical_json scalar quote) vs = map (canonical_json scalar quote) ws"
    by (simp add: list_all2_conv_all_nth list_eq_iff_nth_eq)
  then show ?case by simp
next
  case (object ps rs qs)
  let ?f = "\<lambda>p. (fst p, canonical_json scalar quote (snd p))"
  have "map ?f ps = map ?f rs"
    using object.IH by (simp add: list_all2_conv_all_nth list_eq_iff_nth_eq)
  moreover have "sort_key fst (map ?f rs) = sort_key fst (map ?f qs)"
  proof (rule sort_fst_unique)
    have "map fst ps = map fst rs"
      using object.IH by (simp add: list_all2_conv_all_nth list_eq_iff_nth_eq)
    then show "distinct (map fst (map ?f rs))" using object.hyps(1) by (simp add: o_def)
    show "mset (map ?f rs) = mset (map ?f qs)" using object.hyps(2) by simp
  qed
  ultimately show ?case by simp
qed

text \<open>
  Requests that differ only in the order of object keys, at any depth, get the same key in
  the same ten second window; and two requests get the same key only for the same model, the
  same window and canonical inputs with the same hash.
\<close>

theorem dedup_key_identity:
  "(same_json v w \<and> now div 10 = now' div 10 \<longrightarrow>
      dd_generate_key scalar quote now model v = dd_generate_key scalar quote now' model w) \<and>
    (dd_generate_key scalar quote now model v = dd_generate_key scalar quote now' model' w \<longleftrightarrow>
      model = model' \<and> now div 10 = now' div 10 \<and>
      fnv1a (as_bytes (canonical_json scalar quote v)) = fnv1a (as_bytes (canonical_json scalar quote w)))"
proof -
  have "model @ '':'' @ hex16 h @ '':'' @ show_nat n = model' @ '':'' @ hex16 h' @ '':'' @ show_nat n'
      \<longleftrightarrow> model = model' \<and> h = h' \<and> n = n'" for h h' n n'
    using append_sep_inject [OF colon_not_in_show_nat colon_not_in_show_nat,
        of "model @ '':'' @ hex16 h" n "model' @ '':'' @ hex16 h'" n']
      append_sep_inject [OF colon_not_in_hex16 colon_not_in_hex16, of model h model' h']
    by (simp add: show_nat_inject hex16_inject)
  then show ?thesis
    using canonical_same_json [of v w scalar quote]
    by (auto simp: dd_generate_key_def Let_def word_unat_eq_iff [symmetric])
qed

theorem dedup_key_identity_witness:
  "dd_generate_key (\<lambda>_. ''1'') (\<lambda>k. k) 21 ''m'' (JObject [(''b'', JNull :: nat json), (''a'', JArray [JNull])]) =
   dd_generate_key (\<lambda>_. ''1'') (\<lambda>k. k) 29 ''m'' (JObject [(''a'', JArray [JNull]), (''b'', JNull :: nat json)])"
proof (rule dedup_key_identity [THEN conjunct1, THEN mp], intro conjI)
  let ?a = "(''a'', JArray [JNull]) :: string \<times> nat json"
  let ?b = "(''b'', JNull) :: string \<times> nat json"
  have n: "same_json (JNull :: nat json) JNull" by (rule same_json.scalar) simp_all
  then have "same_json (JArray [JNull :: nat json]) (JArray [JNull])"
    by (intro same_json.array) simp
  with n show "same_json (JObject [?b, ?a]) (JObject [?a, ?b])"
    by (intro same_json.object [of _ "[?b, ?a]"]) simp_all
qed simp

end
