(* ===== verification/ModelCache.thy ===== *)
theory ModelCache
  imports Lru Fnv Floats
begin

text \<open>
  The result cache of the models (\<open>src/src/core/model_cache.rs\<close>): a key hashed from the model,
  its input and its parameters, and \<open>get_or_run\<close>, which returns a cached result or computes and
  stores one. A stored \<open>Arc<dyn Any>\<close> is of type \<open>'any\<close>, with the cast into it and the
  downcast from it as arguments; the computation is a function of the world \<open>'w\<close> it runs in, so
  that not running it is visible. The cache itself is the argument \<open>L\<close>.
\<close>

section \<open>Keys\<close>

definition cache_key :: "string \<Rightarrow> u8 list \<Rightarrow> u8 list \<Rightarrow> u64" where
  "cache_key model_id input params =
     (let h = fnv1a (as_bytes model_id);
          h = (h XOR 0) * FNV_PRIME;
          h = foldl (\<lambda>h b. (h XOR ucast b) * FNV_PRIME) h input;
          h = (h XOR 0) * FNV_PRIME
      in foldl (\<lambda>h b. (h XOR ucast b) * FNV_PRIME) h params)"

lemma cache_key_fnv1a:
  "cache_key model_id input params = fnv1a (as_bytes model_id @ 0 # input @ 0 # params)"
  by (simp add: cache_key_def fnv1a_def Let_def fnv_step_def [abs_def])

section \<open>The cache\<close>

record 'c model_cache =
  mc_cache :: 'c
  mc_capacity :: nat
  mc_hits :: u64
  mc_misses :: u64

definition mc_new :: "(u64, 'any, 'c) lru_ops \<Rightarrow> nat \<Rightarrow> 'c model_cache" where
  "mc_new L n = (let cap = max n 1 in
     \<lparr>mc_cache = lru_new L cap, mc_capacity = cap, mc_hits = 0, mc_misses = 0\<rparr>)"

definition mc_get_or_run ::
  "(u64, 'any, 'c) lru_ops \<Rightarrow> ('t \<Rightarrow> 'any) \<Rightarrow> ('any \<Rightarrow> 't option) \<Rightarrow> u64 \<Rightarrow>
   ('w \<Rightarrow> ('e + 't) \<times> 'w) \<Rightarrow> 'c model_cache \<times> 'w \<Rightarrow> ('e + 't) \<times> 'c model_cache \<times> 'w"
where
  "mc_get_or_run L wrap downcast key f cw =
     (let (mc, w) = cw;
          (cached, c1) = lru_get L key (mc_cache mc);
          mc1 = mc\<lparr>mc_cache := c1\<rparr>
      in case Option.bind cached downcast of
           Some val \<Rightarrow> (Inr val, mc1\<lparr>mc_hits := mc_hits mc1 + 1\<rparr>, w)
         | None \<Rightarrow>
             let mc2 = mc1\<lparr>mc_misses := mc_misses mc1 + 1\<rparr>;
                 (result, w') = f w
             in case result of
                  Inl e \<Rightarrow> (Inl e, mc2, w')
                | Inr x \<Rightarrow> (Inr x, mc2\<lparr>mc_cache := lru_put L key (wrap x) (mc_cache mc2)\<rparr>, w'))"

record mc_cache_stats =
  ms_hits :: u64
  ms_misses :: u64
  ms_hit_rate :: real

definition mc_stats :: "rnd \<Rightarrow> 'c model_cache \<Rightarrow> mc_cache_stats" where
  "mc_stats fl mc =
     (let total = mc_hits mc + mc_misses mc
      in \<lparr>ms_hits = mc_hits mc, ms_misses = mc_misses mc,
          ms_hit_rate =
            (if total = 0 then 0
             else fl (fl (real (unat (mc_hits mc))) / fl (real (unat total))))\<rparr>)"

definition mc_clear :: "(u64, 'any, 'c) lru_ops \<Rightarrow> 'c model_cache \<Rightarrow> 'c model_cache" where
  "mc_clear L mc = mc\<lparr>mc_cache := lru_clear L (mc_cache mc), mc_hits := 0, mc_misses := 0\<rparr>"

section \<open>Transparency\<close>

text \<open>
  A computation that always gives the same result for its key. The cache holds nothing else
  under a key, so a call gives what the computation would.
\<close>

definition computes :: "(u64 \<Rightarrow> 'e + 't) \<Rightarrow> u64 \<Rightarrow> ('w \<Rightarrow> ('e + 't) \<times> 'w) \<Rightarrow> bool" where
  "computes r key f \<longleftrightarrow> (\<forall>w. fst (f w) = r key)"

definition mc_inv ::
  "(u64, 'any, 'c) lru_ops \<Rightarrow> (nat \<Rightarrow> 'c \<Rightarrow> bool) \<Rightarrow> ('t \<Rightarrow> 'any) \<Rightarrow> (u64 \<Rightarrow> 'e + 't) \<Rightarrow> 'c model_cache \<Rightarrow> bool"
where
  "mc_inv L lru_wf wrap r mc \<longleftrightarrow>
     lru_wf (mc_capacity mc) (mc_cache mc) \<and> 0 < mc_capacity mc \<and>
     (\<forall>k a. map_of (lru_iter L (mc_cache mc)) k = Some a \<longrightarrow> (\<exists>x. a = wrap x \<and> r k = Inr x))"

text \<open>One call, or a clear.\<close>

datatype ('w, 'r) mc_op = Run u64 "'w \<Rightarrow> 'r \<times> 'w" | ClearCache

fun mc_step ::
  "(u64, 'any, 'c) lru_ops \<Rightarrow> ('t \<Rightarrow> 'any) \<Rightarrow> ('any \<Rightarrow> 't option) \<Rightarrow> ('w, 'e + 't) mc_op \<Rightarrow>
   'c model_cache \<times> 'w \<Rightarrow> ('e + 't) option \<times> 'c model_cache \<times> 'w"
where
  "mc_step L wrap downcast (Run k f) cw = map_prod Some id (mc_get_or_run L wrap downcast k f cw)"
| "mc_step L wrap downcast ClearCache (mc, w) = (None, mc_clear L mc, w)"

fun mc_run ::
  "(u64, 'any, 'c) lru_ops \<Rightarrow> ('t \<Rightarrow> 'any) \<Rightarrow> ('any \<Rightarrow> 't option) \<Rightarrow> ('w, 'e + 't) mc_op list \<Rightarrow>
   'c model_cache \<times> 'w \<Rightarrow> ('e + 't) option list \<times> 'c model_cache \<times> 'w"
where
  "mc_run L wrap downcast [] cw = ([], cw)"
| "mc_run L wrap downcast (e # es) cw =
     (let (a, cw') = mc_step L wrap downcast e cw; (as, cw'') = mc_run L wrap downcast es cw'
      in (a # as, cw''))"

fun op_result :: "(u64 \<Rightarrow> 'r) \<Rightarrow> ('w, 'r) mc_op \<Rightarrow> 'r option" where
  "op_result r (Run k f) = Some (r k)"
| "op_result r ClearCache = None"

locale model_lru = lru L lru_wf for L :: "(u64, 'any, 'c) lru_ops" and lru_wf
begin

lemma mc_step_result:
  assumes "mc_inv L lru_wf wrap r mc" "\<And>x. downcast (wrap x) = Some x"
    and "case e of Run k f \<Rightarrow> computes r k f | ClearCache \<Rightarrow> True"
    and "mc_step L wrap downcast e (mc, w) = (a, mc', w')"
  shows "a = op_result r e \<and> mc_inv L lru_wf wrap r mc' \<and> mc_capacity mc' = mc_capacity mc"
proof (cases e)
  case ClearCache
  then show ?thesis using assms clear_iter by (auto simp: mc_clear_def mc_inv_def)
next
  case (Run k f)
  have wf: "lru_wf (mc_capacity mc) (mc_cache mc)" "0 < mc_capacity mc"
    using assms(1) by (simp_all add: mc_inv_def)
  obtain cached c1 where g: "lru_get L k (mc_cache mc) = (cached, c1)" by fastforce
  have c1: "lru_wf (mc_capacity mc) c1" "map_of (lru_iter L c1) = map_of (lru_iter L (mc_cache mc))"
    and cached: "cached = map_of (lru_iter L (mc_cache mc)) k"
    using get_iter [OF wf(1) g] get_same [OF wf(1), of k] g by simp_all
  show ?thesis
  proof (cases cached)
    case (Some x)
    then obtain y where y: "x = wrap y" "r k = Inr y" using assms(1) cached by (auto simp: mc_inv_def)
    then show ?thesis
      using assms Run g Some c1 by (auto simp: mc_get_or_run_def mc_inv_def Let_def)
  next
    case None
    obtain res w1 where f: "f w = (res, w1)" by fastforce
    then have res: "res = r k" using assms(3) Run by (auto simp: computes_def dest: spec [of _ w])
    note put = put_same [OF c1(1) wf(2), of k] and put_wf = put_iter [OF c1(1) wf(2), of k]
    show ?thesis
    proof (cases res)
      case (Inl err)
      then show ?thesis
        using assms Run g None c1 f res by (auto simp: mc_get_or_run_def mc_inv_def Let_def)
    next
      case (Inr x)
      have "\<exists>y. a' = wrap y \<and> r k' = Inr y"
        if "map_of (lru_iter L (lru_put L k (wrap x) c1)) k' = Some a'" for k' a'
      proof -
        have "((map_of (lru_iter L c1))(k \<mapsto> wrap x)) k' = Some a'"
          using put [of "wrap x"] that by (fastforce simp: map_le_def dom_def)
        then show ?thesis using assms(1) c1(2) Inr res by (auto simp: mc_inv_def split: if_splits)
      qed
      moreover have rk: "r k = Inr x" and fw: "f w = (Inr x, w1)" using Inr res f by simp_all
      ultimately show ?thesis
        using assms(4) Run g None put_wf wf rk fw
        by (auto simp: mc_get_or_run_def mc_inv_def Let_def simp del: lru_ops.simps)
    qed
  qed
qed

lemma mc_run_result:
  assumes "mc_inv L lru_wf wrap r mc" "\<And>x. downcast (wrap x) = Some x"
    and "\<forall>k f. Run k f \<in> set es \<longrightarrow> computes r k f"
    and "mc_run L wrap downcast es (mc, w) = (as, mc', w')"
  shows "as = map (op_result r) es \<and> mc_inv L lru_wf wrap r mc' \<and> mc_capacity mc' = mc_capacity mc"
  using assms(1,3,4)
proof (induction es arbitrary: mc w as)
  case Nil
  then show ?case by simp
next
  case (Cons e es)
  obtain a mc1 w1 where s: "mc_step L wrap downcast e (mc, w) = (a, mc1, w1)" by (metis surj_pair)
  obtain as' where rest: "mc_run L wrap downcast es (mc1, w1) = (as', mc', w')" "as = a # as'"
    using Cons.prems(3) s by (auto split: prod.splits)
  have "case e of Run k f \<Rightarrow> computes r k f | ClearCache \<Rightarrow> True"
    using Cons.prems(2) by (cases e) auto
  note st = mc_step_result [OF Cons.prems(1) assms(2) this s]
  with Cons.IH [OF _ _ rest(1)] Cons.prems(2) rest(2) show ?case by simp
qed

end

interpretation list_model: model_lru list_lru list_lru_wf
  by unfold_locales

section \<open>Properties\<close>

text \<open>
  With any LRU cache that behaves as documented, and computations whose result is a function
  of their key, every run of \<open>get_or_run\<close> and \<open>clear\<close> gives each call the result its computation
  would give, errors included, and never holds more than the capacity.
\<close>

theorem model_cache_transparent:
  assumes "model_lru L lru_wf" "\<And>x. downcast (wrap x) = Some x"
    and "\<forall>k f. Run k f \<in> set es \<longrightarrow> computes r k f"
    and "mc_run L wrap downcast es (mc_new L n, w) = (as, mc, w')"
  shows "as = map (op_result r) es \<and> length (lru_iter L (mc_cache mc)) \<le> max n 1"
proof -
  note lru = model_lru.axioms [OF assms(1)]
  have "mc_inv L lru_wf wrap r (mc_new L n)"
    using lru.new_iter [OF lru, of "max n 1"] by (simp add: mc_inv_def mc_new_def Let_def)
  note run = model_lru.mc_run_result [OF assms(1) this assms(2,3,4)]
  have cap: "mc_capacity (mc_new L n) = max n 1" by (simp add: mc_new_def Let_def)
  from run have wf: "lru_wf (mc_capacity mc) (mc_cache mc)"
    unfolding mc_inv_def by (elim conjE)
  have "mc_capacity mc = max n 1" using run by (simp only: cap)
  with run lru.iter_wf [OF lru wf] show ?thesis by simp
qed

theorem model_cache_transparent_witness:
  "fst (mc_run list_lru (\<lambda>x :: nat. x) Some
     [Run 5 (\<lambda>w. (Inr 7, w + 1)), Run 5 (\<lambda>w. (Inr 7, w + 1)), Run 6 (\<lambda>w. (Inl ''no'', w + 1)),
      ClearCache, Run 5 (\<lambda>w. (Inr 7, w + 1))] (mc_new list_lru 2, 0 :: nat)) =
   [Some (Inr 7), Some (Inr 7), Some (Inl ''no''), None, Some (Inr 7)]"
proof -
  let ?f = "\<lambda>w :: nat. (Inr 7 :: string + nat, w + 1)"
  let ?es = "[Run 5 ?f, Run 5 ?f, Run 6 (\<lambda>w. (Inl ''no'', w + 1)), ClearCache, Run 5 ?f]"
  obtain as mc w' where run:
    "mc_run list_lru (\<lambda>x :: nat. x) Some ?es (mc_new list_lru 2, 0 :: nat) = (as, mc, w')"
    by (metis surj_pair)
  have "as = map (op_result (\<lambda>k. if k = 5 then Inr 7 else Inl ''no'')) ?es"
    by (rule model_cache_transparent [OF list_model.model_lru_axioms _ _ run, THEN conjunct1])
       (auto simp: computes_def)
  with run show ?thesis by simp
qed

text \<open>
  The key is FNV-1a of the three fields with a NUL byte between them. A change of one byte of
  the input changes it; but the separator does not separate fields that contain NUL bytes
  themselves: moving a NUL-delimited part from the parameters to the input gives the same key.
\<close>

theorem cache_key_fields:
  "(cache_key m (xs @ b # ys) ps = cache_key m (xs @ b' # ys) ps \<longleftrightarrow> b = b') \<and>
   (cache_key m xs (ps @ b # qs) = cache_key m xs (ps @ b' # qs) \<longleftrightarrow> b = b') \<and>
   cache_key m (xs @ 0 # ys) ps = cache_key m xs (ys @ 0 # ps)"
  using fnv1a_one_byte [of "as_bytes m @ 0 # xs" b "ys @ 0 # ps" b']
    fnv1a_one_byte [of "as_bytes m @ 0 # xs @ 0 # ps" b qs b']
  by (simp add: cache_key_fnv1a)

end
