(* ===== verification/TensorPool.thy ===== *)
theory TensorPool
  imports Floats
begin

text \<open>
  The pools of reusable memory (\<open>src/src/tensor_pool.rs\<close>): tensors by shape, where two shapes are
  the same when their packed keys are, and byte buffers by size class. A \<open>Vec<f32>\<close> is its list
  of elements; a byte buffer its length and its capacity, as its content is unspecified.
\<close>

section \<open>Tensor shapes\<close>

record tensor_shape =
  ts_dims :: "usize list"
  ts_total_size :: usize
  ts_key :: "u32 list"

definition ts_new :: "usize list \<Rightarrow> tensor_shape" where
  "ts_new dims =
     \<lparr>ts_dims = dims, ts_total_size = foldl (*) 1 dims,
      ts_key = map (\<lambda>i. if i < length dims then ucast (dims ! i) else 0) [0..<8]\<rparr>"

definition ts_eq :: "tensor_shape \<Rightarrow> tensor_shape \<Rightarrow> bool" where
  "ts_eq a b \<longleftrightarrow> ts_key a = ts_key b"

section \<open>The tensor pool\<close>

record tensor_pool =
  tp_pools :: "u32 list \<Rightarrow> real list list option"
  tp_max_pooled_tensors :: nat
  tp_allocations :: usize
  tp_reuses :: usize

definition tp_new :: "nat \<Rightarrow> tensor_pool" where
  "tp_new n = \<lparr>tp_pools = Map.empty, tp_max_pooled_tensors = n, tp_allocations = 0, tp_reuses = 0\<rparr>"

definition tp_default :: tensor_pool where
  "tp_default = tp_new 100"

text \<open>A pool is a stack: \<open>pop\<close> takes the tensor released last.\<close>

definition tp_acquire :: "tensor_shape \<Rightarrow> tensor_pool \<Rightarrow> real list \<times> tensor_pool" where
  "tp_acquire shape p =
     (case tp_pools p (ts_key shape) of
        Some (tensor # rest) \<Rightarrow>
          (tensor, p\<lparr>tp_pools := (tp_pools p)(ts_key shape \<mapsto> rest), tp_reuses := tp_reuses p + 1\<rparr>)
      | _ \<Rightarrow>
          (replicate (unat (ts_total_size shape)) 0, p\<lparr>tp_allocations := tp_allocations p + 1\<rparr>))"

definition tp_release :: "tensor_shape \<Rightarrow> real list \<Rightarrow> tensor_pool \<Rightarrow> tensor_pool" where
  "tp_release shape tensor p =
     (let entry = (case tp_pools p (ts_key shape) of Some ts \<Rightarrow> ts | None \<Rightarrow> [])
      in p\<lparr>tp_pools := (tp_pools p)(ts_key shape \<mapsto>
             (if length entry < tp_max_pooled_tensors p then tensor # entry else entry))\<rparr>)"

definition tp_clear :: "tensor_pool \<Rightarrow> tensor_pool" where
  "tp_clear p = p\<lparr>tp_pools := Map.empty\<rparr>"

record tensor_pool_stats =
  tps_total_pooled :: nat
  tps_allocations :: usize
  tps_reuses :: usize
  tps_reuse_rate :: real

definition reuse_rate :: "rnd \<Rightarrow> usize \<Rightarrow> usize \<Rightarrow> real" where
  "reuse_rate fl allocations reuses =
     (let total = allocations + reuses
      in if 0 < total then fl (fl (fl (real (unat reuses)) / fl (real (unat total))) * 100) else 0)"

definition tp_get_stats :: "rnd \<Rightarrow> tensor_pool \<Rightarrow> tensor_pool_stats" where
  "tp_get_stats fl p =
     \<lparr>tps_total_pooled = (\<Sum>k \<in> dom (tp_pools p). length (the (tp_pools p k))),
      tps_allocations = tp_allocations p, tps_reuses = tp_reuses p,
      tps_reuse_rate = reuse_rate fl (tp_allocations p) (tp_reuses p)\<rparr>"

section \<open>The buffer pool\<close>

definition BUFFER_BUCKETS :: "nat list" where
  "BUFFER_BUCKETS = [1024, 4096, 16384, 65536, 262144, 1048576]"

definition buffer_bucket_for :: "nat \<Rightarrow> nat" where
  "buffer_bucket_for min_size =
     (case find (\<lambda>b. min_size \<le> b) BUFFER_BUCKETS of Some b \<Rightarrow> b | None \<Rightarrow> min_size)"

record buffer =
  buf_len :: nat
  buf_capacity :: nat

record buffer_pool =
  bp_buckets :: "nat \<Rightarrow> buffer list option"
  bp_max_per_bucket :: nat
  bp_allocations :: usize
  bp_reuses :: usize

definition buf_new :: "nat \<Rightarrow> buffer_pool" where
  "buf_new n = \<lparr>bp_buckets = Map.empty, bp_max_per_bucket = n, bp_allocations = 0, bp_reuses = 0\<rparr>"

definition buf_default :: buffer_pool where
  "buf_default = buf_new 32"

definition buf_acquire :: "nat \<Rightarrow> buffer_pool \<Rightarrow> buffer \<times> buffer_pool" where
  "buf_acquire min_size p =
     (let bucket = buffer_bucket_for min_size
      in case bp_buckets p bucket of
           Some (buf # rest) \<Rightarrow>
             (buf, p\<lparr>bp_buckets := (bp_buckets p)(bucket \<mapsto> rest), bp_reuses := bp_reuses p + 1\<rparr>)
         | _ \<Rightarrow>
             (\<lparr>buf_len = bucket, buf_capacity = bucket\<rparr>,
              p\<lparr>bp_allocations := bp_allocations p + 1\<rparr>))"

definition buf_release :: "buffer \<Rightarrow> buffer_pool \<Rightarrow> buffer_pool" where
  "buf_release buf p =
     (let bucket = buffer_bucket_for (buf_capacity buf);
          pool = (case bp_buckets p bucket of Some bs \<Rightarrow> bs | None \<Rightarrow> [])
      in p\<lparr>bp_buckets := (bp_buckets p)(bucket \<mapsto>
             (if length pool < bp_max_per_bucket p then buf # pool else pool))\<rparr>)"

record buffer_pool_stats =
  bps_allocations :: usize
  bps_reuses :: usize
  bps_reuse_rate :: real

definition buf_get_stats :: "rnd \<Rightarrow> buffer_pool \<Rightarrow> buffer_pool_stats" where
  "buf_get_stats fl p =
     \<lparr>bps_allocations = bp_allocations p, bps_reuses = bp_reuses p,
      bps_reuse_rate = reuse_rate fl (bp_allocations p) (bp_reuses p)\<rparr>"

section \<open>A pool by class\<close>

text \<open>
  What both pools promise: a request is served from its class, with an item returned to that
  class or a fresh one, so that what holds of every item returned holds of every item reused.
\<close>

datatype ('r, 'w, 'a) pool_op = TakeItem 'r | PutItem 'w 'a | DropAll

locale classed_pool =
  fixes items :: "'p \<Rightarrow> 'k \<Rightarrow> 'a list"
    and class_of :: "'r \<Rightarrow> 'k"
    and files :: "'w \<Rightarrow> 'a \<Rightarrow> 'k"
    and take_item :: "'r \<Rightarrow> 'p \<Rightarrow> 'a \<times> 'p"
    and put_item :: "'w \<Rightarrow> 'a \<Rightarrow> 'p \<Rightarrow> 'p"
    and drop_all :: "'p \<Rightarrow> 'p"
    and fresh :: "'r \<Rightarrow> 'a"
    and limit :: nat
    and ok :: "'p \<Rightarrow> bool"
    and init :: 'p
  assumes init_empty: "ok init \<and> items init k = []"
    and take_from: "ok p \<Longrightarrow> take_item r p = (x, p') \<Longrightarrow> ok p' \<and>
      (case items p (class_of r) of [] \<Rightarrow> x = fresh r \<and> items p' = items p
       | y # ys \<Rightarrow> x = y \<and> items p' = (items p)(class_of r := ys))"
    and put_to: "ok p \<Longrightarrow> ok (put_item w x p) \<and> items (put_item w x p) = (items p)(files w x :=
      (if length (items p (files w x)) < limit then x # items p (files w x)
       else items p (files w x)))"
    and drop_items: "ok p \<Longrightarrow> ok (drop_all p) \<and> items (drop_all p) k = []"
begin

fun pool_step :: "('r, 'w, 'a) pool_op \<Rightarrow> 'p \<Rightarrow> 'p" where
  "pool_step (TakeItem r) p = snd (take_item r p)"
| "pool_step (PutItem w x) p = put_item w x p"
| "pool_step DropAll p = drop_all p"

definition all_good :: "('k \<Rightarrow> 'a \<Rightarrow> bool) \<Rightarrow> 'p \<Rightarrow> bool" where
  "all_good good p \<longleftrightarrow>
     ok p \<and> (\<forall>k. (\<forall>x \<in> set (items p k). good k x) \<and> length (items p k) \<le> limit)"

lemma take_good:
  assumes "all_good good p" "take_item r p = (x, p')"
  shows "all_good good p' \<and> (x = fresh r \<or> good (class_of r) x)"
proof (cases "items p (class_of r)")
  case Nil
  then show ?thesis using take_from [OF _ assms(2)] assms(1) by (auto simp: all_good_def)
next
  case (Cons y ys)
  have "(\<forall>x \<in> set (y # ys). good (class_of r) x) \<and> length (y # ys) \<le> limit"
    using assms(1) Cons by (metis all_good_def)
  then show ?thesis using take_from [OF _ assms(2)] assms(1) Cons
    by (auto simp: all_good_def)
qed

lemma pool_step_good:
  assumes "all_good good p" "\<And>w x. e = PutItem w x \<Longrightarrow> good (files w x) x"
  shows "all_good good (pool_step e p)"
proof (cases e)
  case (TakeItem r)
  then show ?thesis using take_good [OF assms(1), of r "fst (take_item r p)" "snd (take_item r p)"]
    by simp
next
  case (PutItem w x)
  then show ?thesis using assms put_to [of p w x] by (auto simp: all_good_def)
next
  case DropAll
  then show ?thesis using drop_items assms(1) by (simp add: all_good_def)
qed

lemma pool_run_good:
  "(\<And>w x. PutItem w x \<in> set es \<Longrightarrow> good (files w x) x) \<Longrightarrow> all_good good p \<Longrightarrow>
     all_good good (fold pool_step es p)"
proof (induction es arbitrary: p)
  case Nil
  then show ?case by simp
next
  case (Cons e es)
  have "all_good good (pool_step e p)" using Cons.prems by (intro pool_step_good) auto
  with Cons show ?case by simp
qed

lemma init_good: "all_good good init"
  by (simp add: all_good_def init_empty)

lemma pool_take_good:
  assumes "\<And>w x. PutItem w x \<in> set es \<Longrightarrow> good (files w x) x"
    and "take_item r (fold pool_step es init) = (x, p')"
  shows "x = fresh r \<or> good (class_of r) x"
proof -
  have "all_good good (fold pool_step es init)" using assms(1) by (rule pool_run_good [OF _ init_good])
  from take_good [OF this assms(2)] show ?thesis by blast
qed

lemma pool_within_limit: "length (items (fold pool_step es init) k) \<le> limit"
proof -
  have "all_good (\<lambda>_ _. True) (fold pool_step es init)" by (rule pool_run_good [OF _ init_good]) simp
  then show ?thesis by (simp add: all_good_def)
qed

end

definition pool_items :: "('k \<Rightarrow> 'a list option) \<Rightarrow> 'k \<Rightarrow> 'a list" where
  "pool_items m k = (case m k of Some xs \<Rightarrow> xs | None \<Rightarrow> [])"

lemma pool_items_upd [simp]: "pool_items (m(k \<mapsto> xs)) = (pool_items m)(k := xs)"
  by (auto simp: pool_items_def fun_eq_iff)

lemma pool_items_empty [simp]: "pool_items Map.empty k = []"
  by (simp add: pool_items_def)

interpretation tensors: classed_pool "\<lambda>p. pool_items (tp_pools p)" ts_key "\<lambda>s _. ts_key s"
  tp_acquire tp_release tp_clear "\<lambda>s. replicate (unat (ts_total_size s)) 0" n
  "\<lambda>p. tp_max_pooled_tensors p = n" "tp_new n" for n
proof (unfold_locales, goal_cases)
  case (2 p s x p')
  then show ?case
    by (auto simp: tp_acquire_def pool_items_def fun_eq_iff split: option.splits list.splits)
next
  case (3 p s x)
  then show ?case by (simp add: tp_release_def Let_def pool_items_def [symmetric])
qed (simp_all add: tp_new_def tp_clear_def)

text \<open>The buffer pool has no operation that clears it; there dropping all is making a new pool.\<close>

interpretation buffers: classed_pool "\<lambda>p. pool_items (bp_buckets p)" buffer_bucket_for
  "\<lambda>(_ :: unit) b. buffer_bucket_for (buf_capacity b)" buf_acquire "\<lambda>_. buf_release"
  "\<lambda>p. buf_new (bp_max_per_bucket p)"
  "\<lambda>n. \<lparr>buf_len = buffer_bucket_for n, buf_capacity = buffer_bucket_for n\<rparr>" m
  "\<lambda>p. bp_max_per_bucket p = m" "buf_new m" for m
proof (unfold_locales, goal_cases)
  case (2 p n x p')
  then show ?case
    by (auto simp: buf_acquire_def Let_def pool_items_def fun_eq_iff split: option.splits list.splits)
next
  case (3 p w x)
  then show ?case by (simp add: buf_release_def Let_def pool_items_def [symmetric])
qed (simp_all add: buf_new_def)

section \<open>Properties\<close>

fun tp_step :: "(tensor_shape, tensor_shape, real list) pool_op \<Rightarrow> tensor_pool \<Rightarrow> tensor_pool" where
  "tp_step (TakeItem s) p = snd (tp_acquire s p)"
| "tp_step (PutItem s t) p = tp_release s t p"
| "tp_step DropAll p = tp_clear p"

fun buf_step :: "(nat, unit, buffer) pool_op \<Rightarrow> buffer_pool \<Rightarrow> buffer_pool" where
  "buf_step (TakeItem n) p = snd (buf_acquire n p)"
| "buf_step (PutItem _ b) p = buf_release b p"
| "buf_step DropAll p = buf_new (bp_max_per_bucket p)"

lemma tp_step_pool: "tp_step e p = tensors.pool_step e p"
  by (cases e) simp_all

lemma buf_step_pool: "buf_step e p = buffers.pool_step e p"
  by (cases e) simp_all

text \<open>Dimensions the packed key tells apart.\<close>

definition plain_dims :: "usize list \<Rightarrow> bool" where
  "plain_dims ds \<longleftrightarrow> length ds \<le> 8 \<and> (\<forall>d \<in> set ds. 0 < d \<and> unat d < 2 ^ 32)"

lemma plain_key:
  assumes "plain_dims ds" "i < 8"
  shows "unat (ts_key (ts_new ds) ! i) = (if i < length ds then unat (ds ! i) else 0)"
proof -
  have "unat (ucast (ds ! i) :: u32) = unat (ds ! i)" if "i < length ds"
    using assms(1) that nth_mem [OF that]
    by (simp add: plain_dims_def unsigned_ucast_eq take_bit_nat_eq_self_iff)
  then show ?thesis using assms(2) by (simp add: ts_new_def)
qed

lemma plain_key_inject:
  assumes "plain_dims ds" "plain_dims es" "ts_key (ts_new ds) = ts_key (ts_new es)"
  shows "ds = es"
proof -
  have eq: "(if i < length ds then unat (ds ! i) else 0) = (if i < length es then unat (es ! i) else 0)"
    if "i < 8" for i
    using plain_key [OF assms(1) that] plain_key [OF assms(2) that] assms(3) by metis
  have pos: "0 < unat (fs ! i) \<and> i < 8" if "i < length fs" "plain_dims fs" for fs i
    using nth_mem [OF that(1)] that by (auto simp: plain_dims_def word_less_nat_alt)
  have "\<not> length es < length ds"
    using eq [of "length es"] pos [of "length es" ds] assms(1) by fastforce
  moreover have "\<not> length ds < length es"
    using eq [of "length ds"] pos [of "length ds" es] assms(2) by fastforce
  ultimately have len: "length ds = length es" by simp
  show ?thesis
  proof (rule nth_equalityI [OF len])
    fix i assume i: "i < length ds"
    then have "unat (ds ! i) = unat (es ! i)" using eq [of i] pos [OF i assms(1)] len by simp
    then show "ds ! i = es ! i" by (rule word_unat_eq_iff [THEN iffD2])
  qed
qed

text \<open>
  C16. When every tensor released has the size of its shape, and every shape has at most eight
  dimensions, none of them 0 and all below \<open>2 ^ 32\<close>, every tensor acquired has the size of the
  shape it is asked for, reused or fresh, and no shape has more than the limit pooled.
\<close>

theorem tensor_pool_sizes:
  assumes "\<And>s t. PutItem s t \<in> set es \<Longrightarrow>
      \<exists>ds. plain_dims ds \<and> s = ts_new ds \<and> length t = unat (ts_total_size s)"
    and "plain_dims ds" "tp_acquire (ts_new ds) (fold tp_step es (tp_new n)) = (t, p')"
  shows "length t = unat (ts_total_size (ts_new ds)) \<and>
    (\<forall>k. length (pool_items (tp_pools (fold tp_step es (tp_new n))) k) \<le> n)"
proof -
  let ?good = "\<lambda>k t. \<forall>ds. plain_dims ds \<and> ts_key (ts_new ds) = k \<longrightarrow>
    length (t :: real list) = unat (ts_total_size (ts_new ds))"
  have run: "fold tp_step es (tp_new n) = fold tensors.pool_step es (tp_new n)"
    by (simp add: tp_step_pool [abs_def])
  have put: "?good (ts_key s) t" if "PutItem s t \<in> set es" for s t
    using assms(1) [OF that] plain_key_inject by blast
  have "t = replicate (unat (ts_total_size (ts_new ds))) 0 \<or> ?good (ts_key (ts_new ds)) t"
    by (rule tensors.pool_take_good [of es ?good, OF put assms(3) [unfolded run]])
  with assms(2) have "length t = unat (ts_total_size (ts_new ds))" by auto
  moreover have "length (pool_items (tp_pools (fold tp_step es (tp_new n))) k) \<le> n" for k
    unfolding run by (rule tensors.pool_within_limit)
  ultimately show ?thesis by blast
qed

theorem tensor_pool_sizes_witness:
  "\<exists>t p'. tp_acquire (ts_new [2, 3])
      (fold tp_step [PutItem (ts_new [2, 3]) (replicate 6 1), PutItem (ts_new [6]) (replicate 6 2)] (tp_new 4))
      = (t, p') \<and> length t = 6"
proof -
  let ?es = "[PutItem (ts_new [2, 3]) (replicate 6 1), PutItem (ts_new [6]) (replicate 6 2)]"
  obtain t p' where a: "tp_acquire (ts_new [2, 3]) (fold tp_step ?es (tp_new 4)) = (t, p')"
    by fastforce
  have plain: "plain_dims [2, 3]" "plain_dims [6]" by (simp_all add: plain_dims_def)
  have total: "ts_total_size (ts_new [2, 3]) = 6" "ts_total_size (ts_new [6]) = 6"
    by (simp_all add: ts_new_def)
  have "\<exists>ds. plain_dims ds \<and> s = ts_new ds \<and> length t = unat (ts_total_size s)"
    if "PutItem s t \<in> set ?es" for s t
    using that plain total by (auto intro: exI [of _ "[2, 3]"] exI [of _ "[6]"])
  from tensor_pool_sizes [OF this plain(1) a] have "length t = 6" by (simp add: total)
  with a show ?thesis by blast
qed

text \<open>
  A shape and the same shape with a further dimension of 0 share their key: after a tensor
  of the latter came back, an acquisition of the former returns that empty tensor.
\<close>

theorem tensor_pool_confuses_shapes:
  assumes "length ds < 8" "0 < n"
  shows "fst (tp_acquire (ts_new ds) (tp_release (ts_new (ds @ [0]))
      (fst (tp_acquire (ts_new (ds @ [0])) (tp_new n))) (snd (tp_acquire (ts_new (ds @ [0])) (tp_new n))))) = []"
proof -
  have "ts_key (ts_new (ds @ [0])) = ts_key (ts_new ds)"
    using assms(1) by (auto simp: ts_new_def nth_append)
  moreover have "ts_total_size (ts_new (ds @ [0])) = 0" by (simp add: ts_new_def)
  ultimately show ?thesis
    using assms(2) by (simp add: tp_acquire_def tp_release_def tp_new_def)
qed

theorem tensor_pool_confuses_shapes_witness:
  "fst (tp_acquire (ts_new [2, 3]) (tp_release (ts_new [2, 3, 0]) []
     (snd (tp_acquire (ts_new [2, 3, 0]) (tp_new 4))))) = [] \<and> ts_total_size (ts_new [2, 3]) = 6"
proof -
  have "fst (tp_acquire (ts_new [2, 3, 0]) (tp_new 4)) = []"
    by (simp add: tp_acquire_def ts_new_def tp_new_def)
  with tensor_pool_confuses_shapes [of "[2, 3]" 4] show ?thesis by (simp add: ts_new_def)
qed

lemma bucket_ge: "n \<le> buffer_bucket_for n"
  by (auto simp: buffer_bucket_for_def find_Some_iff split: option.splits)

text \<open>
  C17. When every buffer released is as long as its capacity and has the size of a bucket (as
  every buffer the pool made has), a buffer acquired is at least as long as asked for. A buffer
  whose capacity is not the size of a bucket is filed under the next larger one, and handed out
  for requests it is too short for.
\<close>

theorem buffer_pool_sizes:
  "((\<forall>b. PutItem () b \<in> set es \<longrightarrow> buf_len b = buf_capacity b \<and>
        buffer_bucket_for (buf_capacity b) = buf_capacity b) \<longrightarrow>
      m \<le> buf_len (fst (buf_acquire m (fold buf_step es (buf_new n))))) \<and>
    (\<forall>b. 0 < n \<and> buf_len b = buf_capacity b \<and> buffer_bucket_for (buf_capacity b) \<noteq> buf_capacity b \<longrightarrow>
      (let m = buffer_bucket_for (buf_capacity b)
       in buf_len (fst (buf_acquire m (buf_release b (buf_new n)))) < m))"
proof (intro conjI impI allI)
  assume put: "\<forall>b. PutItem () b \<in> set es \<longrightarrow> buf_len b = buf_capacity b \<and>
    buffer_bucket_for (buf_capacity b) = buf_capacity b"
  let ?p = "fold buf_step es (buf_new n)"
  have run: "?p = fold buffers.pool_step es (buf_new n)" by (simp add: buf_step_pool [abs_def])
  obtain b p' where a: "buf_acquire m ?p = (b, p')" by fastforce
  have "b = \<lparr>buf_len = buffer_bucket_for m, buf_capacity = buffer_bucket_for m\<rparr> \<or>
      buf_len b = buffer_bucket_for m"
    by (rule buffers.pool_take_good [of es "\<lambda>k b. buf_len b = k", OF _ a [unfolded run]])
       (use put in auto)
  then show "m \<le> buf_len (fst (buf_acquire m ?p))" using a bucket_ge by auto
next
  fix b :: buffer
  assume b: "0 < n \<and> buf_len b = buf_capacity b \<and> buffer_bucket_for (buf_capacity b) \<noteq> buf_capacity b"
  let ?m = "buffer_bucket_for (buf_capacity b)"
  have "buffer_bucket_for ?m = ?m"
  proof (cases "find (\<lambda>k. buf_capacity b \<le> k) BUFFER_BUCKETS")
    case None
    then show ?thesis using b by (simp add: buffer_bucket_for_def)
  next
    case (Some k)
    then have m: "?m = k" by (simp add: buffer_bucket_for_def)
    have "k \<in> set BUFFER_BUCKETS" using Some by (auto simp: find_Some_iff)
    then have "buffer_bucket_for k = k" by (auto simp: buffer_bucket_for_def BUFFER_BUCKETS_def)
    with m show ?thesis by simp
  qed
  then have "fst (buf_acquire ?m (buf_release b (buf_new n))) = b"
    using b by (simp add: buf_acquire_def buf_release_def buf_new_def Let_def)
  then show "let m = ?m in buf_len (fst (buf_acquire m (buf_release b (buf_new n)))) < m"
    using b bucket_ge [of "buf_capacity b"] by (simp add: Let_def)
qed

theorem buffer_pool_sizes_witness:
  "1000 \<le> buf_len (fst (buf_acquire 1000 (fold buf_step [TakeItem 5, PutItem () \<lparr>buf_len = 1024, buf_capacity = 1024\<rparr>]
      (buf_new 2)))) \<and>
   buf_len (fst (buf_acquire 1024 (buf_release \<lparr>buf_len = 1000, buf_capacity = 1000\<rparr> (buf_new 2)))) < 1024"
proof -
  have b: "buffer_bucket_for 1000 = 1024" "buffer_bucket_for 1024 = 1024"
    by (simp_all add: buffer_bucket_for_def BUFFER_BUCKETS_def)
  show ?thesis
    using buffer_pool_sizes [THEN conjunct1, rule_format,
        of "[TakeItem 5, PutItem () \<lparr>buf_len = 1024, buf_capacity = 1024\<rparr>]" 1000 2]
      buffer_pool_sizes [THEN conjunct2, rule_format, of 2 "\<lparr>buf_len = 1000, buf_capacity = 1000\<rparr>"]
    by (simp add: b Let_def)
qed

end
