(* ===== verification/ModelPool.thy ===== *)
theory ModelPool
  imports Prelude "HOL-Library.AList"
begin

text \<open>
  The pool of model instances (\<open>src/src/model_pool.rs\<close>): per model a list of instances with
  load metrics, of which \<open>acquire\<close> picks the least loaded, and a semaphore. Metrics are shared
  between the pool and the callers, so they live in a store and are named by their address.
  Instances are of type \<open>'t\<close>.
\<close>

section \<open>Metrics\<close>

record instance_metrics =
  im_active_requests :: u64
  im_total_requests :: u64
  im_avg_latency_ms :: u64

definition im_new :: instance_metrics where
  "im_new = \<lparr>im_active_requests = 0, im_total_requests = 0, im_avg_latency_ms = 0\<rparr>"

definition im_start_request :: "instance_metrics \<Rightarrow> instance_metrics" where
  "im_start_request m =
     m\<lparr>im_active_requests := im_active_requests m + 1, im_total_requests := im_total_requests m + 1\<rparr>"

definition im_end_request :: "u64 \<Rightarrow> instance_metrics \<Rightarrow> instance_metrics" where
  "im_end_request latency_ms m =
     (let m1 = m\<lparr>im_active_requests := im_active_requests m - 1\<rparr>;
          current_avg = im_avg_latency_ms m1;
          new_avg = (if current_avg = 0 then latency_ms else (current_avg * 9 + latency_ms) div 10)
      in m1\<lparr>im_avg_latency_ms := new_avg\<rparr>)"

definition im_load_score :: "instance_metrics \<Rightarrow> u64" where
  "im_load_score m = im_active_requests m * 500 + im_avg_latency_ms m"

section \<open>The pool\<close>

record 't instance_wrapper =
  iw_instance :: 't
  iw_metrics :: nat

record 't model_pool =
  mp_instances :: "(string \<times> 't instance_wrapper list) list"
  mp_max_instances_per_model :: nat
  mp_semaphores :: "string \<Rightarrow> nat option"
  mp_metrics :: "instance_metrics list"

definition mp_new :: "nat \<Rightarrow> 't model_pool" where
  "mp_new n = \<lparr>mp_instances = [], mp_max_instances_per_model = n, mp_semaphores = Map.empty,
     mp_metrics = []\<rparr>"

definition mp_default :: "'t model_pool" where
  "mp_default = mp_new 3"

definition mp_of :: "string \<Rightarrow> 't model_pool \<Rightarrow> 't instance_wrapper list" where
  "mp_of model p = (case map_of (mp_instances p) model of Some ws \<Rightarrow> ws | None \<Rightarrow> [])"

definition mp_add_instance :: "string \<Rightarrow> 't \<Rightarrow> 't model_pool \<Rightarrow> 't model_pool" where
  "mp_add_instance model_name inst p =
     (let instances = mp_of model_name p
      in if length instances < mp_max_instances_per_model p
         then p\<lparr>mp_instances := AList.update model_name
                  (instances @ [\<lparr>iw_instance = inst, iw_metrics = length (mp_metrics p)\<rparr>]) (mp_instances p),
                mp_metrics := mp_metrics p @ [im_new]\<rparr>
         else p\<lparr>mp_instances := AList.update model_name instances (mp_instances p)\<rparr>)"

definition mp_select_least_loaded :: "instance_metrics list \<Rightarrow> 't instance_wrapper list \<Rightarrow> nat" where
  "mp_select_least_loaded ms instances =
     (if length instances = 1 then 0
      else case min_by_key (\<lambda>(_, w). im_load_score (ms ! iw_metrics w)) (enumerate 0 instances) of
             Some (idx, _) \<Rightarrow> idx
           | None \<Rightarrow> 0)"

text \<open>
  The result of \<open>acquire\<close>: it waits while the semaphore has no permit, it finds no instance, or
  it returns one with its metrics. The permit it takes is dropped at the end of the call, with
  the local guard that holds it.
\<close>

datatype 't acquired = Waiting | NoInstance | Acquired 't nat nat

definition mp_acquire :: "nat \<Rightarrow> string \<Rightarrow> 't model_pool \<Rightarrow> 't acquired \<times> 't model_pool" where
  "mp_acquire now model_name p =
     (let permits = (case mp_semaphores p model_name of
                       Some n \<Rightarrow> n | None \<Rightarrow> mp_max_instances_per_model p);
          p1 = p\<lparr>mp_semaphores := (mp_semaphores p)(model_name \<mapsto> permits)\<rparr>
      in if permits = 0 then (Waiting, p1)
         else
           let p2 = p1\<lparr>mp_semaphores := (mp_semaphores p1)(model_name \<mapsto> permits - 1)\<rparr>;
               drop_permit = (\<lambda>q. q\<lparr>mp_semaphores :=
                 (mp_semaphores q)(model_name \<mapsto> Suc (the (mp_semaphores q model_name)))\<rparr>)
           in case map_of (mp_instances p2) model_name of
                None \<Rightarrow> (NoInstance, drop_permit p2)
              | Some instances \<Rightarrow>
                  if instances = [] then (NoInstance, drop_permit p2)
                  else
                    let w = instances ! mp_select_least_loaded (mp_metrics p2) instances;
                        a = iw_metrics w;
                        p3 = p2\<lparr>mp_metrics := (mp_metrics p2)[a := im_start_request (mp_metrics p2 ! a)]\<rparr>
                    in (Acquired (iw_instance w) a now, drop_permit p3))"

definition mp_release :: "nat \<Rightarrow> nat \<Rightarrow> nat \<Rightarrow> 't model_pool \<Rightarrow> 't model_pool" where
  "mp_release now metrics start_time p =
     (let latency_ms = word_of_nat ((now - start_time) div 1000000)
      in p\<lparr>mp_metrics := (mp_metrics p)[metrics := im_end_request latency_ms (mp_metrics p ! metrics)]\<rparr>)"

definition mp_instance_count :: "string \<Rightarrow> 't model_pool \<Rightarrow> nat" where
  "mp_instance_count model_name p = length (mp_of model_name p)"

definition mp_remove_model :: "string \<Rightarrow> 't model_pool \<Rightarrow> 't model_pool" where
  "mp_remove_model model_name p =
     p\<lparr>mp_instances := filter (\<lambda>(k, _). k \<noteq> model_name) (mp_instances p),
       mp_semaphores := (mp_semaphores p)(model_name := None)\<rparr>"

record model_pool_stats =
  mps_total_models :: nat
  mps_total_instances :: nat
  mps_active_requests :: u64

definition mp_get_stats :: "'t model_pool \<Rightarrow> model_pool_stats" where
  "mp_get_stats p =
     \<lparr>mps_total_models = length (mp_instances p),
      mps_total_instances = sum_list (map (\<lambda>(_, ws). length ws) (mp_instances p)),
      mps_active_requests =
        sum_list (map (\<lambda>w. im_active_requests (mp_metrics p ! iw_metrics w))
          (concat (map snd (mp_instances p))))\<rparr>"

record instance_stats =
  ist_instance_id :: nat
  ist_active_requests :: u64
  ist_total_requests :: u64
  ist_avg_latency_ms :: u64
  ist_load_score :: u64

definition mp_get_model_stats :: "string \<Rightarrow> 't model_pool \<Rightarrow> instance_stats list option" where
  "mp_get_model_stats model_name p =
     map_option (\<lambda>instances.
       map (\<lambda>(idx, w). let m = mp_metrics p ! iw_metrics w in
         \<lparr>ist_instance_id = idx, ist_active_requests = im_active_requests m,
          ist_total_requests = im_total_requests m, ist_avg_latency_ms = im_avg_latency_ms m,
          ist_load_score = im_load_score m\<rparr>) (enumerate 0 instances))
       (map_of (mp_instances p) model_name)"

section \<open>Runs\<close>

text \<open>
  Callers hold handles, the address and start time \<open>acquire\<close> gave them; a release uses up a
  handle.
\<close>

datatype 't pool_call =
  AddInstance string 't | AcquireModel nat string | ReleaseHandle nat nat | RemoveModel string

fun mp_step :: "'t pool_call \<Rightarrow> 't model_pool \<times> (nat \<times> nat) list \<Rightarrow> 't model_pool \<times> (nat \<times> nat) list" where
  "mp_step (AddInstance m x) (p, hs) = (mp_add_instance m x p, hs)"
| "mp_step (AcquireModel now m) (p, hs) =
     (case mp_acquire now m p of
        (Acquired _ a t, p') \<Rightarrow> (p', hs @ [(a, t)])
      | (_, p') \<Rightarrow> (p', hs))"
| "mp_step (ReleaseHandle now i) (p, hs) =
     (if i < length hs
      then (mp_release now (fst (hs ! i)) (snd (hs ! i)) p, take i hs @ drop (Suc i) hs)
      else (p, hs))"
| "mp_step (RemoveModel m) (p, hs) = (mp_remove_model m p, hs)"

definition mp_inv :: "nat \<Rightarrow> 't model_pool \<times> (nat \<times> nat) list \<Rightarrow> bool" where
  "mp_inv n s \<longleftrightarrow> (case s of (p, hs) \<Rightarrow>
     mp_max_instances_per_model p = n \<and>
     (\<forall>m k. mp_semaphores p m = Some k \<longrightarrow> k = n) \<and>
     distinct (map fst (mp_instances p)) \<and>
     (\<forall>(m, ws) \<in> set (mp_instances p). length ws \<le> n \<and> (\<forall>w \<in> set ws. iw_metrics w < length (mp_metrics p))) \<and>
     (\<forall>h \<in> set hs. fst h < length (mp_metrics p)) \<and>
     (\<forall>a < length (mp_metrics p).
        im_active_requests (mp_metrics p ! a) = word_of_nat (length (filter (\<lambda>h. fst h = a) hs))))"

section \<open>The invariant\<close>

lemma set_AList_update: "set (AList.update k v xs) \<subseteq> insert (k, v) (set xs)"
  by (induction xs) (auto split: if_splits)

lemma mp_of_in: "w \<in> set (mp_of m p) \<Longrightarrow> (m, mp_of m p) \<in> set (mp_instances p)"
  by (auto simp: mp_of_def split: option.splits dest: map_of_SomeD)

lemma mp_inv_wrapper:
  "mp_inv n (p, hs) \<Longrightarrow> w \<in> set (mp_of m p) \<Longrightarrow> iw_metrics w < length (mp_metrics p)"
  using mp_of_in [of w m p] by (fastforce simp: mp_inv_def)

lemma mp_select_least:
  assumes "ws \<noteq> []"
  shows "mp_select_least_loaded ms ws < length ws \<and>
    (\<forall>w \<in> set ws. im_load_score (ms ! iw_metrics (ws ! mp_select_least_loaded ms ws)) \<le>
      im_load_score (ms ! iw_metrics w))"
proof (cases "length ws = 1")
  case True
  then obtain w where "ws = [w]" by (auto simp: length_Suc_conv)
  then show ?thesis by (simp add: mp_select_least_loaded_def)
next
  case False
  let ?f = "\<lambda>(_, w). im_load_score (ms ! iw_metrics w)"
  obtain i w where m: "min_by_key ?f (enumerate 0 ws) = Some (i, w)"
    using assms by (cases "min_by_key ?f (enumerate 0 ws)") (auto simp: enumerate_eq_zip)
  from min_by_key_Some [OF m] have "(i, w) \<in> set (enumerate 0 ws)"
    and least: "\<forall>x \<in> set (enumerate 0 ws). ?f (i, w) \<le> ?f x" by blast+
  then have i: "i < length ws" "ws ! i = w" by (simp_all add: in_set_enumerate_eq)
  have "?f (i, w) \<le> im_load_score (ms ! iw_metrics w')" if "w' \<in> set ws" for w'
  proof -
    from that obtain j where "j < length ws" "ws ! j = w'" unfolding in_set_conv_nth by blast
    then have "(j, w') \<in> set (enumerate 0 ws)" by (simp add: in_set_enumerate_eq)
    with least show ?thesis by fastforce
  qed
  with False m i show ?thesis by (simp add: mp_select_least_loaded_def)
qed

lemma mp_inv_init [inv_intros]: "mp_inv n (mp_new n, [])"
  by (simp add: mp_inv_def mp_new_def)

lemma mp_inv_add [inv_intros]:
  assumes "mp_inv n (p, hs)"
  shows "mp_inv n (mp_add_instance m x p, hs)"
proof -
  let ?ws = "mp_of m p"
  have ws: "length ?ws \<le> n \<and> (\<forall>w \<in> set ?ws. iw_metrics w < length (mp_metrics p))"
    using assms mp_inv_wrapper [OF assms] mp_of_in [of _ m p]
    by (cases ?ws) (fastforce simp: mp_inv_def)+
  show ?thesis
  proof (cases "length ?ws < n")
    case True
    let ?new = "?ws @ [\<lparr>iw_instance = x, iw_metrics = length (mp_metrics p)\<rparr>]"
    have "\<forall>(k, vs) \<in> set (AList.update m ?new (mp_instances p)).
      length vs \<le> n \<and> (\<forall>w \<in> set vs. iw_metrics w < length (mp_metrics p @ [im_new]))"
      using assms ws True set_AList_update [of m ?new "mp_instances p"] by (fastforce simp: mp_inv_def)
    moreover have "filter (\<lambda>h. fst h = length (mp_metrics p)) hs = []"
      using assms by (auto simp: mp_inv_def filter_empty_conv)
    ultimately show ?thesis
      using assms True AList.distinct_update [of "mp_instances p" m ?new]
      by (auto simp: mp_inv_def mp_add_instance_def Let_def nth_append less_Suc_eq im_new_def)
  next
    case False
    have "\<forall>(k, vs) \<in> set (AList.update m ?ws (mp_instances p)).
      length vs \<le> n \<and> (\<forall>w \<in> set vs. iw_metrics w < length (mp_metrics p))"
      using assms ws set_AList_update [of m ?ws "mp_instances p"] by (fastforce simp: mp_inv_def)
    then show ?thesis
      using assms False AList.distinct_update [of "mp_instances p" m ?ws]
      by (auto simp: mp_inv_def mp_add_instance_def Let_def)
  qed
qed

lemma mp_acquire_result:
  assumes "mp_inv n (p, hs)" "0 < n"
  shows "case mp_acquire now m p of
      (Waiting, p') \<Rightarrow> False
    | (NoInstance, p') \<Rightarrow> mp_of m p = [] \<and> mp_instances p' = mp_instances p \<and>
        mp_metrics p' = mp_metrics p \<and> mp_inv n (p', hs)
    | (Acquired x a t, p') \<Rightarrow> t = now \<and> mp_instances p' = mp_instances p \<and>
        (\<exists>w \<in> set (mp_of m p). x = iw_instance w \<and> a = iw_metrics w \<and>
          (\<forall>w' \<in> set (mp_of m p).
            im_load_score (mp_metrics p ! a) \<le> im_load_score (mp_metrics p ! iw_metrics w'))) \<and>
        mp_metrics p' = (mp_metrics p)[a := im_start_request (mp_metrics p ! a)] \<and>
        mp_inv n (p', hs @ [(a, t)])"
proof -
  have sem: "(case mp_semaphores p m of Some k \<Rightarrow> k | None \<Rightarrow> mp_max_instances_per_model p) = n"
    using assms(1) by (auto simp: mp_inv_def split: option.splits)
  have sems: "\<forall>m' k. ((mp_semaphores p)(m \<mapsto> n, m \<mapsto> n - 1, m \<mapsto> Suc (n - 1))) m' = Some k \<longrightarrow> k = n"
    using assms by (auto simp: mp_inv_def)
  show ?thesis
  proof (cases "mp_of m p = []")
    case True
    let ?p = "p\<lparr>mp_semaphores := (mp_semaphores p)(m \<mapsto> n, m \<mapsto> n - 1, m \<mapsto> Suc (n - 1))\<rparr>"
    have "mp_acquire now m p = (NoInstance, ?p)"
      using True assms(2) by (simp add: mp_acquire_def Let_def sem mp_of_def split: option.split_asm)
    moreover have "mp_inv n (?p, hs)" using assms(1) sems by (simp add: mp_inv_def)
    ultimately show ?thesis using True by simp
  next
    case False
    then have mo: "map_of (mp_instances p) m = Some (mp_of m p)"
      by (auto simp: mp_of_def split: option.splits)
    define w where "w = mp_of m p ! mp_select_least_loaded (mp_metrics p) (mp_of m p)"
    note least = mp_select_least [OF False, of "mp_metrics p", folded w_def]
    then have w: "w \<in> set (mp_of m p)" by (simp add: w_def)
    have a: "iw_metrics w < length (mp_metrics p)" using assms(1) w by (rule mp_inv_wrapper)
    let ?p = "p\<lparr>mp_semaphores := (mp_semaphores p)(m \<mapsto> n, m \<mapsto> n - 1, m \<mapsto> Suc (n - 1)),
      mp_metrics := (mp_metrics p)[iw_metrics w := im_start_request (mp_metrics p ! iw_metrics w)]\<rparr>"
    have "mp_acquire now m p = (Acquired (iw_instance w) (iw_metrics w) now, ?p)"
      using False assms(2) by (simp add: mp_acquire_def Let_def sem mo w_def)
    moreover have "mp_inv n (?p, hs @ [(iw_metrics w, now)])"
      using assms(1) sems a by (auto simp: mp_inv_def nth_list_update im_start_request_def)
    ultimately show ?thesis using least w by auto
  qed
qed

lemma filter_remove_nth:
  "i < length hs \<Longrightarrow> length (filter P hs) =
     length (filter P (take i hs @ drop (Suc i) hs)) + (if P (hs ! i) then 1 else 0)"
  by (subst id_take_nth_drop [of i hs]) auto

lemma mp_inv_release [inv_intros]:
  assumes "mp_inv n (p, hs)" "i < length hs"
  shows "mp_inv n (mp_release now (fst (hs ! i)) (snd (hs ! i)) p, take i hs @ drop (Suc i) hs)"
proof -
  define hs' where "hs' = take i hs @ drop (Suc i) hs"
  have sub: "set hs' \<subseteq> set hs" by (auto simp: hs'_def dest: in_set_takeD in_set_dropD)
  have a: "fst (hs ! i) < length (mp_metrics p)"
    using assms nth_mem [OF assms(2)] by (auto simp: mp_inv_def)
  have cnt: "im_active_requests (mp_metrics p ! b) =
      word_of_nat (length (filter (\<lambda>h. fst h = b) hs')) + (if fst (hs ! i) = b then 1 else 0)"
    if "b < length (mp_metrics p)" for b
  proof -
    have "im_active_requests (mp_metrics p ! b) = word_of_nat (length (filter (\<lambda>h. fst h = b) hs))"
      using assms(1) that by (simp add: mp_inv_def)
    also have "\<dots> = word_of_nat (length (filter (\<lambda>h. fst h = b) hs') + (if fst (hs ! i) = b then 1 else 0))"
      unfolding hs'_def by (rule arg_cong [OF filter_remove_nth [OF assms(2)]])
    finally show ?thesis by simp
  qed
  let ?m = "im_end_request (word_of_nat ((now - snd (hs ! i)) div 1000000)) (mp_metrics p ! fst (hs ! i))"
  have "im_active_requests ((mp_metrics p)[fst (hs ! i) := ?m] ! b) =
      word_of_nat (length (filter (\<lambda>h. fst h = b) hs'))"
    if "b < length (mp_metrics p)" for b
    using cnt [OF that] that a by (auto simp: nth_list_update im_end_request_def Let_def)
  then show ?thesis
    using assms(1) sub unfolding hs'_def [symmetric]
    by (auto simp: mp_inv_def mp_release_def Let_def)
qed

lemma mp_inv_remove [inv_intros]: "mp_inv n (p, hs) \<Longrightarrow> mp_inv n (mp_remove_model m p, hs)"
  by (auto simp: mp_inv_def mp_remove_model_def intro: distinct_map_filter)

lemma mp_inv_step:
  assumes "mp_inv n s" "0 < n"
  shows "mp_inv n (mp_step e s)"
proof -
  obtain p hs where s: "s = (p, hs)" by fastforce
  note inv = assms(1) [unfolded s]
  show ?thesis
  proof (cases e)
    case (AcquireModel now m)
    show ?thesis using mp_acquire_result [OF inv assms(2), where now = now and m = m] AcquireModel
      by (auto simp: s split: prod.splits acquired.splits)
  qed (use inv in \<open>auto simp: s intro: inv_intros\<close>)
qed

lemma mp_inv_run: "mp_inv n s \<Longrightarrow> 0 < n \<Longrightarrow> mp_inv n (fold mp_step es s)"
  by (induction es arbitrary: s) (simp_all add: mp_inv_step del: split_paired_All)

section \<open>Properties\<close>

text \<open>
  C18. After every run of additions, acquisitions, releases and removals on a pool with a positive
  limit, \<open>acquire\<close> never waits, however many handles are out; it finds no instance exactly when
  the model has none, and otherwise returns an instance whose load score is the least of the
  model's. The active count of every instance is the number of handles out on it, and no model
  has more instances than the limit.
\<close>

theorem model_pool_least_loaded:
  assumes "fold mp_step es (mp_new n, []) = (p, hs)" "0 < n"
  shows "(case fst (mp_acquire now m p) of
      Waiting \<Rightarrow> False
    | NoInstance \<Rightarrow> mp_of m p = []
    | Acquired x a t \<Rightarrow> t = now \<and>
        (\<exists>w \<in> set (mp_of m p). x = iw_instance w \<and> a = iw_metrics w \<and>
          (\<forall>w' \<in> set (mp_of m p).
            im_load_score (mp_metrics p ! a) \<le> im_load_score (mp_metrics p ! iw_metrics w')))) \<and>
    (\<forall>w \<in> set (mp_of m p). im_active_requests (mp_metrics p ! iw_metrics w) =
      word_of_nat (length (filter (\<lambda>h. fst h = iw_metrics w) hs))) \<and>
    mp_instance_count m p \<le> n"
proof -
  have inv: "mp_inv n (p, hs)"
    using mp_inv_run [OF mp_inv_init assms(2), of es] assms(1) by simp
  have "mp_instance_count m p \<le> n"
    using inv mp_of_in [of _ m p] by (cases "mp_of m p") (fastforce simp: mp_inv_def mp_instance_count_def)+
  moreover have "\<forall>w \<in> set (mp_of m p). im_active_requests (mp_metrics p ! iw_metrics w) =
      word_of_nat (length (filter (\<lambda>h. fst h = iw_metrics w) hs))"
    using inv mp_inv_wrapper [OF inv] by (simp add: mp_inv_def)
  ultimately show ?thesis
    using mp_acquire_result [OF inv assms(2), where now = now and m = m]
    by (auto split: prod.splits acquired.splits)
qed

theorem model_pool_least_loaded_witness:
  "\<exists>p hs. fold mp_step [AddInstance ''m'' (1 :: nat), AcquireModel 5 ''m'', AcquireModel 6 ''m'',
      AddInstance ''m'' 2, AcquireModel 7 ''m''] (mp_new 1, []) = (p, hs) \<and>
     length hs = 3 \<and> mp_instance_count ''m'' p \<le> 1 \<and> fst (mp_acquire 9 ''m'' p) \<noteq> Waiting"
proof -
  let ?es = "[AddInstance ''m'' (1 :: nat), AcquireModel 5 ''m'', AcquireModel 6 ''m'',
      AddInstance ''m'' 2, AcquireModel 7 ''m'']"
  obtain p hs where run: "fold mp_step ?es (mp_new 1, []) = (p, hs)" by fastforce
  have "length hs = 3"
    using run by (auto simp: mp_new_def mp_add_instance_def mp_of_def mp_acquire_def Let_def
        mp_select_least_loaded_def)
  moreover have "mp_instance_count ''m'' p \<le> 1 \<and> fst (mp_acquire 9 ''m'' p) \<noteq> Waiting"
    using model_pool_least_loaded [OF run, where now = 9 and m = "''m''"] by (auto split: acquired.splits)
  ultimately show ?thesis using run by blast
qed

end
