(* ===== verification/WorkerPool.thy ===== *)
theory WorkerPool
  imports Floats
begin

text \<open>
  The worker pool (\<open>src/src/worker_pool.rs\<close>): workers with an atomic state, a bounded queue of the
  indices of idle workers, and the scaling, pausing and shutdown operations. A worker is shared
  by an \<open>Arc\<close>, so workers live in a store and the pool lists their addresses. The spawned
  loops are given by their bodies: one pass of the auto-scaler and of the health checker. Times
  are nanoseconds since the worker epoch.
\<close>

section \<open>Workers\<close>

datatype worker_state = Idle | Processing | Paused | Stopping | Stopped

fun ws_as_u8 :: "worker_state \<Rightarrow> u8" where
  "ws_as_u8 Idle = 0"
| "ws_as_u8 Processing = 1"
| "ws_as_u8 Paused = 2"
| "ws_as_u8 Stopping = 3"
| "ws_as_u8 Stopped = 4"

definition ws_from_u8 :: "u8 \<Rightarrow> worker_state" where
  "ws_from_u8 v =
     (if v = 0 then Idle else if v = 1 then Processing else if v = 2 then Paused
      else if v = 3 then Stopping else Stopped)"

lemma ws_from_as_u8 [simp]: "ws_from_u8 (ws_as_u8 s) = s"
  by (cases s) (simp_all add: ws_from_u8_def)

record worker =
  wk_id :: nat
  wk_state :: u8
  wk_tasks_processed :: u64
  wk_total_processing_time_ms :: u64
  wk_start_time :: nat
  wk_last_active :: u64

record worker_stats =
  wst_worker_id :: nat
  wst_state :: worker_state
  wst_tasks_processed :: u64
  wst_total_processing_time_ms :: u64
  wst_avg_processing_time_ms :: u64
  wst_last_active :: "nat option"
  wst_uptime_secs :: nat

definition wk_new :: "nat \<Rightarrow> nat \<Rightarrow> worker" where
  "wk_new now i =
     \<lparr>wk_id = i, wk_state = ws_as_u8 Idle, wk_tasks_processed = 0,
      wk_total_processing_time_ms = 0, wk_start_time = now, wk_last_active = 0\<rparr>"

definition wk_get_state :: "worker \<Rightarrow> worker_state" where
  "wk_get_state w = ws_from_u8 (wk_state w)"

definition wk_set_state :: "worker_state \<Rightarrow> worker \<Rightarrow> worker" where
  "wk_set_state s w = w\<lparr>wk_state := ws_as_u8 s\<rparr>"

definition wk_record_task :: "u64 \<Rightarrow> worker \<Rightarrow> worker" where
  "wk_record_task processing_time_ms w =
     w\<lparr>wk_tasks_processed := wk_tasks_processed w + 1,
       wk_total_processing_time_ms := wk_total_processing_time_ms w + processing_time_ms\<rparr>"

definition wk_update_last_active :: "nat \<Rightarrow> worker \<Rightarrow> worker" where
  "wk_update_last_active now w = w\<lparr>wk_last_active := max (word_of_nat now) 1\<rparr>"

definition wk_get_stats :: "nat \<Rightarrow> worker \<Rightarrow> worker_stats" where
  "wk_get_stats now w =
     (let tasks = wk_tasks_processed w;
          total_time = wk_total_processing_time_ms w
      in \<lparr>wst_worker_id = wk_id w, wst_state = wk_get_state w, wst_tasks_processed = tasks,
          wst_total_processing_time_ms = total_time,
          wst_avg_processing_time_ms = (if 0 < tasks then total_time div tasks else 0),
          wst_last_active = (if wk_last_active w = 0 then None else Some (unat (wk_last_active w))),
          wst_uptime_secs = (now - wk_start_time w) div 1000000000\<rparr>)"

section \<open>The pool\<close>

record worker_pool_config =
  min_workers :: nat
  max_workers :: nat
  scale_up_threshold :: nat
  scale_down_threshold :: nat
  worker_timeout_secs :: u64
  health_check_interval_secs :: u64
  enable_auto_scaling :: bool
  enable_zero_scaling :: bool

definition wp_default_config :: worker_pool_config where
  "wp_default_config =
     \<lparr>min_workers = 2, max_workers = 16, scale_up_threshold = 10, scale_down_threshold = 2,
      worker_timeout_secs = 300, health_check_interval_secs = 30, enable_auto_scaling = True,
      enable_zero_scaling = False\<rparr>"

text \<open>\<open>wp_store\<close> holds every worker ever made; \<open>wp_notified\<close> is the permit of \<open>scale_notify\<close>.\<close>

record worker_pool =
  wp_config :: worker_pool_config
  wp_workers :: "nat list"
  wp_total_tasks :: u64
  wp_failed_tasks :: u64
  wp_queue_size :: nat
  wp_shutdown :: bool
  wp_notified :: bool
  wp_idle_workers :: "nat list"
  wp_idle_capacity :: nat
  wp_active_count :: usize
  wp_store :: "worker list"

definition wp_new :: "worker_pool_config \<Rightarrow> worker_pool" where
  "wp_new c =
     \<lparr>wp_config = c, wp_workers = [], wp_total_tasks = 0, wp_failed_tasks = 0, wp_queue_size = 0,
      wp_shutdown = False, wp_notified = False, wp_idle_workers = [],
      wp_idle_capacity = max (max_workers c) 1, wp_active_count = 0, wp_store = []\<rparr>"

definition wp_at :: "worker_pool \<Rightarrow> nat \<Rightarrow> worker" where
  "wp_at p i = wp_store p ! (wp_workers p ! i)"

definition wp_update :: "nat \<Rightarrow> (worker \<Rightarrow> worker) \<Rightarrow> worker_pool \<Rightarrow> worker_pool" where
  "wp_update a f p = p\<lparr>wp_store := (wp_store p)[a := f (wp_store p ! a)]\<rparr>"

text \<open>The bounded idle queue: a push on a full queue is lost.\<close>

definition wp_idle_push :: "nat \<Rightarrow> worker_pool \<Rightarrow> worker_pool" where
  "wp_idle_push i p =
     (if length (wp_idle_workers p) < wp_idle_capacity p
      then p\<lparr>wp_idle_workers := wp_idle_workers p @ [i]\<rparr> else p)"

definition wp_idle_pop :: "worker_pool \<Rightarrow> nat option \<times> worker_pool" where
  "wp_idle_pop p =
     (case wp_idle_workers p of
        [] \<Rightarrow> (None, p)
      | i # rest \<Rightarrow> (Some i, p\<lparr>wp_idle_workers := rest\<rparr>))"

definition wp_min_limit :: "worker_pool_config \<Rightarrow> nat" where
  "wp_min_limit c = (if enable_zero_scaling c then 0 else min_workers c)"

definition wp_add_worker :: "nat \<Rightarrow> worker_pool \<Rightarrow> (string + unit) \<times> worker_pool" where
  "wp_add_worker now p =
     (let worker_id = length (wp_workers p)
      in if max_workers (wp_config p) \<le> worker_id then (Inl ''Maximum workers reached'', p)
         else (Inr (), wp_idle_push worker_id
                (p\<lparr>wp_workers := wp_workers p @ [length (wp_store p)],
                   wp_store := wp_store p @ [wk_new now worker_id]\<rparr>)))"

fun wp_add_workers :: "nat \<Rightarrow> nat \<Rightarrow> worker_pool \<Rightarrow> (string + unit) \<times> worker_pool" where
  "wp_add_workers now 0 p = (Inr (), p)"
| "wp_add_workers now (Suc n) p =
     (case wp_add_worker now p of
        (Inl e, p') \<Rightarrow> (Inl e, p')
      | (Inr _, p') \<Rightarrow> wp_add_workers now n p')"

definition wp_initialize :: "nat \<Rightarrow> worker_pool \<Rightarrow> (string + unit) \<times> worker_pool" where
  "wp_initialize now p =
     (let initial_workers = (if enable_zero_scaling (wp_config p) then 0 else min_workers (wp_config p))
      in wp_add_workers now initial_workers p)"

definition wp_reindex :: "nat \<Rightarrow> nat list \<Rightarrow> nat list" where
  "wp_reindex i ids = map (\<lambda>j. if i < j then j - 1 else j) (filter (\<lambda>j. j \<noteq> i) ids)"

definition wp_remove_idle_worker :: "worker_pool \<Rightarrow> (string + unit) \<times> worker_pool" where
  "wp_remove_idle_worker p =
     (if length (wp_workers p) \<le> wp_min_limit (wp_config p) then (Inl ''Minimum workers reached'', p)
      else
        let (candidate, p1) = wp_idle_pop p;
            scan = find (\<lambda>j. wk_get_state (wp_at p1 j) = Idle) (rev [0..<length (wp_workers p1)]);
            choice =
              (case candidate of
                 Some c \<Rightarrow>
                   if c < length (wp_workers p1) \<and> wk_get_state (wp_at p1 c) = Idle then Some c else scan
               | None \<Rightarrow> scan)
        in case choice of
             None \<Rightarrow> (Inl ''No idle workers to remove'', p1)
           | Some i \<Rightarrow>
               let p2 = wp_update (wp_workers p1 ! i) (wk_set_state Stopping) p1;
                   p3 = p2\<lparr>wp_workers := take i (wp_workers p2) @ drop (Suc i) (wp_workers p2)\<rparr>;
                   pending = wp_reindex i (wp_idle_workers p3)
               in (Inr (), fold wp_idle_push pending (p3\<lparr>wp_idle_workers := []\<rparr>)))"

text \<open>The worker acquired is its address.\<close>

definition wp_acquire_worker :: "nat \<Rightarrow> worker_pool \<Rightarrow> nat option \<times> worker_pool" where
  "wp_acquire_worker now p =
     (case wp_idle_pop p of
        (Some i, p1) \<Rightarrow>
          if i < length (wp_workers p1)
          then let a = wp_workers p1 ! i
               in (Some a, (wp_update a (wk_update_last_active now \<circ> wk_set_state Processing) p1)
                    \<lparr>wp_active_count := wp_active_count p1 + 1\<rparr>)
          else (None, p1)
      | (None, p1) \<Rightarrow> (None, p1))"

definition wp_release_worker :: "nat \<Rightarrow> nat \<Rightarrow> u64 \<Rightarrow> worker_pool \<Rightarrow> worker_pool" where
  "wp_release_worker now a processing_time_ms p =
     (let p1 = wp_update a
                 (wk_update_last_active now \<circ> wk_set_state Idle \<circ> wk_record_task processing_time_ms) p;
          p2 = wp_idle_push (wk_id (wp_store p1 ! a)) (p1\<lparr>wp_active_count := wp_active_count p1 - 1\<rparr>)
      in p2\<lparr>wp_total_tasks := wp_total_tasks p2 + 1\<rparr>)"

definition wp_record_failure :: "worker_pool \<Rightarrow> worker_pool" where
  "wp_record_failure p = p\<lparr>wp_failed_tasks := wp_failed_tasks p + 1\<rparr>"

definition wp_set_queue_size :: "nat \<Rightarrow> worker_pool \<Rightarrow> worker_pool" where
  "wp_set_queue_size n p =
     (let p1 = p\<lparr>wp_queue_size := n\<rparr>
      in if enable_auto_scaling (wp_config p) then p1\<lparr>wp_notified := True\<rparr> else p1)"

definition wp_worker_count :: "worker_pool \<Rightarrow> nat" where
  "wp_worker_count p = length (wp_workers p)"

definition wp_active_worker_count :: "worker_pool \<Rightarrow> usize" where
  "wp_active_worker_count p = wp_active_count p"

text \<open>One pass of the auto-scaler, after it was woken. The subtraction wraps, as a \<open>usize\<close> does.\<close>

definition wp_auto_scale :: "nat \<Rightarrow> worker_pool \<Rightarrow> worker_pool" where
  "wp_auto_scale now p =
     (let config = wp_config p;
          queue = wp_queue_size p;
          worker_count = length (wp_workers p);
          p1 = (if scale_up_threshold config < queue \<and> worker_count < max_workers config
                then snd (wp_add_worker now p) else p);
          min_limit = wp_min_limit config
      in if queue < scale_down_threshold config \<and> min_limit < worker_count \<and>
            1 < (word_of_nat worker_count - wp_active_worker_count p1 :: usize)
         then snd (wp_remove_idle_worker p1) else p1)"

text \<open>One pass of the health checker: the indices of the workers it reports as stuck.\<close>

definition wp_health_check :: "nat \<Rightarrow> worker_pool \<Rightarrow> nat list" where
  "wp_health_check now p =
     filter (\<lambda>idx.
       let stats = wk_get_stats now (wp_at p idx)
       in case wst_last_active stats of
            None \<Rightarrow> False
          | Some last_active \<Rightarrow>
              wst_state stats = Processing \<and>
              unat (worker_timeout_secs (wp_config p)) < (now - last_active) div 1000000000)
     [0..<length (wp_workers p)]"

record worker_pool_stats =
  wps_total_workers :: nat
  wps_active_workers :: nat
  wps_idle_workers :: nat
  wps_total_tasks :: u64
  wps_failed_tasks :: u64
  wps_success_rate :: real
  wps_queue_size :: nat
  wps_worker_stats :: "worker_stats list"

definition wp_get_stats :: "rnd \<Rightarrow> nat \<Rightarrow> worker_pool \<Rightarrow> worker_pool_stats" where
  "wp_get_stats fl now p =
     (let worker_stats = map (\<lambda>a. wk_get_stats now (wp_store p ! a)) (wp_workers p);
          active_count = length (filter (\<lambda>s. wst_state s = Processing) worker_stats);
          total_tasks = wp_total_tasks p;
          failed_tasks = wp_failed_tasks p
      in \<lparr>wps_total_workers = length (wp_workers p), wps_active_workers = active_count,
          wps_idle_workers = length (wp_workers p) - active_count,
          wps_total_tasks = total_tasks, wps_failed_tasks = failed_tasks,
          wps_success_rate =
            (if 0 < total_tasks
             then fl (fl (fl (real (unat (total_tasks - failed_tasks))) / fl (real (unat total_tasks))) * 100)
             else 100),
          wps_queue_size = wp_queue_size p, wps_worker_stats = worker_stats\<rparr>)"

definition wp_on_state :: "worker_state \<Rightarrow> worker_state \<Rightarrow> worker \<Rightarrow> worker" where
  "wp_on_state s s' w = (if wk_get_state w = s then wk_set_state s' w else w)"

definition wp_pause_all :: "worker_pool \<Rightarrow> worker_pool" where
  "wp_pause_all p = fold (\<lambda>a. wp_update a (wp_on_state Idle Paused)) (wp_workers p) p"

definition wp_resume_all :: "worker_pool \<Rightarrow> worker_pool" where
  "wp_resume_all p = fold (\<lambda>a. wp_update a (wp_on_state Paused Idle)) (wp_workers p) p"

definition wp_shutdown_all :: "worker_pool \<Rightarrow> worker_pool" where
  "wp_shutdown_all p =
     fold (\<lambda>a. wp_update a (wk_set_state Stopped)) (wp_workers p) (p\<lparr>wp_shutdown := True\<rparr>)"

section \<open>Runs\<close>

text \<open>The callers hold the addresses of the workers they acquired, in order.\<close>

datatype worker_call =
  AddWorker nat | AcquireWorker nat | ReleaseWorker nat nat u64 | Failed | QueueSize nat
| PauseAll | ResumeAll | ShutdownAll | AutoScale nat

fun wp_step :: "worker_call \<Rightarrow> worker_pool \<times> nat list \<Rightarrow> worker_pool \<times> nat list" where
  "wp_step (AddWorker now) (p, held) = (snd (wp_add_worker now p), held)"
| "wp_step (AcquireWorker now) (p, held) =
     (case wp_acquire_worker now p of
        (Some a, p') \<Rightarrow> (p', held @ [a])
      | (None, p') \<Rightarrow> (p', held))"
| "wp_step (ReleaseWorker now i ms) (p, held) =
     (if i < length held
      then (wp_release_worker now (held ! i) ms p, take i held @ drop (Suc i) held)
      else (p, held))"
| "wp_step Failed (p, held) = (wp_record_failure p, held)"
| "wp_step (QueueSize n) (p, held) = (wp_set_queue_size n p, held)"
| "wp_step PauseAll (p, held) = (wp_pause_all p, held)"
| "wp_step ResumeAll (p, held) = (wp_resume_all p, held)"
| "wp_step ShutdownAll (p, held) = (wp_shutdown_all p, held)"
| "wp_step (AutoScale now) (p, held) = (wp_auto_scale now p, held)"

text \<open>
  While no worker is removed, a worker's address, index and id agree, and every worker is idle in
  the queue or held by one caller.
\<close>

definition wp_inv :: "worker_pool \<times> nat list \<Rightarrow> bool" where
  "wp_inv s \<longleftrightarrow> (case s of (p, held) \<Rightarrow>
     wp_workers p = [0..<length (wp_store p)] \<and> map wk_id (wp_store p) = [0..<length (wp_store p)] \<and>
     mset (wp_idle_workers p @ held) = mset [0..<length (wp_store p)] \<and>
     length (wp_store p) \<le> max_workers (wp_config p) \<and>
     wp_idle_capacity p = max (max_workers (wp_config p)) 1 \<and>
     wp_active_count p = word_of_nat (length held))"

definition keeps_id :: "(worker \<Rightarrow> worker) \<Rightarrow> bool" where
  "keeps_id f \<longleftrightarrow> (\<forall>w. wk_id (f w) = wk_id w)"

lemma keeps_id_simps [simp]:
  "keeps_id (wk_set_state s)" "keeps_id (wk_update_last_active now)" "keeps_id (wk_record_task ms)"
  "keeps_id (wp_on_state s s')" "keeps_id f \<Longrightarrow> keeps_id g \<Longrightarrow> keeps_id (f \<circ> g)"
  by (simp_all add: keeps_id_def wk_set_state_def wk_update_last_active_def wk_record_task_def
      wp_on_state_def)

lemma map_update_same: "keeps_id f \<Longrightarrow> map wk_id (xs[a := f (xs ! a)]) = map wk_id xs"
  by (cases "a < length xs")
     (simp_all add: keeps_id_def map_update list_update_same_conv list_update_beyond)

lemma wp_update_simps [simp]:
  "wp_workers (wp_update a f p) = wp_workers p" "wp_idle_workers (wp_update a f p) = wp_idle_workers p"
  "length (wp_store (wp_update a f p)) = length (wp_store p)"
  "wp_config (wp_update a f p) = wp_config p" "wp_idle_capacity (wp_update a f p) = wp_idle_capacity p"
  "wp_active_count (wp_update a f p) = wp_active_count p"
  "keeps_id f \<Longrightarrow> map wk_id (wp_store (wp_update a f p)) = map wk_id (wp_store p)"
  by (simp_all add: wp_update_def map_update_same)

lemma wp_inv_update [inv_intros]: "wp_inv (p, held) \<Longrightarrow> keeps_id f \<Longrightarrow> wp_inv (wp_update a f p, held)"
  by (simp add: wp_inv_def)

lemma wp_inv_update_all [inv_intros]:
  "wp_inv (p, held) \<Longrightarrow> keeps_id f \<Longrightarrow> wp_inv (fold (\<lambda>a. wp_update a f) as p, held)"
  by (induction as arbitrary: p) (simp_all add: wp_inv_update)

lemma wp_inv_idle:
  assumes "wp_inv (p, held)"
  shows "distinct (wp_idle_workers p @ held)" "set (wp_idle_workers p @ held) = {..<length (wp_store p)}"
    "length (wp_idle_workers p) + length held = length (wp_store p)"
proof -
  have m: "mset (wp_idle_workers p @ held) = mset [0..<length (wp_store p)]"
    using assms by (simp add: wp_inv_def)
  show "distinct (wp_idle_workers p @ held)"
    using mset_eq_imp_distinct_iff [OF m] by simp
  show "set (wp_idle_workers p @ held) = {..<length (wp_store p)}"
    using mset_eq_setD [OF m] by (simp add: atLeast0LessThan)
  show "length (wp_idle_workers p) + length held = length (wp_store p)"
    using mset_eq_length [OF m] by simp
qed

lemma wp_inv_init [inv_intros]: "wp_inv (wp_new c, [])"
  by (simp add: wp_inv_def wp_new_def)

lemma wp_inv_add [inv_intros]:
  assumes "wp_inv (p, held)"
  shows "wp_inv (snd (wp_add_worker now p), held)"
  using assms wp_inv_idle(3) [OF assms]
  by (auto simp: wp_inv_def wp_add_worker_def wp_idle_push_def Let_def wk_new_def simp del: mset_upt)

lemma wp_acquire_result:
  assumes "wp_inv (p, held)"
  shows "case wp_acquire_worker now p of
      (Some a, p') \<Rightarrow> a \<notin> set held \<and> a < length (wp_store p) \<and> wp_inv (p', held @ [a]) \<and>
        wk_get_state (wp_store p' ! a) = Processing
    | (None, p') \<Rightarrow> p' = p \<and> length held = length (wp_workers p)"
proof (cases "wp_idle_workers p")
  case Nil
  then show ?thesis using assms wp_inv_idle(3) [OF assms]
    by (simp add: wp_acquire_worker_def wp_idle_pop_def wp_inv_def)
next
  case (Cons i rest)
  have i: "i < length (wp_store p)" "i \<notin> set held"
    using wp_inv_idle(1,2) [OF assms] Cons by auto
  have w: "wp_workers p = [0..<length (wp_store p)]" using assms by (simp add: wp_inv_def)
  let ?f = "wk_update_last_active now \<circ> wk_set_state Processing"
  let ?p1 = "p\<lparr>wp_idle_workers := rest\<rparr>"
  let ?p = "(wp_update i ?f ?p1)\<lparr>wp_active_count := wp_active_count ?p1 + 1\<rparr>"
  have "wp_acquire_worker now p = (Some i, ?p)"
    using i w Cons by (simp add: wp_acquire_worker_def wp_idle_pop_def Let_def)
  moreover have "wp_inv (?p, held @ [i])"
    using assms Cons by (simp add: wp_inv_def del: mset_upt)
  moreover have "wk_get_state (wp_store ?p ! i) = Processing"
    using i by (simp add: wp_update_def wk_get_state_def wk_update_last_active_def wk_set_state_def
        ws_from_u8_def)
  ultimately show ?thesis using i by simp
qed

lemma wp_inv_release [inv_intros]:
  assumes "wp_inv (p, held)" "i < length held"
  shows "wp_inv (wp_release_worker now (held ! i) ms p, take i held @ drop (Suc i) held)"
proof -
  let ?a = "held ! i"
  let ?f = "wk_update_last_active now \<circ> wk_set_state Idle \<circ> wk_record_task ms"
  define held' where "held' = take i held @ drop (Suc i) held"
  have m: "mset held = add_mset ?a (mset held')"
    using mset_take_nth_drop [OF assms(2)] by (simp add: held'_def)
  then have len: "length held = Suc (length held')" by (metis size_add_mset size_mset)
  have "?a \<in> set (wp_idle_workers p @ held)" using assms(2) by simp
  then have a: "?a < length (wp_store p)" unfolding wp_inv_idle(2) [OF assms(1)] by simp
  have "wk_id (wp_store p ! ?a) = ?a"
    using assms(1) a nth_map [of ?a "wp_store p" wk_id] by (simp add: wp_inv_def)
  then have i: "wk_id (wp_store (wp_update ?a ?f p) ! ?a) = ?a"
    using a by (simp add: wp_update_def wk_set_state_def wk_update_last_active_def wk_record_task_def)
  have room: "length (wp_idle_workers p) < max_workers (wp_config p)"
    using wp_inv_idle(3) [OF assms(1)] len assms(1) by (simp add: wp_inv_def)
  show ?thesis
    using assms(1) m len i room unfolding held'_def [symmetric]
    by (simp add: wp_inv_def wp_release_worker_def wp_idle_push_def Let_def del: mset_upt)
qed

lemma wp_inv_same [inv_intros]:
  "wp_inv (p, held) \<Longrightarrow> wp_inv (wp_record_failure p, held)"
  "wp_inv (p, held) \<Longrightarrow> wp_inv (wp_set_queue_size n p, held)"
  "wp_inv (p, held) \<Longrightarrow> wp_inv (p\<lparr>wp_shutdown := b\<rparr>, held)"
  by (simp_all add: wp_inv_def wp_record_failure_def wp_set_queue_size_def Let_def)

lemma wp_inv_step:
  assumes "wp_inv s" "\<And>now. e \<noteq> AutoScale now"
  shows "wp_inv (wp_step e s)"
proof -
  obtain p held where s: "s = (p, held)" by fastforce
  note inv = assms(1) [unfolded s]
  show ?thesis
  proof (cases e)
    case (AcquireWorker now)
    then show ?thesis using wp_acquire_result [OF inv, of now] inv
      by (auto simp: s split: prod.splits option.splits)
  qed (use inv assms(2) in \<open>auto simp: s wp_pause_all_def wp_resume_all_def wp_shutdown_all_def
         intro: inv_intros\<close>)
qed

lemma wp_inv_run:
  "wp_inv s \<Longrightarrow> \<forall>now. AutoScale now \<notin> set es \<Longrightarrow> wp_inv (fold wp_step es s)"
proof (induction es arbitrary: s)
  case Nil
  then show ?case by simp
next
  case (Cons e es)
  have "wp_inv (wp_step e s)" by (rule wp_inv_step) (use Cons.prems in auto)
  with Cons show ?case by simp
qed

section \<open>Properties\<close>

text \<open>
  C9. As long as no worker is removed (no pass of the auto-scaler), after every run of additions,
  acquisitions, releases, failures, pauses, resumptions and shutdowns an acquired worker is held
  by nobody else, an acquisition fails only when every worker is held, no worker is lost, and
  the active count is the number of workers held.
\<close>

theorem workers_exclusive:
  assumes "fold wp_step es (wp_new c, []) = (p, held)" "\<forall>now. AutoScale now \<notin> set es"
  shows "(case fst (wp_acquire_worker now p) of
      Some a \<Rightarrow> a \<notin> set held
    | None \<Rightarrow> length held = wp_worker_count p) \<and>
    distinct held \<and> length (wp_idle_workers p) + length held = wp_worker_count p \<and>
    wp_active_worker_count p = word_of_nat (length held) \<and> wp_worker_count p \<le> max_workers (wp_config p)"
proof -
  have inv: "wp_inv (p, held)" using wp_inv_run [OF wp_inv_init assms(2), of c] assms(1) by simp
  show ?thesis
    using wp_acquire_result [OF inv, of now] wp_inv_idle [OF inv] inv
    by (auto simp: wp_inv_def wp_worker_count_def wp_active_worker_count_def split: prod.splits option.splits)
qed

abbreviation pool_config :: worker_pool_config where
  "pool_config \<equiv> wp_default_config"

theorem workers_exclusive_witness:
  "\<exists>p held. fold wp_step [AddWorker 0, AddWorker 0, AcquireWorker 1, PauseAll, AcquireWorker 2,
      ReleaseWorker 3 0 7, AcquireWorker 4] (wp_new pool_config, []) = (p, held) \<and> distinct held \<and>
     length held = 2 \<and> fst (wp_acquire_worker 5 p) = None"
proof -
  let ?es = "[AddWorker 0, AddWorker 0, AcquireWorker 1, PauseAll, AcquireWorker 2,
      ReleaseWorker 3 0 7, AcquireWorker 4]"
  obtain p held where run: "fold wp_step ?es (wp_new pool_config, []) = (p, held)" by fastforce
  have "length held = 2 \<and> fst (wp_acquire_worker 5 p) = None"
    using run by (auto simp: wp_new_def wp_default_config_def wp_add_worker_def wp_idle_push_def
        wp_acquire_worker_def wp_idle_pop_def wp_release_worker_def wp_pause_all_def wp_update_def
        wp_on_state_def wk_set_state_def wk_update_last_active_def wk_record_task_def wk_new_def
        wk_get_state_def Let_def ws_from_u8_def)
  with run workers_exclusive [OF run] show ?thesis by auto
qed

text \<open>
  Once the auto-scaler removes a worker, the ids of the workers behind it no longer are their
  indices: with the default configuration, growing to three workers under load and shrinking to
  two hands one worker to two callers at once.
\<close>

theorem worker_removal_shares_worker:
  "\<exists>p held. fold wp_step [QueueSize 20, AutoScale 1, QueueSize 0, AutoScale 2, AcquireWorker 3,
      AcquireWorker 4, ReleaseWorker 5 0 1, AcquireWorker 6]
      (snd (wp_initialize 0 (wp_new pool_config)), []) = (p, held) \<and> held = [2, 2]"
  by (simp add: wp_new_def wp_default_config_def wp_add_worker_def wp_idle_push_def
        wp_acquire_worker_def wp_idle_pop_def wp_release_worker_def wp_update_def
        wk_set_state_def wk_update_last_active_def wk_record_task_def wk_new_def
        wk_get_state_def Let_def wp_initialize_def wp_auto_scale_def wp_set_queue_size_def
        wp_remove_idle_worker_def wp_min_limit_def wp_at_def wp_reindex_def
        wp_active_worker_count_def ws_from_u8_def eval_nat_numeral)
     (simp add: word_less_nat_alt)

end
