(* ===== verification/RateLimit.thy ===== *)
theory RateLimit
  imports Prelude
begin

text \<open>
  The fixed-window rate limiter (\<open>src/src/middleware/rate_limit.rs\<close>). The map of request counts
  is a map from client keys to a count and the second its window began; \<open>now\<close> is the reading of
  the coarse clock.
\<close>

record rate_limit_error =
  rle_message :: string
  rle_retry_after :: u64

record rate_limiter =
  rl_request_counts :: "string \<Rightarrow> (u64 \<times> u64) option"
  rl_max_requests :: u64
  rl_window_seconds :: u64

definition rl_new :: "u64 \<Rightarrow> u64 \<Rightarrow> rate_limiter" where
  "rl_new max_requests window_seconds =
     \<lparr>rl_request_counts = Map.empty, rl_max_requests = max_requests,
      rl_window_seconds = window_seconds\<rparr>"

definition rl_default :: rate_limiter where
  "rl_default = rl_new 100 60"

definition rl_is_allowed ::
  "u64 \<Rightarrow> string \<Rightarrow> rate_limiter \<Rightarrow> (rate_limit_error + unit) \<times> rate_limiter" where
  "rl_is_allowed now key l =
     (case rl_request_counts l key of
        Some (cnt, timestamp) \<Rightarrow>
          if rl_window_seconds l < now - timestamp
          then (Inr (), l\<lparr>rl_request_counts := (rl_request_counts l)(key \<mapsto> (1, now))\<rparr>)
          else if cnt < rl_max_requests l
          then (Inr (), l\<lparr>rl_request_counts := (rl_request_counts l)(key \<mapsto> (cnt + 1, timestamp))\<rparr>)
          else (Inl \<lparr>rle_message = ''Rate limit exceeded'',
                  rle_retry_after = rl_window_seconds l - (now - timestamp)\<rparr>, l)
      | None \<Rightarrow>
          if 0 < rl_max_requests l
          then (Inr (), l\<lparr>rl_request_counts := (rl_request_counts l)(key \<mapsto> (1, now))\<rparr>)
          else (Inl \<lparr>rle_message = ''Rate limit exceeded'',
                  rle_retry_after = rl_window_seconds l\<rparr>, l))"

definition rl_cleanup_old_entries :: "u64 \<Rightarrow> rate_limiter \<Rightarrow> rate_limiter" where
  "rl_cleanup_old_entries now l =
     l\<lparr>rl_request_counts := (\<lambda>key. case rl_request_counts l key of
          Some (cnt, timestamp) \<Rightarrow>
            if now - timestamp < rl_window_seconds l * 2 then Some (cnt, timestamp) else None
        | None \<Rightarrow> None)\<rparr>"

section \<open>Runs\<close>

text \<open>Requests of any clients and cleanups; the run lists the seconds at which \<open>key\<close> was let in.\<close>

datatype rl_event = Request u64 string | Cleanup u64

fun event_time :: "rl_event \<Rightarrow> nat" where
  "event_time (Request now key) = unat now"
| "event_time (Cleanup now) = unat now"

fun admitted :: "string \<Rightarrow> rate_limiter \<Rightarrow> rl_event list \<Rightarrow> nat list" where
  "admitted key l [] = []"
| "admitted key l (Cleanup now # es) = admitted key (rl_cleanup_old_entries now l) es"
| "admitted key l (Request now k # es) =
     (let (r, l') = rl_is_allowed now k l
      in (if k = key \<and> r = Inr () then [unat now] else []) @ admitted key l' es)"

text \<open>
  The admissions of a key fall into windows: each is a list of seconds, the last the second it
  began (newest first), with at most \<open>n\<close> admissions in at most \<open>W\<close> seconds, and each begins more
  than \<open>W\<close> seconds after the one before.
\<close>

fun windows :: "nat \<Rightarrow> nat \<Rightarrow> nat list list \<Rightarrow> bool" where
  "windows W n [] = True"
| "windows W n (s # ss) =
     (s \<noteq> [] \<and> length s \<le> n \<and> (\<forall>x \<in> set s. last s \<le> x \<and> x \<le> last s + W) \<and>
      (ss = [] \<or> last (hd ss) + W < last s) \<and> windows W n ss)"

lemma windows_before: "windows W n (s # ss) \<Longrightarrow> \<forall>x \<in> set (concat ss). x < last s"
proof (induction ss arbitrary: s)
  case Nil
  then show ?case by simp
next
  case (Cons r rs)
  have "\<forall>x \<in> set (concat rs). x < last r" using Cons.IH [of r] Cons.prems by simp
  moreover have "last r + W < last s" "\<forall>x \<in> set r. x \<le> last r + W" using Cons.prems by simp_all
  ultimately show ?case by fastforce
qed

text \<open>An interval of \<open>W\<close> seconds meets at most two windows.\<close>

lemma windows_bound:
  "windows W n ss \<Longrightarrow> length (filter (\<lambda>x. t \<le> x \<and> x \<le> t + W) (concat ss)) \<le> 2 * n"
proof (induction ss)
  case Nil
  then show ?case by simp
next
  case (Cons s ss)
  let ?P = "\<lambda>x. t \<le> x \<and> x \<le> t + W"
  show ?case
  proof (cases "\<exists>x \<in> set s. ?P x")
    case False
    then have "filter ?P s = []" by (auto simp: filter_empty_conv)
    with Cons show ?thesis by simp
  next
    case True
    then obtain x where x: "x \<in> set s" "x \<le> t + W" by blast
    then have start: "last s \<le> t + W" using Cons.prems by fastforce
    show ?thesis
    proof (cases ss)
      case Nil
      have "length (filter ?P s) \<le> n"
        by (rule order_trans [OF length_filter_le]) (use Cons.prems in simp)
      with Nil show ?thesis by simp
    next
      case (Cons r rs)
      then have sr: "windows W n (r # rs)" "length s \<le> n" "last r + W < last s"
        using \<open>windows W n (s # ss)\<close> by simp_all
      have "\<forall>y \<in> set (concat rs). y < last r" using sr(1) by (rule windows_before)
      then have "filter ?P (concat rs) = []"
        using start sr(3) by (auto simp: filter_empty_conv) fastforce
      moreover have "length (filter ?P s) \<le> n" "length (filter ?P r) \<le> n"
        by (rule order_trans [OF length_filter_le]; use sr in simp)+
      ultimately show ?thesis using Cons by simp
    qed
  qed
qed

definition rl_inv :: "string \<Rightarrow> rate_limiter \<Rightarrow> nat \<Rightarrow> nat list list \<Rightarrow> bool" where
  "rl_inv key l t ss \<longleftrightarrow>
     windows (unat (rl_window_seconds l)) (unat (rl_max_requests l)) ss \<and>
     (case rl_request_counts l key of
        Some (cnt, timestamp) \<Rightarrow>
          ss \<noteq> [] \<and> unat cnt = length (hd ss) \<and> unat timestamp = last (hd ss) \<and> unat timestamp \<le> t
      | None \<Rightarrow> ss = [] \<or> last (hd ss) + unat (rl_window_seconds l) < t)"

lemma unat_minus: "unat b \<le> unat a \<Longrightarrow> unat (a - b) = unat a - unat b"
  by (simp add: unat_sub_if')

lemma rl_inv_later:
  "rl_inv key l t ss \<Longrightarrow> t \<le> t' \<Longrightarrow> rl_inv key l t' ss"
  by (auto simp: rl_inv_def split: option.splits)

lemma rl_inv_request:
  assumes "rl_inv key l t ss" "t \<le> unat now" "rl_is_allowed now k l = (r, l')"
  shows "\<exists>ss'. rl_inv key l' (unat now) ss' \<and>
    rev (concat ss') = rev (concat ss) @ (if k = key \<and> r = Inr () then [unat now] else [])"
proof -
  let ?W = "unat (rl_window_seconds l)" and ?n = "unat (rl_max_requests l)"
  have win: "windows ?W ?n ss" using assms(1) by (simp add: rl_inv_def)
  have same: "rl_window_seconds l' = rl_window_seconds l" "rl_max_requests l' = rl_max_requests l"
    "k \<noteq> key \<Longrightarrow> rl_request_counts l' key = rl_request_counts l key"
    using assms(3) by (auto simp: rl_is_allowed_def split: option.splits if_splits)
  show ?thesis
  proof (cases "k = key")
    case False
    then have "rl_inv key l' (unat now) ss"
      using rl_inv_later [OF assms(1,2)] same by (auto simp: rl_inv_def split: option.splits)
    with False show ?thesis by auto
  next
    case True
    have fresh: "\<exists>ss'. rl_inv key l' (unat now) ss' \<and> rev (concat ss') = rev (concat ss) @ [unat now]"
      if "ss = [] \<or> last (hd ss) + ?W < unat now" "0 < ?n"
        "l' = l\<lparr>rl_request_counts := (rl_request_counts l)(key \<mapsto> (1, now))\<rparr>"
      by (rule exI [of _ "[unat now] # ss"]) (use that win in \<open>simp add: rl_inv_def Suc_le_eq\<close>)
    show ?thesis
    proof (cases "rl_request_counts l key")
      case None
      show ?thesis
      proof (cases "0 < rl_max_requests l")
        case pos: True
        then have "r = Inr ()" "l' = l\<lparr>rl_request_counts := (rl_request_counts l)(key \<mapsto> (1, now))\<rparr>"
          using assms(3) None True by (auto simp: rl_is_allowed_def)
        moreover have "ss = [] \<or> last (hd ss) + ?W < unat now"
          using assms(1,2) None by (auto simp: rl_inv_def)
        moreover have "0 < ?n" using pos by (simp add: word_less_nat_alt)
        ultimately show ?thesis using fresh True by simp
      next
        case False
        then have "r \<noteq> Inr ()" "l' = l" using assms(3) None True by (auto simp: rl_is_allowed_def)
        with rl_inv_later [OF assms(1,2)] show ?thesis by auto
      qed
    next
      case (Some e)
      obtain c ts where e: "rl_request_counts l key = Some (c, ts)" using Some by (cases e) simp
      then have inv: "ss \<noteq> []" "unat c = length (hd ss)" "unat ts = last (hd ss)" "unat ts \<le> t"
        using assms(1) by (simp_all add: rl_inv_def)
      have age: "unat (now - ts) = unat now - unat ts" using inv(4) assms(2) by (intro unat_minus) simp
      obtain s rs where ss: "ss = s # rs" using inv(1) by (cases ss) auto
      show ?thesis
      proof (cases "rl_window_seconds l < now - ts")
        case late: True
        then have "r = Inr ()" "l' = l\<lparr>rl_request_counts := (rl_request_counts l)(key \<mapsto> (1, now))\<rparr>"
          using assms(3) e True by (auto simp: rl_is_allowed_def)
        moreover have "last (hd ss) + ?W < unat now"
          using late age inv(3) by (simp add: word_less_nat_alt)
        moreover have "0 < ?n" using win ss by (cases s) simp_all
        ultimately show ?thesis using fresh True by simp
      next
        case early: False
        then have near: "unat now \<le> last s + ?W"
          using age inv(3,4) ss by (simp add: word_less_nat_alt not_less)
        show ?thesis
        proof (cases "c < rl_max_requests l")
          case room: True
          then have r: "r = Inr ()"
            "l' = l\<lparr>rl_request_counts := (rl_request_counts l)(key \<mapsto> (c + 1, ts))\<rparr>"
            using assms(3) e True early by (auto simp: rl_is_allowed_def)
          have "unat (c + 1) = Suc (length s)" using unat_inc_less [OF room] inv(2) ss by simp
          moreover have "Suc (length s) \<le> ?n" using room inv(2) ss by (simp add: word_less_nat_alt)
          moreover have "last s \<le> unat now" using inv(3,4) assms(2) ss by simp
          moreover have "s \<noteq> []" using win ss by simp
          ultimately have "rl_inv key l' (unat now) ((unat now # s) # rs)"
            using r inv(3) ss win near by (simp add: rl_inv_def)
          moreover have "rev (concat ((unat now # s) # rs)) = rev (concat ss) @ [unat now]"
            using ss by simp
          ultimately show ?thesis using r(1) True by auto
        next
          case False
          then have "r \<noteq> Inr ()" "l' = l" using assms(3) e True early by (auto simp: rl_is_allowed_def)
          with rl_inv_later [OF assms(1,2)] show ?thesis by auto
        qed
      qed
    qed
  qed
qed

lemma rl_inv_cleanup:
  assumes "rl_inv key l t ss" "t \<le> unat now" "0 < rl_window_seconds l" "unat (rl_window_seconds l) < 2 ^ 63"
  shows "rl_inv key (rl_cleanup_old_entries now l) (unat now) ss"
proof (cases "rl_request_counts l key")
  case None
  then show ?thesis using rl_inv_later [OF assms(1,2)]
    by (simp add: rl_inv_def rl_cleanup_old_entries_def)
next
  case (Some e)
  obtain c ts where e: "rl_request_counts l key = Some (c, ts)" using Some by (cases e) simp
  then have inv: "unat ts = last (hd ss)" "unat ts \<le> t" using assms(1) by (simp_all add: rl_inv_def)
  have age: "unat (now - ts) = unat now - unat ts" using inv(2) assms(2) by (intro unat_minus) simp
  have W: "unat (rl_window_seconds l * 2) = 2 * unat (rl_window_seconds l)"
    using assms(4) by (simp add: unat_word_ariths mult.commute)
  have pos: "0 < unat (rl_window_seconds l)" using assms(3) by (simp add: word_less_nat_alt)
  show ?thesis
  proof (cases "now - ts < rl_window_seconds l * 2")
    case True
    then show ?thesis using rl_inv_later [OF assms(1,2)] e
      by (simp add: rl_inv_def rl_cleanup_old_entries_def)
  next
    case False
    then have "unat ts + unat (rl_window_seconds l) < unat now"
      using age W pos by (simp add: word_less_nat_alt)
    then show ?thesis using assms(1) e False inv(1)
      by (simp add: rl_inv_def rl_cleanup_old_entries_def)
  qed
qed

lemma rl_run_inv:
  assumes "rl_inv key l t ss" "\<forall>e \<in> set es. t \<le> event_time e" "sorted (map event_time es)"
    and "0 < rl_window_seconds l" "unat (rl_window_seconds l) < 2 ^ 63"
  shows "\<exists>ss'. windows (unat (rl_window_seconds l)) (unat (rl_max_requests l)) ss' \<and>
    rev (concat ss') = rev (concat ss) @ admitted key l es"
  using assms
proof (induction es arbitrary: l t ss)
  case Nil
  then show ?case by (auto simp: rl_inv_def)
next
  case (Cons e es)
  show ?case
  proof (cases e)
    case (Cleanup now)
    then have "rl_inv key (rl_cleanup_old_entries now l) (unat now) ss"
      using Cons.prems by (intro rl_inv_cleanup [of key l t]) simp_all
    from Cons.IH [OF this] Cons.prems Cleanup show ?thesis
      by (simp add: rl_cleanup_old_entries_def)
  next
    case (Request now k)
    obtain r l' where step: "rl_is_allowed now k l = (r, l')" by fastforce
    have same: "rl_window_seconds l' = rl_window_seconds l" "rl_max_requests l' = rl_max_requests l"
      using step by (auto simp: rl_is_allowed_def split: option.splits if_splits)
    obtain ss1 where ss1: "rl_inv key l' (unat now) ss1"
      "rev (concat ss1) = rev (concat ss) @ (if k = key \<and> r = Inr () then [unat now] else [])"
      using rl_inv_request [OF Cons.prems(1) _ step] Cons.prems(2) Request by auto
    from Cons.IH [OF ss1(1)] Cons.prems Request same
    obtain ss2 where "windows (unat (rl_window_seconds l)) (unat (rl_max_requests l)) ss2"
      "rev (concat ss2) = rev (concat ss1) @ admitted key l' es" by auto
    then show ?thesis using ss1(2) Request step by (auto simp: Let_def)
  qed
qed

section \<open>Properties\<close>



text \<open>
  With a clock that does not go back since the window began, a refusal tells the client to
  wait at most the window; a retry exactly that much later is still refused, one second after
  that it is let in.
\<close>

theorem rate_limit_retry_after:
  assumes "rl_request_counts l key = Some (c, timestamp)" "timestamp \<le> now"
    and "rl_is_allowed now key l = (Inl e, l')" "unat now + unat (rl_window_seconds l) + 1 < 2 ^ 64"
  shows "rle_retry_after e \<le> rl_window_seconds l \<and> l' = l \<and>
    fst (rl_is_allowed (now + rle_retry_after e) key l) \<noteq> Inr () \<and>
    fst (rl_is_allowed (now + rle_retry_after e + 1) key l) = Inr ()"
proof -
  have le: "unat timestamp \<le> unat now" using assms(2) by (simp add: word_le_nat_alt)
  have age: "unat (now - timestamp) = unat now - unat timestamp" using le by (rule unat_minus)
  have r: "\<not> rl_window_seconds l < now - timestamp" "\<not> c < rl_max_requests l"
    "rle_retry_after e = rl_window_seconds l - (now - timestamp)" "l' = l"
    using assms(1,3) by (auto simp: rl_is_allowed_def split: if_splits)
  then have early: "unat now - unat timestamp \<le> unat (rl_window_seconds l)"
    using age by (simp add: word_less_nat_alt)
  then have ra: "unat (rle_retry_after e) = unat (rl_window_seconds l) - (unat now - unat timestamp)"
    using r(3) age by (simp add: unat_minus)
  have "unat (now + rle_retry_after e) = unat now + unat (rle_retry_after e)"
    using assms(4) ra by (intro unat_add_lem [THEN iffD1]) simp
  moreover have "unat (now + rle_retry_after e + 1) = unat (now + rle_retry_after e) + 1"
    using assms(4) ra calculation by (intro unat_inc) simp
  ultimately have "unat (now + rle_retry_after e - timestamp) = unat (rl_window_seconds l)"
    "unat (now + rle_retry_after e + 1 - timestamp) = unat (rl_window_seconds l) + 1"
    using ra early le by (subst unat_minus; simp)+
  then have "\<not> rl_window_seconds l < now + rle_retry_after e - timestamp"
    "rl_window_seconds l < now + rle_retry_after e + 1 - timestamp"
    by (simp_all add: word_less_nat_alt)
  then show ?thesis
    using assms(1) r ra by (simp add: rl_is_allowed_def word_le_nat_alt)
qed

theorem rate_limit_retry_after_witness:
  "let l = snd (rl_is_allowed 100 ''a'' (rl_new 1 5)); (r, _) = rl_is_allowed 102 ''a'' l
   in case r of
        Inl e \<Rightarrow> rle_retry_after e = 3 \<and> fst (rl_is_allowed 105 ''a'' l) \<noteq> Inr () \<and>
          fst (rl_is_allowed 106 ''a'' l) = Inr ()
      | Inr _ \<Rightarrow> False"
proof -
  let ?l = "snd (rl_is_allowed 100 ''a'' (rl_new 1 5))"
  let ?e = "\<lparr>rle_message = ''Rate limit exceeded'', rle_retry_after = 3\<rparr>"
  have e: "rl_request_counts ?l ''a'' = Some (1, 100)" "rl_window_seconds ?l = 5"
    and r: "rl_is_allowed 102 ''a'' ?l = (Inl ?e, ?l)"
    by (simp_all add: rl_is_allowed_def rl_new_def)
  from rate_limit_retry_after [OF e(1) _ r] e(2) r show ?thesis by (simp add: Let_def)
qed

end
