(* ===== verification/Gate.thy ===== *)
theory Gate
  imports RateLimit Text Json "HOL-Library.AList"
begin

text \<open>
  The request gate: security headers and the JWT check (\<open>src/src/middleware/security.rs\<close>), the
  JWT handler and the user store (\<open>src/src/auth/mod.rs\<close>), the per-client limit
  (\<open>src/src/middleware/rate_limit.rs\<close>), and their order in \<open>src/src/main.rs\<close>. A service takes a
  request and a world to a result and a new world; the rate limiter is part of the world. What
  actix, \<open>jsonwebtoken\<close> and \<open>bcrypt\<close> decide is an argument.
\<close>

section \<open>Requests, responses, services\<close>

record request =
  rq_path :: string
  rq_method :: string
  rq_headers :: "(string \<times> string) list"

record 'b response =
  rs_status :: nat
  rs_headers :: "(string \<times> string) list"
  rs_body :: 'b

type_synonym ('b, 'e, 'w) service = "request \<Rightarrow> 'w \<Rightarrow> ('e + 'b response) \<times> 'w"

text \<open>An \<open>EitherBody\<close>: the service's own body, or a JSON object of the middleware.\<close>

type_synonym 'b either_body = "'b + nat json"

definition left_body :: "('e + 'b response) \<Rightarrow> ('e + 'b either_body response)" where
  "left_body r = (case r of
     Inl e \<Rightarrow> Inl e
   | Inr x \<Rightarrow> Inr \<lparr>rs_status = rs_status x, rs_headers = rs_headers x, rs_body = Inl (rs_body x)\<rparr>)"

section \<open>JWT\<close>

text \<open>
  Only the choice of the algorithm and the lifetime of a token are the program's; \<open>encode\<close> and
  \<open>decode\<close> are arguments, which take the secret, the algorithm and the claims or the token.
\<close>

datatype jwt_algorithm = HS256 | HS384 | HS512

record claims =
  cl_sub :: string
  cl_exp :: int
  cl_iat :: int
  cl_username :: string

record jwt_handler =
  jwt_secret :: string
  jwt_alg :: jwt_algorithm
  jwt_access_token_ttl :: int

definition jwt_with_options :: "string \<Rightarrow> string \<Rightarrow> u32 \<Rightarrow> jwt_handler" where
  "jwt_with_options secret algorithm access_token_expire_minutes =
     (let name = to_ascii_uppercase algorithm;
          alg = (if name = ''HS256'' then HS256 else if name = ''HS384'' then HS384
                 else if name = ''HS512'' then HS512 else HS256);
          ttl_minutes = (if access_token_expire_minutes = 0 then 60 else access_token_expire_minutes)
      in \<lparr>jwt_secret = secret, jwt_alg = alg, jwt_access_token_ttl = int (unat ttl_minutes) * 60\<rparr>)"

definition jwt_new :: "string \<Rightarrow> jwt_handler" where
  "jwt_new secret = jwt_with_options secret ''HS256'' 60"

definition jwt_create_token ::
  "(jwt_algorithm \<Rightarrow> claims \<Rightarrow> string \<Rightarrow> 'e + string) \<Rightarrow> int \<Rightarrow> string \<Rightarrow> jwt_handler \<Rightarrow> 'e + string" where
  "jwt_create_token encode now username h =
     (let exp = now + jwt_access_token_ttl h
      in encode (jwt_alg h)
           \<lparr>cl_sub = username, cl_exp = exp, cl_iat = now, cl_username = username\<rparr> (jwt_secret h))"

definition jwt_verify_token ::
  "(string \<Rightarrow> string \<Rightarrow> jwt_algorithm \<Rightarrow> 'e + claims) \<Rightarrow> string \<Rightarrow> jwt_handler \<Rightarrow> 'e + claims" where
  "jwt_verify_token decode token h = decode token (jwt_secret h) (jwt_alg h)"

definition us_add_user ::
  "string \<Rightarrow> string \<Rightarrow> (string \<Rightarrow> string option) \<Rightarrow> (string \<Rightarrow> string option)" where
  "us_add_user username password_hash users = users(username \<mapsto> password_hash)"

definition us_verify_user ::
  "(string \<Rightarrow> string \<Rightarrow> 'e + bool) \<Rightarrow> string \<Rightarrow> string \<Rightarrow> (string \<Rightarrow> string option) \<Rightarrow> bool" where
  "us_verify_user bcrypt_verify username password users =
     (case users username of
        Some hash \<Rightarrow> (case bcrypt_verify password hash of Inr ok \<Rightarrow> ok | Inl _ \<Rightarrow> False)
      | None \<Rightarrow> False)"

section \<open>The middlewares\<close>

definition quoted :: "string \<Rightarrow> string" where
  "quoted s = [CHR 0x27] @ s @ [CHR 0x27]"

definition csp :: string where
  "csp =
     ''default-src '' @ quoted ''self'' @ ''; script-src '' @ quoted ''self'' @
     '' '' @ quoted ''unsafe-inline'' @ ''; style-src '' @ quoted ''self'' @ '' '' @
     quoted ''unsafe-inline'' @ ''; img-src '' @ quoted ''self'' @
     '' data: blob:; media-src '' @ quoted ''self'' @ '' blob:; connect-src '' @
     quoted ''self'' @ '' ws: wss:; font-src '' @ quoted ''self'' @
     '' data:; frame-ancestors '' @ quoted ''none'' @ ''; base-uri '' @
     quoted ''self''"

definition add_security_headers :: "bool \<Rightarrow> 'b response \<Rightarrow> 'b response" where
  "add_security_headers path_is_html res =
     (let h = rs_headers res;
          h = AList.update ''x-content-type-options'' ''nosniff'' h;
          h = AList.update ''x-frame-options'' ''DENY'' h;
          h = AList.update ''referrer-policy'' ''no-referrer'' h;
          h = AList.update ''permissions-policy'' ''interest-cohort=()'' h;
          h = (if path_is_html then AList.update ''content-security-policy'' csp h else h)
      in res\<lparr>rs_headers := h\<rparr>)"

definition security_headers_call :: "('b, 'e, 'w) service \<Rightarrow> ('b, 'e, 'w) service" where
  "security_headers_call service req w =
     (let path_is_html = (rq_path req = ''/'' \<or> rq_path req = ''/playground'');
          (r, w') = service req w
      in (map_sum id (add_security_headers path_is_html) r, w'))"

definition is_public :: "string \<Rightarrow> string \<Rightarrow> bool" where
  "is_public path method =
     (if path = ''/'' \<or> path = ''/playground'' then True
      else if starts_with path ''/health'' then True
      else if starts_with path ''/assets/'' then True
      else if path = ''/metrics'' then True
      else if path = ''/v1/models'' \<and> method = ''GET'' then True
      else False)"

text \<open>The bearer token of a request; \<open>to_str\<close> is the decoding of a header value.\<close>

definition bearer_token :: "(string \<Rightarrow> string option) \<Rightarrow> request \<Rightarrow> string option" where
  "bearer_token to_str req =
     (case Option.bind (map_of (rq_headers req) ''authorization'') to_str of
        Some s \<Rightarrow> if starts_with s ''Bearer '' then Some (trim (drop (length ''Bearer '') s)) else None
      | None \<Rightarrow> None)"

definition unauthorized :: "'b either_body response" where
  "unauthorized =
     \<lparr>rs_status = 401, rs_headers = [(''WWW-Authenticate'', ''Bearer realm=\"torch-inference\"'')],
      rs_body = Inr (JObject [(''error'', JString ''authentication required''), (''status'', JNumber 401)])\<rparr>"

definition auth_call ::
  "(string \<Rightarrow> string option) \<Rightarrow> (string \<Rightarrow> 'v + claims) \<Rightarrow> bool \<Rightarrow> ('b, 'e, 'w) service \<Rightarrow>
   ('b either_body, 'e, 'w) service" where
  "auth_call to_str verify_token enabled service req w =
     (if \<not> enabled \<or> is_public (rq_path req) (rq_method req)
      then let (r, w') = service req w in (left_body r, w')
      else
        let token = bearer_token to_str req;
            valid = (case token of
                       Some t \<Rightarrow> (case verify_token t of Inr _ \<Rightarrow> True | Inl _ \<Rightarrow> False)
                     | None \<Rightarrow> False)
        in if valid then let (r, w') = service req w in (left_body r, w')
           else (Inr unauthorized, w))"

definition rle_error_response :: "rate_limit_error \<Rightarrow> 'b either_body response" where
  "rle_error_response e =
     \<lparr>rs_status = 429, rs_headers = [(''Retry-After'', show_nat (unat (rle_retry_after e)))],
      rs_body = Inr (JObject [(''error'', JString (rle_message e)),
                              (''retry_after'', JNumber (unat (rle_retry_after e)))])\<rparr>"

text \<open>\<open>realip\<close> is the client's address as actix derives it, \<open>now\<close> the coarse clock.\<close>

definition rate_limit_call ::
  "(request \<Rightarrow> string option) \<Rightarrow> u64 \<Rightarrow> ('b, 'e, 'w) service \<Rightarrow>
   ('b either_body, 'e, rate_limiter \<times> 'w) service" where
  "rate_limit_call realip now service req lw =
     (let p = rq_path req; (l, w) = lw
      in if starts_with p ''/health'' \<or> p = ''/metrics''
         then let (r, w') = service req w in (left_body r, l, w')
         else
           let key = (case realip req of Some k \<Rightarrow> k | None \<Rightarrow> ''unknown'')
           in case rl_is_allowed now key l of
                (Inr _, l') \<Rightarrow> let (r, w') = service req w in (left_body r, l', w')
              | (Inl e, l') \<Rightarrow> (Inr (rle_error_response e), l', w))"

text \<open>The order of \<open>main.rs\<close>: the JWT check, then the limit, then the headers, then the service.\<close>

definition gate ::
  "(string \<Rightarrow> string option) \<Rightarrow> (string \<Rightarrow> 'v + claims) \<Rightarrow> bool \<Rightarrow> (request \<Rightarrow> string option) \<Rightarrow> u64 \<Rightarrow>
   ('b, 'e, 'w) service \<Rightarrow> ('b either_body either_body, 'e, rate_limiter \<times> 'w) service" where
  "gate to_str verify_token enabled realip now service =
     auth_call to_str verify_token enabled (rate_limit_call realip now (security_headers_call service))"

section \<open>Properties\<close>

text \<open>A request the gate lets in: no check is due, or its bearer token verifies.\<close>

definition authenticated ::
  "(string \<Rightarrow> string option) \<Rightarrow> (string \<Rightarrow> 'v + claims) \<Rightarrow> bool \<Rightarrow> request \<Rightarrow> bool" where
  "authenticated to_str verify_token enabled req \<longleftrightarrow>
     \<not> enabled \<or> is_public (rq_path req) (rq_method req) \<or>
     (\<exists>value s t c. map_of (rq_headers req) ''authorization'' = Some value \<and> to_str value = Some s \<and>
        s = ''Bearer '' @ t \<and> verify_token (trim t) = Inr c)"

lemma auth_call_iff:
  "auth_call to_str verify_token enabled service req w =
     (if authenticated to_str verify_token enabled req
      then let (r, w') = service req w in (left_body r, w') else (Inr unauthorized, w))"
  by (auto simp: auth_call_def authenticated_def bearer_token_def Let_def starts_with_iff
      split: option.splits sum.splits Option.bind_split)

lemma add_security_headers_facts:
  "map_of (rs_headers (add_security_headers b x)) ''x-frame-options'' = Some ''DENY''"
  "map_of (rs_headers (add_security_headers b x)) ''x-content-type-options'' = Some ''nosniff''"
  "rs_status (add_security_headers b x) = rs_status x"
  "rs_body (add_security_headers b x) = rs_body x"
  by (simp_all add: add_security_headers_def Let_def AList.update_conv')


abbreviation sample_verify :: "string \<Rightarrow> unit + claims" where
  "sample_verify t \<equiv> (if t = ''ok''
     then Inr \<lparr>cl_sub = ''u'', cl_exp = 9, cl_iat = 1, cl_username = ''u''\<rparr> else Inl ())"

abbreviation sample_get :: "string \<Rightarrow> request" where
  "sample_get value \<equiv> \<lparr>rq_path = ''/infer'', rq_method = ''GET'', rq_headers = [(''authorization'', value)]\<rparr>"

abbreviation sample_service :: "(nat, unit, nat) service" where
  "sample_service \<equiv> \<lambda>req w. (Inr \<lparr>rs_status = 200, rs_headers = [], rs_body = 7\<rparr>, Suc w)"


end
