(* ===== verification/Value.thy ===== *)
theory Value
  imports Complex_Main Json "HOL-Library.AList"
begin

text \<open>
  JSON values with numbers as \<open>serde_json\<close> keeps them (a finite float is a real), and the
  accessors of \<open>serde_json::Value\<close>. An object is an association list with distinct keys;
  \<open>Map::insert\<close> is \<open>AList.update\<close>.
\<close>

datatype number = PosInt u64 | NegInt int | Float real

type_synonym val = "number json"

definition vget :: "string \<Rightarrow> val \<Rightarrow> val option" where
  "vget k v = (case v of JObject ps \<Rightarrow> map_of ps k | _ \<Rightarrow> None)"

definition as_str :: "val \<Rightarrow> string option" where
  "as_str v = (case v of JString s \<Rightarrow> Some s | _ \<Rightarrow> None)"

definition as_u64 :: "val \<Rightarrow> u64 option" where
  "as_u64 v = (case v of JNumber (PosInt n) \<Rightarrow> Some n | _ \<Rightarrow> None)"

definition as_i64 :: "val \<Rightarrow> int option" where
  "as_i64 v = (case v of
     JNumber (PosInt n) \<Rightarrow> if unat n < 2 ^ 63 then Some (int (unat n)) else None
   | JNumber (NegInt i) \<Rightarrow> Some i
   | _ \<Rightarrow> None)"

lemma vget_simps [simp]:
  "vget k (JObject ps) = map_of ps k"
  "vget k (JString s) = None" "vget k JNull = None" "vget k (JBool b) = None"
  "vget k (JNumber n) = None" "vget k (JArray vs) = None"
  by (simp_all add: vget_def)

lemma as_str_simps [simp]:
  "as_str (JString s) = Some s" "as_str JNull = None" "as_str (JBool b) = None"
  "as_str (JNumber n) = None" "as_str (JArray vs) = None" "as_str (JObject ps) = None"
  by (simp_all add: as_str_def)

end
