(* ===== verification/AgentTool.thy ===== *)
theory AgentTool
  imports Value
begin

text \<open>
  The tool interface of the agent (\<open>src/services/llm/src/agent/tool.rs\<close>): the error of a
  tool, and the registry. A tool is a function of its arguments, its deadline and the world it
  acts on.
\<close>

datatype tool_error =
  BadArg string | Denied string | Timeout u64 | Upstream string | Unknown string

fun tool_error_msg :: "tool_error \<Rightarrow> string" where
  "tool_error_msg (BadArg s) = ''argument error: '' @ s"
| "tool_error_msg (Denied s) = ''denied: '' @ s"
| "tool_error_msg (Timeout ms) = ''timeout after '' @ show_nat (unat ms) @ '' ms''"
| "tool_error_msg (Upstream s) = ''upstream error: '' @ s"
| "tool_error_msg (Unknown s) = ''unknown tool: '' @ s"

type_synonym 'w tool = "val \<Rightarrow> nat \<Rightarrow> 'w \<Rightarrow> (tool_error + val) \<times> 'w"

type_synonym 'w tool_registry = "string \<Rightarrow> 'w tool option"

definition tr_new :: "'w tool_registry" where
  "tr_new = Map.empty"

definition tr_insert :: "string \<Rightarrow> 'w tool \<Rightarrow> 'w tool_registry \<Rightarrow> 'w tool_registry" where
  "tr_insert name tool reg = reg(name \<mapsto> tool)"

definition tr_dispatch ::
  "'w tool_registry \<Rightarrow> string \<Rightarrow> val \<Rightarrow> nat \<Rightarrow> 'w \<Rightarrow> (tool_error + val) \<times> 'w" where
  "tr_dispatch reg name args deadline w =
     (case reg name of
        None \<Rightarrow> (Inl (Unknown name), w)
      | Some tool \<Rightarrow> tool args deadline w)"

text \<open>The tool \<open>final\<close> (\<open>agent/tools/final_tool.rs\<close>).\<close>

definition final_invoke :: "'w tool" where
  "final_invoke args deadline w =
     (case Option.bind (vget ''answer'' args) as_str of
        Some answer \<Rightarrow> (Inr (JObject [(''answer'', JString answer)]), w)
      | None \<Rightarrow> (Inl (BadArg ''final requires `answer` (string)''), w))"

end
