(* ===== verification/Utf8.thy ===== *)
theory Utf8
  imports Text
begin

text \<open>
  UTF-8 as Rust's \<open>std::str::from_utf8\<close> and \<open>String::from_utf8_lossy\<close> read it: \<open>char_seq\<close>
  looks at the start of a byte string and gives whether a character is there, and its length or
  the length of the invalid part, which the lossy conversion replaces by U+FFFD.
\<close>

definition utf8_width :: "nat \<Rightarrow> nat" where
  "utf8_width b =
     (if b < 128 then 1 else if 194 \<le> b \<and> b \<le> 223 then 2 else if 224 \<le> b \<and> b \<le> 239 then 3
      else if 240 \<le> b \<and> b \<le> 244 then 4 else 0)"

definition is_cont :: "nat \<Rightarrow> bool" where
  "is_cont b \<longleftrightarrow> 128 \<le> b \<and> b < 192"

definition second_ok :: "nat \<Rightarrow> nat \<Rightarrow> bool" where
  "second_ok b c \<longleftrightarrow>
     (if b = 224 then 160 \<le> c \<and> c \<le> 191 else if b = 237 then 128 \<le> c \<and> c \<le> 159
      else if b = 240 then 144 \<le> c \<and> c \<le> 191 else if b = 244 then 128 \<le> c \<and> c \<le> 143
      else is_cont c)"

definition byte_at :: "string \<Rightarrow> nat \<Rightarrow> nat" where
  "byte_at s i = (if i < length s then of_char (s ! i) else 0)"

definition char_seq :: "string \<Rightarrow> bool \<times> nat" where
  "char_seq s =
     (let b = byte_at s 0; w = utf8_width b
      in if w = 1 then (True, 1)
         else if w = 0 then (False, 1)
         else if \<not> second_ok b (byte_at s 1) then (False, 1)
         else if w = 2 then (True, 2)
         else if \<not> is_cont (byte_at s 2) then (False, 2)
         else if w = 3 then (True, 3)
         else if \<not> is_cont (byte_at s 3) then (False, 3)
         else (True, 4))"

lemma char_seq_pos: "0 < snd (char_seq s)"
  by (simp add: char_seq_def Let_def)

lemma char_seq_le4: "snd (char_seq s) \<le> 4"
  by (simp add: char_seq_def Let_def)

function utf8_valid :: "string \<Rightarrow> bool" where
  "utf8_valid s =
     (if s = [] then True else if fst (char_seq s) then utf8_valid (drop (snd (char_seq s)) s) else False)"
  by pat_completeness auto
termination
  by (relation "measure length") (auto simp: char_seq_pos)

definition replacement :: string where
  "replacement = [char_of (239 :: nat), char_of (191 :: nat), char_of (189 :: nat)]"

function utf8_lossy :: "string \<Rightarrow> string" where
  "utf8_lossy s =
     (if s = [] then []
      else (if fst (char_seq s) then take (snd (char_seq s)) s else replacement) @
           utf8_lossy (drop (snd (char_seq s)) s))"
  by pat_completeness auto
termination
  by (relation "measure length") (auto simp: char_seq_pos)

declare utf8_valid.simps [simp del] utf8_lossy.simps [simp del]

lemma utf8_valid_Nil [simp]: "utf8_valid []"
  by (simp add: utf8_valid.simps)

lemma utf8_valid_iff:
  "utf8_valid s \<longleftrightarrow> s = [] \<or> fst (char_seq s) \<and> utf8_valid (drop (snd (char_seq s)) s)"
  by (subst utf8_valid.simps) simp

lemma utf8_lossy_Nil [simp]: "utf8_lossy [] = []"
  by (simp add: utf8_lossy.simps)

lemma byte_at_0_ne: "byte_at s i \<noteq> 0 \<Longrightarrow> i < length s"
  by (simp add: byte_at_def split: if_splits)

lemma byte_at_append: "i < length s \<Longrightarrow> byte_at (s @ t) i = byte_at s i"
  by (simp add: byte_at_def nth_append)

lemma second_ok_byte: "second_ok b c \<Longrightarrow> c \<noteq> 0"
  by (auto simp: second_ok_def is_cont_def split: if_splits)

lemma char_seq_length: "s \<noteq> [] \<Longrightarrow> snd (char_seq s) \<le> length s"
proof -
  assume "s \<noteq> []"
  then have "1 \<le> length s" by (cases s) auto
  moreover have "second_ok b (byte_at s 1) \<Longrightarrow> 2 \<le> length s" for b
    using byte_at_0_ne [of s 1] second_ok_byte [of b "byte_at s 1"] by simp
  moreover have "is_cont (byte_at s i) \<Longrightarrow> i < length s" for i
    using byte_at_0_ne [of s i] by (auto simp: is_cont_def)
  note this [of 2] this [of 3]
  ultimately show ?thesis by (auto simp: char_seq_def Let_def Suc_le_eq numeral_eq_Suc)
qed

text \<open>A character is found whatever follows it.\<close>

lemma char_seq_append:
  assumes "s \<noteq> []" "char_seq s = (True, n)"
  shows "char_seq (s @ t) = (True, n)"
proof -
  have a: "byte_at (s @ t) i = byte_at s i" if "byte_at s i \<noteq> 0" for i
    using byte_at_append byte_at_0_ne [OF that] by simp
  have b: "byte_at (s @ t) 0 = byte_at s 0" using assms(1) by (simp add: byte_at_append)
  show ?thesis
    using assms(2) a [of 1] a [of 2] a [of 3] b second_ok_byte [of "byte_at s 0" "byte_at s 1"]
    by (auto simp: char_seq_def Let_def is_cont_def split: if_splits)
qed

lemma utf8_valid_char:
  "s \<noteq> [] \<Longrightarrow> fst (char_seq s) \<Longrightarrow>
    utf8_valid s = utf8_valid (drop (snd (char_seq s)) s)"
  by (simp add: utf8_valid_iff [of s])

lemma utf8_valid_append: "utf8_valid s \<Longrightarrow> utf8_valid (s @ t) = utf8_valid t"
proof (induction s rule: utf8_valid.induct)
  case (1 s)
  show ?case
  proof (cases "s = []")
    case False
    obtain n where n: "char_seq s = (True, n)"
      using 1(2) False utf8_valid_iff [of s] by (cases "char_seq s") auto
    have rec: "utf8_valid (drop n s)" using 1(2) False n utf8_valid_iff [of s] by simp
    then have "utf8_valid (drop n s @ t) = utf8_valid t" using 1(1) False n by simp
    moreover have "n \<le> length s" using char_seq_length [OF False] n by simp
    ultimately show ?thesis
      using utf8_valid_char [of "s @ t"] char_seq_append [OF False n, of t] False by simp
  qed simp
qed

lemma char_seq_take:
  assumes "s \<noteq> []" "char_seq s = (True, n)"
  shows "char_seq (take n s) = (True, n)"
proof -
  have n: "n \<le> length s" using char_seq_length [OF assms(1)] assms(2) by simp
  have "byte_at (take n s) i = byte_at s i" if "i < n" for i
    using that n by (simp add: byte_at_def)
  note this [of 0] this [of 1] this [of 2] this [of 3]
  with assms(2) show ?thesis by (auto simp: char_seq_def Let_def split: if_splits)
qed

lemma utf8_valid_replacement: "utf8_valid replacement"
proof -
  have "char_seq replacement = (True, 3)" by (simp add: replacement_def char_seq_def byte_at_def
      utf8_width_def second_ok_def is_cont_def)
  then show ?thesis by (simp add: utf8_valid_iff [of replacement]) (simp add: replacement_def)
qed

lemma utf8_valid_one:
  "s \<noteq> [] \<Longrightarrow> char_seq s = (True, n) \<Longrightarrow> utf8_valid (take n s)"
  using char_seq_take [of s n] by (subst utf8_valid.simps) simp

lemma utf8_valid_lossy: "utf8_valid (utf8_lossy s)"
proof (induction s rule: utf8_lossy.induct)
  case (1 s)
  show ?case
  proof (cases "s = []")
    case False
    obtain ok n where n: "char_seq s = (ok, n)" by fastforce
    have "utf8_valid (if ok then take n s else replacement)"
      using utf8_valid_one [OF False, of n] utf8_valid_replacement n by simp
    then show ?thesis
      using 1 False n by (subst utf8_lossy.simps) (auto simp: utf8_valid_append)
  qed simp
qed

lemma utf8_lossy_valid: "utf8_valid s \<Longrightarrow> utf8_lossy s = s"
proof (induction s rule: utf8_lossy.induct)
  case (1 s)
  show ?case
  proof (cases "s = []")
    case False
    then have "fst (char_seq s)" "utf8_valid (drop (snd (char_seq s)) s)"
      using 1(2) utf8_valid_iff [of s] by auto
    then show ?thesis using 1(1) False by (subst utf8_lossy.simps) simp
  qed simp
qed

text \<open>Dropping bytes from the end until the rest is valid.\<close>

function utf8_floor :: "string \<Rightarrow> string" where
  "utf8_floor bs = (if utf8_valid bs then bs else utf8_floor (butlast bs))"
  by pat_completeness auto
termination
  by (relation "measure length") (auto, metis diff_less length_greater_0_conv lessI One_nat_def utf8_valid_Nil)

declare utf8_floor.simps [simp del]

lemma utf8_floor_valid: "utf8_valid (utf8_floor s)"
  by (induction s rule: utf8_floor.induct) (metis utf8_floor.simps)

lemma utf8_floor_prefix: "\<exists>n \<le> length s. utf8_floor s = take n s"
proof (induction s rule: utf8_floor.induct)
  case (1 s)
  show ?case
  proof (cases "utf8_valid s")
    case True
    then show ?thesis by (intro exI [of _ "length s"]) (simp add: utf8_floor.simps [of s])
  next
    case False
    then obtain n where "n \<le> length s - 1" "utf8_floor (butlast s) = take n (butlast s)" using 1 by auto
    then show ?thesis using False
      by (intro exI [of _ n]) (simp add: utf8_floor.simps [of s] butlast_conv_take min_def)
  qed
qed

lemma utf8_floor_greatest: "n \<le> length s \<Longrightarrow> utf8_valid (take n s) \<Longrightarrow> n \<le> length (utf8_floor s)"
proof (induction s rule: utf8_floor.induct)
  case (1 s)
  show ?case
  proof (cases "utf8_valid s")
    case True
    with 1(2) show ?thesis by (simp add: utf8_floor.simps [of s])
  next
    case False
    then have "n \<noteq> length s" using 1(3) by auto
    with 1(2) have "n \<le> length s - 1" by simp
    then have "n \<le> length (butlast s)" "take n (butlast s) = take n s"
      using 1(2) by (auto simp: butlast_conv_take min_def)
    with 1(1,3) False show ?thesis by (simp add: utf8_floor.simps [of s])
  qed
qed

text \<open>In a valid string a cut loses at most three bytes.\<close>

lemma utf8_cut: "utf8_valid s \<Longrightarrow> n \<le> length s \<Longrightarrow> \<exists>m \<le> n. n \<le> m + 3 \<and> utf8_valid (take m s)"
proof (induction s arbitrary: n rule: utf8_valid.induct)
  case (1 s)
  show ?case
  proof (cases "s = []")
    case True
    with 1(3) show ?thesis by simp
  next
    case False
    obtain k where k: "char_seq s = (True, k)"
      using 1(2) False utf8_valid_iff [of s] by (cases "char_seq s") auto
    show ?thesis
    proof (cases "n < k")
      case True
      then have "n \<le> 3" using char_seq_le4 [of s] k by simp
      then show ?thesis by (intro exI [of _ 0]) simp
    next
      case ge: False
      have rec: "utf8_valid (drop k s)" using 1(2) False k utf8_valid_iff [of s] by simp
      have "n - k \<le> length (drop k s)" using 1(3) by simp
      with 1(1) [of "n - k"] False k rec
      obtain m where m: "m \<le> n - k" "n - k \<le> m + 3" "utf8_valid (take m (drop k s))" by auto
      have "take (k + m) s = take k s @ take m (drop k s)" by (simp add: take_add)
      then have "utf8_valid (take (k + m) s)"
        using utf8_valid_append utf8_valid_one [OF False k] m(3) by simp
      moreover have "k + m \<le> n" "n \<le> k + m + 3" using m(1,2) ge by linarith+
      ultimately show ?thesis by blast
    qed
  qed
qed

lemma utf8_floor_take:
  "utf8_valid s \<Longrightarrow> n \<le> length s \<Longrightarrow> n \<le> length (utf8_floor (take n s)) + 3"
proof -
  assume a: "utf8_valid s" "n \<le> length s"
  then obtain m where m: "m \<le> n" "n \<le> m + 3" "utf8_valid (take m s)" using utf8_cut by blast
  then have "m \<le> length (utf8_floor (take n s))"
    using a by (intro utf8_floor_greatest) (simp_all add: min_def)
  with m show ?thesis by simp
qed

end
