(* ===== verification/Digits.thy ===== *)
theory Digits
  imports Text
begin

text \<open>
  Reading digits as \<open>char::to_digit\<close> does, and that decimal and hexadecimal numbers read back as
  they were printed.
\<close>

definition to_digit :: "nat \<Rightarrow> char \<Rightarrow> nat option" where
  "to_digit radix c =
     (let n = of_char c;
          d = (if 48 \<le> n \<and> n \<le> 57 then n - 48
               else if 97 \<le> n \<and> n \<le> 122 then n - 87
               else if 65 \<le> n \<and> n \<le> 90 then n - 55 else 36)
      in if d < radix then Some d else None)"

definition is_digit_of :: "nat \<Rightarrow> char \<Rightarrow> bool" where
  "is_digit_of radix c \<longleftrightarrow> to_digit radix c \<noteq> None"

definition digits_value :: "nat \<Rightarrow> string \<Rightarrow> nat" where
  "digits_value radix ds = foldl (\<lambda>acc c. acc * radix + the (to_digit radix c)) 0 ds"

text \<open>\<open>is_ascii_digit\<close>, \<open>is_ascii_lowercase\<close>, \<open>is_ascii_alphanumeric\<close>.\<close>

definition is_dec :: "char \<Rightarrow> bool" where
  "is_dec c \<longleftrightarrow> is_digit_of 10 c"

definition is_lower :: "char \<Rightarrow> bool" where
  "is_lower c \<longleftrightarrow> (let n = of_char c in 97 \<le> n \<and> n \<le> (122 :: nat))"

definition is_alnum :: "char \<Rightarrow> bool" where
  "is_alnum c \<longleftrightarrow> is_dec c \<or> is_lower c \<or> (let n = of_char c in 65 \<le> n \<and> n \<le> (90 :: nat))"

text \<open>Numbers as printed are read back.\<close>

fun show_hex :: "nat \<Rightarrow> string" where
  "show_hex n = (if n < 16 then [hex_digit n] else show_hex (n div 16) @ [hex_digit (n mod 16)])"

declare show_hex.simps [simp del]

lemma to_digit_digit: "d < 10 \<Longrightarrow> to_digit 10 (digit d) = Some d"
  using of_char_digit [of d] by (simp add: to_digit_def)

lemma to_digit_hex_digit: "d < 16 \<Longrightarrow> to_digit 16 (hex_digit d) = Some d"
  using of_char_hex_digit [of d] by (simp add: to_digit_def Let_def)

lemma digits_value_snoc: "digits_value r (ds @ [c]) = digits_value r ds * r + the (to_digit r c)"
  by (simp add: digits_value_def)

lemma show_nat_value: "digits_value 10 (show_nat n) = n"
proof (induction n rule: show_nat.induct)
  case (1 n)
  then show ?case
    by (subst show_nat.simps) (auto simp: digits_value_snoc to_digit_digit digits_value_def)
qed

lemma show_hex_value: "digits_value 16 (show_hex n) = n"
proof (induction n rule: show_hex.induct)
  case (1 n)
  then show ?case
    by (subst show_hex.simps) (auto simp: digits_value_snoc to_digit_hex_digit digits_value_def)
qed

lemma show_nat_all_digits: "\<forall>c \<in> set (show_nat n). is_digit_of 10 c"
  using show_nat_digits to_digit_digit by (fastforce simp: is_digit_of_def)

lemma show_hex_all_digits: "\<forall>c \<in> set (show_hex n). is_digit_of 16 c"
proof (induction n rule: show_hex.induct)
  case (1 n)
  then show ?case by (subst show_hex.simps) (auto simp: is_digit_of_def to_digit_hex_digit)
qed

lemma show_nonempty [simp]: "show_nat n \<noteq> []" "show_hex n \<noteq> []"
  by (subst show_nat.simps, simp) (subst show_hex.simps, simp)

lemma length_show_nat: "n < 10 ^ Suc k \<Longrightarrow> length (show_nat n) \<le> Suc k"
proof (induction k arbitrary: n)
  case (Suc k)
  have "n div 10 < 10 ^ Suc k" using Suc.prems by (simp add: less_mult_imp_div_less)
  from Suc.IH [OF this] show ?case by (subst show_nat.simps) simp
qed (subst show_nat.simps, simp)

lemma length_show_hex: "n < 16 ^ Suc k \<Longrightarrow> length (show_hex n) \<le> Suc k"
proof (induction k arbitrary: n)
  case (Suc k)
  have "n div 16 < 16 ^ Suc k" using Suc.prems by (simp add: less_mult_imp_div_less)
  from Suc.IH [OF this] show ?case by (subst show_hex.simps) simp
qed (subst show_hex.simps, simp)

text \<open>No leading zero.\<close>

lemma digit_0: "digit 0 = CHR ''0''"
  by (simp add: digit_def char_of_def bit_iff_odd)

lemma hd_show_nat: "0 < n \<Longrightarrow> hd (show_nat n) \<noteq> CHR ''0''"
proof (induction n rule: show_nat.induct)
  case (1 n)
  show ?case
  proof (cases "n < 10")
    case True
    then show ?thesis using 1(2) digit_inject [of n 0] by (subst show_nat.simps) (simp add: digit_0)
  next
    case False
    then have "hd (show_nat (n div 10)) \<noteq> CHR ''0''" using 1(1) by simp
    with False show ?thesis by (subst show_nat.simps) simp
  qed
qed

end
