(* ===== verification/HttpFetch.thy ===== *)
theory HttpFetch
  imports AgentTool Utf8 Digits
begin

text \<open>
  The tool \<open>http_fetch\<close> of the agent (\<open>src/services/llm/src/agent/tools/http_fetch.rs\<close>): the
  allowlist, the test for private hosts with the parsing of IP literals as Rust's standard
  library has it, the redirect policy, and the call. URLs and their parser are arguments, the HTTP
  client is an argument with the laws of the locale \<open>redirect_client\<close>.
\<close>

section \<open>IP literals\<close>

text \<open>The parser of \<open>std::net\<close>: each reader gives what it read and the rest of the text.\<close>

datatype ip_addr = V4 u8 u8 u8 u8 | V6 "u16 list"

definition read_number :: "nat \<Rightarrow> nat \<Rightarrow> bool \<Rightarrow> nat \<Rightarrow> string \<Rightarrow> (nat \<times> string) option" where
  "read_number radix max_digits allow_zero_prefix limit s =
     (let ds = takeWhile (is_digit_of radix) s
      in if ds = [] \<or> max_digits < length ds \<or>
            (\<not> allow_zero_prefix \<and> hd ds = CHR ''0'' \<and> 1 < length ds) \<or> limit \<le> digits_value radix ds
         then None
         else Some (digits_value radix ds, drop (length ds) s))"

definition read_separator ::
  "char \<Rightarrow> nat \<Rightarrow> (string \<Rightarrow> ('a \<times> string) option) \<Rightarrow> string \<Rightarrow> ('a \<times> string) option" where
  "read_separator sep i inner s =
     (if 0 < i then (case s of [] \<Rightarrow> None | c # cs \<Rightarrow> if c = sep then inner cs else None)
      else inner s)"

fun read_octets :: "nat \<Rightarrow> nat \<Rightarrow> string \<Rightarrow> (u8 list \<times> string) option" where
  "read_octets 0 i s = Some ([], s)"
| "read_octets (Suc k) i s =
     (case read_separator (CHR ''.'') i (read_number 10 3 False 256) s of
        None \<Rightarrow> None
      | Some (n, t) \<Rightarrow>
          (case read_octets k (Suc i) t of
             None \<Rightarrow> None
           | Some (os, u) \<Rightarrow> Some (word_of_nat n # os, u)))"

definition read_ipv4 :: "string \<Rightarrow> (u8 list \<times> string) option" where
  "read_ipv4 s = read_octets 4 0 s"

definition from_be_bytes :: "u8 \<Rightarrow> u8 \<Rightarrow> u16" where
  "from_be_bytes a b = ucast a * 256 + ucast b"

text \<open>Up to \<open>k\<close> more groups from index \<open>i\<close>, an IPv4 address in the last two at most.\<close>

fun read_groups :: "nat \<Rightarrow> nat \<Rightarrow> string \<Rightarrow> u16 list \<times> bool \<times> string" where
  "read_groups 0 i s = ([], False, s)"
| "read_groups (Suc k) i s =
     (case (if 0 < k then read_separator (CHR '':'') i read_ipv4 s else None) of
        Some (os, t) \<Rightarrow>
          ([from_be_bytes (os ! 0) (os ! 1), from_be_bytes (os ! 2) (os ! 3)], True, t)
      | None \<Rightarrow>
          (case read_separator (CHR '':'') i (read_number 16 4 True 65536) s of
             None \<Rightarrow> ([], False, s)
           | Some (g, t) \<Rightarrow>
               (let (gs, v4, u) = read_groups k (Suc i) t in (word_of_nat g # gs, v4, u))))"

definition read_ipv6 :: "string \<Rightarrow> (u16 list \<times> string) option" where
  "read_ipv6 s =
     (let (front, v4, t) = read_groups 8 0 s
      in if length front = 8 then Some (front, t)
         else if v4 then None
         else if take 2 t \<noteq> ''::'' then None
         else let (back, _, u) = read_groups (8 - (length front + 1)) 0 (drop 2 t)
              in Some (front @ replicate (8 - length front - length back) 0 @ back, u))"

definition parse_ip :: "string \<Rightarrow> ip_addr option" where
  "parse_ip s =
     (case read_ipv4 s of
        Some (os, t) \<Rightarrow> if t = [] then Some (V4 (os ! 0) (os ! 1) (os ! 2) (os ! 3)) else None
      | None \<Rightarrow>
          (case read_ipv6 s of
             Some (segs, t) \<Rightarrow> if t = [] then Some (V6 segs) else None
           | None \<Rightarrow> None))"

section \<open>Hosts\<close>

definition host_matches_glob :: "string \<Rightarrow> string \<Rightarrow> bool" where
  "host_matches_glob host pat =
     (case strip_prefix ''*.'' pat of
        Some suffix \<Rightarrow>
          (let needle = ''.'' @ suffix in ends_with host needle \<and> length needle < length host)
      | None \<Rightarrow> host = pat)"

definition v4_is_loopback :: "u8 \<Rightarrow> bool" where
  "v4_is_loopback a \<longleftrightarrow> a = 127"

definition v4_is_private :: "u8 \<Rightarrow> u8 \<Rightarrow> bool" where
  "v4_is_private a b \<longleftrightarrow> a = 10 \<or> (a = 172 \<and> 16 \<le> b \<and> b \<le> 31) \<or> (a = 192 \<and> b = 168)"

unbundle bit_operations_syntax

definition is_private_v4 :: "u8 \<Rightarrow> u8 \<Rightarrow> u8 \<Rightarrow> u8 \<Rightarrow> bool" where
  "is_private_v4 a b c d \<longleftrightarrow>
     v4_is_loopback a \<or> v4_is_private a b \<or> (a = 0 \<and> b = 0 \<and> c = 0 \<and> d = 0) \<or>
     (a = 169 \<and> b = 254) \<or> (a = 100 \<and> b AND 0xc0 = 0x40) \<or>
     (a = 255 \<and> b = 255 \<and> c = 255 \<and> d = 255)"

definition is_private_v6 :: "u16 list \<Rightarrow> bool" where
  "is_private_v6 segs =
     (if segs = [0, 0, 0, 0, 0, 0, 0, 1] \<or> segs = [0, 0, 0, 0, 0, 0, 0, 0] then True
      else if segs ! 0 = 0 \<and> segs ! 1 = 0 \<and> segs ! 2 = 0 \<and> segs ! 3 = 0 \<and> segs ! 4 = 0 \<and> segs ! 5 = 0xffff
      then is_private_v4 (ucast (drop_bit 8 (segs ! 6))) (ucast (segs ! 6 AND 0xff))
             (ucast (drop_bit 8 (segs ! 7))) (ucast (segs ! 7 AND 0xff))
      else if segs ! 0 AND 0xfe00 = 0xfc00 then True
      else if segs ! 0 AND 0xffc0 = 0xfe80 then True
      else False)"

definition trim_brackets :: "string \<Rightarrow> string" where
  "trim_brackets host =
     rev (dropWhile (\<lambda>c. c = CHR '']'') (rev (dropWhile (\<lambda>c. c = CHR ''['') host)))"

definition is_private_host :: "string \<Rightarrow> bool" where
  "is_private_host host =
     (case parse_ip (trim_brackets host) of
        Some (V4 a b c d) \<Rightarrow> is_private_v4 a b c d
      | Some (V6 segs) \<Rightarrow> is_private_v6 segs
      | None \<Rightarrow> host = ''localhost'' \<or> host = ''ip6-localhost'' \<or> host = ''ip6-loopback'')"

section \<open>The tool\<close>

record http_fetch_tool =
  hf_allowlist :: "string list"
  hf_max_bytes :: u64
  hf_follow_redirects :: bool
  hf_enabled :: bool

definition hf_new :: "string list \<Rightarrow> u64 \<Rightarrow> bool \<Rightarrow> bool \<Rightarrow> http_fetch_tool" where
  "hf_new allowlist max_bytes follow_redirects enabled =
     \<lparr>hf_allowlist = allowlist, hf_max_bytes = max_bytes,
      hf_follow_redirects = follow_redirects, hf_enabled = enabled\<rparr>"

definition hf_host_allowed :: "http_fetch_tool \<Rightarrow> string \<Rightarrow> bool" where
  "hf_host_allowed t host = list_ex (\<lambda>pat. host_matches_glob host pat) (hf_allowlist t)"

definition hf_internal_ok :: "http_fetch_tool \<Rightarrow> string \<Rightarrow> bool" where
  "hf_internal_ok t host =
     list_ex (\<lambda>p. ends_with p ''.internal'' \<and> host_matches_glob host p) (hf_allowlist t)"

text \<open>The redirect policy: \<open>True\<close> is \<open>follow\<close>, \<open>False\<close> is \<open>stop\<close>; \<open>previous\<close> are the URLs already asked.\<close>

definition hf_policy :: "('u \<Rightarrow> string option) \<Rightarrow> http_fetch_tool \<Rightarrow> 'u list \<Rightarrow> 'u \<Rightarrow> bool" where
  "hf_policy host_str t previous url =
     (if \<not> hf_follow_redirects t then False
      else if 3 \<le> length previous then False
      else
        let host = (case host_str url of Some h \<Rightarrow> h | None \<Rightarrow> []);
            host_ok = hf_host_allowed t host;
            internal_ok = hf_internal_ok t host
        in host_ok \<and> \<not> (is_private_host host \<and> \<not> internal_ok))"

text \<open>A response: the chunks of the body are what \<open>chunk()\<close> gives in turn, an error among them.\<close>

record http_response =
  hr_status :: nat
  hr_content_length :: "u64 option"
  hr_chunks :: "(string + string) list"

datatype send_error = SendTimeout | SendFailed string

type_synonym ('u, 'w) http_get =
  "('u list \<Rightarrow> 'u \<Rightarrow> bool) \<Rightarrow> 'u \<Rightarrow> nat \<Rightarrow> 'w \<Rightarrow> (send_error + http_response) \<times> 'w"

fun read_body :: "nat \<Rightarrow> string \<Rightarrow> (string + string) list \<Rightarrow> tool_error + string" where
  "read_body max_bytes buf [] = Inr buf"
| "read_body max_bytes buf (r # rs) =
     (if length buf < max_bytes
      then case r of
             Inl e \<Rightarrow> Inl (Upstream (''http_fetch body: '' @ e))
           | Inr chunk \<Rightarrow> read_body max_bytes (buf @ take (min (max_bytes - length buf) (length chunk)) chunk) rs
      else Inr buf)"

definition hf_too_large :: "u64 \<Rightarrow> u64 \<Rightarrow> tool_error" where
  "hf_too_large len max_bytes =
     Upstream (''http_fetch body too large: Content-Length '' @ show_nat (unat len) @
               '' > max_bytes '' @ show_nat (unat max_bytes))"

definition hf_response :: "u64 \<Rightarrow> http_response \<Rightarrow> tool_error + val" where
  "hf_response max_bytes resp =
     (let status = hr_status resp in
      bindR (case hr_content_length resp of
               Some len \<Rightarrow> if max_bytes < len then Inl (hf_too_large len max_bytes) else Inr ()
             | None \<Rightarrow> Inr ())
        (\<lambda>_. bindR (read_body (unat max_bytes) [] (hr_chunks resp))
          (\<lambda>buf. Inr (JObject [(''status'', JNumber (PosInt (word_of_nat status))),
                               (''body'', JString (utf8_lossy buf))]))))"

definition hf_send_error :: "nat \<Rightarrow> send_error \<Rightarrow> tool_error" where
  "hf_send_error remaining e =
     (case e of
        SendTimeout \<Rightarrow> Timeout (word_of_nat (remaining div 10 ^ 6))
      | SendFailed msg \<Rightarrow> Upstream (''http_fetch: '' @ msg))"

text \<open>What is checked before the request: the URL and its host, or the error.\<close>

definition hf_check ::
  "(string \<Rightarrow> string + 'u) \<Rightarrow> ('u \<Rightarrow> string option) \<Rightarrow> http_fetch_tool \<Rightarrow> val \<Rightarrow> tool_error + 'u \<times> u64" where
  "hf_check parse_url host_str t args =
     bindR (guardR (hf_enabled t) (Denied ''http_fetch disabled''))
      (\<lambda>_. bindR (case Option.bind (vget ''url'' args) as_str of
                   Some url \<Rightarrow> Inr url | None \<Rightarrow> Inl (BadArg ''http_fetch requires `url`''))
      (\<lambda>url. let max_bytes = (case Option.bind (vget ''max_bytes'' args) as_u64 of
                                Some n \<Rightarrow> n | None \<Rightarrow> hf_max_bytes t)
       in bindR (case parse_url url of Inl e \<Rightarrow> Inl (BadArg (''invalid url: '' @ e)) | Inr u \<Rightarrow> Inr u)
      (\<lambda>parsed. bindR (case host_str parsed of Some h \<Rightarrow> Inr h | None \<Rightarrow> Inl (BadArg ''url missing host''))
      (\<lambda>host. bindR (guardR (hf_host_allowed t host)
                     (Denied (''http_fetch denied: host `'' @ host @ ''` not in allowlist'')))
      (\<lambda>_. bindR (guardR (\<not> (is_private_host host \<and> \<not> hf_internal_ok t host))
                   (Denied (''http_fetch denied: private host `'' @ host @ ''`'')))
      (\<lambda>_. Inr (parsed, max_bytes)))))))"

definition hf_invoke ::
  "(string \<Rightarrow> string + 'u) \<Rightarrow> ('u \<Rightarrow> string option) \<Rightarrow> ('u, 'w) http_get \<Rightarrow> ('w \<Rightarrow> nat) \<Rightarrow>
   http_fetch_tool \<Rightarrow> 'w tool" where
  "hf_invoke parse_url host_str get clock t args deadline w =
     (case hf_check parse_url host_str t args of
        Inl e \<Rightarrow> (Inl e, w)
      | Inr (parsed, max_bytes) \<Rightarrow>
          let remaining = deadline - clock w
          in if remaining = 0 then (Inl (Timeout 0), w)
             else case get (hf_policy host_str t) parsed remaining w of
                    (Inl e, w') \<Rightarrow> (Inl (hf_send_error remaining e), w')
                  | (Inr resp, w') \<Rightarrow> (hf_response max_bytes resp, w'))"

section \<open>The client\<close>

text \<open>
  What is relied on: the client asks the given URL first, and any other only if the policy
  followed a redirect to it. \<open>contacted\<close> lists the URLs asked so far in a world.
\<close>

definition redirect_chain :: "('u list \<Rightarrow> 'u \<Rightarrow> bool) \<Rightarrow> 'u \<Rightarrow> 'u list \<Rightarrow> bool" where
  "redirect_chain policy url us \<longleftrightarrow>
     us \<noteq> [] \<and> hd us = url \<and> (\<forall>i < length us. 0 < i \<longrightarrow> policy (take i us) (us ! i))"

locale redirect_client =
  fixes get :: "('u, 'w) http_get" and contacted :: "'w \<Rightarrow> 'u list"
  assumes get_chain:
    "get policy url timeout w = (r, w') \<Longrightarrow> \<exists>us. contacted w' = contacted w @ us \<and> redirect_chain policy url us"
begin

lemma get_contacts:
  assumes "get policy url timeout w = (r, w')"
    and "P url" "\<And>previous u. policy previous u \<Longrightarrow> P u \<and> length previous < n" "0 < n"
  shows "\<exists>us. contacted w' = contacted w @ us \<and> length us \<le> n \<and> (\<forall>u \<in> set us. P u)"
proof -
  obtain us where us: "contacted w' = contacted w @ us" "redirect_chain policy url us"
    using get_chain [OF assms(1)] by blast
  have step: "P (us ! i) \<and> i < n" if "i < length us" for i
  proof (cases "i = 0")
    case True
    then show ?thesis using us(2) assms(2,4) by (metis redirect_chain_def hd_conv_nth)
  next
    case False
    with us(2) that have "policy (take i us) (us ! i)" by (simp add: redirect_chain_def)
    from assms(3) [OF this] that show ?thesis by simp
  qed
  then have "\<forall>u \<in> set us. P u" by (auto simp: in_set_conv_nth)
  moreover have "length us \<le> n"
    using step [of "length us - 1"] us(2) by (cases us) (auto simp: redirect_chain_def)
  ultimately show ?thesis using us(1) by blast
qed

end

text \<open>
  A client that follows redirects itself, over any \<open>server\<close>: at most \<open>hops\<close> of them, each only if
  the policy says so, keeping the URLs it asked in front of the world.
\<close>

datatype 'u server_reply = Answer http_response | Redirect 'u http_response | NoAnswer send_error

type_synonym ('u, 'w) server = "'u \<Rightarrow> nat \<Rightarrow> 'w \<Rightarrow> 'u server_reply \<times> 'w"

fun loop_get ::
  "('u, 'w) server \<Rightarrow> nat \<Rightarrow> ('u list \<Rightarrow> 'u \<Rightarrow> bool) \<Rightarrow> 'u list \<Rightarrow> 'u \<Rightarrow> nat \<Rightarrow> 'u list \<times> 'w \<Rightarrow>
   (send_error + http_response) \<times> 'u list \<times> 'w" where
  "loop_get server hops policy previous url timeout (asked, w) =
     (case server url timeout w of
        (NoAnswer e, w') \<Rightarrow> (Inl e, asked @ [url], w')
      | (Answer resp, w') \<Rightarrow> (Inr resp, asked @ [url], w')
      | (Redirect target resp, w') \<Rightarrow>
          (case hops of
             0 \<Rightarrow> (Inr resp, asked @ [url], w')
           | Suc h \<Rightarrow>
               if policy (previous @ [url]) target
               then loop_get server h policy (previous @ [url]) target timeout (asked @ [url], w')
               else (Inr resp, asked @ [url], w')))"

declare loop_get.simps [simp del]

definition loop_client :: "('u, 'w) server \<Rightarrow> ('u, 'u list \<times> 'w) http_get" where
  "loop_client server policy url timeout lw = loop_get server 10 policy [] url timeout lw"

lemma loop_get_chain:
  assumes "loop_get server hops policy previous url timeout (asked, w) = (r, asked', w')"
  shows "\<exists>us. asked' = asked @ us \<and> us \<noteq> [] \<and> hd us = url \<and>
    (\<forall>i < length us. 0 < i \<longrightarrow> policy (previous @ take i us) (us ! i))"
  using assms
proof (induction hops arbitrary: previous url asked w)
  case 0
  then have "asked' = asked @ [url]"
    by (simp add: loop_get.simps split: prod.splits server_reply.splits)
  then show ?case by (intro exI [of _ "[url]"]) simp
next
  case (Suc h)
  show ?case
  proof (cases "asked' = asked @ [url]")
    case True
    then show ?thesis by (intro exI [of _ "[url]"]) simp
  next
    case False
    then obtain u resp w1 where step: "server url timeout w = (Redirect u resp, w1)"
      "policy (previous @ [url]) u"
      "loop_get server h policy (previous @ [url]) u timeout (asked @ [url], w1) = (r, asked', w')"
      using Suc.prems by (simp add: loop_get.simps [of server "Suc h"] split: prod.splits server_reply.splits if_splits)
    from Suc.IH [OF step(3)] obtain us where us: "asked' = (asked @ [url]) @ us" "us \<noteq> []" "hd us = u"
      "\<forall>i < length us. 0 < i \<longrightarrow> policy ((previous @ [url]) @ take i us) (us ! i)" by blast
    have "policy (previous @ take i (url # us)) ((url # us) ! i)" if "i < length (url # us)" "0 < i" for i
    proof (cases i)
      case (Suc j)
      with us(4) that step(2) us(2,3) show ?thesis
        by (cases j) (auto simp: hd_conv_nth)
    qed (use that in simp)
    with us(1) show ?thesis by (intro exI [of _ "url # us"]) simp
  qed
qed

interpretation loop: redirect_client "loop_client server" fst for server :: "('u, 'w) server"
proof
  fix policy :: "'u list \<Rightarrow> 'u \<Rightarrow> bool" and url :: 'u and timeout and lw lw' :: "'u list \<times> 'w" and r
  assume run: "loop_client server policy url timeout lw = (r, lw')"
  obtain asked w where lw: "lw = (asked, w)" by (cases lw)
  obtain asked' w' where lw': "lw' = (asked', w')" by (cases lw')
  from run show "\<exists>us. fst lw' = fst lw @ us \<and> redirect_chain policy url us"
    using loop_get_chain [of server 10 policy "[]" url timeout asked w r asked' w']
    by (auto simp: loop_client_def redirect_chain_def lw lw')
qed

section \<open>The sandbox\<close>

text \<open>A host the tool may reach: allowlisted, and a private one only by a pattern for \<open>.internal\<close>.\<close>

definition reachable :: "http_fetch_tool \<Rightarrow> string \<Rightarrow> bool" where
  "reachable t host \<longleftrightarrow> hf_host_allowed t host \<and> (is_private_host host \<longrightarrow> hf_internal_ok t host)"

lemma hf_check_Inr:
  "hf_check parse_url host_str t args = Inr (u, n) \<Longrightarrow>
    hf_enabled t \<and> (\<exists>s host. Option.bind (vget ''url'' args) as_str = Some s \<and> parse_url s = Inr u \<and>
      host_str u = Some host \<and> reachable t host) \<and>
    n = (case Option.bind (vget ''max_bytes'' args) as_u64 of Some n \<Rightarrow> n | None \<Rightarrow> hf_max_bytes t)"
  by (auto simp: hf_check_def bindR_Inr_iff Let_def reachable_def split: option.splits sum.splits)

lemma hf_policy_reachable:
  "hf_policy host_str t previous u \<Longrightarrow>
    reachable t (case host_str u of Some h \<Rightarrow> h | None \<Rightarrow> []) \<and> length previous < 3"
  by (auto simp: hf_policy_def reachable_def Let_def split: if_splits)

text \<open>The body read is what the stream begins with, up to the limit.\<close>

lemma read_body_prefix:
  "read_body n buf rs = Inr out \<Longrightarrow> length buf \<le> n \<Longrightarrow>
    \<exists>chunks. out = take n (buf @ concat chunks) \<and>
      (\<exists>rest. rs = map Inr chunks @ rest \<and> (rest = [] \<or> length out = n))"
proof (induction n buf rs rule: read_body.induct)
  case (1 n buf)
  then show ?case by (intro exI [of _ "[]"]) simp
next
  case (2 n buf r rs)
  show ?case
  proof (cases "length buf < n")
    case False
    with 2(2,3) show ?thesis by (intro exI [of _ "[]"]) simp
  next
    case True
    then obtain chunk where chunk: "r = Inr chunk" using 2(2) by (cases r) simp_all
    let ?buf = "buf @ take (min (n - length buf) (length chunk)) chunk"
    have "read_body n ?buf rs = Inr out" "length ?buf \<le> n" using 2(2) True chunk by auto
    from 2(1) [OF True chunk this] obtain chunks rest where
      cs: "out = take n (?buf @ concat chunks)" "rs = map Inr chunks @ rest" "rest = [] \<or> length out = n"
      by blast
    have "take n (?buf @ ys) = take n (buf @ chunk @ ys)" for ys
      by (cases "n - length buf \<le> length chunk") (simp_all add: min_def)
    with cs chunk have "out = take n (buf @ concat (chunk # chunks)) \<and>
      (\<exists>rest. r # rs = map Inr (chunk # chunks) @ rest \<and> (rest = [] \<or> length out = n))" by auto
    then show ?thesis by blast
  qed
qed

lemma hf_response_body:
  assumes "hf_response n resp = Inr v"
  shows "\<exists>raw. vget ''body'' v = Some (JString (utf8_lossy raw)) \<and> length raw \<le> unat n"
proof -
  obtain raw where raw: "read_body (unat n) [] (hr_chunks resp) = Inr raw"
    "vget ''body'' v = Some (JString (utf8_lossy raw))"
    using assms by (auto simp: hf_response_def bindR_Inr_iff Let_def)
  from read_body_prefix [OF raw(1)] have "length raw \<le> unat n" by auto
  with raw(2) show ?thesis by blast
qed

section \<open>Private addresses\<close>

text \<open>The blocked IPv4 addresses as intervals of 32-bit numbers.\<close>

definition v4_number :: "u8 \<Rightarrow> u8 \<Rightarrow> u8 \<Rightarrow> u8 \<Rightarrow> nat" where
  "v4_number a b c d = ((unat a * 256 + unat b) * 256 + unat c) * 256 + unat d"

definition private_ranges :: "(nat \<times> nat) list" where
  "private_ranges =
     [(0x00000000, 0x00000000), (0x0A000000, 0x0AFFFFFF), (0x64400000, 0x647FFFFF),
      (0x7F000000, 0x7FFFFFFF), (0xA9FE0000, 0xA9FEFFFF), (0xAC100000, 0xAC1FFFFF),
      (0xC0A80000, 0xC0A8FFFF), (0xFFFFFFFF, 0xFFFFFFFF)]"

lemma unat_u8: "unat (a :: u8) < 256"
  using unsigned_less [of a, where 'a = nat] by simp

lemma cgnat_mask: "(b :: u8) AND 0xc0 = 0x40 \<longleftrightarrow> 64 \<le> unat b \<and> unat b < 128"
proof -
  have "list_all (\<lambda>n. ((word_of_nat n :: u8) AND 0xc0 = 0x40) = (64 \<le> n \<and> n < 128)) [0..<256]"
    by code_simp
  then have "((word_of_nat (unat b) :: u8) AND 0xc0 = 0x40) = (64 \<le> unat b \<and> unat b < 128)"
    unfolding list_all_iff by (rule bspec) (use unat_u8 [of b] in simp)
  then show ?thesis by simp
qed

lemma u8_eq: "(a :: u8) = numeral k \<longleftrightarrow> unat a = unat (numeral k :: u8)" "(a :: u8) = 0 \<longleftrightarrow> unat a = 0"
  by (simp_all add: word_unat_eq_iff)

lemma is_private_v4_ranges:
  "is_private_v4 a b c d \<longleftrightarrow> (\<exists>(lo, hi) \<in> set private_ranges. lo \<le> v4_number a b c d \<and> v4_number a b c d \<le> hi)"
proof -
  define x y z u where n: "x = unat a" "y = unat b" "z = unat c" "u = unat d"
  have lt: "x < 256" "y < 256" "z < 256" "u < 256" unfolding n by (rule unat_u8)+
  have l: "is_private_v4 a b c d \<longleftrightarrow>
    x = 127 \<or> (x = 10 \<or> (x = 172 \<and> 16 \<le> y \<and> y \<le> 31) \<or> (x = 192 \<and> y = 168)) \<or>
    (x = 0 \<and> y = 0 \<and> z = 0 \<and> u = 0) \<or> (x = 169 \<and> y = 254) \<or> (x = 100 \<and> 64 \<le> y \<and> y < 128) \<or>
    (x = 255 \<and> y = 255 \<and> z = 255 \<and> u = 255)"
    unfolding is_private_v4_def v4_is_loopback_def v4_is_private_def cgnat_mask
    unfolding u8_eq word_le_nat_alt n by simp
  define N where "N = v4_number a b c d"
  then have N: "N = 16777216 * x + 65536 * y + 256 * z + u" by (simp add: v4_number_def n)
  have r1: "0x00000000 \<le> N \<and> N \<le> 0x00000000 \<longleftrightarrow> x = 0 \<and> y = 0 \<and> z = 0 \<and> u = 0" using N lt by auto
  have r2: "0x0A000000 \<le> N \<and> N \<le> 0x0AFFFFFF \<longleftrightarrow> x = 10" using N lt by auto
  have r3: "0x64400000 \<le> N \<and> N \<le> 0x647FFFFF \<longleftrightarrow> x = 100 \<and> 64 \<le> y \<and> y < 128"
    by (cases "x = 100"; use N lt in auto)
  have r4: "0x7F000000 \<le> N \<and> N \<le> 0x7FFFFFFF \<longleftrightarrow> x = 127" using N lt by auto
  have r5: "0xA9FE0000 \<le> N \<and> N \<le> 0xA9FEFFFF \<longleftrightarrow> x = 169 \<and> y = 254"
    by (cases "x = 169"; use N lt in auto)
  have r6: "0xAC100000 \<le> N \<and> N \<le> 0xAC1FFFFF \<longleftrightarrow> x = 172 \<and> 16 \<le> y \<and> y \<le> 31"
    by (cases "x = 172"; use N lt in auto)
  have r7: "0xC0A80000 \<le> N \<and> N \<le> 0xC0A8FFFF \<longleftrightarrow> x = 192 \<and> y = 168"
    by (cases "x = 192"; use N lt in auto)
  have r8: "0xFFFFFFFF \<le> N \<and> N \<le> 0xFFFFFFFF \<longleftrightarrow> x = 255 \<and> y = 255 \<and> z = 255 \<and> u = 255"
    by (cases "x = 255"; use N lt in auto)
  show ?thesis
    unfolding l N_def [symmetric] private_ranges_def list.set bex_simps prod.case
      r1 r2 r3 r4 r5 r6 r7 r8 by blast
qed

lemma read_number_digits:
  assumes "\<forall>c \<in> set ds. is_digit_of r c" "ds \<noteq> []" "length ds \<le> k"
    and "allow \<or> hd ds \<noteq> CHR ''0'' \<or> length ds = 1" "digits_value r ds < bound"
    and "s = [] \<or> \<not> is_digit_of r (hd s)"
  shows "read_number r k allow bound (ds @ s) = Some (digits_value r ds, s)"
proof -
  have "takeWhile (is_digit_of r) s = []" using assms(6) by (cases s) auto
  then have "takeWhile (is_digit_of r) (ds @ s) = ds" using assms(1) by (simp add: takeWhile_append2)
  with assms(2-5) show ?thesis by (auto simp: read_number_def Let_def)
qed

lemma read_u8:
  assumes "s = [] \<or> \<not> is_digit_of 10 (hd s)"
  shows "read_number 10 3 False 256 (show_nat (unat (a :: u8)) @ s) = Some (unat a, s)"
proof -
  have "unat a < 256" by (rule unat_u8)
  then have "length (show_nat (unat a)) \<le> 3" using length_show_nat [of "unat a" 2] by simp
  moreover have "hd (show_nat (unat a)) \<noteq> CHR ''0'' \<or> length (show_nat (unat a)) = 1"
    using hd_show_nat [of "unat a"] by (cases "unat a") (auto simp: show_nat.simps)
  ultimately show ?thesis
    using read_number_digits [OF show_nat_all_digits, of "unat a" 3 False 256 s] assms unat_u8 [of a]
    by (simp add: show_nat_value)
qed

lemma read_u16:
  assumes "s = [] \<or> \<not> is_digit_of 16 (hd s)" "n < 65536"
  shows "read_number 16 4 True 65536 (show_hex n @ s) = Some (n, s)"
  using read_number_digits [OF show_hex_all_digits, of n 4 True 65536 s] assms length_show_hex [of n 3]
  by (simp add: show_hex_value)

definition dotted :: "u8 \<Rightarrow> u8 \<Rightarrow> u8 \<Rightarrow> u8 \<Rightarrow> string" where
  "dotted a b c d = show_nat (unat a) @ ''.'' @ show_nat (unat b) @ ''.'' @ show_nat (unat c) @ ''.'' @
     show_nat (unat d)"

definition mapped :: "u8 \<Rightarrow> u8 \<Rightarrow> u8 \<Rightarrow> u8 \<Rightarrow> string" where
  "mapped a b c d = ''::ffff:'' @ show_hex (unat (from_be_bytes a b)) @ '':'' @ show_hex (unat (from_be_bytes c d))"

lemma no_digit: "\<not> is_digit_of 10 (CHR ''.'')" "\<not> is_digit_of 16 (CHR '':'')" "\<not> is_digit_of 10 (CHR '':'')"
    "\<not> is_digit_of 16 (CHR ''.'')"
  by (simp_all add: is_digit_of_def to_digit_def)

lemma read_dotted: "read_ipv4 (dotted a b c d) = Some ([a, b, c, d], [])"
proof -
  have four: "(4 :: nat) = Suc (Suc (Suc (Suc 0)))" by simp
  show ?thesis
    unfolding read_ipv4_def dotted_def four
    using read_u8 [of "[]" d] by (simp add: read_separator_def read_u8 no_digit)
qed

lemma read_ipv4_no_dot: "CHR ''.'' \<notin> set s \<Longrightarrow> read_ipv4 s = None"
proof -
  assume no: "CHR ''.'' \<notin> set s"
  have four: "(4 :: nat) = Suc (Suc (Suc (Suc 0)))" by simp
  have rest: "CHR ''.'' \<notin> set t" if "read_number r k al bound s = Some (n, t)" for r k al bound n t
    using no that in_set_dropD by (fastforce simp: read_number_def Let_def split: if_splits)
  then show ?thesis
    unfolding read_ipv4_def four
    by (auto simp: read_separator_def split: option.splits list.splits dest!: rest)
qed

lemma dot_not_hex: "CHR ''.'' \<notin> set (show_hex n)"
  using show_hex_all_digits no_digit(4) by blast

lemma read_groups_numeral:
  "read_groups (numeral k) i s =
     (case (if 0 < (pred_numeral k :: nat) then read_separator (CHR '':'') i read_ipv4 s else None) of
        Some (os, t) \<Rightarrow>
          ([from_be_bytes (os ! 0) (os ! 1), from_be_bytes (os ! 2) (os ! 3)], True, t)
      | None \<Rightarrow>
          (case read_separator (CHR '':'') i (read_number 16 4 True 65536) s of
             None \<Rightarrow> ([], False, s)
           | Some (g, t) \<Rightarrow>
               (let (gs, v4, u) = read_groups (pred_numeral k) (Suc i) t in (word_of_nat g # gs, v4, u))))"
  unfolding numeral_eq_Suc [of k] by (rule read_groups.simps(2))

lemma read_mapped:
  "read_ipv6 (mapped a b c d) = Some ([0, 0, 0, 0, 0, 0xffff, from_be_bytes a b, from_be_bytes c d], [])"
proof -
  let ?H = "unat (from_be_bytes a b)" and ?L = "unat (from_be_bytes c d)"
  have lt: "?H < 65536" "?L < 65536"
    using unsigned_less [of "from_be_bytes a b", where 'a = nat]
      unsigned_less [of "from_be_bytes c d", where 'a = nat] by simp_all
  have no: "read_ipv4 (''::ffff:'' @ show_hex ?H @ '':'' @ show_hex ?L) = None"
    "read_ipv4 (''ffff:'' @ show_hex ?H @ '':'' @ show_hex ?L) = None"
    "read_ipv4 (show_hex ?H @ '':'' @ show_hex ?L) = None" "read_ipv4 (show_hex ?L) = None"
    by (rule read_ipv4_no_dot; simp add: dot_not_hex)+
  have front: "read_groups 8 0 (''::ffff:'' @ show_hex ?H @ '':'' @ show_hex ?L) =
    ([], False, ''::ffff:'' @ show_hex ?H @ '':'' @ show_hex ?L)"
    using no(1) by (simp add: read_groups_numeral read_separator_def read_number_def no_digit)
  have f: "read_number 16 4 True 65536 (''ffff:'' @ s) = Some (65535, '':'' @ s)" for s
    by (simp add: read_number_def is_digit_of_def to_digit_def digits_value_def)
  have behind: "read_groups 7 0 (''ffff:'' @ show_hex ?H @ '':'' @ show_hex ?L) =
    ([0xffff, from_be_bytes a b, from_be_bytes c d], False, [])"
    using no(2-4) f [of "show_hex ?H @ '':'' @ show_hex ?L"]
      read_u16 [of "'':'' @ show_hex ?L" ?H] read_u16 [of "[]" ?L] lt
    by (simp add: read_groups_numeral read_separator_def no_digit)
  show ?thesis unfolding mapped_def read_ipv6_def
    using front behind by (simp add: numeral_eq_Suc)
qed

lemma from_be_bytes_parts:
  "(ucast (drop_bit 8 (from_be_bytes a b)) :: u8) = a" "(ucast (from_be_bytes a b AND 0xff) :: u8) = b"
proof -
  have lt: "unat a < 256" "unat b < 256" by (rule unat_u8)+
  have n: "unat (from_be_bytes a b) = unat a * 256 + unat b"
    using lt by (simp add: from_be_bytes_def unat_word_ariths unsigned_ucast_eq take_bit_eq_mod)
  have "unat (drop_bit 8 (from_be_bytes a b)) = unat a"
    using lt by (simp add: drop_bit_eq_div unat_div n)
  then have "unat (ucast (drop_bit 8 (from_be_bytes a b)) :: u8) = unat a"
    using lt by (simp only: unsigned_ucast_eq take_bit_eq_mod) simp
  then show "(ucast (drop_bit 8 (from_be_bytes a b)) :: u8) = a" by (rule word_unat_eq_iff [THEN iffD2])
  have m: "(0xff :: u16) = mask 8" by (simp add: mask_eq_exp_minus_1)
  have "from_be_bytes a b AND 0xff = take_bit 8 (from_be_bytes a b)"
    unfolding m by (simp add: take_bit_eq_mask)
  then have "unat (from_be_bytes a b AND 0xff) = unat b"
    using lt by (simp add: take_bit_eq_mod unat_mod n)
  then have "unat (ucast (from_be_bytes a b AND 0xff) :: u8) = unat b"
    using lt by (simp add: unsigned_ucast_eq take_bit_eq_mod)
  then show "(ucast (from_be_bytes a b AND 0xff) :: u8) = b" by (rule word_unat_eq_iff [THEN iffD2])
qed

lemma trim_brackets_none:
  assumes "s \<noteq> []" "hd s \<noteq> CHR ''[''" "last s \<noteq> CHR '']''"
  shows "trim_brackets s = s" "trim_brackets (''['' @ s @ '']'') = s"
proof -
  have a: "dropWhile (\<lambda>c. c = CHR ''['') (s @ t) = s @ t" for t
    using assms(1,2) by (simp add: dropWhile_eq_self_iff)
  have b: "dropWhile (\<lambda>c. c = CHR '']'') (rev s) = rev s"
    using assms(1,3) by (simp add: dropWhile_eq_self_iff hd_rev)
  show "trim_brackets s = s" using a [of "[]"] b by (simp add: trim_brackets_def)
  show "trim_brackets (''['' @ s @ '']'') = s" using a [of "'']''"] b by (simp add: trim_brackets_def)
qed

lemma bracket_no_digit: "\<not> is_digit_of 10 (CHR ''['')" "\<not> is_digit_of 10 (CHR '']'')" "\<not> is_digit_of 16 (CHR '']'')"
  by (simp_all add: is_digit_of_def to_digit_def)

lemma trim_brackets_dotted: "trim_brackets (dotted a b c d) = dotted a b c d"
proof (rule trim_brackets_none(1))
  have "hd (show_nat (unat a)) \<in> set (show_nat (unat a))" "last (show_nat (unat d)) \<in> set (show_nat (unat d))"
    by (rule hd_in_set last_in_set; simp)+
  then show "hd (dotted a b c d) \<noteq> CHR ''[''" "last (dotted a b c d) \<noteq> CHR '']''"
    using show_nat_all_digits bracket_no_digit by (fastforce simp: dotted_def)+
qed (simp add: dotted_def)

lemma trim_brackets_mapped: "trim_brackets (''['' @ mapped a b c d @ '']'') = mapped a b c d"
proof (rule trim_brackets_none(2))
  let ?L = "show_hex (unat (from_be_bytes c d))"
  have "last ?L \<in> set ?L" by (rule last_in_set) simp
  then show "last (mapped a b c d) \<noteq> CHR '']''"
    using show_hex_all_digits bracket_no_digit by (fastforce simp: mapped_def)
qed (simp_all add: mapped_def)

lemma parse_dotted: "parse_ip (dotted a b c d) = Some (V4 a b c d)"
  by (simp add: parse_ip_def read_dotted)

lemma parse_mapped:
  "parse_ip (mapped a b c d) = Some (V6 [0, 0, 0, 0, 0, 0xffff, from_be_bytes a b, from_be_bytes c d])"
proof -
  have "read_ipv4 (mapped a b c d) = None"
    by (rule read_ipv4_no_dot) (simp add: mapped_def dot_not_hex)
  then show ?thesis by (simp add: parse_ip_def read_mapped)
qed

section \<open>Properties\<close>

text \<open>
  A host written as a dotted IPv4 address, or as the IPv6 literal \<open>[::ffff:xxxx:yyyy]\<close> that
  maps it, is private exactly if the address lies in one of the blocked ranges (this host,
  10/8, 100.64/10, 127/8, 169.254/16, 172.16/12, 192.168/16, broadcast).
\<close>

theorem private_host_ranges:
  "(let blocked = (\<exists>(lo, hi) \<in> set private_ranges. lo \<le> v4_number a b c d \<and> v4_number a b c d \<le> hi)
    in is_private_host (dotted a b c d) = blocked \<and>
       is_private_host (''['' @ mapped a b c d @ '']'') = blocked)"
proof -
  have "is_private_host (dotted a b c d) = is_private_v4 a b c d"
    by (simp add: is_private_host_def trim_brackets_dotted parse_dotted)
  moreover have "is_private_host (''['' @ mapped a b c d @ '']'') = is_private_v4 a b c d"
    unfolding is_private_host_def trim_brackets_mapped parse_mapped
    by (simp add: is_private_v6_def from_be_bytes_parts)
  ultimately show ?thesis by (simp add: Let_def is_private_v4_ranges)
qed

text \<open>
  C12. Whatever a plan passes to \<open>http_fetch\<close> and however servers redirect, a URL is asked only if
  the tool is enabled and its host is allowlisted and not private unless a pattern for
  \<open>.internal\<close> matches it; a call asks at most three; and the body it returns is the lossy
  decoding of at most the requested number of bytes.
\<close>

theorem http_fetch_sandbox:
  assumes "redirect_client get contacted"
    and "hf_invoke parse_url host_str get clock t args deadline w = (r, w')"
  shows "\<exists>us. contacted w' = contacted w @ us \<and> length us \<le> 3 \<and> (us \<noteq> [] \<longrightarrow> hf_enabled t) \<and>
    (\<forall>u \<in> set us. reachable t (case host_str u of Some h \<Rightarrow> h | None \<Rightarrow> [])) \<and>
    (\<forall>v. r = Inr v \<longrightarrow> (\<exists>raw. vget ''body'' v = Some (JString (utf8_lossy raw)) \<and>
       length raw \<le> unat (case Option.bind (vget ''max_bytes'' args) as_u64 of
                             Some n \<Rightarrow> n | None \<Rightarrow> hf_max_bytes t)))"
proof (cases "hf_check parse_url host_str t args")
  case (Inl e)
  then show ?thesis using assms(2) by (intro exI [of _ "[]"]) (auto simp: hf_invoke_def)
next
  case (Inr p)
  obtain u n where un: "hf_check parse_url host_str t args = Inr (u, n)" using Inr by (cases p) simp
  note ok = hf_check_Inr [OF un]
  let ?R = "\<lambda>u. reachable t (case host_str u of Some h \<Rightarrow> h | None \<Rightarrow> [])"
  let ?timeout = "deadline - clock w"
  show ?thesis
  proof (cases "?timeout = 0")
    case True
    then show ?thesis using assms(2) un by (intro exI [of _ "[]"]) (auto simp: hf_invoke_def)
  next
    case False
    obtain r1 where got: "get (hf_policy host_str t) u ?timeout w = (r1, w')"
      and r: "r = (case r1 of Inl e \<Rightarrow> Inl (hf_send_error ?timeout e) | Inr resp \<Rightarrow> hf_response n resp)"
      using assms(2) un False by (auto simp: hf_invoke_def Let_def split: prod.splits sum.splits)
    have "?R u" using ok by auto
    moreover have "hf_policy host_str t previous x \<Longrightarrow> ?R x \<and> length previous < 3" for previous x
      by (rule hf_policy_reachable)
    ultimately obtain us where
      us: "contacted w' = contacted w @ us" "length us \<le> 3" "\<forall>u \<in> set us. ?R u"
      using redirect_client.get_contacts [OF assms(1) got, of ?R 3] by auto
    have "\<exists>raw. vget ''body'' v = Some (JString (utf8_lossy raw)) \<and> length raw \<le> unat n" if "r = Inr v" for v
      using that r hf_response_body by (cases r1) auto
    with us ok show ?thesis by auto
  qed
qed

abbreviation sample_tool :: http_fetch_tool where
  "sample_tool \<equiv> hf_new [''x''] 2 True True"

abbreviation sample_server :: "(string, unit) server" where
  "sample_server \<equiv> \<lambda>url timeout w. (Redirect ''127.0.0.1''
     \<lparr>hr_status = 302, hr_content_length = None, hr_chunks = [Inr ''abc'', Inr ''d'']\<rparr>, w)"

abbreviation sample_fetch where
  "sample_fetch \<equiv> hf_invoke Inr Some (loop_client sample_server) (\<lambda>_. 0) sample_tool
     (JObject [(''url'', JString ''x'')]) 5 ([], ())"

theorem http_fetch_sandbox_witness:
  "list_all (reachable sample_tool) (fst (snd sample_fetch)) \<and> fst (snd sample_fetch) = [''x''] \<and>
   fst sample_fetch = Inr (JObject [(''status'', JNumber (PosInt 302)), (''body'', JString ''ab'')])"
proof (intro conjI)
  obtain r w' where run: "sample_fetch = (r, w')" by (rule prod.exhaust)
  from http_fetch_sandbox [OF loop.redirect_client_axioms run] run
  show "list_all (reachable sample_tool) (fst (snd sample_fetch))"
    by (auto simp: list_all_iff)
  have allowed: "hf_host_allowed sample_tool h \<longleftrightarrow> h = ''x''" for h
    by (simp add: hf_host_allowed_def hf_new_def host_matches_glob_def strip_prefix_def)
  have "\<not> is_private_host ''x''"
    using read_ipv4_no_dot [of "''x''"]
    by (simp add: is_private_host_def parse_ip_def trim_brackets_def read_ipv6_def read_groups_numeral
      read_separator_def read_number_def is_digit_of_def to_digit_def)
  then have p: "hf_check Inr Some sample_tool (JObject [(''url'', JString ''x'')]) = Inr (''x'', 2)"
    using allowed by (simp add: hf_check_def hf_new_def)
  have q: "\<not> hf_policy Some sample_tool [''x''] ''127.0.0.1''"
    using allowed by (simp add: hf_policy_def)
  have l: "utf8_lossy ''ab'' = ''ab''"
    by (simp add: utf8_lossy.simps char_seq_def byte_at_def utf8_width_def)
  show "fst (snd sample_fetch) = [''x'']"
    using q by (simp add: hf_invoke_def p loop_client_def loop_get.simps)
  show "fst sample_fetch = Inr (JObject [(''status'', JNumber (PosInt 302)), (''body'', JString ''ab'')])"
    using q l by (simp add: hf_invoke_def p loop_client_def loop_get.simps hf_response_def)
qed

end
