(* ===== verification/Dsl.thy ===== *)
theory Dsl
  imports AgentTool Digits Floats
begin

text \<open>
  The language of plans (\<open>src/services/llm/src/agent/dsl.rs\<close>). The two regular expressions are
  written out as the readers \<open>step_re\<close> and \<open>ref_re\<close>: each part of them matches in one way
  only. White space and digits are the ASCII ones. \<open>fl\<close> is the rounding of \<open>f64\<close> parsing.
\<close>

section \<open>Steps\<close>

datatype arg_value = Literal val | Ref string string

record step =
  st_id :: string
  st_tool :: string
  st_args :: "(string \<times> arg_value) list"

definition arg_as_json :: "arg_value \<Rightarrow> val" where
  "arg_as_json a = (case a of
     Literal v \<Rightarrow> v
   | Ref step_id field \<Rightarrow> JString (''{{'' @ step_id @ ''.'' @ field @ ''}}''))"

definition args_as_json :: "step \<Rightarrow> val" where
  "args_as_json st = JObject (foldl (\<lambda>m (k, v). AList.update k (arg_as_json v) m) [] (st_args st))"

datatype parse_error =
  NoSteps | MalformedStep nat string | MalformedArg string string | UnknownTool string

fun parse_error_msg :: "parse_error \<Rightarrow> string" where
  "parse_error_msg NoSteps = ''no steps recognized in planner output''"
| "parse_error_msg (MalformedStep line_no detail) =
     ''malformed step on line '' @ show_nat line_no @ '': '' @ detail"
| "parse_error_msg (MalformedArg tool detail) = ''malformed argument in '' @ tool @ '': '' @ detail"
| "parse_error_msg (UnknownTool t) = ''unknown tool: '' @ t"

definition KNOWN_TOOLS :: "string list" where
  "KNOWN_TOOLS =
     [''classify'', ''detect'', ''vision'', ''reflect'', ''tts'', ''stt'', ''http_fetch'', ''final'']"

section \<open>Readers\<close>

abbreviation newline :: char where "newline \<equiv> CHR 0x0A"
abbreviation dquote :: char where "dquote \<equiv> CHR 0x22"

definition strip_cr :: "string \<Rightarrow> string" where
  "strip_cr s = (if s \<noteq> [] \<and> last s = CHR 0x0D then butlast s else s)"

text \<open>\<open>str::lines\<close>.\<close>

function str_lines :: "string \<Rightarrow> string list" where
  "str_lines s =
     (if s = [] then []
      else let l = takeWhile (\<lambda>c. c \<noteq> newline) s; r = drop (length l) s
           in if r = [] then [l] else strip_cr l # str_lines (tl r))"
  by pat_completeness auto
termination
  by (relation "measure length") (auto simp: Let_def)

declare str_lines.simps [simp del]

definition is_name_char :: "char \<Rightarrow> bool" where
  "is_name_char c \<longleftrightarrow> is_lower c \<or> c = CHR ''_''"

definition is_field_char :: "char \<Rightarrow> bool" where
  "is_field_char c \<longleftrightarrow> is_lower c \<or> c = CHR ''_'' \<or> is_dec c"

text \<open>The longest prefix of characters of a class, and the rest.\<close>

definition span :: "(char \<Rightarrow> bool) \<Rightarrow> string \<Rightarrow> string \<times> string" where
  "span p s = (takeWhile p s, dropWhile p s)"

text \<open>\<open>step\d+\.\<close>: the id and what follows the dot.\<close>

definition step_id_re :: "string \<Rightarrow> (string \<times> string) option" where
  "step_id_re s =
     (case strip_prefix ''step'' s of
        None \<Rightarrow> None
      | Some t \<Rightarrow>
          (let (ds, u) = span is_dec t
           in if ds = [] then None
              else case strip_prefix ''.'' u of
                     None \<Rightarrow> None
                   | Some v \<Rightarrow> Some (''step'' @ ds, v)))"

text \<open>\<open>^\s*(step\d+)\.\s*([a-z_]+)\s*\((.*)\)\s*$\<close>\<close>

definition step_re :: "string \<Rightarrow> (string \<times> string \<times> string) option" where
  "step_re line =
     (case step_id_re (dropWhile is_space line) of
        None \<Rightarrow> None
      | Some (sid, s) \<Rightarrow>
          (let (name, t) = span is_name_char (dropWhile is_space s)
           in if name = [] then None
              else case strip_prefix ''('' (dropWhile is_space t) of
                     None \<Rightarrow> None
                   | Some u \<Rightarrow>
                       (let w = rev (dropWhile is_space (rev u))
                        in if w \<noteq> [] \<and> last w = CHR '')'' then Some (sid, name, butlast w) else None)))"

text \<open>\<open>^\{\{(step\d+)\.([a-z_][a-z0-9_]*)\}\}$\<close>\<close>

definition ref_re :: "string \<Rightarrow> (string \<times> string) option" where
  "ref_re v =
     (case Option.bind (strip_prefix ''{{'' v) step_id_re of
        None \<Rightarrow> None
      | Some (sid, s) \<Rightarrow>
          (let (field, t) = span is_field_char s
           in if field \<noteq> [] \<and> is_name_char (hd field) \<and> t = ''}}'' then Some (sid, field) else None))"

text \<open>\<open>str::split_once\<close> at \<open>=\<close>.\<close>

definition split_once_eq :: "string \<Rightarrow> (string \<times> string) option" where
  "split_once_eq s =
     (let (k, r) = span (\<lambda>c. c \<noteq> CHR ''='') s in if r = [] then None else Some (k, tl r))"

section \<open>Numbers\<close>

definition parse_nat :: "string \<Rightarrow> nat option" where
  "parse_nat s = (if s \<noteq> [] \<and> list_all is_dec s then Some (digits_value 10 s) else None)"

text \<open>\<open>str::parse::<i64>\<close>.\<close>

definition parse_i64 :: "string \<Rightarrow> int option" where
  "parse_i64 s =
     (let (neg, ds) = (if s \<noteq> [] \<and> hd s = CHR ''-'' then (True, tl s)
                       else if s \<noteq> [] \<and> hd s = CHR ''+'' then (False, tl s) else (False, s))
      in case parse_nat ds of
           None \<Rightarrow> None
         | Some n \<Rightarrow>
             (let i = (if neg then - int n else int n)
              in if - (2 ^ 63) \<le> i \<and> i < 2 ^ 63 then Some i else None))"

text \<open>\<open>str::parse::<f64>\<close>: \<open>Some None\<close> is NaN or an infinity.\<close>

definition max_f64 :: real where
  "max_f64 = (2 - 1 / 2 ^ 52) * 2 ^ 1023"

definition strip_sign :: "string \<Rightarrow> bool \<times> string" where
  "strip_sign s = (if s \<noteq> [] \<and> hd s = CHR ''-'' then (True, tl s)
                   else if s \<noteq> [] \<and> hd s = CHR ''+'' then (False, tl s) else (False, s))"

definition parse_exponent :: "string \<Rightarrow> int option" where
  "parse_exponent s =
     (if s = [] then Some 0
      else if hd s = CHR ''e'' \<or> hd s = CHR ''E''
      then let (neg, ds) = strip_sign (tl s)
           in map_option (\<lambda>n. if neg then - int n else int n) (parse_nat ds)
      else None)"

definition pow10 :: "int \<Rightarrow> real" where
  "pow10 e = (if 0 \<le> e then 10 ^ nat e else 1 / 10 ^ nat (- e))"

definition parse_f64 :: "rnd \<Rightarrow> string \<Rightarrow> real option option" where
  "parse_f64 fl s =
     (let (neg, u) = strip_sign s; lower = to_ascii_lowercase u
      in if lower = ''inf'' \<or> lower = ''infinity'' \<or> lower = ''nan'' then Some None
         else
           let (whole, t) = span is_dec u;
               (frac, rest) = (case strip_prefix ''.'' t of Some v \<Rightarrow> span is_dec v | None \<Rightarrow> ([], t))
           in if whole @ frac = [] then None
              else case parse_exponent rest of
                     None \<Rightarrow> None
                   | Some e \<Rightarrow>
                       (let m = real (digits_value 10 (whole @ frac)) * pow10 (e - int (length frac));
                            r = fl (if neg then - m else m)
                        in Some (if \<bar>r\<bar> \<le> max_f64 then Some r else None)))"

definition json_i64 :: "int \<Rightarrow> val" where
  "json_i64 i = JNumber (if 0 \<le> i then PosInt (word_of_int i) else NegInt i)"

text \<open>\<open>json!\<close> of an \<open>f64\<close>: JSON has no NaN and no infinity.\<close>

definition json_f64 :: "real option \<Rightarrow> val" where
  "json_f64 x = (case x of Some r \<Rightarrow> JNumber (Float r) | None \<Rightarrow> JNull)"

section \<open>The parser\<close>

definition parse_value :: "rnd \<Rightarrow> string \<Rightarrow> string \<Rightarrow> parse_error + arg_value" where
  "parse_value fl tool v =
     (case ref_re v of
        Some (step_id, field) \<Rightarrow> Inr (Ref step_id field)
      | None \<Rightarrow>
          if starts_with v [dquote] \<and> last v = dquote \<and> 2 \<le> length v
          then Inr (Literal (JString (butlast (tl v))))
          else if v = ''true'' \<or> v = ''1'' then Inr (Literal (JBool True))
          else if v = ''false'' \<or> v = ''0'' then Inr (Literal (JBool False))
          else case parse_i64 v of
                 Some n \<Rightarrow> Inr (Literal (json_i64 n))
               | None \<Rightarrow>
                   (case parse_f64 fl v of
                      Some x \<Rightarrow> Inr (Literal (json_f64 x))
                    | None \<Rightarrow>
                        if list_all (\<lambda>c. is_alnum c \<or> c = CHR ''_'') v \<and> v \<noteq> []
                        then Inr (Literal (JString v))
                        else Inl (MalformedArg tool (''could not parse value `'' @ v @ ''`''))))"

fun split_go :: "string \<Rightarrow> bool \<Rightarrow> int \<Rightarrow> string \<Rightarrow> string list" where
  "split_go buf in_str depth [] = (if buf = [] then [] else [buf])"
| "split_go buf in_str depth (c # cs) =
     (if c = dquote \<and> depth = 0 then split_go (buf @ [c]) (\<not> in_str) depth cs
      else if c = CHR ''{'' \<and> \<not> in_str \<and> cs \<noteq> [] \<and> hd cs = CHR ''{''
      then split_go (buf @ ''{{'') in_str (depth + 1) (tl cs)
      else if c = CHR ''}'' \<and> \<not> in_str \<and> cs \<noteq> [] \<and> hd cs = CHR ''}''
      then split_go (buf @ ''}}'') in_str (max (- 2147483648) (depth - 1)) (tl cs)
      else if c = CHR '','' \<and> \<not> in_str \<and> depth = 0 then buf # split_go [] in_str depth cs
      else split_go (buf @ [c]) in_str depth cs)"

definition split_top_level :: "string \<Rightarrow> string list" where
  "split_top_level s = split_go [] False 0 s"

definition parse_pair :: "rnd \<Rightarrow> string \<Rightarrow> string \<Rightarrow> parse_error + string \<times> arg_value" where
  "parse_pair fl tool pair =
     (case split_once_eq pair of
        None \<Rightarrow> Inl (MalformedArg tool (''expected `key=value`, got `'' @ pair @ ''`''))
      | Some (k, v) \<Rightarrow> bindR (parse_value fl tool (trim v)) (\<lambda>val. Inr (trim k, val)))"

definition parse_args :: "rnd \<Rightarrow> string \<Rightarrow> string \<Rightarrow> parse_error + (string \<times> arg_value) list" where
  "parse_args fl tool s =
     (if trim s = [] then Inr []
      else mapR (parse_pair fl tool)
             (filter (\<lambda>pair. pair \<noteq> []) (map trim (split_top_level (trim s)))))"

definition looks_like_step :: "string \<Rightarrow> bool" where
  "looks_like_step line \<longleftrightarrow> starts_with line ''step'' \<and> 4 < length line \<and> is_dec (line ! 4)"

definition parse_line :: "rnd \<Rightarrow> nat \<Rightarrow> string \<Rightarrow> parse_error + step option" where
  "parse_line fl i raw =
     (let line = trim raw
      in if line = [] then Inr None
         else if \<not> looks_like_step line then Inr None
         else case step_re line of
                None \<Rightarrow> Inl (MalformedStep (i + 1) (''does not match `stepN. tool(args)`: '' @ raw))
              | Some (sid, tool, args_str) \<Rightarrow>
                  if tool \<notin> set KNOWN_TOOLS then Inl (UnknownTool tool)
                  else bindR (parse_args fl tool args_str)
                         (\<lambda>args. Inr (Some \<lparr>st_id = sid, st_tool = tool, st_args = args\<rparr>)))"

fun parse_lines :: "rnd \<Rightarrow> nat \<Rightarrow> string list \<Rightarrow> parse_error + step list" where
  "parse_lines fl i [] = Inr []"
| "parse_lines fl i (raw # raws) =
     bindR (parse_line fl i raw)
       (\<lambda>r. bindR (parse_lines fl (i + 1) raws)
         (\<lambda>steps. Inr (case r of None \<Rightarrow> steps | Some st \<Rightarrow> st # steps)))"

definition parse :: "rnd \<Rightarrow> string \<Rightarrow> parse_error + step list" where
  "parse fl txt =
     bindR (parse_lines fl 0 (str_lines txt))
       (\<lambda>steps. if steps = [] then Inl NoSteps else Inr steps)"

section \<open>Printing plans\<close>

text \<open>The form in which the system prompt asks for a plan.\<close>

fun show_value :: "arg_value \<Rightarrow> string" where
  "show_value (Literal (JString s)) = dquote # s @ [dquote]"
| "show_value (Literal (JBool b)) = (if b then ''true'' else ''false'')"
| "show_value (Literal (JNumber (PosInt n))) = show_nat (unat n)"
| "show_value (Literal (JNumber (NegInt i))) = ''-'' @ show_nat (nat (- i))"
| "show_value (Ref step_id field) = ''{{'' @ step_id @ ''.'' @ field @ ''}}''"
| "show_value (Literal v) = []"

definition show_arg :: "string \<times> arg_value \<Rightarrow> string" where
  "show_arg p = fst p @ ''='' @ show_value (snd p)"

fun show_args :: "(string \<times> arg_value) list \<Rightarrow> string" where
  "show_args [] = []"
| "show_args [p] = show_arg p"
| "show_args (p # ps) = show_arg p @ '', '' @ show_args ps"

definition show_step :: "step \<Rightarrow> string" where
  "show_step st = st_id st @ ''. '' @ st_tool st @ ''('' @ show_args (st_args st) @ '')''"

definition word_char :: "char \<Rightarrow> bool" where
  "word_char c \<longleftrightarrow> is_alnum c \<or> c = CHR ''_''"

definition wf_id :: "string \<Rightarrow> bool" where
  "wf_id s \<longleftrightarrow> starts_with s ''step'' \<and> drop 4 s \<noteq> [] \<and> list_all is_dec (drop 4 s)"

definition wf_field :: "string \<Rightarrow> bool" where
  "wf_field s \<longleftrightarrow> s \<noteq> [] \<and> list_all is_field_char s \<and> is_name_char (hd s)"

fun wf_value :: "arg_value \<Rightarrow> bool" where
  "wf_value (Literal (JString s)) = (dquote \<notin> set s \<and> newline \<notin> set s)"
| "wf_value (Literal (JBool b)) = True"
| "wf_value (Literal (JNumber (PosInt n))) = (2 \<le> unat n \<and> unat n < 2 ^ 63)"
| "wf_value (Literal (JNumber (NegInt i))) = (- (2 ^ 63) \<le> i \<and> i < 0)"
| "wf_value (Ref step_id field) = (wf_id step_id \<and> wf_field field)"
| "wf_value (Literal v) = False"

definition wf_arg :: "string \<times> arg_value \<Rightarrow> bool" where
  "wf_arg p \<longleftrightarrow> fst p \<noteq> [] \<and> list_all word_char (fst p) \<and> wf_value (snd p)"

definition wf_step :: "step \<Rightarrow> bool" where
  "wf_step st \<longleftrightarrow> wf_id (st_id st) \<and> st_tool st \<in> set KNOWN_TOOLS \<and> list_all wf_arg (st_args st)"

subsection \<open>Characters\<close>

lemma special_not_word:
  "\<not> word_char dquote" "\<not> word_char newline" "\<not> word_char (CHR ''{'')" "\<not> word_char (CHR ''}'')"
  "\<not> word_char (CHR '','')" "\<not> word_char (CHR ''='')" "\<not> word_char (CHR '' '')" "\<not> word_char (CHR ''.'')"
  "\<not> word_char (CHR ''('')" "\<not> word_char (CHR '')'')" "\<not> word_char (CHR ''-'')" "\<not> word_char (CHR ''+'')"
  by (simp_all add: word_char_def is_alnum_def is_dec_def is_digit_of_def to_digit_def is_lower_def)

lemma word_char_not_space: "word_char c \<Longrightarrow> \<not> is_space c"
  by (auto simp: word_char_def is_alnum_def is_dec_def is_digit_of_def to_digit_def is_lower_def
      is_space_def Let_def split: if_splits)

lemma to_word_char:
  "is_dec c \<Longrightarrow> word_char c" "is_field_char c \<Longrightarrow> word_char c" "is_name_char c \<Longrightarrow> word_char c"
  by (auto simp: word_char_def is_alnum_def is_field_char_def is_name_char_def)

lemma dot_not_dec: "\<not> is_dec (CHR ''.'')"
  using special_not_word(8) to_word_char(1) by blast

lemma list_all_word_char_notin:
  "list_all word_char s \<Longrightarrow> \<not> word_char c \<Longrightarrow> c \<notin> set s"
  by (auto simp: list_all_iff)

lemma digits_dec: "list_all is_dec (show_nat n)"
  using show_nat_all_digits by (simp add: list_all_iff is_dec_def)

lemma list_all_mono': "list_all P xs \<Longrightarrow> (\<And>x. P x \<Longrightarrow> Q x) \<Longrightarrow> list_all Q xs"
  by (auto simp: list_all_iff)

lemma digits_word: "list_all word_char (show_nat n)"
  using digits_dec to_word_char(1) by (rule list_all_mono')

text \<open>Strings with no white space at either end.\<close>

definition tight :: "string \<Rightarrow> bool" where
  "tight s \<longleftrightarrow> s \<noteq> [] \<and> \<not> is_space (hd s) \<and> \<not> is_space (last s)"

lemma trim_tight: "tight s \<Longrightarrow> trim s = s" "tight s \<Longrightarrow> trim ('' '' @ s) = s"
proof -
  assume t: "tight s"
  have a: "dropWhile is_space s = s" "dropWhile is_space (rev s) = rev s"
    using t by (simp_all add: tight_def dropWhile_eq_self_iff hd_rev)
  then show "trim s = s" by (simp add: trim_def)
  have "is_space (CHR '' '')" by (simp add: is_space_def)
  with a show "trim ('' '' @ s) = s" by (simp add: trim_def)
qed

lemma tight_append: "s \<noteq> [] \<Longrightarrow> \<not> is_space (hd s) \<Longrightarrow> tight t \<Longrightarrow> tight (s @ u @ t)"
  by (simp add: tight_def)

lemma tight_word: "list_all word_char s \<Longrightarrow> s \<noteq> [] \<Longrightarrow> tight s"
  using word_char_not_space by (simp add: tight_def list_all_iff)

lemma span_append: "list_all p s \<Longrightarrow> t = [] \<or> \<not> p (hd t) \<Longrightarrow> span p (s @ t) = (s, t)"
  by (cases t) (simp_all add: span_def list_all_iff takeWhile_append2 dropWhile_append2)

subsection \<open>Reading back\<close>

lemma wf_id_cases: "wf_id s \<Longrightarrow> \<exists>ds. s = ''step'' @ ds \<and> ds \<noteq> [] \<and> list_all is_dec ds"
  by (auto simp: wf_id_def starts_with_iff)

lemma strip_prefix_append: "strip_prefix p (p @ s) = Some s"
  by (simp add: strip_prefix_Some)

lemma step_id_re_read: "wf_id sid \<Longrightarrow> step_id_re (sid @ ''.'' @ s) = Some (sid, s)"
proof -
  assume "wf_id sid"
  then obtain ds where ds: "sid = ''step'' @ ds" "ds \<noteq> []" "list_all is_dec ds" using wf_id_cases by blast
  have "span is_dec (ds @ ''.'' @ s) = (ds, ''.'' @ s)"
    using ds(3) dot_not_dec by (intro span_append) simp_all
  then show ?thesis
    using ds(1,2) strip_prefix_append [of "''step''" "ds @ ''.'' @ s"] strip_prefix_append [of "''.''" s]
    by (simp add: step_id_re_def)
qed

lemma ref_re_read: "wf_id sid \<Longrightarrow> wf_field f \<Longrightarrow> ref_re (''{{'' @ sid @ ''.'' @ f @ ''}}'') = Some (sid, f)"
proof -
  assume a: "wf_id sid" "wf_field f"
  have "\<not> is_field_char (CHR ''}'')" using special_not_word(4) to_word_char(2) by blast
  then have "span is_field_char (f @ ''}}'') = (f, ''}}'')"
    using a(2) by (intro span_append) (simp_all add: wf_field_def)
  then show ?thesis
    using a strip_prefix_append [of "''{{''" "sid @ ''.'' @ f @ ''}}''"] step_id_re_read [of sid "f @ ''}}''"]
    by (simp add: ref_re_def wf_field_def)
qed

lemma ref_re_other: "s = [] \<or> hd s \<noteq> CHR ''{'' \<Longrightarrow> ref_re s = None"
  by (cases s) (simp_all add: ref_re_def strip_prefix_def)

lemma parse_nat_show: "parse_nat (show_nat n) = Some n"
  by (simp add: parse_nat_def digits_dec show_nat_value)

lemma hd_show_nat_word: "word_char (hd (show_nat n))"
  using digits_word hd_in_set [OF show_nonempty(1), of n] unfolding list_all_iff by blast

lemma hd_show_nat_other: "\<not> word_char c \<Longrightarrow> hd (show_nat n) \<noteq> c"
  using hd_show_nat_word by blast

lemma digits_not_letters: "show_nat n \<noteq> ''true''" "show_nat n \<noteq> ''false''"
proof -
  have "\<not> is_dec (CHR ''t'')" "\<not> is_dec (CHR ''f'')"
    by (simp_all add: is_dec_def is_digit_of_def to_digit_def)
  then show "show_nat n \<noteq> ''true''" "show_nat n \<noteq> ''false''"
    using digits_dec [of n] by auto
qed

lemma show_nat_small: "show_nat 0 = ''0''" "show_nat 1 = ''1''"
  by (simp_all add: show_nat.simps digit_def char_of_def bit_iff_odd)

lemma parse_i64_nat: "n < 2 ^ 63 \<Longrightarrow> parse_i64 (show_nat n) = Some (int n)"
proof -
  assume "n < 2 ^ 63"
  then have "int n < 2 ^ 63" by simp
  moreover have "hd (show_nat n) \<noteq> CHR ''-''" "hd (show_nat n) \<noteq> CHR ''+''"
    by (rule hd_show_nat_other; rule special_not_word)+
  ultimately show ?thesis by (simp add: parse_i64_def parse_nat_show)
qed

lemma parse_i64_neg: "- (2 ^ 63) \<le> i \<Longrightarrow> i < 0 \<Longrightarrow> parse_i64 (''-'' @ show_nat (nat (- i))) = Some i"
  by (simp add: parse_i64_def parse_nat_show)

lemma parse_value_read: "wf_value a \<Longrightarrow> parse_value fl tool (show_value a) = Inr a"
proof (induction a rule: wf_value.induct)
  case (1 s)
  then show ?case by (simp add: parse_value_def ref_re_other)
next
  case (2 b)
  then show ?case by (simp add: parse_value_def ref_re_other)
next
  case (3 n)
  have hd: "hd (show_nat (unat n)) \<noteq> CHR ''{''" "hd (show_nat (unat n)) \<noteq> dquote"
    by (rule hd_show_nat_other; rule special_not_word)+
  have "show_nat (unat n) \<noteq> show_nat 0" "show_nat (unat n) \<noteq> show_nat 1"
    using 3 by (auto simp: show_nat_inject)
  moreover have "\<not> starts_with (show_nat (unat n)) [dquote]"
    using hd(2) by (cases "show_nat (unat n)") simp_all
  moreover have "json_i64 (int (unat n)) = JNumber (PosInt n)"
    by (simp add: json_i64_def word_of_int_uint)
  ultimately show ?case
    using 3 hd(1) digits_not_letters [of "unat n"] parse_i64_nat [of "unat n"]
    by (simp add: parse_value_def ref_re_other show_nat_small show_nat_small [unfolded One_nat_def])
next
  case (4 i)
  then show ?case
    using parse_i64_neg [of i] by (simp add: parse_value_def ref_re_other json_i64_def)
next
  case (5 sid f)
  then show ?case using ref_re_read [of sid f] by (simp add: parse_value_def)
qed simp_all

text \<open>What the parser makes of any natural number that a plan may hold.\<close>

lemma parse_value_nat:
  "n < 2 ^ 63 \<Longrightarrow> parse_value fl tool (show_nat n) =
     Inr (Literal (if n = 0 then JBool False else if n = 1 then JBool True
                   else JNumber (PosInt (word_of_nat n))))"
proof -
  assume n: "n < 2 ^ 63"
  then have u: "unat (word_of_nat n :: u64) = n" by (intro unat_of_nat_small) simp
  consider "n = 0" | "n = 1" | "2 \<le> n" by linarith
  then show ?thesis
  proof cases
    case 3
    with n u show ?thesis using parse_value_read [of "Literal (JNumber (PosInt (word_of_nat n)))" fl tool]
      by simp
  qed (simp_all add: show_nat_small [unfolded One_nat_def] parse_value_def ref_re_other)
qed

subsection \<open>Splitting arguments\<close>

text \<open>Text that the splitter copies whole, coming back to where it was.\<close>

definition chunk :: "string \<Rightarrow> bool" where
  "chunk p \<longleftrightarrow> (\<forall>buf cs. split_go buf False 0 (p @ cs) = split_go (buf @ p) False 0 cs)"

lemma chunk_append: "chunk p \<Longrightarrow> chunk q \<Longrightarrow> chunk (p @ q)"
  by (simp add: chunk_def)

lemma chunk_plain: "set p \<inter> {dquote, CHR ''{'', CHR ''}'', CHR '',''} = {} \<Longrightarrow> chunk p"
proof (induction p)
  case (Cons c p)
  then have "split_go (buf @ [c]) False 0 (p @ cs) = split_go ((buf @ [c]) @ p) False 0 cs" for buf cs
    by (simp add: chunk_def)
  with Cons.prems show ?case by (auto simp: chunk_def)
qed (simp add: chunk_def)

lemma chunk_word: "list_all word_char p \<Longrightarrow> chunk p"
  using special_not_word list_all_word_char_notin by (intro chunk_plain) blast

lemma split_in_string: "dquote \<notin> set s \<Longrightarrow> split_go buf True 0 (s @ cs) = split_go (buf @ s) True 0 cs"
  by (induction s arbitrary: buf) auto

lemma chunk_quoted: "dquote \<notin> set s \<Longrightarrow> chunk (dquote # s @ [dquote])"
  using split_in_string [of s] by (simp add: chunk_def)

lemma split_in_braces:
  "set s \<inter> {dquote, CHR ''{'', CHR ''}''} = {} \<Longrightarrow>
    split_go buf False 1 (s @ cs) = split_go (buf @ s) False 1 cs"
  by (induction s arbitrary: buf) auto

lemma chunk_braces: "set s \<inter> {dquote, CHR ''{'', CHR ''}''} = {} \<Longrightarrow> chunk (''{{'' @ s @ ''}}'')"
  using split_in_braces [of s] by (simp add: chunk_def)

lemma wf_id_word: "wf_id s \<Longrightarrow> list_all word_char s"
proof -
  assume "wf_id s"
  then obtain ds where "s = ''step'' @ ds" "list_all is_dec ds" using wf_id_cases by blast
  moreover have "list_all word_char ''step''"
    by (simp add: word_char_def is_alnum_def is_lower_def)
  ultimately show ?thesis using to_word_char(1) by (auto simp: list_all_iff)
qed

lemma wf_field_word: "wf_field s \<Longrightarrow> list_all word_char s"
  using to_word_char(2) by (auto simp: wf_field_def list_all_iff)

lemma chunk_value: "wf_value a \<Longrightarrow> chunk (show_value a)"
proof (induction a rule: wf_value.induct)
  case (1 s)
  then show ?case by (simp add: chunk_quoted)
next
  case (2 b)
  then show ?case by (simp add: chunk_plain)
next
  case (3 n)
  then show ?case by (simp add: chunk_word digits_word)
next
  case (4 i)
  have "chunk (''-'' @ show_nat (nat (- i)))"
    by (rule chunk_append) (simp_all add: chunk_plain chunk_word digits_word)
  then show ?case by simp
next
  case (5 sid f)
  have "set (sid @ ''.'' @ f) \<inter> {dquote, CHR ''{'', CHR ''}''} = {}"
    using 5 special_not_word list_all_word_char_notin [OF wf_id_word [of sid]]
      list_all_word_char_notin [OF wf_field_word [of f]] by auto
  from chunk_braces [OF this] show ?case by simp
qed simp_all

lemma tight_value: "wf_value a \<Longrightarrow> tight (show_value a)"
proof (induction a rule: wf_value.induct)
  case (5 sid f)
  then show ?case by (simp add: tight_def is_space_def)
next
  case (4 i)
  have "tight (show_nat (nat (- i)))" by (intro tight_word digits_word) simp
  then show ?case by (simp add: tight_def is_space_def)
qed (simp_all add: tight_word digits_word, simp_all add: tight_def is_space_def)

lemma tight_arg: "wf_arg p \<Longrightarrow> tight (show_arg p)"
  unfolding show_arg_def
  using tight_word [of "fst p"] tight_value [of "snd p"] by (intro tight_append) (auto simp: wf_arg_def tight_def)

lemma chunk_arg: "wf_arg p \<Longrightarrow> chunk (show_arg p)"
  unfolding show_arg_def wf_arg_def by (intro chunk_append) (simp_all add: chunk_word chunk_plain chunk_value)

lemma split_arg:
  "chunk p \<Longrightarrow> p \<noteq> [] \<Longrightarrow> split_go buf False 0 p = [buf @ p]"
  "chunk p \<Longrightarrow> split_go buf False 0 (p @ CHR '','' # cs) = (buf @ p) # split_go [] False 0 cs"
proof -
  assume c: "chunk p"
  show "p \<noteq> [] \<Longrightarrow> split_go buf False 0 p = [buf @ p]"
    using c [unfolded chunk_def, rule_format, of buf "[]"] by simp
  show "split_go buf False 0 (p @ CHR '','' # cs) = (buf @ p) # split_go [] False 0 cs"
    using c [unfolded chunk_def, rule_format, of buf "CHR '','' # cs"] by simp
qed

lemma split_show_args:
  "list_all wf_arg ps \<Longrightarrow> ps \<noteq> [] \<Longrightarrow> buf = [] \<or> buf = '' '' \<Longrightarrow>
    map trim (split_go buf False 0 (show_args ps)) = map show_arg ps"
proof (induction ps arbitrary: buf rule: show_args.induct)
  case (2 p)
  then show ?case using tight_arg [of p] trim_tight [of "show_arg p"]
    by (auto simp: split_arg chunk_arg tight_def)
next
  case (3 p q ps)
  have "split_go [] False 0 ('' '' @ show_args (q # ps)) = split_go '' '' False 0 (show_args (q # ps))"
    by simp
  with 3 show ?case using tight_arg [of p] trim_tight [of "show_arg p"]
    by (auto simp: split_arg chunk_arg)
qed simp

lemma parse_pair_read: "wf_arg p \<Longrightarrow> parse_pair fl tool (show_arg p) = Inr p"
proof -
  assume wf: "wf_arg p"
  then have k: "list_all (\<lambda>c. c \<noteq> CHR ''='') (fst p)"
    using special_not_word(6) by (auto simp: wf_arg_def list_all_iff)
  have "span (\<lambda>c. c \<noteq> CHR ''='') (fst p @ ''='' @ show_value (snd p)) = (fst p, ''='' @ show_value (snd p))"
    using k by (intro span_append) simp_all
  moreover have "trim (fst p) = fst p" "trim (show_value (snd p)) = show_value (snd p)"
    using wf by (simp_all add: trim_tight tight_word tight_value wf_arg_def)
  ultimately show ?thesis
    using wf by (simp add: parse_pair_def split_once_eq_def show_arg_def parse_value_read wf_arg_def)
qed

lemma tight_args: "list_all wf_arg ps \<Longrightarrow> ps \<noteq> [] \<Longrightarrow> tight (show_args ps)"
proof (induction ps rule: show_args.induct)
  case (3 p q ps)
  then have "tight (show_arg p)" "tight (show_args (q # ps))" using tight_arg by simp_all
  then show ?case using tight_append [of "show_arg p" "show_args (q # ps)" "'', ''"] by (simp add: tight_def)
qed (simp_all add: tight_arg)

lemma parse_args_read: "list_all wf_arg ps \<Longrightarrow> parse_args fl tool (show_args ps) = Inr ps"
proof (cases "ps = []")
  case True
  then show ?thesis by (simp add: parse_args_def trim_def)
next
  case False
  assume wf: "list_all wf_arg ps"
  have "tight (show_args ps)" using wf False by (rule tight_args)
  then have t: "trim (show_args ps) = show_args ps" "show_args ps \<noteq> []"
    by (simp_all add: trim_tight tight_def)
  have "filter (\<lambda>pair. pair \<noteq> []) (map show_arg ps) = map show_arg ps"
    using wf tight_arg by (auto simp: filter_id_conv list_all_iff tight_def)
  moreover have "mapR (parse_pair fl tool) (map show_arg ps) = Inr ps"
    using wf by (simp add: mapR_Inr_list_all2 list_all2_map1 list_all2_same list_all_iff parse_pair_read)
  ultimately show ?thesis
    using t split_show_args [OF wf False, of "[]"] by (simp add: parse_args_def split_top_level_def)
qed

lemma known_tool_name: "t \<in> set KNOWN_TOOLS \<Longrightarrow> t \<noteq> [] \<and> list_all is_name_char t"
  by (auto simp: KNOWN_TOOLS_def is_name_char_def is_lower_def)

lemma name_char_other: "\<not> is_name_char (CHR ''('')" "\<not> is_space (CHR ''('')" "is_space (CHR '' '')" "\<not> is_space (CHR '')'')"
  using special_not_word(9) to_word_char(3) by (auto simp: is_space_def)

lemma step_re_read:
  assumes "wf_id sid" "t \<in> set KNOWN_TOOLS"
  shows "step_re (sid @ ''. '' @ t @ ''('' @ args @ '')'') = Some (sid, t, args)"
proof -
  have a: "dropWhile is_space (sid @ s) = sid @ s" for s
    using assms(1) wf_id_cases [OF assms(1)] by (auto simp: is_space_def)
  have t: "t \<noteq> []" "list_all is_name_char t" using known_tool_name [OF assms(2)] by simp_all
  then have "\<not> is_space (hd t)"
    using to_word_char(3) word_char_not_space by (cases t) auto
  then have b: "dropWhile is_space ('' '' @ t @ s) = t @ s" for s
    using t(1) by (cases t) (simp_all add: name_char_other)
  have c: "span is_name_char (t @ ''('' @ args @ '')'') = (t, ''('' @ args @ '')'')"
    using t(2) by (intro span_append) (simp_all add: name_char_other)
  have d: "strip_prefix ''('' (''('' @ args @ '')'') = Some (args @ '')'')"
    by (rule strip_prefix_append)
  show ?thesis
    using a b c d t(1) step_id_re_read [OF assms(1), of "'' '' @ t @ ''('' @ args @ '')''"]
    by (simp add: step_re_def name_char_other)
qed

lemma looks_like_step_show: "wf_id sid \<Longrightarrow> looks_like_step (sid @ s)"
  using wf_id_cases [of sid] by (auto simp: looks_like_step_def starts_with_iff neq_Nil_conv nth_append)

lemma tight_step: "wf_step st \<Longrightarrow> tight (show_step st)"
  using wf_id_cases [of "st_id st"]
  by (auto simp: tight_def show_step_def wf_step_def is_space_def)

lemma parse_line_read: "wf_step st \<Longrightarrow> parse_line fl i (show_step st) = Inr (Some st)"
proof -
  assume wf: "wf_step st"
  then have "trim (show_step st) = show_step st" "show_step st \<noteq> []" "looks_like_step (show_step st)"
    using tight_step [of st] trim_tight [of "show_step st"]
      looks_like_step_show [of "st_id st" "''. '' @ st_tool st @ ''('' @ show_args (st_args st) @ '')''"]
    by (simp_all add: tight_def wf_step_def show_step_def)
  moreover have "step_re (show_step st) = Some (st_id st, st_tool st, show_args (st_args st))"
    using wf unfolding show_step_def wf_step_def by (intro step_re_read) simp_all
  ultimately show ?thesis
    using wf by (simp add: parse_line_def wf_step_def parse_args_read)
qed

text \<open>A line of prose: it does not look like a step.\<close>

definition prose :: "string \<Rightarrow> bool" where
  "prose l \<longleftrightarrow> \<not> looks_like_step (trim l)"

lemma parse_line_prose: "prose l \<Longrightarrow> parse_line fl i l = Inr None"
  by (simp add: parse_line_def prose_def Let_def)

definition one_line :: "string \<Rightarrow> bool" where
  "one_line l \<longleftrightarrow> newline \<notin> set l \<and> (l = [] \<or> last l \<noteq> CHR 0x0D)"

lemma str_lines_unlines:
  "list_all one_line ls \<Longrightarrow> str_lines (concat (map (\<lambda>l. l @ [newline]) ls)) = ls"
proof (induction ls)
  case (Cons l ls)
  have "takeWhile (\<lambda>c. c \<noteq> newline) (l @ newline # s) = l" for s
    using Cons.prems by (subst takeWhile_append2) (auto simp: one_line_def)
  moreover have "strip_cr l = l" using Cons.prems by (auto simp: one_line_def strip_cr_def)
  ultimately show ?case using Cons by (subst str_lines.simps) (simp add: Let_def)
qed (simp add: str_lines.simps)

lemma value_one_line: "wf_value a \<Longrightarrow> newline \<notin> set (show_value a)"
proof (induction a rule: wf_value.induct)
  case (5 sid f)
  then show ?case
    using list_all_word_char_notin [OF wf_id_word special_not_word(2), of sid]
      list_all_word_char_notin [OF wf_field_word special_not_word(2), of f] by simp
qed (simp_all add: list_all_word_char_notin [OF digits_word special_not_word(2)])

lemma args_one_line: "list_all wf_arg ps \<Longrightarrow> newline \<notin> set (show_args ps)"
proof (induction ps rule: show_args.induct)
  case (2 p)
  then show ?case using value_one_line list_all_word_char_notin [OF _ special_not_word(2)]
    by (simp add: show_arg_def wf_arg_def)
next
  case (3 p q ps)
  then have "newline \<notin> set (show_arg p)"
    using value_one_line list_all_word_char_notin [OF _ special_not_word(2)]
    by (simp add: show_arg_def wf_arg_def)
  with 3 show ?case by simp
qed simp

lemma step_one_line: "wf_step st \<Longrightarrow> one_line (show_step st)"
proof -
  assume wf: "wf_step st"
  then have "newline \<notin> set (st_id st)" "newline \<notin> set (show_args (st_args st))"
    using list_all_word_char_notin [OF wf_id_word special_not_word(2)] args_one_line
    by (simp_all add: wf_step_def)
  moreover have "newline \<notin> set (st_tool st)"
    using wf known_tool_name list_all_word_char_notin [OF list_all_mono' [OF _ to_word_char(3)] special_not_word(2)]
    by (auto simp: wf_step_def)
  ultimately show ?thesis by (simp add: one_line_def show_step_def)
qed

section \<open>Properties\<close>

text \<open>The text of a planner: lines of prose (\<open>Inl\<close>) and printed steps (\<open>Inr\<close>).\<close>

definition show_line :: "string + step \<Rightarrow> string" where
  "show_line x = (case x of Inl l \<Rightarrow> l | Inr st \<Rightarrow> show_step st)"

definition show_plan :: "(string + step) list \<Rightarrow> string" where
  "show_plan xs = concat (map (\<lambda>x. show_line x @ [newline]) xs)"

definition plan_steps :: "(string + step) list \<Rightarrow> step list" where
  "plan_steps xs = concat (map (\<lambda>x. case x of Inl l \<Rightarrow> [] | Inr st \<Rightarrow> [st]) xs)"

definition wf_line :: "string + step \<Rightarrow> bool" where
  "wf_line x \<longleftrightarrow> (case x of Inl l \<Rightarrow> prose l \<and> one_line l | Inr st \<Rightarrow> wf_step st)"

lemma parse_lines_read:
  "list_all wf_line xs \<Longrightarrow> parse_lines fl i (map show_line xs) = Inr (plan_steps xs)"
  by (induction xs arbitrary: i)
     (auto simp: wf_line_def show_line_def plan_steps_def parse_line_prose parse_line_read split: sum.splits)


abbreviation sample_plan :: "(string + step) list" where
  "sample_plan \<equiv>
     [Inl ''Here is the plan:'',
      Inr \<lparr>st_id = ''step1'', st_tool = ''http_fetch'',
           st_args = [(''url'', Literal (JString ''http://a.b/?x={{1}},(2)'')), (''max_bytes'', Literal (JNumber (PosInt 64)))]\<rparr>,
      Inr \<lparr>st_id = ''step2'', st_tool = ''final'', st_args = [(''answer'', Ref ''step1'' ''body'')]\<rparr>]"




end
