(* ===== verification/Prompt.thy ===== *)
theory Prompt
  imports Text
begin

text \<open>
  The prompts of the planner (\<open>src/services/llm/src/agent/prompt.rs\<close>). The dash, ellipsis and
  arrow characters of the text are their UTF-8 bytes.
\<close>

definition lf :: string where "lf = [CHR 0x0A]"
definition em_dash :: string where "em_dash = [CHR 0xE2, CHR 0x80, CHR 0x94]"
definition en_dash :: string where "en_dash = [CHR 0xE2, CHR 0x80, CHR 0x93]"
definition ellipsis :: string where "ellipsis = [CHR 0xE2, CHR 0x80, CHR 0xA6]"
definition arrow :: string where "arrow = [CHR 0xE2, CHR 0x86, CHR 0x92]"

definition unlines :: "string list \<Rightarrow> string" where
  "unlines ls = concat (map (\<lambda>l. l @ lf) ls)"

definition PLANNER_SYSTEM :: string where
  "PLANNER_SYSTEM = unlines
     [''You are the PLANNER half of an HRM-Text agent. Your job: emit a numbered list'',
      ''of tool calls in this exact format:'',
      [],
      ''  step1. tool_name(arg=value, arg=value)'',
      ''  step2. tool_name(...)'',
      ''  step3. final(answer=\"'' @ ellipsis @ ''\")'',
      [],
      ''Rules:'',
      ''- One step per line. Lowercase tool names. No prose, no markdown, no code fences.'',
      ''- The LAST step MUST be final(answer=\"...\") with the user-facing reply.'',
      ''- Reference earlier results with {{stepN.field}} '' @ em_dash @ '' never invent fields.'',
      ''- Max 8 steps. Prefer 1'' @ en_dash @ ''3.'',
      ''- If the user asks something you can answer from text alone, emit only:'',
      ''    step1. final(answer=\"'' @ ellipsis @ ''\")'',
      [],
      ''Available tools (name '' @ arrow @ '' return fields):'',
      ''  classify(image, top_k)                       '' @ arrow @ '' label, confidence, all'',
      ''  detect(image, model_version, model_size)     '' @ arrow @ '' count, labels, raw'',
      ''  vision(image)                                '' @ arrow @ '' description'',
      ''  reflect(prompt, max_tokens)                  '' @ arrow @ '' output'',
      ''  tts(text, voice)                             '' @ arrow @ '' audio_url, duration_ms'',
      ''  stt(audio)                                   '' @ arrow @ '' transcript'',
      ''  http_fetch(url, max_bytes)                   '' @ arrow @ '' status, body'',
      ''  final(answer)                                '' @ arrow @ '' terminates the run'']"

definition build_planner_prompt :: "string \<Rightarrow> string \<Rightarrow> string" where
  "build_planner_prompt user_msg input_summary =
     PLANNER_SYSTEM @ lf @ ''User request:'' @ lf @ user_msg @
     (if input_summary \<noteq> [] then lf @ input_summary else []) @
     lf @ lf @ ''Plan:'' @ lf"

definition build_repair_prompt :: "string \<Rightarrow> string \<Rightarrow> string" where
  "build_repair_prompt prev_output parse_err = unlines
     [''You produced output that does not parse as a plan. The parser said:'',
      parse_err,
      [],
      ''Your previous output was:'',
      prev_output,
      [],
      ''Re-emit the SAME plan in the exact line-oriented format described earlier. No'',
      ''prose, no markdown, no code fences. The last step MUST be final(answer=\"...\").'',
      [],
      ''Plan:'']"

end
