(* ===== verification/Executor.thy ===== *)
theory Executor
  imports Dsl Prompt Utf8
begin

text \<open>
  The agent's executor (\<open>src/services/llm/src/agent/executor.rs\<close>, events of \<open>agent/sse.rs\<close>): a
  run is a function of the world to the events it sends, in order. The planner, the tools, the
  clock, the test for a disconnected client and the length of a serialised value are the
  environment; each reading of the clock takes the world on. What is sent to a client that is
  gone is lost; the model keeps it in the list.
\<close>

section \<open>Events and context\<close>

datatype input = Image string string | Audio string string | TextInput string

record plan_step =
  ps_id :: string
  ps_tool :: string
  ps_args :: val

datatype agent_event =
  RunStart string string u64 nat
| Plan "plan_step list" nat
| StepStart nat string string val
| StepResult nat string bool "val option" "string option" nat
| Error string string
| Final string nat nat bool

fun event_name :: "agent_event \<Rightarrow> string" where
  "event_name (RunStart _ _ _ _) = ''run_start''"
| "event_name (Plan _ _) = ''plan''"
| "event_name (StepStart _ _ _ _) = ''step_start''"
| "event_name (StepResult _ _ _ _ _ _) = ''step_result''"
| "event_name (Error _ _) = ''error''"
| "event_name (Final _ _ _ _) = ''final''"

text \<open>\<open>json\<close> is what \<open>serde_json::to_string\<close> makes of the event, if it can.\<close>

definition to_sse_frame :: "(agent_event \<Rightarrow> string option) \<Rightarrow> agent_event \<Rightarrow> string" where
  "to_sse_frame json ev =
     ''event: '' @ event_name ev @ lf @ ''data: '' @
     (case json ev of Some s \<Rightarrow> s | None \<Rightarrow> ''{}'') @ lf @ lf"

record exec_options =
  eo_max_steps :: nat
  eo_max_run_ms :: u64
  eo_per_tool_ms :: u64
  eo_planner_temperature :: real
  eo_planner_max_tokens :: u32
  eo_sse_event_buffer :: nat
  eo_field_trim_above :: nat
  eo_per_run_bytes :: nat

record run_context =
  rc_started_at :: nat
  rc_deadline :: nat
  rc_inputs :: "string \<Rightarrow> input option"
  rc_results :: "(string \<times> val) list"
  rc_results_bytes :: nat
  rc_steps_executed :: nat

record 'w env =
  ev_clock :: "'w \<Rightarrow> nat \<times> 'w"
  ev_closed :: "'w \<Rightarrow> bool"
  ev_ulid :: "'w \<Rightarrow> string \<times> 'w"
  ev_propose :: "string \<Rightarrow> u32 \<Rightarrow> real \<Rightarrow> 'w \<Rightarrow> (string + string) \<times> 'w"
  ev_registry :: "'w tool_registry"
  ev_json_len :: "val \<Rightarrow> nat"
  ev_fl :: rnd

definition ms_nanos :: "u64 \<Rightarrow> nat" where
  "ms_nanos ms = unat ms * 10 ^ 6"

definition as_millis :: "nat \<Rightarrow> nat" where
  "as_millis d = d div 10 ^ 6"

section \<open>Arguments\<close>

definition input_summary :: "(string \<Rightarrow> input option) \<Rightarrow> string" where
  "input_summary inputs = (case inputs ''input'' of
     Some (Image _ _) \<Rightarrow> ''Image attached.''
   | Some (Audio _ _) \<Rightarrow> ''Audio attached.''
   | Some (TextInput _) \<Rightarrow> ''Extra text input attached.''
   | None \<Rightarrow> [])"

definition data_uri :: "string \<Rightarrow> string \<Rightarrow> string" where
  "data_uri mime b64 = ''data:'' @ mime @ '';base64,'' @ b64"

definition error_field :: "val \<Rightarrow> val" where
  "error_field step_result =
     JString (case Option.bind (vget ''error'' step_result) as_str of Some s \<Rightarrow> s | None \<Rightarrow> [])"

definition resolve_arg :: "run_context \<Rightarrow> arg_value \<Rightarrow> string + val" where
  "resolve_arg ctx a =
     (case a of
        Literal v \<Rightarrow>
          if as_str v = Some ''input''
          then case rc_inputs ctx ''input'' of
                 Some (Image b64 mime) \<Rightarrow> Inr (JString (data_uri mime b64))
               | Some (Audio b64 mime) \<Rightarrow> Inr (JString (data_uri mime b64))
               | Some (TextInput value) \<Rightarrow> Inr (JString value)
               | None \<Rightarrow> Inl ''`input` referenced but no input staged''
          else Inr v
      | Ref step_id field \<Rightarrow>
          (case map_of (rc_results ctx) step_id of
             None \<Rightarrow> Inl (''step `'' @ step_id @ ''` has not run'')
           | Some step_result \<Rightarrow>
               if field = ''error'' then Inr (error_field step_result)
               else case vget field step_result of
                      None \<Rightarrow> Inl (''step `'' @ step_id @ ''` has no field `'' @ field @ ''`'')
                    | Some v \<Rightarrow> Inr v))"

definition resolve_step_args :: "step \<Rightarrow> run_context \<Rightarrow> string + val" where
  "resolve_step_args st ctx =
     bindR (mapR (\<lambda>(k, a). bindR (resolve_arg ctx a) (\<lambda>v. Inr (k, v))) (st_args st))
       (\<lambda>kvs. Inr (JObject (foldl (\<lambda>m (k, v). AList.update k v m) [] kvs)))"

section \<open>Results\<close>

definition trim_field :: "nat \<Rightarrow> val \<Rightarrow> val" where
  "trim_field threshold v =
     (case v of
        JString s \<Rightarrow>
          if threshold < length s
          then JString (utf8_floor (take threshold s) @ ''...<truncated, original '' @ show_nat (length s) @ ''B>'')
          else v
      | _ \<Rightarrow> v)"

definition trim_large_fields :: "val \<Rightarrow> nat \<Rightarrow> val" where
  "trim_large_fields v threshold =
     (case v of JObject ps \<Rightarrow> JObject (map (\<lambda>(k, x). (k, trim_field threshold x)) ps) | _ \<Rightarrow> v)"

definition redact_field :: "val \<Rightarrow> val" where
  "redact_field v =
     (case v of
        JString s \<Rightarrow> if starts_with s ''data:'' \<and> 64 < length s
                     then JString (''<'' @ show_nat (length s) @ ''B data uri>'') else v
      | _ \<Rightarrow> v)"

definition redact_for_sse :: "val \<Rightarrow> val" where
  "redact_for_sse args =
     (case args of JObject ps \<Rightarrow> JObject (map (\<lambda>(k, x). (k, redact_field x)) ps) | _ \<Rightarrow> args)"

definition no_plan :: string where
  "no_plan = ''I couldn'' @ [CHR 0x27] @ ''t form a plan for this request.''"

definition fallback_answer :: "(string \<times> val) list \<Rightarrow> string" where
  "fallback_answer results =
     (if results = [] then no_plan
      else
        let r = the (map_of results (last (sort (map fst results))))
        in case Option.bind (vget ''output'' r) as_str of
             Some out \<Rightarrow> out
           | None \<Rightarrow>
               (case Option.bind (vget ''answer'' r) as_str of
                  Some ans \<Rightarrow> ans
                | None \<Rightarrow> ''I ran into trouble completing this. (No final step.)''))"

definition synthesized_final :: "'w env \<Rightarrow> run_context \<Rightarrow> bool \<Rightarrow> 'w \<Rightarrow> agent_event list \<times> 'w" where
  "synthesized_final env ctx completed w =
     (let (now, w') = ev_clock env w
      in ([Final (fallback_answer (rc_results ctx)) (length (rc_results ctx))
             (as_millis (now - rc_started_at ctx)) completed], w'))"

section \<open>One step\<close>

datatype loop_outcome = Continue | Break | Return

definition put_result :: "string \<Rightarrow> val \<Rightarrow> run_context \<Rightarrow> run_context" where
  "put_result sid v ctx = ctx\<lparr>rc_results := AList.update sid v (rc_results ctx)\<rparr>"

definition error_value :: "string \<Rightarrow> val" where
  "error_value e = JObject [(''error'', JString e)]"

text \<open>What becomes of a tool's result: its event and the context.\<close>

definition record_result ::
  "'w env \<Rightarrow> exec_options \<Rightarrow> nat \<Rightarrow> string \<Rightarrow> nat \<Rightarrow> tool_error + val \<Rightarrow> run_context \<Rightarrow>
   agent_event \<times> run_context" where
  "record_result env opts i sid dur r ctx =
     (case r of
        Inr value \<Rightarrow>
          let trimmed = trim_large_fields value (eo_field_trim_above opts);
              ctx' = ctx\<lparr>rc_results_bytes := rc_results_bytes ctx + ev_json_len env trimmed\<rparr>
          in (StepResult (i + 1) sid True (Some trimmed) None dur, put_result sid trimmed ctx')
      | Inl e \<Rightarrow>
          (StepResult (i + 1) sid False None (Some (tool_error_msg e)) dur,
           put_result sid (error_value (tool_error_msg e)) ctx))"

text \<open>After the result: the step \<open>final\<close> ends the run, too many bytes end the loop.\<close>

definition after_result ::
  "'w env \<Rightarrow> exec_options \<Rightarrow> step \<Rightarrow> run_context \<Rightarrow> 'w \<Rightarrow> agent_event list \<times> loop_outcome \<times> 'w" where
  "after_result env opts st ctx w =
     (if st_tool st = ''final''
      then
        let answer = (case Option.bind (Option.bind (map_of (rc_results ctx) (st_id st)) (vget ''answer'')) as_str of
                        Some s \<Rightarrow> s | None \<Rightarrow> []);
            (now, w') = ev_clock env w
        in ([Final answer (rc_steps_executed ctx) (as_millis (now - rc_started_at ctx)) True], Return, w')
      else if eo_per_run_bytes opts < rc_results_bytes ctx
      then ([Error ''result_budget_exceeded''
               (''accumulated result size '' @ show_nat (rc_results_bytes ctx) @ ''B exceeds budget '' @
                show_nat (eo_per_run_bytes opts) @ ''B '' @ em_dash @ '' stopping run'')], Break, w)
      else ([], Continue, w))"

definition run_step ::
  "'w env \<Rightarrow> exec_options \<Rightarrow> nat \<Rightarrow> step \<Rightarrow> run_context \<Rightarrow> 'w \<Rightarrow>
   agent_event list \<times> loop_outcome \<times> run_context \<times> 'w" where
  "run_step env opts i st ctx w =
     (if eo_max_steps opts \<le> i then ([], Break, ctx, w)
      else
        let (now, w) = ev_clock env w
        in if rc_deadline ctx \<le> now
           then ([Error ''deadline_exceeded'' (''hit '' @ show_nat (unat (eo_max_run_ms opts)) @ ''ms cap'')],
                 Break, ctx, w)
           else if ev_closed env w then ([], Return, ctx, w)
           else
             let ctx1 = ctx\<lparr>rc_steps_executed := rc_steps_executed ctx + 1\<rparr>
             in case resolve_step_args st ctx of
                  Inl e \<Rightarrow>
                    ([StepResult (i + 1) (st_id st) False None (Some (''ref_unresolved: '' @ e)) 0], Continue,
                     put_result (st_id st) (error_value (''ref_unresolved: '' @ e)) ctx1, w)
                | Inr resolved \<Rightarrow>
                    let (now, w) = ev_clock env w;
                        tool_deadline = min (rc_deadline ctx) (now + ms_nanos (eo_per_tool_ms opts));
                        (started, w) = ev_clock env w;
                        (r, w) = tr_dispatch (ev_registry env) (st_tool st) resolved tool_deadline w;
                        (ended, w) = ev_clock env w;
                        (result, ctx2) =
                          record_result env opts i (st_id st) (as_millis (ended - started)) r ctx1;
                        (evs, outcome, w) = after_result env opts st ctx2 w
                    in (StepStart (i + 1) (st_id st) (st_tool st) (redact_for_sse resolved) # result # evs,
                        outcome, ctx2, w))"

text \<open>The loop; \<open>True\<close> if it returned from the run.\<close>

fun run_steps ::
  "'w env \<Rightarrow> exec_options \<Rightarrow> nat \<Rightarrow> step list \<Rightarrow> run_context \<Rightarrow> 'w \<Rightarrow>
   agent_event list \<times> bool \<times> run_context \<times> 'w" where
  "run_steps env opts i [] ctx w = ([], False, ctx, w)"
| "run_steps env opts i (st # sts) ctx w =
     (let (evs, outcome, ctx, w) = run_step env opts i st ctx w
      in case outcome of
           Break \<Rightarrow> (evs, False, ctx, w)
         | Return \<Rightarrow> (evs, True, ctx, w)
         | Continue \<Rightarrow>
             (let (evs', returned, ctx, w) = run_steps env opts (i + 1) sts ctx w
              in (evs @ evs', returned, ctx, w)))"

section \<open>The run\<close>

text \<open>The plan: the steps and the number of retries, or the error event.\<close>

definition obtain_plan ::
  "'w env \<Rightarrow> exec_options \<Rightarrow> string \<Rightarrow> 'w \<Rightarrow> (agent_event + step list \<times> nat) \<times> 'w" where
  "obtain_plan env opts prompt w =
     (let (raw1, w) = ev_propose env prompt (eo_planner_max_tokens opts) (eo_planner_temperature opts) w
      in case raw1 of
           Inl e \<Rightarrow> (Inl (Error ''planner_failed'' e), w)
         | Inr s1 \<Rightarrow>
             (case parse (ev_fl env) s1 of
                Inr steps \<Rightarrow> (Inr (steps, 0), w)
              | Inl e1 \<Rightarrow>
                  (let (raw2, w) = ev_propose env (build_repair_prompt s1 (parse_error_msg e1))
                                     (eo_planner_max_tokens opts) (eo_planner_temperature opts) w
                   in case raw2 of
                        Inl e \<Rightarrow> (Inl (Error ''planner_failed'' e), w)
                      | Inr s2 \<Rightarrow>
                          (case parse (ev_fl env) s2 of
                             Inr steps \<Rightarrow> (Inr (steps, 1), w)
                           | Inl e2 \<Rightarrow>
                               (Inl (Error ''plan_unparseable''
                                  (''first parse: '' @ parse_error_msg e1 @ ''; second parse: '' @ parse_error_msg e2)),
                                w)))))"

definition plan_payload :: "step list \<Rightarrow> plan_step list" where
  "plan_payload steps =
     map (\<lambda>s. \<lparr>ps_id = st_id s, ps_tool = st_tool s, ps_args = args_as_json s\<rparr>) steps"

definition run_inner ::
  "'w env \<Rightarrow> exec_options \<Rightarrow> string \<Rightarrow> (string \<Rightarrow> input option) \<Rightarrow> 'w \<Rightarrow> agent_event list \<times> 'w" where
  "run_inner env opts user_msg inputs w =
     (let (started_at, w) = ev_clock env w;
          deadline = started_at + ms_nanos (eo_max_run_ms opts);
          (run_id, w) = ev_ulid env w;
          start = RunStart run_id ''hrm-text-1b'' (eo_max_run_ms opts) (eo_max_steps opts);
          ctx = \<lparr>rc_started_at = started_at, rc_deadline = deadline, rc_inputs = inputs, rc_results = [],
                 rc_results_bytes = 0, rc_steps_executed = 0\<rparr>;
          prompt = build_planner_prompt user_msg (input_summary inputs);
          (plan, w) = obtain_plan env opts prompt w
      in case plan of
           Inl err \<Rightarrow>
             (let (evs, w) = synthesized_final env ctx False w in (start # err # evs, w))
         | Inr (steps, retries) \<Rightarrow>
             (let (evs, returned, ctx, w) = run_steps env opts 0 steps ctx w
              in if returned then (start # Plan (plan_payload steps) retries # evs, w)
                 else let (fin, w) = synthesized_final env ctx False w
                      in (start # Plan (plan_payload steps) retries # evs @ fin, w)))"

section \<open>The protocol of a run\<close>

text \<open>
  The phases of a stream after \<open>run_start\<close>, and the events that lead from one to the next:
  \<open>Ready n\<close> is between steps after \<open>n\<close> results, \<open>Running n id\<close> inside step \<open>n + 1\<close>, \<open>Failed n\<close>
  after an error event. \<open>M\<close> is the limit of steps.
\<close>

datatype phase = Started | Ready nat | Running nat string | Failed nat | Finished

definition redacted :: "val \<Rightarrow> bool" where
  "redacted v =
     (case v of
        JObject ps \<Rightarrow>
          list_all (\<lambda>(k, x). case x of JString s \<Rightarrow> \<not> (starts_with s ''data:'' \<and> 64 < length s) | _ \<Rightarrow> True) ps
      | _ \<Rightarrow> True)"

inductive proto :: "nat \<Rightarrow> phase \<Rightarrow> agent_event \<Rightarrow> phase \<Rightarrow> bool" for M where
  planned: "proto M Started (Plan steps retries) (Ready 0)"
| no_plan: "proto M Started (Error kind message) (Failed 0)"
| step_start: "n < M \<Longrightarrow> redacted args \<Longrightarrow>
    proto M (Ready n) (StepStart (Suc n) sid tool args) (Running n sid)"
| step_ok: "proto M (Running n sid) (StepResult (Suc n) sid True (Some v) None dur) (Ready (Suc n))"
| step_error: "proto M (Running n sid) (StepResult (Suc n) sid False None (Some e) dur) (Ready (Suc n))"
| unresolved: "n < M \<Longrightarrow> proto M (Ready n) (StepResult (Suc n) sid False None (Some e) 0) (Ready (Suc n))"
| stopped: "proto M (Ready n) (Error kind message) (Failed n)"
| completed: "0 < n \<Longrightarrow> proto M (Ready n) (Final answer n ms True) Finished"
| synthesized: "p = Ready n \<or> p = Failed n \<Longrightarrow> k \<le> n \<Longrightarrow> proto M p (Final answer k ms False) Finished"

inductive trace :: "nat \<Rightarrow> phase \<Rightarrow> agent_event list \<Rightarrow> phase \<Rightarrow> bool" for M where
  here: "trace M p [] p"
| event: "proto M p e q \<Longrightarrow> trace M q es r \<Longrightarrow> trace M p (e # es) r"

inductive_cases proto_FinishedE [elim!]: "proto M Finished e q"
inductive_cases trace_NilE: "trace M p [] q"
inductive_cases trace_ConsE: "trace M p (e # es) q"
inductive_simps trace_Finished_Cons [simp]: "trace M Finished (e # es) q"
inductive_simps trace_Nil [simp]: "trace M p [] q"

lemma trace_append: "trace M p es q \<Longrightarrow> trace M q fs r \<Longrightarrow> trace M p (es @ fs) r"
  by (induction rule: trace.induct) (auto intro: trace.intros)

lemma trace_one: "proto M p e q \<Longrightarrow> trace M p [e] q"
  by (blast intro: trace.intros)

lemma trace_two: "proto M p e q \<Longrightarrow> proto M q f r \<Longrightarrow> trace M p [e, f] r"
  by (blast intro: trace.intros)

text \<open>What the phases bound: the results sent, and where a \<open>final\<close> event is.\<close>

fun results_left :: "nat \<Rightarrow> phase \<Rightarrow> nat" where
  "results_left M Started = M"
| "results_left M (Ready n) = M - n"
| "results_left M (Running n sid) = M - n"
| "results_left M (Failed n) = M - n"
| "results_left M Finished = 0"

fun is_result :: "agent_event \<Rightarrow> bool" where
  "is_result (StepResult _ _ _ _ _ _) = True"
| "is_result _ = False"

fun is_final :: "agent_event \<Rightarrow> bool" where
  "is_final (Final _ _ _ _) = True"
| "is_final _ = False"

definition sane :: "nat \<Rightarrow> phase \<Rightarrow> bool" where
  "sane M p = (case p of Running n sid \<Rightarrow> n < M | Ready n \<Rightarrow> n \<le> M | _ \<Rightarrow> True)"

lemma proto_sane: "proto M p e q \<Longrightarrow> sane M p \<Longrightarrow> sane M q"
  by (induction rule: proto.induct) (auto simp: sane_def)

lemma proto_results:
  "proto M p e q \<Longrightarrow> sane M p \<Longrightarrow> (if is_result e then 1 else 0) + results_left M q \<le> results_left M p"
  by (induction rule: proto.induct) (auto simp: sane_def)

lemma trace_results: "trace M p es q \<Longrightarrow> sane M p \<Longrightarrow> length (filter is_result es) \<le> results_left M p"
proof (induction rule: trace.induct)
  case (event p e q es r)
  then show ?case using proto_results [of M p e q] proto_sane [of M p e q] by (simp split: if_splits)
qed simp

lemma trace_sane: "trace M p es q \<Longrightarrow> sane M p \<Longrightarrow> sane M q"
  by (induction rule: trace.induct) (auto dest: proto_sane)

lemma proto_final: "proto M p e q \<Longrightarrow> is_final e = (q = Finished)"
  by (induction rule: proto.induct) simp_all

lemma trace_from_Finished: "trace M Finished es q \<Longrightarrow> es = [] \<and> q = Finished"
  by (cases es) auto

lemma trace_final_last:
  "trace M p es q \<Longrightarrow> p \<noteq> Finished \<Longrightarrow>
    \<not> list_ex is_final (butlast es) \<and> (es \<noteq> [] \<longrightarrow> is_final (last es) = (q = Finished))"
proof (induction rule: trace.induct)
  case (event p e q es r)
  show ?case
  proof (cases "q = Finished")
    case True
    then have "es = []" "r = Finished" using event.hyps(2) trace_from_Finished by auto
    with True show ?thesis using proto_final [OF event.hyps(1)] by simp
  next
    case False
    then show ?thesis using event proto_final [OF event.hyps(1)] by (cases es) auto
  qed
qed simp

section \<open>The run follows the protocol\<close>

lemma redacted_redact: "redacted (redact_for_sse v)"
proof (cases v)
  case (JObject ps)
  have "case redact_field x of JString s \<Rightarrow> starts_with s ''data:'' \<longrightarrow> \<not> 64 < length s | _ \<Rightarrow> True" for x
    by (cases x) (auto simp: redact_field_def)
  with JObject show ?thesis by (auto simp: redacted_def redact_for_sse_def list_all_iff)
qed (simp_all add: redacted_def redact_for_sse_def)

lemma length_AList_update: "length (AList.update k v al) \<le> Suc (length al)"
  by (induction al) auto

lemma put_result_simps [simp]:
  "rc_steps_executed (put_result sid v ctx) = rc_steps_executed ctx"
  "length (rc_results (put_result sid v ctx)) \<le> Suc (length (rc_results ctx))"
  by (simp_all add: put_result_def length_AList_update)

lemma record_result_facts:
  assumes "record_result env opts i sid dur r ctx = (e, ctx')"
  shows "proto M (Running i sid) e (Ready (Suc i))" "rc_steps_executed ctx' = rc_steps_executed ctx"
    "length (rc_results ctx') \<le> Suc (length (rc_results ctx))"
  using assms put_result_simps(2)
  by (auto simp: record_result_def Let_def put_result_def length_AList_update split: sum.splits intro: proto.intros)

lemma after_result_trace:
  assumes "after_result env opts st ctx w = (evs, outcome, w')" "rc_steps_executed ctx = n" "0 < n"
  shows "trace M (Ready n) evs
    (case outcome of Continue \<Rightarrow> Ready n | Break \<Rightarrow> Failed n | Return \<Rightarrow> Finished)"
  using assms
  by (auto simp: after_result_def Let_def intro: trace_one proto.intros split: if_splits prod.splits)

text \<open>A context after \<open>n\<close> steps.\<close>

definition ctx_ok :: "nat \<Rightarrow> run_context \<Rightarrow> bool" where
  "ctx_ok n ctx \<longleftrightarrow> rc_steps_executed ctx = n \<and> length (rc_results ctx) \<le> n"

definition stop_phase :: "nat \<Rightarrow> phase \<Rightarrow> bool" where
  "stop_phase n p \<longleftrightarrow> p = Ready n \<or> p = Failed n"

lemma run_step_trace:
  assumes "run_step env opts i st ctx w = (evs, outcome, ctx', w')" "ctx_ok i ctx"
  shows "case outcome of
      Continue \<Rightarrow> trace (eo_max_steps opts) (Ready i) evs (Ready (Suc i)) \<and> ctx_ok (Suc i) ctx'
    | Break \<Rightarrow> (\<exists>n p. trace (eo_max_steps opts) (Ready i) evs p \<and> stop_phase n p \<and> ctx_ok n ctx')
    | Return \<Rightarrow> trace (eo_max_steps opts) (Ready i) evs Finished \<or> evs = [] \<and> (\<exists>w. ev_closed env w)"
proof (cases "eo_max_steps opts \<le> i")
  case True
  then show ?thesis using assms by (auto simp: run_step_def stop_phase_def)
next
  case False
  let ?M = "eo_max_steps opts"
  obtain now w1 where c1: "ev_clock env w = (now, w1)" by fastforce
  consider (late) "rc_deadline ctx \<le> now" | (closed) "\<not> rc_deadline ctx \<le> now" "ev_closed env w1"
    | (unresolved) e where "\<not> rc_deadline ctx \<le> now" "\<not> ev_closed env w1" "resolve_step_args st ctx = Inl e"
    | (run) v where "\<not> rc_deadline ctx \<le> now" "\<not> ev_closed env w1" "resolve_step_args st ctx = Inr v"
    by (cases "resolve_step_args st ctx") auto
  then show ?thesis
  proof cases
    case late
    with assms False c1 show ?thesis
      by (auto simp: run_step_def stop_phase_def intro!: trace_one proto.stopped)
  next
    case closed
    with assms False c1 show ?thesis by (auto simp: run_step_def)
  next
    case unresolved
    let ?ctx = "ctx\<lparr>rc_steps_executed := rc_steps_executed ctx + 1\<rparr>"
    have "length (rc_results (put_result (st_id st) v ?ctx)) \<le> Suc (length (rc_results ctx))" for v
      using put_result_simps(2) [of "st_id st" v ?ctx] by simp
    with unresolved assms False c1 show ?thesis
      by (auto simp: run_step_def ctx_ok_def intro!: trace_one proto.unresolved intro: le_trans)
  next
    case run
    let ?ctx = "ctx\<lparr>rc_steps_executed := rc_steps_executed ctx + 1\<rparr>"
    obtain t2 w2 where c2: "ev_clock env w1 = (t2, w2)" by fastforce
    obtain t3 w3 where c3: "ev_clock env w2 = (t3, w3)" by fastforce
    obtain r w4 where d: "tr_dispatch (ev_registry env) (st_tool st) v
        (min (rc_deadline ctx) (t2 + ms_nanos (eo_per_tool_ms opts))) w3 = (r, w4)" by fastforce
    obtain t5 w5 where c5: "ev_clock env w4 = (t5, w5)" by fastforce
    obtain e ctx2 where rr: "record_result env opts i (st_id st) (as_millis (t5 - t3)) r ?ctx = (e, ctx2)"
      by fastforce
    obtain evs2 out2 w6 where ar: "after_result env opts st ctx2 w5 = (evs2, out2, w6)"
      by (metis prod_cases3)
    have eq: "evs = StepStart (i + 1) (st_id st) (st_tool st) (redact_for_sse v) # e # evs2"
      "outcome = out2" "ctx' = ctx2"
      using assms(1) False run c1 c2 c3 d c5 rr ar by (simp_all add: run_step_def)
    have ok: "ctx_ok (Suc i) ctx2"
      using record_result_facts(2,3) [OF rr] assms(2) by (simp add: ctx_ok_def)
    have "proto ?M (Ready i) (StepStart (Suc i) (st_id st) (st_tool st) (redact_for_sse v)) (Running i (st_id st))"
      using False redacted_redact by (intro proto.step_start) simp_all
    then have two: "trace ?M (Ready i) [StepStart (Suc i) (st_id st) (st_tool st) (redact_for_sse v), e] (Ready (Suc i))"
      using record_result_facts(1) [OF rr] by (rule trace_two)
    have "trace ?M (Ready (Suc i)) evs2
      (case out2 of Continue \<Rightarrow> Ready (Suc i) | Break \<Rightarrow> Failed (Suc i) | Return \<Rightarrow> Finished)"
      using after_result_trace [OF ar] ok by (simp add: ctx_ok_def)
    from trace_append [OF two this] eq ok show ?thesis
      by (auto simp: stop_phase_def split: loop_outcome.splits)
  qed
qed

lemma run_steps_trace:
  assumes "run_steps env opts i sts ctx w = (evs, returned, ctx', w')" "ctx_ok i ctx"
  shows "if returned
    then \<exists>p. trace (eo_max_steps opts) (Ready i) evs p \<and> (p = Finished \<or> (\<exists>n. p = Ready n) \<and> (\<exists>w. ev_closed env w))
    else \<exists>n p. trace (eo_max_steps opts) (Ready i) evs p \<and> stop_phase n p \<and> ctx_ok n ctx'"
  using assms
proof (induction env opts i sts ctx w arbitrary: evs returned ctx' w' rule: run_steps.induct)
  case (1 env opts i ctx w)
  then show ?case by (auto simp: stop_phase_def)
next
  case (2 env opts i st sts ctx w)
  obtain es out c v where step: "run_step env opts i st ctx w = (es, out, c, v)"
    by (metis prod_cases4)
  note tr = run_step_trace [OF step 2(3)]
  show ?case
  proof (cases out)
    case Continue
    obtain es2 ret2 c2 v2 where rest: "run_steps env opts (i + 1) sts c v = (es2, ret2, c2, v2)"
      by (metis prod_cases4)
    have t1: "trace (eo_max_steps opts) (Ready i) es (Ready (Suc i))" "ctx_ok (i + 1) c"
      using tr Continue by simp_all
    have eq: "evs = es @ es2" "returned = ret2" "ctx' = c2" using 2(2) step rest Continue by simp_all
    from 2(1) [OF step [symmetric] refl refl refl Continue rest t1(2)] trace_append [OF t1(1)]
    show ?thesis unfolding eq by (simp split: if_splits) blast+
  next
    case Break
    with 2(2) step have "evs = es" "\<not> returned" "ctx' = c" by simp_all
    with tr Break show ?thesis by simp
  next
    case Return
    with 2(2) step have "evs = es" "returned" by simp_all
    with tr Return show ?thesis by auto
  qed
qed

lemma synthesized_final_trace:
  assumes "synthesized_final env ctx False w = (evs, w')" "stop_phase n p" "ctx_ok n ctx"
  shows "trace M p evs Finished"
  using assms
  by (auto simp: synthesized_final_def stop_phase_def ctx_ok_def intro!: trace_one proto.synthesized split: prod.splits)

lemma obtain_plan_error:
  "obtain_plan env opts prompt w = (Inl e, w') \<Longrightarrow> \<exists>kind message. e = Error kind message"
  by (auto simp: obtain_plan_def split: prod.splits sum.splits)

lemma run_inner_trace:
  assumes "run_inner env opts user_msg inputs w = (evs, w')"
  shows "\<exists>run_id es p. evs = RunStart run_id ''hrm-text-1b'' (eo_max_run_ms opts) (eo_max_steps opts) # es \<and>
    trace (eo_max_steps opts) Started es p \<and> (p = Finished \<or> (\<exists>n. p = Ready n) \<and> (\<exists>w. ev_closed env w))"
proof -
  let ?M = "eo_max_steps opts"
  obtain t0 w0 where c0: "ev_clock env w = (t0, w0)" by fastforce
  obtain run_id w1 where u: "ev_ulid env w0 = (run_id, w1)" by fastforce
  define ctx where "ctx = \<lparr>rc_started_at = t0, rc_deadline = t0 + ms_nanos (eo_max_run_ms opts),
    rc_inputs = inputs, rc_results = [], rc_results_bytes = 0, rc_steps_executed = 0\<rparr>"
  have ok: "ctx_ok 0 ctx" by (simp add: ctx_def ctx_ok_def)
  obtain plan w2 where pl:
    "obtain_plan env opts (build_planner_prompt user_msg (input_summary inputs)) w1 = (plan, w2)" by fastforce
  let ?start = "RunStart run_id ''hrm-text-1b'' (eo_max_run_ms opts) ?M"
  have run: "run_inner env opts user_msg inputs w =
    (case plan of
       Inl err \<Rightarrow> (let (es, w) = synthesized_final env ctx False w2 in (?start # err # es, w))
     | Inr (steps, retries) \<Rightarrow>
         (let (es, returned, ctx, w) = run_steps env opts 0 steps ctx w2
          in if returned then (?start # Plan (plan_payload steps) retries # es, w)
             else let (fin, w) = synthesized_final env ctx False w
                  in (?start # Plan (plan_payload steps) retries # es @ fin, w)))"
    unfolding run_inner_def ctx_def using c0 u pl by (simp add: Let_def)
  have "\<exists>es p. evs = ?start # es \<and> trace ?M Started es p \<and>
    (p = Finished \<or> (\<exists>n. p = Ready n) \<and> (\<exists>w. ev_closed env w))"
  proof (cases plan)
    case (Inl err)
    obtain es w3 where fin: "synthesized_final env ctx False w2 = (es, w3)" by fastforce
    obtain kind message where "err = Error kind message" using obtain_plan_error pl unfolding Inl by metis
    moreover have "trace ?M (Failed 0) es Finished"
      using synthesized_final_trace [OF fin, of 0 "Failed 0"] ok by (simp add: stop_phase_def)
    ultimately have "trace ?M Started (err # es) Finished" by (simp add: trace.event [OF proto.no_plan])
    with assms run Inl fin show ?thesis by auto
  next
    case (Inr pr)
    obtain steps retries where sr: "plan = Inr (steps, retries)" using Inr by (cases pr) simp
    obtain es returned ctx2 w3 where st: "run_steps env opts 0 steps ctx w2 = (es, returned, ctx2, w3)"
      by (metis prod_cases4)
    let ?plan = "Plan (plan_payload steps) retries"
    have start: "trace ?M Started (?plan # fs) q" if "trace ?M (Ready 0) fs q" for fs q
      using that by (rule trace.event [OF proto.planned])
    show ?thesis
    proof (cases returned)
      case True
      with assms run sr st have "evs = ?start # ?plan # es" by simp
      with run_steps_trace [OF st ok] True start show ?thesis by auto
    next
      case False
      obtain fin w4 where fin: "synthesized_final env ctx2 False w3 = (fin, w4)" by fastforce
      obtain n p where np: "trace ?M (Ready 0) es p" "stop_phase n p" "ctx_ok n ctx2"
        using run_steps_trace [OF st ok] False by auto
      have "trace ?M (Ready 0) (es @ fin) Finished"
        using np(1) synthesized_final_trace [OF fin np(2,3)] by (rule trace_append)
      with assms run sr st fin False start show ?thesis by auto
    qed
  qed
  then show ?thesis by blast
qed

section \<open>Properties\<close>

text \<open>
  C15. Every run, whatever the planner, the tools and the clock do, sends \<open>run_start\<close> and then a
  stream of the protocol: a plan or an error, each started step followed by its result, step
  numbers without gaps, no data URI in the arguments shown. It sends at most \<open>max_steps\<close>
  results, and \<open>final\<close> once and last, unless the client has disconnected.
\<close>

theorem run_follows_protocol:
  assumes "run_inner env opts user_msg inputs w = (evs, w')"
  shows "\<exists>run_id es p. evs = RunStart run_id ''hrm-text-1b'' (eo_max_run_ms opts) (eo_max_steps opts) # es \<and>
    trace (eo_max_steps opts) Started es p \<and>
    length (filter is_result es) \<le> eo_max_steps opts \<and>
    \<not> list_ex is_final (butlast es) \<and>
    (is_final (last es) \<or> (\<exists>n. p = Ready n) \<and> (\<exists>w. ev_closed env w))"
proof -
  obtain run_id es p where es:
    "evs = RunStart run_id ''hrm-text-1b'' (eo_max_run_ms opts) (eo_max_steps opts) # es"
    "trace (eo_max_steps opts) Started es p"
    "p = Finished \<or> (\<exists>n. p = Ready n) \<and> (\<exists>w. ev_closed env w)"
    using run_inner_trace [OF assms] by blast
  have "es \<noteq> []" using es(2,3) by auto
  with trace_final_last [OF es(2)] es trace_results [OF es(2)] show ?thesis
    by (intro exI [of _ run_id] exI [of _ es] exI [of _ p]) (auto simp: sane_def)
qed

abbreviation sample_env :: "nat env" where
  "sample_env \<equiv> \<lparr>ev_clock = \<lambda>w. (w, w + 1), ev_closed = \<lambda>w. False, ev_ulid = \<lambda>w. (''r'', w),
     ev_propose = \<lambda>p n t w. (Inl ''down'', w), ev_registry = tr_new, ev_json_len = \<lambda>v. 0, ev_fl = exact\<rparr>"

abbreviation sample_opts :: exec_options where
  "sample_opts \<equiv> \<lparr>eo_max_steps = 3, eo_max_run_ms = 1000, eo_per_tool_ms = 10, eo_planner_temperature = 0,
     eo_planner_max_tokens = 64, eo_sse_event_buffer = 8, eo_field_trim_above = 100, eo_per_run_bytes = 1000\<rparr>"

theorem run_follows_protocol_witness:
  "is_final (last (fst (run_inner sample_env sample_opts ''hi'' Map.empty 0))) \<and>
   fst (run_inner sample_env sample_opts ''hi'' Map.empty 0) =
     [RunStart ''r'' ''hrm-text-1b'' 1000 3, Error ''planner_failed'' ''down'', Final no_plan 0 0 False]"
proof
  obtain evs w' where run: "run_inner sample_env sample_opts ''hi'' Map.empty 0 = (evs, w')" by fastforce
  show eq: "fst (run_inner sample_env sample_opts ''hi'' Map.empty 0) =
     [RunStart ''r'' ''hrm-text-1b'' 1000 3, Error ''planner_failed'' ''down'', Final no_plan 0 0 False]"
    by (simp add: run_inner_def obtain_plan_def synthesized_final_def fallback_answer_def as_millis_def)
  from run_follows_protocol [OF run] eq run
  show "is_final (last (fst (run_inner sample_env sample_opts ''hi'' Map.empty 0)))" by auto
qed

text \<open>The text kept of a trimmed field: a prefix of it.\<close>

lemma trim_field_JString:
  assumes "utf8_valid s"
  shows "\<exists>t. trim_field n (JString s) = JString t \<and> utf8_valid t \<and>
    (length s \<le> n \<longrightarrow> t = s) \<and>
    (n < length s \<longrightarrow> (\<exists>k \<le> n. n \<le> k + 3 \<and>
       t = take k s @ ''...<truncated, original '' @ show_nat (length s) @ ''B>''))"
proof (cases "n < length s")
  case False
  then show ?thesis using assms by (simp add: trim_field_def)
next
  case True
  let ?cut = "utf8_floor (take n s)" and ?mark = "''...<truncated, original '' @ show_nat (length s) @ ''B>''"
  obtain k where k: "k \<le> length (take n s)" "?cut = take k (take n s)" using utf8_floor_prefix by blast
  then have cut: "?cut = take k s" "k \<le> n" "length ?cut = k" using True by (simp_all add: min_def)
  have "n \<le> k + 3" using utf8_floor_take [OF assms, of n] True cut(3) by simp
  moreover have "utf8_valid (?cut @ ?mark)"
  proof -
    have ascii: "utf8_valid (c # cs) = utf8_valid cs" if "of_char c < (128 :: nat)" for c cs
      using that by (subst utf8_valid.simps) (simp add: char_seq_def byte_at_def utf8_width_def)
    have "utf8_valid (xs @ ys) = utf8_valid ys" if "\<forall>c \<in> set xs. of_char c < (128 :: nat)" for xs ys
      using that by (induction xs) (simp_all add: ascii)
    moreover have "\<forall>c \<in> set (show_nat m). of_char c < (128 :: nat)" for m
      using show_nat_digits of_char_digit by fastforce
    ultimately have "utf8_valid ?mark" by (simp add: ascii)
    then show ?thesis by (simp add: utf8_valid_append [OF utf8_floor_valid])
  qed
  ultimately show ?thesis
    using True cut by (intro exI [of _ "take k s @ ?mark"]) (auto simp: trim_field_def)
qed

text \<open>
  Trimming a tool's result keeps every field that is a valid UTF-8 string of at most
  \<open>threshold\<close> bytes, and of a longer one keeps a prefix that ends at a character boundary, at
  most three bytes short of the threshold, with a marker that tells the original length; no
  field is lost, and what is stored is valid UTF-8.
\<close>

theorem trim_keeps_valid_prefix:
  assumes "vget key v = Some (JString s)" "utf8_valid s"
  shows "\<exists>t. vget key (trim_large_fields v n) = Some (JString t) \<and> utf8_valid t \<and>
    (length s \<le> n \<longrightarrow> t = s) \<and>
    (n < length s \<longrightarrow> (\<exists>k \<le> n. n \<le> k + 3 \<and>
       t = take k s @ ''...<truncated, original '' @ show_nat (length s) @ ''B>''))"
proof -
  obtain ps where ps: "v = JObject ps" "map_of ps key = Some (JString s)"
    using assms(1) by (cases v) simp_all
  have "map_of (map (\<lambda>(k, x). (k, trim_field n x)) ps) key = map_option (trim_field n) (map_of ps key)"
    by (simp add: map_of_map)
  then have "vget key (trim_large_fields v n) = Some (trim_field n (JString s))"
    using ps by (simp add: trim_large_fields_def)
  with trim_field_JString [OF assms(2), of n] show ?thesis by auto
qed

theorem trim_keeps_valid_prefix_witness:
  "vget ''body'' (trim_large_fields (JObject [(''body'', JString ''abcd'')]) 2) =
     Some (JString ''ab...<truncated, original 4B>'')"
proof -
  have v: "utf8_valid ''abcd''" "utf8_valid ''ab''"
    by (simp_all add: utf8_valid.simps char_seq_def byte_at_def utf8_width_def)
  have "vget ''body'' (JObject [(''body'', JString ''abcd'')]) = Some (JString ''abcd'')" by simp
  from trim_keeps_valid_prefix [OF this v(1)] obtain t where
    t: "vget ''body'' (trim_large_fields (JObject [(''body'', JString ''abcd'')]) 2) = Some (JString t)"
    by blast
  have "show_nat (Suc (Suc (Suc (Suc 0)))) = ''4''" by (simp add: show_nat.simps digit_def char_of_def bit_iff_odd)
  then have "vget ''body'' (trim_large_fields (JObject [(''body'', JString ''abcd'')]) 2) =
     Some (JString ''ab...<truncated, original 4B>'')"
    using v(2) by (simp add: trim_large_fields_def trim_field_def utf8_floor.simps)
  with t show ?thesis by simp
qed

text \<open>
  A run that ends without \<open>final\<close> answers with the output of the step whose id is the last
  one alphabetically: after steps 9 and 10 with outputs it is that of step 9.
\<close>

theorem fallback_answer_alphabetical:
  "fallback_answer [(''step9'', JObject [(''output'', JString older)]),
                    (''step10'', JObject [(''output'', JString newer)])] = older"
proof -
  have "last (sort [''step9'', ''step10'']) = ''step9''" by (simp add: less_char_def)
  then show ?thesis by (simp add: fallback_answer_def)
qed

end
