(* ===== verification/Errors.thy ===== *)
theory Errors
  imports Json
begin

text \<open>
  The server's errors (\<open>src/src/error.rs\<close>): the internal ones, the ones a client sees, the map
  between them and the response. \<open>io::Error\<close> and \<open>serde_json::Error\<close> are the text they print.
\<close>

datatype inference_error =
  ModelNotFound string | ModelLoadError string | InferenceFailed string | InvalidInput string
| ConfigError string | AuthenticationFailed string | IoError string | SerializationError string
| InternalInferenceError string | GpuError string | InferenceTimeout

fun inference_error_msg :: "inference_error \<Rightarrow> string" where
  "inference_error_msg (ModelNotFound s) = ''Model not found: '' @ s"
| "inference_error_msg (ModelLoadError s) = ''Model load failed: '' @ s"
| "inference_error_msg (InferenceFailed s) = ''Inference failed: '' @ s"
| "inference_error_msg (InvalidInput s) = ''Invalid input: '' @ s"
| "inference_error_msg (ConfigError s) = ''Configuration error: '' @ s"
| "inference_error_msg (AuthenticationFailed s) = ''Authentication failed: '' @ s"
| "inference_error_msg (IoError s) = ''IO error: '' @ s"
| "inference_error_msg (SerializationError s) = ''Serialization error: '' @ s"
| "inference_error_msg (InternalInferenceError s) = ''Internal error: '' @ s"
| "inference_error_msg (GpuError s) = ''GPU error: '' @ s"
| "inference_error_msg InferenceTimeout = ''Timeout''"

datatype api_error =
  BadRequest string | NotFound string | InternalError string | Unauthorized string | Forbidden string
| NotImplemented string | PayloadTooLarge string | ServiceUnavailable string | GatewayTimeout string

fun api_error_msg :: "api_error \<Rightarrow> string" where
  "api_error_msg (BadRequest s) = ''Bad request: '' @ s"
| "api_error_msg (NotFound s) = ''Not found: '' @ s"
| "api_error_msg (InternalError s) = ''Internal server error: '' @ s"
| "api_error_msg (Unauthorized s) = ''Unauthorized: '' @ s"
| "api_error_msg (Forbidden s) = ''Forbidden: '' @ s"
| "api_error_msg (NotImplemented s) = ''Not implemented: '' @ s"
| "api_error_msg (PayloadTooLarge s) = ''Payload too large: '' @ s"
| "api_error_msg (ServiceUnavailable s) = ''Service unavailable: '' @ s"
| "api_error_msg (GatewayTimeout s) = ''Gateway timeout: '' @ s"

fun api_error_of :: "inference_error \<Rightarrow> api_error" where
  "api_error_of (ModelNotFound s) = NotFound s"
| "api_error_of (InvalidInput s) = BadRequest s"
| "api_error_of (AuthenticationFailed s) = Unauthorized s"
| "api_error_of InferenceTimeout = GatewayTimeout ''inference timed out''"
| "api_error_of (GpuError s) = ServiceUnavailable (''GPU: '' @ s)"
| "api_error_of (ModelLoadError s) = ServiceUnavailable (''model load: '' @ s)"
| "api_error_of (ConfigError s) = InternalError (''config error: '' @ s)"
| "api_error_of (InferenceFailed s) = InternalError (''inference failed: '' @ s)"
| "api_error_of (IoError e) = InternalError (''io: '' @ e)"
| "api_error_of (SerializationError e) = InternalError (''serde: '' @ e)"
| "api_error_of (InternalInferenceError s) = InternalError s"

fun status_code :: "api_error \<Rightarrow> nat" where
  "status_code (BadRequest s) = 400"
| "status_code (NotFound s) = 404"
| "status_code (InternalError s) = 500"
| "status_code (Unauthorized s) = 401"
| "status_code (Forbidden s) = 403"
| "status_code (NotImplemented s) = 501"
| "status_code (PayloadTooLarge s) = 413"
| "status_code (ServiceUnavailable s) = 503"
| "status_code (GatewayTimeout s) = 504"

text \<open>The status and the body of the response.\<close>

definition error_response :: "api_error \<Rightarrow> nat \<times> nat json" where
  "error_response e =
     (status_code e,
      JObject [(''error'', JString (api_error_msg e)), (''status'', JNumber (status_code e))])"

end
