(* ===== verification/Security.thy ===== *)
theory Security
  imports Value Digits Floats
begin

text \<open>
  Request validation and input sanitising (\<open>src/src/security/validation.rs\<close>,
  \<open>src/src/security/sanitizer.rs\<close>). What \<open>serde_json::to_string\<close> prints is the argument
  \<open>render\<close>; an error of serialisation never happens for values. Lower case is the ASCII one: no
  other character becomes a letter that a searched pattern needs in a row.
\<close>

section \<open>Validation\<close>

datatype validation_error =
  InputTooLarge nat nat | TooManyInputs nat nat | InvalidModelName string | InvalidValue string
| MaliciousPattern string | ValidationFailed string

record request_validator =
  rv_max_input_size_bytes :: nat
  rv_max_inputs_count :: nat
  rv_max_model_name_length :: nat

definition rv_default :: request_validator where
  "rv_default = \<lparr>rv_max_input_size_bytes = 10000000, rv_max_inputs_count = 100,
     rv_max_model_name_length = 256\<rparr>"

definition rv_new :: "nat \<Rightarrow> nat \<Rightarrow> nat \<Rightarrow> request_validator" where
  "rv_new max_input_size_bytes max_inputs_count max_model_name_length =
     \<lparr>rv_max_input_size_bytes = max_input_size_bytes, rv_max_inputs_count = max_inputs_count,
      rv_max_model_name_length = max_model_name_length\<rparr>"

text \<open>\<open>^[a-zA-Z0-9_\-\.]+$\<close>\<close>

definition model_name_char :: "char \<Rightarrow> bool" where
  "model_name_char c \<longleftrightarrow> is_alnum c \<or> c = CHR ''_'' \<or> c = CHR ''-'' \<or> c = CHR ''.''"

definition allowed_model_pattern :: "string \<Rightarrow> bool" where
  "allowed_model_pattern s \<longleftrightarrow> s \<noteq> [] \<and> list_all model_name_char s"

definition validate_model_name :: "request_validator \<Rightarrow> string \<Rightarrow> validation_error + unit" where
  "validate_model_name v model_name =
     (if model_name = [] then Inl (InvalidModelName ''Model name cannot be empty'')
      else if rv_max_model_name_length v < length model_name
      then Inl (InvalidModelName (''Model name too long: '' @ show_nat (length model_name) @
                  '' (max: '' @ show_nat (rv_max_model_name_length v) @ '')''))
      else if \<not> allowed_model_pattern model_name
      then Inl (InvalidModelName ''Model name contains invalid characters'')
      else if contains model_name ''..'' \<or> CHR ''/'' \<in> set model_name \<or> CHR 0x5C \<in> set model_name
      then Inl (MaliciousPattern ''Path traversal attempt detected'')
      else Inr ())"

definition validate_input_size :: "(val \<Rightarrow> string) \<Rightarrow> request_validator \<Rightarrow> val \<Rightarrow> validation_error + unit" where
  "validate_input_size render v value =
     (let size = length (render value)
      in if rv_max_input_size_bytes v < size then Inl (InputTooLarge size (rv_max_input_size_bytes v))
         else Inr ())"

definition quote :: string where "quote = [CHR 0x27]"

definition malicious_patterns :: "(val \<Rightarrow> string) \<Rightarrow> val \<Rightarrow> validation_error + unit" where
  "malicious_patterns render value =
     (let s = render value
      in if contains (to_ascii_lowercase s) ''<script'' \<or> contains (to_ascii_lowercase s) ''javascript:''
         then Inl (MaliciousPattern ''Script injection attempt detected'')
         else if contains s (quote @ '' OR '' @ quote @ ''1'' @ quote @ ''='' @ quote @ ''1'') \<or>
                 contains s (quote @ ''; DROP TABLE'') \<or> contains s ''-- ''
         then Inl (MaliciousPattern ''SQL injection attempt detected'')
         else if contains s ''$('' \<or> contains s [CHR 0x60] \<or> contains s ''|''
         then Inl (MaliciousPattern ''Command injection attempt detected'')
         else Inr ())"

definition validate_inputs :: "(val \<Rightarrow> string) \<Rightarrow> request_validator \<Rightarrow> val list \<Rightarrow> validation_error + unit" where
  "validate_inputs render v inputs =
     (if inputs = [] then Inl (InvalidValue ''Inputs array cannot be empty'')
      else if rv_max_inputs_count v < length inputs
      then Inl (TooManyInputs (length inputs) (rv_max_inputs_count v))
      else map_sum id (\<lambda>_. ()) (mapR (\<lambda>input.
             bindR (validate_input_size render v input) (\<lambda>_. malicious_patterns render input)) inputs))"

definition show_int :: "int \<Rightarrow> string" where
  "show_int i = (if i < 0 then CHR ''-'' # show_nat (nat (- i)) else show_nat (nat i))"

definition validate_priority :: "int option \<Rightarrow> validation_error + unit" where
  "validate_priority priority =
     (case priority of
        Some p \<Rightarrow>
          if \<not> (- 10 \<le> p \<and> p \<le> 10)
          then Inl (InvalidValue (''Priority must be between -10 and 10, got: '' @ show_int p))
          else Inr ()
      | None \<Rightarrow> Inr ())"

definition validate_timeout :: "u64 option \<Rightarrow> validation_error + unit" where
  "validate_timeout timeout_ms =
     (case timeout_ms of
        Some t \<Rightarrow>
          if t < 100 then Inl (InvalidValue ''Timeout must be at least 100ms'')
          else if 300000 < t then Inl (InvalidValue ''Timeout cannot exceed 300 seconds'')
          else Inr ()
      | None \<Rightarrow> Inr ())"

definition validate_request ::
  "(val \<Rightarrow> string) \<Rightarrow> request_validator \<Rightarrow> string \<Rightarrow> val list \<Rightarrow> int option \<Rightarrow> u64 option \<Rightarrow> validation_error + unit" where
  "validate_request render v model_name inputs priority timeout_ms =
     bindR (validate_model_name v model_name)
      (\<lambda>_. bindR (validate_inputs render v inputs)
      (\<lambda>_. bindR (validate_priority priority)
      (\<lambda>_. bindR (validate_timeout timeout_ms) (\<lambda>_. Inr ()))))"

section \<open>Sanitising\<close>

record sanitizer_config =
  sc_max_text_length :: nat
  sc_sanitize_text :: bool
  sc_sanitize_image_dimensions :: bool
  sc_max_image_width :: u32
  sc_max_image_height :: u32
  sc_round_probabilities :: bool
  sc_probability_decimals :: u32
  sc_remove_null_values :: bool

text \<open>\<open>[\x00-\x08\x0B\x0C\x0E-\x1F\x7F]\<close>\<close>

definition is_control :: "char \<Rightarrow> bool" where
  "is_control c \<longleftrightarrow> (let n = of_char c :: nat in n \<le> 8 \<or> n = 11 \<or> n = 12 \<or> (14 \<le> n \<and> n \<le> 31) \<or> n = 127)"

definition sanitize_text :: "sanitizer_config \<Rightarrow> string \<Rightarrow> string + string" where
  "sanitize_text cfg txt =
     (if sc_max_text_length cfg < length txt
      then Inl (''Text length '' @ show_nat (length txt) @ '' exceeds maximum '' @ show_nat (sc_max_text_length cfg))
      else Inr (filter (\<lambda>c. \<not> is_control c) txt))"

fun sanitize_text_input :: "sanitizer_config \<Rightarrow> val \<Rightarrow> string + val" where
  "sanitize_text_input cfg (JString s) = bindR (sanitize_text cfg s) (\<lambda>t. Inr (JString t))"
| "sanitize_text_input cfg (JArray vs) = bindR (mapR (sanitize_text_input cfg) vs) (\<lambda>ws. Inr (JArray ws))"
| "sanitize_text_input cfg v = Inr v"

definition base64_char :: "char \<Rightarrow> bool" where
  "base64_char c \<longleftrightarrow> is_alnum c \<or> c = CHR ''+'' \<or> c = CHR ''/'' \<or> c = CHR ''=''"

definition dimensions_error :: "sanitizer_config \<Rightarrow> u64 \<Rightarrow> u64 \<Rightarrow> string" where
  "dimensions_error cfg w h =
     ''Image dimensions '' @ show_nat (unat w) @ ''x'' @ show_nat (unat h) @ '' exceed limit '' @
     show_nat (unat (sc_max_image_width cfg)) @ ''x'' @ show_nat (unat (sc_max_image_height cfg))"

definition sanitize_image_input :: "sanitizer_config \<Rightarrow> val \<Rightarrow> string + val" where
  "sanitize_image_input cfg value =
     bindR (case value of
              JString s \<Rightarrow>
                if 10000000 < length s then Inl ''Image data too large''
                else guardR (list_all base64_char s) ''Invalid characters in image data''
            | _ \<Rightarrow> Inr ())
      (\<lambda>_. bindR (case value of
                    JObject ps \<Rightarrow>
                      if sc_sanitize_image_dimensions cfg
                      then case (Option.bind (map_of ps ''width'') as_u64, Option.bind (map_of ps ''height'') as_u64) of
                             (Some w, Some h) \<Rightarrow>
                               guardR (\<not> (ucast (sc_max_image_width cfg) < w \<or> ucast (sc_max_image_height cfg) < h))
                                 (dimensions_error cfg w h)
                           | _ \<Rightarrow> Inr ()
                      else Inr ()
                  | _ \<Rightarrow> Inr ())
      (\<lambda>_. Inr value))"

text \<open>Building an object with \<open>Map::insert\<close>.\<close>

definition object_of :: "(string \<times> val) list \<Rightarrow> val" where
  "object_of kvs = JObject (foldl (\<lambda>m (k, v). AList.update k v m) [] kvs)"

text \<open>A number of \<open>serde_json\<close> is finite, so the test for NaN lets every number through.\<close>

fun sanitize_input :: "sanitizer_config \<Rightarrow> val \<Rightarrow> string + val" where
  "sanitize_input cfg (JObject ps) =
     bindR (mapR (\<lambda>p.
         bindR (sanitize_text cfg (fst p))
          (\<lambda>safe_key.
            bindR (if fst p = ''image'' \<or> fst p = ''image_data'' then sanitize_image_input cfg (snd p)
                   else if fst p = ''text'' \<or> fst p = ''prompt'' then sanitize_text_input cfg (snd p)
                   else sanitize_input cfg (snd p))
             (\<lambda>safe_value. Inr (safe_key, safe_value)))) ps)
       (\<lambda>kvs. Inr (object_of kvs))"
| "sanitize_input cfg (JArray vs) = bindR (mapR (sanitize_input cfg) vs) (\<lambda>ws. Inr (JArray ws))"
| "sanitize_input cfg (JString s) =
     (if sc_sanitize_text cfg then bindR (sanitize_text cfg s) (\<lambda>t. Inr (JString t)) else Inr (JString s))"
| "sanitize_input cfg v = Inr v"

definition as_f64 :: "rnd \<Rightarrow> number \<Rightarrow> real" where
  "as_f64 fl n = (case n of PosInt m \<Rightarrow> fl (real (unat m)) | NegInt i \<Rightarrow> fl (of_int i) | Float r \<Rightarrow> r)"

text \<open>\<open>f64::round\<close>: half away from zero.\<close>

definition round_away :: "real \<Rightarrow> real" where
  "round_away x = (if 0 \<le> x then of_int \<lfloor>x + 1 / 2\<rfloor> else of_int \<lceil>x - 1 / 2\<rceil>)"

definition max_float :: real where
  "max_float = (2 - 1 / 2 ^ 52) * 2 ^ 1023"

text \<open>
  Rounding a number. The number of decimals is cast to \<open>i32\<close>; an overflow or a division by zero on
  the way leaves the number as it is. \<open>powi\<close> is the rounded power.
\<close>

definition pow_i32 :: "rnd \<Rightarrow> nat \<Rightarrow> int \<Rightarrow> real" where
  "pow_i32 fl b n = fl (if 0 \<le> n then real b ^ nat n else 1 / real b ^ nat (- n))"

definition round_number :: "rnd \<Rightarrow> sanitizer_config \<Rightarrow> number \<Rightarrow> number" where
  "round_number fl cfg n =
     (let f = as_f64 fl n;
          factor = pow_i32 fl 10 (sint (sc_probability_decimals cfg));
          scaled = fl (f * factor);
          rounded = fl (round_away scaled / factor)
      in if factor \<noteq> 0 \<and> factor \<le> max_float \<and> \<bar>scaled\<bar> \<le> max_float \<and> \<bar>rounded\<bar> \<le> max_float
         then Float rounded else n)"

fun sanitize_output :: "rnd \<Rightarrow> sanitizer_config \<Rightarrow> val \<Rightarrow> val" where
  "sanitize_output fl cfg (JObject ps) =
     object_of (map (\<lambda>p. (fst p, sanitize_output fl cfg (snd p)))
       (filter (\<lambda>p. \<not> (starts_with (fst p) ''_'' \<or> fst p = ''internal_state'') \<and>
                    \<not> (sc_remove_null_values cfg \<and> snd p = JNull)) ps))"
| "sanitize_output fl cfg (JArray vs) = JArray (map (sanitize_output fl cfg) vs)"
| "sanitize_output fl cfg (JNumber n) =
     JNumber (if sc_round_probabilities cfg then round_number fl cfg n else n)"
| "sanitize_output fl cfg v = v"

section \<open>What is accepted\<close>

lemma map_sum_Inr_iff: "map_sum id (\<lambda>_. ()) r = Inr u \<longleftrightarrow> (\<exists>x. r = Inr x)"
  by (cases r) auto

lemma mapR_Inr_unit: "(\<exists>ys. mapR f xs = Inr ys) \<longleftrightarrow> (\<forall>x \<in> set xs. \<exists>y. f x = Inr y)"
proof (induction xs)
  case (Cons x xs)
  then show ?case by (auto simp: bindR_Inr_iff)
qed simp

lemma name_chars_safe: "list_all model_name_char s \<Longrightarrow> CHR ''/'' \<notin> set s \<and> CHR 0x5C \<notin> set s"
proof -
  assume "list_all model_name_char s"
  moreover have "\<not> model_name_char (CHR ''/'')" "\<not> model_name_char (CHR 0x5C)"
    by (simp_all add: model_name_char_def is_alnum_def is_dec_def is_digit_of_def to_digit_def is_lower_def)
  ultimately show ?thesis by (auto simp: list_all_iff)
qed


section \<open>What sanitising does\<close>

definition no_control :: "string \<Rightarrow> bool" where
  "no_control s \<longleftrightarrow> list_all (\<lambda>c. \<not> is_control c) s"

fun clean :: "val \<Rightarrow> bool" where
  "clean (JString s) = no_control s"
| "clean (JArray vs) = list_all clean vs"
| "clean (JObject ps) = list_all (\<lambda>p. no_control (fst p) \<and> clean (snd p)) ps"
| "clean v = True"

text \<open>Values with no object where a text is expected, and nothing but data where an image is.\<close>

fun plain_text :: "val \<Rightarrow> bool" where
  "plain_text (JObject ps) = False"
| "plain_text (JArray vs) = list_all plain_text vs"
| "plain_text v = True"

fun plain_image :: "val \<Rightarrow> bool" where
  "plain_image (JObject ps) = False"
| "plain_image (JArray vs) = False"
| "plain_image v = True"

fun plain :: "val \<Rightarrow> bool" where
  "plain (JObject ps) = list_all (\<lambda>p.
     if fst p = ''image'' \<or> fst p = ''image_data'' then plain_image (snd p)
     else if fst p = ''text'' \<or> fst p = ''prompt'' then plain_text (snd p)
     else plain (snd p)) ps"
| "plain (JArray vs) = list_all plain vs"
| "plain v = True"

lemma sanitize_text_clean: "sanitize_text cfg s = Inr t \<Longrightarrow> no_control t"
  by (auto simp: sanitize_text_def no_control_def list_all_iff split: if_splits)

lemma base64_no_control: "list_all base64_char s \<Longrightarrow> no_control s"
proof -
  have "base64_char c \<Longrightarrow> \<not> is_control c" for c
    by (auto simp: base64_char_def is_control_def is_alnum_def is_dec_def is_digit_of_def to_digit_def is_lower_def
        Let_def split: if_splits)
  then show "list_all base64_char s \<Longrightarrow> no_control s" by (auto simp: no_control_def list_all_iff)
qed

lemma mapR_Inr_all:
  assumes "mapR f xs = Inr ys" "\<And>x y. x \<in> set xs \<Longrightarrow> f x = Inr y \<Longrightarrow> P y"
  shows "list_all P ys"
proof -
  have all: "list_all2 (\<lambda>x y. f x = Inr y) xs ys" using assms(1) by (simp add: mapR_Inr_list_all2)
  have "P (ys ! i)" if "i < length ys" for i
    using all that assms(2) [of "xs ! i" "ys ! i"] by (simp add: list_all2_conv_all_nth)
  then show ?thesis by (simp add: list_all_length)
qed

lemma set_foldl_update: "set (foldl (\<lambda>m (k, v). AList.update k v m) m kvs) \<subseteq> set m \<union> set kvs"
proof (induction kvs arbitrary: m)
  case (Cons p kvs)
  have "set (AList.update k v m) \<subseteq> insert (k, v) (set m)" for k v and m :: "('a \<times> 'b) list"
    by (induction m) auto
  with Cons [of "AList.update (fst p) (snd p) m"] show ?case by (cases p) fastforce
qed simp

lemma object_of_all:
  "list_all P kvs \<Longrightarrow> object_of kvs = JObject ps \<Longrightarrow> list_all P ps"
  using set_foldl_update [of "[]" kvs] by (auto simp: object_of_def list_all_iff)

lemma sanitize_text_input_clean: "plain_text v \<Longrightarrow> sanitize_text_input cfg v = Inr w \<Longrightarrow> clean w"
proof (induction v arbitrary: w rule: plain_text.induct)
  case (2 vs)
  then obtain ws where ws: "mapR (sanitize_text_input cfg) vs = Inr ws" "w = JArray ws"
    by (auto simp: bindR_Inr_iff)
  have "list_all clean ws"
    using 2 by (intro mapR_Inr_all [OF ws(1)]) (auto simp: list_all_iff)
  with ws(2) show ?case by simp
qed (auto simp: bindR_Inr_iff sanitize_text_clean)

lemma sanitize_image_clean: "plain_image v \<Longrightarrow> sanitize_image_input cfg v = Inr w \<Longrightarrow> clean w"
  by (cases v) (auto simp: sanitize_image_input_def bindR_Inr_iff base64_no_control split: if_splits)

text \<open>
  A value that is sanitised with text sanitising on has no control character in any string
  or key of it, at any depth, if there are no objects in place of texts and neither objects nor
  arrays in place of images.
\<close>

theorem sanitized_is_clean:
  assumes "sc_sanitize_text cfg" "plain v" "sanitize_input cfg v = Inr w"
  shows "clean w"
  using assms
proof (induction v arbitrary: w rule: plain.induct)
  case (1 ps)
  obtain kvs where kvs: "w = object_of kvs" "mapR (\<lambda>p.
      bindR (sanitize_text cfg (fst p)) (\<lambda>safe_key.
        bindR (if fst p = ''image'' \<or> fst p = ''image_data'' then sanitize_image_input cfg (snd p)
               else if fst p = ''text'' \<or> fst p = ''prompt'' then sanitize_text_input cfg (snd p)
               else sanitize_input cfg (snd p)) (\<lambda>safe_value. Inr (safe_key, safe_value)))) ps = Inr kvs"
    using 1(4) by (auto simp: bindR_Inr_iff)
  have "list_all (\<lambda>p. no_control (fst p) \<and> clean (snd p)) kvs"
  proof (rule mapR_Inr_all [OF kvs(2)], goal_cases)
    case (1 p y)
    have plain: "if fst p = ''image'' \<or> fst p = ''image_data'' then plain_image (snd p)
        else if fst p = ''text'' \<or> fst p = ''prompt'' then plain_text (snd p) else plain (snd p)"
      using 1(1) \<open>plain (JObject ps)\<close> by (simp add: list_all_iff)
    have IH: "clean u" if "fst p \<noteq> ''image''" "fst p \<noteq> ''image_data''" "fst p \<noteq> ''text''" "fst p \<noteq> ''prompt''"
        "sanitize_input cfg (snd p) = Inr u" for u
      using "1.IH" [OF 1(1)] that plain assms(1) by simp
    show ?case
      using 1(2) plain IH sanitize_text_clean sanitize_text_input_clean sanitize_image_clean
      by (auto simp: bindR_Inr_iff split: if_splits)
  qed
  then show ?case unfolding kvs(1)
    using object_of_all [of _ kvs] by (simp add: object_of_def)
next
  case (2 vs)
  then obtain ws where ws: "mapR (sanitize_input cfg) vs = Inr ws" "w = JArray ws"
    by (auto simp: bindR_Inr_iff)
  have "list_all clean ws"
    using 2 by (intro mapR_Inr_all [OF ws(1)]) (auto simp: list_all_iff)
  with ws(2) show ?case by simp
qed (auto simp: bindR_Inr_iff sanitize_text_clean split: if_splits)

lemma sc_small: "sanitize_text cfg s = Inr s" if "length s \<le> sc_max_text_length cfg" "no_control s"
  using that by (simp add: sanitize_text_def no_control_def filter_id_conv list_all_iff not_less)

definition sc_default :: sanitizer_config where
  "sc_default = \<lparr>sc_max_text_length = 10000, sc_sanitize_text = True, sc_sanitize_image_dimensions = True,
     sc_max_image_width = 4096, sc_max_image_height = 4096, sc_round_probabilities = True,
     sc_probability_decimals = 4, sc_remove_null_values = True\<rparr>"

theorem sanitized_is_clean_witness:
  "clean (JObject [(''text'', JString ''a'')]) \<and>
   sanitize_input sc_default (JObject [(''text'', JString [CHR 0x07, CHR ''a''])]) = Inr (JObject [(''text'', JString ''a'')])"
proof
  have run: "sanitize_input sc_default (JObject [(''text'', JString [CHR 0x07, CHR ''a''])]) =
    Inr (JObject [(''text'', JString ''a'')])"
    by (simp add: sanitize_text_def sc_default_def is_control_def object_of_def)
  then show "sanitize_input sc_default (JObject [(''text'', JString [CHR 0x07, CHR ''a''])]) =
    Inr (JObject [(''text'', JString ''a'')])" .
  show "clean (JObject [(''text'', JString ''a'')])"
    by (rule sanitized_is_clean [OF _ _ run]) (simp_all add: sc_default_def)
qed

text \<open>
  Two ways around the sanitiser, with the default settings. An object under \<open>text\<close> comes
  back as it is, whatever its strings hold. A key that only sanitising turns into \<open>image\<close> has
  its value checked as a text: what comes back as the image need not be base64.
\<close>

lemma sanitizer_bypasses:
  "sanitize_input sc_default (JObject [(''text'', JObject ps)]) = Inr (JObject [(''text'', JObject ps)])"
  "sanitize_input sc_default (JObject [([CHR 0x01] @ ''image'', JString ''<not base64>'')]) =
     Inr (JObject [(''image'', JString ''<not base64>'')])"
  by (simp_all add: sanitize_text_def sc_default_def is_control_def object_of_def)

text \<open>What a client sees of an output.\<close>

definition private_key :: "string \<Rightarrow> bool" where
  "private_key k \<longleftrightarrow> starts_with k ''_'' \<or> k = ''internal_state''"

fun public :: "bool \<Rightarrow> val \<Rightarrow> bool" where
  "public no_nulls (JObject ps) =
     list_all (\<lambda>p. \<not> private_key (fst p) \<and> \<not> (no_nulls \<and> snd p = JNull) \<and> public no_nulls (snd p)) ps"
| "public no_nulls (JArray vs) = list_all (public no_nulls) vs"
| "public no_nulls v = True"

lemma sanitize_output_null: "sanitize_output fl cfg v = JNull \<longleftrightarrow> v = JNull"
  by (cases v) (simp_all add: object_of_def)

abbreviation kept :: "sanitizer_config \<Rightarrow> string \<times> val \<Rightarrow> bool" where
  "kept cfg p \<equiv> \<not> (starts_with (fst p) ''_'' \<or> fst p = ''internal_state'') \<and>
     \<not> (sc_remove_null_values cfg \<and> snd p = JNull)"

lemma sanitize_output_public:
  "no_nulls = sc_remove_null_values cfg \<Longrightarrow> public no_nulls (sanitize_output fl cfg v)"
proof (induction no_nulls v rule: public.induct)
  case (1 no_nulls ps)
  let ?kvs = "map (\<lambda>p. (fst p, sanitize_output fl cfg (snd p))) (filter (kept cfg) ps)"
  have "list_all (\<lambda>p. \<not> private_key (fst p) \<and> \<not> (no_nulls \<and> snd p = JNull) \<and> public no_nulls (snd p)) ?kvs"
    using 1 by (auto simp: list_all_iff private_key_def sanitize_output_null)
  from object_of_all [OF this] show ?case by (simp add: object_of_def)
qed (simp_all add: list_all_iff)

lemma map_of_foldl_update:
  "distinct (map fst kvs) \<Longrightarrow> map_of (foldl (\<lambda>m (k, v). AList.update k v m) m kvs) = map_of m ++ map_of kvs"
proof (induction kvs arbitrary: m)
  case (Cons p kvs)
  obtain k v where p: "p = (k, v)" by (cases p)
  have "map_of kvs k = None" using Cons.prems by (simp add: p map_of_eq_None_iff)
  then have "(map_of m)(k \<mapsto> v) ++ map_of kvs = map_of m ++ (map_of kvs)(k \<mapsto> v)"
    by (intro ext) (simp add: map_add_def split: option.split)
  with Cons show ?case by (simp add: p AList.update_conv' fun_upd_def del: map_add_upd)
qed simp

lemma map_of_filter_kept:
  "distinct (map fst ps) \<Longrightarrow>
    map_of (map (\<lambda>p. (fst p, f (snd p))) (filter Q ps)) k =
      (case map_of ps k of Some x \<Rightarrow> if Q (k, x) then Some (f x) else None | None \<Rightarrow> None)"
proof (induction ps)
  case (Cons p ps)
  show ?case
  proof (cases "fst p = k")
    case True
    then have "map_of ps k = None" using Cons.prems by (auto simp: map_of_eq_None_iff)
    then have "map_of (map (\<lambda>p. (fst p, f (snd p))) (filter Q ps)) k = None" using Cons by simp
    with True show ?thesis by (cases p) auto
  qed (use Cons in \<open>cases p; auto\<close>)
qed simp

text \<open>
  At no depth does an object of a sanitised output have a key that begins with an underscore,
  the key \<open>internal_state\<close> or, if nulls are to be removed, a null; every other field of the
  object is there, sanitised.
\<close>

theorem output_hides_private:
  assumes "distinct (map fst ps)"
  shows "public (sc_remove_null_values cfg) (sanitize_output fl cfg (JObject ps)) \<and>
    vget k (sanitize_output fl cfg (JObject ps)) =
       (case map_of ps k of
          Some x \<Rightarrow> if private_key k \<or> (sc_remove_null_values cfg \<and> x = JNull) then None
                    else Some (sanitize_output fl cfg x)
        | None \<Rightarrow> None)"
proof (rule conjI)
  show "public (sc_remove_null_values cfg) (sanitize_output fl cfg (JObject ps))"
    by (rule sanitize_output_public) simp
  let ?kvs = "map (\<lambda>p. (fst p, sanitize_output fl cfg (snd p))) (filter (kept cfg) ps)"
  have "map fst ?kvs = map fst (filter (kept cfg) ps)" by (simp add: comp_def)
  then have "distinct (map fst ?kvs)" using distinct_map_filter [OF assms, of "kept cfg"] by (simp only:)
  then have "vget k (sanitize_output fl cfg (JObject ps)) = map_of ?kvs k"
    using map_of_foldl_update [of ?kvs "[]"] by (simp add: object_of_def)
  also have "\<dots> = (case map_of ps k of Some x \<Rightarrow>
      if kept cfg (k, x) then Some (sanitize_output fl cfg x) else None | None \<Rightarrow> None)"
    by (rule map_of_filter_kept [OF assms])
  finally show "vget k (sanitize_output fl cfg (JObject ps)) =
       (case map_of ps k of
          Some x \<Rightarrow> if private_key k \<or> (sc_remove_null_values cfg \<and> x = JNull) then None
                    else Some (sanitize_output fl cfg x)
        | None \<Rightarrow> None)"
    by (auto simp: private_key_def split: option.splits)
qed

theorem output_hides_private_witness:
  "vget ''_secret'' (sanitize_output exact sc_default (JObject [(''_secret'', JBool True), (''label'', JBool True)])) = None"
  using output_hides_private [of "[(''_secret'', JBool True), (''label'', JBool True)]" sc_default exact "''_secret''"]
  by (simp add: private_key_def)

end
