(* ===== verification/Monitor.thy ===== *)
theory Monitor
  imports Gate Floats
begin

text \<open>
  Monitoring: the request counters (\<open>src/src/monitor.rs\<close>), the inference metrics
  (\<open>src/src/telemetry/metrics.rs\<close>), and the two outermost middlewares, the request logger
  (\<open>src/src/middleware/request_logger.rs\<close>) and the correlation id
  (\<open>src/src/middleware/correlation_id.rs\<close>), over the services of \<open>Gate\<close>. Times are readings passed
  in. The map of endpoints is an association list, whose order is that of iteration.
\<close>

section \<open>The monitor\<close>

record endpoint_stats =
  es_path :: string
  es_calls :: u64
  es_errors :: u64
  es_avg_latency_ms :: real
  es_last_called :: nat

record monitor =
  mo_total_requests :: u64
  mo_total_errors :: u64
  mo_total_processed :: u64
  mo_active_requests :: u64
  mo_total_latency :: u64
  mo_min_latency :: u64
  mo_max_latency :: u64
  mo_started_at :: nat
  mo_endpoint_stats :: "(string \<times> endpoint_stats) list"

record health_status =
  hs_healthy :: bool
  hs_timestamp :: nat
  hs_uptime_seconds :: u64
  hs_memory_mb :: u64
  hs_cpu_percent :: real
  hs_active_requests :: u64
  hs_error_count :: u64
  hs_response_time_ms :: real

record system_metrics =
  sm_total_requests :: u64
  sm_total_errors :: u64
  sm_total_processed :: u64
  sm_avg_latency_ms :: real
  sm_min_latency_ms :: real
  sm_max_latency_ms :: real
  sm_throughput_rps :: real
  sm_uptime_seconds :: u64
  sm_started_at :: nat

definition mo_new :: "nat \<Rightarrow> monitor" where
  "mo_new now =
     \<lparr>mo_total_requests = 0, mo_total_errors = 0, mo_total_processed = 0, mo_active_requests = 0,
      mo_total_latency = 0, mo_min_latency = - 1, mo_max_latency = 0, mo_started_at = now,
      mo_endpoint_stats = []\<rparr>"

definition mo_record_request_start :: "monitor \<Rightarrow> monitor" where
  "mo_record_request_start m =
     m\<lparr>mo_total_requests := mo_total_requests m + 1, mo_active_requests := mo_active_requests m + 1\<rparr>"

text \<open>One more call of a known endpoint: the running mean is Welford's.\<close>

definition es_update :: "rnd \<Rightarrow> nat \<Rightarrow> u64 \<Rightarrow> bool \<Rightarrow> endpoint_stats \<Rightarrow> endpoint_stats" where
  "es_update fl now latency_ms success s =
     (let calls = es_calls s + 1;
          avg = es_avg_latency_ms s;
          step = fl (fl (fl (real (unat latency_ms)) - avg) / fl (real (unat calls)))
      in s\<lparr>es_calls := calls, es_avg_latency_ms := fl (avg + step), es_last_called := now,
           es_errors := (if success then es_errors s else es_errors s + 1)\<rparr>)"

definition es_first :: "rnd \<Rightarrow> nat \<Rightarrow> string \<Rightarrow> u64 \<Rightarrow> bool \<Rightarrow> endpoint_stats" where
  "es_first fl now endpoint latency_ms success =
     \<lparr>es_path = endpoint, es_calls = 1, es_errors = (if success then 0 else 1),
      es_avg_latency_ms = fl (real (unat latency_ms)), es_last_called = now\<rparr>"

definition mo_record_request_end :: "rnd \<Rightarrow> nat \<Rightarrow> u64 \<Rightarrow> string \<Rightarrow> bool \<Rightarrow> monitor \<Rightarrow> monitor" where
  "mo_record_request_end fl now latency_ms endpoint success m =
     m\<lparr>mo_active_requests := mo_active_requests m - 1,
       mo_total_processed := mo_total_processed m + 1,
       mo_total_latency := mo_total_latency m + latency_ms,
       mo_min_latency := min (mo_min_latency m) latency_ms,
       mo_max_latency := max (mo_max_latency m) latency_ms,
       mo_endpoint_stats := AList.update endpoint
         (case map_of (mo_endpoint_stats m) endpoint of
            Some s \<Rightarrow> es_update fl now latency_ms success s
          | None \<Rightarrow> es_first fl now endpoint latency_ms success) (mo_endpoint_stats m),
       mo_total_errors := (if success then mo_total_errors m else mo_total_errors m + 1)\<rparr>"

definition mo_avg_latency :: "rnd \<Rightarrow> monitor \<Rightarrow> real" where
  "mo_avg_latency fl m =
     (if mo_total_processed m = 0 then 0
      else fl (fl (real (unat (mo_total_latency m))) / fl (real (unat (mo_total_processed m)))))"

definition mo_uptime :: "nat \<Rightarrow> monitor \<Rightarrow> u64" where
  "mo_uptime now m = word_of_int ((int now - int (mo_started_at m)) div 10 ^ 9)"

definition mo_get_health_status :: "rnd \<Rightarrow> nat \<Rightarrow> monitor \<Rightarrow> health_status" where
  "mo_get_health_status fl now m =
     \<lparr>hs_healthy = (mo_total_errors m < 100), hs_timestamp = now, hs_uptime_seconds = mo_uptime now m,
      hs_memory_mb = 25, hs_cpu_percent = 5, hs_active_requests = mo_active_requests m,
      hs_error_count = mo_total_errors m, hs_response_time_ms = mo_avg_latency fl m\<rparr>"

definition mo_get_metrics :: "rnd \<Rightarrow> nat \<Rightarrow> monitor \<Rightarrow> system_metrics" where
  "mo_get_metrics fl now m =
     (let uptime = mo_uptime now m;
          throughput = (if 0 < uptime
                        then fl (fl (real (unat (mo_total_processed m))) / fl (real (unat uptime))) else 0)
      in \<lparr>sm_total_requests = mo_total_requests m, sm_total_errors = mo_total_errors m,
          sm_total_processed = mo_total_processed m, sm_avg_latency_ms = mo_avg_latency fl m,
          sm_min_latency_ms = fl (real (unat (mo_min_latency m))),
          sm_max_latency_ms = fl (real (unat (mo_max_latency m))),
          sm_throughput_rps = throughput, sm_uptime_seconds = uptime, sm_started_at = mo_started_at m\<rparr>)"

definition mo_get_endpoint_stats :: "monitor \<Rightarrow> endpoint_stats list" where
  "mo_get_endpoint_stats m = map snd (mo_endpoint_stats m)"

definition mo_reset :: "monitor \<Rightarrow> monitor" where
  "mo_reset m =
     m\<lparr>mo_total_requests := 0, mo_total_errors := 0, mo_total_processed := 0, mo_active_requests := 0,
       mo_total_latency := 0, mo_min_latency := - 1, mo_max_latency := 0, mo_endpoint_stats := []\<rparr>"

section \<open>Inference metrics\<close>

record model_metrics =
  mm_model_name :: string
  mm_inference_count :: u64
  mm_avg_inference_time_ms :: real
  mm_last_used :: nat

record metrics_collector =
  mx_request_count :: u64
  mx_error_count :: u64
  mx_model_metrics :: "string \<Rightarrow> model_metrics option"

record request_metrics =
  rm_total_requests :: u64
  rm_total_errors :: u64
  rm_avg_latency_ms :: real
  rm_max_latency_ms :: real
  rm_min_latency_ms :: real

definition mx_new :: metrics_collector where
  "mx_new = \<lparr>mx_request_count = 0, mx_error_count = 0, mx_model_metrics = Map.empty\<rparr>"

definition mx_record_request :: "metrics_collector \<Rightarrow> metrics_collector" where
  "mx_record_request c = c\<lparr>mx_request_count := mx_request_count c + 1\<rparr>"

definition mx_record_error :: "metrics_collector \<Rightarrow> metrics_collector" where
  "mx_record_error c = c\<lparr>mx_error_count := mx_error_count c + 1\<rparr>"

definition mx_record_inference :: "rnd \<Rightarrow> nat \<Rightarrow> string \<Rightarrow> real \<Rightarrow> metrics_collector \<Rightarrow> metrics_collector" where
  "mx_record_inference fl now model_name latency_ms c =
     (let c = mx_record_request c;
          e = (case mx_model_metrics c model_name of
                 Some e \<Rightarrow>
                   (let n = mm_inference_count e + 1; k = fl (real (unat n))
                    in e\<lparr>mm_inference_count := n,
                         mm_avg_inference_time_ms :=
                           fl (fl (fl (mm_avg_inference_time_ms e * fl (k - 1)) + latency_ms) / k),
                         mm_last_used := now\<rparr>)
               | None \<Rightarrow> \<lparr>mm_model_name = model_name, mm_inference_count = 1,
                          mm_avg_inference_time_ms = latency_ms, mm_last_used = now\<rparr>)
      in c\<lparr>mx_model_metrics := (mx_model_metrics c)(model_name \<mapsto> e)\<rparr>)"

definition mx_get_request_metrics :: "metrics_collector \<Rightarrow> request_metrics" where
  "mx_get_request_metrics c =
     \<lparr>rm_total_requests = mx_request_count c, rm_total_errors = mx_error_count c,
      rm_avg_latency_ms = 0, rm_max_latency_ms = 0, rm_min_latency_ms = 0\<rparr>"

section \<open>The outer middlewares\<close>

definition status_class :: "nat \<Rightarrow> string" where
  "status_class status =
     (if 200 \<le> status \<and> status \<le> 299 then ''2xx''
      else if 300 \<le> status \<and> status \<le> 399 then ''3xx''
      else if 400 \<le> status \<and> status \<le> 499 then ''4xx''
      else if 500 \<le> status \<and> status \<le> 599 then ''5xx''
      else ''other'')"

text \<open>A log line: its event, its correlation id, the path and the class of the status.\<close>

record log_line =
  ll_event :: string
  ll_correlation_id :: string
  ll_path :: string
  ll_status_class :: string

type_synonym 'w site = "monitor \<times> log_line list \<times> 'w"

text \<open>The id in the request's header, or a new one; \<open>new_id\<close> is the UUID generator.\<close>

definition correlation_id :: "(string \<Rightarrow> string option) \<Rightarrow> ('w \<Rightarrow> string \<times> 'w) \<Rightarrow> request \<Rightarrow> 'w \<Rightarrow> string \<times> 'w" where
  "correlation_id to_str new_id req w =
     (case Option.bind (map_of (rq_headers req) ''x-correlation-id'') to_str of
        Some s \<Rightarrow> (s, w)
      | None \<Rightarrow> new_id w)"

definition request_logger_call ::
  "rnd \<Rightarrow> (string \<Rightarrow> string option) \<Rightarrow> ('w \<Rightarrow> string \<times> 'w) \<Rightarrow> ('w \<Rightarrow> nat \<times> 'w) \<Rightarrow>
   ('b, 'e, 'w) service \<Rightarrow> ('b, 'e, 'w site) service" where
  "request_logger_call fl to_str new_id clock service req site =
     (let (m, logs, w) = site;
          path = rq_path req;
          (cid, w) = correlation_id to_str new_id req w;
          (start, w) = clock w;
          m = mo_record_request_start m;
          logs = logs @ [\<lparr>ll_event = ''request_received'', ll_correlation_id = cid, ll_path = path, ll_status_class = []\<rparr>];
          (r, w) = service req w;
          (end_time, w) = clock w;
          duration_ms = word_of_nat ((end_time - start) div 10 ^ 6);
          (now, w) = clock w
      in case r of
           Inr res \<Rightarrow>
             let m = mo_record_request_end fl now duration_ms path (rs_status res < 400) m;
                 logs = logs @ [\<lparr>ll_event = ''request_completed'', ll_correlation_id = cid, ll_path = path,
                                 ll_status_class = status_class (rs_status res)\<rparr>];
                 logs = (if 500 \<le> duration_ms
                         then logs @ [\<lparr>ll_event = ''slow_request'', ll_correlation_id = cid, ll_path = path,
                                       ll_status_class = []\<rparr>] else logs)
             in (Inr res, m, logs, w)
         | Inl err \<Rightarrow>
             let m = mo_record_request_end fl now duration_ms path False m;
                 logs = logs @ [\<lparr>ll_event = ''request_error'', ll_correlation_id = cid, ll_path = path,
                                 ll_status_class = ''5xx''\<rparr>]
             in (Inl err, m, logs, w))"

text \<open>\<open>header_ok\<close> is the test of \<open>HeaderValue::from_str\<close>.\<close>

definition correlation_call ::
  "(string \<Rightarrow> string option) \<Rightarrow> ('v \<Rightarrow> string \<times> 'v) \<Rightarrow> (string \<Rightarrow> bool) \<Rightarrow>
   ('b, 'e, 'v) service \<Rightarrow> ('b, 'e, 'v) service" where
  "correlation_call to_str new_id header_ok service req w =
     (let (cid, w) = correlation_id to_str new_id req w;
          (r, w) = service req w
      in (map_sum id (\<lambda>res. res\<lparr>rs_headers := AList.update ''x-correlation-id''
             (if header_ok cid then cid else ''invalid'') (rs_headers res)\<rparr>) r, w))"

text \<open>Both layers, as \<open>main.rs\<close> puts them around the rest: the id outside, the logger inside.\<close>

definition on_site :: "('w \<Rightarrow> 'a \<times> 'w) \<Rightarrow> 'w site \<Rightarrow> 'a \<times> 'w site" where
  "on_site f site = (let (m, logs, w) = site; (x, w') = f w in (x, m, logs, w'))"

definition observed ::
  "rnd \<Rightarrow> (string \<Rightarrow> string option) \<Rightarrow> ('w \<Rightarrow> string \<times> 'w) \<Rightarrow> ('w \<Rightarrow> nat \<times> 'w) \<Rightarrow> (string \<Rightarrow> bool) \<Rightarrow>
   ('b, 'e, 'w) service \<Rightarrow> ('b, 'e, 'w site) service" where
  "observed fl to_str new_id clock header_ok service =
     correlation_call to_str (on_site new_id) header_ok (request_logger_call fl to_str new_id clock service)"

section \<open>What the monitor counts\<close>

datatype op = Start | Finish nat u64 string bool

fun mo_step :: "rnd \<Rightarrow> op \<Rightarrow> monitor \<Rightarrow> monitor" where
  "mo_step fl Start m = mo_record_request_start m"
| "mo_step fl (Finish now lat ep ok) m = mo_record_request_end fl now lat ep ok m"

text \<open>The calls that ended, with their latency and outcome; and those of one endpoint.\<close>

fun ends :: "op list \<Rightarrow> (nat \<times> u64 \<times> string \<times> bool) list" where
  "ends [] = []"
| "ends (Start # ops) = ends ops"
| "ends (Finish now lat ep ok # ops) = (now, lat, ep, ok) # ends ops"

definition latencies :: "op list \<Rightarrow> u64 list" where
  "latencies ops = map (\<lambda>(_, lat, _). lat) (ends ops)"

definition ends_of :: "string \<Rightarrow> op list \<Rightarrow> (nat \<times> u64 \<times> string \<times> bool) list" where
  "ends_of e ops = filter (\<lambda>(_, _, ep, _). ep = e) (ends ops)"

definition errors :: "(nat \<times> u64 \<times> string \<times> bool) list \<Rightarrow> nat" where
  "errors es = length (filter (\<lambda>(_, _, _, ok). \<not> ok) es)"

definition mean :: "u64 list \<Rightarrow> real" where
  "mean ls = sum_list (map (\<lambda>l. real (unat l)) ls) / real (length ls)"

lemma ends_snoc [simp]:
  "ends (ops @ [Start]) = ends ops"
  "ends (ops @ [Finish now lat ep ok]) = ends ops @ [(now, lat, ep, ok)]"
  by (induction ops rule: ends.induct) auto

lemma welford:
  fixes S n x :: real
  assumes "0 < n"
  shows "S / n + (x - S / n) / (n + 1) = (S + x) / (n + 1)"
proof -
  have "S / n + (x - S / n) / (n + 1) = ((S / n) * (n + 1) + (x - S / n)) / (n + 1)"
    using assms by (simp add: add_divide_distrib)
  also have "(S / n) * (n + 1) + (x - S / n) = S + x" using assms by (simp add: field_simps)
  finally show ?thesis .
qed

lemma mean_snoc:
  assumes "ls \<noteq> []"
  shows "mean ls + (real (unat l) - mean ls) / real (Suc (length ls)) = mean (ls @ [l])"
  using welford[of "real (length ls)" "sum_list (map (\<lambda>l. real (unat l)) ls)" "real (unat l)"] assms
  by (simp add: mean_def add.commute)

text \<open>What the record of an endpoint says of its calls, in exact arithmetic.\<close>

definition es_of :: "string \<Rightarrow> (nat \<times> u64 \<times> string \<times> bool) list \<Rightarrow> endpoint_stats option" where
  "es_of e es = (if es = [] then None else Some
     \<lparr>es_path = e, es_calls = of_nat (length es), es_errors = of_nat (errors es),
      es_avg_latency_ms = mean (map (\<lambda>(_, lat, _). lat) es), es_last_called = fst (last es)\<rparr>)"

lemma es_of_first: "es_of e [(now, lat, e, ok)] = Some (es_first id now e lat ok)"
  by (simp add: es_of_def es_first_def mean_def errors_def)

lemma es_of_update:
  assumes "es \<noteq> []" "Suc (length es) < 2 ^ 64"
  shows "es_of e (es @ [(now, lat, e, ok)]) = Some (es_update id now lat ok (the (es_of e es)))"
proof -
  have calls: "unat (of_nat (Suc (length es)) :: u64) = Suc (length es)"
    using assms(2) by (simp add: unsigned_of_nat take_bit_nat_eq_self del: of_nat_Suc)
  then have real: "(unsigned (of_nat (Suc (length es)) :: u64) :: real) = real (Suc (length es))"
    by (metis of_nat_unat)
  have "(1 :: u64) + of_nat (length es) = of_nat (Suc (length es))" "of_nat (Suc 0) = (1 :: u64)" by simp_all
  then show ?thesis
    using assms(1) real mean_snoc[of "map (\<lambda>(_, lat, _). lat) es" lat]
    by (simp add: es_of_def es_update_def errors_def Let_def add.commute del: of_nat_Suc)
qed

lemma ends_of_snoc [simp]:
  "ends_of e (ops @ [Start]) = ends_of e ops"
  "ends_of e (ops @ [Finish now lat ep ok]) = ends_of e ops @ (if ep = e then [(now, lat, ep, ok)] else [])"
  by (simp_all add: ends_of_def)

lemma length_ends_of: "length (ends_of e ops) \<le> length ops"
proof -
  have "length (ends ops) \<le> length ops" by (induction ops rule: ends.induct) auto
  then show ?thesis unfolding ends_of_def by (meson length_filter_le order_trans)
qed

lemma latencies_snoc [simp]:
  "latencies (ops @ [Start]) = latencies ops"
  "latencies (ops @ [Finish now lat ep ok]) = latencies ops @ [lat]"
  by (simp_all add: latencies_def)

lemma errors_snoc [simp]: "errors (es @ [(now, lat, ep, ok)]) = (if ok then errors es else Suc (errors es))"
  by (simp add: errors_def)

definition mo_run :: "nat \<Rightarrow> op list \<Rightarrow> monitor" where
  "mo_run t ops = fold (mo_step id) ops (mo_new t)"

lemma mo_run_snoc: "mo_run t (ops @ [x]) = mo_step id x (mo_run t ops)"
  by (simp add: mo_run_def)

lemma run_endpoints:
  assumes "length ops < 2 ^ 64"
  shows "map_of (mo_endpoint_stats (mo_run t ops)) e = es_of e (ends_of e ops)"
  using assms
proof (induction ops rule: rev_induct)
  case Nil
  then show ?case by (simp add: mo_run_def mo_new_def es_of_def ends_of_def)
next
  case (snoc x ops)
  note IH = snoc.IH[OF order_le_less_trans[OF _ snoc.prems]]
  show ?case
  proof (cases x)
    case Start
    then show ?thesis using IH by (simp add: mo_run_snoc mo_record_request_start_def)
  next
    case (Finish now lat ep ok)
    have len: "Suc (length (ends_of e ops)) < 2 ^ 64"
      using length_ends_of[of e ops] snoc.prems by simp
    show ?thesis
    proof (cases "ep = e")
      case True
      then have "map_of (mo_endpoint_stats (mo_run t (ops @ [x]))) e =
          Some (case es_of e (ends_of e ops) of Some s \<Rightarrow> es_update id now lat ok s
                | None \<Rightarrow> es_first id now e lat ok)"
        using IH Finish by (simp add: mo_run_snoc mo_record_request_end_def update_conv')
      also have "\<dots> = es_of e (ends_of e ops @ [(now, lat, e, ok)])"
      proof (cases "ends_of e ops = []")
        case True
        then show ?thesis by (simp only: append_Nil es_of_first) (simp add: es_of_def)
      next
        case False
        then show ?thesis by (simp only: es_of_update[OF False len]) (simp add: es_of_def)
      qed
      finally show ?thesis using Finish True by simp
    next
      case False
      then show ?thesis using IH Finish by (simp add: mo_run_snoc mo_record_request_end_def update_conv')
    qed
  qed
qed

lemmas mo_step_defs = mo_run_snoc mo_record_request_start_def mo_record_request_end_def min.commute max.commute

lemma run_counters:
  "mo_total_requests (mo_run t ops) = of_nat (count_list ops Start)"
  "mo_active_requests (mo_run t ops) = of_nat (count_list ops Start) - of_nat (length (ends ops))"
  "mo_total_processed (mo_run t ops) = of_nat (length (ends ops))"
  "mo_total_errors (mo_run t ops) = of_nat (errors (ends ops))"
  "mo_total_latency (mo_run t ops) = sum_list (latencies ops)"
  "mo_min_latency (mo_run t ops) = fold min (latencies ops) (- 1)"
  "mo_max_latency (mo_run t ops) = fold max (latencies ops) 0"
proof (induction ops rule: rev_induct)
  case (snoc x ops)
  { case 1 then show ?case using snoc by (cases x) (simp_all add: mo_step_defs) }
  { case 2 then show ?case using snoc by (cases x) (simp_all add: mo_step_defs) }
  { case 3 then show ?case using snoc by (cases x) (simp_all add: mo_step_defs) }
  { case 4 then show ?case using snoc by (cases x) (simp_all add: mo_step_defs) }
  { case 5 then show ?case using snoc by (cases x) (simp_all add: mo_step_defs) }
  { case 6 then show ?case using snoc by (cases x) (simp_all add: mo_step_defs) }
  { case 7 then show ?case using snoc by (cases x) (simp_all add: mo_step_defs) }
qed (simp_all add: mo_run_def mo_new_def latencies_def errors_def)

text \<open>
  A monitor that starts empty accounts for every run of fewer than 2^64 starts and ends of
  requests: the totals count the starts, the ends and the failures, the active requests are the
  starts without an end, the latencies are summed and bounded, and every endpoint has the number of
  its calls and failures, the time of the last one and, in exact arithmetic, the mean of its
  latencies.
\<close>

theorem monitor_accounts:
  assumes "length ops < 2 ^ 64"
  shows "mo_total_requests (mo_run t ops) = of_nat (count_list ops Start) \<and>
         mo_active_requests (mo_run t ops) = of_nat (count_list ops Start) - of_nat (length (ends ops)) \<and>
         mo_total_processed (mo_run t ops) = of_nat (length (ends ops)) \<and>
         mo_total_errors (mo_run t ops) = of_nat (errors (ends ops)) \<and>
         mo_total_latency (mo_run t ops) = sum_list (latencies ops) \<and>
         mo_min_latency (mo_run t ops) = fold min (latencies ops) (- 1) \<and>
         mo_max_latency (mo_run t ops) = fold max (latencies ops) 0 \<and>
         (\<forall>e. map_of (mo_endpoint_stats (mo_run t ops)) e = es_of e (ends_of e ops))"
  using run_counters run_endpoints[OF assms] by simp

theorem monitor_accounts_witness:
  "mo_active_requests (mo_run 0 [Start, Start, Finish 5 7 ''/a'' True]) = 1 \<and>
   map_of (mo_endpoint_stats (mo_run 0 [Start, Start, Finish 5 7 ''/a'' True])) ''/b'' = None"
  using monitor_accounts[of "[Start, Start, Finish 5 7 ''/a'' True]" 0]
  by (simp add: es_of_def ends_of_def)

text \<open>A reset while a request runs: its end takes the count of active requests below 0.\<close>

lemma reset_in_flight:
  assumes "mo_active_requests m = 1"
  shows "mo_active_requests (mo_record_request_end fl now lat ep ok (mo_reset m)) = - 1"
  by (simp add: mo_record_request_end_def mo_reset_def)

section \<open>What the outer middlewares report\<close>

lemma on_site_correlation:
  assumes "correlation_id to_str new_id req w = (i, w')"
  shows "correlation_id to_str (on_site new_id) req (m, logs, w) = (i, m, logs, w')"
  using assms by (auto simp: correlation_id_def on_site_def split: option.splits)

lemma request_logger_reports:
  assumes "request_logger_call fl to_str new_id clock service req (m, logs, w) = (r, m', logs', w')"
  shows "\<exists>new now. logs' = logs @ new \<and> new \<noteq> [] \<and>
           list_all (\<lambda>l. ll_correlation_id l = fst (correlation_id to_str new_id req w) \<and> ll_path l = rq_path req) new \<and>
           (\<exists>lat. m' = mo_record_request_end fl now lat (rq_path req)
                    (case r of Inr res \<Rightarrow> rs_status res < 400 | Inl _ \<Rightarrow> False) (mo_record_request_start m))"
proof -
  obtain cid w1 where c: "correlation_id to_str new_id req w = (cid, w1)" by fastforce
  obtain start w2 where s: "clock w1 = (start, w2)" by fastforce
  obtain r' w3 where v: "service req w2 = (r', w3)" by fastforce
  obtain stop w4 where e: "clock w3 = (stop, w4)" by fastforce
  obtain now w5 where n: "clock w4 = (now, w5)" by fastforce
  have "m' = mo_record_request_end fl now (word_of_nat ((stop - start) div 10 ^ 6)) (rq_path req)
               (case r of Inr res \<Rightarrow> rs_status res < 400 | Inl _ \<Rightarrow> False) (mo_record_request_start m)"
    using assms c s v e n unfolding request_logger_call_def
    by (cases r') (auto simp: Let_def split: if_splits)
  moreover have "\<exists>new. logs' = logs @ new \<and> new \<noteq> [] \<and>
      list_all (\<lambda>l. ll_correlation_id l = cid \<and> ll_path l = rq_path req) new"
    using assms c s v e n unfolding request_logger_call_def
    by (cases r') (auto simp: Let_def split: if_splits)
  ultimately show ?thesis using c by auto
qed

text \<open>
  C30. What a request leaves behind, whatever the service does: the active requests are as before,
  one more is started, processed and, unless its status is below 400, failed; every line it logs
  carries one correlation id, and so does the header of its response. Both are the id of the request
  if it brings a readable one; otherwise they are two ids of the generator, drawn one after the
  other, so that the response does not name the id its log lines are under.
\<close>

theorem request_observed:
  assumes "observed fl to_str new_id clock header_ok service req (m, logs, w) = (r, m', logs', w')"
    and "(sent, w1) = correlation_id to_str new_id req w"
    and "(logged, w2) = correlation_id to_str new_id req w1"
  shows "mo_active_requests m' = mo_active_requests m \<and>
         mo_total_requests m' = mo_total_requests m + 1 \<and>
         mo_total_processed m' = mo_total_processed m + 1 \<and>
         mo_total_errors m' = mo_total_errors m +
           (case r of Inr res \<Rightarrow> if rs_status res < 400 then 0 else 1 | Inl _ \<Rightarrow> 1) \<and>
         (\<exists>new. logs' = logs @ new \<and> new \<noteq> [] \<and> list_all (\<lambda>l. ll_correlation_id l = logged) new) \<and>
         (case r of
            Inr res \<Rightarrow> map_of (rs_headers res) ''x-correlation-id'' =
                         Some (if header_ok sent then sent else ''invalid'')
          | Inl _ \<Rightarrow> True) \<and>
         (case Option.bind (map_of (rq_headers req) ''x-correlation-id'') to_str of
            Some i \<Rightarrow> sent = i \<and> logged = i
          | None \<Rightarrow> new_id w = (sent, w1) \<and> new_id w1 = (logged, w2))"
proof -
  have c: "correlation_id to_str (on_site new_id) req (m, logs, w) = (sent, m, logs, w1)"
    using on_site_correlation assms(2) by metis
  obtain r0 m0 logs0 w0 where q: "request_logger_call fl to_str new_id clock service req (m, logs, w1)
      = (r0, m0, logs0, w0)" by (metis prod_cases4)
  note rep = request_logger_reports[OF q]
  have r: "r = map_sum id (\<lambda>res. res\<lparr>rs_headers := AList.update ''x-correlation-id''
             (if header_ok sent then sent else ''invalid'') (rs_headers res)\<rparr>) r0"
    and site: "m' = m0" "logs' = logs0"
    using assms(1) c q by (simp_all add: observed_def correlation_call_def)
  obtain now lat where m0: "m0 = mo_record_request_end fl now lat (rq_path req)
      (case r0 of Inr res \<Rightarrow> rs_status res < 400 | Inl _ \<Rightarrow> False) (mo_record_request_start m)"
    using rep by blast
  have logs: "\<exists>new. logs' = logs @ new \<and> new \<noteq> [] \<and> list_all (\<lambda>l. ll_correlation_id l = logged) new"
    using rep site assms(3)[symmetric] by (auto simp: list_all_iff)
  have counts: "mo_active_requests m' = mo_active_requests m"
    "mo_total_requests m' = mo_total_requests m + 1" "mo_total_processed m' = mo_total_processed m + 1"
    "mo_total_errors m' = mo_total_errors m +
       (case r of Inr res \<Rightarrow> if rs_status res < 400 then 0 else 1 | Inl _ \<Rightarrow> 1)"
    by (cases r0; simp add: r m0 site mo_record_request_end_def mo_record_request_start_def)+
  have header: "case r of
      Inr res \<Rightarrow> map_of (rs_headers res) ''x-correlation-id'' = Some (if header_ok sent then sent else ''invalid'')
    | Inl _ \<Rightarrow> True"
    by (cases r0) (simp_all add: r update_conv')
  have ids: "case Option.bind (map_of (rq_headers req) ''x-correlation-id'') to_str of
      Some i \<Rightarrow> sent = i \<and> logged = i
    | None \<Rightarrow> new_id w = (sent, w1) \<and> new_id w1 = (logged, w2)"
    using assms(2,3) by (simp add: correlation_id_def split: option.splits)
  show ?thesis using counts logs header ids by blast
qed

text \<open>The world of the witness counts the ids given out.\<close>

definition next_id :: "nat \<Rightarrow> string \<times> nat" where
  "next_id n = (replicate n CHR ''a'', n + 1)"

definition empty_service :: "(unit, unit, nat) service" where
  "empty_service req w = (Inr \<lparr>rs_status = 200, rs_headers = [], rs_body = ()\<rparr>, w)"

definition plain_request :: request where
  "plain_request = \<lparr>rq_path = ''/predict'', rq_method = ''POST'', rq_headers = []\<rparr>"

theorem request_observed_witness:
  "\<exists>r m' logs'. observed id Some next_id (\<lambda>w. (0, w)) (\<lambda>_. True) empty_service plain_request (mo_new 0, [], 1) =
      (r, m', logs', 3) \<and> mo_total_requests m' = 1 \<and> list_all (\<lambda>l. ll_correlation_id l = ''aa'') logs' \<and>
      (case r of Inr res \<Rightarrow> map_of (rs_headers res) ''x-correlation-id'' = Some ''a'' | Inl _ \<Rightarrow> True)"
proof -
  obtain r m' logs' w' where o: "observed id Some next_id (\<lambda>w. (0, w)) (\<lambda>_. True) empty_service plain_request
      (mo_new 0, [], 1) = (r, m', logs', w')" by (metis prod_cases4)
  moreover have "w' = 3"
    using o by (auto simp: observed_def correlation_call_def request_logger_call_def on_site_def
        correlation_id_def plain_request_def empty_service_def next_id_def Let_def)
  ultimately show ?thesis
    using request_observed[OF o, of "''a''" 2 "''aa''" 3]
    by (auto simp: correlation_id_def plain_request_def next_id_def mo_new_def numeral_eq_Suc split: sum.splits)
qed

end
