(* ===== verification/Sampling.thy ===== *)
theory Sampling
  imports Floats
begin

text \<open>
  Token sampling of the LLM engines (\<open>sampling.rs\<close>). Logits are finite floats; the number in
  \<open>[0, 1)\<close> that the generator draws is an argument, and \<open>exp\<close> is the rounded exponential.
\<close>

text \<open>The scan for the greatest logit; \<open>None\<close> is the initial minus infinity.\<close>

definition greedy_step :: "nat \<times> real option \<Rightarrow> nat \<times> real \<Rightarrow> nat \<times> real option" where
  "greedy_step acc iv =
     (let (i, v) = iv
      in if (case snd acc of Some b \<Rightarrow> b < v | None \<Rightarrow> True) then (i, Some v) else acc)"

definition greedy :: "real list \<Rightarrow> nat" where
  "greedy logits = fst (foldl greedy_step (0, None) (enumerate 0 logits))"

text \<open>\<open>sort_by\<close> is stable; the comparison is that of the second components, reversed.\<close>

definition ranked :: "rnd \<Rightarrow> real list \<Rightarrow> real \<Rightarrow> nat \<Rightarrow> (nat \<times> real) list" where
  "ranked fl logits t top_k =
     take (max top_k 1) (sort_key (\<lambda>p. - snd p) (map (\<lambda>(i, v). (i, fl (v / t))) (enumerate 0 logits)))"

definition fsum :: "rnd \<Rightarrow> real list \<Rightarrow> real" where
  "fsum fl xs = foldl (\<lambda>a x. fl (a + x)) 0 xs"

definition normalised :: "rnd \<Rightarrow> real list \<Rightarrow> real list" where
  "normalised fl xs = (let s = fsum fl xs in map (\<lambda>p. fl (p / s)) xs)"

definition softmax :: "rnd \<Rightarrow> (nat \<times> real) list \<Rightarrow> real list" where
  "softmax fl indexed =
     normalised fl (map (\<lambda>p. fl (exp (fl (snd p - snd (hd indexed))))) indexed)"

text \<open>The first position at which the running sum satisfies the test.\<close>

fun first_reach :: "rnd \<Rightarrow> (real \<Rightarrow> bool) \<Rightarrow> real \<Rightarrow> real list \<Rightarrow> nat option" where
  "first_reach fl test acc [] = None"
| "first_reach fl test acc (p # ps) =
     (if test (fl (acc + p)) then Some 0 else map_option Suc (first_reach fl test (fl (acc + p)) ps))"

definition nucleus :: "rnd \<Rightarrow> real \<Rightarrow> real list \<Rightarrow> real list" where
  "nucleus fl top_p probs =
     (let keep = (case first_reach fl (\<lambda>c. top_p \<le> c) 0 probs of Some i \<Rightarrow> i + 1 | None \<Rightarrow> length probs)
      in normalised fl (take keep probs))"

text \<open>\<open>None\<close> is the panic on an empty list of logits.\<close>

definition sample :: "rnd \<Rightarrow> real \<Rightarrow> real list \<Rightarrow> real \<Rightarrow> nat \<Rightarrow> real \<Rightarrow> nat option" where
  "sample fl r logits temperature top_k top_p =
     (if temperature \<le> 0 then Some (greedy logits)
      else let t = max (fl (1 / 100)) (min temperature 2);
               indexed = ranked fl logits t top_k
           in if indexed = [] then None
              else let probs = nucleus fl top_p (softmax fl indexed)
                   in Some (case first_reach fl (\<lambda>acc. r \<le> acc) 0 probs of
                              Some i \<Rightarrow> fst (indexed ! i)
                            | None \<Rightarrow> fst (last indexed)))"

text \<open>An id is cast to \<open>usize\<close>: a negative one is beyond every list.\<close>

definition penalize :: "rnd \<Rightarrow> real \<Rightarrow> real list \<Rightarrow> 64 word \<Rightarrow> real list" where
  "penalize fl penalty logits i =
     (let i = unat i
      in if i < length logits
         then logits[i := (let l = logits ! i in if 0 < l then fl (l / penalty) else fl (l * penalty))]
         else logits)"

definition apply_repetition_penalty :: "rnd \<Rightarrow> real list \<Rightarrow> 64 word list \<Rightarrow> real \<Rightarrow> real list" where
  "apply_repetition_penalty fl logits history penalty =
     (if penalty \<le> 1 then logits else foldl (penalize fl penalty) logits history)"

section \<open>Greedy choice\<close>

text \<open>The first position of a greatest element.\<close>

definition first_max :: "real list \<Rightarrow> nat \<Rightarrow> bool" where
  "first_max xs i \<longleftrightarrow> i < length xs \<and> (\<forall>j < length xs. xs ! j \<le> xs ! i) \<and> (\<forall>j < i. xs ! j < xs ! i)"

lemma first_max_snoc:
  assumes "first_max xs i"
  shows "first_max (xs @ [y]) (if xs ! i < y then length xs else i)"
  using assms by (auto simp: first_max_def nth_append less_Suc_eq intro: order_le_less_trans)

lemma greedy_scan:
  assumes "xs \<noteq> []"
  shows "\<exists>i. foldl greedy_step (0, None) (enumerate 0 xs) = (i, Some (xs ! i)) \<and> first_max xs i"
  using assms
proof (induction xs rule: rev_induct)
  case (snoc y ys)
  have last: "enumerate 0 (ys @ [y]) = enumerate 0 ys @ [(length ys, y)]"
    by (simp add: enumerate_append_eq)
  show ?case
  proof (cases "ys = []")
    case True
    then show ?thesis by (simp add: greedy_step_def first_max_def)
  next
    case False
    then obtain i where i: "foldl greedy_step (0, None) (enumerate 0 ys) = (i, Some (ys ! i))" "first_max ys i"
      using snoc.IH by blast
    have "i < length ys" using i(2) by (simp add: first_max_def)
    then have "foldl greedy_step (0, None) (enumerate 0 (ys @ [y])) =
        (let k = if ys ! i < y then length ys else i in (k, Some ((ys @ [y]) ! k)))"
      by (simp add: last i(1) greedy_step_def nth_append)
    with first_max_snoc [OF i(2), of y] show ?thesis by (simp add: Let_def)
  qed
qed simp

lemma greedy_first_max: "xs \<noteq> [] \<Longrightarrow> first_max xs (greedy xs)"
  using greedy_scan [of xs] by (auto simp: greedy_def)

section \<open>The nucleus\<close>

text \<open>What exact arithmetic makes of the sums: the mass of the first \<open>k\<close> weights.\<close>

definition mass :: "real list \<Rightarrow> nat \<Rightarrow> real" where
  "mass ws k = sum_list (take k ws)"

lemma mass_all: "mass ws (length ws) = sum_list ws"
  by (simp add: mass_def)

lemma mass_take: "j \<le> k \<Longrightarrow> mass (take k ws) j = mass ws j"
  by (simp add: mass_def min_absorb1)

lemma sum_list_div: "sum_list (map (\<lambda>x. x / c) xs) = sum_list xs / (c :: real)"
  by (induction xs) (simp_all add: add_divide_distrib)

lemma mass_div: "mass (map (\<lambda>x. x / c) ws) k = mass ws k / c"
  by (simp add: mass_def take_map sum_list_div)

lemma mass_pos: "(\<And>x. x \<in> set ws \<Longrightarrow> 0 < x) \<Longrightarrow> ws \<noteq> [] \<Longrightarrow> 0 < k \<Longrightarrow> 0 < mass ws k"
  unfolding mass_def
  by (cases ws; cases k) (auto intro!: add_pos_nonneg sum_list_nonneg dest!: in_set_takeD simp: less_imp_le)

lemma fsum_exact: "fsum exact xs = sum_list xs"
proof -
  have "foldl (\<lambda>a x. a + x) s xs = s + sum_list xs" for s :: real
    by (induction xs arbitrary: s) (simp_all add: add.assoc)
  then show ?thesis by (simp add: fsum_def)
qed

lemma normalised_exact: "normalised exact xs = map (\<lambda>x. x / sum_list xs) xs"
  by (simp add: normalised_def fsum_exact Let_def)

lemma normalised_scale: "c \<noteq> 0 \<Longrightarrow> normalised exact (map (\<lambda>x. x / c) xs) = normalised exact xs"
  by (simp add: normalised_exact sum_list_div)

lemma first_reach_Some:
  "first_reach exact test acc ps = Some i \<longleftrightarrow>
     i < length ps \<and> test (acc + mass ps (Suc i)) \<and> (\<forall>j < i. \<not> test (acc + mass ps (Suc j)))"
proof (induction ps arbitrary: acc i)
  case (Cons p ps)
  show ?case
  proof (cases i)
    case 0
    then show ?thesis by (simp add: mass_def)
  next
    case (Suc k)
    then show ?thesis using Cons [of "acc + p" k]
      by (auto simp: mass_def add.assoc less_Suc_eq_0_disj)
  qed
qed simp

lemma first_reach_None:
  "first_reach exact test acc ps = None \<longleftrightarrow> (\<forall>j < length ps. \<not> test (acc + mass ps (Suc j)))"
proof (induction ps arbitrary: acc)
  case (Cons p ps)
  then show ?case by (auto simp: mass_def add.assoc less_Suc_eq_0_disj)
qed simp

text \<open>The smallest prefix whose share of the mass reaches \<open>top_p\<close>, or all of it.\<close>

definition nucleus_size :: "real \<Rightarrow> real list \<Rightarrow> nat \<Rightarrow> bool" where
  "nucleus_size top_p ws k \<longleftrightarrow>
     0 < k \<and> k \<le> length ws \<and> (\<forall>j < k. 0 < j \<longrightarrow> mass ws j < top_p * mass ws (length ws)) \<and>
     (k = length ws \<or> top_p * mass ws (length ws) \<le> mass ws k)"

lemma nucleus_exact:
  assumes "\<And>x. x \<in> set ws \<Longrightarrow> 0 < x" "ws \<noteq> []"
  shows "\<exists>k. nucleus_size top_p ws k \<and>
           nucleus exact top_p (normalised exact ws) = map (\<lambda>x. x / mass ws k) (take k ws)"
proof -
  let ?s = "sum_list ws" and ?ps = "map (\<lambda>x. x / sum_list ws) ws"
  have s: "0 < ?s" using mass_pos [OF assms, of "length ws"] assms(2) by (simp add: mass_def)
  define k where "k = (case first_reach exact (\<lambda>c. top_p \<le> c) 0 ?ps of Some i \<Rightarrow> i + 1 | None \<Rightarrow> length ?ps)"
  have "nucleus exact top_p (normalised exact ws) = normalised exact (take k ?ps)"
    by (simp add: nucleus_def normalised_exact k_def Let_def)
  also have "take k ?ps = map (\<lambda>x. x / ?s) (take k ws)" by (simp add: take_map)
  also have "normalised exact \<dots> = map (\<lambda>x. x / mass ws k) (take k ws)"
    using s by (simp only: normalised_scale) (simp add: normalised_exact mass_def)
  finally have eq: "nucleus exact top_p (normalised exact ws) = map (\<lambda>x. x / mass ws k) (take k ws)" .
  have reach: "top_p \<le> mass ?ps j \<longleftrightarrow> top_p * ?s \<le> mass ws j" for j
    using s by (simp add: mass_div pos_le_divide_eq)
  have "nucleus_size top_p ws k"
  proof (cases "first_reach exact (\<lambda>c. top_p \<le> c) 0 ?ps")
    case None
    then have k: "k = length ws" by (simp add: k_def)
    have "mass ws j < top_p * ?s" if "0 < j" "j \<le> length ws" for j
    proof -
      have "mass ?ps (Suc (j - 1)) < top_p"
        using None that unfolding first_reach_None by (simp add: not_le del: Suc_pred)
      then show ?thesis using reach [of j] that by (simp add: not_le)
    qed
    then show ?thesis using assms(2) k by (auto simp: nucleus_size_def mass_all)
  next
    case (Some i)
    then have k: "k = Suc i" by (simp add: k_def)
    have i: "i < length ws" "top_p * ?s \<le> mass ws (Suc i)" "\<And>j. j < i \<Longrightarrow> mass ws (Suc j) < top_p * ?s"
      using Some reach unfolding first_reach_Some by (auto simp: not_le)
    have "mass ws j < top_p * ?s" if "j < k" "0 < j" for j
      using i(3) [of "j - 1"] that k by (cases j) auto
    then show ?thesis using i(1,2) k by (auto simp: nucleus_size_def mass_all)
  qed
  with eq show ?thesis by blast
qed

lemma softmax_exact:
  "softmax exact ix = normalised exact (map (\<lambda>p. exp (snd p)) ix)"
proof -
  have "map (\<lambda>p. exp (snd p - snd (hd ix))) ix =
      map (\<lambda>x. x / exp (snd (hd ix))) (map (\<lambda>p. exp (snd p)) ix)"
    by (simp add: exp_diff)
  then show ?thesis
    by (simp only: softmax_def id_apply normalised_scale [OF exp_not_eq_zero])
qed

text \<open>The ranking keeps the greatest logits, in falling order.\<close>

lemma ranked_in:
  assumes "p \<in> set (ranked exact logits t top_k)" "0 < t"
  shows "fst p < length logits \<and> snd p = logits ! fst p / t \<and>
         card {i. i < length logits \<and> logits ! fst p < logits ! i} < max top_k 1"
proof -
  let ?all = "map (\<lambda>(i, v). (i, v / t)) (enumerate 0 logits)"
  let ?s = "sort_key (\<lambda>p. - snd p) ?all"
  obtain j where j: "j < length ?s" "j < max top_k 1" "?s ! j = p"
    using assms(1) unfolding ranked_def by (auto simp: in_set_conv_nth)
  have set: "set ?s = (\<lambda>i. (i, logits ! i / t)) ` {..<length logits}"
  proof -
    have "?all = map (\<lambda>i. (i, logits ! i / t)) [0..<length logits]"
      by (rule nth_equalityI) (simp_all add: nth_enumerate_eq)
    then show ?thesis by (simp add: atLeast0LessThan)
  qed
  have "p \<in> set ?s" using j by (metis nth_mem)
  then have p: "fst p < length logits" "snd p = logits ! fst p / t" unfolding set by auto
  let ?big = "{i. i < length logits \<and> logits ! fst p < logits ! i}"
  have "(\<lambda>i. (i, logits ! i / t)) ` ?big \<subseteq> set (take j ?s)"
  proof
    fix q assume "q \<in> (\<lambda>i. (i, logits ! i / t)) ` ?big"
    then have q: "q \<in> set ?s" "snd p < snd q" unfolding set p(2) using assms(2)
      by (auto simp: divide_strict_right_mono)
    then obtain m where m: "m < length ?s" "?s ! m = q" by (meson in_set_conv_nth)
    have "m < j"
    proof (rule ccontr)
      assume "\<not> m < j"
      then have "map (\<lambda>p. - snd p) ?s ! j \<le> map (\<lambda>p. - snd p) ?s ! m"
        using m(1) by (intro sorted_nth_mono) (simp_all del: map_map)
      with j m q show False by simp
    qed
    with m show "q \<in> set (take j ?s)" by (auto simp: in_set_conv_nth)
  qed
  then have "card ((\<lambda>i. (i, logits ! i / t)) ` ?big) \<le> j"
    by (rule order_trans [OF card_mono [OF finite_set]]) (rule order_trans [OF card_length], simp)
  moreover have "card ((\<lambda>i. (i, logits ! i / t)) ` ?big) = card ?big"
    by (rule card_image) (simp add: inj_on_def)
  ultimately show ?thesis using p j(2) by simp
qed

lemma ranked_eq_Nil [simp]: "ranked fl logits t top_k = [] \<longleftrightarrow> logits = []"
proof -
  have "length (sort_key (\<lambda>p. - snd p) (map (\<lambda>(i, v). (i, fl (v / t))) (enumerate 0 logits))) = length logits"
    by simp
  then show ?thesis unfolding ranked_def by (metis length_0_conv take_eq_Nil max.cobounded2 not_one_le_zero)
qed

text \<open>
  C17. Sampling in exact arithmetic, for a positive temperature. The token returned is one of the
  \<open>top_k\<close> of greatest logit and in the nucleus, the smallest prefix of these whose share of the
  weights \<open>exp (logit / t)\<close> reaches \<open>top_p\<close>; and it is the one on whose share of the nucleus, laid
  out along the unit interval, the random number falls. At temperature 0 it is the first greatest.
\<close>

theorem sample_from_nucleus:
  assumes "logits \<noteq> []" "r \<le> 1" "ix = ranked exact logits (max (1 / 100) (min temperature 2)) top_k"
    "ws = map (\<lambda>p. exp (snd p)) ix"
  shows "if temperature \<le> 0
         then \<exists>i. sample exact r logits temperature top_k top_p = Some i \<and> first_max logits i
         else \<exists>j k i. sample exact r logits temperature top_k top_p = Some i \<and> i = fst (ix ! j) \<and>
                i < length logits \<and> card {i'. i' < length logits \<and> logits ! i < logits ! i'} < max top_k 1 \<and>
                nucleus_size top_p ws k \<and> j < k \<and> r * mass ws k \<le> mass ws (Suc j) \<and>
                (0 < j \<longrightarrow> mass ws j < r * mass ws k)"
proof (cases "temperature \<le> 0")
  case True
  then show ?thesis using greedy_first_max [OF assms(1)] by (simp add: sample_def)
next
  case False
  have pos: "\<And>x. x \<in> set ws \<Longrightarrow> 0 < x" and ne: "ws \<noteq> []" "ix \<noteq> []" using assms by auto
  obtain k where k: "nucleus_size top_p ws k"
      "nucleus exact top_p (softmax exact ix) = map (\<lambda>x. x / mass ws k) (take k ws)"
    using nucleus_exact [OF pos ne(1), of top_p] unfolding softmax_exact assms(4) by blast
  let ?ps = "map (\<lambda>x. x / mass ws k) (take k ws)"
  have kl: "0 < k" "k \<le> length ws" using k(1) by (simp_all add: nucleus_size_def)
  have mk: "0 < mass ws k" using mass_pos [OF pos ne(1) kl(1)] .
  have mass: "mass ?ps j = mass ws j / mass ws k" if "j \<le> k" for j
    using that by (simp add: mass_div mass_take)
  have "first_reach exact (\<lambda>acc. r \<le> acc) 0 ?ps \<noteq> None"
  proof
    assume "first_reach exact (\<lambda>acc. r \<le> acc) 0 ?ps = None"
    then have "\<not> r \<le> mass ?ps k" using kl unfolding first_reach_None by (cases k) auto
    with mass [of k] mk assms(2) show False by simp
  qed
  then obtain j where j: "first_reach exact (\<lambda>acc. r \<le> acc) 0 ?ps = Some j" by blast
  then have jk: "j < k" and up: "r \<le> mass ?ps (Suc j)" and lo: "\<And>i. i < j \<Longrightarrow> \<not> r \<le> mass ?ps (Suc i)"
    using kl unfolding first_reach_Some by auto
  have run: "sample exact r logits temperature top_k top_p = Some (fst (ix ! j))"
    using False ne(2) j k(2) unfolding assms(3) by (simp add: sample_def Let_def)
  have "r * mass ws k \<le> mass ws (Suc j)" using up jk mk mass [of "Suc j"] by (simp add: pos_le_divide_eq)
  moreover have "mass ws j < r * mass ws k" if "0 < j"
    using lo [of "j - 1"] that jk mk mass [of j] by (simp add: not_le pos_divide_less_eq)
  moreover have "ix ! j \<in> set ix" using jk kl assms(4) by simp
  then have "fst (ix ! j) < length logits \<and>
      card {i'. i' < length logits \<and> logits ! fst (ix ! j) < logits ! i'} < max top_k 1"
    using ranked_in [of "ix ! j" logits "max (1 / 100) (min temperature 2)" top_k] assms(3) by simp
  ultimately show ?thesis
    unfolding if_not_P [OF False] using run k(1) jk by (intro exI conjI) auto
qed

theorem sample_from_nucleus_witness:
  "sample exact 1 [0] 1 1 (1 / 2) = Some 0"
  using sample_from_nucleus [of "[0]" 1 "[(0, 0)]" 1 1 "[1]" "1 / 2"]
  by (auto simp: ranked_def nucleus_size_def)

section \<open>The repetition penalty\<close>

lemma penalize_nth:
  assumes "i < length logits" "1 < penalty"
  shows "penalize exact penalty logits w ! i =
    (if unat w \<noteq> i then logits ! i else if 0 < logits ! i then logits ! i / penalty else logits ! i * penalty)"
  using assms by (simp add: penalize_def Let_def)

lemma length_penalize [simp]: "length (penalize fl penalty logits w) = length logits"
  by (simp add: penalize_def Let_def)

text \<open>
  In exact arithmetic a penalty above 1 divides a positive logit, and multiplies any other, by
  the power of the penalty whose exponent is the number of times the token occurs in the history:
  repeated tokens are penalised once per occurrence. Other logits, and ids beyond the
  vocabulary, change nothing.
\<close>

theorem repetition_penalty_compounds:
  assumes "1 < penalty" "i < length logits"
  shows "apply_repetition_penalty exact logits history penalty ! i =
    (let n = length (filter (\<lambda>w. unat w = i) history)
     in if 0 < logits ! i then logits ! i / penalty ^ n else logits ! i * penalty ^ n)"
proof -
  have "length (foldl (penalize exact penalty) logits history) = length logits \<and>
      foldl (penalize exact penalty) logits history ! i =
        (let n = length (filter (\<lambda>w. unat w = i) history)
         in if 0 < logits ! i then logits ! i / penalty ^ n else logits ! i * penalty ^ n)"
  proof (induction history rule: rev_induct)
    case (snoc w ws)
    define l where "l = foldl (penalize exact penalty) logits ws"
    note IH = snoc.IH [folded l_def]
    have "i < length l" using IH assms(2) by simp
    from penalize_nth [OF this assms(1), of w] IH assms(1)
    show ?case unfolding foldl_append foldl.simps l_def [symmetric]
      by (auto simp: Let_def zero_less_divide_iff zero_less_mult_iff)
  qed simp
  then show ?thesis using assms(1) by (simp add: apply_repetition_penalty_def)
qed

theorem repetition_penalty_compounds_witness:
  "apply_repetition_penalty exact [3, 8] [1, 1] 2 ! 1 = 2"
  using repetition_penalty_compounds [of 2 1 "[3, 8]" "[1, 1]"] by simp

end
