(* ===== verification/LlmConfig.thy ===== *)
theory LlmConfig
  imports Prompt Complex_Main
begin

text \<open>
  The configuration of the LLM service (\<open>src/services/llm/src/config.rs\<close>): its sections, the
  values of the fields a file leaves out, loading and validation. The reader of the file and the
  TOML parser are arguments; the constants \<open>..._section\<close> are what the parser makes of a section
  that is present and empty (the \<open>serde\<close> defaults of its fields).
\<close>

record hrm_config =
  hc_model_dir :: string
  hc_ep_preference :: string
  hc_use_quantized :: "bool option"
  hc_n_threads :: "int option"
  hc_stub :: "bool option"

record engine_select_config =
  es_kind :: string

record smolvlm_config =
  sv_model_dir :: string
  sv_ep_preference :: string
  sv_n_threads :: "int option"
  sv_stub :: "bool option"

record vision_bridge_config =
  vb_enabled :: bool
  vb_main_server_base :: string
  vb_classify_endpoint :: string
  vb_detect_endpoint :: string
  vb_classify_timeout_ms :: u64
  vb_detect_timeout_ms :: u64

record http_fetch_config =
  hfc_enabled :: bool
  hfc_allowlist :: "string list"
  hfc_max_bytes :: nat
  hfc_follow_redirects :: bool

record agent_tools_config =
  atc_main_server_base :: string
  atc_classify_endpoint :: string
  atc_detect_endpoint :: string
  atc_tts_endpoint :: string
  atc_stt_endpoint :: string

record agent_config =
  ac_enabled :: bool
  ac_max_steps :: nat
  ac_max_run_ms :: u64
  ac_per_tool_ms :: u64
  ac_max_concurrent_runs :: nat
  ac_reflect_max_tokens :: u32
  ac_planner_temperature :: real
  ac_http_fetch :: "http_fetch_config option"
  ac_tools :: "agent_tools_config option"

record limits_json_config =
  lj_body_limit :: nat

record limits_channels_config =
  lch_sse_event_buffer :: nat
  lch_chat_stream_buffer :: nat
  lch_chat_nonstream_buffer :: nat

record limits_engine_config =
  len_max_concurrent :: nat

record limits_results_config =
  lr_per_run_bytes :: nat
  lr_field_trim_above :: nat

record limits_config =
  lc_max_image_bytes :: nat
  lc_max_prompt_chars :: nat
  lc_max_messages :: nat
  lc_max_generated_tokens :: u32
  lc_max_ctx_size :: u32
  lc_json :: limits_json_config
  lc_channels :: limits_channels_config
  lc_engine :: limits_engine_config
  lc_results :: limits_results_config

record memory_gate_config =
  mgc_high_water_mb :: u64
  mgc_low_water_mb :: u64
  mgc_poll_on_admit_only :: bool

record kv_cache_config =
  kc_enabled :: bool

record llm_config =
  llc_port :: u16
  llc_hrm :: "hrm_config option"
  llc_engine :: "engine_select_config option"
  llc_smolvlm :: "smolvlm_config option"
  llc_vision_bridge :: "vision_bridge_config option"
  llc_agent :: "agent_config option"
  llc_limits :: "limits_config option"
  llc_memory_gate :: "memory_gate_config option"
  llc_kv_cache :: "kv_cache_config option"

section \<open>Defaults\<close>

definition es_default :: engine_select_config where
  "es_default = \<lparr>es_kind = ''hrm''\<rparr>"

definition hfc_default :: http_fetch_config where
  "hfc_default = \<lparr>hfc_enabled = True, hfc_allowlist = [], hfc_max_bytes = 65536, hfc_follow_redirects = False\<rparr>"

definition atc_default :: agent_tools_config where
  "atc_default = \<lparr>atc_main_server_base = ''http://127.0.0.1:8000'', atc_classify_endpoint = ''/classify/batch'',
     atc_detect_endpoint = ''/yolo/detect'', atc_tts_endpoint = ''/tts/stream'',
     atc_stt_endpoint = ''/stt/transcribe''\<rparr>"

definition lj_default :: limits_json_config where
  "lj_default = \<lparr>lj_body_limit = 4194304\<rparr>"

definition lch_default :: limits_channels_config where
  "lch_default = \<lparr>lch_sse_event_buffer = 8, lch_chat_stream_buffer = 16, lch_chat_nonstream_buffer = 64\<rparr>"

definition len_default :: limits_engine_config where
  "len_default = \<lparr>len_max_concurrent = 1\<rparr>"

definition lr_default :: limits_results_config where
  "lr_default = \<lparr>lr_per_run_bytes = 65536, lr_field_trim_above = 8192\<rparr>"

definition lc_default :: limits_config where
  "lc_default = \<lparr>lc_max_image_bytes = 2097152, lc_max_prompt_chars = 16384, lc_max_messages = 32,
     lc_max_generated_tokens = 512, lc_max_ctx_size = 8192, lc_json = lj_default,
     lc_channels = lch_default, lc_engine = len_default, lc_results = lr_default\<rparr>"

definition agent_section :: agent_config where
  "agent_section = \<lparr>ac_enabled = True, ac_max_steps = 8, ac_max_run_ms = 60000, ac_per_tool_ms = 5000,
     ac_max_concurrent_runs = 4, ac_reflect_max_tokens = 128, ac_planner_temperature = 0,
     ac_http_fetch = None, ac_tools = None\<rparr>"

definition vision_bridge_section :: vision_bridge_config where
  "vision_bridge_section = \<lparr>vb_enabled = True, vb_main_server_base = ''http://127.0.0.1:8000'',
     vb_classify_endpoint = ''/classify/batch'', vb_detect_endpoint = ''/yolo/detect'',
     vb_classify_timeout_ms = 1500, vb_detect_timeout_ms = 2500\<rparr>"

definition memory_gate_section :: memory_gate_config where
  "memory_gate_section = \<lparr>mgc_high_water_mb = 4096, mgc_low_water_mb = 3072, mgc_poll_on_admit_only = True\<rparr>"

definition kv_cache_section :: kv_cache_config where
  "kv_cache_section = \<lparr>kc_enabled = True\<rparr>"

definition llm_no_file :: llm_config where
  "llm_no_file = \<lparr>llc_port = 8001, llc_hrm = None, llc_engine = None, llc_smolvlm = None,
     llc_vision_bridge = None, llc_agent = None, llc_limits = None, llc_memory_gate = None,
     llc_kv_cache = None\<rparr>"

section \<open>Loading\<close>

definition kv_unsupported :: string where
  "kv_unsupported = ''kv_cache.enabled = false is not supported: both engines always decode via their KV-cache path (SmolVLM) or have no KV-cache path to disable (HRM). Remove [kv_cache] or set enabled = true.''"

definition poll_unsupported :: string where
  "poll_unsupported = ''memory_gate.poll_on_admit_only = false is not supported: MemoryGate only implements lazy polling on admit() '' @ em_dash @ '' there is no background-poller mode to switch to. Remove [memory_gate] poll_on_admit_only or set it to true.''"

definition llm_validate :: "llm_config \<Rightarrow> string + unit" where
  "llm_validate cfg =
     bindR (case llc_kv_cache cfg of Some kv \<Rightarrow> guardR (kc_enabled kv) kv_unsupported | None \<Rightarrow> Inr ())
      (\<lambda>_. bindR (case llc_memory_gate cfg of
                    Some mg \<Rightarrow> guardR (mgc_poll_on_admit_only mg) poll_unsupported | None \<Rightarrow> Inr ())
      (\<lambda>_. Inr ()))"

text \<open>\<open>file\<close> is what reading \<open>config.toml\<close> gives, \<open>None\<close> where there is no such file.\<close>

definition llm_load :: "(string \<Rightarrow> string + llm_config) \<Rightarrow> (string + string) option \<Rightarrow> string + llm_config" where
  "llm_load from_toml file =
     bindR (case file of
              Some r \<Rightarrow> bindR (case r of Inl _ \<Rightarrow> Inl ''read config.toml'' | Inr txt \<Rightarrow> Inr txt)
                (\<lambda>txt. case from_toml txt of Inl _ \<Rightarrow> Inl ''parse config.toml'' | Inr cfg \<Rightarrow> Inr cfg)
            | None \<Rightarrow> Inr llm_no_file)
      (\<lambda>cfg. bindR (llm_validate cfg) (\<lambda>_. Inr cfg))"

text \<open>What a loaded configuration promises, and that no file is a configuration.\<close>

lemma llm_load_valid:
  assumes "llm_load from_toml file = Inr cfg"
  shows "list_all kc_enabled (case llc_kv_cache cfg of Some kv \<Rightarrow> [kv] | None \<Rightarrow> []) \<and>
         list_all mgc_poll_on_admit_only (case llc_memory_gate cfg of Some mg \<Rightarrow> [mg] | None \<Rightarrow> [])"
  using assms by (auto simp: llm_load_def llm_validate_def bindR_Inr_iff split: option.splits)

lemma llm_load_no_file [simp]: "llm_load from_toml None = Inr llm_no_file"
  by (simp add: llm_load_def llm_validate_def llm_no_file_def)

text \<open>Without a section the parts of the service use these.\<close>

definition engine_kind :: "llm_config \<Rightarrow> string" where
  "engine_kind cfg = es_kind (case llc_engine cfg of Some e \<Rightarrow> e | None \<Rightarrow> es_default)"

definition limits_of :: "llm_config \<Rightarrow> limits_config" where
  "limits_of cfg = (case llc_limits cfg of Some l \<Rightarrow> l | None \<Rightarrow> lc_default)"

definition memory_gate_of :: "llm_config \<Rightarrow> memory_gate_config" where
  "memory_gate_of cfg = (case llc_memory_gate cfg of Some mg \<Rightarrow> mg | None \<Rightarrow> memory_gate_section)"

end
