(* ===== verification/MemoryGate.thy ===== *)
theory MemoryGate
  imports Prelude
begin

text \<open>
  The memory admission gate (\<open>memory_gate.rs\<close> of the LLM service): hysteresis between two water
  marks on the resident memory. A reading of the process's memory is an argument, \<open>None\<close> where
  reading it fails. The products of the constructor wrap, as in a release build.
\<close>

record memory_gate =
  mg_high_water_bytes :: u64
  mg_low_water_bytes :: u64
  mg_above_water :: bool

record memory_refusal =
  mr_rss_mb :: u64
  mr_hw_mb :: u64

text \<open>\<open>None\<close> is the failed assertion.\<close>

definition mg_new :: "u64 \<Rightarrow> u64 \<Rightarrow> memory_gate option" where
  "mg_new high_water_mb low_water_mb =
     (if low_water_mb \<le> high_water_mb
      then Some \<lparr>mg_high_water_bytes = high_water_mb * 1024 * 1024,
                 mg_low_water_bytes = low_water_mb * 1024 * 1024, mg_above_water = False\<rparr>
      else None)"

definition mg_rss :: "u64 option \<Rightarrow> u64" where
  "mg_rss reading = (case reading of Some rss \<Rightarrow> rss | None \<Rightarrow> 0)"

definition mg_admit :: "u64 option \<Rightarrow> memory_gate \<Rightarrow> (memory_refusal + unit) \<times> memory_gate" where
  "mg_admit reading g =
     (let rss = mg_rss reading;
          refusal = \<lparr>mr_rss_mb = rss div 1024 div 1024, mr_hw_mb = mg_high_water_bytes g div 1024 div 1024\<rparr>
      in if mg_above_water g
         then if rss < mg_low_water_bytes g then (Inr (), g\<lparr>mg_above_water := False\<rparr>)
              else (Inl refusal, g)
         else if mg_high_water_bytes g < rss then (Inl refusal, g\<lparr>mg_above_water := True\<rparr>)
         else (Inr (), g))"

definition mg_run :: "u64 option list \<Rightarrow> memory_gate \<Rightarrow> memory_gate" where
  "mg_run readings g = fold (\<lambda>r g. snd (mg_admit r g)) readings g"

lemma mg_run_snoc [simp]: "mg_run (rs @ [r]) g = snd (mg_admit r (mg_run rs g))"
  by (simp add: mg_run_def)

lemma mg_admit_marks [simp]:
  "mg_high_water_bytes (snd (mg_admit r g)) = mg_high_water_bytes g"
  "mg_low_water_bytes (snd (mg_admit r g)) = mg_low_water_bytes g"
  by (simp_all add: mg_admit_def Let_def)

lemma mg_run_marks [simp]:
  "mg_high_water_bytes (mg_run rs g) = mg_high_water_bytes g"
  "mg_low_water_bytes (mg_run rs g) = mg_low_water_bytes g"
  by (induction rs rule: rev_induct) (simp_all, simp_all add: mg_run_def)

text \<open>The flag is what the answer was.\<close>

lemma mg_admit_flag: "isl (fst (mg_admit r g)) = mg_above_water (snd (mg_admit r g))"
  by (simp add: mg_admit_def Let_def)

text \<open>The reference: some reading was above the upper mark, and none since then below the lower.\<close>

definition under_pressure :: "nat \<Rightarrow> nat \<Rightarrow> u64 option list \<Rightarrow> bool" where
  "under_pressure high low rs \<longleftrightarrow>
     (\<exists>xs y ys. rs = xs @ y # ys \<and> high < unat (mg_rss y) \<and> list_all (\<lambda>z. low \<le> unat (mg_rss z)) ys)"

lemma under_pressure_snoc:
  "under_pressure high low (rs @ [r]) \<longleftrightarrow>
     high < unat (mg_rss r) \<or> (under_pressure high low rs \<and> low \<le> unat (mg_rss r))"
proof
  assume "under_pressure high low (rs @ [r])"
  then obtain xs y ys where s: "rs @ [r] = xs @ y # ys" "high < unat (mg_rss y)"
      "list_all (\<lambda>z. low \<le> unat (mg_rss z)) ys"
    unfolding under_pressure_def by blast
  show "high < unat (mg_rss r) \<or> (under_pressure high low rs \<and> low \<le> unat (mg_rss r))"
  proof (cases ys rule: rev_cases)
    case Nil
    with s show ?thesis by simp
  next
    case (snoc zs z)
    with s have "rs = xs @ y # zs" "r = z" by (simp_all flip: append_Cons append_assoc)
    with s snoc show ?thesis unfolding under_pressure_def by auto
  qed
next
  assume "high < unat (mg_rss r) \<or> (under_pressure high low rs \<and> low \<le> unat (mg_rss r))"
  then show "under_pressure high low (rs @ [r])"
  proof
    assume "high < unat (mg_rss r)"
    then show ?thesis unfolding under_pressure_def by (intro exI [of _ rs] exI [of _ r] exI [of _ "[]"]) simp
  next
    assume a: "under_pressure high low rs \<and> low \<le> unat (mg_rss r)"
    then obtain xs y ys where "rs = xs @ y # ys" "high < unat (mg_rss y)"
        "list_all (\<lambda>z. low \<le> unat (mg_rss z)) ys"
      unfolding under_pressure_def by blast
    with a have "rs @ [r] = xs @ y # (ys @ [r])" "list_all (\<lambda>z. low \<le> unat (mg_rss z)) (ys @ [r])"
      by simp_all
    then show ?thesis using \<open>high < unat (mg_rss y)\<close> unfolding under_pressure_def by blast
  qed
qed

lemma mg_run_above:
  assumes "\<not> mg_above_water g" "mg_low_water_bytes g \<le> mg_high_water_bytes g"
  shows "mg_above_water (mg_run rs g) \<longleftrightarrow>
    under_pressure (unat (mg_high_water_bytes g)) (unat (mg_low_water_bytes g)) rs"
proof (induction rs rule: rev_induct)
  case Nil
  then show ?case using assms by (simp add: mg_run_def under_pressure_def)
next
  case (snoc r rs)
  have "mg_above_water (mg_run (rs @ [r]) g) \<longleftrightarrow>
      mg_high_water_bytes g < mg_rss r \<or> (mg_above_water (mg_run rs g) \<and> mg_low_water_bytes g \<le> mg_rss r)"
    using assms(2) by (auto simp: mg_admit_def Let_def)
  then show ?case by (simp add: snoc under_pressure_snoc word_less_nat_alt word_le_nat_alt)
qed

lemma mg_refuses:
  assumes "mg_new high low = Some g" and "unat high < 2 ^ 44"
  shows "isl (fst (mg_admit r (mg_run rs g))) \<longleftrightarrow>
         under_pressure (unat high * 2 ^ 20) (unat low * 2 ^ 20) (rs @ [r])"
proof -
  have low: "unat low \<le> unat high" and g: "g = \<lparr>mg_high_water_bytes = high * 1024 * 1024,
      mg_low_water_bytes = low * 1024 * 1024, mg_above_water = False\<rparr>"
    using assms(1) by (auto simp: mg_new_def word_le_nat_alt split: if_splits)
  have bytes: "unat (1048576 * x) = unat x * 1048576" if "unat x < 2 ^ 44" for x :: u64
    using that by (simp add: unat_word_ariths)
  have "mg_low_water_bytes g \<le> mg_high_water_bytes g"
    using low assms(2) by (simp add: g word_le_nat_alt bytes [of low] bytes [of high])
  then show ?thesis
    using mg_run_above [of g "rs @ [r]"] low assms(2) by (simp add: mg_admit_flag g bytes [of low] bytes [of high])
qed

text \<open>
  Hysteresis. A gate built with marks of less than 2^44 MB refuses a request exactly if some
  reading so far, this one included, was above the upper mark and none after it was below the lower
  mark; a reading that fails counts as 0 bytes.
\<close>

theorem memory_gate_hysteresis:
  assumes "mg_new high low = Some g" and "unat high < 2 ^ 44"
  shows "isl (fst (mg_admit r (mg_run rs g))) \<longleftrightarrow>
         under_pressure (unat high * 2 ^ 20) (unat low * 2 ^ 20) (rs @ [r])"
  using mg_refuses [OF assms] .

theorem memory_gate_hysteresis_witness:
  "isl (fst (mg_admit (Some 2097152) (mg_run [Some 4194304] \<lparr>mg_high_water_bytes = 3145728,
     mg_low_water_bytes = 1048576, mg_above_water = False\<rparr>)))"
proof -
  have "mg_new 3 1 = Some \<lparr>mg_high_water_bytes = 3145728, mg_low_water_bytes = 1048576, mg_above_water = False\<rparr>"
    by (simp add: mg_new_def)
  from memory_gate_hysteresis [OF this, of "Some 2097152" "[Some 4194304]"]
  show ?thesis by (simp add: under_pressure_snoc [of _ _ "[_]", simplified] under_pressure_snoc [of _ _ "[]", simplified] mg_rss_def)
qed

text \<open>A gate whose lower mark is 0 never opens again.\<close>

lemma low_water_zero_wedges:
  assumes "mg_low_water_bytes g = 0" "mg_above_water g"
  shows "mg_above_water (mg_run rs g)"
proof (induction rs rule: rev_induct)
  case Nil
  then show ?case using assms by (simp add: mg_run_def)
next
  case (snoc r rs)
  have "mg_low_water_bytes (mg_run rs g) = 0" using assms by simp
  with snoc show ?case by (simp add: mg_admit_def Let_def del: mg_run_marks)
qed

end
