(* ===== verification/AgentApi.thy ===== *)
theory AgentApi
  imports LlmConfig MemoryGate Permits Executor
begin

text \<open>
  The agent endpoint of the LLM service (\<open>src/services/llm/src/agent/http.rs\<close>): admission by the
  memory gate and by the permits of concurrent runs, the limits on the request, the clamping of
  the client's options, and the stream of a run. The planner, the tools and the rest of the
  outside are the \<open>env\<close> of \<open>Executor\<close>; a reading of the process's memory is an argument.
\<close>

record chat_msg =
  cm_role :: string
  cm_content :: string

record agent_input =
  ai_image :: "string option"
  ai_audio :: "string option"

record agent_config_override =
  aco_max_steps :: "nat option"
  aco_max_run_ms :: "u64 option"
  aco_per_tool_ms :: "u64 option"
  aco_temperature :: "real option"

record agent_run_request =
  arr_messages :: "chat_msg list"
  arr_input :: "agent_input option"
  arr_config :: "agent_config_override option"

text \<open>Planner and registry are in the \<open>env\<close>; \<open>al_sem\<close> is the number of free permits.\<close>

record agent_layer =
  al_config :: agent_config
  al_sem :: nat
  al_gate :: memory_gate
  al_limits :: limits_config

definition al_new :: "agent_config \<Rightarrow> memory_gate \<Rightarrow> limits_config \<Rightarrow> agent_layer" where
  "al_new config gate limits =
     \<lparr>al_config = config, al_sem = max (ac_max_concurrent_runs config) 1, al_gate = gate, al_limits = limits\<rparr>"

section \<open>The request\<close>

text \<open>\<open>split_once\<close> at a character.\<close>

definition split_once :: "char \<Rightarrow> string \<Rightarrow> (string \<times> string) option" where
  "split_once c s =
     (if c \<in> set s then Some (takeWhile (\<lambda>x. x \<noteq> c) s, tl (dropWhile (\<lambda>x. x \<noteq> c) s)) else None)"

definition split_data_uri_or_bare :: "string \<Rightarrow> string \<Rightarrow> string \<times> string" where
  "split_data_uri_or_bare s default_mime =
     (case split_once (CHR '','') s of
        Some (meta, data) \<Rightarrow>
          (case strip_prefix ''data:'' meta of
             Some rest \<Rightarrow> ((case split_once (CHR '';'') rest of Some (mime, _) \<Rightarrow> mime | None \<Rightarrow> rest), data)
           | None \<Rightarrow> (default_mime, s))
      | None \<Rightarrow> (default_mime, s))"

definition approx_bytes :: "string \<Rightarrow> nat" where
  "approx_bytes b64 = length b64 * 3 div 4"

definition too_large :: "string \<Rightarrow> nat \<Rightarrow> nat \<Rightarrow> string" where
  "too_large kind max_bytes actual =
     kind @ '' exceeds '' @ show_nat max_bytes @ '' bytes (~'' @ show_nat actual @ '' actual)''"

definition stage_inputs :: "agent_input option \<Rightarrow> nat \<Rightarrow> string + (string \<Rightarrow> input option)" where
  "stage_inputs inp max_image_bytes =
     (case inp of
        None \<Rightarrow> Inr Map.empty
      | Some i \<Rightarrow>
          (case ai_image i of
             Some img \<Rightarrow>
               (let (mime, b64) = split_data_uri_or_bare img ''image/jpeg''
                in if max_image_bytes < approx_bytes b64
                   then Inl (too_large ''image'' max_image_bytes (approx_bytes b64))
                   else Inr [''input'' \<mapsto> Image b64 mime])
           | None \<Rightarrow>
               (case ai_audio i of
                  Some aud \<Rightarrow>
                    (let (mime, b64) = split_data_uri_or_bare aud ''audio/wav''
                     in if max_image_bytes < approx_bytes b64
                        then Inl (too_large ''audio'' max_image_bytes (approx_bytes b64))
                        else Inr [''input'' \<mapsto> Audio b64 mime])
                | None \<Rightarrow> Inr Map.empty)))"

definition tightened :: "('c \<Rightarrow> 'v::linorder option) \<Rightarrow> 'c option \<Rightarrow> 'v \<Rightarrow> 'v" where
  "tightened field req_config server_value =
     (case Option.bind req_config field of Some v \<Rightarrow> min v server_value | None \<Rightarrow> server_value)"

definition resolve_exec_options :: "agent_config_override option \<Rightarrow> agent_config \<Rightarrow> limits_config \<Rightarrow> exec_options" where
  "resolve_exec_options req_config server limits =
     \<lparr>eo_max_steps = tightened aco_max_steps req_config (ac_max_steps server),
      eo_max_run_ms = tightened aco_max_run_ms req_config (ac_max_run_ms server),
      eo_per_tool_ms = tightened aco_per_tool_ms req_config (ac_per_tool_ms server),
      eo_planner_temperature =
        (case Option.bind req_config aco_temperature of Some t \<Rightarrow> t | None \<Rightarrow> ac_planner_temperature server),
      eo_planner_max_tokens = 256,
      eo_sse_event_buffer = lch_sse_event_buffer (lc_channels limits),
      eo_field_trim_above = lr_field_trim_above (lc_results limits),
      eo_per_run_bytes = lr_per_run_bytes (lc_results limits)\<rparr>"

definition user_message :: "chat_msg list \<Rightarrow> string" where
  "user_message messages =
     (case find (\<lambda>m. cm_role m = ''user'') (rev messages) of Some m \<Rightarrow> cm_content m | None \<Rightarrow> [])"

section \<open>The endpoint\<close>

text \<open>A refusal: its status, the header \<open>Retry-After\<close> and the error. An accepted run: what it is run with.\<close>

record refusal =
  rf_status :: nat
  rf_retry_after :: "string option"
  rf_error :: string

record accepted =
  ad_user_msg :: string
  ad_inputs :: "string \<Rightarrow> input option"
  ad_opts :: exec_options

definition refuse :: "nat \<Rightarrow> string \<Rightarrow> refusal + accepted" where
  "refuse status e = Inl \<lparr>rf_status = status, rf_retry_after = None, rf_error = e\<rparr>"

definition memory_refusal_msg :: "memory_refusal \<Rightarrow> string" where
  "memory_refusal_msg e = ''memory pressure: RSS '' @ show_nat (unat (mr_rss_mb e)) @
     '' MB > high_water '' @ show_nat (unat (mr_hw_mb e)) @ '' MB''"

text \<open>What is decided with the permit in hand; a refusal drops it.\<close>

definition accept :: "agent_layer \<Rightarrow> agent_run_request \<Rightarrow> refusal + accepted" where
  "accept layer req =
     (let limits = al_limits layer
      in if lc_max_messages limits < length (arr_messages req)
         then refuse 400 (''messages exceeds max ('' @ show_nat (length (arr_messages req)) @ '' > '' @
                show_nat (lc_max_messages limits) @ '')'')
         else let user_msg = user_message (arr_messages req)
              in if user_msg = [] then refuse 400 ''messages must contain a user message''
                 else case stage_inputs (arr_input req) (lc_max_image_bytes limits) of
                        Inl e \<Rightarrow> refuse 413 e
                      | Inr inputs \<Rightarrow>
                          Inr \<lparr>ad_user_msg = user_msg, ad_inputs = inputs,
                               ad_opts = resolve_exec_options (arr_config req) (al_config layer) limits\<rparr>)"

definition run :: "u64 option \<Rightarrow> agent_run_request \<Rightarrow> agent_layer \<Rightarrow> (refusal + accepted) \<times> agent_layer" where
  "run reading req layer =
     (if \<not> ac_enabled (al_config layer) then (refuse 404 ''agent disabled'', layer)
      else let (admitted, gate) = mg_admit reading (al_gate layer);
               layer = layer\<lparr>al_gate := gate\<rparr>
           in case admitted of
                Inl e \<Rightarrow> (Inl \<lparr>rf_status = 503, rf_retry_after = Some ''1'', rf_error = memory_refusal_msg e\<rparr>, layer)
              | Inr _ \<Rightarrow>
                  if al_sem layer = 0 then (refuse 429 ''max_concurrent_runs reached'', layer)
                  else case accept layer req of
                         Inl r \<Rightarrow> (Inl r, layer)
                       | Inr a \<Rightarrow> (Inr a, layer\<lparr>al_sem := al_sem layer - 1\<rparr>))"

text \<open>The stream ends, or is dropped: its permit comes back.\<close>

definition al_release :: "agent_layer \<Rightarrow> agent_layer" where
  "al_release layer = layer\<lparr>al_sem := Suc (al_sem layer)\<rparr>"

text \<open>The frames of an accepted run.\<close>

definition receiver_to_sse ::
  "(agent_event \<Rightarrow> string option) \<Rightarrow> 'w env \<Rightarrow> accepted \<Rightarrow> 'w \<Rightarrow> string list \<times> 'w" where
  "receiver_to_sse json env a w =
     (let (evs, w') = run_inner env (ad_opts a) (ad_user_msg a) (ad_inputs a) w
      in (map (to_sse_frame json) evs @ [''data: [DONE]'' @ lf @ lf], w'))"

section \<open>Admission\<close>

definition al_take :: "agent_layer \<Rightarrow> agent_layer option" where
  "al_take layer = (if al_sem layer = 0 then None else Some (layer\<lparr>al_sem := al_sem layer - 1\<rparr>))"

interpretation al: permit_gate "max (ac_max_concurrent_runs c) 1" al_sem al_take al_release "al_new c g limits"
  for c g limits
  by unfold_locales (auto simp: al_take_def al_release_def al_new_def split: if_splits)

text \<open>A life of the layer: requests, each with a reading of the memory, and ends of streams.\<close>

datatype agent_op = Request "u64 option" agent_run_request | StreamEnd

fun al_step :: "agent_op \<Rightarrow> agent_layer \<times> nat \<Rightarrow> agent_layer \<times> nat" where
  "al_step (Request reading req) (layer, live) =
     (case run reading req layer of (Inr a, layer') \<Rightarrow> (layer', Suc live) | (Inl r, layer') \<Rightarrow> (layer', live))"
| "al_step StreamEnd (layer, live) = (if 0 < live then (al_release layer, live - 1) else (layer, live))"

definition al_life :: "agent_op list \<Rightarrow> agent_layer \<Rightarrow> agent_layer \<times> nat" where
  "al_life ops layer = fold al_step ops (layer, 0)"

fun readings :: "agent_op list \<Rightarrow> u64 option list" where
  "readings [] = []"
| "readings (Request reading req # ops) = reading # readings ops"
| "readings (StreamEnd # ops) = readings ops"

lemma readings_snoc [simp]:
  "readings (ops @ [Request reading req]) = readings ops @ [reading]"
  "readings (ops @ [StreamEnd]) = readings ops"
  by (induction ops rule: readings.induct) auto

text \<open>What a request does to the layer, permits and gate apart.\<close>

lemma run_enabled:
  assumes "ac_enabled (al_config layer)" "run reading req layer = (r, layer')"
  shows "al_config layer' = al_config layer" "al_limits layer' = al_limits layer"
    "al_gate layer' = snd (mg_admit reading (al_gate layer))"
    "al_sem layer' = (case r of Inr _ \<Rightarrow> al_sem layer - 1 | Inl _ \<Rightarrow> al_sem layer)"
    "isl (fst (mg_admit reading (al_gate layer))) \<longleftrightarrow> (\<exists>e. r = Inl e \<and> rf_status e = 503)"
    "(\<not> isl (fst (mg_admit reading (al_gate layer))) \<and> al_sem layer = 0) \<longleftrightarrow> (\<exists>e. r = Inl e \<and> rf_status e = 429)"
    "case r of Inr a \<Rightarrow> al_sem layer \<noteq> 0 \<and> accept layer req = Inr a | Inl _ \<Rightarrow> True"
proof -
  obtain admitted gate where g: "mg_admit reading (al_gate layer) = (admitted, gate)" by fastforce
  have acc: "accept (layer\<lparr>al_gate := gate\<rparr>) req = accept layer req"
    by (simp add: accept_def Let_def cong: sum.case_cong)
  consider (pressure) e where "admitted = Inl e" "r = Inl \<lparr>rf_status = 503, rf_retry_after = Some ''1'',
      rf_error = memory_refusal_msg e\<rparr>" "layer' = layer\<lparr>al_gate := gate\<rparr>"
    | (full) u where "admitted = Inr u" "al_sem layer = 0"
      "r = refuse 429 ''max_concurrent_runs reached''" "layer' = layer\<lparr>al_gate := gate\<rparr>"
    | (refused) u e where "admitted = Inr u" "al_sem layer \<noteq> 0" "accept layer req = Inl e" "r = Inl e"
      "layer' = layer\<lparr>al_gate := gate\<rparr>"
    | (accepted) u a where "admitted = Inr u" "al_sem layer \<noteq> 0" "accept layer req = Inr a" "r = Inr a"
      "layer' = layer\<lparr>al_gate := gate, al_sem := al_sem layer - 1\<rparr>"
  proof (cases admitted)
    case (Inl e)
    with assms g show ?thesis by (intro pressure) (auto simp: run_def)
  next
    case admitted: (Inr u)
    show ?thesis
    proof (cases "al_sem layer = 0")
      case True
      with assms g admitted show ?thesis by (intro full) (auto simp: run_def)
    next
      case False
      show ?thesis
      proof (cases "accept layer req")
        case (Inl e)
        with assms g admitted False show ?thesis by (intro refused [of u e]) (auto simp: run_def acc)
      next
        case (Inr a)
        with assms g admitted False show ?thesis by (intro accepted [of u a]) (auto simp: run_def acc)
      qed
    qed
  qed
  note cases = this
  have st: "rf_status e \<noteq> 503 \<and> rf_status e \<noteq> 429" if "accept l req = Inl e" for l e
    using that by (auto simp: accept_def refuse_def Let_def split: if_splits sum.splits)
  show "al_config layer' = al_config layer" "al_limits layer' = al_limits layer"
    "al_gate layer' = snd (mg_admit reading (al_gate layer))"
    "al_sem layer' = (case r of Inr _ \<Rightarrow> al_sem layer - 1 | Inl _ \<Rightarrow> al_sem layer)"
    "case r of Inr a \<Rightarrow> al_sem layer \<noteq> 0 \<and> accept layer req = Inr a | Inl _ \<Rightarrow> True"
    by (rule cases; simp add: g refuse_def)+
  show "isl (fst (mg_admit reading (al_gate layer))) \<longleftrightarrow> (\<exists>e. r = Inl e \<and> rf_status e = 503)"
    "(\<not> isl (fst (mg_admit reading (al_gate layer))) \<and> al_sem layer = 0) \<longleftrightarrow> (\<exists>e. r = Inl e \<and> rf_status e = 429)"
    by (rule cases; simp add: g refuse_def st)+
qed

lemma al_life_inv:
  assumes "ac_enabled c" "al_life ops (al_new c g limits) = (layer, live)"
  shows "al_config layer = c \<and> al_limits layer = limits \<and> al_gate layer = mg_run (readings ops) g \<and>
         al_sem layer + live = max (ac_max_concurrent_runs c) 1"
  using assms(2)
proof (induction ops arbitrary: layer live rule: rev_induct)
  case Nil
  then show ?case by (auto simp: al_life_def al_new_def mg_run_def)
next
  case (snoc x ops)
  obtain l0 n0 where l0: "al_life ops (al_new c g limits) = (l0, n0)" by fastforce
  note IH = snoc.IH [OF l0]
  have step: "al_step x (l0, n0) = (layer, live)" using snoc.prems l0 by (simp add: al_life_def)
  show ?case
  proof (cases x)
    case (Request reading req)
    obtain r l1 where r: "run reading req l0 = (r, l1)" by fastforce
    have en: "ac_enabled (al_config l0)" using IH assms(1) by simp
    note facts = run_enabled [OF en r]
    show ?thesis using step IH facts Request r by (cases r) auto
  next
    case StreamEnd
    then show ?thesis using step IH by (auto simp: al_release_def split: if_splits)
  qed
qed

text \<open>An override can only lower what the server has.\<close>

lemma tightened_le: "tightened field req_config server_value \<le> server_value"
  by (simp add: tightened_def split: option.splits)

lemma accept_facts:
  assumes "accept layer req = Inr a"
  shows "length (arr_messages req) \<le> lc_max_messages (al_limits layer) \<and>
         ad_user_msg a = user_message (arr_messages req) \<and> ad_user_msg a \<noteq> [] \<and>
         stage_inputs (arr_input req) (lc_max_image_bytes (al_limits layer)) = Inr (ad_inputs a) \<and>
         ad_opts a = resolve_exec_options (arr_config req) (al_config layer) (al_limits layer)"
  using assms by (auto simp: accept_def refuse_def Let_def split: if_splits sum.splits)

text \<open>The bytes of an attachment that passes the check.\<close>

lemma staged_small:
  assumes "stage_inputs inp limit = Inr inputs" "inputs ''input'' = Some i"
  shows "case i of Image b64 _ \<Rightarrow> length b64 * 3 div 4 \<le> limit | Audio b64 _ \<Rightarrow> length b64 * 3 div 4 \<le> limit
         | TextInput _ \<Rightarrow> False"
  using assms by (auto simp: stage_inputs_def approx_bytes_def split: option.splits if_splits prod.splits)

lemma frames_of_run:
  assumes "receiver_to_sse json env a w = (frames, w')"
  shows "\<exists>evs. frames = map (to_sse_frame json) evs @ [''data: [DONE]'' @ lf @ lf] \<and>
    length (filter is_result evs) \<le> eo_max_steps (ad_opts a) \<and>
    (is_final (last evs) \<or> (\<exists>w. ev_closed env w))"
proof -
  obtain evs w1 where e: "run_inner env (ad_opts a) (ad_user_msg a) (ad_inputs a) w = (evs, w1)" by fastforce
  obtain run_id es p where es: "evs = RunStart run_id ''hrm-text-1b'' (eo_max_run_ms (ad_opts a)) (eo_max_steps (ad_opts a)) # es"
    "trace (eo_max_steps (ad_opts a)) Started es p"
    "p = Finished \<or> (\<exists>n. p = Ready n) \<and> (\<exists>w. ev_closed env w)"
    using run_inner_trace [OF e] by blast
  have "length (filter is_result es) \<le> eo_max_steps (ad_opts a)"
    using trace_results [OF es(2)] by (simp add: sane_def)
  moreover have "is_final (last evs) \<or> (\<exists>w. ev_closed env w)"
    using trace_final_last [OF es(2)] es by auto
  moreover have "frames = map (to_sse_frame json) evs @ [''data: [DONE]'' @ lf @ lf]"
    using assms e by (simp add: receiver_to_sse_def)
  ultimately show ?thesis using es(1) by (intro exI [of _ evs]) simp
qed

section \<open>The property\<close>

text \<open>
  C18. The endpoint of an enabled agent, in any life of its layer. The streams that live and the
  free permits add up to the permits. A request is answered 503 exactly under memory pressure, as
  the readings of all requests so far determine it, and 429 exactly if there is none and all
  permits are out; every refusal leaves the permits as they were. A run that is accepted has a
  user message, within the limit on messages, is run under options that are at most the server's
  steps and times, and its stream is events of at most that many steps, the final one last unless
  the client left, and the frame \<open>[DONE]\<close>.
\<close>

theorem agent_endpoint:
  assumes "ac_enabled c" "mg_new high low = Some g" "unat high < 2 ^ 44"
    and "al_life ops (al_new c g limits) = (layer, live)"
    and "run reading req layer = (r, layer')"
  shows "al_sem layer + live = max (ac_max_concurrent_runs c) 1 \<and>
    (let pressure = under_pressure (unat high * 2 ^ 20) (unat low * 2 ^ 20) (readings ops @ [reading])
     in ((\<exists>e. r = Inl e \<and> rf_status e = 503) = pressure) \<and>
        ((\<exists>e. r = Inl e \<and> rf_status e = 429) = (\<not> pressure \<and> live = max (ac_max_concurrent_runs c) 1))) \<and>
    (case r of
       Inl _ \<Rightarrow> al_sem layer' = al_sem layer
     | Inr a \<Rightarrow>
         Suc (al_sem layer') = al_sem layer \<and>
         length (arr_messages req) \<le> lc_max_messages limits \<and>
         ad_user_msg a = user_message (arr_messages req) \<and> ad_user_msg a \<noteq> [] \<and>
         eo_max_steps (ad_opts a) \<le> ac_max_steps c \<and> eo_max_run_ms (ad_opts a) \<le> ac_max_run_ms c \<and>
         eo_per_tool_ms (ad_opts a) \<le> ac_per_tool_ms c \<and>
         (\<exists>evs. fst (receiver_to_sse json env a w) = map (to_sse_frame json) evs @ [''data: [DONE]'' @ lf @ lf] \<and>
            length (filter is_result evs) \<le> ac_max_steps c \<and>
            (is_final (last evs) \<or> (\<exists>w. ev_closed env w))))"
proof -
  note inv = al_life_inv [OF assms(1,4)]
  have en: "ac_enabled (al_config layer)" using inv assms(1) by simp
  note facts = run_enabled [OF en assms(5)]
  have pressure: "isl (fst (mg_admit reading (al_gate layer))) \<longleftrightarrow>
      under_pressure (unat high * 2 ^ 20) (unat low * 2 ^ 20) (readings ops @ [reading])"
    using inv mg_refuses [OF assms(2,3)] by simp
  show ?thesis
  proof (cases r)
    case (Inl e)
    then show ?thesis using inv facts pressure by (auto simp: Let_def)
  next
    case (Inr a)
    obtain frames w' where fr: "receiver_to_sse json env a w = (frames, w')" by fastforce
    note stream = frames_of_run [OF fr]
    have acc: "al_sem layer \<noteq> 0" "accept layer req = Inr a" using facts(7) Inr by simp_all
    note af = accept_facts [OF acc(2)]
    have opts: "eo_max_steps (ad_opts a) \<le> ac_max_steps c" "eo_max_run_ms (ad_opts a) \<le> ac_max_run_ms c"
      "eo_per_tool_ms (ad_opts a) \<le> ac_per_tool_ms c"
      using af inv by (simp_all add: resolve_exec_options_def tightened_le)
    have "\<exists>evs. frames = map (to_sse_frame json) evs @ [''data: [DONE]'' @ lf @ lf] \<and>
        length (filter is_result evs) \<le> ac_max_steps c \<and> (is_final (last evs) \<or> (\<exists>w. ev_closed env w))"
      using stream opts(1) order_trans by blast
    moreover have "\<not> under_pressure (unat high * 2 ^ 20) (unat low * 2 ^ 20) (readings ops @ [reading])"
      "live \<noteq> max (ac_max_concurrent_runs c) 1"
      using facts(5) pressure Inr acc(1) inv by auto
    moreover have "user_message (arr_messages req) \<noteq> []" using af by metis
    ultimately show ?thesis using Inr inv af opts acc(1) facts(4) fr by (simp add: Let_def)
  qed
qed

definition open_gate :: memory_gate where
  "open_gate = \<lparr>mg_high_water_bytes = 3145728, mg_low_water_bytes = 1048576, mg_above_water = False\<rparr>"

definition greedy_request :: agent_run_request where
  "greedy_request = \<lparr>arr_messages = [\<lparr>cm_role = ''user'', cm_content = ''hi''\<rparr>], arr_input = None,
     arr_config = Some \<lparr>aco_max_steps = Some 100, aco_max_run_ms = None, aco_per_tool_ms = None,
       aco_temperature = None\<rparr>\<rparr>"

theorem agent_endpoint_witness:
  "\<exists>a layer'. run (Some 0) greedy_request (al_new agent_section open_gate lc_default) = (Inr a, layer') \<and>
     eo_max_steps (ad_opts a) \<le> 8 \<and> al_sem layer' = 3"
proof -
  let ?layer = "al_new agent_section open_gate lc_default"
  have g: "mg_new 3 1 = Some open_gate" by (simp add: mg_new_def open_gate_def)
  have en: "ac_enabled agent_section" by (simp add: agent_section_def)
  have life: "al_life [] ?layer = (?layer, 0)" by (simp add: al_life_def)
  obtain r layer' where r: "run (Some 0) greedy_request ?layer = (r, layer')" by fastforce
  have "\<exists>a. r = Inr a"
    using r by (auto simp: run_def greedy_request_def al_new_def agent_section_def open_gate_def mg_admit_def
        mg_rss_def accept_def user_message_def stage_inputs_def lc_default_def)
  then obtain a where a: "r = Inr a" by blast
  have "al_sem ?layer = 4" by (simp add: al_new_def agent_section_def)
  have steps: "ac_max_steps agent_section = 8" by (simp add: agent_section_def)
  have "eo_max_steps (ad_opts a) \<le> 8 \<and> al_sem layer' = 3"
    using agent_endpoint [OF en g _ life r, of "\<lambda>_. None" sample_env 0] unfolding a steps \<open>al_sem ?layer = 4\<close> by simp
  with a r show ?thesis by blast
qed

end
