(* ===== verification/VisionBridge.thy ===== *)
theory VisionBridge
  imports LlmConfig Value Floats
begin

text \<open>
  The vision bridge (\<open>src/services/llm/src/vision_bridge.rs\<close>): a text for an image, from the
  classifier and the detector of the main server. A POST with its status check and the parsing of
  the body as JSON is the argument \<open>post\<close>; Base64 is the argument \<open>b64\<close>.
\<close>

section \<open>Fixed-point printing\<close>

text \<open>\<open>format!("{:.k}")\<close> of a finite float: half to even on the exact value.\<close>

definition pad_left :: "nat \<Rightarrow> string \<Rightarrow> string" where
  "pad_left k s = replicate (k - length s) (CHR ''0'') @ s"

definition show_fixed :: "nat \<Rightarrow> real \<Rightarrow> string" where
  "show_fixed k x =
     (let n = nat (round_half_even (\<bar>x\<bar> * 10 ^ k));
          int_part = show_nat (n div 10 ^ k);
          frac = pad_left k (show_nat (n mod 10 ^ k))
      in (if x < 0 then ''-'' else []) @ int_part @ (if k = 0 then [] else ''.'' @ frac))"

section \<open>Replies of the main server\<close>

record classify_pred =
  cp_label :: string
  cp_confidence :: real

record detect_box =
  db_label :: string
  db_confidence :: real
  db_x1 :: real
  db_y1 :: real
  db_x2 :: real
  db_y2 :: real

text \<open>What the derived deserialisers read: a missing field is an error unless it has a default.\<close>

definition read_f32 :: "rnd \<Rightarrow> val \<Rightarrow> string + real" where
  "read_f32 fl v = (case v of
     JNumber (PosInt n) \<Rightarrow> Inr (fl (real (unat n)))
   | JNumber (NegInt i) \<Rightarrow> Inr (fl (of_int i))
   | JNumber (Float r) \<Rightarrow> Inr (fl r)
   | _ \<Rightarrow> Inl ''invalid type'')"

definition read_string :: "val \<Rightarrow> string + string" where
  "read_string v = (case v of JString s \<Rightarrow> Inr s | _ \<Rightarrow> Inl ''invalid type'')"

definition read_array :: "(val \<Rightarrow> string + 'a) \<Rightarrow> val \<Rightarrow> string + 'a list" where
  "read_array f v = (case v of JArray vs \<Rightarrow> mapR f vs | _ \<Rightarrow> Inl ''invalid type'')"

definition required :: "(val \<Rightarrow> string + 'a) \<Rightarrow> string \<Rightarrow> val \<Rightarrow> string + 'a" where
  "required f k v = (case vget k v of Some x \<Rightarrow> f x | None \<Rightarrow> Inl ''missing field'')"

definition default_f32 :: "rnd \<Rightarrow> string \<Rightarrow> val \<Rightarrow> string + real" where
  "default_f32 fl k v = (case vget k v of Some x \<Rightarrow> read_f32 fl x | None \<Rightarrow> Inr 0)"

definition read_pred :: "rnd \<Rightarrow> val \<Rightarrow> string + classify_pred" where
  "read_pred fl v =
     bindR (required read_string ''label'' v)
      (\<lambda>l. bindR (required (read_f32 fl) ''confidence'' v)
      (\<lambda>c. Inr \<lparr>cp_label = l, cp_confidence = c\<rparr>))"

definition read_box :: "rnd \<Rightarrow> val \<Rightarrow> string + detect_box" where
  "read_box fl v =
     bindR (required read_string ''label'' v)
      (\<lambda>l. bindR (default_f32 fl ''confidence'' v)
      (\<lambda>c. bindR (default_f32 fl ''x1'' v)
      (\<lambda>x1. bindR (default_f32 fl ''y1'' v)
      (\<lambda>y1. bindR (default_f32 fl ''x2'' v)
      (\<lambda>x2. bindR (default_f32 fl ''y2'' v)
      (\<lambda>y2. Inr \<lparr>db_label = l, db_confidence = c, db_x1 = x1, db_y1 = y1, db_x2 = x2, db_y2 = y2\<rparr>))))))"

definition classify_resp :: "rnd \<Rightarrow> val \<Rightarrow> string + classify_pred list list" where
  "classify_resp fl v = required (read_array (read_array (read_pred fl))) ''results'' v"

definition detect_resp :: "rnd \<Rightarrow> val \<Rightarrow> string + detect_box list" where
  "detect_resp fl v = required (read_array (read_box fl)) ''detections'' v"

section \<open>The bridge\<close>

type_synonym 'w post = "string \<Rightarrow> val \<Rightarrow> u64 \<Rightarrow> 'w \<Rightarrow> (string + val) \<times> 'w"

definition vb_classify :: "rnd \<Rightarrow> 'w post \<Rightarrow> vision_bridge_config \<Rightarrow> string \<Rightarrow> 'w \<Rightarrow> (string + string) \<times> 'w" where
  "vb_classify fl post cfg b64 w =
     (let url = vb_main_server_base cfg @ vb_classify_endpoint cfg;
          body = JObject [(''images'', JArray [JString b64]), (''top_k'', JNumber (PosInt 1))];
          (resp, w) = post url body (vb_classify_timeout_ms cfg) w
      in (bindR (bindR resp (classify_resp fl))
           (\<lambda>results.
             case results of
               (pred # _) # _ \<Rightarrow>
                 Inr ([CHR 0x27] @ cp_label pred @ [CHR 0x27] @ '' ('' @ show_fixed 2 (cp_confidence pred) @ '')'')
             | _ \<Rightarrow> Inl ''classify: empty''), w))"

definition vb_detect :: "rnd \<Rightarrow> 'w post \<Rightarrow> vision_bridge_config \<Rightarrow> string \<Rightarrow> 'w \<Rightarrow> (string + detect_box list) \<times> 'w" where
  "vb_detect fl post cfg b64 w =
     (let url = vb_main_server_base cfg @ vb_detect_endpoint cfg;
          (resp, w) = post url (JObject [(''image'', JString b64)]) (vb_detect_timeout_ms cfg) w
      in (bindR resp (detect_resp fl), w))"

definition show_box :: "detect_box \<Rightarrow> string" where
  "show_box d = db_label d @ '' at ('' @ show_fixed 0 (db_x1 d) @ '','' @ show_fixed 0 (db_y1 d) @ '','' @
     show_fixed 0 (db_x2 d) @ '','' @ show_fixed 0 (db_y2 d) @ '') score '' @ show_fixed 2 (db_confidence d)"

fun join :: "string \<Rightarrow> string list \<Rightarrow> string" where
  "join sep [] = []"
| "join sep [s] = s"
| "join sep (s # t # ss) = s @ sep @ join sep (t # ss)"

definition compose :: "string \<Rightarrow> detect_box list \<Rightarrow> string" where
  "compose class_summary dets =
     ''[Image attached. Classifier (top-1): '' @ class_summary @ ''.'' @
     (if dets = [] then '' No YOLO detections.]''
      else '' YOLO detections: '' @ join ''; '' (map show_box dets) @ ''.]'')"

text \<open>Both are asked, one after the other; the answer is always a text.\<close>

definition describe :: "rnd \<Rightarrow> (u8 list \<Rightarrow> string) \<Rightarrow> 'w post \<Rightarrow> vision_bridge_config \<Rightarrow> u8 list \<Rightarrow> 'w \<Rightarrow> string \<times> 'w" where
  "describe fl b64 post cfg image_bytes w =
     (let (classify, w) = vb_classify fl post cfg (b64 image_bytes) w;
          (detect, w) = vb_detect fl post cfg (b64 image_bytes) w
      in (case (classify, detect) of
            (Inr cls, Inr det) \<Rightarrow> compose cls det
          | (Inr cls, Inl _) \<Rightarrow> compose cls []
          | (Inl _, Inr det) \<Rightarrow> compose ''(classifier unavailable)'' det
          | (Inl _, Inl _) \<Rightarrow> ''[Image attached but vision tools unavailable.]'', w))"

lemma describe_nonempty: "fst (describe fl b64 post cfg img w) \<noteq> []"
  by (simp add: describe_def compose_def split: prod.splits sum.splits)

end
