(* ===== verification/Chat.thy ===== *)
theory Chat
  imports VisionBridge MemoryGate Permits
begin

text \<open>
  Chat completions (\<open>src/services/llm/src/handler.rs\<close>): the bounds on a request, the image, the
  caption for an engine without vision, and the reply. The engine, the vision bridge, the Base64
  decoder, the id generator and the clock are arguments; \<open>chat\<close> of the engine gives the tokens it
  sends and its result. Lengths are those of \<open>len\<close>, in bytes.
\<close>

datatype content_part = TextPart string | ImageUrl string

datatype message_content = TextContent string | Parts "content_part list"

record chat_message =
  ch_role :: string
  ch_content :: message_content

record chat_request =
  cr_model :: "string option"
  cr_messages :: "chat_message list"
  cr_stream :: bool
  cr_max_tokens :: u32
  cr_temperature :: real

record 'w chat_env =
  ce_supports_vision :: bool
  ce_model_id :: string
  ce_describe :: "(u8 list \<Rightarrow> 'w \<Rightarrow> string \<times> 'w) option"
  ce_decode :: "string \<Rightarrow> string + u8 list"
  ce_new_id :: "'w \<Rightarrow> string \<times> 'w"
  ce_now :: "'w \<Rightarrow> u64 \<times> 'w"
  ce_chat :: "(string \<times> string) list \<Rightarrow> u8 list option \<Rightarrow> u32 \<Rightarrow> real \<Rightarrow> 'w \<Rightarrow> (string list \<times> (string + unit)) \<times> 'w"

text \<open>What a request body leaves out.\<close>

definition default_max_tokens :: u32 where "default_max_tokens = 512"
definition default_temperature :: "rnd \<Rightarrow> real" where "default_temperature fl = fl (7 / 10)"

section \<open>The content\<close>

definition decode_data_uri :: "(string \<Rightarrow> string + u8 list) \<Rightarrow> string \<Rightarrow> string + u8 list" where
  "decode_data_uri decode url =
     (if CHR '','' \<in> set url
      then map_sum (\<lambda>e. ''base64 decode: '' @ e) id (decode (tl (dropWhile (\<lambda>c. c \<noteq> CHR '','') url)))
      else Inl ''invalid data URI: no comma'')"

text \<open>The parts of one message: the texts joined, the first image of the request decoded.\<close>

fun extract_parts ::
  "(string \<Rightarrow> string + u8 list) \<Rightarrow> nat \<Rightarrow> content_part list \<Rightarrow> string \<Rightarrow> u8 list option \<Rightarrow>
   string + string \<times> u8 list option" where
  "extract_parts decode limit [] text_buf img_bytes = Inr (text_buf, img_bytes)"
| "extract_parts decode limit (TextPart t # ps) text_buf img_bytes = extract_parts decode limit ps (text_buf @ t) img_bytes"
| "extract_parts decode limit (ImageUrl url # ps) text_buf img_bytes =
     (case img_bytes of
        Some _ \<Rightarrow> extract_parts decode limit ps text_buf img_bytes
      | None \<Rightarrow>
          bindR (map_sum (\<lambda>e. ''invalid image: '' @ e) id (decode_data_uri decode url))
            (\<lambda>bytes. if limit < length bytes
                     then Inl (''image exceeds '' @ show_nat limit @ '' bytes ('' @ show_nat (length bytes) @ '' actual)'')
                     else extract_parts decode limit ps text_buf (Some bytes)))"

fun extract_content ::
  "(string \<Rightarrow> string + u8 list) \<Rightarrow> nat \<Rightarrow> chat_message list \<Rightarrow> (string \<times> string) list \<Rightarrow> u8 list option \<Rightarrow>
   string + (string \<times> string) list \<times> u8 list option" where
  "extract_content decode limit [] pairs img_bytes = Inr (pairs, img_bytes)"
| "extract_content decode limit (msg # ms) pairs img_bytes =
     (case ch_content msg of
        TextContent t \<Rightarrow> extract_content decode limit ms (pairs @ [(ch_role msg, t)]) img_bytes
      | Parts ps \<Rightarrow>
          bindR (extract_parts decode limit ps [] img_bytes)
            (\<lambda>(t, img_bytes). extract_content decode limit ms (pairs @ [(ch_role msg, t)]) img_bytes))"

text \<open>The caption goes before the last message of the user, or is one.\<close>

definition add_caption :: "string \<Rightarrow> (string \<times> string) list \<Rightarrow> (string \<times> string) list" where
  "add_caption prefix pairs =
     (case List.extract (\<lambda>p. fst p = ''user'') (rev pairs) of
        Some (later, (role, content), earlier) \<Rightarrow>
          rev (later @ (role, prefix @ [CHR 0x0A] @ content) # earlier)
      | None \<Rightarrow> pairs @ [(''user'', prefix)])"

section \<open>The handler\<close>

record prepared =
  pr_id :: string
  pr_created :: u64
  pr_model :: string
  pr_pairs :: "(string \<times> string) list"
  pr_image :: "u8 list option"
  pr_max_tokens :: u32

datatype reply =
  Refused nat "string option" string
| Stream "string list"
| Completed val

definition total_chars :: "(string \<times> string) list \<Rightarrow> nat" where
  "total_chars pairs = sum_list (map (\<lambda>(r, c). length r + length c) pairs)"

text \<open>An image goes to an engine with vision; for another it becomes a caption.\<close>

definition route_image ::
  "'w chat_env \<Rightarrow> (string \<times> string) list \<Rightarrow> u8 list option \<Rightarrow> 'w \<Rightarrow>
   (string \<times> string) list \<times> u8 list option \<times> 'w" where
  "route_image env pairs img_bytes w =
     (if ce_supports_vision env then (pairs, img_bytes, w)
      else case img_bytes of
             None \<Rightarrow> (pairs, None, w)
           | Some img \<Rightarrow>
               let (prefix, w) = (case ce_describe env of
                     Some vb \<Rightarrow> vb img w
                   | None \<Rightarrow> (''[Image attached but vision bridge disabled.]'', w))
               in (add_caption prefix pairs, None, w))"

text \<open>All that happens before the engine is called.\<close>

definition prepare ::
  "'w chat_env \<Rightarrow> limits_config \<Rightarrow> u64 option \<Rightarrow> chat_request \<Rightarrow> memory_gate \<Rightarrow> 'w \<Rightarrow>
   (reply + prepared) \<times> memory_gate \<times> 'w" where
  "prepare env limits reading req gate w =
     (if lc_max_messages limits < length (cr_messages req)
      then (Inl (Refused 400 None (''messages exceeds max ('' @ show_nat (length (cr_messages req)) @ '' > '' @
              show_nat (lc_max_messages limits) @ '')'')), gate, w)
      else let (admitted, gate) = mg_admit reading gate
           in case admitted of
                Inl e \<Rightarrow> (Inl (Refused 503 (Some ''1'') (''memory pressure: RSS '' @ show_nat (unat (mr_rss_mb e)) @
                            '' MB > high_water '' @ show_nat (unat (mr_hw_mb e)) @ '' MB'')), gate, w)
              | Inr _ \<Rightarrow>
                  let model_name = (case cr_model req of Some m \<Rightarrow> m | None \<Rightarrow> ce_model_id env);
                      (uuid, w) = ce_new_id env w;
                      (created, w) = ce_now env w
                  in case extract_content (ce_decode env) (lc_max_image_bytes limits) (cr_messages req) [] None of
                       Inl e \<Rightarrow> (Inl (Refused (if starts_with e ''image exceeds'' then 413 else 400) None e), gate, w)
                     | Inr (pairs, img_bytes) \<Rightarrow>
                         let (pairs, img_bytes, w) = route_image env pairs img_bytes w
                         in if lc_max_prompt_chars limits < total_chars pairs
                            then (Inl (Refused 400 None (''prompt exceeds '' @ show_nat (lc_max_prompt_chars limits) @
                                    '' chars ('' @ show_nat (total_chars pairs) @ '' actual)'')), gate, w)
                            else (Inr \<lparr>pr_id = ''chatcmpl-'' @ uuid, pr_created = created, pr_model = model_name,
                                       pr_pairs = pairs, pr_image = img_bytes,
                                       pr_max_tokens = min (cr_max_tokens req) (lc_max_generated_tokens limits)\<rparr>,
                                  gate, w))"

definition sse_chunk :: "(val \<Rightarrow> string) \<Rightarrow> string \<Rightarrow> u64 \<Rightarrow> string \<Rightarrow> string \<Rightarrow> string" where
  "sse_chunk render i created content model =
     ''data: '' @ render (JObject
       [(''id'', JString i), (''object'', JString ''chat.completion.chunk''), (''created'', JNumber (PosInt created)),
        (''model'', JString model),
        (''choices'', JArray [JObject [(''index'', JNumber (PosInt 0)),
           (''delta'', JObject [(''content'', JString content)]), (''finish_reason'', JNull)]])])
     @ [CHR 0x0A, CHR 0x0A]"

definition sse_done :: string where
  "sse_done = ''data: [DONE]'' @ [CHR 0x0A, CHR 0x0A]"

definition completion :: "prepared \<Rightarrow> string \<Rightarrow> val" where
  "completion p content = JObject
     [(''id'', JString (pr_id p)), (''object'', JString ''chat.completion''), (''created'', JNumber (PosInt (pr_created p))),
      (''model'', JString (pr_model p)),
      (''choices'', JArray [JObject [(''index'', JNumber (PosInt 0)),
         (''message'', JObject [(''role'', JString ''assistant''), (''content'', JString content)]),
         (''finish_reason'', JString ''stop'')]]),
      (''usage'', JObject [(''prompt_tokens'', JNumber (PosInt 0)), (''completion_tokens'', JNumber (PosInt 0)),
         (''total_tokens'', JNumber (PosInt 0))])]"

text \<open>A failing engine is only logged where the reply is a stream.\<close>

definition chat_completions ::
  "(val \<Rightarrow> string) \<Rightarrow> 'w chat_env \<Rightarrow> limits_config \<Rightarrow> u64 option \<Rightarrow> chat_request \<Rightarrow> memory_gate \<Rightarrow> 'w \<Rightarrow>
   reply \<times> memory_gate \<times> 'w" where
  "chat_completions render env limits reading req gate w =
     (let (prep, gate, w) = prepare env limits reading req gate w
      in case prep of
           Inl r \<Rightarrow> (r, gate, w)
         | Inr p \<Rightarrow>
             let ((tokens, result), w) = ce_chat env (pr_pairs p) (pr_image p) (pr_max_tokens p) (cr_temperature req) w
             in if cr_stream req
                then (Stream (map (\<lambda>t. sse_chunk render (pr_id p) (pr_created p) t (pr_model p)) tokens @ [sse_done]), gate, w)
                else case result of
                       Inl e \<Rightarrow> (Refused 500 None (''inference failed: '' @ e), gate, w)
                     | Inr _ \<Rightarrow> (Completed (completion p (concat tokens)), gate, w))"

definition list_models :: "'w chat_env \<Rightarrow> val" where
  "list_models env = JObject [(''object'', JString ''list''),
     (''data'', JArray [JObject [(''id'', JString (ce_model_id env)), (''object'', JString ''model''),
        (''owned_by'', JString ''local''), (''multimodal'', JBool True)]])]"

section \<open>What the engine is given\<close>

text \<open>The text of a message and the images of a request, in order.\<close>

definition part_text :: "content_part \<Rightarrow> string" where
  "part_text p = (case p of TextPart t \<Rightarrow> t | ImageUrl _ \<Rightarrow> [])"

definition part_images :: "content_part list \<Rightarrow> string list" where
  "part_images ps = List.map_filter (\<lambda>p. case p of TextPart _ \<Rightarrow> None | ImageUrl u \<Rightarrow> Some u) ps"

definition message_text :: "message_content \<Rightarrow> string" where
  "message_text c = (case c of TextContent t \<Rightarrow> t | Parts ps \<Rightarrow> concat (map part_text ps))"

definition message_images :: "message_content \<Rightarrow> string list" where
  "message_images c = (case c of TextContent _ \<Rightarrow> [] | Parts ps \<Rightarrow> part_images ps)"

definition texts :: "chat_message list \<Rightarrow> (string \<times> string) list" where
  "texts ms = map (\<lambda>m. (ch_role m, message_text (ch_content m))) ms"

definition images :: "chat_message list \<Rightarrow> string list" where
  "images ms = concat (map (\<lambda>m. message_images (ch_content m)) ms)"

text \<open>The first image is decoded and within the limit; \<open>found\<close> says that about a list of them.\<close>

definition found :: "(string \<Rightarrow> string + u8 list) \<Rightarrow> nat \<Rightarrow> u8 list option \<Rightarrow> string list \<Rightarrow> u8 list option \<Rightarrow> bool" where
  "found decode limit before urls after =
     (case before of
        Some b \<Rightarrow> after = Some b
      | None \<Rightarrow>
          (case urls of
             [] \<Rightarrow> after = None
           | url # _ \<Rightarrow> (case after of
               Some b \<Rightarrow> decode_data_uri decode url = Inr b \<and> length b \<le> limit
             | None \<Rightarrow> False)))"

lemma found_append:
  "found decode limit before us mid \<Longrightarrow> found decode limit mid vs after \<Longrightarrow> found decode limit before (us @ vs) after"
  by (cases us; cases vs) (auto simp: found_def split: option.splits)

lemma map_sum_id_Inr [simp]: "map_sum f id r = Inr x \<longleftrightarrow> r = Inr x"
  by (cases r) auto

lemma extract_parts_spec:
  "extract_parts decode limit ps buf before = Inr (t, after) \<Longrightarrow>
     t = buf @ concat (map part_text ps) \<and> found decode limit before (part_images ps) after"
proof (induction ps arbitrary: buf before)
  case Nil
  then show ?case by (auto simp: found_def part_images_def map_filter_simps split: option.splits)
next
  case (Cons p ps)
  show ?case
  proof (cases p)
    case (TextPart u)
    with Cons.IH [of "buf @ u" before] Cons.prems show ?thesis
      by (simp add: part_text_def part_images_def map_filter_simps)
  next
    case (ImageUrl url)
    have urls: "part_images (p # ps) = url # part_images ps"
      by (simp add: ImageUrl part_images_def map_filter_simps)
    have no_text: "concat (map part_text (p # ps)) = concat (map part_text ps)"
      by (simp add: ImageUrl part_text_def)
    show ?thesis
    proof (cases before)
      case None
      then obtain b where b: "decode_data_uri decode url = Inr b" "length b \<le> limit"
          "extract_parts decode limit ps buf (Some b) = Inr (t, after)"
        using Cons.prems ImageUrl by (auto simp: bindR_Inr_iff split: if_splits)
      from Cons.IH [OF b(3)] b(1,2) show ?thesis unfolding urls no_text by (auto simp: found_def None)
    next
      case (Some b)
      then have "extract_parts decode limit ps buf (Some b) = Inr (t, after)" using Cons.prems ImageUrl by simp
      from Cons.IH [OF this] show ?thesis unfolding urls no_text by (simp add: found_def Some)
    qed
  qed
qed

lemma extract_content_spec:
  "extract_content decode limit ms pairs before = Inr (pairs', after) \<Longrightarrow>
     pairs' = pairs @ texts ms \<and> found decode limit before (images ms) after"
proof (induction ms arbitrary: pairs before)
  case Nil
  then show ?case by (auto simp: texts_def images_def found_def split: option.splits)
next
  case (Cons m ms)
  show ?case
  proof (cases "ch_content m")
    case (TextContent t)
    with Cons.IH [of "pairs @ [(ch_role m, t)]" before] Cons.prems show ?thesis
      by (simp add: texts_def images_def message_text_def message_images_def)
  next
    case (Parts ps)
    then obtain t mid where s: "extract_parts decode limit ps [] before = Inr (t, mid)"
        "extract_content decode limit ms (pairs @ [(ch_role m, t)]) mid = Inr (pairs', after)"
      using Cons.prems by (auto simp: bindR_Inr_iff)
    from extract_parts_spec [OF s(1)] Cons.IH [OF s(2)] Parts show ?thesis
      by (auto simp: texts_def images_def message_text_def message_images_def intro: found_append)
  qed
qed

text \<open>Where the caption goes.\<close>

lemma add_caption_user:
  assumes "list_all (\<lambda>p. fst p \<noteq> ''user'') later"
  shows "add_caption caption (earlier @ (''user'', content) # later) =
    earlier @ (''user'', caption @ [CHR 0x0A] @ content) # later"
proof -
  have "List.extract (\<lambda>p. fst p = ''user'') (rev later @ (''user'', content) # rev earlier) =
      Some (rev later, (''user'', content), rev earlier)"
    using assms by (simp add: extract_Some_iff list_all_iff)
  then show ?thesis by (simp add: add_caption_def)
qed

lemma add_caption_none:
  assumes "list_all (\<lambda>p. fst p \<noteq> ''user'') pairs"
  shows "add_caption caption pairs = pairs @ [(''user'', caption)]"
proof -
  have "List.extract (\<lambda>p. fst p = ''user'') (rev pairs) = None"
    using assms by (simp add: extract_None_iff list_all_iff)
  then show ?thesis by (simp add: add_caption_def)
qed

lemma route_image_spec:
  assumes "route_image env pairs img w = (pairs', img', w')"
  shows "if ce_supports_vision env then img' = img \<and> pairs' = pairs
         else img' = None \<and>
              (case img of None \<Rightarrow> pairs' = pairs | Some _ \<Rightarrow> \<exists>caption. pairs' = add_caption caption pairs)"
  using assms by (auto simp: route_image_def split: if_splits option.splits prod.splits)

text \<open>
  C19. What reaches the engine. The memory gate has admitted the request, the messages and the
  prompt are within their limits, and at most the configured number of tokens is asked for. The
  prompt is the messages' roles and texts. Only the first image counts: it has been decoded, is
  within its limit, and goes to an engine with vision; for another it becomes a caption in the
  prompt.
\<close>

theorem chat_engine_bounded:
  assumes "prepare env limits reading req gate w = (Inr p, gate', w')"
  shows "\<not> isl (fst (mg_admit reading gate)) \<and> length (cr_messages req) \<le> lc_max_messages limits \<and>
    total_chars (pr_pairs p) \<le> lc_max_prompt_chars limits \<and>
    pr_max_tokens p \<le> lc_max_generated_tokens limits \<and> pr_max_tokens p \<le> cr_max_tokens req \<and>
    (\<exists>img. found (ce_decode env) (lc_max_image_bytes limits) None (images (cr_messages req)) img \<and>
       (if ce_supports_vision env then pr_image p = img \<and> pr_pairs p = texts (cr_messages req)
        else pr_image p = None \<and>
             (case img of None \<Rightarrow> pr_pairs p = texts (cr_messages req)
              | Some _ \<Rightarrow> \<exists>caption. pr_pairs p = add_caption caption (texts (cr_messages req)))))"
proof -
  have few: "\<not> lc_max_messages limits < length (cr_messages req)"
    using assms by (auto simp: prepare_def)
  obtain admitted g where g: "mg_admit reading gate = (admitted, g)" by fastforce
  obtain u where u: "admitted = Inr u"
    using assms few g by (cases admitted) (auto simp: prepare_def)
  obtain uuid w1 where n: "ce_new_id env w = (uuid, w1)" by fastforce
  obtain created w2 where c: "ce_now env w1 = (created, w2)" by fastforce
  let ?ex = "extract_content (ce_decode env) (lc_max_image_bytes limits) (cr_messages req) [] None"
  obtain pairs img where e: "?ex = Inr (pairs, img)"
    using assms few g u n c by (cases ?ex) (auto simp: prepare_def)
  obtain pairs' img' w3 where r: "route_image env pairs img w2 = (pairs', img', w3)" by (metis prod_cases3)
  have p: "total_chars pairs' \<le> lc_max_prompt_chars limits" "pr_pairs p = pairs'" "pr_image p = img'"
    "pr_max_tokens p = min (cr_max_tokens req) (lc_max_generated_tokens limits)"
    using assms few g u n c e r unfolding prepare_def by (simp_all add: Let_def split: if_splits) auto
  show ?thesis
    using few g u p extract_content_spec [OF e] route_image_spec [OF r]
    by (intro conjI exI [of _ img]) auto
qed

definition echo_env :: "unit chat_env" where
  "echo_env = \<lparr>ce_supports_vision = False, ce_model_id = ''hrm'', ce_describe = None, ce_decode = \<lambda>_. Inr [1],
     ce_new_id = \<lambda>w. (''u'', w), ce_now = \<lambda>w. (0, w),
     ce_chat = \<lambda>pairs image_bytes n t w. ((map snd pairs, Inr ()), w)\<rparr>"

definition captioned_request :: chat_request where
  "captioned_request = \<lparr>cr_model = None,
     cr_messages = [\<lparr>ch_role = ''user'', ch_content = Parts [TextPart ''what'', ImageUrl ''data:,x'']\<rparr>],
     cr_stream = False, cr_max_tokens = 1000, cr_temperature = 0\<rparr>"

definition idle_gate :: memory_gate where
  "idle_gate = \<lparr>mg_high_water_bytes = 1, mg_low_water_bytes = 1, mg_above_water = False\<rparr>"

theorem chat_engine_bounded_witness:
  "\<exists>p. fst (prepare echo_env lc_default (Some 0) captioned_request idle_gate ()) = Inr p \<and>
     pr_max_tokens p \<le> 512 \<and> pr_image p = None"
proof -
  obtain r g w where run: "prepare echo_env lc_default (Some 0) captioned_request idle_gate () = (r, g, w)"
    by (metis prod_cases3)
  have "\<exists>p. r = Inr p"
    using run by (auto simp: prepare_def echo_env_def lc_default_def captioned_request_def idle_gate_def
        mg_admit_def mg_rss_def decode_data_uri_def route_image_def add_caption_def total_chars_def
        List.extract_def)
  then obtain p where p: "r = Inr p" by blast
  have "lc_max_generated_tokens lc_default = 512" "\<not> ce_supports_vision echo_env"
    by (simp_all add: lc_default_def echo_env_def)
  with chat_engine_bounded [OF run [unfolded p]] run p show ?thesis by auto
qed

text \<open>A stream does not tell a failing engine from one that has finished.\<close>

lemma stream_hides_failure:
  assumes "prepare env limits reading req gate w = (Inr p, gate', w')" "cr_stream req"
    and "ce_chat env (pr_pairs p) (pr_image p) (pr_max_tokens p) (cr_temperature req) w' = ((tokens, Inl e), w'')"
  shows "fst (chat_completions render env limits reading req gate w) =
    Stream (map (\<lambda>t. sse_chunk render (pr_id p) (pr_created p) t (pr_model p)) tokens @ [sse_done])"
  using assms by (simp add: chat_completions_def)

end
