(* ===== verification/Yolo.thy ===== *)
theory Yolo
  imports Text Sampling
begin

text \<open>
  Object detection: the types and the suppression of \<open>src/src/core/yolo.rs\<close> and the ONNX detector's
  post-processing (\<open>src/src/core/ort_yolo.rs\<close>). The network is outside: its output is a list of
  floats, row by row. Coordinates are finite floats.
\<close>

section \<open>Versions and sizes\<close>

datatype yolo_version = V5 | V8 | V10 | V11 | V12

definition yv_from_str :: "string \<Rightarrow> yolo_version option" where
  "yv_from_str s =
     (let t = to_ascii_lowercase s
      in if t \<in> {''v5'', ''yolov5''} then Some V5
         else if t \<in> {''v8'', ''yolov8''} then Some V8
         else if t \<in> {''v10'', ''yolov10''} then Some V10
         else if t \<in> {''v11'', ''yolov11'', ''yolo11''} then Some V11
         else if t \<in> {''v12'', ''yolov12'', ''yolo12''} then Some V12
         else None)"

fun yv_as_str :: "yolo_version \<Rightarrow> string" where
  "yv_as_str V5 = ''YOLOv5''"
| "yv_as_str V8 = ''YOLOv8''"
| "yv_as_str V10 = ''YOLOv10''"
| "yv_as_str V11 = ''YOLOv11''"
| "yv_as_str V12 = ''YOLOv12''"

datatype yolo_size = Nano | Small | Medium | Large | XLarge

fun ys_suffix :: "yolo_size \<Rightarrow> string" where
  "ys_suffix Nano = ''n''"
| "ys_suffix Small = ''s''"
| "ys_suffix Medium = ''m''"
| "ys_suffix Large = ''l''"
| "ys_suffix XLarge = ''x''"

definition ys_from_suffix :: "string \<Rightarrow> yolo_size option" where
  "ys_from_suffix s =
     (if s = ''n'' then Some Nano else if s = ''s'' then Some Small else if s = ''m'' then Some Medium
      else if s = ''l'' then Some Large else if s = ''x'' then Some XLarge else None)"

lemma yolo_version_roundtrip [simp]: "yv_from_str (yv_as_str v) = Some v"
  by (cases v; hypsubst; code_simp)

lemma yolo_size_roundtrip [simp]: "ys_from_suffix (ys_suffix z) = Some z"
  by (cases z) (simp_all add: ys_from_suffix_def)

section \<open>Boxes\<close>

record bounding_box =
  bb_x1 :: real
  bb_y1 :: real
  bb_x2 :: real
  bb_y2 :: real

definition bb_width :: "rnd \<Rightarrow> bounding_box \<Rightarrow> real" where
  "bb_width fl b = fl (bb_x2 b - bb_x1 b)"

definition bb_height :: "rnd \<Rightarrow> bounding_box \<Rightarrow> real" where
  "bb_height fl b = fl (bb_y2 b - bb_y1 b)"

definition bb_center_x :: "rnd \<Rightarrow> bounding_box \<Rightarrow> real" where
  "bb_center_x fl b = fl (fl (bb_x1 b + bb_x2 b) / 2)"

definition bb_center_y :: "rnd \<Rightarrow> bounding_box \<Rightarrow> real" where
  "bb_center_y fl b = fl (fl (bb_y1 b + bb_y2 b) / 2)"

definition bb_area :: "rnd \<Rightarrow> bounding_box \<Rightarrow> real" where
  "bb_area fl b = fl (bb_width fl b * bb_height fl b)"

text \<open>\<open>None\<close> is the division by zero of two empty boxes that touch: NaN, below no threshold.\<close>

definition bb_iou :: "rnd \<Rightarrow> bounding_box \<Rightarrow> bounding_box \<Rightarrow> real option" where
  "bb_iou fl a b =
     (let x1 = max (bb_x1 a) (bb_x1 b); y1 = max (bb_y1 a) (bb_y1 b);
          x2 = min (bb_x2 a) (bb_x2 b); y2 = min (bb_y2 a) (bb_y2 b)
      in if x2 < x1 \<or> y2 < y1 then Some 0
         else let inter = fl (fl (x2 - x1) * fl (y2 - y1));
                  total = fl (fl (bb_area fl a + bb_area fl b) - inter)
              in if total = 0 then None else Some (fl (inter / total)))"

record detection =
  dt_class_id :: nat
  dt_class_name :: string
  dt_confidence :: real
  dt_bbox :: bounding_box

record yolo_results =
  yr_detections :: "detection list"
  yr_inference_time_ms :: real
  yr_preprocessing_time_ms :: real
  yr_postprocessing_time_ms :: real
  yr_total_time_ms :: real

section \<open>Suppression in the torch detector\<close>

fun suppress_loop :: "('a \<Rightarrow> 'a \<Rightarrow> bool) \<Rightarrow> 'a list \<Rightarrow> 'a list" where
  "suppress_loop supp [] = []"
| "suppress_loop supp (current # rest) = current # suppress_loop supp (filter (\<lambda>d. \<not> supp current d) rest)"

definition torch_supp :: "rnd \<Rightarrow> real \<Rightarrow> detection \<Rightarrow> detection \<Rightarrow> bool" where
  "torch_supp fl iou_threshold current d \<longleftrightarrow>
     dt_class_id d = dt_class_id current \<and>
     \<not> (case bb_iou fl (dt_bbox d) (dt_bbox current) of Some r \<Rightarrow> r < iou_threshold | None \<Rightarrow> False)"

definition non_maximum_suppression :: "rnd \<Rightarrow> real \<Rightarrow> detection list \<Rightarrow> detection list" where
  "non_maximum_suppression fl iou_threshold detections =
     suppress_loop (torch_supp fl iou_threshold) (sort_key (\<lambda>d. - dt_confidence d) detections)"

section \<open>The ONNX detector\<close>

definition MODEL_INPUT_SIZE :: nat where "MODEL_INPUT_SIZE = 640"
definition NUM_CLASSES :: nat where "NUM_CLASSES = 80"
definition NUM_ANCHORS :: nat where "NUM_ANCHORS = 8400"

record box_candidate =
  bc_x1 :: real
  bc_y1 :: real
  bc_x2 :: real
  bc_y2 :: real
  bc_score :: real
  bc_class_id :: nat

definition clamp :: "real \<Rightarrow> real \<Rightarrow> real \<Rightarrow> real" where
  "clamp lo hi x = max lo (min hi x)"

text \<open>The best class of an anchor: the first of greatest score.\<close>

definition anchor_best :: "real list \<Rightarrow> nat \<Rightarrow> nat \<times> real" where
  "anchor_best raw a =
     (let scores = map (\<lambda>c. raw ! ((4 + c) * NUM_ANCHORS + a)) [0..<NUM_CLASSES];
          (best_class, best_score) = foldl greedy_step (0, None) (enumerate 0 scores)
      in (best_class, the best_score))"

text \<open>The box of an anchor, from its centre and sides to its corners in the image.\<close>

definition anchor_box :: "rnd \<Rightarrow> real \<Rightarrow> real \<Rightarrow> real list \<Rightarrow> nat \<Rightarrow> real \<Rightarrow> nat \<Rightarrow> box_candidate" where
  "anchor_box fl scale_x scale_y raw a score class_id =
     (let cx = raw ! a; cy = raw ! (NUM_ANCHORS + a);
          half_w = fl (raw ! (2 * NUM_ANCHORS + a) / 2); half_h = fl (raw ! (3 * NUM_ANCHORS + a) / 2)
      in \<lparr>bc_x1 = fl (fl (cx - half_w) * scale_x), bc_y1 = fl (fl (cy - half_h) * scale_y),
          bc_x2 = fl (fl (cx + half_w) * scale_x), bc_y2 = fl (fl (cy + half_h) * scale_y),
          bc_score = score, bc_class_id = class_id\<rparr>)"

definition candidates :: "rnd \<Rightarrow> real \<Rightarrow> real \<Rightarrow> real \<Rightarrow> real list \<Rightarrow> box_candidate list" where
  "candidates fl scale_x scale_y conf_threshold raw =
     List.map_filter (\<lambda>a.
       let (best_class, best_score) = anchor_best raw a; confidence = clamp 0 1 best_score
       in if confidence < conf_threshold then None
          else Some (anchor_box fl scale_x scale_y raw a confidence best_class)) [0..<NUM_ANCHORS]"

definition bc_iou :: "rnd \<Rightarrow> box_candidate \<Rightarrow> box_candidate \<Rightarrow> real" where
  "bc_iou fl a b =
     (let inter_w = max (fl (min (bc_x2 a) (bc_x2 b) - max (bc_x1 a) (bc_x1 b))) 0;
          inter_h = max (fl (min (bc_y2 a) (bc_y2 b) - max (bc_y1 a) (bc_y1 b))) 0;
          inter = fl (inter_w * inter_h)
      in if inter = 0 then 0
         else let area_a = fl (fl (bc_x2 a - bc_x1 a) * fl (bc_y2 a - bc_y1 a));
                  area_b = fl (fl (bc_x2 b - bc_x1 b) * fl (bc_y2 b - bc_y1 b))
              in fl (inter / fl (fl (area_a + area_b) - inter)))"

definition ort_supp :: "rnd \<Rightarrow> real \<Rightarrow> box_candidate \<Rightarrow> box_candidate \<Rightarrow> bool" where
  "ort_supp fl iou_threshold a b \<longleftrightarrow> bc_class_id a = bc_class_id b \<and> iou_threshold < bc_iou fl a b"

text \<open>The double loop over the mask of boxes still kept.\<close>

definition mask_inner :: "('a \<Rightarrow> 'a \<Rightarrow> bool) \<Rightarrow> 'a list \<Rightarrow> nat \<Rightarrow> bool list \<Rightarrow> bool list" where
  "mask_inner supp boxes i kept =
     fold (\<lambda>j kept. if \<not> kept ! j then kept
                    else if supp (boxes ! i) (boxes ! j) then kept[j := False] else kept)
       [i + 1..<length boxes] kept"

definition mask_outer :: "('a \<Rightarrow> 'a \<Rightarrow> bool) \<Rightarrow> 'a list \<Rightarrow> bool list \<Rightarrow> nat list \<Rightarrow> bool list" where
  "mask_outer supp boxes kept is =
     fold (\<lambda>i kept. if \<not> kept ! i then kept else mask_inner supp boxes i kept) is kept"

definition mask_nms :: "('a \<Rightarrow> 'a \<Rightarrow> bool) \<Rightarrow> 'a list \<Rightarrow> 'a list" where
  "mask_nms supp boxes =
     (let kept = mask_outer supp boxes (replicate (length boxes) True) [0..<length boxes]
      in map snd (filter (\<lambda>(idx, _). kept ! idx) (enumerate 0 boxes)))"

definition to_detection :: "string list \<Rightarrow> real \<Rightarrow> real \<Rightarrow> box_candidate \<Rightarrow> detection" where
  "to_detection class_names orig_w orig_h b =
     \<lparr>dt_class_id = bc_class_id b,
      dt_class_name = (if bc_class_id b < length class_names then class_names ! bc_class_id b
                       else ''class_'' @ show_nat (bc_class_id b)),
      dt_confidence = bc_score b,
      dt_bbox = \<lparr>bb_x1 = max (bc_x1 b) 0, bb_y1 = max (bc_y1 b) 0,
                 bb_x2 = min (bc_x2 b) orig_w, bb_y2 = min (bc_y2 b) orig_h\<rparr>\<rparr>"

text \<open>
  The unstable sort is the stable one after any reordering \<open>cs\<close>. \<open>None\<close> is the panic on an
  output that is too short; the thresholds arrive clamped.
\<close>

definition ort_detections ::
  "rnd \<Rightarrow> nat list \<Rightarrow> string list \<Rightarrow> nat \<Rightarrow> nat \<Rightarrow> real \<Rightarrow> real \<Rightarrow> real list \<Rightarrow> detection list option" where
  "ort_detections fl cs class_names width height conf_threshold iou_threshold raw =
     (if length raw < (4 + NUM_CLASSES) * NUM_ANCHORS then None
      else let orig_w = fl (real width); orig_h = fl (real height); size = real MODEL_INPUT_SIZE;
               boxes = candidates fl (fl (orig_w / size)) (fl (orig_h / size)) (clamp 0 1 conf_threshold) raw;
               boxes = sort_key (\<lambda>b. - bc_score b) (reorder cs boxes)
           in Some (map (to_detection class_names orig_w orig_h)
                     (mask_nms (ort_supp fl (clamp 0 1 iou_threshold)) boxes)))"

section \<open>Greedy suppression\<close>

text \<open>
  The reference: each box in turn is kept unless a box kept before suppresses it.
\<close>

definition nms_step :: "('a \<Rightarrow> 'a \<Rightarrow> bool) \<Rightarrow> 'a list \<Rightarrow> 'a \<Rightarrow> 'a list" where
  "nms_step supp kept b = (if list_ex (\<lambda>k. supp k b) kept then kept else kept @ [b])"

definition nms :: "('a \<Rightarrow> 'a \<Rightarrow> bool) \<Rightarrow> 'a list \<Rightarrow> 'a list" where
  "nms supp boxes = foldl (nms_step supp) [] boxes"

lemma nms_snoc: "nms supp (bs @ [b]) = nms_step supp (nms supp bs) b"
  by (simp add: nms_def)

text \<open>The loop of the torch detector is the reference.\<close>

lemma suppress_loop_from:
  "foldl (nms_step supp) kept bs =
     kept @ suppress_loop supp (filter (\<lambda>b. \<not> list_ex (\<lambda>k. supp k b) kept) bs)"
proof (induction bs arbitrary: kept)
  case (Cons b bs)
  show ?case
  proof (cases "list_ex (\<lambda>k. supp k b) kept")
    case True
    then show ?thesis using Cons by (simp add: nms_step_def)
  next
    case False
    have "filter (\<lambda>x. \<not> list_ex (\<lambda>k. supp k x) (kept @ [b])) bs =
        filter (\<lambda>x. \<not> supp b x) (filter (\<lambda>x. \<not> list_ex (\<lambda>k. supp k x) kept) bs)"
      by (simp add: conj_commute)
    with False Cons [of "kept @ [b]"] show ?thesis by (simp add: nms_step_def)
  qed
qed simp

lemma suppress_loop_nms: "suppress_loop supp bs = nms supp bs"
  by (simp add: nms_def suppress_loop_from)

text \<open>The mask after some rounds: a box is still kept if no box kept so far suppresses it.\<close>

definition masked :: "('a \<Rightarrow> 'a \<Rightarrow> bool) \<Rightarrow> 'a list \<Rightarrow> nat \<Rightarrow> bool list \<Rightarrow> bool" where
  "masked supp bs i kept \<longleftrightarrow> length kept = length bs \<and>
     (\<forall>j < length bs. kept ! j = (\<not> list_ex (\<lambda>k. supp k (bs ! j)) (nms supp (take (min i j) bs))))"

lemma mask_inner_spec:
  assumes "length kept = length bs"
  shows "length (mask_inner supp bs i kept) = length bs \<and>
    (\<forall>j < length bs. mask_inner supp bs i kept ! j = (kept ! j \<and> \<not> (i < j \<and> supp (bs ! i) (bs ! j))))"
proof -
  let ?f = "\<lambda>j kept. if \<not> kept ! j then kept else if supp (bs ! i) (bs ! j) then kept[j := False] else kept"
  have "length (fold ?f [i + 1..<m] kept) = length bs \<and>
    (\<forall>j < length bs. fold ?f [i + 1..<m] kept ! j = (kept ! j \<and> \<not> (i < j \<and> j < m \<and> supp (bs ! i) (bs ! j))))"
    if "m \<le> length bs" for m
    using that
  proof (induction m)
    case (Suc m)
    show ?case
    proof (cases "i + 1 \<le> m")
      case True
      then have "[i + 1..<Suc m] = [i + 1..<m] @ [m]" "i < m" by simp_all
      with Suc show ?thesis by (auto simp: nth_list_update less_Suc_eq)
    qed (use assms in auto)
  qed (use assms in simp)
  from this [of "length bs"] show ?thesis by (auto simp: mask_inner_def)
qed

lemma mask_outer_spec:
  assumes "m \<le> length bs"
  shows "masked supp bs m (mask_outer supp bs (replicate (length bs) True) [0..<m])"
  using assms
proof (induction m)
  case 0
  then show ?case by (simp add: masked_def mask_outer_def nms_def)
next
  case (Suc m)
  let ?k = "mask_outer supp bs (replicate (length bs) True) [0..<m]"
  have IH: "masked supp bs m ?k" and m: "m < length bs" using Suc by simp_all
  have step: "mask_outer supp bs (replicate (length bs) True) [0..<Suc m] =
      (if \<not> ?k ! m then ?k else mask_inner supp bs m ?k)"
    by (simp add: mask_outer_def)
  have km: "?k ! m = (\<not> list_ex (\<lambda>k. supp k (bs ! m)) (nms supp (take m bs)))"
    using IH m by (simp add: masked_def)
  have next_nms: "nms supp (take (Suc m) bs) = (if ?k ! m then nms supp (take m bs) @ [bs ! m] else nms supp (take m bs))"
    using m by (simp add: take_Suc_conv_app_nth nms_snoc nms_step_def km)
  show ?case
  proof (cases "?k ! m")
    case False
    have "nms supp (take (min (Suc m) j) bs) = nms supp (take (min m j) bs)" for j
      using next_nms False by (cases "m < j") (simp_all add: min_def)
    then show ?thesis using IH False unfolding step masked_def by simp
  next
    case True
    note inner = mask_inner_spec [of ?k bs supp m]
    have len: "length ?k = length bs" using IH by (simp add: masked_def)
    show ?thesis unfolding step masked_def
    proof (intro conjI allI impI)
      show "length (if \<not> ?k ! m then ?k else mask_inner supp bs m ?k) = length bs"
        using True inner len by simp
    next
      fix j assume j: "j < length bs"
      have "mask_inner supp bs m ?k ! j = (?k ! j \<and> \<not> (m < j \<and> supp (bs ! m) (bs ! j)))"
        using inner len j by simp
      also have "?k ! j = (\<not> list_ex (\<lambda>k. supp k (bs ! j)) (nms supp (take (min m j) bs)))"
        using IH j by (simp add: masked_def)
      finally show "(if \<not> ?k ! m then ?k else mask_inner supp bs m ?k) ! j =
          (\<not> list_ex (\<lambda>k. supp k (bs ! j)) (nms supp (take (min (Suc m) j) bs)))"
        using True next_nms by (cases "m < j") (auto simp: min_def)
    qed
  qed
qed

lemma nms_as_indices:
  "m \<le> length bs \<Longrightarrow> nms supp (take m bs) =
     map (\<lambda>j. bs ! j) (filter (\<lambda>j. \<not> list_ex (\<lambda>k. supp k (bs ! j)) (nms supp (take j bs))) [0..<m])"
proof (induction m)
  case (Suc m)
  then show ?case by (simp add: take_Suc_conv_app_nth nms_snoc nms_step_def)
qed (simp add: nms_def)

text \<open>The mask of the ONNX detector gives the reference.\<close>

lemma mask_nms_nms: "mask_nms supp bs = nms supp bs"
proof -
  let ?kept = "mask_outer supp bs (replicate (length bs) True) [0..<length bs]"
  have kept: "?kept ! j = (\<not> list_ex (\<lambda>k. supp k (bs ! j)) (nms supp (take j bs)))" if "j < length bs" for j
    using mask_outer_spec [of "length bs" bs supp] that by (simp add: masked_def)
  have "enumerate 0 bs = map (\<lambda>j. (j, bs ! j)) [0..<length bs]"
    by (rule nth_equalityI) (simp_all add: nth_enumerate_eq)
  then have "mask_nms supp bs = map (\<lambda>j. bs ! j) (filter (\<lambda>j. ?kept ! j) [0..<length bs])"
    by (simp add: mask_nms_def filter_map comp_def)
  also have "\<dots> = map (\<lambda>j. bs ! j) (filter (\<lambda>j. \<not> list_ex (\<lambda>k. supp k (bs ! j)) (nms supp (take j bs))) [0..<length bs])"
    using kept by (intro arg_cong [where f = "map _"] filter_cong) auto
  also have "\<dots> = nms supp bs" using nms_as_indices [of "length bs" bs supp] by simp
  finally show ?thesis .
qed

text \<open>What the reference promises.\<close>

lemma nms_props:
  assumes "sorted (map f bs)"
  shows "set (nms supp bs) \<subseteq> set bs \<and> sorted (map f (nms supp bs)) \<and>
    sorted_wrt (\<lambda>a b. \<not> supp a b) (nms supp bs) \<and>
    (\<forall>b \<in> set bs. b \<in> set (nms supp bs) \<or> (\<exists>k \<in> set (nms supp bs). supp k b \<and> f k \<le> f b))"
  using assms
proof (induction bs rule: rev_induct)
  case (snoc b bs)
  have le: "\<forall>k \<in> set bs. f k \<le> f b" and s: "sorted (map f bs)"
    using snoc.prems by (simp_all add: sorted_append)
  note IH = snoc.IH [OF s]
  show ?case
  proof (cases "list_ex (\<lambda>k. supp k b) (nms supp bs)")
    case True
    then obtain k where k: "k \<in> set (nms supp bs)" "supp k b" by (auto simp: list_ex_iff)
    then have "f k \<le> f b" using IH le by blast
    with True k IH show ?thesis by (auto simp: nms_snoc nms_step_def)
  next
    case False
    with IH le show ?thesis
      by (auto simp: nms_snoc nms_step_def sorted_append sorted_wrt_append list_ex_iff)
  qed
qed (simp add: nms_def)

section \<open>Properties\<close>

text \<open>
  Whatever \<open>supp\<close> says of two boxes, the mask of the ONNX detector and the shrinking list of the
  torch detector both compute the reference: each box in turn is kept unless a kept one suppresses it.
\<close>

theorem suppression_loops_agree:
  "mask_nms supp boxes = nms supp boxes \<and> suppress_loop supp boxes = nms supp boxes"
  by (simp add: mask_nms_nms suppress_loop_nms)

lemma candidates_score:
  assumes "b \<in> set (candidates fl sx sy conf raw)"
  shows "conf \<le> bc_score b \<and> bc_score b \<le> 1"
proof -
  obtain a where a: "(let (best_class, best_score) = anchor_best raw a; confidence = clamp 0 1 best_score
       in if confidence < conf then None
          else Some (anchor_box fl sx sy raw a confidence best_class)) = Some b"
    using assms unfolding candidates_def map_filter_def by fastforce
  obtain c s where cs: "anchor_best raw a = (c, s)" by fastforce
  have "conf \<le> clamp 0 1 s" "bc_score b = clamp 0 1 s"
    using a cs by (auto simp: Let_def anchor_box_def split: if_splits)
  moreover have "clamp 0 1 s \<le> 1" by (simp add: clamp_def)
  ultimately show ?thesis by simp
qed

text \<open>
  C35. The detections of the ONNX detector are the images of some of the candidates, in falling order
  of confidence, however ties are sorted. Their confidence reaches the threshold, no two of one class
  overlap by more than the threshold, and every other candidate overlaps by more than it a kept
  one of its class that is at least as confident.
\<close>

theorem onnx_detections:
  assumes "ort_detections fl cs names width height conf iou raw = Some ds"
    and "boxes = candidates fl (fl (fl (real width) / 640)) (fl (fl (real height) / 640)) (clamp 0 1 conf) raw"
  shows "\<exists>kept. ds = map (to_detection names (fl (real width)) (fl (real height))) kept \<and>
    set kept \<subseteq> set boxes \<and> sorted_wrt (\<lambda>a b. bc_score b \<le> bc_score a) kept \<and>
    list_all (\<lambda>b. clamp 0 1 conf \<le> bc_score b \<and> bc_score b \<le> 1) kept \<and>
    sorted_wrt (\<lambda>a b. bc_class_id a \<noteq> bc_class_id b \<or> bc_iou fl a b \<le> clamp 0 1 iou) kept \<and>
    (\<forall>b \<in> set boxes. b \<in> set kept \<or>
       (\<exists>k \<in> set kept. bc_class_id k = bc_class_id b \<and> clamp 0 1 iou < bc_iou fl k b \<and> bc_score b \<le> bc_score k))"
proof -
  let ?f = "\<lambda>b. - bc_score b"
  let ?sorted = "sort_key ?f (reorder cs boxes)"
  let ?kept = "nms (ort_supp fl (clamp 0 1 iou)) ?sorted"
  have ds: "ds = map (to_detection names (fl (real width)) (fl (real height))) ?kept"
    using assms by (simp add: ort_detections_def mask_nms_nms MODEL_INPUT_SIZE_def Let_def split: if_splits)
  have "sorted (map ?f ?sorted)" by simp
  note props = nms_props [OF this, of "ort_supp fl (clamp 0 1 iou)"]
  have sub: "set ?kept \<subseteq> set boxes" using props by simp
  then have "list_all (\<lambda>b. clamp 0 1 conf \<le> bc_score b \<and> bc_score b \<le> 1) ?kept"
    using candidates_score unfolding assms(2) list_all_iff by blast
  moreover have "sorted_wrt (\<lambda>a b. bc_score b \<le> bc_score a) ?kept"
    using props by (simp add: sorted_map)
  moreover have "sorted_wrt (\<lambda>a b. bc_class_id a \<noteq> bc_class_id b \<or> bc_iou fl a b \<le> clamp 0 1 iou) ?kept"
  proof (rule sorted_wrt_mono_rel)
    show "sorted_wrt (\<lambda>a b. \<not> ort_supp fl (clamp 0 1 iou) a b) ?kept" using props by blast
    show "bc_class_id a \<noteq> bc_class_id b \<or> bc_iou fl a b \<le> clamp 0 1 iou"
      if "\<not> ort_supp fl (clamp 0 1 iou) a b" for a b
      using that unfolding ort_supp_def by linarith
  qed
  moreover have "b \<in> set ?kept \<or> (\<exists>k \<in> set ?kept. bc_class_id k = bc_class_id b \<and>
      clamp 0 1 iou < bc_iou fl k b \<and> bc_score b \<le> bc_score k)" if "b \<in> set boxes" for b
  proof -
    have "b \<in> set ?sorted" using that by simp
    then have "b \<in> set ?kept \<or> (\<exists>k \<in> set ?kept. ort_supp fl (clamp 0 1 iou) k b \<and> - bc_score k \<le> - bc_score b)"
      using props by blast
    then show ?thesis unfolding ort_supp_def neg_le_iff_le by blast
  qed
  ultimately show ?thesis using ds sub by (intro exI [of _ ?kept]) simp
qed

text \<open>The overlap of two boxes, in exact arithmetic.\<close>

definition proper :: "box_candidate \<Rightarrow> bool" where
  "proper b \<longleftrightarrow> bc_x1 b < bc_x2 b \<and> bc_y1 b < bc_y2 b"

lemma bc_iou_sym: "bc_iou fl a b = bc_iou fl b a"
  unfolding bc_iou_def Let_def
  by (simp only: min.commute [of "bc_x2 a"] min.commute [of "bc_y2 a"] max.commute [of "bc_x1 a"]
      max.commute [of "bc_y1 a"] add.commute [of "fl (fl (bc_x2 a - bc_x1 a) * fl (bc_y2 a - bc_y1 a))"])

lemma bc_iou_bounds:
  assumes "proper a" "proper b"
  shows "0 \<le> bc_iou exact a b \<and> bc_iou exact a b \<le> 1"
proof -
  define wi where "wi = max (min (bc_x2 a) (bc_x2 b) - max (bc_x1 a) (bc_x1 b)) 0"
  define hi where "hi = max (min (bc_y2 a) (bc_y2 b) - max (bc_y1 a) (bc_y1 b)) 0"
  define A where "A = (bc_x2 a - bc_x1 a) * (bc_y2 a - bc_y1 a)"
  define B where "B = (bc_x2 b - bc_x1 b) * (bc_y2 b - bc_y1 b)"
  have bounds: "0 \<le> wi" "0 \<le> hi" "wi \<le> bc_x2 a - bc_x1 a" "wi \<le> bc_x2 b - bc_x1 b"
    "hi \<le> bc_y2 a - bc_y1 a" "hi \<le> bc_y2 b - bc_y1 b"
    using assms unfolding proper_def wi_def hi_def by linarith+
  have "wi * hi \<le> A" "wi * hi \<le> B" "0 \<le> wi * hi" "0 < A"
    using assms bounds unfolding A_def B_def proper_def by (simp_all add: mult_mono)
  moreover from this have "2 * (hi * wi) \<le> A + B" by (simp add: mult.commute)
  moreover have "bc_iou exact a b = (if wi * hi = 0 then 0 else wi * hi / (A + B - wi * hi))"
    by (simp add: bc_iou_def Let_def wi_def hi_def A_def B_def)
  ultimately show ?thesis by (auto simp: divide_le_eq_1 zero_le_divide_iff)
qed

definition ones :: "real list" where
  "ones = replicate 705600 1"

theorem onnx_detections_witness:
  "\<exists>ds. ort_detections exact [] [''cat''] 640 640 (1 / 2) (1 / 2) ones = Some ds \<and> ds \<noteq> []"
proof -
  define boxes where "boxes = candidates exact (exact (exact (real 640) / 640)) (exact (exact (real 640) / 640)) (clamp 0 1 (1 / 2)) ones"
  obtain ds where ds: "ort_detections exact [] [''cat''] 640 640 (1 / 2) (1 / 2) ones = Some ds"
    by (simp add: ort_detections_def ones_def NUM_CLASSES_def NUM_ANCHORS_def Let_def)
  let ?scores = "map (\<lambda>c. ones ! ((4 + c) * NUM_ANCHORS + 0)) [0..<NUM_CLASSES]"
  have "?scores \<noteq> []" by (simp add: NUM_CLASSES_def)
  then obtain i where i: "foldl greedy_step (0, None) (enumerate 0 ?scores) = (i, Some (?scores ! i))" "first_max ?scores i"
    using greedy_scan [of ?scores] by blast
  have "i < NUM_CLASSES" using i(2) by (simp add: first_max_def)
  then have "?scores ! i = 1" by (simp add: ones_def NUM_ANCHORS_def NUM_CLASSES_def)
  then have best: "anchor_best ones 0 = (i, 1)" using i(1) by (simp add: anchor_best_def)
  have "0 \<in> set [0..<NUM_ANCHORS]" by (simp add: NUM_ANCHORS_def)
  then have "anchor_box exact 1 1 ones 0 1 i \<in> set boxes"
    using best by (force simp: boxes_def candidates_def map_filter_def clamp_def Let_def image_iff)
  with onnx_detections [OF ds boxes_def] have "ds \<noteq> []" by auto
  with ds show ?thesis by blast
qed

end
