(* ===== verification/Postprocess.thy ===== *)
theory Postprocess
  imports VisionBridge Security Yolo
begin

text \<open>
  What the main server does to results before it answers (\<open>src/src/postprocess\<close>): the envelope of a
  response, and the steps for classifications, detections and audio. The text of a float is the
  argument \<open>show_f32\<close>; \<open>exp\<close> and \<open>ln\<close> are the rounded functions. Confidences are not negative.
\<close>

section \<open>The envelope\<close>

record response_meta =
  rm_latency_ms :: real
  rm_model_id :: string
  rm_postprocessing_applied :: bool
  rm_postprocess_steps :: "string list"
  rm_warnings :: "string list"
  rm_version :: string
  rm_request_id :: string

record 'd envelope =
  en_data :: 'd
  en_meta :: response_meta

definition en_new :: "'d \<Rightarrow> response_meta \<Rightarrow> 'd envelope" where
  "en_new data meta = \<lparr>en_data = data, en_meta = meta\<rparr>"

definition en_from_inference ::
  "rnd \<Rightarrow> 'd \<Rightarrow> nat \<Rightarrow> string \<Rightarrow> bool \<Rightarrow> string list \<Rightarrow> string list \<Rightarrow> string \<Rightarrow> 'd envelope" where
  "en_from_inference fl data latency model_id skip_postprocess postprocess_steps warnings request_id =
     (let applied = (\<not> skip_postprocess \<and> postprocess_steps \<noteq> [])
      in \<lparr>en_data = data,
          en_meta = \<lparr>rm_latency_ms = fl (as_secs_f64 fl latency * 1000), rm_model_id = model_id,
            rm_postprocessing_applied = applied, rm_postprocess_steps = postprocess_steps,
            rm_warnings = warnings, rm_version = ''1.0.0'', rm_request_id = request_id\<rparr>\<rparr>)"

text \<open>As JSON, the derived serialisation; \<open>f\<close> is that of the data.\<close>

definition meta_json :: "response_meta \<Rightarrow> val" where
  "meta_json m = JObject
     [(''latency_ms'', JNumber (Float (rm_latency_ms m))), (''model_id'', JString (rm_model_id m)),
      (''postprocessing_applied'', JBool (rm_postprocessing_applied m)),
      (''postprocess_steps'', JArray (map JString (rm_postprocess_steps m))),
      (''warnings'', JArray (map JString (rm_warnings m))), (''version'', JString (rm_version m)),
      (''request_id'', JString (rm_request_id m))]"

definition envelope_json :: "('d \<Rightarrow> val) \<Rightarrow> 'd envelope \<Rightarrow> val" where
  "envelope_json f e = JObject [(''data'', f (en_data e)), (''meta'', meta_json (en_meta e))]"

section \<open>Classification\<close>

record prediction =
  pd_label :: string
  pd_confidence :: real
  pd_class_id :: nat

record classify_config =
  cc_enabled :: bool
  cc_temperature :: real
  cc_min_confidence :: real

definition cc_default :: "rnd \<Rightarrow> classify_config" where
  "cc_default fl = \<lparr>cc_enabled = True, cc_temperature = 1, cc_min_confidence = fl (1 / 100)\<rparr>"

text \<open>
  A temperature of 0 makes every logit infinite or NaN and the sum NaN, which is not above 0.
\<close>

definition apply_temperature :: "rnd \<Rightarrow> prediction list \<Rightarrow> real \<Rightarrow> prediction list" where
  "apply_temperature fl predictions temperature =
     (if temperature = 0 \<or> predictions = [] then map (\<lambda>p. p\<lparr>pd_confidence := 0\<rparr>) predictions
      else let logits = map (\<lambda>p. fl (fl (ln (fl (pd_confidence p + fl (1 / 10 ^ 10)))) / temperature)) predictions;
               max_logit = Max (set logits);
               exps = map (\<lambda>l. fl (exp (fl (l - max_logit)))) logits;
               total = fsum fl exps
           in map2 (\<lambda>p e. p\<lparr>pd_confidence := (if 0 < total then fl (e / total) else 0)\<rparr>) predictions exps)"

text \<open>\<open>(x * 10_000.0).round() / 10_000.0\<close>\<close>

definition round4 :: "rnd \<Rightarrow> real \<Rightarrow> real" where
  "round4 fl x = fl (round_away (fl (x * 10000)) / 10000)"

definition not_one :: "rnd \<Rightarrow> real \<Rightarrow> bool" where
  "not_one fl t \<longleftrightarrow> 1 / 2 ^ 23 < \<bar>fl (t - 1)\<bar>"

definition classify_process ::
  "rnd \<Rightarrow> (real \<Rightarrow> string) \<Rightarrow> prediction list list \<Rightarrow> classify_config \<Rightarrow>
   prediction list list \<times> string list \<times> string list" where
  "classify_process fl show_f32 predictions cfg =
     (if \<not> cc_enabled cfg then (predictions, [], [])
      else let rounded = map (\<lambda>batch.
                 map (\<lambda>p. p\<lparr>pd_confidence := round4 fl (pd_confidence p)\<rparr>)
                   (if not_one fl (cc_temperature cfg) then apply_temperature fl batch (cc_temperature cfg) else batch))
                 predictions;
               kept = map (filter (\<lambda>p. cc_min_confidence cfg \<le> pd_confidence p)) rounded;
               dropped = sum_list (map2 (\<lambda>before after. length before - length after) rounded kept)
           in (kept,
               (if not_one fl (cc_temperature cfg) then [''temperature_scaled:'' @ show_f32 (cc_temperature cfg)] else [])
                 @ [''rounded'', ''filtered:min='' @ show_f32 (cc_min_confidence cfg)],
               if 0 < dropped then [''predictions_filtered:'' @ show_nat dropped] else []))"

section \<open>Detections\<close>

record yolo_config =
  yc_enabled :: bool
  yc_high_confidence_threshold :: real
  yc_medium_confidence_threshold :: real

definition yc_default :: "rnd \<Rightarrow> yolo_config" where
  "yc_default fl = \<lparr>yc_enabled = True, yc_high_confidence_threshold = fl (7 / 10),
     yc_medium_confidence_threshold = fl (4 / 10)\<rparr>"

record enriched_detection =
  ed_class_id :: nat
  ed_class_name :: string
  ed_confidence :: real
  ed_bbox :: bounding_box
  ed_bbox_rel :: bounding_box
  ed_area :: real
  ed_confidence_bucket :: string

definition enrich :: "rnd \<Rightarrow> detection \<Rightarrow> u32 \<Rightarrow> u32 \<Rightarrow> yolo_config \<Rightarrow> enriched_detection" where
  "enrich fl d img_w img_h cfg =
     (let w = max (fl (real (unat img_w))) 1; h = max (fl (real (unat img_h))) 1; b = dt_bbox d;
          rel = \<lparr>bb_x1 = clamp 0 1 (fl (bb_x1 b / w)), bb_y1 = clamp 0 1 (fl (bb_y1 b / h)),
                 bb_x2 = clamp 0 1 (fl (bb_x2 b / w)), bb_y2 = clamp 0 1 (fl (bb_y2 b / h))\<rparr>;
          area = fl (max (fl (bb_x2 b - bb_x1 b)) 0 * max (fl (bb_y2 b - bb_y1 b)) 0);
          confidence = round4 fl (dt_confidence d);
          bucket = (if yc_high_confidence_threshold cfg \<le> confidence then ''high''
                    else if yc_medium_confidence_threshold cfg \<le> confidence then ''medium'' else ''low'')
      in \<lparr>ed_class_id = dt_class_id d, ed_class_name = dt_class_name d, ed_confidence = confidence,
          ed_bbox = b, ed_bbox_rel = rel, ed_area = area, ed_confidence_bucket = bucket\<rparr>)"

record enriched_results =
  er_detections :: "enriched_detection list"
  er_inference_time_ms :: real
  er_preprocessing_time_ms :: real
  er_postprocessing_time_ms :: real
  er_total_time_ms :: real

definition yolo_process ::
  "rnd \<Rightarrow> yolo_results \<Rightarrow> u32 \<Rightarrow> u32 \<Rightarrow> yolo_config \<Rightarrow> enriched_results \<times> string list \<times> string list" where
  "yolo_process fl results img_w img_h cfg =
     (\<lparr>er_detections = map (\<lambda>d. enrich fl d img_w img_h cfg) (yr_detections results),
       er_inference_time_ms = yr_inference_time_ms results,
       er_preprocessing_time_ms = yr_preprocessing_time_ms results,
       er_postprocessing_time_ms = yr_postprocessing_time_ms results,
       er_total_time_ms = yr_total_time_ms results\<rparr>,
      if yc_enabled cfg then [''bbox_rel'', ''bbox_enriched'', ''confidence_bucketed''] else [],
      [])"

section \<open>Audio\<close>

record audio_config =
  au_enabled :: bool
  au_target_peak :: real
  au_silence_threshold :: real
  au_pad_ms :: u32

definition au_default :: "rnd \<Rightarrow> audio_config" where
  "au_default fl = \<lparr>au_enabled = True, au_target_peak = fl (95 / 100), au_silence_threshold = fl (1 / 100),
     au_pad_ms = 50\<rparr>"

text \<open>\<open>position\<close> and \<open>rposition\<close>.\<close>

definition position :: "('a \<Rightarrow> bool) \<Rightarrow> 'a list \<Rightarrow> nat option" where
  "position P xs = map_option fst (find (\<lambda>(i, x). P x) (enumerate 0 xs))"

definition rposition :: "('a \<Rightarrow> bool) \<Rightarrow> 'a list \<Rightarrow> nat option" where
  "rposition P xs = map_option fst (find (\<lambda>(i, x). P x) (rev (enumerate 0 xs)))"

definition pad_samples :: "rnd \<Rightarrow> u32 \<Rightarrow> u32 \<Rightarrow> nat" where
  "pad_samples fl pad_ms sample_rate =
     nat \<lfloor>fl (fl (fl (real (unat pad_ms)) / 1000) * fl (real (unat sample_rate)))\<rfloor>"

definition remove_offset :: "rnd \<Rightarrow> real list \<Rightarrow> real list \<times> string list" where
  "remove_offset fl samples =
     (let mean = fl (fsum fl samples / fl (real (length samples)))
      in if fl (1 / 1000) < \<bar>mean\<bar>
         then (map (\<lambda>s. fl (s - mean)) samples, [''dc_offset_removed:'' @ show_fixed 4 mean])
         else (samples, []))"

definition peak :: "real list \<Rightarrow> real" where
  "peak samples = foldl max 0 (map abs samples)"

definition scale_peak :: "rnd \<Rightarrow> real \<Rightarrow> real list \<Rightarrow> real list \<times> string list" where
  "scale_peak fl target samples =
     (if 0 < peak samples
      then (let scale = fl (target / peak samples) in (map (\<lambda>s. fl (s * scale)) samples, []))
      else (samples, [''zero_peak_after_dc'']))"

definition audio_process ::
  "rnd \<Rightarrow> (real \<Rightarrow> string) \<Rightarrow> real list \<Rightarrow> u32 \<Rightarrow> audio_config \<Rightarrow> real list \<times> string list \<times> string list" where
  "audio_process fl show_f32 samples sample_rate cfg =
     (if \<not> au_enabled cfg \<or> samples = [] then (samples, [], [])
      else let had_clipping = list_ex (\<lambda>s. 1 < \<bar>s\<bar>) samples;
               loud = (\<lambda>s. au_silence_threshold cfg \<le> \<bar>s\<bar>);
               pad = pad_samples fl (au_pad_ms cfg) sample_rate
           in case (position loud samples, rposition loud samples) of
                (Some start, Some stop) \<Rightarrow>
                  let trim_start = start - pad; trim_end = min (stop + 1 + pad) (length samples);
                      samples = take (trim_end - trim_start) (drop trim_start samples);
                      (samples, w1) = remove_offset fl samples;
                      w2 = (if had_clipping then [''clipping_detected''] else []);
                      (samples, w3) = scale_peak fl (au_target_peak cfg) samples
                  in (samples,
                      [''dc_offset'', ''normalize:'' @ show_f32 (au_target_peak cfg),
                       ''trim:pad='' @ show_nat (unat (au_pad_ms cfg)) @ ''ms''],
                      w1 @ w2 @ w3)
              | _ \<Rightarrow> (samples, [], [''all_silence'']))"

section \<open>Audio: trimmed and normalised\<close>

lemma find_snoc: "find Q (ys @ [y]) = (case find Q ys of Some z \<Rightarrow> Some z | None \<Rightarrow> if Q y then Some y else None)"
  by (induction ys) auto

lemma position_snoc:
  "position P (xs @ [x]) = (case position P xs of Some i \<Rightarrow> Some i | None \<Rightarrow> if P x then Some (length xs) else None)"
  by (simp add: position_def enumerate_append_eq find_snoc split: option.splits)

lemma position_None: "position P xs = None \<longleftrightarrow> list_all (\<lambda>x. \<not> P x) xs"
  by (induction xs rule: rev_induct) (simp add: position_def, auto simp: position_snoc split: option.splits)

lemma position_Some:
  "position P xs = Some i \<longleftrightarrow> i < length xs \<and> P (xs ! i) \<and> (\<forall>j < i. \<not> P (xs ! j))"
proof (induction xs arbitrary: i rule: rev_induct)
  case (snoc x xs)
  show ?case
  proof (cases "position P xs")
    case None
    then have "\<forall>j < length xs. \<not> P (xs ! j)" by (simp add: position_None list_all_length)
    with None show ?thesis by (auto simp: position_snoc nth_append less_Suc_eq)
  next
    case (Some k)
    then have k: "k < length xs" "P ((xs @ [x]) ! k)" "\<forall>j < k. \<not> P ((xs @ [x]) ! j)"
      using snoc [of k] by (simp_all add: nth_append)
    then have "k = i \<longleftrightarrow> i < length (xs @ [x]) \<and> P ((xs @ [x]) ! i) \<and> (\<forall>j < i. \<not> P ((xs @ [x]) ! j))"
      by (metis length_append_singleton less_SucI linorder_neqE_nat)
    with Some show ?thesis by (simp add: position_snoc)
  qed
qed (simp add: position_def)

lemma rposition_Some:
  "rposition P xs = Some i \<longleftrightarrow> i < length xs \<and> P (xs ! i) \<and> (\<forall>j. i < j \<and> j < length xs \<longrightarrow> \<not> P (xs ! j))"
proof (induction xs rule: rev_induct)
  case (snoc x xs)
  have "rev (enumerate 0 (xs @ [x])) = (length xs, x) # rev (enumerate 0 xs)"
    by (simp add: enumerate_append_eq)
  then have "rposition P (xs @ [x]) = (if P x then Some (length xs) else rposition P xs)"
    by (simp add: rposition_def)
  then show ?case using snoc by (auto simp: nth_append less_Suc_eq)
qed (simp add: rposition_def)

lemma rposition_None: "rposition P xs = None \<longleftrightarrow> list_all (\<lambda>x. \<not> P x) xs"
proof -
  have "rposition P xs = None \<longleftrightarrow> (\<forall>y \<in> set (enumerate 0 xs). \<not> P (snd y))"
    by (auto simp: rposition_def find_None_iff)
  also have "\<dots> \<longleftrightarrow> (\<forall>x \<in> snd ` set (enumerate 0 xs). \<not> P x)" by simp
  also have "snd ` set (enumerate 0 xs) = set xs" by (simp flip: set_map)
  finally show ?thesis by (simp add: list_all_iff)
qed

lemma foldl_max_scale:
  "0 \<le> c \<Longrightarrow> foldl max (a * c) (map (\<lambda>x. x * c) xs) = foldl max a xs * (c :: real)"
proof (induction xs arbitrary: a)
  case (Cons x xs)
  then have "max (a * c) (x * c) = max a x * c" by (simp add: max_mult_distrib_right)
  with Cons show ?case by simp
qed simp

lemma peak_scale: "peak (map (\<lambda>s. s * k) xs) = peak xs * \<bar>k\<bar>"
proof -
  have "map abs (map (\<lambda>s. s * k) xs) = map (\<lambda>x. x * \<bar>k\<bar>) (map abs xs)" by (simp add: abs_mult)
  then show ?thesis unfolding peak_def
    using foldl_max_scale [of "\<bar>k\<bar>" 0 "map abs xs"] by (simp only: mult_zero_left abs_ge_zero)
qed

lemma peak_nonneg: "0 \<le> peak xs"
proof -
  have "a \<le> foldl max a ys" for a :: real and ys
    by (induction ys arbitrary: a) (auto intro: order_trans [OF max.cobounded1])
  then show ?thesis by (simp add: peak_def)
qed

lemma scale_peak_spec:
  assumes "scale_peak exact target samples = (out, w)"
  shows "length out = length samples \<and> (peak out = \<bar>target\<bar> \<or> (peak out = 0 \<and> w = [''zero_peak_after_dc'']))"
proof (cases "0 < peak samples")
  case True
  with assms have "out = map (\<lambda>s. s * (target / peak samples)) samples" by (simp add: scale_peak_def Let_def)
  moreover have "peak samples * \<bar>target / peak samples\<bar> = \<bar>target\<bar>"
    using True by (simp add: abs_divide)
  ultimately show ?thesis by (simp only: length_map peak_scale simp_thms)
next
  case False
  with assms peak_nonneg [of samples] show ?thesis by (simp add: scale_peak_def)
qed

lemma length_remove_offset: "length (fst (remove_offset fl samples)) = length samples"
  by (simp add: remove_offset_def Let_def)

text \<open>
  Audio post-processing in exact arithmetic. Samples without a loud one come back as they are,
  with a warning. Otherwise the result is as long as the part from the padding before the first loud
  sample to the padding after the last, cut at the ends, and its greatest magnitude is that of the
  target peak, unless nothing but zeros was left, which is warned of.
\<close>

theorem audio_trimmed_and_normalised:
  assumes "au_enabled cfg" "samples \<noteq> []"
    and "audio_process exact show_f32 samples rate cfg = (out, steps, warnings)"
    and "loud = (\<lambda>s. au_silence_threshold cfg \<le> \<bar>s\<bar>)"
  shows "if list_all (\<lambda>s. \<not> loud s) samples
         then out = samples \<and> steps = [] \<and> warnings = [''all_silence'']
         else \<exists>first final pad. pad = pad_samples exact (au_pad_ms cfg) rate \<and>
                first \<le> final \<and> final < length samples \<and> loud (samples ! first) \<and> loud (samples ! final) \<and>
                (\<forall>i < length samples. loud (samples ! i) \<longrightarrow> first \<le> i \<and> i \<le> final) \<and>
                length out = min (final + 1 + pad) (length samples) - (first - pad) \<and>
                (peak out = \<bar>au_target_peak cfg\<bar> \<or> (peak out = 0 \<and> ''zero_peak_after_dc'' \<in> set warnings))"
proof (cases "position loud samples")
  case None
  then have "list_all (\<lambda>s. \<not> loud s) samples" by (simp add: position_None)
  with None assms show ?thesis by (simp add: audio_process_def Let_def)
next
  case (Some first)
  then have some: "\<not> list_all (\<lambda>s. \<not> loud s) samples" by (metis option.distinct(1) position_None)
  then obtain final where fin: "rposition loud samples = Some final"
    by (metis not_None_eq rposition_None)
  define pad where "pad = pad_samples exact (au_pad_ms cfg) rate"
  define part where "part = take (min (final + 1 + pad) (length samples) - (first - pad)) (drop (first - pad) samples)"
  obtain s1 w1 where r: "remove_offset exact part = (s1, w1)" by fastforce
  obtain s2 w3 where s: "scale_peak exact (au_target_peak cfg) s1 = (s2, w3)" by fastforce
  have out: "out = s2" "set w3 \<subseteq> set warnings"
    using assms(1,2,3) Some fin r s unfolding assms(4) by (auto simp: audio_process_def Let_def part_def pad_def)
  have f: "first < length samples" "loud (samples ! first)" "\<And>j. j < first \<Longrightarrow> \<not> loud (samples ! j)"
    using Some by (auto simp: position_Some)
  have l: "final < length samples" "loud (samples ! final)"
    "\<And>j. final < j \<Longrightarrow> j < length samples \<Longrightarrow> \<not> loud (samples ! j)"
    using fin by (auto simp: rposition_Some)
  have range: "\<forall>i < length samples. loud (samples ! i) \<longrightarrow> first \<le> i \<and> i \<le> final"
    using f(3) l(3) by (meson not_le)
  have "length s1 = length part" using length_remove_offset [of exact part] r by simp
  then have len: "length out = min (final + 1 + pad) (length samples) - (first - pad)"
    using scale_peak_spec [OF s] by (simp add: out part_def)
  have "peak out = \<bar>au_target_peak cfg\<bar> \<or> (peak out = 0 \<and> ''zero_peak_after_dc'' \<in> set warnings)"
    using scale_peak_spec [OF s] out by auto
  with some f(1,2) l(1,2) range len show ?thesis
    by (simp only: if_False) (intro exI [of _ first] exI [of _ final] exI [of _ pad], simp add: pad_def)
qed

theorem audio_trimmed_and_normalised_witness:
  "peak (fst (audio_process exact (\<lambda>_. []) [1 / 2, - (1 / 2)] 16000 \<lparr>au_enabled = True, au_target_peak = 1,
     au_silence_threshold = 1 / 4, au_pad_ms = 0\<rparr>)) = 1"
proof -
  define cfg where "cfg = \<lparr>au_enabled = True, au_target_peak = 1, au_silence_threshold = 1 / 4, au_pad_ms = 0\<rparr>"
  obtain out steps warnings where run: "audio_process exact (\<lambda>_. []) [1 / 2, - (1 / 2)] 16000 cfg = (out, steps, warnings)"
    by (metis prod_cases3)
  have "peak out \<noteq> 0"
    using run by (auto simp: audio_process_def cfg_def position_def rposition_def pad_samples_def remove_offset_def
        scale_peak_def peak_def fsum_def Let_def)
  moreover have "au_enabled cfg" "au_target_peak cfg = 1" by (simp_all add: cfg_def)
  ultimately show ?thesis
    using audio_trimmed_and_normalised [OF _ _ run refl] run unfolding cfg_def [symmetric]
    by (auto simp: cfg_def)
qed

section \<open>Detections and classifications\<close>

lemma enrich_rel:
  "let r = ed_bbox_rel (enrich fl d w h cfg)
   in list_all (\<lambda>x. 0 \<le> x \<and> x \<le> 1) [bb_x1 r, bb_y1 r, bb_x2 r, bb_y2 r]"
  by (simp add: enrich_def clamp_def Let_def)

text \<open>The labels of a batch that are kept, in their order, and how many are dropped.\<close>

lemma classify_keeps_order:
  assumes "classify_process fl show_f32 predictions cfg = (res, steps, warnings)" "cc_enabled cfg"
    and "\<not> not_one fl (cc_temperature cfg)"
  shows "res = map (\<lambda>batch. map (\<lambda>p. p\<lparr>pd_confidence := round4 fl (pd_confidence p)\<rparr>)
    (filter (\<lambda>p. cc_min_confidence cfg \<le> round4 fl (pd_confidence p)) batch)) predictions"
  using assms by (auto simp: classify_process_def Let_def filter_map comp_def)

section \<open>The bridge and the envelope\<close>

text \<open>
  The vision bridge reads \<open>results\<close> and \<open>detections\<close> at the top of a reply, where the main
  server puts an envelope: whatever the server found in the image, and whatever else a reply says,
  the caption is that no tool is available.
\<close>

theorem vision_bridge_blind:
  assumes "\<And>url body timeout w. \<exists>e f. fst (post url body timeout w) = Inr (envelope_json f (e :: 'd envelope))"
  shows "fst (describe fl b64 post cfg img w) = ''[Image attached but vision tools unavailable.]''"
proof -
  have env: "vget k (envelope_json f e) = None" if "k \<noteq> ''data''" "k \<noteq> ''meta''" for k and f :: "'d \<Rightarrow> val" and e
    using that by (simp add: envelope_json_def)
  have classify: "\<exists>x. fst (vb_classify fl post cfg s w) = Inl x" for s w
  proof -
    obtain r w' where p: "post (vb_main_server_base cfg @ vb_classify_endpoint cfg)
        (JObject [(''images'', JArray [JString s]), (''top_k'', JNumber (PosInt 1))]) (vb_classify_timeout_ms cfg) w = (r, w')"
      by fastforce
    then obtain e f where "r = Inr (envelope_json f (e :: 'd envelope))" using assms by (metis fst_conv)
    then show ?thesis using p by (simp add: vb_classify_def classify_resp_def required_def env)
  qed
  have detect: "\<exists>x. fst (vb_detect fl post cfg s w) = Inl x" for s w
  proof -
    obtain r w' where p: "post (vb_main_server_base cfg @ vb_detect_endpoint cfg)
        (JObject [(''image'', JString s)]) (vb_detect_timeout_ms cfg) w = (r, w')"
      by fastforce
    then obtain e f where "r = Inr (envelope_json f (e :: 'd envelope))" using assms by (metis fst_conv)
    then show ?thesis using p by (simp add: vb_detect_def detect_resp_def required_def env)
  qed
  obtain c w1 where c: "vb_classify fl post cfg (b64 img) w = (c, w1)" by fastforce
  obtain d w2 where d: "vb_detect fl post cfg (b64 img) w1 = (d, w2)" by fastforce
  have "\<exists>x. c = Inl x" "\<exists>x. d = Inl x" using classify [of "b64 img" w] detect [of "b64 img" w1] c d by auto
  then show ?thesis using c d by (auto simp: describe_def)
qed

definition served :: "'w post" where
  "served url body timeout w =
     (Inr (envelope_json (\<lambda>_. JObject [(''results'', JArray [])]) (en_from_inference exact () 0 ''m'' False [] [] ''r'')), w)"

theorem vision_bridge_blind_witness:
  "fst (describe exact (\<lambda>_. []) served vision_bridge_section [] ()) = ''[Image attached but vision tools unavailable.]''"
  by (rule vision_bridge_blind) (auto simp: served_def)

end
