(* ===== verification/AgentTools.thy ===== *)
theory AgentTools
  imports HttpFetch Postprocess
begin

text \<open>
  The agent's tools that ask the main server or the planner (\<open>src/services/llm/src/agent/tools\<close>).
  The HTTP client, the JSON parser, Base64, the clock, the file system and the planner are the
  record \<open>tool_env\<close>: \<open>te_send\<close> is one POST with its timeout in nanoseconds, a response is its
  status and its body.
\<close>

datatype post_body =
  JsonBody val
| FileBody string string string "u8 list"

record up_response =
  ur_status :: nat
  ur_body :: string

record 'w tool_env =
  te_clock :: "'w \<Rightarrow> nat \<times> 'w"
  te_send :: "string \<Rightarrow> post_body \<Rightarrow> nat \<Rightarrow> 'w \<Rightarrow> (send_error + up_response) \<times> 'w"
  te_from_json :: "string \<Rightarrow> string + val"
  te_decode :: "string \<Rightarrow> string + u8 list"
  te_bytes :: "string \<Rightarrow> string + u8 list"
  te_status_text :: "nat \<Rightarrow> string"
  te_ulid :: "'w \<Rightarrow> string \<times> 'w"
  te_write :: "string \<Rightarrow> u8 list \<Rightarrow> 'w \<Rightarrow> (string + unit) \<times> 'w"
  te_temp_dir :: string
  te_propose :: "string \<Rightarrow> u32 \<Rightarrow> 'w \<Rightarrow> (string + string) \<times> 'w"
  te_fl :: rnd

definition is_success :: "nat \<Rightarrow> bool" where
  "is_success status \<longleftrightarrow> 200 \<le> status \<and> status < 300"

text \<open>A POST with the errors of the client mapped, and one within what is left of the deadline.\<close>

definition send_mapped ::
  "'w tool_env \<Rightarrow> string \<Rightarrow> string \<Rightarrow> post_body \<Rightarrow> nat \<Rightarrow> 'w \<Rightarrow> (tool_error + up_response) \<times> 'w" where
  "send_mapped env label url body remaining w =
     (let (r, w) = te_send env url body remaining w
      in (case r of
            Inl SendTimeout \<Rightarrow> Inl (Timeout (word_of_nat (remaining div 10 ^ 6)))
          | Inl (SendFailed e) \<Rightarrow> Inl (Upstream (label @ '': '' @ e))
          | Inr resp \<Rightarrow> Inr resp, w))"

definition send_within ::
  "'w tool_env \<Rightarrow> string \<Rightarrow> string \<Rightarrow> post_body \<Rightarrow> nat \<Rightarrow> 'w \<Rightarrow> (tool_error + up_response) \<times> 'w" where
  "send_within env label url body deadline w =
     (let (now, w) = te_clock env w; remaining = deadline - now
      in if remaining = 0 then (Inl (Timeout 0), w) else send_mapped env label url body remaining w)"

definition post_json :: "'w tool_env \<Rightarrow> string \<Rightarrow> val \<Rightarrow> nat \<Rightarrow> 'w \<Rightarrow> (tool_error + val) \<times> 'w" where
  "post_json env url body deadline w =
     (let (r, w) = send_within env url url (JsonBody body) deadline w
      in (bindR r (\<lambda>resp.
            if \<not> is_success (ur_status resp)
            then Inl (Upstream (url @ '' returned '' @ te_status_text env (ur_status resp) @ '': '' @ ur_body resp))
            else case te_from_json env (ur_body resp) of
                   Inl e \<Rightarrow> Inl (Upstream (''decode '' @ url @ '': '' @ e))
                 | Inr v \<Rightarrow> Inr v), w))"

section \<open>classify\<close>

text \<open>What follows the first \<open>base64,\<close>, or everything.\<close>

fun after_marker :: "string \<Rightarrow> string \<Rightarrow> string option" where
  "after_marker p [] = (if p = [] then Some [] else None)"
| "after_marker p (c # cs) =
     (case strip_prefix p (c # cs) of Some rest \<Rightarrow> Some rest | None \<Rightarrow> after_marker p cs)"

definition encode_image :: "val \<Rightarrow> tool_error + string" where
  "encode_image v =
     (case as_str v of
        None \<Rightarrow> Inl (BadArg ''image must be a string'')
      | Some s \<Rightarrow> Inr (case after_marker ''base64,'' s of Some rest \<Rightarrow> rest | None \<Rightarrow> s))"

definition as_array :: "val \<Rightarrow> val list option" where
  "as_array v = (case v of JArray vs \<Rightarrow> Some vs | _ \<Rightarrow> None)"

definition first :: "'a list \<Rightarrow> 'a option" where
  "first xs = (case xs of [] \<Rightarrow> None | x # _ \<Rightarrow> Some x)"

definition need :: "'a option \<Rightarrow> 'e \<Rightarrow> 'e + 'a" where
  "need x e = (case x of Some y \<Rightarrow> Inr y | None \<Rightarrow> Inl e)"

definition classify_reply :: "rnd \<Rightarrow> val \<Rightarrow> tool_error + val" where
  "classify_reply fl resp =
     bindR (need (Option.bind (Option.bind (Option.bind (vget ''results'' resp) as_array) first) as_array)
              (Upstream ''classify: missing results''))
      (\<lambda>preds. bindR (need (first preds) (Upstream ''classify: empty predictions''))
      (\<lambda>top. bindR (need (Option.bind (vget ''label'' top) as_str) (Upstream ''classify: missing label''))
      (\<lambda>label. Inr (JObject [(''label'', JString label),
         (''confidence'', JNumber (Float (case vget ''confidence'' top of
             Some (JNumber n) \<Rightarrow> as_f64 fl n | _ \<Rightarrow> 0))),
         (''all'', JArray preds)]))))"

definition classify_invoke :: "'w tool_env \<Rightarrow> string \<Rightarrow> 'w tool" where
  "classify_invoke env url args deadline w =
     (case vget ''image'' args of
        None \<Rightarrow> (Inl (BadArg ''classify requires `image`''), w)
      | Some v \<Rightarrow>
          let top_k = max (case Option.bind (vget ''top_k'' args) as_i64 of Some k \<Rightarrow> k | None \<Rightarrow> 1) 1
          in case encode_image v of
               Inl e \<Rightarrow> (Inl e, w)
             | Inr b64 \<Rightarrow>
                 let (r, w) = post_json env url
                       (JObject [(''images'', JArray [JString b64]), (''top_k'', JNumber (PosInt (word_of_int top_k)))])
                       deadline w
                 in (bindR r (classify_reply (te_fl env)), w))"

section \<open>detect\<close>

text \<open>The file of an argument, decoded.\<close>

definition decode_arg :: "'w tool_env \<Rightarrow> string \<Rightarrow> val \<Rightarrow> tool_error + u8 list" where
  "decode_arg env kind v =
     bindR (encode_image v) (\<lambda>b64. map_sum (\<lambda>e. BadArg (''invalid base64'' @ kind @ '': '' @ e)) id (te_decode env b64))"

definition text_or :: "string \<Rightarrow> string \<Rightarrow> val \<Rightarrow> string" where
  "text_or k d args = (case Option.bind (vget k args) as_str of Some s \<Rightarrow> s | None \<Rightarrow> d)"

text \<open>The JSON of a successful answer.\<close>

definition answer_json :: "'w tool_env \<Rightarrow> string \<Rightarrow> up_response \<Rightarrow> tool_error + val" where
  "answer_json env name resp =
     (if \<not> is_success (ur_status resp)
      then Inl (Upstream (name @ '' returned '' @ te_status_text env (ur_status resp) @ '': '' @ ur_body resp))
      else map_sum (\<lambda>e. Upstream (''decode '' @ name @ '': '' @ e)) id (te_from_json env (ur_body resp)))"

definition detect_reply :: "val \<Rightarrow> val" where
  "detect_reply raw =
     (let detections = (case Option.bind (Option.bind (vget ''results'' raw) (vget ''detections'')) as_array of
                          Some ds \<Rightarrow> ds | None \<Rightarrow> []);
          labels = List.map_filter (\<lambda>d. Option.bind (vget ''label'' d) as_str) detections
      in JObject [(''count'', JNumber (PosInt (word_of_nat (length detections)))),
                  (''labels'', JArray (map JString labels)), (''raw'', raw)])"

definition detect_invoke :: "'w tool_env \<Rightarrow> string \<Rightarrow> 'w tool" where
  "detect_invoke env url args deadline w =
     (case vget ''image'' args of
        None \<Rightarrow> (Inl (BadArg ''detect requires `image`''), w)
      | Some v \<Rightarrow>
          (case decode_arg env '' image'' v of
             Inl e \<Rightarrow> (Inl e, w)
           | Inr bytes \<Rightarrow>
               let url = url @ ''?model_version='' @ text_or ''model_version'' ''v8'' args @
                         ''&model_size='' @ text_or ''model_size'' ''n'' args;
                   (r, w) = send_within env url url (FileBody ''image'' ''input.jpg'' ''image/jpeg'' bytes) deadline w
               in (bindR r (\<lambda>resp. bindR (answer_json env ''detect'' resp) (\<lambda>raw. Inr (detect_reply raw))), w)))"

section \<open>stt, tts, reflect and vision\<close>

definition stt_invoke :: "'w tool_env \<Rightarrow> string \<Rightarrow> 'w tool" where
  "stt_invoke env url args deadline w =
     (case vget ''audio'' args of
        None \<Rightarrow> (Inl (BadArg ''stt requires `audio`''), w)
      | Some v \<Rightarrow>
          (case decode_arg env '' audio'' v of
             Inl e \<Rightarrow> (Inl e, w)
           | Inr bytes \<Rightarrow>
               let (r, w) = send_within env ''stt'' url (FileBody ''file'' ''input.wav'' ''audio/wav'' bytes) deadline w
               in (bindR r (\<lambda>resp. bindR (answer_json env ''stt'' resp)
                     (\<lambda>raw. Inr (JObject [(''transcript'', JString (case Option.bind
                          (case vget ''transcript'' raw of Some t \<Rightarrow> Some t | None \<Rightarrow> vget ''text'' raw) as_str of
                          Some s \<Rightarrow> s | None \<Rightarrow> []))]))), w)))"

text \<open>The answer is kept in a file of its own.\<close>

definition tts_keep :: "'w tool_env \<Rightarrow> nat \<Rightarrow> up_response \<Rightarrow> 'w \<Rightarrow> (tool_error + val) \<times> 'w" where
  "tts_keep env started resp w =
     (if \<not> is_success (ur_status resp)
      then (Inl (Upstream (''tts returned '' @ te_status_text env (ur_status resp) @ '': '' @ ur_body resp)), w)
      else case te_bytes env (ur_body resp) of
             Inl e \<Rightarrow> (Inl (Upstream (''tts body: '' @ e)), w)
           | Inr bytes \<Rightarrow>
               let (name, w) = te_ulid env w;
                   tmp = te_temp_dir env @ ''/agent_tts_'' @ name @ ''.wav'';
                   (wr, w) = te_write env tmp bytes w
               in case wr of
                    Inl e \<Rightarrow> (Inl (Upstream (''tts write: '' @ e)), w)
                  | Inr _ \<Rightarrow>
                      let (now, w) = te_clock env w
                      in (Inr (JObject [(''audio_url'', JString (''file://'' @ tmp)),
                                (''duration_ms'', JNumber (PosInt (word_of_nat ((now - started) div 10 ^ 6)))),
                                (''bytes'', JNumber (PosInt (word_of_nat (length bytes))))]), w))"

definition tts_invoke :: "'w tool_env \<Rightarrow> string \<Rightarrow> 'w tool" where
  "tts_invoke env url args deadline w =
     (case Option.bind (vget ''text'' args) as_str of
        None \<Rightarrow> (Inl (BadArg ''tts requires `text` (string)''), w)
      | Some txt \<Rightarrow>
          let body = JObject [(''text'', JString txt), (''voice'', JString (text_or ''voice'' ''af_heart'' args))];
              (now, w) = te_clock env w;
              remaining = deadline - now
          in if remaining = 0 then (Inl (Timeout 0), w)
             else let (started, w) = te_clock env w;
                      (r, w) = send_mapped env ''tts'' url (JsonBody body) remaining w
                  in case r of Inl e \<Rightarrow> (Inl e, w) | Inr resp \<Rightarrow> tts_keep env started resp w)"

text \<open>
  The sweep of the directory of temporary files: its entries with the times they were modified, \<open>None\<close>
  where it cannot be read, and what removing a file gives.
\<close>

fun sweep_entries ::
  "(string \<Rightarrow> 'w \<Rightarrow> bool \<times> 'w) \<Rightarrow> nat \<Rightarrow> nat \<Rightarrow> (string \<times> nat option) list \<Rightarrow> nat \<Rightarrow> 'w \<Rightarrow> nat \<times> 'w" where
  "sweep_entries remove max_age now [] removed w = (removed, w)"
| "sweep_entries remove max_age now ((name, modified) # es) removed w =
     (if \<not> (starts_with name ''agent_tts_'' \<and> ends_with name ''.wav'')
      then sweep_entries remove max_age now es removed w
      else if (case modified of Some m \<Rightarrow> max_age < now - m | None \<Rightarrow> False)
      then let (ok, w) = remove name w
           in sweep_entries remove max_age now es (if ok then removed + 1 else removed) w
      else sweep_entries remove max_age now es removed w)"

definition sweep_stale_temp_files_in ::
  "(string \<Rightarrow> 'w \<Rightarrow> bool \<times> 'w) \<Rightarrow> (string \<times> nat option) list option \<Rightarrow> nat \<Rightarrow> nat \<Rightarrow> 'w \<Rightarrow> nat \<times> 'w" where
  "sweep_stale_temp_files_in remove dir max_age now w =
     (case dir of None \<Rightarrow> (0, w) | Some entries \<Rightarrow> sweep_entries remove max_age now entries 0 w)"

definition reflect_invoke :: "'w tool_env \<Rightarrow> u32 \<Rightarrow> 'w tool" where
  "reflect_invoke env default_max args deadline w =
     (case Option.bind (vget ''prompt'' args) as_str of
        None \<Rightarrow> (Inl (BadArg ''reflect requires `prompt` (string)''), w)
      | Some prompt \<Rightarrow>
          let max_tokens = ucast (min (case Option.bind (vget ''max_tokens'' args) as_u64 of
                             Some n \<Rightarrow> n | None \<Rightarrow> ucast default_max) (ucast default_max :: u64));
              (r, w) = te_propose env prompt max_tokens w
          in (case r of
                Inl e \<Rightarrow> Inl (Upstream (''reflect: '' @ e))
              | Inr output \<Rightarrow> Inr (JObject [(''output'', JString (trim output))]), w))"

definition vision_invoke :: "'w tool_env \<Rightarrow> (u8 list \<Rightarrow> 'w \<Rightarrow> string \<times> 'w) \<Rightarrow> 'w tool" where
  "vision_invoke env bridge args deadline w =
     (case vget ''image'' args of
        None \<Rightarrow> (Inl (BadArg ''vision requires `image`''), w)
      | Some v \<Rightarrow>
          (case decode_arg env [] v of
             Inl e \<Rightarrow> (Inl e, w)
           | Inr bytes \<Rightarrow>
               let (description, w) = bridge bytes w
               in (Inr (JObject [(''description'', JString description)]), w)))"

section \<open>The sweep\<close>

text \<open>Only own files older than the age go, and the count is of those that went.\<close>

definition stale :: "nat \<Rightarrow> nat \<Rightarrow> string \<times> nat option \<Rightarrow> bool" where
  "stale max_age now e \<longleftrightarrow> starts_with (fst e) ''agent_tts_'' \<and> ends_with (fst e) ''.wav'' \<and>
     (case snd e of Some m \<Rightarrow> max_age < now - m | None \<Rightarrow> False)"

lemma sweep_removes_stale:
  assumes "\<And>name (dir :: string set). remove name dir = (name \<in> dir, dir - {name})"
    and "distinct (map fst entries)" "set (map fst entries) \<subseteq> dir"
  shows "sweep_entries remove max_age now entries n dir =
    (n + length (filter (stale max_age now) entries), dir - fst ` set (filter (stale max_age now) entries))"
  using assms(2,3)
proof (induction entries arbitrary: n dir)
  case (Cons e es)
  obtain name modified where e: "e = (name, modified)" by fastforce
  show ?case
  proof (cases "stale max_age now e")
    case True
    then have "sweep_entries remove max_age now (e # es) n dir =
        sweep_entries remove max_age now es (n + 1) (dir - {name})"
      using Cons.prems assms(1) by (auto simp: e stale_def)
    moreover have "set (map fst es) \<subseteq> dir - {name}" using Cons.prems by (auto simp: e)
    ultimately show ?thesis using Cons.IH [of "dir - {name}" "n + 1"] Cons.prems True by (auto simp: e)
  next
    case False
    then have "sweep_entries remove max_age now (e # es) n dir = sweep_entries remove max_age now es n dir"
      by (auto simp: e stale_def split: option.splits)
    with Cons False show ?thesis by simp
  qed
qed simp

section \<open>The tools and the envelope\<close>

text \<open>The bridge's own POST: the client's error for a status is one of 400 to 599.\<close>

definition bridge_post :: "'w tool_env \<Rightarrow> 'w post" where
  "bridge_post env url body timeout w =
     (let (r, w) = te_send env url (JsonBody body) (unat timeout * 10 ^ 6) w
      in (case r of
            Inl _ \<Rightarrow> Inl ''send''
          | Inr resp \<Rightarrow> if 400 \<le> ur_status resp \<and> ur_status resp < 600 then Inl ''status''
                        else te_from_json env (ur_body resp), w))"

lemma vget_envelope: "k \<noteq> ''data'' \<Longrightarrow> k \<noteq> ''meta'' \<Longrightarrow> vget k (envelope_json f e) = None"
  by (simp add: envelope_json_def)

lemma classify_reply_envelope: "isl (classify_reply fl (envelope_json f e))"
  by (simp add: classify_reply_def need_def vget_envelope)

lemma detect_reply_envelope:
  "vget ''count'' (detect_reply (envelope_json f e)) = Some (JNumber (PosInt 0)) \<and>
   vget ''labels'' (detect_reply (envelope_json f e)) = Some (JArray [])"
  by (simp add: detect_reply_def vget_envelope map_filter_simps)

text \<open>
  No tool of the LLM service sees what the main server finds in an image. The server wraps its
  replies in an envelope; whatever is in it, the vision bridge says that no tool is available,
  \<open>classify\<close> fails, and \<open>detect\<close>, if it gets an answer, reports no object.
\<close>

theorem vision_tools_blind:
  assumes "\<And>url body t w. \<exists>s e f. fst (te_send env url body t w) = Inr \<lparr>ur_status = 200, ur_body = s\<rparr> \<and>
      te_from_json env s = Inr (envelope_json f (e :: 'd envelope))"
  shows "fst (describe fl b64 (bridge_post env) cfg img w) = ''[Image attached but vision tools unavailable.]'' \<and>
    isl (fst (classify_invoke env url args deadline w)) \<and>
    (case fst (detect_invoke env url args deadline w) of
       Inr v \<Rightarrow> vget ''count'' v = Some (JNumber (PosInt 0)) \<and> vget ''labels'' v = Some (JArray [])
     | Inl _ \<Rightarrow> True)"
proof (intro conjI)
  show "fst (describe fl b64 (bridge_post env) cfg img w) = ''[Image attached but vision tools unavailable.]''"
  proof (rule vision_bridge_blind)
    fix url body and timeout :: u64 and w
    obtain s e f where "fst (te_send env url (JsonBody body) (unat timeout * 10 ^ 6) w) = Inr \<lparr>ur_status = 200, ur_body = s\<rparr>"
        "te_from_json env s = Inr (envelope_json f (e :: 'd envelope))" using assms by blast
    then have "fst (bridge_post env url body timeout w) = Inr (envelope_json f e)"
      by (auto simp: bridge_post_def split: prod.splits)
    then show "\<exists>(e :: 'd envelope) f. fst (bridge_post env url body timeout w) = Inr (envelope_json f e)"
      by blast
  qed
  have sent: "\<exists>s e f. resp = \<lparr>ur_status = 200, ur_body = s\<rparr> \<and> te_from_json env s = Inr (envelope_json f (e :: 'd envelope))"
    if "send_within env label u body d v = (Inr resp, v')" for label u body d v resp v'
  proof -
    obtain now v1 where c: "te_clock env v = (now, v1)" by fastforce
    obtain s e f where "fst (te_send env u body (d - now) v1) = Inr \<lparr>ur_status = 200, ur_body = s\<rparr>"
        "te_from_json env s = Inr (envelope_json f (e :: 'd envelope))" using assms by blast
    with that c show ?thesis
      by (auto simp: send_within_def send_mapped_def split: if_splits prod.splits)
  qed
  show "isl (fst (classify_invoke env url args deadline w))"
  proof -
    have post: "isl (bindR (fst (post_json env url body deadline w)) (classify_reply fl'))" for body fl'
    proof -
      obtain r v where r: "send_within env url url (JsonBody body) deadline w = (r, v)" by fastforce
      show ?thesis
      proof (cases r)
        case (Inl e)
        with r show ?thesis by (simp add: post_json_def)
      next
        case (Inr resp)
        with sent [of url url "JsonBody body" deadline w resp v] r show ?thesis
          by (auto simp: post_json_def is_success_def classify_reply_envelope)
      qed
    qed
    show ?thesis
      using post by (auto simp: classify_invoke_def Let_def split_beta split: option.splits sum.splits)
  qed
  show "case fst (detect_invoke env url args deadline w) of
      Inr v \<Rightarrow> vget ''count'' v = Some (JNumber (PosInt 0)) \<and> vget ''labels'' v = Some (JArray [])
    | Inl _ \<Rightarrow> True"
  proof (cases "fst (detect_invoke env url args deadline w)")
    case (Inr v)
    then obtain u bytes resp w' where s: "send_within env u u (FileBody ''image'' ''input.jpg'' ''image/jpeg'' bytes) deadline w = (Inr resp, w')"
      "bindR (answer_json env ''detect'' resp) (\<lambda>raw. Inr (detect_reply raw)) = Inr v"
      by (auto simp: detect_invoke_def Let_def bindR_Inr_iff split: option.splits sum.splits prod.splits)
    from sent [OF s(1)] s(2) Inr show ?thesis
      by (auto simp: answer_json_def is_success_def detect_reply_envelope)
  qed simp
qed

text \<open>A main server that has found a cat, and says so in its envelope.\<close>

definition cat_reply :: val where
  "cat_reply = envelope_json
     (\<lambda>_. JObject [(''results'', JObject [(''detections'', JArray [JObject [(''label'', JString ''cat'')]])])])
     (en_from_inference exact () 0 ''yolov8n'' False [] [] ''r'')"

definition cat_server :: "unit tool_env" where
  "cat_server = \<lparr>te_clock = \<lambda>w. (0, w), te_send = \<lambda>url body t w. (Inr \<lparr>ur_status = 200, ur_body = ''cat''\<rparr>, w),
     te_from_json = \<lambda>_. Inr cat_reply, te_decode = \<lambda>_. Inr [], te_bytes = \<lambda>_. Inr [], te_status_text = \<lambda>_. [],
     te_ulid = \<lambda>w. ([], w), te_write = \<lambda>p b w. (Inr (), w), te_temp_dir = ''/tmp'',
     te_propose = \<lambda>p n w. (Inr [], w), te_fl = exact\<rparr>"

theorem vision_tools_blind_witness:
  "\<exists>v. fst (detect_invoke cat_server ''/yolo/detect'' (JObject [(''image'', JString ''x'')]) 1000000 ()) = Inr v \<and>
     vget ''count'' v = Some (JNumber (PosInt 0))"
proof -
  have "fst (detect_invoke cat_server ''/yolo/detect'' (JObject [(''image'', JString ''x'')]) 1000000 ()) =
      Inr (detect_reply cat_reply)"
    by (simp add: detect_invoke_def cat_server_def decode_arg_def encode_image_def send_within_def send_mapped_def
        answer_json_def is_success_def strip_prefix_def)
  moreover have "\<exists>s e f. fst (te_send cat_server url body t w) = Inr \<lparr>ur_status = 200, ur_body = s\<rparr> \<and>
      te_from_json cat_server s = Inr (envelope_json f (e :: unit envelope))" for url body t w
    unfolding cat_server_def cat_reply_def by auto
  note served = this
  have "case fst (detect_invoke cat_server ''/yolo/detect'' (JObject [(''image'', JString ''x'')]) 1000000 ()) of
      Inr v \<Rightarrow> vget ''count'' v = Some (JNumber (PosInt 0)) \<and> vget ''labels'' v = Some (JArray []) | Inl _ \<Rightarrow> True"
    using vision_tools_blind [where env = cat_server and url = "''/yolo/detect''" and w = "()" and deadline = 1000000
        and args = "JObject [(''image'', JString ''x'')]", OF served] by blast
  ultimately show ?thesis by simp
qed

end
