(* ===== verification/Generation.thy ===== *)
theory Generation
  imports LlmConfig Sampling
begin

text \<open>
  The two engines of the LLM service: HRM-Text (\<open>hrm_engine.rs\<close>) and SmolVLM (\<open>smolvlm/mod.rs\<close>,
  \<open>smolvlm/prompt.rs\<close>, \<open>smolvlm/image_prep.rs\<close>). The networks, the tokenizer, the image decoder and
  the receiving end of the channel are arguments. A token id is an \<open>i64\<close>; lengths are cast to
  \<open>u32\<close> where the code casts them.
\<close>

type_synonym token = "64 word"

datatype gen_error = Bail string | Panicked

section \<open>Prompts\<close>

definition build_chatml_prompt :: "(string \<times> string) list \<Rightarrow> string" where
  "build_chatml_prompt messages =
     concat (map (\<lambda>(role, content). ''<|im_start|>'' @ role @ lf @ content @ ''<|im_end|>'' @ lf) messages)
     @ ''<|im_start|>assistant'' @ lf"

definition IMAGE_TOKEN :: string where "IMAGE_TOKEN = ''<image>''"
definition FAKE_IMAGE_TOKEN :: string where "FAKE_IMAGE_TOKEN = ''<fake_token_around_image>''"
definition GLOBAL_IMG_TOKEN :: string where "GLOBAL_IMG_TOKEN = ''<global-img>''"
definition IMAGE_SEQ_LEN :: nat where "IMAGE_SEQ_LEN = 64"

definition image_expansion_block :: string where
  "image_expansion_block =
     FAKE_IMAGE_TOKEN @ GLOBAL_IMG_TOKEN @ concat (replicate IMAGE_SEQ_LEN IMAGE_TOKEN) @ FAKE_IMAGE_TOKEN"

text \<open>\<open>to_uppercase\<close> of the first character, for the ASCII letters.\<close>

definition capitalize :: "string \<Rightarrow> string" where
  "capitalize s = (case s of [] \<Rightarrow> [] | c # cs \<Rightarrow> ascii_upper c # cs)"

definition build_prompt :: "(string \<times> string) list \<Rightarrow> string" where
  "build_prompt messages =
     ''<|im_start|>'' @
     concat (map (\<lambda>(role, content). capitalize role @ '': '' @ content @ ''<end_of_utterance>'' @ lf) messages) @
     ''Assistant:''"

text \<open>The image block goes before the last message of the user, or is one.\<close>

definition add_block :: "string \<Rightarrow> (string \<times> string) list \<Rightarrow> (string \<times> string) list" where
  "add_block block messages =
     (case List.extract (\<lambda>p. fst p = ''user'') (rev messages) of
        Some (later, (role, content), earlier) \<Rightarrow> rev (later @ (role, block @ lf @ content) # earlier)
      | None \<Rightarrow> messages @ [(''user'', block)])"

section \<open>The channel\<close>

text \<open>\<open>ge_send\<close> is \<open>blocking_send\<close>: False when the receiver is gone. \<open>ge_random\<close> draws a number.\<close>

record 'w gen_env =
  ge_send :: "string \<Rightarrow> 'w \<Rightarrow> bool \<times> 'w"
  ge_random :: "'w \<Rightarrow> real \<times> 'w"
  ge_encode :: "string \<Rightarrow> string + token list"
  ge_decode_single :: "u32 \<Rightarrow> string + string"
  ge_fl :: rnd

text \<open>\<open>split_inclusive\<close> at a space.\<close>

fun split_inclusive :: "string \<Rightarrow> string list" where
  "split_inclusive [] = []"
| "split_inclusive (c # cs) =
     (if c = CHR '' '' then [c] # split_inclusive cs
      else case split_inclusive cs of [] \<Rightarrow> [[c]] | p # ps \<Rightarrow> (c # p) # ps)"

text \<open>The words of a canned reply, as many as allowed and wanted.\<close>

fun send_words :: "'w gen_env \<Rightarrow> nat \<Rightarrow> string list \<Rightarrow> 'w \<Rightarrow> 'w" where
  "send_words env n [] w = w"
| "send_words env n (p # ps) w =
     (case n of
        0 \<Rightarrow> w
      | Suc k \<Rightarrow> let (ok, w) = ge_send env p w in if ok then send_words env k ps w else w)"

section \<open>HRM-Text\<close>

record hrm_runtime_config =
  hr_eos_token_id :: u32
  hr_ctx_size :: u32
  hr_slow_loops :: u32
  hr_fast_loops :: u32
  hr_vocab_size :: u32
  hr_hidden_size :: u32
  hr_num_layers :: u32

text \<open>\<open>he_session\<close> is a run of the network: the shape and the data of the logits.\<close>

record hrm_engine =
  he_session :: "(token list \<Rightarrow> string + nat list \<times> real list) option"
  he_runtime :: hrm_runtime_config
  he_stub :: bool

definition hrm_stub :: hrm_engine where
  "hrm_stub = \<lparr>he_session = None,
     he_runtime = \<lparr>hr_eos_token_id = 0, hr_ctx_size = 1024, hr_slow_loops = 1, hr_fast_loops = 1,
       hr_vocab_size = 1, hr_hidden_size = 1, hr_num_layers = 1\<rparr>, he_stub = True\<rparr>"

definition too_long :: "nat \<Rightarrow> u32 \<Rightarrow> u32 \<Rightarrow> string" where
  "too_long n ctx vocab =
     ''input sequence length '' @ show_nat n @ '' exceeds ctx_size '' @ show_nat (unat ctx) @
     '' '' @ em_dash @ '' refusing prefill (monolithic logits would allocate ~'' @
     show_nat (unat (word_of_nat n * ucast vocab * 2 :: u64) div (1024 * 1024)) @ '' MB)''"

definition last_row :: "nat list \<times> real list \<Rightarrow> gen_error + real list" where
  "last_row out =
     (let (dims, data) = out
      in if length dims \<noteq> 3 then Inl (Bail ''unexpected logits shape'')
         else let vocab = dims ! 2; positions = dims ! 1
              in if positions = 0 \<or> length data < positions * vocab then Inl Panicked
                 else Inr (take vocab (drop ((positions - 1) * vocab) data)))"

definition prefill :: "hrm_engine \<Rightarrow> token list \<Rightarrow> gen_error + real list" where
  "prefill eng input_ids =
     (if input_ids = [] then Inl (Bail ''prefill requires at least one input token'')
      else if hr_ctx_size (he_runtime eng) < word_of_nat (length input_ids)
      then Inl (Bail (too_long (length input_ids) (hr_ctx_size (he_runtime eng)) (hr_vocab_size (he_runtime eng))))
      else case he_session eng of
             None \<Rightarrow> Inl (Bail ''prefill called on stub engine (no ONNX session)'')
           | Some session \<Rightarrow>
               (case session input_ids of Inl e \<Rightarrow> Inl (Bail e) | Inr out \<Rightarrow> last_row out))"

definition penalty :: "rnd \<Rightarrow> real" where
  "penalty fl = fl (13 / 10)"

text \<open>One token after another, at most as many as asked for.\<close>

fun decode_greedy_loop :: "rnd \<Rightarrow> hrm_engine \<Rightarrow> nat \<Rightarrow> token list \<Rightarrow> gen_error + token list" where
  "decode_greedy_loop fl eng 0 ids = Inr []"
| "decode_greedy_loop fl eng (Suc n) ids =
     bindR (prefill eng ids)
      (\<lambda>logits.
        let next_id = word_of_nat (greedy (apply_repetition_penalty fl logits ids (penalty fl)))
        in if (ucast next_id :: u32) = hr_eos_token_id (he_runtime eng) then Inr []
           else if hr_ctx_size (he_runtime eng) \<le> word_of_nat (length ids) then Inr []
           else bindR (decode_greedy_loop fl eng n (ids @ [next_id])) (\<lambda>out. Inr (next_id # out)))"

definition decode_greedy :: "rnd \<Rightarrow> hrm_engine \<Rightarrow> token list \<Rightarrow> u32 \<Rightarrow> gen_error + token list" where
  "decode_greedy fl eng prompt_ids max_tokens = decode_greedy_loop fl eng (unat max_tokens) prompt_ids"

text \<open>
  What one step does with the logits: penalise the history, draw, stop at the end token or when the
  sequence is full, send the text of the token. \<open>None\<close> is the break out of the loop.
\<close>

definition emit ::
  "'w gen_env \<Rightarrow> u32 \<Rightarrow> bool \<Rightarrow> real \<Rightarrow> real list \<Rightarrow> token list \<Rightarrow> 'w \<Rightarrow> (gen_error + token option) \<times> 'w" where
  "emit env eos full temperature logits history w =
     (let logits = apply_repetition_penalty (ge_fl env) logits history (penalty (ge_fl env));
          (r, w) = (if temperature \<le> 0 then (0, w) else ge_random env w)
      in case sample (ge_fl env) r logits temperature 40 (ge_fl env (95 / 100)) of
           None \<Rightarrow> (Inl Panicked, w)
         | Some next_token \<Rightarrow>
             if word_of_nat next_token = eos \<or> full then (Inr None, w)
             else let piece = (case ge_decode_single env (word_of_nat next_token) of Inr s \<Rightarrow> s | Inl _ \<Rightarrow> []);
                      (ok, w) = ge_send env piece w
                  in (Inr (if ok then Some (word_of_nat next_token) else None), w))"

fun hrm_loop ::
  "'w gen_env \<Rightarrow> hrm_engine \<Rightarrow> real \<Rightarrow> nat \<Rightarrow> token list \<Rightarrow> 'w \<Rightarrow> (gen_error + unit) \<times> 'w" where
  "hrm_loop env eng temperature 0 ids w = (Inr (), w)"
| "hrm_loop env eng temperature (Suc n) ids w =
     (case prefill eng ids of
        Inl e \<Rightarrow> (Inl e, w)
      | Inr logits \<Rightarrow>
          (case emit env (hr_eos_token_id (he_runtime eng)) (hr_ctx_size (he_runtime eng) \<le> word_of_nat (length ids))
                  temperature logits ids w of
             (Inl e, w) \<Rightarrow> (Inl e, w)
           | (Inr None, w) \<Rightarrow> (Inr (), w)
           | (Inr (Some t), w) \<Rightarrow> hrm_loop env eng temperature n (ids @ [t]) w))"

definition hrm_complete ::
  "'w gen_env \<Rightarrow> hrm_engine \<Rightarrow> string \<Rightarrow> u32 \<Rightarrow> real \<Rightarrow> 'w \<Rightarrow> (gen_error + unit) \<times> 'w" where
  "hrm_complete env eng prompt max_tokens temperature w =
     (if he_stub eng
      then (Inr (), send_words env (unat max_tokens) (split_inclusive
             (''[stub-llm] HRM-Text stub engine active '' @ em_dash @ '' no weights loaded. Received a '' @
              show_nat (length prompt) @ ''-char prompt; the chat pipeline is working end-to-end.'')) w)
      else case ge_encode env prompt of
             Inl e \<Rightarrow> (Inl (Bail (''encode: '' @ e)), w)
           | Inr ids \<Rightarrow> hrm_loop env eng temperature (unat max_tokens) ids w)"

definition hrm_chat ::
  "'w gen_env \<Rightarrow> hrm_engine \<Rightarrow> (string \<times> string) list \<Rightarrow> u8 list option \<Rightarrow> u32 \<Rightarrow> real \<Rightarrow> 'w \<Rightarrow>
   (gen_error + unit) \<times> 'w" where
  "hrm_chat env eng messages img max_tokens temperature w =
     hrm_complete env eng (build_chatml_prompt messages) max_tokens temperature w"

section \<open>Images for SmolVLM\<close>

text \<open>A decoded or resized picture; a pixel is three bytes.\<close>

record raster =
  ra_width :: u32
  ra_height :: u32
  ra_pixel :: "nat \<Rightarrow> nat \<Rightarrow> u8 \<times> u8 \<times> u8"

text \<open>The image library: \<open>il_decode\<close> within the limits set, \<open>il_resize\<close> is \<open>resize_exact\<close> and \<open>to_rgb8\<close>.\<close>

record image_lib =
  il_decode :: "u8 list \<Rightarrow> string + raster"
  il_resize :: "raster \<Rightarrow> u32 \<Rightarrow> u32 \<Rightarrow> raster"

definition CANVAS :: u32 where "CANVAS = 512"
definition HIDDEN_SIZE :: nat where "HIDDEN_SIZE = 576"
definition NUM_LAYERS :: nat where "NUM_LAYERS = 30"
definition NUM_KV_HEADS :: nat where "NUM_KV_HEADS = 3"
definition HEAD_DIM :: nat where "HEAD_DIM = 64"

definition plane :: nat where "plane = unat CANVAS * unat CANVAS"

text \<open>\<open>round\<close>, then \<open>clamp(1.0, 512.0)\<close>, then the cast.\<close>

definition new_edge :: "rnd \<Rightarrow> u32 \<Rightarrow> u32 \<Rightarrow> u32" where
  "new_edge fl longest e =
     (let scale = fl (real (unat CANVAS) / fl (real (unat longest)));
          x = fl (fl (real (unat e)) * scale)
      in word_of_nat (nat \<lfloor>min (max (of_int \<lfloor>x + 1 / 2\<rfloor>) 1) (real (unat CANVAS))\<rfloor>))"

definition norm_pixel :: "rnd \<Rightarrow> u8 \<Rightarrow> real" where
  "norm_pixel fl b = (let v = fl (real (unat b) / 255) in fl (fl (v - 1 / 2) / (1 / 2)))"

definition put_pixel ::
  "rnd \<Rightarrow> raster \<Rightarrow> nat \<times> nat \<Rightarrow> real list \<times> bool list \<Rightarrow> (gen_error + real list \<times> bool list)" where
  "put_pixel fl img yx vm =
     (let (y, x) = yx; (vals, mask) = vm; (r, g, b) = ra_pixel img x y; idx = y * unat CANVAS + x
      in if plane \<le> idx then Inl Panicked
         else Inr (vals[idx := norm_pixel fl r, plane + idx := norm_pixel fl g, 2 * plane + idx := norm_pixel fl b],
                   mask[idx := True]))"

fun put_pixels ::
  "rnd \<Rightarrow> raster \<Rightarrow> (nat \<times> nat) list \<Rightarrow> real list \<times> bool list \<Rightarrow> (gen_error + real list \<times> bool list)" where
  "put_pixels fl img [] vm = Inr vm"
| "put_pixels fl img (p # ps) vm = bindR (put_pixel fl img p vm) (put_pixels fl img ps)"

definition preprocess :: "rnd \<Rightarrow> image_lib \<Rightarrow> u8 list \<Rightarrow> (gen_error + real list \<times> bool list)" where
  "preprocess fl lib bytes =
     (case il_decode lib bytes of
        Inl e \<Rightarrow> Inl (Bail e)
      | Inr img \<Rightarrow>
          if ra_width img = 0 \<or> ra_height img = 0 then Inl (Bail ''image has zero width or height'')
          else let longest = max (ra_width img) (ra_height img);
                   resized = il_resize lib img (new_edge fl longest (ra_width img))
                               (new_edge fl longest (ra_height img))
               in put_pixels fl resized
                    (List.product [0 ..< unat (ra_height resized)] [0 ..< unat (ra_width resized)])
                    (replicate (3 * plane) 0, replicate plane False))"

section \<open>SmolVLM\<close>

record decoder_inputs =
  di_inputs_embeds :: "real list"
  di_attention_mask :: "token list"
  di_position_ids :: "token list"
  di_past_key :: "real list list"
  di_past_value :: "real list list"

record decoder_outputs =
  do_logits :: "nat list \<times> real list"
  do_present_key :: "real list list"
  do_present_value :: "real list list"

record smol_engine =
  sm_vision :: "(real list \<times> bool list \<Rightarrow> string + nat list \<times> real list) option"
  sm_embed :: "(token list \<Rightarrow> string + nat list \<times> real list) option"
  sm_decoder :: "(decoder_inputs \<Rightarrow> string + decoder_outputs) option"
  sm_tokenizer :: bool
  sm_image_token_id :: u32
  sm_eos_token_id :: u32
  sm_max_ctx_size :: u32
  sm_stub :: bool

definition smol_stub :: "u32 \<Rightarrow> smol_engine" where
  "smol_stub max_ctx_size = \<lparr>sm_vision = None, sm_embed = None, sm_decoder = None, sm_tokenizer = False,
     sm_image_token_id = 0, sm_eos_token_id = 0, sm_max_ctx_size = max_ctx_size, sm_stub = True\<rparr>"

definition vision_encode :: "smol_engine \<Rightarrow> real list \<times> bool list \<Rightarrow> gen_error + real list" where
  "vision_encode eng prepped =
     (case sm_vision eng of
        None \<Rightarrow> Inl (Bail ''vision_encode called on stub engine'')
      | Some session \<Rightarrow>
          (case session prepped of
             Inl e \<Rightarrow> Inl (Bail e)
           | Inr (dims, data) \<Rightarrow>
               if length dims \<noteq> 3 \<or> dims ! 1 \<noteq> IMAGE_SEQ_LEN \<or> dims ! 2 \<noteq> HIDDEN_SIZE
               then Inl (Bail ''unexpected image_features shape'')
               else if length data < IMAGE_SEQ_LEN * HIDDEN_SIZE then Inl Panicked
               else Inr (take (IMAGE_SEQ_LEN * HIDDEN_SIZE) data)))"

text \<open>\<open>from_array\<close> refuses a shape with a zero in it, so no token is an error.\<close>

definition embed_tokens :: "smol_engine \<Rightarrow> token list \<Rightarrow> gen_error + real list" where
  "embed_tokens eng ids =
     (if ids = [] then Inl (Bail ''build input_ids tensor'')
      else case sm_embed eng of
        None \<Rightarrow> Inl (Bail ''embed_tokens called on stub engine'')
      | Some session \<Rightarrow>
          (case session ids of
             Inl e \<Rightarrow> Inl (Bail e)
           | Inr (dims, data) \<Rightarrow>
               if length dims \<noteq> 3 \<or> dims ! 2 \<noteq> HIDDEN_SIZE then Inl (Bail ''unexpected inputs_embeds shape'')
               else Inr data))"

text \<open>Writing the row of position \<open>i\<close>: the slice panics beyond the end.\<close>

definition set_row :: "real list \<Rightarrow> nat \<Rightarrow> real list \<Rightarrow> (gen_error + real list)" where
  "set_row embeds i src =
     (if (i + 1) * HIDDEN_SIZE \<le> length embeds
      then Inr (take (i * HIDDEN_SIZE) embeds @ src @ drop ((i + 1) * HIDDEN_SIZE) embeds)
      else Inl Panicked)"

definition feature_row :: "real list \<Rightarrow> nat \<Rightarrow> real list" where
  "feature_row features k = take HIDDEN_SIZE (drop (k * HIDDEN_SIZE) features)"

fun splice_from ::
  "u32 \<Rightarrow> real list \<Rightarrow> nat \<Rightarrow> nat \<Rightarrow> token list \<Rightarrow> real list \<Rightarrow> (gen_error + real list)" where
  "splice_from tok features i img_pos [] embeds = Inr embeds"
| "splice_from tok features i img_pos (t # ts) embeds =
     (if (ucast t :: u32) = tok \<and> (img_pos + 1) * HIDDEN_SIZE \<le> length features
      then bindR (set_row embeds i (feature_row features img_pos))
             (splice_from tok features (i + 1) (img_pos + 1) ts)
      else splice_from tok features (i + 1) img_pos ts embeds)"

definition splice_image_embeds :: "real list \<Rightarrow> token list \<Rightarrow> real list \<Rightarrow> u32 \<Rightarrow> (gen_error + real list)" where
  "splice_image_embeds embeds ids features tok = splice_from tok features 0 0 ids embeds"

definition kv_tensor :: "nat \<Rightarrow> real list \<Rightarrow> (gen_error + real list)" where
  "kv_tensor past_len data =
     (if length data = NUM_KV_HEADS * past_len * HEAD_DIM then Inr data
      else Inl (Bail ''KV tensor data length''))"

text \<open>The tensors of one pass: shapes are checked in the order of the code.\<close>

definition step_inputs ::
  "real list \<Rightarrow> nat \<Rightarrow> nat \<Rightarrow> real list list \<Rightarrow> real list list \<Rightarrow> gen_error + decoder_inputs" where
  "step_inputs embeds seq_len past_len past_k past_v =
     (if seq_len = 0 \<or> length embeds \<noteq> seq_len * HIDDEN_SIZE then Inl (Bail ''build inputs_embeds tensor'')
      else if length past_k < NUM_LAYERS \<or> length past_v < NUM_LAYERS then Inl Panicked
      else bindR (mapR (\<lambda>(k, v). bindR (kv_tensor past_len k) (\<lambda>k. bindR (kv_tensor past_len v) (\<lambda>v. Inr (k, v))))
                    (zip (take NUM_LAYERS past_k) (take NUM_LAYERS past_v)))
             (\<lambda>kvs. Inr \<lparr>di_inputs_embeds = embeds,
                di_attention_mask = replicate (past_len + seq_len) 1,
                di_position_ids = map word_of_nat [past_len ..< past_len + seq_len],
                di_past_key = map fst kvs, di_past_value = map snd kvs\<rparr>))"

definition decode_step ::
  "smol_engine \<Rightarrow> real list \<Rightarrow> nat \<Rightarrow> nat \<Rightarrow> real list list \<Rightarrow> real list list \<Rightarrow>
   gen_error + real list \<times> real list list \<times> real list list" where
  "decode_step eng embeds seq_len past_len past_k past_v =
     bindR (step_inputs embeds seq_len past_len past_k past_v)
      (\<lambda>inputs. case sm_decoder eng of
         None \<Rightarrow> Inl (Bail ''decode_step called on stub engine'')
       | Some session \<Rightarrow>
           (case session inputs of
              Inl e \<Rightarrow> Inl (Bail e)
            | Inr out \<Rightarrow>
                bindR (last_row (do_logits out))
                  (\<lambda>logits. if length (do_present_key out) < NUM_LAYERS \<or> length (do_present_value out) < NUM_LAYERS
                            then Inl Panicked
                            else Inr (logits, take NUM_LAYERS (do_present_key out),
                                      take NUM_LAYERS (do_present_value out)))))"

text \<open>What the loop carries: the cache, the embeddings to feed next, the tokens made so far.\<close>

record gen_state =
  gs_past_k :: "real list list"
  gs_past_v :: "real list list"
  gs_past_len :: nat
  gs_embeds :: "real list"
  gs_seq_len :: nat
  gs_history :: "token list"

definition gen_init :: "real list \<Rightarrow> nat \<Rightarrow> gen_state" where
  "gen_init embeds n = \<lparr>gs_past_k = replicate NUM_LAYERS [], gs_past_v = replicate NUM_LAYERS [], gs_past_len = 0,
     gs_embeds = embeds, gs_seq_len = n, gs_history = []\<rparr>"

definition at_cap :: "smol_engine \<Rightarrow> gen_state \<Rightarrow> bool" where
  "at_cap eng st \<longleftrightarrow> sm_max_ctx_size eng \<le> word_of_nat (gs_past_len st + gs_seq_len st)"

fun gen_loop ::
  "'w gen_env \<Rightarrow> smol_engine \<Rightarrow> real \<Rightarrow> nat \<Rightarrow> gen_state \<Rightarrow> 'w \<Rightarrow> (gen_error + unit) \<times> 'w" where
  "gen_loop env eng temperature 0 st w = (Inr (), w)"
| "gen_loop env eng temperature (Suc n) st w =
     (if at_cap eng st then (Inr (), w)
      else case decode_step eng (gs_embeds st) (gs_seq_len st) (gs_past_len st) (gs_past_k st) (gs_past_v st) of
        Inl e \<Rightarrow> (Inl e, w)
      | Inr (logits, past_k, past_v) \<Rightarrow>
          (case emit env (sm_eos_token_id eng) False temperature logits (gs_history st) w of
             (Inl e, w) \<Rightarrow> (Inl e, w)
           | (Inr None, w) \<Rightarrow> (Inr (), w)
           | (Inr (Some t), w) \<Rightarrow>
               (case embed_tokens eng [t] of
                  Inl e \<Rightarrow> (Inl e, w)
                | Inr embeds \<Rightarrow>
                    gen_loop env eng temperature n
                      \<lparr>gs_past_k = past_k, gs_past_v = past_v,
                       gs_past_len = gs_past_len st + gs_seq_len st, gs_embeds = embeds,
                       gs_seq_len = 1, gs_history = gs_history st @ [t]\<rparr> w)))"

definition smol_too_long :: "nat \<Rightarrow> u32 \<Rightarrow> string" where
  "smol_too_long n ctx =
     ''input sequence length '' @ show_nat n @ '' exceeds ctx_size '' @ show_nat (unat ctx) @
     '' '' @ em_dash @ '' refusing generation''"

definition prompt_embeds :: "rnd \<Rightarrow> image_lib \<Rightarrow> smol_engine \<Rightarrow> token list \<Rightarrow> u8 list option \<Rightarrow> gen_error + real list" where
  "prompt_embeds fl lib eng ids img =
     bindR (embed_tokens eng ids)
      (\<lambda>embeds. case img of
         None \<Rightarrow> Inr embeds
       | Some bytes \<Rightarrow>
           bindR (preprocess fl lib bytes)
             (\<lambda>prepped. bindR (vision_encode eng prepped)
               (\<lambda>features. splice_image_embeds embeds ids features (sm_image_token_id eng))))"

definition generate ::
  "'w gen_env \<Rightarrow> image_lib \<Rightarrow> smol_engine \<Rightarrow> token list \<Rightarrow> u8 list option \<Rightarrow> u32 \<Rightarrow> real \<Rightarrow> 'w \<Rightarrow>
   (gen_error + unit) \<times> 'w" where
  "generate env lib eng ids img max_tokens temperature w =
     (if sm_max_ctx_size eng < word_of_nat (length ids)
      then (Inl (Bail (smol_too_long (length ids) (sm_max_ctx_size eng))), w)
      else if \<not> sm_tokenizer eng then (Inl (Bail ''generate called on stub engine''), w)
      else case prompt_embeds (ge_fl env) lib eng ids img of
             Inl e \<Rightarrow> (Inl e, w)
           | Inr embeds \<Rightarrow> gen_loop env eng temperature (unat max_tokens) (gen_init embeds (length ids)) w)"

definition stub_reply :: "'w gen_env \<Rightarrow> string \<Rightarrow> u32 \<Rightarrow> 'w \<Rightarrow> (gen_error + unit) \<times> 'w" where
  "stub_reply env ctx max_tokens w =
     (Inr (), send_words env (unat max_tokens) (split_inclusive
        (''[stub-llm] SmolVLM-256M stub engine active '' @ em_dash @ '' no weights loaded. Received: '' @ ctx @ ''.'')) w)"

definition smol_encode_generate ::
  "'w gen_env \<Rightarrow> image_lib \<Rightarrow> smol_engine \<Rightarrow> string \<Rightarrow> u8 list option \<Rightarrow> string \<Rightarrow> u32 \<Rightarrow> real \<Rightarrow> 'w \<Rightarrow>
   (gen_error + unit) \<times> 'w" where
  "smol_encode_generate env lib eng prompt_text img no_tokenizer max_tokens temperature w =
     (if \<not> sm_tokenizer eng then (Inl (Bail no_tokenizer), w)
      else case ge_encode env prompt_text of
             Inl e \<Rightarrow> (Inl (Bail (''encode: '' @ e)), w)
           | Inr ids \<Rightarrow> generate env lib eng ids img max_tokens temperature w)"

definition smol_chat ::
  "'w gen_env \<Rightarrow> image_lib \<Rightarrow> smol_engine \<Rightarrow> (string \<times> string) list \<Rightarrow> u8 list option \<Rightarrow> u32 \<Rightarrow> real \<Rightarrow> 'w \<Rightarrow>
   (gen_error + unit) \<times> 'w" where
  "smol_chat env lib eng messages img max_tokens temperature w =
     (if sm_stub eng
      then stub_reply env (''chat with '' @ show_nat (length messages) @ '' message(s), image='' @
             (if img = None then ''false'' else ''true'')) max_tokens w
      else let messages = (if img = None then messages else add_block image_expansion_block messages)
           in smol_encode_generate env lib eng (build_prompt messages) img ''chat called without a tokenizer''
                max_tokens temperature w)"

definition smol_complete ::
  "'w gen_env \<Rightarrow> image_lib \<Rightarrow> smol_engine \<Rightarrow> string \<Rightarrow> u32 \<Rightarrow> real \<Rightarrow> 'w \<Rightarrow> (gen_error + unit) \<times> 'w" where
  "smol_complete env lib eng prompt_text max_tokens temperature w =
     (if sm_stub eng then stub_reply env prompt_text max_tokens w
      else smol_encode_generate env lib eng prompt_text None ''complete called without a tokenizer''
             max_tokens temperature w)"

section \<open>Splicing the image\<close>

lemma HIDDEN_SIZE_pos [simp]: "0 < HIDDEN_SIZE"
  by (simp add: HIDDEN_SIZE_def)

lemma length_feature_row [simp]: "(k + 1) * HIDDEN_SIZE \<le> length xs \<Longrightarrow> length (feature_row xs k) = HIDDEN_SIZE"
  by (simp add: feature_row_def)

lemma row_of_patch:
  assumes n: "length src = n" and le: "(i + 1) * n \<le> length xs"
  shows "take n (drop (j * n) (take (i * n) xs @ src @ drop ((i + 1) * n) xs)) =
         (if j = i then src else take n (drop (j * n) xs))"
proof -
  have len: "length (take (i * n) xs) = i * n" using le by simp
  consider "j < i" | "j = i" | "i < j" by linarith
  then show ?thesis
  proof cases
    case 1
    then have "(j + 1) * n \<le> i * n" by (intro mult_le_mono1) simp
    then have "j * n + n \<le> i * n" by simp
    then show ?thesis using 1 len by (simp add: drop_take)
  next
    case 2
    then show ?thesis using len n by simp
  next
    case 3
    then have "(i + 1) * n \<le> j * n" by (intro mult_le_mono1) simp
    then have *: "i * n + n \<le> j * n" by simp
    then have "drop (j * n) (take (i * n) xs @ src @ drop ((i + 1) * n) xs) = drop (j * n) xs"
      using len n le 3 by (simp add: drop_append add.commute)
    then show ?thesis using 3 by simp
  qed
qed

lemma set_row_ok:
  assumes "length src = HIDDEN_SIZE" "(i + 1) * HIDDEN_SIZE \<le> length embeds"
  obtains e where "set_row embeds i src = Inr e" "length e = length embeds"
    "\<And>j. feature_row e j = (if j = i then src else feature_row embeds j)"
  using assms row_of_patch [OF assms]
  by (auto simp: set_row_def feature_row_def intro!: that)

text \<open>The image tokens before position \<open>j\<close>.\<close>

definition image_rank :: "u32 \<Rightarrow> token list \<Rightarrow> nat \<Rightarrow> nat" where
  "image_rank tok ids j = length (filter (\<lambda>t. (ucast t :: u32) = tok) (take j ids))"

definition takes_row :: "u32 \<Rightarrow> real list \<Rightarrow> token list \<Rightarrow> nat \<Rightarrow> nat \<Rightarrow> bool" where
  "takes_row tok features ids base j \<longleftrightarrow>
     j < length ids \<and> (ucast (ids ! j) :: u32) = tok \<and>
     (base + image_rank tok ids j + 1) * HIDDEN_SIZE \<le> length features"

lemma image_rank_Suc:
  "image_rank tok (t # ts) (Suc j) = (if (ucast t :: u32) = tok then 1 else 0) + image_rank tok ts j"
  by (simp add: image_rank_def)

lemma image_rank_0 [simp]: "image_rank tok ids 0 = 0"
  by (simp add: image_rank_def)

lemma takes_row_0:
  "takes_row tok features (t # ts) base 0 \<longleftrightarrow>
   (ucast t :: u32) = tok \<and> (base + 1) * HIDDEN_SIZE \<le> length features"
  by (simp add: takes_row_def)

lemma takes_row_full:
  assumes "length features < (base + 1) * HIDDEN_SIZE"
  shows "\<not> takes_row tok features ids base j"
proof -
  have "(base + 1) * HIDDEN_SIZE \<le> (base + image_rank tok ids j + 1) * HIDDEN_SIZE"
    by (intro mult_le_mono1) simp
  with assms have "\<not> (base + image_rank tok ids j + 1) * HIDDEN_SIZE \<le> length features" by linarith
  then show ?thesis unfolding takes_row_def by blast
qed

lemma takes_row_Suc:
  "takes_row tok features (t # ts) base (Suc j) \<longleftrightarrow>
   takes_row tok features ts (base + (if (ucast t :: u32) = tok then 1 else 0)) j"
  by (auto simp: takes_row_def image_rank_Suc)

lemma splice_from_rows:
  assumes "(i + length ids) * HIDDEN_SIZE \<le> length embeds"
  shows "\<exists>out. splice_from tok features i base ids embeds = Inr out \<and> length out = length embeds \<and>
    (\<forall>j. feature_row out j =
       (if i \<le> j \<and> takes_row tok features ids base (j - i)
        then feature_row features (base + image_rank tok ids (j - i)) else feature_row embeds j))"
  using assms
proof (induction ids arbitrary: i base embeds)
  case Nil
  then show ?case by (simp add: takes_row_def)
next
  case (Cons t ts)
  have room: "(i + 1 + length ts) * HIDDEN_SIZE \<le> length embeds" using Cons.prems by simp
  have "(i + 1) * HIDDEN_SIZE \<le> (i + 1 + length ts) * HIDDEN_SIZE" by (intro mult_le_mono1) simp
  with room have room1: "(i + 1) * HIDDEN_SIZE \<le> length embeds" by linarith
  have shift: "j - i = Suc (j - (i + 1))" if "i + 1 \<le> j" for j using that by simp
  show ?case
  proof (cases "(ucast t :: u32) = tok \<and> (base + 1) * HIDDEN_SIZE \<le> length features")
    case True
    then obtain e where e: "set_row embeds i (feature_row features base) = Inr e" "length e = length embeds"
      "\<And>j. feature_row e j = (if j = i then feature_row features base else feature_row embeds j)"
      using set_row_ok [OF length_feature_row room1] by blast
    have "(i + 1 + length ts) * HIDDEN_SIZE \<le> length e" using room e(2) by simp
    from Cons.IH [OF this, of "base + 1"] obtain out where
      out: "splice_from tok features (i + 1) (base + 1) ts e = Inr out" "length out = length e"
        "\<And>j. feature_row out j = (if i + 1 \<le> j \<and> takes_row tok features ts (base + 1) (j - (i + 1))
          then feature_row features (base + 1 + image_rank tok ts (j - (i + 1))) else feature_row e j)"
      by auto
    have "feature_row out j = (if i \<le> j \<and> takes_row tok features (t # ts) base (j - i)
        then feature_row features (base + image_rank tok (t # ts) (j - i)) else feature_row embeds j)" for j
    proof (cases "i + 1 \<le> j")
      case True': True
      show ?thesis using True True' by (auto simp: shift [OF True'] out(3) e(3) takes_row_Suc image_rank_Suc)
    next
      case False
      then show ?thesis using True by (cases "j = i") (auto simp: out(3) e(3) takes_row_0)
    qed
    then show ?thesis using True out(1,2) e by (auto simp: Let_def)
  next
    case False
    from Cons.IH [OF room, of base] obtain out where
      out: "splice_from tok features (i + 1) base ts embeds = Inr out" "length out = length embeds"
        "\<And>j. feature_row out j = (if i + 1 \<le> j \<and> takes_row tok features ts base (j - (i + 1))
          then feature_row features (base + image_rank tok ts (j - (i + 1))) else feature_row embeds j)"
      by auto
    have full: "\<not> takes_row tok features ids base k \<and> \<not> takes_row tok features ids (base + 1) k"
      if "(ucast t :: u32) = tok" for ids k
      using False that takes_row_full [of features base] takes_row_full [of features "base + 1"] by simp
    have "feature_row out j = (if i \<le> j \<and> takes_row tok features (t # ts) base (j - i)
        then feature_row features (base + image_rank tok (t # ts) (j - i)) else feature_row embeds j)" for j
    proof (cases "i + 1 \<le> j")
      case True
      show ?thesis using full True
        by (cases "(ucast t :: u32) = tok") (simp_all add: shift [OF True] out(3) takes_row_Suc image_rank_Suc)
    next
      case False': False
      then show ?thesis using False by (cases "j = i") (auto simp: out(3) takes_row_0)
    qed
    then show ?thesis using False out(1,2) by auto
  qed
qed

section \<open>The key-value cache\<close>

text \<open>
  What the decoder promises: over a past of which \<open>kv\<close> is the cache, it computes the logits that
  the network \<open>net\<close> gives for the whole sequence, and the cache of the whole sequence.
\<close>

definition kv_shape :: "nat \<Rightarrow> real list list \<Rightarrow> bool" where
  "kv_shape k layers \<longleftrightarrow>
     length layers = NUM_LAYERS \<and> (\<forall>d \<in> set layers. length d = NUM_KV_HEADS * k * HEAD_DIM)"

definition causal_decoder ::
  "(decoder_inputs \<Rightarrow> string + decoder_outputs) \<Rightarrow> (real list \<Rightarrow> real list) \<Rightarrow>
   (real list \<Rightarrow> real list list) \<Rightarrow> (real list \<Rightarrow> real list list) \<Rightarrow> bool" where
  "causal_decoder dec net keys values \<longleftrightarrow>
     (\<forall>k past. length past = k * HIDDEN_SIZE \<longrightarrow> kv_shape k (keys past) \<and> kv_shape k (values past)) \<and>
     (\<forall>k m past e. length past = k * HIDDEN_SIZE \<and> length e = m * HIDDEN_SIZE \<and> 0 < m \<longrightarrow>
        (\<exists>lg. dec \<lparr>di_inputs_embeds = e, di_attention_mask = replicate (k + m) 1,
               di_position_ids = map word_of_nat [k ..< k + m],
               di_past_key = keys past, di_past_value = values past\<rparr> =
             Inr \<lparr>do_logits = lg, do_present_key = keys (past @ e), do_present_value = values (past @ e)\<rparr> \<and>
           last_row lg = Inr (net (past @ e))))"

text \<open>Generation without a cache: every step feeds the whole sequence to the network.\<close>

fun full_loop ::
  "'w gen_env \<Rightarrow> smol_engine \<Rightarrow> (real list \<Rightarrow> real list) \<Rightarrow> real \<Rightarrow> nat \<Rightarrow> real list \<Rightarrow> token list \<Rightarrow> 'w \<Rightarrow>
   (gen_error + unit) \<times> 'w" where
  "full_loop env eng net temperature 0 xs history w = (Inr (), w)"
| "full_loop env eng net temperature (Suc n) xs history w =
     (if sm_max_ctx_size eng \<le> word_of_nat (length xs div HIDDEN_SIZE) then (Inr (), w)
      else
        case emit env (sm_eos_token_id eng) False temperature (net xs) history w of
          (Inl e, w) \<Rightarrow> (Inl e, w)
        | (Inr None, w) \<Rightarrow> (Inr (), w)
        | (Inr (Some t), w) \<Rightarrow>
            (case embed_tokens eng [t] of
               Inl e \<Rightarrow> (Inl e, w)
             | Inr embeds \<Rightarrow> full_loop env eng net temperature n (xs @ embeds) (history @ [t]) w))"

definition embeds_rows :: "smol_engine \<Rightarrow> bool" where
  "embeds_rows eng \<longleftrightarrow> (\<forall>ids xs. embed_tokens eng ids = Inr xs \<longrightarrow> length xs = length ids * HIDDEN_SIZE)"

lemma mapR_const:
  assumes "\<And>x. x \<in> set xs \<Longrightarrow> f x = Inr x"
  shows "mapR f xs = Inr xs"
  using assms by (induction xs) simp_all

lemma step_inputs_ok:
  assumes "kv_shape k ks" "kv_shape k vs" "length e = m * HIDDEN_SIZE" "0 < m"
  shows "step_inputs e m k ks vs =
    Inr \<lparr>di_inputs_embeds = e, di_attention_mask = replicate (k + m) 1,
         di_position_ids = map word_of_nat [k ..< k + m], di_past_key = ks, di_past_value = vs\<rparr>"
proof -
  have len: "length ks = NUM_LAYERS" "length vs = NUM_LAYERS" using assms(1,2) by (simp_all add: kv_shape_def)
  have "mapR (\<lambda>(x, v). bindR (kv_tensor k x) (\<lambda>x. bindR (kv_tensor k v) (\<lambda>v. Inr (x, v)))) (zip ks vs) = Inr (zip ks vs)"
    using assms(1,2)
    by (intro mapR_const) (auto simp: kv_shape_def kv_tensor_def elim!: in_set_zipE)
  then show ?thesis using assms(3,4) len by (simp add: step_inputs_def)
qed

lemma causal_shape:
  "causal_decoder dec net keys values \<Longrightarrow> length past = k * HIDDEN_SIZE \<Longrightarrow>
   kv_shape k (keys past) \<and> kv_shape k (values past)"
  unfolding causal_decoder_def by blast

lemma causal_run:
  assumes "causal_decoder dec net keys values" "length past = k * HIDDEN_SIZE" "length e = m * HIDDEN_SIZE" "0 < m"
  obtains lg where "dec \<lparr>di_inputs_embeds = e, di_attention_mask = replicate (k + m) 1,
        di_position_ids = map word_of_nat [k ..< k + m], di_past_key = keys past, di_past_value = values past\<rparr> =
      Inr \<lparr>do_logits = lg, do_present_key = keys (past @ e), do_present_value = values (past @ e)\<rparr>"
    "last_row lg = Inr (net (past @ e))"
  using assms unfolding causal_decoder_def by blast

lemma decode_step_causal:
  assumes c: "causal_decoder dec net keys values" and d: "sm_decoder eng = Some dec"
    and p: "length past = k * HIDDEN_SIZE" and e: "length e = m * HIDDEN_SIZE" "0 < m"
  shows "decode_step eng e m k (keys past) (values past) = Inr (net (past @ e), keys (past @ e), values (past @ e))"
proof -
  have shape: "kv_shape k (keys past)" "kv_shape k (values past)" using causal_shape [OF c p] by blast+
  have all: "length (past @ e) = (k + m) * HIDDEN_SIZE" using p e by (simp add: algebra_simps)
  have new: "length (keys (past @ e)) = NUM_LAYERS" "length (values (past @ e)) = NUM_LAYERS"
    using causal_shape [OF c all] unfolding kv_shape_def by blast+
  show ?thesis
    by (rule causal_run [OF c p e]) (simp add: new decode_step_def step_inputs_ok [OF shape e] d)
qed

definition cached :: "(real list \<Rightarrow> real list list) \<Rightarrow> (real list \<Rightarrow> real list list) \<Rightarrow> real list \<Rightarrow> gen_state \<Rightarrow> bool" where
  "cached keys values xs st \<longleftrightarrow>
     (\<exists>past. xs = past @ gs_embeds st \<and> gs_past_k st = keys past \<and> gs_past_v st = values past \<and>
        length past = gs_past_len st * HIDDEN_SIZE \<and> length (gs_embeds st) = gs_seq_len st * HIDDEN_SIZE \<and>
        0 < gs_seq_len st)"

lemma gen_loop_full:
  assumes c: "causal_decoder dec net keys values" and d: "sm_decoder eng = Some dec" and rows: "embeds_rows eng"
    and "cached keys values xs st"
  shows "gen_loop env eng temperature n st w = full_loop env eng net temperature n xs (gs_history st) w"
  using assms(4)
proof (induction n arbitrary: st xs w)
  case (Suc n)
  obtain past where past: "xs = past @ gs_embeds st" "gs_past_k st = keys past" "gs_past_v st = values past"
    "length past = gs_past_len st * HIDDEN_SIZE" "length (gs_embeds st) = gs_seq_len st * HIDDEN_SIZE"
    "0 < gs_seq_len st"
    using Suc.prems by (auto simp: cached_def)
  have len: "length xs = (gs_past_len st + gs_seq_len st) * HIDDEN_SIZE"
    using past by (simp add: algebra_simps)
  have cap: "at_cap eng st \<longleftrightarrow> sm_max_ctx_size eng \<le> word_of_nat (length xs div HIDDEN_SIZE)"
    by (simp add: at_cap_def len)
  have step: "decode_step eng (gs_embeds st) (gs_seq_len st) (gs_past_len st) (gs_past_k st) (gs_past_v st) =
      Inr (net xs, keys xs, values xs)"
    using decode_step_causal [OF c d past(4,5,6)] past(1,2,3) by simp
  have rest: "gen_loop env eng temperature n \<lparr>gs_past_k = keys xs, gs_past_v = values xs,
        gs_past_len = gs_past_len st + gs_seq_len st, gs_embeds = embeds, gs_seq_len = 1, gs_history = h\<rparr> w =
      full_loop env eng net temperature n (xs @ embeds) h w"
    if "embed_tokens eng [t] = Inr embeds" for t embeds h w
  proof -
    have "length embeds = HIDDEN_SIZE" using rows that unfolding embeds_rows_def by fastforce
    then have "cached keys values (xs @ embeds) \<lparr>gs_past_k = keys xs, gs_past_v = values xs,
        gs_past_len = gs_past_len st + gs_seq_len st, gs_embeds = embeds, gs_seq_len = 1, gs_history = h\<rparr>"
      using len by (auto simp: cached_def)
    from Suc.IH [OF this] show ?thesis by simp
  qed
  obtain r w' where emitted: "emit env (sm_eos_token_id eng) False temperature (net xs) (gs_history st) w = (r, w')"
    by (cases "emit env (sm_eos_token_id eng) False temperature (net xs) (gs_history st) w") blast
  show ?case
  proof (cases "at_cap eng st")
    case False
    then have nocap: "\<not> sm_max_ctx_size eng \<le> word_of_nat (length xs div HIDDEN_SIZE)" using cap by simp
    show ?thesis
    proof (cases "\<exists>t. r = Inr (Some t)")
      case True
      then obtain t where r: "r = Inr (Some t)" by blast
      show ?thesis
        by (cases "embed_tokens eng [t]")
          (simp_all add: False nocap step emitted r rest [unfolded One_nat_def])
    next
      case stops: False
      then show ?thesis
        by (auto simp: False nocap step emitted split: sum.split option.split)
    qed
  qed (simp add: cap)
qed simp

text \<open>The whole call, without a cache.\<close>

definition full_generate ::
  "'w gen_env \<Rightarrow> image_lib \<Rightarrow> smol_engine \<Rightarrow> (real list \<Rightarrow> real list) \<Rightarrow> token list \<Rightarrow> u8 list option \<Rightarrow> u32 \<Rightarrow>
   real \<Rightarrow> 'w \<Rightarrow> (gen_error + unit) \<times> 'w" where
  "full_generate env lib eng net ids img max_tokens temperature w =
     (if sm_max_ctx_size eng < word_of_nat (length ids)
      then (Inl (Bail (smol_too_long (length ids) (sm_max_ctx_size eng))), w)
      else if \<not> sm_tokenizer eng then (Inl (Bail ''generate called on stub engine''), w)
      else case prompt_embeds (ge_fl env) lib eng ids img of
             Inl e \<Rightarrow> (Inl e, w)
           | Inr embeds \<Rightarrow> full_loop env eng net temperature (unat max_tokens) embeds [] w)"

lemma kv_shape_0: "kv_shape 0 layers \<Longrightarrow> layers = replicate NUM_LAYERS []"
  by (auto simp: kv_shape_def intro!: replicate_eqI)

lemma splice_length:
  assumes "splice_image_embeds embeds ids features tok = Inr out" "length embeds = length ids * HIDDEN_SIZE"
  shows "length out = length embeds"
  using assms splice_from_rows [of 0 ids embeds tok features 0] by (auto simp: splice_image_embeds_def)

lemma prompt_embeds_rows:
  assumes rows: "embeds_rows eng" and ok: "prompt_embeds fl lib eng ids img = Inr embeds"
  shows "length embeds = length ids * HIDDEN_SIZE \<and> ids \<noteq> []"
proof -
  obtain xs where xs: "embed_tokens eng ids = Inr xs" using ok by (auto simp: prompt_embeds_def bindR_Inr_iff)
  have len: "length xs = length ids * HIDDEN_SIZE" using rows xs by (auto simp: embeds_rows_def)
  have "ids \<noteq> []" using xs by (auto simp: embed_tokens_def)
  then show ?thesis
    using ok xs len splice_length [of xs ids _ "sm_image_token_id eng" embeds]
    by (auto simp: prompt_embeds_def bindR_Inr_iff split: option.splits)
qed

text \<open>
  C20. The key-value cache is an optimisation only: if the decoder over a cached past computes what
  the network computes for the whole sequence, generation with the cache sends the same pieces and
  returns the same result as feeding the whole sequence to the network at every step, with images
  spliced in or not and whatever the sampler draws.
\<close>

theorem cached_generation_eq:
  assumes "causal_decoder dec net keys values" "sm_decoder eng = Some dec" "embeds_rows eng"
  shows "generate env lib eng ids img max_tokens temperature w =
    full_generate env lib eng net ids img max_tokens temperature w"
proof (cases "prompt_embeds (ge_fl env) lib eng ids img")
  case (Inr embeds)
  note len = prompt_embeds_rows [OF assms(3) Inr]
  have "keys [] = replicate NUM_LAYERS []" "values [] = replicate NUM_LAYERS []"
    using causal_shape [OF assms(1), of "[]" 0] kv_shape_0 by simp_all
  then have start: "cached keys values embeds (gen_init embeds (length ids))"
    using len by (simp add: cached_def gen_init_def)
  have "gs_history (gen_init embeds (length ids)) = []" by (simp add: gen_init_def)
  then show ?thesis
    by (simp add: generate_def full_generate_def Inr gen_loop_full [OF assms start])
qed (simp add: generate_def full_generate_def)

text \<open>A decoder that counts: the first logit is the length of the sequence.\<close>

definition toy_kv :: "nat \<Rightarrow> real list list" where
  "toy_kv k = replicate NUM_LAYERS (replicate (NUM_KV_HEADS * k * HEAD_DIM) 0)"

definition toy_decoder :: "decoder_inputs \<Rightarrow> string + decoder_outputs" where
  "toy_decoder inp = (let k = length (di_attention_mask inp)
     in Inr \<lparr>do_logits = ([1, 1, 2], [real k, 0]), do_present_key = toy_kv k, do_present_value = toy_kv k\<rparr>)"

definition toy_smol :: smol_engine where
  "toy_smol = \<lparr>sm_vision = None,
     sm_embed = Some (\<lambda>ids. Inr ([1, length ids, HIDDEN_SIZE], replicate (length ids * HIDDEN_SIZE) 0)),
     sm_decoder = Some toy_decoder, sm_tokenizer = True, sm_image_token_id = 7, sm_eos_token_id = 9,
     sm_max_ctx_size = 5, sm_stub = False\<rparr>"

definition log_env :: "string list gen_env" where
  "log_env = \<lparr>ge_send = (\<lambda>p w. (True, w @ [p])), ge_random = (\<lambda>w. (1 / 2, w)),
     ge_encode = (\<lambda>s. Inr (map (\<lambda>_. 1) s)), ge_decode_single = (\<lambda>i. Inr ''x''), ge_fl = exact\<rparr>"

definition no_images :: image_lib where
  "no_images = \<lparr>il_decode = (\<lambda>_. Inl ''decode image''), il_resize = (\<lambda>img _ _. img)\<rparr>"

lemma toy_causal:
  "causal_decoder toy_decoder (\<lambda>xs. [real (length xs div HIDDEN_SIZE), 0])
     (\<lambda>xs. toy_kv (length xs div HIDDEN_SIZE)) (\<lambda>xs. toy_kv (length xs div HIDDEN_SIZE))"
proof -
  have "(k * HIDDEN_SIZE + m * HIDDEN_SIZE) div HIDDEN_SIZE = k + m" for k m
    by (simp add: distrib_right [symmetric])
  then show ?thesis
    by (auto simp: causal_decoder_def toy_decoder_def toy_kv_def kv_shape_def last_row_def Let_def)
qed

lemma toy_rows: "embeds_rows toy_smol"
  by (auto simp: embeds_rows_def toy_smol_def embed_tokens_def split: if_splits)

lemma cached_generation_eq_witness:
  "generate log_env no_images toy_smol [1, 2] None 10 0 [] =
   full_generate log_env no_images toy_smol (\<lambda>xs. [real (length xs div HIDDEN_SIZE), 0]) [1, 2] None 10 0 []"
  by (rule cached_generation_eq [OF toy_causal _ toy_rows]) (simp add: toy_smol_def)

section \<open>Generation stops in time\<close>

text \<open>A count of the pieces sent: one more for every send, no other step changes it.\<close>

definition counts_sends :: "'w gen_env \<Rightarrow> ('w \<Rightarrow> nat) \<Rightarrow> bool" where
  "counts_sends env cnt \<longleftrightarrow>
     (\<forall>p w. cnt (snd (ge_send env p w)) = Suc (cnt w)) \<and> (\<forall>w. cnt (snd (ge_random env w)) = cnt w)"

lemma counted_send: "counts_sends env cnt \<Longrightarrow> ge_send env p w = (ok, w') \<Longrightarrow> cnt w' = Suc (cnt w)"
  unfolding counts_sends_def by (metis snd_conv)

lemma counted_random: "counts_sends env cnt \<Longrightarrow> ge_random env w = (r, w') \<Longrightarrow> cnt w' = cnt w"
  unfolding counts_sends_def by (metis snd_conv)

lemma emit_count:
  assumes "counts_sends env cnt" "emit env eos full temperature logits history w = (r, w')"
  shows "cnt w' \<le> (if full then cnt w else Suc (cnt w)) \<and> (\<forall>t. r = Inr (Some t) \<longrightarrow> \<not> full)"
  using assms(2)
  by (auto simp: emit_def Let_def split: prod.splits option.splits if_splits
      dest!: counted_send [OF assms(1)] counted_random [OF assms(1)])

lemma sent_step:
  assumes "cnt w' \<le> Suc (cnt w)" "cnt w'' \<le> cnt w' + min n (c - Suc k)" "k < c"
  shows "cnt (w'' :: 'w) \<le> cnt w + min (Suc n) (c - k)"
  using assms by linarith

lemma sent_once: "a \<le> Suc b \<Longrightarrow> k < c \<Longrightarrow> a \<le> b + min (Suc n) (c - k :: nat)"
  by linarith

lemma hrm_loop_count:
  assumes "counts_sends env cnt" "length ids < 2 ^ 32"
  shows "cnt (snd (hrm_loop env eng temperature n ids w)) \<le>
    cnt w + min n (unat (hr_ctx_size (he_runtime eng)) - length ids)"
  using assms(2)
proof (induction n arbitrary: ids w)
  case (Suc n)
  define c where "c = hr_ctx_size (he_runtime eng)"
  have len: "unat (word_of_nat (length ids) :: u32) = length ids" using Suc.prems by (simp add: unat_of_nat_small)
  show ?case
  proof (cases "prefill eng ids")
    case (Inr logits)
    define full where "full = (c \<le> word_of_nat (length ids))"
    have full: "full \<longleftrightarrow> unat c \<le> length ids" by (simp add: full_def word_le_nat_alt len)
    obtain r w' where em: "emit env (hr_eos_token_id (he_runtime eng)) full temperature logits ids w = (r, w')"
      by (cases "emit env (hr_eos_token_id (he_runtime eng)) full temperature logits ids w") blast
    note cnt = emit_count [OF assms(1) em]
    have em': "emit env (hr_eos_token_id (he_runtime eng)) (c \<le> word_of_nat (length ids)) temperature logits ids w = (r, w')"
      using em by (simp add: full_def)
    show ?thesis
    proof (cases "\<exists>t. r = Inr (Some t)")
      case True
      then obtain t where r: "r = Inr (Some t)" by blast
      with cnt full have less: "length ids < unat c" by auto
      have "unat c < 2 ^ 32" using unsigned_less [of c] by simp
      with less have room: "length (ids @ [t]) < 2 ^ 32" by simp
      have "cnt (snd (hrm_loop env eng temperature n (ids @ [t]) w')) \<le> cnt w' + min n (unat c - Suc (length ids))"
        using Suc.IH [OF room, of w'] by (simp add: c_def)
      moreover have step: "hrm_loop env eng temperature (Suc n) ids w = hrm_loop env eng temperature n (ids @ [t]) w'"
        by (simp add: Inr em' [unfolded c_def] r)
      moreover have "cnt w' \<le> Suc (cnt w)" using cnt by (auto split: if_splits)
      ultimately show ?thesis using less unfolding step c_def [symmetric] by linarith
    next
      case False
      then have stop: "snd (hrm_loop env eng temperature (Suc n) ids w) = w'"
        by (auto simp: Inr em' c_def [symmetric] split: sum.split option.split)
      show ?thesis
        unfolding stop c_def [symmetric] using cnt full
        by (cases full) (auto intro: sent_once)
    qed
  qed simp
qed simp

lemma gen_loop_count:
  assumes "counts_sends env cnt" "gs_past_len st + gs_seq_len st < 2 ^ 32"
  shows "cnt (snd (gen_loop env eng temperature n st w)) \<le>
    cnt w + min n (unat (sm_max_ctx_size eng) - (gs_past_len st + gs_seq_len st))"
  using assms(2)
proof (induction n arbitrary: st w)
  case (Suc n)
  define c where "c = sm_max_ctx_size eng"
  define k where "k = gs_past_len st + gs_seq_len st"
  have cap: "at_cap eng st \<longleftrightarrow> unat c \<le> k"
    using Suc.prems by (simp add: at_cap_def c_def k_def word_le_nat_alt unat_of_nat_small del: of_nat_add)
  show ?case
  proof (cases "at_cap eng st")
    case False
    with cap have less: "k < unat c" by simp
    have "unat c < 2 ^ 32" using unsigned_less [of c] by simp
    with less have room: "k + 1 < 2 ^ 32" by simp
    show ?thesis
    proof (cases "decode_step eng (gs_embeds st) (gs_seq_len st) (gs_past_len st) (gs_past_k st) (gs_past_v st)")
      case (Inr out)
      obtain logits pk pv where out: "out = (logits, pk, pv)" by (cases out) blast
      obtain r w' where em: "emit env (sm_eos_token_id eng) False temperature logits (gs_history st) w = (r, w')"
        by (cases "emit env (sm_eos_token_id eng) False temperature logits (gs_history st) w") blast
      have cnt: "cnt w' \<le> Suc (cnt w)" using emit_count [OF assms(1) em] by simp
      show ?thesis
      proof (cases "\<exists>t embeds. r = Inr (Some t) \<and> embed_tokens eng [t] = Inr embeds")
        case True
        then obtain t embeds where r: "r = Inr (Some t)" "embed_tokens eng [t] = Inr embeds" by blast
        define st' where "st' = \<lparr>gs_past_k = pk, gs_past_v = pv, gs_past_len = k, gs_embeds = embeds,
          gs_seq_len = 1, gs_history = gs_history st @ [t]\<rparr>"
        have step: "gen_loop env eng temperature (Suc n) st w = gen_loop env eng temperature n st' w'"
          using False by (simp add: Inr out em r st'_def k_def)
        have "cnt (snd (gen_loop env eng temperature n st' w')) \<le> cnt w' + min n (unat c - Suc k)"
          using Suc.IH [of st' w'] room by (simp add: st'_def c_def)
        with cnt less show ?thesis unfolding step c_def [symmetric] k_def [symmetric] by linarith
      next
        case stops: False
        then have stop: "snd (gen_loop env eng temperature (Suc n) st w) = w'"
          using False by (auto simp: Inr out em split: sum.split option.split)
        show ?thesis unfolding stop c_def [symmetric] k_def [symmetric] using cnt less by (rule sent_once)
      qed
    qed (use False in simp)
  qed simp
qed simp

lemma send_words_count:
  assumes "counts_sends env cnt"
  shows "cnt (send_words env n ps w) \<le> cnt w + n"
proof (induction ps arbitrary: n w)
  case (Cons p ps)
  show ?case
  proof (cases n)
    case (Suc k)
    obtain ok w' where send: "ge_send env p w = (ok, w')" by (cases "ge_send env p w") blast
    show ?thesis
      using Cons.IH [of k w'] counted_send [OF assms send] by (simp add: Suc send)
  qed simp
qed simp

text \<open>
  C21. Generation stops in time: either engine sends at most \<open>max_tokens\<close> pieces, and never more than
  keep prompt and answer together within the context size; a prompt that does not fit sends nothing.
  This holds for every network, tokenizer, random draw and receiver, errors included.
\<close>

theorem generation_bounded:
  assumes "counts_sends env cnt" "ge_encode env prompt = Inr ids" "length ids < 2 ^ 32"
  shows "(\<not> he_stub hrm \<longrightarrow>
      cnt (snd (hrm_complete env hrm prompt max_tokens temperature w)) \<le>
        cnt w + min (unat max_tokens) (unat (hr_ctx_size (he_runtime hrm)) - length ids)) \<and>
    (\<not> sm_stub smol \<longrightarrow>
      cnt (snd (smol_complete env lib smol prompt max_tokens temperature w)) \<le>
        cnt w + min (unat max_tokens) (unat (sm_max_ctx_size smol) - length ids))"
proof -
  have "cnt (snd (generate env lib smol ids None max_tokens temperature w)) \<le>
      cnt w + min (unat max_tokens) (unat (sm_max_ctx_size smol) - length ids)"
  proof (cases "prompt_embeds (ge_fl env) lib smol ids None")
    case (Inr embeds)
    show ?thesis
      using gen_loop_count [OF assms(1), of "gen_init embeds (length ids)" smol temperature "unat max_tokens" w] assms(3)
      by (simp add: generate_def Inr gen_init_def)
  qed (simp add: generate_def)
  moreover have "cnt (snd (hrm_loop env hrm temperature (unat max_tokens) ids w)) \<le>
      cnt w + min (unat max_tokens) (unat (hr_ctx_size (he_runtime hrm)) - length ids)"
    by (rule hrm_loop_count [OF assms(1,3)])
  ultimately show ?thesis
    by (simp add: hrm_complete_def smol_complete_def smol_encode_generate_def assms(2))
qed

definition toy_hrm :: hrm_engine where
  "toy_hrm = \<lparr>he_session = Some (\<lambda>ids. Inr ([1, 1, 2], [1, 0])),
     he_runtime = \<lparr>hr_eos_token_id = 9, hr_ctx_size = 5, hr_slow_loops = 1, hr_fast_loops = 1,
       hr_vocab_size = 2, hr_hidden_size = 1, hr_num_layers = 1\<rparr>, he_stub = False\<rparr>"

lemma generation_bounded_witness:
  "length (snd (hrm_complete log_env toy_hrm ''abc'' 10 0 [])) \<le> 2 \<and>
   length (snd (smol_complete log_env no_images toy_smol ''abc'' 10 0 [])) \<le> 2"
  using generation_bounded [of log_env length "''abc''" "[1, 1, 1]" toy_hrm 10 0 "[]" toy_smol no_images]
  by (simp add: counts_sends_def log_env_def toy_hrm_def toy_smol_def)

text \<open>
  C40. Native vision: the row of patch features with number \<open>k\<close> replaces the embedding of the image
  token with number \<open>k\<close>, all other positions keep the embedding of their token, and no slice is out of
  range; image tokens beyond the features keep their embedding too.
\<close>

theorem splice_rows:
  assumes "length embeds = length ids * HIDDEN_SIZE" "j < length ids"
  shows "\<exists>out. splice_image_embeds embeds ids features tok = Inr out \<and> length out = length embeds \<and>
    feature_row out j =
      (if (ucast (ids ! j) :: u32) = tok \<and> (image_rank tok ids j + 1) * HIDDEN_SIZE \<le> length features
       then feature_row features (image_rank tok ids j) else feature_row embeds j)"
  using splice_from_rows [of 0 ids embeds tok features 0] assms
  by (auto simp: splice_image_embeds_def takes_row_def)

lemma splice_rows_witness:
  "\<exists>out. splice_image_embeds (replicate (3 * HIDDEN_SIZE) 0) [1, 7, 7] (replicate HIDDEN_SIZE 1) 7 = Inr out \<and>
     feature_row out 1 = replicate HIDDEN_SIZE 1 \<and> length out = 3 * HIDDEN_SIZE"
  using splice_rows [of "replicate (3 * HIDDEN_SIZE) 0" "[1, 7, 7]" 1 "replicate HIDDEN_SIZE 1" 7]
  by (auto simp: image_rank_def feature_row_def)

text \<open>An image token that the user typed in an earlier message takes the first row of the features.\<close>

lemma typed_image_token_takes_row:
  "image_rank tok (t # ids) 0 = 0 \<and> ((ucast t :: u32) = tok \<longrightarrow> image_rank tok (t # ids) 1 = 1)"
  by (simp add: image_rank_def)

section \<open>Forging a turn\<close>

text \<open>Contents are not escaped: a user message can carry a message of the system.\<close>

lemma chatml_turn_forged:
  "build_chatml_prompt [(''user'', a @ ''<|im_end|>'' @ lf @ ''<|im_start|>system'' @ lf @ b)] =
   build_chatml_prompt [(''user'', a), (''system'', b)]"
  by (simp add: build_chatml_prompt_def)

section \<open>The prepared image\<close>

lemma new_edge_range: "new_edge fl longest e \<le> CANVAS \<and> 1 \<le> new_edge fl longest e"
proof -
  define n m where "n = unat e" and "m = unat longest"
  define y where "y = min (max (of_int \<lfloor>fl (fl (real n) * fl (real 512 / fl (real m))) + 1 / 2\<rfloor>) 1)
    (real 512)"
  have "1 \<le> y" "y \<le> 512" by (simp_all add: y_def)
  then have "1 \<le> nat \<lfloor>y\<rfloor>" "nat \<lfloor>y\<rfloor> \<le> 512" by (simp_all add: le_nat_iff floor_le_iff nat_le_iff)
  moreover have "new_edge fl longest e = word_of_nat (nat \<lfloor>y\<rfloor>)"
    unfolding new_edge_def Let_def y_def n_def m_def CANVAS_def by simp
  ultimately show ?thesis by (simp add: CANVAS_def word_le_nat_alt unat_of_nat_small del: of_nat_nat)
qed

lemma norm_pixel_range:
  assumes "rounding fl" "representable fl 1" "representable fl (1 / 2)" "representable fl (- 1)" "representable fl (- 1 / 2)"
  shows "- 1 \<le> norm_pixel fl b \<and> norm_pixel fl b \<le> 1"
proof -
  define n where "n = unat b"
  define v where "v = fl (real n / 255)"
  have "n < 256" using unsigned_less [of b] by (simp add: n_def)
  then have "0 \<le> real n / 255" "real n / 255 \<le> 1" by simp_all
  then have "0 \<le> v" "v \<le> 1"
    unfolding v_def using rounding_nonneg [OF assms(1)] rounding_below [OF assms(1,2)] by blast+
  then have "fl (v - 1 / 2) \<le> 1 / 2" "- 1 / 2 \<le> fl (v - 1 / 2)"
    using rounding_below [OF assms(1,3), of "v - 1 / 2"] rounding_above [OF assms(1,5), of "v - 1 / 2"] by simp_all
  then have "fl (fl (v - 1 / 2) / (1 / 2)) \<le> 1" "- 1 \<le> fl (fl (v - 1 / 2) / (1 / 2))"
    by (intro rounding_below [OF assms(1,2)] rounding_above [OF assms(1,4)]; simp)+
  then show ?thesis unfolding norm_pixel_def Let_def n_def [symmetric] v_def [symmetric] by simp
qed

definition in_canvas :: "nat \<times> nat \<Rightarrow> bool" where
  "in_canvas p \<longleftrightarrow> fst p < 512 \<and> snd p < 512"

definition unit_range :: "real list \<Rightarrow> bool" where
  "unit_range vals \<longleftrightarrow> (\<forall>v \<in> set vals. - 1 \<le> v \<and> v \<le> 1)"

lemma unit_range_update: "unit_range vals \<Longrightarrow> - 1 \<le> v \<Longrightarrow> v \<le> 1 \<Longrightarrow> unit_range (vals[i := v])"
  unfolding unit_range_def using set_update_subset_insert [of vals i v] by blast

lemma canvas_index: "in_canvas (y, x) \<Longrightarrow> y * 512 + x < plane"
  by (simp add: in_canvas_def plane_def CANVAS_def)

lemma put_pixel_ok:
  assumes "in_canvas (y, x)"
  shows "put_pixel fl img (y, x) (vals, msk) =
    (case ra_pixel img x y of (r, g, b) \<Rightarrow>
       Inr (vals[y * 512 + x := norm_pixel fl r, plane + (y * 512 + x) := norm_pixel fl g,
                 2 * plane + (y * 512 + x) := norm_pixel fl b], msk[y * 512 + x := True]))"
  using canvas_index [OF assms] by (cases "ra_pixel img x y") (simp add: put_pixel_def CANVAS_def Let_def)

definition pixel_rounding :: "rnd \<Rightarrow> bool" where
  "pixel_rounding fl \<longleftrightarrow> rounding fl \<and> representable fl 1 \<and> representable fl (1 / 2) \<and>
     representable fl (- 1) \<and> representable fl (- 1 / 2)"

lemma put_pixels_ok:
  assumes "pixel_rounding fl" "\<forall>p \<in> set ps. in_canvas p" "unit_range vals" "length msk = plane"
  shows "\<exists>vals' msk'. put_pixels fl img ps (vals, msk) = Inr (vals', msk') \<and> unit_range vals' \<and>
    length vals' = length vals \<and> length msk' = plane \<and>
    (\<forall>i < plane. msk' ! i \<longleftrightarrow> msk ! i \<or> (\<exists>p \<in> set ps. i = fst p * 512 + snd p))"
  using assms(2,3,4)
proof (induction ps arbitrary: vals msk)
  case (Cons p ps)
  obtain y x where p: "p = (y, x)" by (cases p) blast
  obtain r g b where px: "ra_pixel img x y = (r, g, b)" by (cases "ra_pixel img x y") blast
  have range: "- 1 \<le> norm_pixel fl c \<and> norm_pixel fl c \<le> 1" for c
    using assms(1) norm_pixel_range by (simp add: pixel_rounding_def)
  define i where "i = y * 512 + x"
  define vals1 where "vals1 = vals[i := norm_pixel fl r, plane + i := norm_pixel fl g, 2 * plane + i := norm_pixel fl b]"
  have inc: "in_canvas (y, x)" using Cons.prems(1) p by simp
  have "unit_range vals1" unfolding vals1_def using Cons.prems(2) range by (intro unit_range_update) auto
  moreover have "length (msk[i := True]) = plane" "\<forall>p \<in> set ps. in_canvas p" using Cons.prems by simp_all
  ultimately obtain vals' msk' where IH: "put_pixels fl img ps (vals1, msk[i := True]) = Inr (vals', msk')"
      "unit_range vals'" "length vals' = length vals1" "length msk' = plane"
      "\<forall>j < plane. msk' ! j \<longleftrightarrow> msk[i := True] ! j \<or> (\<exists>p \<in> set ps. j = fst p * 512 + snd p)"
    using Cons.IH by blast
  have "put_pixels fl img (p # ps) (vals, msk) = Inr (vals', msk')"
    using IH(1) by (simp add: p put_pixel_ok [OF inc] px vals1_def i_def)
  moreover have "msk' ! j \<longleftrightarrow> msk ! j \<or> (\<exists>q \<in> set (p # ps). j = fst q * 512 + snd q)" if "j < plane" for j
    using IH(5) that Cons.prems(3) by (cases "j = i") (auto simp: p i_def)
  ultimately show ?case using IH(2,3,4) by (auto simp: vals1_def)
qed simp

text \<open>The picture that \<open>preprocess\<close> paints: the resized image in the corner, the rest masked off.\<close>

lemma preprocess_ok:
  assumes "pixel_rounding fl" "il_decode lib bytes = Inr img" "ra_width img \<noteq> 0" "ra_height img \<noteq> 0"
    and exact_size: "\<And>i w h. ra_width (il_resize lib i w h) = w \<and> ra_height (il_resize lib i w h) = h"
  shows "\<exists>vals msk. preprocess fl lib bytes = Inr (vals, msk) \<and> length vals = 3 * plane \<and> unit_range vals \<and>
    length msk = plane \<and>
    (\<forall>i < plane. msk ! i \<longleftrightarrow>
       i mod 512 < unat (new_edge fl (max (ra_width img) (ra_height img)) (ra_width img)) \<and>
       i div 512 < unat (new_edge fl (max (ra_width img) (ra_height img)) (ra_height img)))"
proof -
  define w h where "w = new_edge fl (max (ra_width img) (ra_height img)) (ra_width img)"
    and "h = new_edge fl (max (ra_width img) (ra_height img)) (ra_height img)"
  define ps where "ps = List.product [0 ..< unat h] [0 ..< unat w]"
  have le: "unat w \<le> 512" "unat h \<le> 512"
    using new_edge_range unfolding w_def h_def CANVAS_def word_le_nat_alt by fastforce+
  have inc: "\<forall>p \<in> set ps. in_canvas p" using le by (auto simp: ps_def in_canvas_def)
  have zero: "unit_range (replicate (3 * plane) 0)" by (simp add: unit_range_def)
  obtain vals msk where r: "put_pixels fl (il_resize lib img w h) ps (replicate (3 * plane) 0, replicate plane False) =
      Inr (vals, msk)" "unit_range vals" "length vals = 3 * plane" "length msk = plane"
    "\<forall>i < plane. msk ! i \<longleftrightarrow> replicate plane False ! i \<or> (\<exists>p \<in> set ps. i = fst p * 512 + snd p)"
    using put_pixels_ok [OF assms(1) inc zero, of "replicate plane False" "il_resize lib img w h"] by auto
  have "(\<exists>p \<in> set ps. i = fst p * 512 + snd p) \<longleftrightarrow> i mod 512 < unat w \<and> i div 512 < unat h" (is "?l \<longleftrightarrow> ?r") for i
  proof
    assume ?l
    then obtain y x where "y < unat h" "x < unat w" "i = y * 512 + x" by (auto simp: ps_def)
    then show ?r using le by simp
  next
    assume ?r
    then have "(i div 512, i mod 512) \<in> set ps" by (simp add: ps_def)
    then show ?l by (rule bexI [rotated]) simp
  qed
  moreover have "preprocess fl lib bytes = Inr (vals, msk)"
    using assms(2,3,4) exact_size r(1) by (simp add: preprocess_def Let_def w_def h_def ps_def)
  ultimately show ?thesis using r by (simp add: w_def h_def)
qed

section \<open>The planner\<close>

text \<open>
  \<open>propose\<close> runs the engine on its own thread and concatenates the pieces as they come, until the
  engine has dropped its end of the channel; \<open>panic_text\<close> is what the join error says. The lease it
  holds meanwhile is modelled with the permits.
\<close>

definition propose ::
  "(string \<Rightarrow> u32 \<Rightarrow> real \<Rightarrow> 'w \<Rightarrow> (string list \<times> (gen_error + unit)) \<times> 'w) \<Rightarrow> string \<Rightarrow> string \<Rightarrow> u32 \<Rightarrow> real \<Rightarrow> 'w \<Rightarrow>
   (string + string) \<times> 'w" where
  "propose engine panic_text prompt max_tokens temperature w =
     (let ((pieces, r), w) = engine prompt max_tokens temperature w
      in (case r of
            Inl Panicked \<Rightarrow> Inl (''planner join: '' @ panic_text)
          | Inl (Bail e) \<Rightarrow> Inl (''planner inference: '' @ e)
          | Inr _ \<Rightarrow> Inr (concat pieces), w))"

end
