(* ===== verification/ImageSecurity.thy ===== *)
theory ImageSecurity
  imports Floats Sampling Text
begin

text \<open>
  The checks of \<open>core/image_security.rs\<close> on uploaded images. The image library is the record
  \<open>img_ops\<close>: what the header says of the dimensions, decoding, \<open>to_rgb8\<close> as its raw bytes, resizing.
  \<open>io_show\<close> prints a float with so many decimals, \<open>io_random\<close> draws from a range.
\<close>

datatype security_level = Low_Level | Medium_Level | High_Level | Maximum_Level

datatype threat_type =
  AdversarialPattern | MaliciousPayload | Steganography | SuspiciousMetadata | ExcessiveSize | InvalidFormat

datatype severity = Low_Severity | Medium_Severity | High_Severity | Critical_Severity

record threat_info =
  ti_threat_type :: threat_type
  ti_severity :: severity
  ti_description :: string
  ti_confidence :: real

record image_security_result =
  is_is_safe :: bool
  is_security_level :: security_level
  is_threats_detected :: "threat_info list"
  is_confidence :: real
  is_sanitized :: bool

record image_security_validator =
  iv_max_dimension :: u32
  iv_max_file_size :: nat
  iv_enable_steganography_check :: bool

definition iv_new :: image_security_validator where
  "iv_new = \<lparr>iv_max_dimension = 8192, iv_max_file_size = 50 * 1024 * 1024, iv_enable_steganography_check = True\<rparr>"

definition iv_with_limits :: "u32 \<Rightarrow> nat \<Rightarrow> image_security_validator" where
  "iv_with_limits max_dimension max_file_size =
     \<lparr>iv_max_dimension = max_dimension, iv_max_file_size = max_file_size, iv_enable_steganography_check = True\<rparr>"

datatype dynamic_kind = ImageRgb8 | ImageRgba8 | ImageRgb16 | ImageRgba16 | ImageOther

record ('img, 'w) img_ops =
  io_peek :: "u8 list \<Rightarrow> (u32 \<times> u32) option"
  io_load :: "u8 list \<Rightarrow> string + 'img"
  io_width :: "'img \<Rightarrow> u32"
  io_height :: "'img \<Rightarrow> u32"
  io_kind :: "'img \<Rightarrow> dynamic_kind"
  io_color :: "'img \<Rightarrow> string"
  io_rgb :: "'img \<Rightarrow> u8 list"
  io_of_rgb :: "u32 \<Rightarrow> u32 \<Rightarrow> u8 list \<Rightarrow> 'img"
  io_fit :: "u32 \<Rightarrow> u32 \<Rightarrow> 'img \<Rightarrow> 'img"
  io_random :: "real \<Rightarrow> 'w \<Rightarrow> real \<times> 'w"
  io_show :: "nat \<Rightarrow> real \<Rightarrow> string"
  io_fl :: rnd

section \<open>The checks\<close>

definition mean_of :: "rnd \<Rightarrow> real list \<Rightarrow> real" where
  "mean_of fl xs = fl (fsum fl xs / fl (real (length xs)))"

definition variance_of :: "rnd \<Rightarrow> real list \<Rightarrow> real" where
  "variance_of fl xs =
     (let m = mean_of fl xs in mean_of fl (map (\<lambda>x. let d = fl (x - m) in fl (d * d)) xs))"

fun variance_threshold :: "security_level \<Rightarrow> real" where
  "variance_threshold Low_Level = 100000"
| "variance_threshold Medium_Level = 80000"
| "variance_threshold High_Level = 60000"
| "variance_threshold Maximum_Level = 40000"

text \<open>With no pixel at all the quotients are not numbers and every comparison is false.\<close>

definition check_adversarial_patterns ::
  "('img, 'w) img_ops \<Rightarrow> 'img \<Rightarrow> security_level \<Rightarrow> threat_info option" where
  "check_adversarial_patterns ops img level =
     (let pixels = map (\<lambda>p. real (unat p)) (io_rgb ops img);
          variance = variance_of (io_fl ops) pixels
      in if pixels \<noteq> [] \<and> variance_threshold level < variance
         then Some \<lparr>ti_threat_type = AdversarialPattern, ti_severity = Medium_Severity,
                ti_description = ''Suspicious pattern detected (variance: '' @ io_show ops 2 variance @ '')'',
                ti_confidence = io_fl ops (6 / 10)\<rparr>
         else None)"

fun lsb_threshold :: "rnd \<Rightarrow> security_level \<Rightarrow> real" where
  "lsb_threshold fl Low_Level = fl (15 / 100)"
| "lsb_threshold fl Medium_Level = fl (12 / 100)"
| "lsb_threshold fl High_Level = fl (10 / 100)"
| "lsb_threshold fl Maximum_Level = fl (8 / 100)"

definition lsb_deviation :: "rnd \<Rightarrow> u8 list \<Rightarrow> real" where
  "lsb_deviation fl pixels =
     (let lsb_ones = length (filter odd pixels);
          lsb_ratio = fl (fl (real lsb_ones) / fl (real (length pixels)))
      in \<bar>fl (lsb_ratio - 1 / 2)\<bar>)"

definition check_steganography ::
  "('img, 'w) img_ops \<Rightarrow> 'img \<Rightarrow> security_level \<Rightarrow> threat_info option" where
  "check_steganography ops img level =
     (let pixels = io_rgb ops img; deviation = lsb_deviation (io_fl ops) pixels
      in if pixels \<noteq> [] \<and> lsb_threshold (io_fl ops) level < deviation
         then Some \<lparr>ti_threat_type = Steganography, ti_severity = Low_Severity,
                ti_description = ''Possible steganography detected (LSB deviation: '' @ io_show ops 4 deviation @ '')'',
                ti_confidence = io_fl ops (4 / 10)\<rparr>
         else None)"

text \<open>\<open>windows(n).any(..)\<close>: a byte sequence somewhere in the data.\<close>

fun has_window :: "u8 list \<Rightarrow> u8 list \<Rightarrow> bool" where
  "has_window p [] = (p = [])"
| "has_window p (b # bs) = (take (length p) (b # bs) = p \<or> has_window p bs)"

definition bytes_of :: "string \<Rightarrow> u8 list" where
  "bytes_of s = map (\<lambda>c. word_of_nat (of_char c)) s"

definition check_metadata :: "rnd \<Rightarrow> u8 list \<Rightarrow> threat_info option" where
  "check_metadata fl data =
     (if has_window (bytes_of ''Exif'') data \<or> has_window (bytes_of ''XMP'') data \<or> has_window (bytes_of ''xmp'') data
      then Some \<lparr>ti_threat_type = SuspiciousMetadata, ti_severity = Low_Severity,
             ti_description = ''Image contains metadata that may include sensitive information'',
             ti_confidence = fl (8 / 10)\<rparr>
      else None)"

section \<open>Validation\<close>

definition excessive :: "severity \<Rightarrow> string \<Rightarrow> threat_info" where
  "excessive sev msg = \<lparr>ti_threat_type = ExcessiveSize, ti_severity = sev, ti_description = msg, ti_confidence = 1\<rparr>"

definition show_dims :: "u32 \<Rightarrow> u32 \<Rightarrow> u32 \<Rightarrow> string" where
  "show_dims w h limit = ''Image dimensions '' @ show_nat (unat w) @ ''x'' @ show_nat (unat h) @
     '' exceed limit '' @ show_nat (unat limit)"

definition rejected :: "security_level \<Rightarrow> threat_info list \<Rightarrow> image_security_result" where
  "rejected level threats = \<lparr>is_is_safe = False, is_security_level = level, is_threats_detected = threats,
     is_confidence = 1, is_sanitized = False\<rparr>"

definition size_threats :: "image_security_validator \<Rightarrow> u8 list \<Rightarrow> threat_info list" where
  "size_threats iv data =
     (if iv_max_file_size iv < length data
      then [excessive High_Severity (''File size '' @ show_nat (length data) @ '' exceeds limit '' @
              show_nat (iv_max_file_size iv))]
      else [])"

definition harmless :: "threat_info \<Rightarrow> bool" where
  "harmless t \<longleftrightarrow> ti_severity t \<noteq> Critical_Severity \<and> ti_severity t \<noteq> High_Severity"

definition option_list :: "'a option \<Rightarrow> 'a list" where
  "option_list x = (case x of Some y \<Rightarrow> [y] | None \<Rightarrow> [])"

text \<open>The threats of a decoded image, in the order of the checks.\<close>

definition decoded_threats ::
  "('img, 'w) img_ops \<Rightarrow> image_security_validator \<Rightarrow> u8 list \<Rightarrow> security_level \<Rightarrow> 'img \<Rightarrow> threat_info list" where
  "decoded_threats ops iv data level img =
     (if iv_max_dimension iv < io_width ops img \<or> iv_max_dimension iv < io_height ops img
      then [excessive Medium_Severity (show_dims (io_width ops img) (io_height ops img) (iv_max_dimension iv))]
      else []) @
     option_list (check_adversarial_patterns ops img level) @
     (if iv_enable_steganography_check iv then option_list (check_steganography ops img level) else []) @
     option_list (check_metadata (io_fl ops) data)"

definition iv_validate ::
  "('img, 'w) img_ops \<Rightarrow> image_security_validator \<Rightarrow> u8 list \<Rightarrow> security_level \<Rightarrow> image_security_result" where
  "iv_validate ops iv data level =
     (let threats = size_threats iv data
      in case (case io_peek ops data of
                 Some (w, h) \<Rightarrow> if iv_max_dimension iv < w \<or> iv_max_dimension iv < h then Some (w, h) else None
               | None \<Rightarrow> None) of
           Some (w, h) \<Rightarrow>
             rejected level (threats @ [excessive High_Severity
               (show_dims w h (iv_max_dimension iv) @ '' (rejected pre-decode)'')])
         | None \<Rightarrow>
             (case io_load ops data of
                Inl e \<Rightarrow>
                  rejected level (threats @ [\<lparr>ti_threat_type = InvalidFormat, ti_severity = Critical_Severity,
                    ti_description = ''Invalid image format: '' @ e, ti_confidence = 1\<rparr>])
              | Inr img \<Rightarrow>
                  let threats = threats @ decoded_threats ops iv data level img
                  in \<lparr>is_is_safe = list_all harmless threats, is_security_level = level,
                      is_threats_detected = threats,
                      is_confidence = (if threats = [] then 1 else mean_of (io_fl ops) (map ti_confidence threats)),
                      is_sanitized = False\<rparr>))"

section \<open>Sanitising\<close>

text \<open>One channel: \<open>clamp\<close> to the range of a byte, then the cast, which drops the fraction.\<close>

definition noisy :: "rnd \<Rightarrow> real \<Rightarrow> u8 \<Rightarrow> u8" where
  "noisy fl r c =
     (let v = fl (real (unat c) + fl (r * 255)) in word_of_nat (nat \<lfloor>min (max v 0) 255\<rfloor>))"

fun add_noise :: "rnd \<Rightarrow> ('w \<Rightarrow> real \<times> 'w) \<Rightarrow> u8 list \<Rightarrow> 'w \<Rightarrow> u8 list \<times> 'w" where
  "add_noise fl draw [] w = ([], w)"
| "add_noise fl draw (c # cs) w =
     (let (r, w) = draw w; (cs', w) = add_noise fl draw cs w in (noisy fl r c # cs', w))"

definition iv_sanitize ::
  "('img, 'w) img_ops \<Rightarrow> 'img \<Rightarrow> security_level \<Rightarrow> 'w \<Rightarrow> 'img \<times> 'w" where
  "iv_sanitize ops img level w =
     (let rgb = io_rgb ops img; wd = io_width ops img; ht = io_height ops img
      in case level of
           Low_Level \<Rightarrow> (io_of_rgb ops wd ht rgb, w)
         | Medium_Level \<Rightarrow> (io_of_rgb ops wd ht rgb, w)
         | High_Level \<Rightarrow>
             let (rgb, w) = add_noise (io_fl ops) (io_random ops (io_fl ops (1 / 100))) rgb w
             in (io_of_rgb ops wd ht rgb, w)
         | Maximum_Level \<Rightarrow>
             let (rgb, w) = add_noise (io_fl ops) (io_random ops (io_fl ops (2 / 100))) rgb w
             in if 2048 < wd \<or> 2048 < ht then (io_fit ops 2048 2048 img, w)
                else (io_of_rgb ops wd ht rgb, w))"

record image_stats =
  im_width :: u32
  im_height :: u32
  im_format :: string
  im_size_bytes :: u64
  im_has_alpha :: bool
  im_color_depth :: u8

definition get_image_stats :: "('img, 'w) img_ops \<Rightarrow> 'img \<Rightarrow> image_stats" where
  "get_image_stats ops img =
     (let has_alpha = io_kind ops img = ImageRgba8 \<or> io_kind ops img = ImageRgba16;
          color_depth = (if io_kind ops img = ImageRgb16 \<or> io_kind ops img = ImageRgba16 then 16 else 8)
      in \<lparr>im_width = io_width ops img, im_height = io_height ops img, im_format = io_color ops img,
          im_size_bytes = ucast (io_width ops img) * ucast (io_height ops img) * (ucast color_depth div 8) *
            (if has_alpha then 4 else 3),
          im_has_alpha = has_alpha, im_color_depth = color_depth\<rparr>)"

section \<open>What decides\<close>

lemma decoded_harmless: "list_all harmless (decoded_threats ops iv data level img)"
  by (simp add: decoded_threats_def option_list_def harmless_def excessive_def check_adversarial_patterns_def
      check_steganography_def check_metadata_def Let_def split: option.split)

lemma size_harmless: "list_all harmless (size_threats iv data) \<longleftrightarrow> length data \<le> iv_max_file_size iv"
  by (simp add: size_threats_def harmless_def excessive_def)

text \<open>The sum of squared distances to the mean is the sum of squares less the part of the mean.\<close>

lemma square_deviations:
  "(\<Sum>x \<leftarrow> xs. (x - m)\<^sup>2) = (\<Sum>x \<leftarrow> xs. x\<^sup>2) - 2 * m * sum_list xs + real (length xs) * m\<^sup>2"
  by (induction xs) (simp_all add: power2_eq_square algebra_simps)

lemma square_bound:
  fixes b :: real
  assumes "\<forall>x \<in> set xs. 0 \<le> x \<and> x \<le> b"
  shows "(\<Sum>x \<leftarrow> xs. x\<^sup>2) \<le> b * sum_list xs"
  using assms
proof (induction xs)
  case (Cons a xs)
  then have "a * a \<le> b * a" "(\<Sum>x \<leftarrow> xs. x\<^sup>2) \<le> b * sum_list xs" using mult_right_mono [of a b a] by simp_all
  then show ?case by (simp add: power2_eq_square distrib_left)
qed simp

text \<open>Numbers between 0 and \<open>b\<close> have at most a variance of \<open>b\<^sup>2 / 4\<close>.\<close>

lemma variance_bound:
  assumes "\<forall>x \<in> set xs. 0 \<le> x \<and> x \<le> b" "xs \<noteq> []"
  shows "variance_of exact xs \<le> b\<^sup>2 / 4"
proof -
  define n m where "n = real (length xs)" and "m = sum_list xs / n"
  have n: "0 < n" using assms(2) by (simp add: n_def)
  have s: "sum_list xs = n * m" using n by (simp add: m_def)
  have "(\<Sum>x \<leftarrow> xs. (x - m)\<^sup>2) \<le> b * (n * m) - 2 * m * (n * m) + n * m\<^sup>2"
    using square_bound [OF assms(1)] unfolding square_deviations s n_def [symmetric] by simp
  also have "\<dots> = n * (b\<^sup>2 / 4 - (m - b / 2)\<^sup>2)" by (simp add: power2_eq_square field_simps)
  also have "\<dots> \<le> n * (b\<^sup>2 / 4)" using n by (intro mult_left_mono) simp_all
  finally have "(\<Sum>x \<leftarrow> xs. (x - m)\<^sup>2) / n \<le> b\<^sup>2 / 4" using n by (simp add: field_simps)
  moreover have "variance_of exact xs = (\<Sum>x \<leftarrow> xs. (x - m)\<^sup>2) / n"
    by (simp add: variance_of_def mean_of_def Let_def fsum_exact m_def n_def power2_eq_square)
  ultimately show ?thesis by simp
qed

lemma byte_range: "0 \<le> real (unat (p :: u8)) \<and> real (unat p) \<le> 255"
proof
  show "0 \<le> real (unat p)" by (rule of_nat_0_le_iff)
next
  have "unat p < 256" using unsigned_less [of p] by simp
  then have "unat p \<le> 255" by linarith
  then have "real (unat p) \<le> real 255" by (simp only: of_nat_le_iff)
  then show "real (unat p) \<le> 255" by simp
qed

lemma adversarial_never:
  assumes "io_fl ops = exact"
  shows "check_adversarial_patterns ops img level = None"
proof (cases "io_rgb ops img = []")
  case False
  define xs where "xs = map (\<lambda>p. real (unat p)) (io_rgb ops img)"
  have "\<forall>x \<in> set xs. 0 \<le> x \<and> x \<le> 255"
    unfolding xs_def set_map using byte_range by blast
  then have "variance_of exact xs \<le> 255\<^sup>2 / 4" using False by (intro variance_bound) (auto simp: xs_def)
  also have "(255 :: real)\<^sup>2 / 4 \<le> variance_threshold level" by (cases level) (simp_all add: power2_eq_square)
  finally show ?thesis by (simp add: check_adversarial_patterns_def xs_def assms Let_def)
qed (simp add: check_adversarial_patterns_def)

text \<open>
  What makes an image unsafe: the file is over the size limit, its header declares more than the
  limit of pixels a side, or it does not decode. Nothing else does: the security level and the checks
  for hidden data and metadata never decide, and an adversarial pattern is never reported at all.
\<close>

theorem image_safe_iff:
  "(is_is_safe (iv_validate ops iv data level) \<longleftrightarrow>
      length data \<le> iv_max_file_size iv \<and>
      (case io_peek ops data of Some (w, h) \<Rightarrow> w \<le> iv_max_dimension iv \<and> h \<le> iv_max_dimension iv | None \<Rightarrow> True) \<and>
      \<not> isl (io_load ops data)) \<and>
   \<not> (io_fl ops = exact \<and>
      AdversarialPattern \<in> ti_threat_type ` set (is_threats_detected (iv_validate ops iv data level)))"
proof
  show "is_is_safe (iv_validate ops iv data level) \<longleftrightarrow>
      length data \<le> iv_max_file_size iv \<and>
      (case io_peek ops data of Some (w, h) \<Rightarrow> w \<le> iv_max_dimension iv \<and> h \<le> iv_max_dimension iv | None \<Rightarrow> True) \<and>
      \<not> isl (io_load ops data)"
    by (auto simp: iv_validate_def Let_def rejected_def size_harmless decoded_harmless not_less split: option.split sum.split)
next
  have "AdversarialPattern \<notin> ti_threat_type ` set (size_threats iv data)"
    by (auto simp: size_threats_def excessive_def)
  moreover have "AdversarialPattern \<notin> ti_threat_type ` set (decoded_threats ops iv data level img)"
    if "io_fl ops = exact" for img
    by (auto simp: decoded_threats_def adversarial_never [OF that] option_list_def excessive_def
        check_steganography_def check_metadata_def Let_def split: option.splits if_splits)
  ultimately show "\<not> (io_fl ops = exact \<and>
      AdversarialPattern \<in> ti_threat_type ` set (is_threats_detected (iv_validate ops iv data level)))"
    by (auto simp: iv_validate_def Let_def rejected_def excessive_def split: option.splits sum.splits if_splits)
qed

section \<open>Sanitising, what it changes\<close>

text \<open>The noise of a level moves a channel by at most \<open>255 i\<close> and the fraction lost in the cast.\<close>

lemma noisy_close:
  assumes "\<bar>r\<bar> \<le> i"
  shows "\<bar>real (unat (noisy exact r c)) - real (unat c)\<bar> \<le> 255 * i + 1"
proof -
  define n v where "n = unat c" and "v = real n + r * 255"
  define u where "u = min (max v 0) 255"
  have n: "real n \<le> 255" using byte_range [of c] unfolding n_def by blast
  have u: "0 \<le> u" "u \<le> 255" by (simp_all add: u_def)
  have fl: "real (nat \<lfloor>u\<rfloor>) \<le> u" "u < real (nat \<lfloor>u\<rfloor>) + 1" using u(1) by (simp_all add: floor_correct of_nat_nat)
  have "real (nat \<lfloor>u\<rfloor>) \<le> real 255" using u(2) fl(1) by linarith
  then have "nat \<lfloor>u\<rfloor> < 2 ^ 8" by (simp only: of_nat_le_iff) simp
  then have "unat (word_of_nat (nat \<lfloor>u\<rfloor>) :: u8) = nat \<lfloor>u\<rfloor>" by (simp add: unat_of_nat_small del: of_nat_nat)
  moreover have "noisy exact r c = word_of_nat (nat \<lfloor>u\<rfloor>)"
    unfolding noisy_def Let_def n_def [symmetric] u_def v_def by simp
  ultimately have nf: "unat (noisy exact r c) = nat \<lfloor>u\<rfloor>" by simp
  have "\<bar>u - real n\<bar> \<le> \<bar>r * 255\<bar>" using n unfolding u_def v_def by linarith
  also have "\<dots> \<le> 255 * i" using assms by (simp add: abs_mult)
  finally have "\<bar>u - real n\<bar> \<le> 255 * i" .
  then show ?thesis unfolding nf n_def [symmetric] using fl by linarith
qed

lemma add_noise_length [simp]: "length (fst (add_noise fl draw cs w)) = length cs"
  by (induction cs arbitrary: w) (simp_all add: split_beta Let_def)

text \<open>At the highest level a large image loses the noise again: what is resized is the original.\<close>

lemma large_image_keeps_alpha:
  assumes "2048 < io_width ops img"
  shows "fst (iv_sanitize ops img Maximum_Level w) = io_fit ops 2048 2048 img"
  using assms by (simp add: iv_sanitize_def Let_def split_beta)

text \<open>An image of one colour is reported for hidden data at every level, an even one never.\<close>

lemma plain_image_suspected:
  assumes "io_fl ops = exact" "io_rgb ops img \<noteq> []" "\<forall>p \<in> set (io_rgb ops img). even p"
  shows "\<exists>t. check_steganography ops img level = Some t \<and> ti_threat_type t = Steganography"
proof -
  have "filter odd (io_rgb ops img) = []" using assms(3) by (simp add: filter_empty_conv)
  then show ?thesis using assms(1,2)
    by (cases level) (simp_all add: check_steganography_def lsb_deviation_def)
qed

end
