(* ===== verification/Audio.thy ===== *)
theory Audio
  imports Floats Text
begin

text \<open>
  Audio decoding, resampling and WAV output (\<open>core/audio.rs\<close>). The WAV library is \<open>wav_lib\<close>, the
  decoder library \<open>codec_lib\<close>, the resampler \<open>resampler_lib\<close>: a chunk goes in as one list of samples
  per channel. A sample is a real, an integer sample an \<open>int\<close>; \<open>wl_show\<close> prints a float without
  decimals. The extension of a path is an argument.
\<close>

datatype audio_error = Audio_Error string | Audio_Panic

section \<open>Formats\<close>

datatype audio_format = Wav | Mp3 | Flac | Ogg

definition audio_format_of :: "string \<Rightarrow> audio_format option" where
  "audio_format_of s =
     (if s = ''wav'' then Some Wav else if s = ''mp3'' then Some Mp3 else if s = ''flac'' then Some Flac
      else if s = ''ogg'' then Some Ogg else None)"

definition audio_from_extension :: "string \<Rightarrow> audio_error + audio_format" where
  "audio_from_extension ext =
     (if ext = ''wav'' \<or> ext = ''WAV'' then Inr Wav
      else if ext = ''mp3'' \<or> ext = ''MP3'' then Inr Mp3
      else if ext = ''flac'' \<or> ext = ''FLAC'' then Inr Flac
      else if ext = ''ogg'' \<or> ext = ''OGG'' then Inr Ogg
      else case audio_format_of (to_ascii_lowercase ext) of
             Some f \<Rightarrow> Inr f
           | None \<Rightarrow> Inl (Audio_Error (''Unsupported audio format: '' @ ext)))"

definition audio_from_path :: "string option \<Rightarrow> audio_error + audio_format" where
  "audio_from_path extension =
     (case extension of
        None \<Rightarrow> Inl (Audio_Error ''Invalid file extension'')
      | Some ext \<Rightarrow> audio_from_extension ext)"

record audio_metadata =
  am_format :: audio_format
  am_sample_rate :: u32
  am_channels :: "16 word"
  am_duration_secs :: real
  am_bits_per_sample :: "16 word"

record audio_data =
  ad_samples :: "real list"
  ad_sample_rate :: u32
  ad_channels :: "16 word"

definition ad_duration_secs :: "rnd \<Rightarrow> audio_data \<Rightarrow> real" where
  "ad_duration_secs fl a =
     (if ad_sample_rate a = 0 \<or> ad_channels a = 0 then 0
      else fl (fl (fl (real (length (ad_samples a))) / real (unat (ad_channels a))) / fl (real (unat (ad_sample_rate a)))))"

record audio_processor =
  ap_default_sample_rate :: u32
  ap_max_duration_secs :: u32

definition ap_new :: audio_processor where
  "ap_new = \<lparr>ap_default_sample_rate = 16000, ap_max_duration_secs = 1800\<rparr>"

definition ap_with_sample_rate :: "u32 \<Rightarrow> audio_processor" where
  "ap_with_sample_rate r = \<lparr>ap_default_sample_rate = r, ap_max_duration_secs = 1800\<rparr>"

definition ap_with_max_duration_secs :: "u32 \<Rightarrow> audio_processor \<Rightarrow> audio_processor" where
  "ap_with_max_duration_secs m ap = ap\<lparr>ap_max_duration_secs := m\<rparr>"

section \<open>The libraries\<close>

datatype sample_format = Float_Samples | Int_Samples

record wav_spec =
  ws_channels :: "16 word"
  ws_sample_rate :: u32
  ws_bits_per_sample :: "16 word"
  ws_sample_format :: sample_format

text \<open>\<open>wl_open\<close> gives the header and the number of frames it declares.\<close>

record wav_lib =
  wl_open :: "u8 list \<Rightarrow> string + wav_spec \<times> u32"
  wl_floats :: "u8 list \<Rightarrow> string + real list"
  wl_ints :: "u8 list \<Rightarrow> string + int list"
  wl_write :: "wav_spec \<Rightarrow> int list \<Rightarrow> string + u8 list"
  wl_show :: "real \<Rightarrow> string"

record codec_params =
  cp_sample_rate :: "u32 option"
  cp_channels :: "nat option"
  cp_n_frames :: "u64 option"
  cp_bits_per_sample :: "u32 option"

text \<open>A packet: whether it is of the track, and what it decodes to.\<close>

record decoded_packet =
  dp_rate :: u32
  dp_channels :: nat
  dp_samples :: "real list"

record codec_lib =
  cl_probe :: "u8 list \<Rightarrow> audio_format \<Rightarrow> string + codec_params"
  cl_packets :: "u8 list \<Rightarrow> string + (bool \<times> decoded_packet option) list"

section \<open>Validation\<close>

definition validate_wav :: "rnd \<Rightarrow> wav_lib \<Rightarrow> audio_processor \<Rightarrow> u8 list \<Rightarrow> audio_error + audio_metadata" where
  "validate_wav fl W ap data =
     (case wl_open W data of
        Inl e \<Rightarrow> Inl (Audio_Error ''Failed to parse WAV file'')
      | Inr (spec, duration) \<Rightarrow>
          let frames = (ucast duration :: u64);
              max_frames = ucast (ws_sample_rate spec) * ucast (ap_max_duration_secs ap)
          in if max_frames < frames
             then Inl (Audio_Error (''audio too long: '' @ show_nat (unat frames) @ '' frames at '' @
               show_nat (unat (ws_sample_rate spec)) @ '' Hz (~'' @
               wl_show W (fl (real (unat frames) / real (unat (ws_sample_rate spec)))) @ ''s) exceeds the '' @
               show_nat (unat (ap_max_duration_secs ap)) @ '' s cap''))
             else Inr \<lparr>am_format = Wav, am_sample_rate = ws_sample_rate spec, am_channels = ws_channels spec,
               am_duration_secs = fl (fl (real (unat frames)) / fl (real (unat (ws_sample_rate spec)))),
               am_bits_per_sample = ws_bits_per_sample spec\<rparr>)"

definition probe_metadata :: "rnd \<Rightarrow> codec_lib \<Rightarrow> u8 list \<Rightarrow> audio_format \<Rightarrow> audio_error + audio_metadata" where
  "probe_metadata fl C data format =
     (case cl_probe C data format of
        Inl e \<Rightarrow> Inl (Audio_Error e)
      | Inr p \<Rightarrow>
          (case cp_sample_rate p of
             None \<Rightarrow> Inl (Audio_Error ''No sample rate in codec params'')
           | Some rate \<Rightarrow>
               let channels = (case cp_channels p of Some c \<Rightarrow> c | None \<Rightarrow> 1)
               in if 65536 \<le> channels then Inl (Audio_Error ''Channel count exceeds u16 range'')
                  else Inr \<lparr>am_format = format, am_sample_rate = rate, am_channels = word_of_nat channels,
                    am_duration_secs =
                      (case cp_n_frames p of
                         Some n \<Rightarrow> if 0 < rate then fl (fl (real (unat n)) / fl (real (unat rate))) else 0
                       | None \<Rightarrow> 0),
                    am_bits_per_sample = ucast (case cp_bits_per_sample p of Some b \<Rightarrow> b | None \<Rightarrow> (16 :: u32))\<rparr>))"

unbundle bit_operations_syntax

text \<open>The first bytes decide; the sync word of MP3 is eleven bits.\<close>

definition validate_audio ::
  "rnd \<Rightarrow> wav_lib \<Rightarrow> codec_lib \<Rightarrow> audio_processor \<Rightarrow> u8 list \<Rightarrow> audio_error + audio_metadata" where
  "validate_audio fl W C ap data =
     (if length data < 4 then Inl (Audio_Error ''Audio data too short'')
      else if take 4 data = [0x52, 0x49, 0x46, 0x46] then validate_wav fl W ap data
      else if take 3 data = [0x49, 0x44, 0x33] \<or> data ! 0 = 0xFF \<and> (data ! 1 AND 0xE0) = 0xE0
      then probe_metadata fl C data Mp3
      else if take 4 data = [0x66, 0x4C, 0x61, 0x43] then probe_metadata fl C data Flac
      else if take 4 data = [0x4F, 0x67, 0x67, 0x53] then probe_metadata fl C data Ogg
      else Inl (Audio_Error ''Unknown audio format''))"

section \<open>Loading\<close>

definition I32_MAX :: real where "I32_MAX = 2147483647"

definition load_wav :: "rnd \<Rightarrow> wav_lib \<Rightarrow> u8 list \<Rightarrow> audio_error + audio_data" where
  "load_wav fl W data =
     (case wl_open W data of
        Inl e \<Rightarrow> Inl (Audio_Error ''Failed to parse WAV file'')
      | Inr (spec, _) \<Rightarrow>
          (case (case ws_sample_format spec of
                   Float_Samples \<Rightarrow> wl_floats W data
                 | Int_Samples \<Rightarrow>
                     map_sum id (map (\<lambda>s. fl (fl (real_of_int s) / fl I32_MAX))) (wl_ints W data)) of
             Inl e \<Rightarrow> Inl (Audio_Error ''Failed to read samples'')
           | Inr samples \<Rightarrow> Inr \<lparr>ad_samples = samples, ad_sample_rate = ws_sample_rate spec,
               ad_channels = ws_channels spec\<rparr>))"

definition too_many_samples :: "rnd \<Rightarrow> wav_lib \<Rightarrow> audio_processor \<Rightarrow> nat \<Rightarrow> u32 \<Rightarrow> 16 word \<Rightarrow> string" where
  "too_many_samples fl W ap n rate channels =
     ''audio too long: decoded '' @ show_nat n @ '' samples (~'' @
     wl_show W (fl (fl (real n) / max (fl (real (unat rate) * real (unat channels))) 1)) @ ''s) exceeds the '' @
     show_nat (unat (ap_max_duration_secs ap)) @ '' s cap''"

text \<open>Packets of other tracks are skipped; a packet that does not decode ends the loop.\<close>

fun decode_packets ::
  "rnd \<Rightarrow> wav_lib \<Rightarrow> audio_processor \<Rightarrow> (bool \<times> decoded_packet option) list \<Rightarrow> audio_data \<Rightarrow> audio_error + audio_data"
where
  "decode_packets fl W ap [] a = Inr a"
| "decode_packets fl W ap ((of_track, packet) # ps) a =
     (if \<not> of_track then decode_packets fl W ap ps a
      else case packet of
        None \<Rightarrow> Inr a
      | Some d \<Rightarrow>
          let channels = (word_of_nat (dp_channels d) :: 16 word);
              max_samples = (ucast (dp_rate d) * ucast channels * ucast (ap_max_duration_secs ap) :: u64);
              samples = ad_samples a @ dp_samples d
          in if max_samples < word_of_nat (length samples)
             then Inl (Audio_Error (too_many_samples fl W ap (length samples) (dp_rate d) channels))
             else decode_packets fl W ap ps
                    \<lparr>ad_samples = samples, ad_sample_rate = dp_rate d, ad_channels = channels\<rparr>)"

definition load_with_symphonia ::
  "rnd \<Rightarrow> wav_lib \<Rightarrow> codec_lib \<Rightarrow> audio_processor \<Rightarrow> u8 list \<Rightarrow> audio_error + audio_data" where
  "load_with_symphonia fl W C ap data =
     (case cl_packets C data of
        Inl e \<Rightarrow> Inl (Audio_Error e)
      | Inr packets \<Rightarrow> decode_packets fl W ap packets \<lparr>ad_samples = [], ad_sample_rate = 44100, ad_channels = 2\<rparr>)"

definition load_audio ::
  "rnd \<Rightarrow> wav_lib \<Rightarrow> codec_lib \<Rightarrow> audio_processor \<Rightarrow> u8 list \<Rightarrow> audio_error + audio_data" where
  "load_audio fl W C ap data =
     bindR (validate_audio fl W C ap data)
       (\<lambda>m. if am_format m = Wav then load_wav fl W data else load_with_symphonia fl W C ap data)"

section \<open>Saving\<close>

text \<open>\<open>as i16\<close>: the fraction is dropped and the range saturated.\<close>

definition to_i16 :: "real \<Rightarrow> int" where
  "to_i16 v = (let n = (if 0 \<le> v then \<lfloor>v\<rfloor> else \<lceil>v\<rceil>) in max (- 32768) (min 32767 n))"

definition pcm16 :: "rnd \<Rightarrow> real \<Rightarrow> int" where
  "pcm16 fl s = to_i16 (fl (max (- 1) (min s 1) * 32767))"

definition save_wav :: "rnd \<Rightarrow> wav_lib \<Rightarrow> audio_data \<Rightarrow> audio_error + u8 list" where
  "save_wav fl W a =
     map_sum Audio_Error id
       (wl_write W \<lparr>ws_channels = ad_channels a, ws_sample_rate = ad_sample_rate a, ws_bits_per_sample = 16,
          ws_sample_format = Int_Samples\<rparr> (map (pcm16 fl) (ad_samples a)))"

section \<open>The pool of resamplers\<close>

type_synonym pool_key = "u32 \<times> u32 \<times> nat"

record 's resampler_pool =
  rp_inner :: "pool_key \<Rightarrow> 's list"
  rp_max_per_key :: nat

definition rp_new :: "nat \<Rightarrow> 's resampler_pool" where
  "rp_new n = \<lparr>rp_inner = (\<lambda>_. []), rp_max_per_key = n\<rparr>"

text \<open>The list is a stack, its last element first.\<close>

definition rp_acquire :: "pool_key \<Rightarrow> 's resampler_pool \<Rightarrow> 's option \<times> 's resampler_pool" where
  "rp_acquire k p =
     (case rp_inner p k of
        [] \<Rightarrow> (None, p)
      | r # rs \<Rightarrow> (Some r, p\<lparr>rp_inner := (rp_inner p)(k := rs)\<rparr>))"

definition rp_release :: "pool_key \<Rightarrow> 's \<Rightarrow> 's resampler_pool \<Rightarrow> 's resampler_pool" where
  "rp_release k r p =
     (if length (rp_inner p k) < rp_max_per_key p
      then p\<lparr>rp_inner := (rp_inner p)(k := r # rp_inner p k)\<rparr> else p)"

section \<open>Resampling\<close>

record 's resampler_lib =
  rl_new :: "nat \<Rightarrow> nat \<Rightarrow> nat \<Rightarrow> nat \<Rightarrow> string + 's"
  rl_next :: "'s \<Rightarrow> nat"
  rl_process :: "real list list \<Rightarrow> 's \<Rightarrow> (string + real list list) \<times> 's"
  rl_partial :: "real list list option \<Rightarrow> 's \<Rightarrow> (string + real list list) \<times> 's"
  rl_reset :: "'s \<Rightarrow> 's"

definition deinterleave :: "nat \<Rightarrow> real list \<Rightarrow> real list list" where
  "deinterleave channels samples =
     map (\<lambda>c. map (\<lambda>f. samples ! (f * channels + c)) [0 ..< length samples div channels]) [0 ..< channels]"

text \<open>A channel that the resampler left out is as before; it never gives more channels than it was made for.\<close>

fun append_channels :: "real list list \<Rightarrow> real list list \<Rightarrow> real list list" where
  "append_channels [] out = []"
| "append_channels (a # as) [] = a # as"
| "append_channels (a # as) (b # bs) = (a @ b) # append_channels as bs"

text \<open>
  The full chunks. The outer option is a loop that does not end, which a resampler that asks for no
  frame would cause.
\<close>

function full_chunks ::
  "'s resampler_lib \<Rightarrow> real list list \<Rightarrow> nat \<Rightarrow> nat \<Rightarrow> nat \<Rightarrow> real list list \<Rightarrow> 's \<Rightarrow>
   ((string + nat \<times> real list list) \<times> 's) option" where
  "full_chunks R bufs frames chunk pos acc s =
     (if pos + chunk \<le> frames
      then if chunk = 0 then None
           else case rl_process R (map (\<lambda>ch. take chunk (drop pos ch)) bufs) s of
             (Inl e, s) \<Rightarrow> Some (Inl ''Resampler error during full-chunk processing'', s)
           | (Inr out, s) \<Rightarrow> full_chunks R bufs frames chunk (pos + chunk) (append_channels acc out) s
      else Some (Inr (pos, acc), s))"
  by pat_completeness auto
termination
  by (relation "measure (\<lambda>(R, bufs, frames, chunk, pos, acc, s). Suc frames - pos)") auto

declare full_chunks.simps [simp del]

definition interleave :: "nat \<Rightarrow> real list list \<Rightarrow> audio_error + real list" where
  "interleave channels chans =
     (if chans = [] then Inl Audio_Panic
      else if \<exists>ch \<in> set (take channels chans). length ch < length (hd chans) then Inl Audio_Panic
      else Inr (concat (map (\<lambda>f. map (\<lambda>ch. ch ! f) (take channels chans)) [0 ..< length (hd chans)])))"

definition flush ::
  "'s resampler_lib \<Rightarrow> real list list \<Rightarrow> nat \<Rightarrow> nat \<Rightarrow> real list list \<Rightarrow> 's \<Rightarrow> (string + real list list) \<times> 's" where
  "flush R bufs frames pos acc s =
     (if pos < frames
      then case rl_partial R (Some (map (drop pos) bufs)) s of
             (Inl e, s) \<Rightarrow> (Inl ''Resampler error during partial-chunk flush'', s)
           | (Inr out, s) \<Rightarrow> (Inr (append_channels acc out), s)
      else case rl_partial R None s of
             (Inl e, s) \<Rightarrow> (Inr acc, s)
           | (Inr out, s) \<Rightarrow> (Inr (append_channels acc out), s))"

text \<open>A resampler from the pool or a new one, the chunks, the flush, and back to the pool when all went well.\<close>

definition resample_with ::
  "'s resampler_lib \<Rightarrow> audio_data \<Rightarrow> u32 \<Rightarrow> 's \<Rightarrow> ((audio_error + real list) \<times> 's) option" where
  "resample_with R a target s =
     (let channels = unat (ad_channels a);
          frames = length (ad_samples a) div channels;
          bufs = deinterleave channels (ad_samples a)
      in case full_chunks R bufs frames (rl_next R s) 0 (replicate channels []) s of
           None \<Rightarrow> None
         | Some (Inl e, s) \<Rightarrow> Some (Inl (Audio_Error e), s)
         | Some (Inr (pos, acc), s) \<Rightarrow>
             (case flush R bufs frames pos acc s of
                (Inl e, s) \<Rightarrow> Some (Inl (Audio_Error e), s)
              | (Inr acc, s) \<Rightarrow> Some (interleave channels acc, s)))"

definition take_resampler ::
  "'s resampler_lib \<Rightarrow> audio_data \<Rightarrow> u32 \<Rightarrow> 's resampler_pool \<Rightarrow> (string + 's) \<times> 's resampler_pool" where
  "take_resampler R a target pool =
     (case rp_acquire (ad_sample_rate a, target, unat (ad_channels a)) pool of
        (Some s, pool) \<Rightarrow> (Inr s, pool)
      | (None, pool) \<Rightarrow>
          (rl_new R (unat (ad_sample_rate a)) (unat target) 1024 (unat (ad_channels a)), pool))"

definition resample ::
  "'s resampler_lib \<Rightarrow> audio_data \<Rightarrow> u32 \<Rightarrow> 's resampler_pool \<Rightarrow>
   ((audio_error + audio_data) \<times> 's resampler_pool) option" where
  "resample R a target pool =
     (if ad_sample_rate a = target then Some (Inr a, pool)
      else if ad_channels a = 0 then Some (Inl (Audio_Error ''channels must be >= 1''), pool)
      else if length (ad_samples a) mod unat (ad_channels a) \<noteq> 0
      then Some (Inl (Audio_Error (''interleaved sample count '' @ show_nat (length (ad_samples a)) @
             '' is not divisible by channels '' @ show_nat (unat (ad_channels a)))), pool)
      else case take_resampler R a target pool of
             (Inl e, pool) \<Rightarrow> Some (Inl (Audio_Error ''Failed to create FFT resampler''), pool)
           | (Inr s, pool) \<Rightarrow>
               (case resample_with R a target s of
                  None \<Rightarrow> None
                | Some (Inl e, s) \<Rightarrow> Some (Inl e, pool)
                | Some (Inr out, s) \<Rightarrow>
                    Some (Inr \<lparr>ad_samples = out, ad_sample_rate = target, ad_channels = ad_channels a\<rparr>,
                      rp_release (ad_sample_rate a, target, unat (ad_channels a)) (rl_reset R s) pool)))"

section \<open>Saving and loading\<close>

text \<open>What the WAV library documents: a file it wrote reads back as what was written.\<close>

definition RIFF :: "u8 list" where "RIFF = [0x52, 0x49, 0x46, 0x46]"

definition wav_roundtrip :: "wav_lib \<Rightarrow> bool" where
  "wav_roundtrip W \<longleftrightarrow>
     (\<forall>spec xs bytes. wl_write W spec xs = Inr bytes \<longrightarrow>
        take 4 bytes = RIFF \<and> (\<exists>n. wl_open W bytes = Inr (spec, n)) \<and>
        (ws_sample_format spec = Int_Samples \<longrightarrow> wl_ints W bytes = Inr xs))"

lemma pcm16_range: "\<bar>pcm16 exact s\<bar> \<le> 32767"
proof -
  define v where "v = max (- 1) (min s 1) * 32767"
  have v: "- 32767 \<le> v" "v \<le> 32767" by (auto simp: v_def max_def min_def)
  have "- 32767 \<le> (if 0 \<le> v then \<lfloor>v\<rfloor> else \<lceil>v\<rceil>) \<and> (if 0 \<le> v then \<lfloor>v\<rfloor> else \<lceil>v\<rceil>) \<le> 32767"
    using v by (auto simp: le_floor_iff ceiling_le_iff less_ceiling_iff floor_le_iff not_le le_ceiling_iff)
  then have "\<bar>to_i16 v\<bar> \<le> 32767" unfolding to_i16_def Let_def by linarith
  then show ?thesis unfolding pcm16_def v_def by simp
qed

text \<open>
  Audio that is saved and loaded again is all but silent: the 16-bit samples of the file are
  divided by the greatest 32-bit integer, so that rate, channels and length come back, but every
  sample is its 16-bit value over 2147483647, less than 1/65000 in size.
\<close>

theorem save_load_attenuates:
  assumes "wav_roundtrip W" "save_wav exact W a = Inr bytes" "load_audio exact W C ap bytes = Inr a'"
  shows "ad_sample_rate a' = ad_sample_rate a \<and> ad_channels a' = ad_channels a \<and>
    ad_samples a' = map (\<lambda>s. real_of_int (pcm16 exact s) / 2147483647) (ad_samples a) \<and>
    \<not> (\<exists>x \<in> set (ad_samples a'). 1 / 65000 \<le> \<bar>x\<bar>)"
proof -
  define spec where "spec = \<lparr>ws_channels = ad_channels a, ws_sample_rate = ad_sample_rate a,
    ws_bits_per_sample = 16, ws_sample_format = Int_Samples\<rparr>"
  have "wl_write W spec (map (pcm16 exact) (ad_samples a)) = Inr bytes"
    using assms(2) by (auto simp: save_wav_def spec_def map_sum_def split: sum.splits)
  then obtain n where saved: "take 4 bytes = RIFF" "wl_open W bytes = Inr (spec, n)"
      "wl_ints W bytes = Inr (map (pcm16 exact) (ad_samples a))"
    using assms(1) unfolding wav_roundtrip_def by (fastforce simp: spec_def)
  have "validate_audio exact W C ap bytes = validate_wav exact W ap bytes"
  proof -
    have "length (take 4 bytes) = 4" unfolding saved(1) by (simp add: RIFF_def)
    then have "\<not> length bytes < 4" by simp
    then show ?thesis using saved(1) by (simp add: validate_audio_def RIFF_def)
  qed
  then have "load_wav exact W bytes = Inr a'"
    using assms(3) by (auto simp: load_audio_def bindR_Inr_iff validate_wav_def Let_def split: sum.splits prod.splits if_splits)
  then have a': "a' = \<lparr>ad_samples = map (\<lambda>s. real_of_int (pcm16 exact s) / 2147483647) (ad_samples a),
      ad_sample_rate = ad_sample_rate a, ad_channels = ad_channels a\<rparr>"
    by (simp add: load_wav_def saved spec_def I32_MAX_def comp_def)
  have "\<bar>real_of_int (pcm16 exact s) / 2147483647\<bar> < 1 / 65000" for s
  proof -
    have "\<bar>real_of_int (pcm16 exact s)\<bar> \<le> 32767" using pcm16_range [of s] by linarith
    then show ?thesis by (simp add: field_simps)
  qed
  then show ?thesis unfolding a' by (auto simp: not_le)
qed

section \<open>The cap on the duration\<close>

definition honest_header :: "wav_lib \<Rightarrow> bool" where
  "honest_header W \<longleftrightarrow>
     (\<forall>data spec n. wl_open W data = Inr (spec, n) \<longrightarrow>
        (\<forall>xs. wl_ints W data = Inr xs \<longrightarrow> length xs = unat n * unat (ws_channels spec)) \<and>
        (\<forall>xs. wl_floats W data = Inr xs \<longrightarrow> length xs = unat n * unat (ws_channels spec)))"

definition within_cap :: "audio_processor \<Rightarrow> audio_data \<Rightarrow> bool" where
  "within_cap ap a \<longleftrightarrow>
     length (ad_samples a) \<le>
       unat (ad_sample_rate a) * unat (ad_channels a) * unat (ap_max_duration_secs ap)"

lemma unat_mult_le: "unat (x * y :: 'a::len word) \<le> unat x * unat y"
  by (simp add: unat_word_ariths)

lemma unat_mult3_le: "unat (x * y * z :: 'a::len word) \<le> unat x * unat y * unat z"
  using unat_mult_le [of "x * y" z] unat_mult_le [of x y] by (meson le_trans mult_le_mono1)

lemma unat_ucast_up:
  assumes "LENGTH('a) \<le> LENGTH('b)"
  shows "unat (ucast (x :: 'a::len word) :: 'b::len word) = unat x"
proof -
  have "unat x < 2 ^ LENGTH('a)" by (rule unsigned_less)
  also have "\<dots> \<le> (2 :: nat) ^ LENGTH('b)" using assms by (simp add: power_increasing)
  finally show ?thesis by (simp add: unsigned_ucast_eq take_bit_nat_eq_self_iff)
qed

lemma decode_packets_cap:
  assumes "within_cap ap a" "decode_packets fl W ap ps a = Inr a'"
    and "length (ad_samples a) + sum_list (map (\<lambda>p. case snd p of Some d \<Rightarrow> length (dp_samples d) | None \<Rightarrow> 0) ps) < 2 ^ 64"
  shows "within_cap ap a'"
  using assms
proof (induction ps arbitrary: a)
  case (Cons p ps)
  obtain t d where p: "p = (t, d)" by fastforce
  show ?case
  proof (cases "t \<and> d \<noteq> None")
    case True
    then obtain pk where d: "d = Some pk" by blast
    define channels where "channels = (word_of_nat (dp_channels pk) :: 16 word)"
    define cap where "cap = (ucast (dp_rate pk) * ucast channels * ucast (ap_max_duration_secs ap) :: u64)"
    define samples where "samples = ad_samples a @ dp_samples pk"
    have short: "length samples < 2 ^ 64" using Cons.prems(3) by (simp add: p d samples_def)
    have le: "\<not> cap < word_of_nat (length samples)"
      and rest: "decode_packets fl W ap ps \<lparr>ad_samples = samples, ad_sample_rate = dp_rate pk, ad_channels = channels\<rparr> = Inr a'"
      using Cons.prems(2) True
      by (auto simp: p d Let_def cap_def channels_def samples_def split: if_splits)
    have "length samples \<le> unat cap" using le short by (simp add: word_less_nat_alt unat_of_nat_small)
    also have "\<dots> \<le> unat (dp_rate pk) * unat channels * unat (ap_max_duration_secs ap)"
      unfolding cap_def using unat_mult3_le [of "ucast (dp_rate pk) :: u64" "ucast channels" "ucast (ap_max_duration_secs ap)"]
      by (simp add: unat_ucast_up)
    finally have "within_cap ap \<lparr>ad_samples = samples, ad_sample_rate = dp_rate pk, ad_channels = channels\<rparr>"
      by (simp add: within_cap_def)
    moreover have "length samples + sum_list (map (\<lambda>p. case snd p of Some d \<Rightarrow> length (dp_samples d) | None \<Rightarrow> 0) ps) < 2 ^ 64"
      using Cons.prems(3) by (simp add: p d samples_def)
    ultimately show ?thesis using Cons.IH rest by simp
  next
    case False
    then show ?thesis using Cons by (cases t) (auto simp: p split: option.splits)
  qed
qed simp

text \<open>
  Whatever is loaded lasts at most the configured seconds at its own rate and channels: a WAV file
  by its header, every other format by the samples decoded, even when the rate changes between packets.
\<close>

theorem loaded_audio_within_cap:
  assumes "honest_header W" "load_audio fl W C ap data = Inr a"
    and "\<And>ps. cl_packets C data = Inr ps \<Longrightarrow>
      sum_list (map (\<lambda>p. case snd p of Some d \<Rightarrow> length (dp_samples d) | None \<Rightarrow> 0) ps) < 2 ^ 64"
  shows "within_cap ap a"
proof -
  obtain m where m: "validate_audio fl W C ap data = Inr m"
      "(if am_format m = Wav then load_wav fl W data else load_with_symphonia fl W C ap data) = Inr a"
    using assms(2) by (auto simp: load_audio_def bindR_Inr_iff)
  show ?thesis
  proof (cases "am_format m = Wav")
    case True
    have "validate_wav fl W ap data = Inr m"
      using m(1) True by (auto simp: validate_audio_def probe_metadata_def Let_def split: if_splits sum.splits option.splits)
    then obtain spec n where spec: "wl_open W data = Inr (spec, n)"
        "\<not> ucast (ws_sample_rate spec) * ucast (ap_max_duration_secs ap) < (ucast n :: u64)"
      by (auto simp: validate_wav_def Let_def split: sum.splits prod.splits if_splits)
    have frames: "unat n \<le> unat (ws_sample_rate spec) * unat (ap_max_duration_secs ap)"
      using spec(2) unat_mult_le [of "ucast (ws_sample_rate spec) :: u64" "ucast (ap_max_duration_secs ap)"]
      by (simp add: word_less_nat_alt unat_ucast_up)
    have a: "ad_sample_rate a = ws_sample_rate spec" "ad_channels a = ws_channels spec"
        "length (ad_samples a) = unat n * unat (ws_channels spec)"
      using m(2) True spec(1) assms(1)
      by (auto simp: load_wav_def honest_header_def map_sum_def split: sum.splits sample_format.splits)
    show ?thesis
      using mult_le_mono1 [OF frames, of "unat (ws_channels spec)"] by (simp add: within_cap_def a mult_ac)
  next
    case False
    then obtain ps where ps: "cl_packets C data = Inr ps"
        "decode_packets fl W ap ps \<lparr>ad_samples = [], ad_sample_rate = 44100, ad_channels = 2\<rparr> = Inr a"
      using m(2) by (auto simp: load_with_symphonia_def split: sum.splits)
    show ?thesis
      by (rule decode_packets_cap [OF _ ps(2)]) (use assms(3) [OF ps(1)] in \<open>simp_all add: within_cap_def\<close>)
  qed
qed

section \<open>Resampling loses nothing\<close>

lemma map_nth_slice: "k + m \<le> length xs \<Longrightarrow> map (\<lambda>c. xs ! (k + c)) [0 ..< m] = take m (drop k xs)"
  by (rule nth_equalityI) simp_all

lemma frames_concat:
  "n * m \<le> length xs \<Longrightarrow> concat (map (\<lambda>f. map (\<lambda>c. xs ! (f * m + c)) [0 ..< m]) [0 ..< n]) = take (n * m) xs"
proof (induction n)
  case (Suc n)
  then have "map (\<lambda>c. xs ! (n * m + c)) [0 ..< m] = take m (drop (n * m) xs)" by (intro map_nth_slice) simp
  with Suc show ?case by (simp add: take_add [symmetric] add.commute)
qed simp

lemma interleave_deinterleave:
  assumes "0 < m" "length xs mod m = 0"
  shows "interleave m (deinterleave m xs) = Inr xs"
proof -
  define n where "n = length xs div m"
  have len: "n * m = length xs" using assms by (simp add: n_def mult.commute minus_mod_eq_mult_div [symmetric])
  have hd: "length (hd (deinterleave m xs)) = n" "deinterleave m xs \<noteq> []"
    using assms(1) by (simp_all add: deinterleave_def hd_map n_def)
  have "map (\<lambda>ch. ch ! f) (deinterleave m xs) = map (\<lambda>c. xs ! (f * m + c)) [0 ..< m]" if "f < n" for f
    using that by (simp add: deinterleave_def comp_def n_def)
  then have eq: "map (\<lambda>f. map (\<lambda>ch. ch ! f) (deinterleave m xs)) [0 ..< n] =
      map (\<lambda>f. map (\<lambda>c. xs ! (f * m + c)) [0 ..< m]) [0 ..< n]" by (intro map_cong) simp_all
  have "concat (map (\<lambda>f. map (\<lambda>ch. ch ! f) (deinterleave m xs)) [0 ..< n]) = xs"
    unfolding eq using frames_concat [of n m xs] len by simp
  moreover have "length (deinterleave m xs) = m" "\<forall>ch \<in> set (deinterleave m xs). length ch = n"
    by (auto simp: deinterleave_def n_def)
  ultimately show ?thesis using hd by (simp add: interleave_def)
qed

text \<open>A resampler that copies, whatever chunk it asks for.\<close>

definition copies :: "'s resampler_lib \<Rightarrow> bool" where
  "copies R \<longleftrightarrow> (\<forall>s. 0 < rl_next R s) \<and> (\<forall>bs s. fst (rl_process R bs s) = Inr bs) \<and>
     (\<forall>bs s. fst (rl_partial R (Some bs) s) = Inr bs) \<and> (\<forall>s. fst (rl_partial R None s) = Inr [])"

lemma append_channels_takes:
  "append_channels (map (take k) bufs) (map (\<lambda>ch. take m (drop k ch)) bufs) = map (take (k + m)) bufs"
  by (induction bufs) (simp_all add: take_add)

lemma append_channels_drops: "append_channels (map (take k) bufs) (map (drop k) bufs) = bufs"
  by (induction bufs) simp_all

lemma append_channels_Nil [simp]: "append_channels acc [] = acc"
  by (cases acc) simp_all

lemma full_chunks_copy:
  assumes "copies R" "0 < chunk" "pos \<le> frames"
  shows "\<exists>pos' s'. full_chunks R bufs frames chunk pos (map (take pos) bufs) s = Some (Inr (pos', map (take pos') bufs), s') \<and>
    pos' \<le> frames"
  using assms
proof (induction R bufs frames chunk pos "map (take pos) bufs" s rule: full_chunks.induct)
  case (1 R bufs frames chunk pos s)
  show ?case
  proof (cases "pos + chunk \<le> frames")
    case True
    obtain s' where r: "rl_process R (map (\<lambda>ch. take chunk (drop pos ch)) bufs) s =
        (Inr (map (\<lambda>ch. take chunk (drop pos ch)) bufs), s')"
      using 1(2) by (metis copies_def prod.collapse)
    with 1 True show ?thesis
      by (subst full_chunks.simps) (simp add: append_channels_takes)
  next
    case False
    with 1 show ?thesis by (subst full_chunks.simps) auto
  qed
qed

lemma resample_with_copy:
  assumes "copies R" "ad_channels a \<noteq> 0" "length (ad_samples a) mod unat (ad_channels a) = 0"
  shows "\<exists>s'. resample_with R a target s = Some (Inr (ad_samples a), s')"
proof -
  define m bufs frames where "m = unat (ad_channels a)" and "bufs = deinterleave m (ad_samples a)"
    and "frames = length (ad_samples a) div m"
  have m: "0 < m" using assms(2) by (simp add: m_def unat_gt_0)
  have bufs: "\<forall>ch \<in> set bufs. length ch = frames" "map (take 0) bufs = replicate m []"
    by (auto simp: bufs_def frames_def deinterleave_def map_replicate_const)
  obtain pos s1 where loop: "full_chunks R bufs frames (rl_next R s) 0 (replicate m []) s =
      Some (Inr (pos, map (take pos) bufs), s1)" "pos \<le> frames"
    using full_chunks_copy [OF assms(1), of "rl_next R s" 0 frames bufs s] assms(1) bufs(2)
    by (auto simp: copies_def)
  have "\<exists>s'. flush R bufs frames pos (map (take pos) bufs) s1 = (Inr bufs, s')"
  proof (cases "pos < frames")
    case True
    obtain s' where "rl_partial R (Some (map (drop pos) bufs)) s1 = (Inr (map (drop pos) bufs), s')"
      using assms(1) by (metis copies_def prod.collapse)
    then show ?thesis using True by (simp add: flush_def append_channels_drops)
  next
    case False
    then have "map (take pos) bufs = bufs" using bufs(1) loop(2) by (simp add: map_idI)
    moreover obtain s' where "rl_partial R None s1 = (Inr [], s')"
      using assms(1) by (metis copies_def prod.collapse)
    ultimately show ?thesis using False by (simp add: flush_def)
  qed
  then show ?thesis
    using loop(1) interleave_deinterleave [OF m, of "ad_samples a"] assms(3)
    by (auto simp: resample_with_def Let_def m_def [symmetric] bufs_def [symmetric] frames_def [symmetric])
qed

text \<open>
  Splitting into channels, cutting into chunks of whatever size the resampler asks for, flushing and
  interleaving again lose, repeat and reorder no sample: with a resampler that copies, the audio comes
  back at the new rate, and the pool holds at most its maximum more.
\<close>

theorem resample_copies:
  assumes "copies R" "ad_channels a \<noteq> 0" "length (ad_samples a) mod unat (ad_channels a) = 0"
    and "\<And>i j n m. \<exists>s. rl_new R i j n m = Inr s"
  shows "\<exists>pool'. resample R a target pool = Some (Inr (a\<lparr>ad_sample_rate := target\<rparr>), pool') \<and>
    \<not> (\<exists>k. max (length (rp_inner pool k)) (rp_max_per_key pool) < length (rp_inner pool' k))"
proof -
  obtain s pool1 where t: "take_resampler R a target pool = (Inr s, pool1)"
      "\<not> (\<exists>k. max (length (rp_inner pool k)) (rp_max_per_key pool) < length (rp_inner pool1 k))"
      "rp_max_per_key pool1 = rp_max_per_key pool"
  proof (cases "rp_inner pool (ad_sample_rate a, target, unat (ad_channels a))")
    case Nil
    then show ?thesis using that assms(4) by (fastforce simp: take_resampler_def rp_acquire_def)
  next
    case (Cons r rs)
    then show ?thesis
      by (intro that [of r "pool\<lparr>rp_inner := (rp_inner pool)((ad_sample_rate a, target, unat (ad_channels a)) := rs)\<rparr>"])
        (auto simp: take_resampler_def rp_acquire_def)
  qed
  obtain s' where r: "resample_with R a target s = Some (Inr (ad_samples a), s')"
    using resample_with_copy [OF assms(1,2,3)] by blast
  show ?thesis
    using t r assms(2,3) by (cases a) (auto simp: resample_def rp_release_def)
qed

definition copy_lib :: "unit resampler_lib" where
  "copy_lib = \<lparr>rl_new = \<lambda>_ _ _ _. Inr (), rl_next = \<lambda>_. 2, rl_process = \<lambda>bs s. (Inr bs, s),
     rl_partial = \<lambda>bs s. (Inr (case bs of Some x \<Rightarrow> x | None \<Rightarrow> []), s), rl_reset = id\<rparr>"

definition stereo :: audio_data where
  "stereo = \<lparr>ad_samples = [1, - 1, 1 / 2, 0, 0, 1 / 4], ad_sample_rate = 8000, ad_channels = 2\<rparr>"

lemma resample_copies_witness:
  "\<exists>pool'. resample copy_lib stereo 16000 (rp_new 8) = Some (Inr (stereo\<lparr>ad_sample_rate := 16000\<rparr>), pool')"
  using resample_copies [of copy_lib stereo 16000 "rp_new 8"]
  by (auto simp: copies_def copy_lib_def stereo_def)

text \<open>A WAV library that reads every file as one silent frame.\<close>

definition toy_wav :: wav_lib where
  "toy_wav = \<lparr>wl_open = \<lambda>data. if take 4 data = RIFF then Inr (\<lparr>ws_channels = 2, ws_sample_rate = 8000,
       ws_bits_per_sample = 16, ws_sample_format = Int_Samples\<rparr>, 1) else Inl ''riff'',
     wl_floats = \<lambda>_. Inl ''ints'',
     wl_ints = \<lambda>data. Inr [0, 0],
     wl_write = \<lambda>spec xs. Inl ''full'', wl_show = \<lambda>_. []\<rparr>"

definition silent_codec :: codec_lib where
  "silent_codec = \<lparr>cl_probe = \<lambda>_ _. Inl ''probe'', cl_packets = \<lambda>_. Inl ''probe''\<rparr>"

lemma loaded_audio_within_cap_witness:
  "\<exists>a. load_audio exact toy_wav silent_codec ap_new (RIFF @ [0, 0, 0, 0]) = Inr a \<and> within_cap ap_new a"
proof -
  define a :: audio_data where "a = \<lparr>ad_samples = [0, 0], ad_sample_rate = 8000, ad_channels = 2\<rparr>"
  have "load_audio exact toy_wav silent_codec ap_new (RIFF @ [0, 0, 0, 0]) = Inr a"
    by (simp add: load_audio_def validate_audio_def validate_wav_def load_wav_def toy_wav_def RIFF_def ap_new_def
        a_def I32_MAX_def)
  moreover have "honest_header toy_wav" by (auto simp: honest_header_def toy_wav_def split: if_splits)
  moreover have "cl_packets silent_codec d \<noteq> Inr ps" for d ps by (simp add: silent_codec_def)
  ultimately show ?thesis using loaded_audio_within_cap by blast
qed

text \<open>A WAV library that knows one file.\<close>

definition one_spec :: wav_spec where
  "one_spec = \<lparr>ws_channels = 2, ws_sample_rate = 8000, ws_bits_per_sample = 16, ws_sample_format = Int_Samples\<rparr>"

definition one_wav :: wav_lib where
  "one_wav = \<lparr>wl_open = \<lambda>data. if data = RIFF then Inr (one_spec, 1) else Inl ''riff'',
     wl_floats = \<lambda>_. Inl ''ints'', wl_ints = \<lambda>_. Inr [32767, - 16383],
     wl_write = \<lambda>spec xs. if spec = one_spec \<and> xs = [32767, - 16383] then Inr RIFF else Inl ''full'',
     wl_show = \<lambda>_. []\<rparr>"

lemma save_load_attenuates_witness:
  "\<exists>a'. load_audio exact one_wav silent_codec ap_new RIFF = Inr a' \<and>
     ad_samples a' = [32767 / 2147483647, - 16383 / 2147483647]"
proof -
  define a :: audio_data where "a = \<lparr>ad_samples = [1, - 1 / 2], ad_sample_rate = 8000, ad_channels = 2\<rparr>"
  have pcm: "pcm16 exact 1 = 32767" "pcm16 exact (- 1 / 2) = - 16383"
    by (simp_all add: pcm16_def to_i16_def ceiling_eq_iff)
  have "save_wav exact one_wav a = Inr RIFF"
    by (simp add: save_wav_def a_def one_wav_def one_spec_def pcm [simplified])
  moreover have "wav_roundtrip one_wav" by (auto simp: wav_roundtrip_def one_wav_def RIFF_def split: if_splits)
  moreover have "\<exists>a'. load_audio exact one_wav silent_codec ap_new RIFF = Inr a'"
    by (simp add: load_audio_def validate_audio_def validate_wav_def load_wav_def one_wav_def one_spec_def RIFF_def ap_new_def)
  ultimately obtain a' where "load_audio exact one_wav silent_codec ap_new RIFF = Inr a'"
      "ad_samples a' = map (\<lambda>s. real_of_int (pcm16 exact s) / 2147483647) (ad_samples a)"
    using save_load_attenuates by blast
  then show ?thesis by (simp add: a_def pcm pcm [simplified])
qed

end
