(* ===== verification/TtsPipeline.thy ===== *)
theory TtsPipeline
  imports Audio
begin

text \<open>
  Sentence splitting and the streaming pipeline (\<open>core/tts_pipeline.rs\<close>). A text is the list of its
  characters, each the list of its UTF-8 bytes; positions count characters, and the limit of the
  splitter bytes, as in the code. \<open>None\<close> is the panic of a slice whose end is before its start.
\<close>

definition utrim :: "uchar list \<Rightarrow> uchar list" where
  "utrim s = rev (dropWhile is_white (rev (dropWhile is_white s)))"

definition slice :: "nat \<Rightarrow> nat \<Rightarrow> 'a list \<Rightarrow> 'a list" where
  "slice i j xs = take (j - i) (drop i xs)"

definition bytes_in :: "uchar list \<Rightarrow> nat" where
  "bytes_in s = length (concat s)"

definition ellipsis :: uchar where
  "ellipsis = utf8 [226, 128, 166]"

definition is_boundary :: "uchar \<Rightarrow> bool" where
  "is_boundary c \<longleftrightarrow> c \<in> {''.'', ''!'', ''?'', ellipsis} \<or> c \<in> {'';'', '':''}"

definition newline :: uchar where "newline = utf8 [10]"

definition push_sentence :: "uchar list \<Rightarrow> uchar list list \<Rightarrow> uchar list list" where
  "push_sentence s acc = (if utrim s = [] then acc else acc @ [utrim s])"

text \<open>The place of the last space of a chunk.\<close>

fun last_space :: "uchar list \<Rightarrow> nat option" where
  "last_space [] = None"
| "last_space (c # cs) =
     (case last_space cs of Some p \<Rightarrow> Some (Suc p) | None \<Rightarrow> if c = '' '' then Some 0 else None)"

text \<open>The boundary at position \<open>i\<close>: the sentence is pushed and the following blank skipped.\<close>

definition at_boundary :: "uchar list \<Rightarrow> nat \<Rightarrow> bool" where
  "at_boundary txt i \<longleftrightarrow>
     is_boundary (txt ! i) \<and> (length txt \<le> i + 1 \<or> txt ! (i + 1) = '' '' \<or> txt ! (i + 1) = newline)"

definition cut_boundary :: "uchar list \<Rightarrow> nat \<Rightarrow> nat \<times> uchar list list \<Rightarrow> (nat \<times> uchar list list) option" where
  "cut_boundary txt i st =
     (let (start, acc) = st
      in if \<not> at_boundary txt i then Some st
         else if i + 1 < start then None
         else Some (if i + 1 < length txt then i + 2 else i + 1, push_sentence (slice start (i + 1) txt) acc))"

definition cut_long :: "nat \<Rightarrow> uchar list \<Rightarrow> nat \<Rightarrow> nat \<times> uchar list list \<Rightarrow> (nat \<times> uchar list list) option" where
  "cut_long max_chars txt i st =
     (let (start, acc) = st
      in if bytes_in (slice start i txt) < max_chars then Some st
         else if i < start then None
         else let split_at = (case last_space (slice start i txt) of Some p \<Rightarrow> start + p | None \<Rightarrow> i)
              in Some (if split_at < length txt \<and> txt ! split_at = '' '' then split_at + 1 else split_at,
                       push_sentence (slice start split_at txt) acc))"

function split_loop ::
  "nat \<Rightarrow> uchar list \<Rightarrow> nat \<Rightarrow> nat \<times> uchar list list \<Rightarrow> (nat \<times> uchar list list) option" where
  "split_loop max_chars txt i st =
     (if length txt \<le> i then Some st
      else Option.bind (cut_boundary txt i st)
             (\<lambda>st. Option.bind (cut_long max_chars txt i st) (split_loop max_chars txt (i + 1))))"
  by pat_completeness auto
termination
  by (relation "measure (\<lambda>(max_chars, txt, i, st). length txt - i)") auto

declare split_loop.simps [simp del]

record sentence_splitter =
  sp_max_chars :: nat

definition sp_default :: sentence_splitter where
  "sp_default = \<lparr>sp_max_chars = 200\<rparr>"

definition split_sentences :: "sentence_splitter \<Rightarrow> uchar list \<Rightarrow> uchar list list option" where
  "split_sentences sp txt =
     (let txt = utrim txt
      in if txt = [] then Some []
         else map_option (\<lambda>(start, acc). push_sentence (drop start txt) acc)
                (split_loop (sp_max_chars sp) txt 0 (0, [])))"

section \<open>No text is lost\<close>

definition black :: "uchar list \<Rightarrow> uchar list" where
  "black s = filter (\<lambda>c. \<not> is_white c) s"

lemma black_append [simp]: "black (s @ t) = black s @ black t"
  by (simp add: black_def)

lemma black_dropWhile [simp]: "black (dropWhile is_white s) = black s"
  by (induction s) (simp_all add: black_def)

lemma black_rev: "black (rev s) = rev (black s)"
  by (simp add: black_def rev_filter)

lemma black_utrim [simp]: "black (utrim s) = black s"
  by (simp add: utrim_def black_rev)

lemma black_push: "black (concat (push_sentence s acc)) = black (concat acc) @ black s"
  using black_utrim [of s] by (auto simp: push_sentence_def simp del: black_utrim) (simp add: black_def)

lemma blank_white: "is_white '' ''" "is_white newline"
  by code_simp+

lemma take_slice: "i \<le> j \<Longrightarrow> take j xs = take i xs @ slice i j xs"
  by (simp add: slice_def take_add [symmetric])

lemma black_take_slice: "i \<le> j \<Longrightarrow> black (take j xs) = black (take i xs) @ black (slice i j xs)"
  by (simp add: take_slice [of i j])

lemma black_take_white: "i < length xs \<Longrightarrow> is_white (xs ! i) \<Longrightarrow> black (take (Suc i) xs) = black (take i xs)"
  by (simp add: take_Suc_conv_app_nth black_def)

lemma last_space_Some:
  "last_space cs = Some p \<Longrightarrow> p < length cs \<and> cs ! p = '' ''"
  by (induction cs arbitrary: p) (auto split: option.splits if_splits)

text \<open>
  Between the steps: what is pushed is the text up to the start; the start is at most one past the
  position, and then there is a blank at the position.
\<close>

definition split_inv :: "uchar list \<Rightarrow> nat \<Rightarrow> nat \<times> uchar list list \<Rightarrow> bool" where
  "split_inv txt i st \<longleftrightarrow>
     (let (start, acc) = st
      in black (concat acc) = black (take start txt) \<and> [] \<notin> set acc \<and>
         (start \<le> i \<or> start = i + 1 \<and> i < length txt \<and> is_white (txt ! i)))"

lemma boundary_not_white: "is_boundary c \<Longrightarrow> \<not> is_white c"
proof -
  have "list_all (\<lambda>c. \<not> is_white c) [''.'', ''!'', ''?'', ellipsis, '';'', '':'']" by code_simp
  then show "is_boundary c \<Longrightarrow> \<not> is_white c" by (auto simp: is_boundary_def)
qed

lemma push_nonempty: "[] \<notin> set acc \<Longrightarrow> [] \<notin> set (push_sentence s acc)"
  by (simp add: push_sentence_def)

text \<open>Within a step, the start may be two past the position: after a boundary with a blank behind it.\<close>

definition mid_inv :: "uchar list \<Rightarrow> nat \<Rightarrow> nat \<times> uchar list list \<Rightarrow> bool" where
  "mid_inv txt i st \<longleftrightarrow>
     (let (start, acc) = st
      in black (concat acc) = black (take start txt) \<and> [] \<notin> set acc \<and>
         (start \<le> i + 1 \<or> start = i + 2 \<and> i + 1 < length txt \<and> is_white (txt ! (i + 1))))"

lemma cut_boundary_inv:
  assumes "split_inv txt i (start, acc)" "i < length txt"
  obtains start' acc' where "cut_boundary txt i (start, acc) = Some (start', acc')" "mid_inv txt i (start', acc')"
    "start' = start \<and> acc' = acc \<or> i < start'"
proof (cases "at_boundary txt i")
  case False
  then show ?thesis
    using assms that [of start acc] by (auto simp: cut_boundary_def split_inv_def mid_inv_def)
next
  case True
  then have "\<not> is_white (txt ! i)" using boundary_not_white by (simp add: at_boundary_def)
  then have le: "start \<le> i" using assms(1) by (auto simp: split_inv_def)
  have acc: "black (concat (push_sentence (slice start (i + 1) txt) acc)) = black (take (i + 1) txt)"
    using assms(1) le by (simp add: black_push split_inv_def black_take_slice [of start "Suc i"])
  have ne: "[] \<notin> set (push_sentence (slice start (i + 1) txt) acc)"
    using assms(1) by (intro push_nonempty) (simp add: split_inv_def)
  show ?thesis
  proof (cases "i + 1 < length txt")
    case inside: True
    then have w: "is_white (txt ! (i + 1))" using True blank_white by (auto simp: at_boundary_def)
    then have "black (take (i + 2) txt) = black (take (i + 1) txt)"
      using inside black_take_white [of "i + 1" "txt"] by simp
    then show ?thesis
      using that [of "i + 2" "push_sentence (slice start (i + 1) txt) acc"] inside True le acc ne w
      by (simp add: cut_boundary_def mid_inv_def)
  next
    case False
    then show ?thesis
      using that [of "i + 1" "push_sentence (slice start (i + 1) txt) acc"] True le acc ne
      by (simp add: cut_boundary_def mid_inv_def)
  qed
qed

lemma cut_long_inv:
  assumes "mid_inv txt i (start, acc)" "i < length txt" "0 < max_chars"
  obtains start' acc' where "cut_long max_chars txt i (start, acc) = Some (start', acc')"
    "split_inv txt (i + 1) (start', acc')"
proof (cases "bytes_in (slice start i txt) < max_chars")
  case True
  then show ?thesis using assms that [of start acc] by (auto simp: cut_long_def split_inv_def mid_inv_def)
next
  case False
  then have le: "start < i" using assms(3) by (cases "start < i") (simp_all add: slice_def bytes_in_def)
  define s where "s = (case last_space (slice start i txt) of Some p \<Rightarrow> start + p | None \<Rightarrow> i)"
  have s: "start \<le> s" "s \<le> i"
    using le last_space_Some [of "slice start i txt"] by (auto simp: s_def slice_def split: option.split)
  have acc: "black (concat (push_sentence (slice start s txt) acc)) = black (take s txt)"
    using assms(1) s by (simp add: black_push mid_inv_def black_take_slice [of start s])
  have ne: "[] \<notin> set (push_sentence (slice start s txt) acc)"
    using assms(1) by (intro push_nonempty) (simp add: mid_inv_def)
  have result: "cut_long max_chars txt i (start, acc) =
      Some (if s < length txt \<and> txt ! s = '' '' then s + 1 else s, push_sentence (slice start s txt) acc)"
    using False le by (simp add: cut_long_def s_def Let_def)
  show ?thesis
  proof (cases "s < length txt \<and> txt ! s = '' ''")
    case True
    then have "black (take (s + 1) txt) = black (take s txt)" using black_take_white blank_white by simp
    then show ?thesis using that [OF result] True acc ne s(2) by (simp add: split_inv_def)
  next
    case False
    then have "(if s < length txt \<and> txt ! s = '' '' then s + 1 else s) = s" by auto
    with result have "cut_long max_chars txt i (start, acc) = Some (s, push_sentence (slice start s txt) acc)" by simp
    then show ?thesis using that acc ne s(2) by (simp add: split_inv_def)
  qed
qed

lemma split_loop_inv:
  assumes "split_inv txt i st" "0 < max_chars"
  shows "\<exists>start acc. split_loop max_chars txt i st = Some (start, acc) \<and>
    black (concat acc) = black (take start txt) \<and> [] \<notin> set acc"
  using assms
proof (induction max_chars "txt" i st rule: split_loop.induct)
  case (1 max_chars s0 i st)
  obtain start acc where st: "st = (start, acc)" by fastforce
  show ?case
  proof (cases "i < length s0")
    case True
    obtain s1 a1 where c1: "cut_boundary s0 i (start, acc) = Some (s1, a1)" "mid_inv s0 i (s1, a1)"
      using cut_boundary_inv [OF _ True] "1.prems"(1) st by blast
    obtain s2 a2 where c2: "cut_long max_chars s0 i (s1, a1) = Some (s2, a2)" "split_inv s0 (i + 1) (s2, a2)"
      using cut_long_inv [OF c1(2) True "1.prems"(2)] by blast
    have "split_loop max_chars s0 i st = split_loop max_chars s0 (i + 1) (s2, a2)"
      using True c1(1) c2(1) by (subst split_loop.simps) (simp add: st)
    then show ?thesis using "1.IH" [of "(s1, a1)" "(s2, a2)"] True c1 c2 "1.prems"(2) by (simp add: st)
  next
    case False
    then show ?thesis using "1.prems"(1) by (subst split_loop.simps) (simp add: st split_inv_def)
  qed
qed

text \<open>In text of one-byte characters a sentence exceeds the limit by at most its punctuation mark.\<close>

definition short_inv :: "nat \<Rightarrow> nat \<Rightarrow> nat \<times> uchar list list \<Rightarrow> bool" where
  "short_inv n i st \<longleftrightarrow> i \<le> fst st + n \<and> (\<forall>s \<in> set (snd st). length s \<le> n + 1)"

lemma length_utrim: "length (utrim s) \<le> length s"
  using length_dropWhile_le [of is_white "rev (dropWhile is_white s)"] length_dropWhile_le [of is_white s]
  by (simp add: utrim_def)

lemma length_slice: "length (slice i j xs) \<le> j - i"
  by (simp add: slice_def)

lemma push_short:
  "(\<forall>s \<in> set acc. length s \<le> n) \<Longrightarrow> length s \<le> n \<Longrightarrow> \<forall>s \<in> set (push_sentence s acc). length s \<le> n"
  using length_utrim [of s] by (auto simp: push_sentence_def)

lemma bytes_in_ascii: "\<forall>c \<in> set s. length c = 1 \<Longrightarrow> bytes_in s = length s"
  by (induction s) (simp_all add: bytes_in_def)

lemma set_slice: "set (slice i j xs) \<subseteq> set xs"
  using set_take_subset [of "j - i" "drop i xs"] set_drop_subset [of i xs] by (auto simp: slice_def)

lemma cut_boundary_short:
  assumes "short_inv n i st" "cut_boundary s0 i st = Some st'"
  shows "short_inv n i st'"
proof -
  obtain start acc where st: "st = (start, acc)" by fastforce
  have "i \<le> start + n" using assms(1) by (simp add: short_inv_def st)
  then have "length (slice start (i + 1) s0) \<le> n + 1"
    using length_slice [of start "i + 1" s0] by linarith
  from push_short [OF _ this] show ?thesis
    using assms by (auto simp: st cut_boundary_def short_inv_def split: if_splits)
qed

lemma cut_long_short:
  assumes "short_inv n i st" "cut_long n s0 i st = Some st'" "0 < n" "\<forall>c \<in> set s0. length c = 1" "i < length s0"
  shows "short_inv n (i + 1) st'"
proof -
  obtain start acc where st: "st = (start, acc)" by fastforce
  define b where "b = length (slice start i s0)"
  have b: "bytes_in (slice start i s0) = b" "b = i - start"
    using bytes_in_ascii [of "slice start i s0"] set_slice [of start i s0] assms(4,5)
    by (auto simp: b_def slice_def)
  show ?thesis
  proof (cases "b < n")
    case True
    then show ?thesis using assms(1,2) b by (auto simp: st cut_long_def short_inv_def)
  next
    case False
    define s where "s = (case last_space (slice start i s0) of Some p \<Rightarrow> start + p | None \<Rightarrow> i)"
    have "start \<le> i" using False assms(3) b(2) by linarith
    then have s: "start \<le> s" "s \<le> i" "s0 ! s = '' '' \<and> s < length s0 \<or> s = i"
      using last_space_Some [of "slice start i s0"] assms(5) by (auto simp: s_def slice_def split: option.split)
    have "i \<le> start + n" using assms(1) by (simp add: short_inv_def st)
    then have "length (slice start s s0) \<le> n + 1"
      using length_slice [of start s s0] s(2) by linarith
    from push_short [OF _ this] show ?thesis
      using assms(1,2,3) False b s \<open>start \<le> i\<close>
      by (auto simp: st cut_long_def short_inv_def Let_def s_def [symmetric] split: if_splits)
  qed
qed

lemma split_loop_short:
  assumes "short_inv n i st" "split_loop n s0 i st = Some st'" "0 < n" "\<forall>c \<in> set s0. length c = 1"
  shows "short_inv n (max i (length s0)) st'"
  using assms
proof (induction n s0 i st rule: split_loop.induct)
  case (1 n s0 i st)
  show ?case
  proof (cases "i < length s0")
    case True
    then obtain s1 s2 where c: "cut_boundary s0 i st = Some s1" "cut_long n s0 i s1 = Some s2"
      "split_loop n s0 (i + 1) s2 = Some st'"
      using "1.prems"(2) by (subst (asm) split_loop.simps) (auto simp: bind_eq_Some_conv)
    have "short_inv n (i + 1) s2"
      using cut_long_short [OF cut_boundary_short [OF "1.prems"(1) c(1)] c(2) "1.prems"(3,4) True] .
    with "1.IH" [of s1 s2] True c "1.prems"(3,4) show ?thesis by simp
  next
    case False
    then show ?thesis using "1.prems"(1,2) by (subst (asm) split_loop.simps) (simp add: max_def)
  qed
qed

lemma split_result:
  assumes "0 < sp_max_chars sp" "utrim s0 \<noteq> []"
  obtains start acc where "split_loop (sp_max_chars sp) (utrim s0) 0 (0, []) = Some (start, acc)"
    "split_sentences sp s0 = Some (push_sentence (drop start (utrim s0)) acc)"
    "black (concat (push_sentence (drop start (utrim s0)) acc)) = black s0"
    "[] \<notin> set (push_sentence (drop start (utrim s0)) acc)"
proof -
  obtain start acc where l: "split_loop (sp_max_chars sp) (utrim s0) 0 (0, []) = Some (start, acc)"
      "black (concat acc) = black (take start (utrim s0))" "[] \<notin> set acc"
    using split_loop_inv [OF _ assms(1), of "utrim s0" 0 "(0, [])"] by (auto simp: split_inv_def black_def)
  have "black (concat (push_sentence (drop start (utrim s0)) acc)) = black (take start (utrim s0)) @ black (drop start (utrim s0))"
    by (simp add: black_push l(2))
  also have "\<dots> = black s0" by (metis append_take_drop_id black_append black_utrim)
  finally show ?thesis
    using assms(2) l(1) push_nonempty [OF l(3)] by (intro that [of start acc]) (simp_all add: split_sentences_def)
qed

lemma split_blank: "utrim s0 = [] \<Longrightarrow> split_sentences sp s0 = Some [] \<and> black s0 = []"
  using black_utrim [of s0] by (simp add: split_sentences_def black_def del: black_utrim)

lemma splitter_exists:
  assumes "0 < sp_max_chars sp"
  obtains ss where "split_sentences sp s0 = Some ss" "black (concat ss) = black s0" "[] \<notin> set ss"
proof (cases "utrim s0 = []")
  case True
  then show ?thesis using that [of "[]"] split_blank [of s0 sp] by (simp add: black_def)
next
  case False
  from split_result [OF assms this] show ?thesis using that by metis
qed

text \<open>
  C24. Splitting a text into sentences never panics while the limit is positive, and loses, repeats and
  reorders nothing but blanks: read one after the other, the sentences have the black characters of the
  text. No sentence is empty, and in one-byte text none is longer than the limit and one more.
\<close>

theorem splitter_keeps_text:
  assumes "0 < sp_max_chars sp"
  shows "\<exists>ss. split_sentences sp s0 = Some ss \<and> black (concat ss) = black s0 \<and> [] \<notin> set ss \<and>
    ((\<forall>c \<in> set s0. length c = 1) \<longrightarrow> (\<forall>s \<in> set ss. length s \<le> sp_max_chars sp + 1))"
proof (cases "utrim s0 = []")
  case True
  then show ?thesis using split_blank [of s0 sp] by (simp add: black_def)
next
  case False
  obtain start acc where l: "split_loop (sp_max_chars sp) (utrim s0) 0 (0, []) = Some (start, acc)"
    and ss: "split_sentences sp s0 = Some (push_sentence (drop start (utrim s0)) acc)"
      "black (concat (push_sentence (drop start (utrim s0)) acc)) = black s0"
      "[] \<notin> set (push_sentence (drop start (utrim s0)) acc)"
    using split_result [OF assms False] by metis
  moreover have "\<forall>s \<in> set (push_sentence (drop start (utrim s0)) acc). length s \<le> sp_max_chars sp + 1"
    if ascii: "\<forall>c \<in> set s0. length c = 1"
  proof -
    have "set (utrim s0) \<subseteq> set s0" by (auto simp: utrim_def dest!: set_dropWhileD)
    then have "\<forall>c \<in> set (utrim s0). length c = 1" using ascii by blast
    from split_loop_short [OF _ l assms this]
    have "length (utrim s0) \<le> start + sp_max_chars sp" "\<forall>s \<in> set acc. length s \<le> sp_max_chars sp + 1"
      by (simp_all add: short_inv_def)
    then show ?thesis by (intro push_short) simp_all
  qed
  ultimately show ?thesis by blast
qed

lemma splitter_keeps_text_witness:
  "\<exists>ss. split_sentences \<lparr>sp_max_chars = 4\<rparr> (map (\<lambda>c. [c]) ''Hi. How are you'') = Some ss \<and>
     black (concat ss) = map (\<lambda>c. [c]) ''Hi.Howareyou''"
proof -
  have "black (map (\<lambda>c. [c]) ''Hi. How are you'') = map (\<lambda>c. [c]) ''Hi.Howareyou''" by code_simp
  then show ?thesis
    using splitter_keeps_text [of "\<lparr>sp_max_chars = 4\<rparr>" "map (\<lambda>c. [c]) ''Hi. How are you''"] by auto
qed

section \<open>Streaming\<close>

record audio_chunk =
  ac_sentence_index :: nat
  ac_is_last :: bool
  ac_audio :: audio_data

text \<open>
  The task of one stream: a sentence is synthesised and its result sent, in order, until the receiver
  is gone; \<open>synth\<close> gives the audio and the engine that made it.
\<close>

fun stream_loop ::
  "(uchar list \<Rightarrow> 'w \<Rightarrow> (string + audio_data \<times> string option) \<times> 'w) \<Rightarrow> (string + audio_chunk \<Rightarrow> 'w \<Rightarrow> bool \<times> 'w) \<Rightarrow>
   nat \<Rightarrow> nat \<Rightarrow> uchar list list \<Rightarrow> 'w \<Rightarrow> 'w" where
  "stream_loop synth send n idx [] w = w"
| "stream_loop synth send n idx (s # ss) w =
     (if s = [] then stream_loop synth send n (idx + 1) ss w
      else let (r, w) = synth s w;
               (ok, w) = send (map_sum id (\<lambda>(audio, _). \<lparr>ac_sentence_index = idx, ac_is_last = (idx = n - 1),
                                 ac_audio = audio\<rparr>) r) w
           in if ok then stream_loop synth send n (idx + 1) ss w else w)"

definition synthesize_streaming ::
  "sentence_splitter \<Rightarrow> (uchar list \<Rightarrow> 'w \<Rightarrow> (string + audio_data \<times> string option) \<times> 'w) \<Rightarrow>
   (string + audio_chunk \<Rightarrow> 'w \<Rightarrow> bool \<times> 'w) \<Rightarrow> uchar list \<Rightarrow> 'w \<Rightarrow> 'w option" where
  "synthesize_streaming sp synth send s0 w =
     map_option (\<lambda>ss. stream_loop synth send (length ss) 0 ss w) (split_sentences sp s0)"

text \<open>Two bytes of a sample, the low one first.\<close>

definition le16 :: "int \<Rightarrow> u8 list" where
  "le16 i = (let w = (word_of_int i :: 16 word) in [ucast w, ucast (drop_bit 8 w)])"

definition to_pcm16_le :: "rnd \<Rightarrow> audio_chunk \<Rightarrow> u8 list" where
  "to_pcm16_le fl c = concat (map (\<lambda>s. le16 (pcm16 fl s)) (ad_samples (ac_audio c)))"

definition to_f32_le :: "(real \<Rightarrow> u8 list) \<Rightarrow> audio_chunk \<Rightarrow> u8 list" where
  "to_f32_le bits c = concat (map bits (ad_samples (ac_audio c)))"

text \<open>Every sentence of a stream whose receiver stays gets its chunk, and only the last one says so.\<close>

lemma stream_in_order:
  assumes "\<And>s w. synth s w = (synth' s, w)" "\<And>r w. send r w = (True, w @ [r])" "[] \<notin> set ss"
  shows "stream_loop synth send n idx ss w =
    w @ map (\<lambda>(k, s). map_sum id (\<lambda>(audio, _). \<lparr>ac_sentence_index = k, ac_is_last = (k = n - 1), ac_audio = audio\<rparr>)
          (synth' s)) (enumerate idx ss)"
  using assms(3)
proof (induction ss arbitrary: idx w)
  case (Cons s ss)
  then show ?case by (auto simp: assms(1,2) Let_def id_def)
qed simp

text \<open>A short text without a boundary is one sentence.\<close>

lemma bytes_slice_le: "bytes_in (slice i j s) \<le> bytes_in s"
proof -
  have "sum_list (map length (take n s)) \<le> sum_list (map length s)" for n and s :: "uchar list"
    by (metis append_take_drop_id le_add1 map_append sum_list_append)
  moreover have "sum_list (map length (drop n s)) \<le> sum_list (map length s)" for n and s :: "uchar list"
    by (metis append_take_drop_id le_add2 map_append sum_list_append)
  ultimately show ?thesis unfolding bytes_in_def slice_def length_concat by (meson order_trans)
qed

lemma split_loop_unbroken:
  assumes "\<forall>c \<in> set s. \<not> is_boundary c" "bytes_in s < m"
  shows "split_loop m s i (0, []) = Some (0, [])"
proof (induction "length s - i" arbitrary: i)
  case 0
  then show ?case by (subst split_loop.simps) simp
next
  case (Suc n)
  have "cut_long m s i (0, []) = Some (0, [])"
    using bytes_slice_le [of 0 i s] assms(2) by (simp add: cut_long_def)
  moreover have "\<not> at_boundary s i" using Suc.hyps(2) assms(1) by (simp add: at_boundary_def)
  moreover have "split_loop m s (i + 1) (0, []) = Some (0, [])" using Suc.hyps(1) [of "i + 1"] Suc.hyps(2) by simp
  ultimately show ?case by (subst split_loop.simps) (simp add: cut_boundary_def)
qed

lemma short_text_one_sentence:
  assumes "\<forall>c \<in> set s. \<not> is_boundary c" "bytes_in s < sp_max_chars sp" "utrim s = s" "s \<noteq> []"
  shows "split_sentences sp s = Some [s]"
  using assms split_loop_unbroken [OF assms(1,2)] by (simp add: split_sentences_def push_sentence_def)

end
