(* ===== verification/TtsManager.thy ===== *)
theory TtsManager
  imports Lru Fnv Audio
begin

text \<open>
  The interface of the speech engines (\<open>core/tts_engine.rs\<close>) and the manager that holds them and caches
  what they build (\<open>core/tts_manager.rs\<close>). An engine is a record of its operations, and synthesis a
  function of the world \<open>'w\<close>; \<open>bits\<close> gives the four bytes of a float. The LRU cache is the argument \<open>L\<close>.
\<close>

section \<open>Engines\<close>

record synthesis_params =
  sy_speed :: real
  sy_pitch :: real
  sy_voice :: "string option"
  sy_language :: "string option"

definition sy_default :: synthesis_params where
  "sy_default = \<lparr>sy_speed = 1, sy_pitch = 1, sy_voice = None, sy_language = None\<rparr>"

datatype voice_gender = Male | Female | Neutral
datatype voice_quality = Standard | High_Quality | Premium | Neural

record voice_info =
  vi_id :: string
  vi_name :: string
  vi_language :: string
  vi_gender :: voice_gender
  vi_quality :: voice_quality

record engine_capabilities =
  ec_name :: string
  ec_version :: string
  ec_supported_languages :: "string list"
  ec_supported_voices :: "voice_info list"
  ec_max_text_length :: nat
  ec_sample_rate :: u32
  ec_supports_ssml :: bool
  ec_supports_streaming :: bool

type_synonym spoken = "audio_data \<times> string option"

record 'w tts_engine =
  te_name :: string
  te_capabilities :: engine_capabilities
  te_synthesize :: "string \<Rightarrow> synthesis_params \<Rightarrow> 'w \<Rightarrow> (string + spoken) \<times> 'w"
  te_list_voices :: "voice_info list"
  te_is_ready :: bool
  te_warmup :: "'w \<Rightarrow> (string + unit) \<times> 'w"

definition validate_text :: "'w tts_engine \<Rightarrow> string \<Rightarrow> string + unit" where
  "validate_text e s =
     (if s = [] then Inl ''Text cannot be empty''
      else if ec_max_text_length (te_capabilities e) < length s
      then Inl (''Text too long: '' @ show_nat (length s) @ '' > '' @ show_nat (ec_max_text_length (te_capabilities e)))
      else Inr ())"

definition available_engines :: "string list" where
  "available_engines = [''kokoro'', ''kokoro-onnx'', ''windows-sapi'', ''piper'', ''vits'', ''styletts2'', ''bark'',
     ''xtts'', ''torch'']"

definition torch_capabilities :: engine_capabilities where
  "torch_capabilities = \<lparr>ec_name = ''PyTorch TTS Engine'', ec_version = ''1.0.0'', ec_supported_languages = [''en''],
     ec_supported_voices = [], ec_max_text_length = 10000, ec_sample_rate = 24000, ec_supports_ssml = False,
     ec_supports_streaming = False\<rparr>"

definition torch_engine :: "'w tts_engine" where
  "torch_engine = \<lparr>te_name = ''torch'', te_capabilities = torch_capabilities,
     te_synthesize = \<lambda>s p w. (Inl ''PyTorch TTS engine requires a trained model. Please configure a model path.'', w),
     te_list_voices = [], te_is_ready = True, te_warmup = \<lambda>w. (Inr (), w)\<rparr>"

text \<open>The constructors of the engines with a model are the argument \<open>build\<close>; this is not Windows.\<close>

definition create_engine ::
  "(string \<Rightarrow> 'cfg \<Rightarrow> 'w \<Rightarrow> (string + 'w tts_engine) \<times> 'w) \<Rightarrow> string \<Rightarrow> 'cfg \<Rightarrow> 'w \<Rightarrow> (string + 'w tts_engine) \<times> 'w"
where
  "create_engine build kind cfg w =
     (if kind \<in> {''kokoro'', ''kokoro-onnx'', ''piper'', ''vits'', ''styletts2'', ''bark'', ''xtts''} then build kind cfg w
      else if kind = ''windows-sapi'' \<or> kind = ''sapi''
      then (Inl ''Windows SAPI engine is only available on Windows'', w)
      else if kind = ''torch'' then (Inr torch_engine, w)
      else (Inl (''Unknown engine type: '' @ [CHR 0x27] @ kind @ [CHR 0x27] @ ''. Available production engines: '' @
             ''kokoro, kokoro-onnx, windows-sapi, piper, vits, styletts2, bark, xtts, torch''), w))"

section \<open>The manager\<close>

record tts_manager_config =
  tc_default_engine :: string
  tc_cache_dir :: string
  tc_max_concurrent_requests :: nat
  tc_synthesis_cache_capacity :: nat

definition tc_default :: tts_manager_config where
  "tc_default = \<lparr>tc_default_engine = ''kokoro-onnx'', tc_cache_dir = ''./cache/tts'',
     tc_max_concurrent_requests = 10, tc_synthesis_cache_capacity = 128\<rparr>"

record ('w, 'c) tts_manager =
  tm_config :: tts_manager_config
  tm_engines :: "string \<Rightarrow> 'w tts_engine option"
  tm_synthesis_cache :: "'c list"
  tm_synthesis_cache_capacity :: nat

definition tm_shard_cap :: "nat \<Rightarrow> nat" where
  "tm_shard_cap total_cap = max (total_cap div 16) 1"

definition tm_new :: "(u64, spoken, 'c) lru_ops \<Rightarrow> tts_manager_config \<Rightarrow> ('w, 'c) tts_manager" where
  "tm_new L cfg =
     (let total_cap = max (tc_synthesis_cache_capacity cfg) 1
      in \<lparr>tm_config = cfg, tm_engines = Map.empty,
          tm_synthesis_cache = replicate 16 (lru_new L (tm_shard_cap total_cap)),
          tm_synthesis_cache_capacity = total_cap\<rparr>)"

definition mix :: "u64 \<Rightarrow> u8 list \<Rightarrow> u64" where
  "mix h bs = foldl fnv_step h bs"

definition text_of :: "string option \<Rightarrow> string" where
  "text_of s = (case s of Some t \<Rightarrow> t | None \<Rightarrow> [])"

definition synthesis_cache_key :: "(real \<Rightarrow> u8 list) \<Rightarrow> string \<Rightarrow> string \<Rightarrow> synthesis_params \<Rightarrow> u64" where
  "synthesis_cache_key bits s engine_id p =
     (let h = mix FNV_OFFSET (as_bytes s);
          h = mix h [0];
          h = mix h (as_bytes engine_id);
          h = mix h [0];
          h = mix h (as_bytes (text_of (sy_voice p)));
          h = mix h [0];
          h = mix h (as_bytes (text_of (sy_language p)));
          h = mix h [0];
          h = mix h (bits (sy_speed p))
      in mix h (bits (sy_pitch p)))"

definition tm_register_engine ::
  "string \<Rightarrow> 'w tts_engine \<Rightarrow> ('w, 'c) tts_manager \<Rightarrow> (string + unit) \<times> ('w, 'c) tts_manager" where
  "tm_register_engine i e tm =
     (if tm_engines tm i \<noteq> None
      then (Inl (''Engine with id '' @ [CHR 0x27] @ i @ [CHR 0x27] @ '' already registered''), tm)
      else (Inr (), tm\<lparr>tm_engines := (tm_engines tm)(i \<mapsto> e)\<rparr>))"

definition tm_load_engine ::
  "(string \<Rightarrow> 'cfg \<Rightarrow> 'w \<Rightarrow> (string + 'w tts_engine) \<times> 'w) \<Rightarrow> string \<Rightarrow> string \<Rightarrow> 'cfg \<Rightarrow> ('w, 'c) tts_manager \<times> 'w \<Rightarrow>
   (string + unit) \<times> ('w, 'c) tts_manager \<times> 'w" where
  "tm_load_engine build i kind cfg tw =
     (let (tm, w) = tw
      in case create_engine build kind cfg w of
           (Inl e, w) \<Rightarrow> (Inl (''Failed to create engine: '' @ kind), tm, w)
         | (Inr engine, w) \<Rightarrow>
             (case te_warmup engine w of
                (Inl e, w) \<Rightarrow> (Inl ''Engine warmup failed'', tm, w)
              | (Inr _, w) \<Rightarrow> (let (r, tm) = tm_register_engine i engine tm in (r, tm, w))))"

definition tm_fallbacks :: "string list" where
  "tm_fallbacks = [''kokoro'', ''piper'', ''vits'', ''styletts2'', ''bark'', ''xtts'']"

fun first_engine :: "(string \<Rightarrow> 'e option) \<Rightarrow> string list \<Rightarrow> 'e option" where
  "first_engine engines [] = None"
| "first_engine engines (i # is) = (case engines i of Some e \<Rightarrow> Some e | None \<Rightarrow> first_engine engines is)"

text \<open>The last resort is the first engine of an iteration over the map.\<close>

definition tm_get_default_engine :: "string list \<Rightarrow> ('w, 'c) tts_manager \<Rightarrow> 'w tts_engine option" where
  "tm_get_default_engine iter tm =
     first_engine (tm_engines tm) (tc_default_engine (tm_config tm) # tm_fallbacks @ iter)"

definition tm_get_capabilities :: "string \<Rightarrow> ('w, 'c) tts_manager \<Rightarrow> engine_capabilities option" where
  "tm_get_capabilities i tm = map_option te_capabilities (tm_engines tm i)"

text \<open>Synthesis by the engine alone, with its errors.\<close>

definition speak :: "('w, 'c) tts_manager \<Rightarrow> string \<Rightarrow> string \<Rightarrow> synthesis_params \<Rightarrow> 'w \<Rightarrow> (string + spoken) \<times> 'w" where
  "speak tm s engine_id p w =
     (case tm_engines tm engine_id of
        None \<Rightarrow> (Inl (''Engine '' @ [CHR 0x27] @ engine_id @ [CHR 0x27] @ '' not found''), w)
      | Some e \<Rightarrow>
          (case validate_text e s of
             Inl err \<Rightarrow> (Inl err, w)
           | Inr _ \<Rightarrow> map_prod (map_sum (\<lambda>_. ''Synthesis failed'') id) id (te_synthesize e s p w)))"

unbundle bit_operations_syntax

definition tm_synthesize ::
  "(u64, spoken, 'c) lru_ops \<Rightarrow> (real \<Rightarrow> u8 list) \<Rightarrow> string \<Rightarrow> string option \<Rightarrow> synthesis_params \<Rightarrow>
   ('w, 'c) tts_manager \<times> 'w \<Rightarrow> (string + spoken) \<times> ('w, 'c) tts_manager \<times> 'w" where
  "tm_synthesize L bits s engine p tw =
     (let (tm, w) = tw;
          engine_id = (case engine of Some e \<Rightarrow> e | None \<Rightarrow> tc_default_engine (tm_config tm));
          key = synthesis_cache_key bits s engine_id p;
          shard = unat (key AND 0xF);
          (cached, c) = lru_get L key (tm_synthesis_cache tm ! shard);
          tm = tm\<lparr>tm_synthesis_cache := (tm_synthesis_cache tm)[shard := c]\<rparr>
      in case cached of
           Some hit \<Rightarrow> (Inr hit, tm, w)
         | None \<Rightarrow>
             (case speak tm s engine_id p w of
                (Inl e, w) \<Rightarrow> (Inl e, tm, w)
              | (Inr spoken, w) \<Rightarrow>
                  (Inr spoken, tm\<lparr>tm_synthesis_cache := (tm_synthesis_cache tm)[shard :=
                     lru_put L key spoken (tm_synthesis_cache tm ! shard)]\<rparr>, w)))"

text \<open>The engines the server tries to load, in order; one that fails is logged.\<close>

definition default_engines :: "string list" where
  "default_engines = [''kokoro-onnx'', ''kokoro'', ''piper'', ''vits'', ''styletts2'', ''bark'', ''xtts'']"

fun load_each ::
  "(string \<Rightarrow> 'cfg \<Rightarrow> 'w \<Rightarrow> (string + 'w tts_engine) \<times> 'w) \<Rightarrow> (string \<Rightarrow> 'cfg) \<Rightarrow> string list \<Rightarrow>
   ('w, 'c) tts_manager \<times> 'w \<Rightarrow> ('w, 'c) tts_manager \<times> 'w" where
  "load_each build cfgs [] tw = tw"
| "load_each build cfgs (i # is) tw = load_each build cfgs is (snd (tm_load_engine build i i (cfgs i) tw))"

definition initialize_defaults ::
  "(string \<Rightarrow> 'cfg \<Rightarrow> 'w \<Rightarrow> (string + 'w tts_engine) \<times> 'w) \<Rightarrow> (string \<Rightarrow> 'cfg) \<Rightarrow> ('w, 'c) tts_manager \<times> 'w \<Rightarrow>
   ('w, 'c) tts_manager \<times> 'w" where
  "initialize_defaults build cfgs tw = load_each build cfgs default_engines tw"

record tts_manager_stats =
  tt_total_engines :: nat
  tt_engine_ids :: "string list"
  tt_cache_size :: nat
  tt_cache_capacity :: nat

text \<open>A shard that is locked at the moment is left out of the count: \<open>free\<close> are those that are not.\<close>

definition tm_get_stats :: "(u64, spoken, 'c) lru_ops \<Rightarrow> string list \<Rightarrow> bool list \<Rightarrow> ('w, 'c) tts_manager \<Rightarrow> tts_manager_stats"
where
  "tm_get_stats L iter free tm =
     \<lparr>tt_total_engines = length iter, tt_engine_ids = iter,
      tt_cache_size = sum_list (map (lru_len L \<circ> fst) (filter snd (zip (tm_synthesis_cache tm) free))),
      tt_cache_capacity = tm_synthesis_cache_capacity tm\<rparr>"

section \<open>Keys\<close>

lemma synthesis_cache_key_fnv1a:
  "synthesis_cache_key bits s e p =
   fnv1a (as_bytes s @ 0 # as_bytes e @ 0 # as_bytes (text_of (sy_voice p)) @ 0 #
     as_bytes (text_of (sy_language p)) @ 0 # bits (sy_speed p) @ bits (sy_pitch p))"
  by (simp add: synthesis_cache_key_def mix_def fnv1a_def Let_def)

text \<open>The NUL between the fields does not separate fields that contain one.\<close>

lemma synthesis_keys_collide:
  "synthesis_cache_key bits (s @ CHR 0x00 # e) e \<lparr>sy_speed = x, sy_pitch = y, sy_voice = Some v, sy_language = Some l\<rparr> =
   synthesis_cache_key bits s e \<lparr>sy_speed = x, sy_pitch = y, sy_voice = Some e, sy_language = Some (v @ CHR 0x00 # l)\<rparr>"
  by (simp add: synthesis_cache_key_fnv1a text_of_def) (simp add: as_bytes_def)

section \<open>The cache is transparent\<close>

datatype 'w tts_op = Speak string "string option" synthesis_params | AddEngine string "'w tts_engine"

fun tts_step ::
  "(u64, spoken, 'c) lru_ops \<Rightarrow> (real \<Rightarrow> u8 list) \<Rightarrow> 'w tts_op \<Rightarrow> ('w, 'c) tts_manager \<times> 'w \<Rightarrow>
   (string + spoken) option \<times> ('w, 'c) tts_manager \<times> 'w" where
  "tts_step L bits (Speak s engine p) tw = map_prod Some id (tm_synthesize L bits s engine p tw)"
| "tts_step L bits (AddEngine i e) (tm, w) = (None, snd (tm_register_engine i e tm), w)"

fun tts_run ::
  "(u64, spoken, 'c) lru_ops \<Rightarrow> (real \<Rightarrow> u8 list) \<Rightarrow> 'w tts_op list \<Rightarrow> ('w, 'c) tts_manager \<times> 'w \<Rightarrow>
   (string + spoken) option list" where
  "tts_run L bits [] tw = []"
| "tts_run L bits (op # ops) tw = (let (a, tw) = tts_step L bits op tw in a # tts_run L bits ops tw)"

text \<open>The manager without a cache: the engines, and every request synthesised anew.\<close>

definition asked_engine :: "string \<Rightarrow> string option \<Rightarrow> string" where
  "asked_engine d engine = (case engine of Some e \<Rightarrow> e | None \<Rightarrow> d)"

definition answer :: "(string \<Rightarrow> 'w tts_engine option) \<Rightarrow> string \<Rightarrow> string \<Rightarrow> synthesis_params \<Rightarrow> 'w \<Rightarrow> string + spoken" where
  "answer engines s e p w =
     (case engines e of
        None \<Rightarrow> Inl (''Engine '' @ [CHR 0x27] @ e @ [CHR 0x27] @ '' not found'')
      | Some g \<Rightarrow> bindR (validate_text g s) (\<lambda>_. map_sum (\<lambda>_. ''Synthesis failed'') id (fst (te_synthesize g s p w))))"

fun plain_run :: "string \<Rightarrow> 'w tts_op list \<Rightarrow> (string \<Rightarrow> 'w tts_engine option) \<Rightarrow> 'w \<Rightarrow> (string + spoken) option list" where
  "plain_run d [] engines w = []"
| "plain_run d (Speak s engine p # ops) engines w =
     Some (answer engines s (asked_engine d engine) p w) # plain_run d ops engines w"
| "plain_run d (AddEngine i e # ops) engines w =
     None # plain_run d ops (if engines i = None then engines(i \<mapsto> e) else engines) w"

definition pure_engine :: "'w tts_engine \<Rightarrow> bool" where
  "pure_engine e \<longleftrightarrow> (\<forall>s p w w'. fst (te_synthesize e s p w) = fst (te_synthesize e s p w'))"

fun requests :: "string \<Rightarrow> 'w tts_op list \<Rightarrow> (string \<times> string \<times> synthesis_params) set" where
  "requests d [] = {}"
| "requests d (Speak s engine p # ops) = insert (s, asked_engine d engine, p) (requests d ops)"
| "requests d (AddEngine i e # ops) = requests d ops"

definition key_of :: "(real \<Rightarrow> u8 list) \<Rightarrow> string \<times> string \<times> synthesis_params \<Rightarrow> u64" where
  "key_of bits q = (case q of (s, e, p) \<Rightarrow> synthesis_cache_key bits s e p)"

lemma speak_answer: "fst (speak tm s e p w) = answer (tm_engines tm) s e p w"
  by (auto simp: speak_def answer_def split: option.split sum.split)

lemma answer_pure:
  "(\<And>i g. engines i = Some g \<Longrightarrow> pure_engine g) \<Longrightarrow> answer engines s e p w = answer engines s e p w'"
  unfolding answer_def pure_engine_def by (auto split: option.split intro!: arg_cong [where f = "bindR _"]) metis

lemma answer_more_engines:
  "answer engines s e p w = Inr a \<Longrightarrow> engines i = None \<Longrightarrow> answer (engines(i \<mapsto> g)) s e p w = Inr a"
  by (auto simp: answer_def split: option.splits)

text \<open>What a shard holds under a key is the answer to the one request with that key.\<close>

definition tm_inv ::
  "(u64, spoken, 'c) lru_ops \<Rightarrow> (nat \<Rightarrow> 'c \<Rightarrow> bool) \<Rightarrow> (real \<Rightarrow> u8 list) \<Rightarrow>
   (string \<times> string \<times> synthesis_params) set \<Rightarrow> nat \<Rightarrow> ('w, 'c) tts_manager \<Rightarrow> bool" where
  "tm_inv L ok bits Q n tm \<longleftrightarrow>
     length (tm_synthesis_cache tm) = 16 \<and> 0 < n \<and>
     (\<forall>i g. tm_engines tm i = Some g \<longrightarrow> pure_engine g) \<and>
     (\<forall>c \<in> set (tm_synthesis_cache tm). ok n c \<and>
        (\<forall>k a. map_of (lru_iter L c) k = Some a \<longrightarrow>
           (\<exists>s e p. (s, e, p) \<in> Q \<and> key_of bits (s, e, p) = k \<and> (\<forall>w. answer (tm_engines tm) s e p w = Inr a))))"

lemma shard_less: "unat (k AND 0xF :: u64) < 16"
proof -
  have "k AND 0xF \<le> 0xF" by (rule word_and_le1)
  then have "unat (k AND 0xF) \<le> unat (0xF :: u64)" by (simp add: word_le_nat_alt)
  then show ?thesis by simp
qed

locale speech_cache = lru L lru_wf for L :: "(u64, spoken, 'c) lru_ops" and lru_wf
begin

lemma tm_synthesize_answer:
  assumes inv: "tm_inv L lru_wf bits Q n tm" and inj: "inj_on (key_of bits) Q"
    and q: "(s, asked_engine (tc_default_engine (tm_config tm)) engine, p) \<in> Q"
    and run: "tm_synthesize L bits s engine p (tm, w) = (a, tm', w')"
  shows "a = answer (tm_engines tm) s (asked_engine (tc_default_engine (tm_config tm)) engine) p w \<and>
    tm_inv L lru_wf bits Q n tm' \<and> tm_engines tm' = tm_engines tm \<and> tm_config tm' = tm_config tm"
proof -
  define e k i where "e = asked_engine (tc_default_engine (tm_config tm)) engine"
    and "k = synthesis_cache_key bits s e p" and "i = unat (k AND 0xF)"
  obtain cached c1 where g: "lru_get L k (tm_synthesis_cache tm ! i) = (cached, c1)" by fastforce
  define tm1 where "tm1 = tm\<lparr>tm_synthesis_cache := (tm_synthesis_cache tm)[i := c1]\<rparr>"
  have i: "i < length (tm_synthesis_cache tm)" using inv shard_less by (simp add: tm_inv_def i_def)
  then have wf: "lru_wf n (tm_synthesis_cache tm ! i)" "0 < n" using inv by (auto simp: tm_inv_def)
  have c1: "lru_wf n c1" "map_of (lru_iter L c1) = map_of (lru_iter L (tm_synthesis_cache tm ! i))"
    and cached: "cached = map_of (lru_iter L (tm_synthesis_cache tm ! i)) k"
    using get_iter [OF wf(1) g] get_same [OF wf(1), of k] g by simp_all
  have pure: "\<And>j g. tm_engines tm j = Some g \<Longrightarrow> pure_engine g" using inv by (simp add: tm_inv_def)
  have holds: "\<exists>s e p. (s, e, p) \<in> Q \<and> key_of bits (s, e, p) = k' \<and> (\<forall>w. answer (tm_engines tm) s e p w = Inr a')"
    if "c \<in> set (tm_synthesis_cache tm)" "map_of (lru_iter L c) k' = Some a'" for c k' a'
    using inv that unfolding tm_inv_def by blast
  have wfs: "lru_wf n c" if "c \<in> set (tm_synthesis_cache tm)" for c using inv that by (simp add: tm_inv_def)
  have mem: "tm_synthesis_cache tm ! i \<in> set (tm_synthesis_cache tm)" using i by simp
  have inv1: "tm_inv L lru_wf bits Q n tm1"
    unfolding tm_inv_def tm1_def using inv i c1 wfs holds holds [OF mem]
    by (auto simp: tm_inv_def dest!: set_update_subset_insert [THEN subsetD])
  have [simp]: "tm_engines tm1 = tm_engines tm" "tm_config tm1 = tm_config tm"
      "tm_synthesis_cache tm1 = (tm_synthesis_cache tm)[i := c1]"
    by (simp_all add: tm1_def)
  have kq: "key_of bits (s, e, p) = k" by (simp add: key_of_def k_def)
  have eq: "tm_synthesize L bits s engine p (tm, w) =
     (case cached of
        Some hit \<Rightarrow> (Inr hit, tm1, w)
      | None \<Rightarrow>
          (case speak tm1 s e p w of
             (Inl err, w) \<Rightarrow> (Inl err, tm1, w)
           | (Inr a, w) \<Rightarrow>
               (Inr a, tm1\<lparr>tm_synthesis_cache := (tm_synthesis_cache tm1)[i :=
                  lru_put L k a (tm_synthesis_cache tm1 ! i)]\<rparr>, w)))"
    unfolding tm_synthesize_def Let_def prod.case asked_engine_def [symmetric] e_def [symmetric] k_def [symmetric]
      i_def [symmetric] g tm1_def [symmetric]
    by (rule refl)
  show ?thesis
  proof (cases cached)
    case (Some hit)
    then obtain s' e' p' where h: "(s', e', p') \<in> Q" "key_of bits (s', e', p') = k"
        "\<forall>w. answer (tm_engines tm) s' e' p' w = Inr hit"
      using holds [OF mem] cached by metis
    then have "(s', e', p') = (s, e, p)" using inj q kq by (auto simp: e_def dest: inj_onD)
    moreover have "a = Inr hit" "tm' = tm1" using run by (simp_all add: eq Some)
    ultimately show ?thesis using h(3) inv1 by (simp add: e_def [symmetric])
  next
    case None
    obtain r w1 where sp: "speak tm1 s e p w = (r, w1)" by fastforce
    then have r: "r = answer (tm_engines tm) s e p w" using speak_answer [of tm1 s e p w] by simp
    show ?thesis
    proof (cases r)
      case (Inl err)
      then have "a = Inl err" "tm' = tm1" using run by (simp_all add: eq None sp)
      then show ?thesis using inv1 r Inl by (simp add: e_def [symmetric])
    next
      case (Inr b)
      have "answer (tm_engines tm) s e p w' = answer (tm_engines tm) s e p w" for w'
        by (rule answer_pure) (rule pure)
      then have all: "\<forall>w. answer (tm_engines tm) s e p w = Inr b" using r Inr by simp
      define c2 where "c2 = lru_put L k b c1"
      have put: "lru_wf n c2" "map_of (lru_iter L c2) \<subseteq>\<^sub>m (map_of (lru_iter L c1))(k \<mapsto> b)"
        using put_iter [OF c1(1) wf(2)] put_same [OF c1(1) wf(2)] by (simp_all add: c2_def)
      have held: "\<exists>s e p. (s, e, p) \<in> Q \<and> key_of bits (s, e, p) = k' \<and> (\<forall>w. answer (tm_engines tm) s e p w = Inr a')"
        if "map_of (lru_iter L c2) k' = Some a'" for k' a'
      proof (cases "k' = k")
        case True
        have "((map_of (lru_iter L c1))(k \<mapsto> b)) k' = Some a'"
          using put(2) that by (rule map_leD)
        then have "a' = b" using True by simp
        then show ?thesis using q kq all True by (auto simp: e_def)
      next
        case False
        have "((map_of (lru_iter L c1))(k \<mapsto> b)) k' = Some a'"
          using put(2) that by (rule map_leD)
        then have "map_of (lru_iter L c1) k' = Some a'" using False by simp
        then show ?thesis using holds [OF mem] c1(2) by simp
      qed
      define tm2 where "tm2 = tm1\<lparr>tm_synthesis_cache := (tm_synthesis_cache tm)[i := c2]\<rparr>"
      have "tm_inv L lru_wf bits Q n tm2"
        unfolding tm_inv_def tm2_def tm1_def using inv i put(1) wfs holds held
        by (auto simp: tm_inv_def dest!: set_update_subset_insert [THEN subsetD])
      moreover have "tm_synthesize L bits s engine p (tm, w) = (Inr b, tm2, w1)"
        using i by (simp add: eq None sp Inr tm2_def c2_def)
      ultimately show ?thesis using run r Inr by (auto simp: e_def [symmetric] tm2_def)
    qed
  qed
qed

lemma tm_register_inv:
  "tm_inv L lru_wf bits Q n tm \<Longrightarrow> pure_engine e \<Longrightarrow> tm_inv L lru_wf bits Q n (snd (tm_register_engine i e tm))"
proof (cases "tm_engines tm i")
  case None
  assume inv: "tm_inv L lru_wf bits Q n tm" "pure_engine e"
  have "\<exists>s e' p. (s, e', p) \<in> Q \<and> key_of bits (s, e', p) = k \<and>
      (\<forall>w. answer ((tm_engines tm)(i \<mapsto> e)) s e' p w = Inr a)"
    if "c \<in> set (tm_synthesis_cache tm)" "map_of (lru_iter L c) k = Some a" for c k a
  proof -
    have "\<exists>s e p. (s, e, p) \<in> Q \<and> key_of bits (s, e, p) = k \<and> (\<forall>w. answer (tm_engines tm) s e p w = Inr a)"
      using inv(1) that unfolding tm_inv_def by blast
    then show ?thesis using answer_more_engines [where engines = "tm_engines tm" and i = i and g = e, OF _ None] by metis
  qed
  then show ?thesis using inv None by (simp add: tm_inv_def tm_register_engine_def)
qed (simp add: tm_register_engine_def)

lemma tts_run_plain:
  assumes "tm_inv L lru_wf bits Q n tm" "inj_on (key_of bits) Q"
    and "requests (tc_default_engine (tm_config tm)) ops \<subseteq> Q"
    and "\<forall>i e. AddEngine i e \<in> set ops \<longrightarrow> pure_engine e"
  shows "tts_run L bits ops (tm, w) = plain_run (tc_default_engine (tm_config tm)) ops (tm_engines tm) w0"
  using assms(1,3,4)
proof (induction ops arbitrary: tm w)
  case Nil
  then show ?case by simp
next
  case (Cons op ops)
  show ?case
  proof (cases op)
    case (AddEngine i e)
    let ?tm = "snd (tm_register_engine i e tm)"
    have same: "tm_config ?tm = tm_config tm"
        "tm_engines ?tm = (if tm_engines tm i = None then (tm_engines tm)(i \<mapsto> e) else tm_engines tm)"
      by (auto simp: tm_register_engine_def)
    have "tts_run L bits ops (?tm, w) = plain_run (tc_default_engine (tm_config ?tm)) ops (tm_engines ?tm) w0"
      using Cons.prems AddEngine same by (intro Cons.IH tm_register_inv) auto
    then show ?thesis using AddEngine same by simp
  next
    case (Speak s engine p)
    let ?e = "asked_engine (tc_default_engine (tm_config tm)) engine"
    obtain a tm1 w1 where step: "tm_synthesize L bits s engine p (tm, w) = (a, tm1, w1)" by (metis surj_pair)
    note res = tm_synthesize_answer [OF Cons.prems(1) assms(2) _ step]
    have "(s, ?e, p) \<in> Q" using Cons.prems(2) Speak by simp
    note r = res [OF this]
    have "a = answer (tm_engines tm) s ?e p w0"
      using r answer_pure [of "tm_engines tm" s ?e p w w0] Cons.prems(1) by (simp add: tm_inv_def)
    moreover have "tts_run L bits ops (tm1, w1) = plain_run (tc_default_engine (tm_config tm1)) ops (tm_engines tm1) w0"
      using Cons.prems Speak r by (intro Cons.IH) auto
    ultimately show ?thesis using Speak step r by simp
  qed
qed

lemma tm_new_inv: "tm_inv L lru_wf bits Q (tm_shard_cap (max (tc_synthesis_cache_capacity cfg) 1)) (tm_new L cfg)"
  using new_iter by (simp add: tm_inv_def tm_new_def Let_def tm_shard_cap_def)

end

interpretation list_speech: speech_cache list_lru list_lru_wf
  by unfold_locales

section \<open>Properties\<close>

text \<open>
  C25. With any LRU cache that behaves as documented, engines whose result is a function of the text and the
  parameters, and requests whose 64-bit keys differ when they do, every sequence of registrations and syntheses
  gives what the engines give without a cache: results, refused texts and unknown engines, whatever the capacity.
\<close>

theorem synthesis_cache_transparent:
  assumes "speech_cache L lru_wf" and "\<forall>i e. AddEngine i e \<in> set ops \<longrightarrow> pure_engine e"
    and "inj_on (key_of bits) (requests (tc_default_engine cfg) ops)"
  shows "tts_run L bits ops (tm_new L cfg, w) = plain_run (tc_default_engine cfg) ops Map.empty w"
proof -
  have cfg: "tm_config (tm_new L cfg) = cfg" "tm_engines (tm_new L cfg) = Map.empty"
    by (simp_all add: tm_new_def Let_def)
  show ?thesis
    using speech_cache.tts_run_plain [OF assms(1) speech_cache.tm_new_inv [OF assms(1)] assms(3) _ assms(2), where w = w and ?w0.0 = w]
    by (simp add: cfg)
qed

definition beep_engine :: "nat tts_engine" where
  "beep_engine = torch_engine\<lparr>te_synthesize :=
     \<lambda>s p w. (Inr (\<lparr>ad_samples = [1 / 2], ad_sample_rate = 24000, ad_channels = 1\<rparr>, None), w + 1)\<rparr>"

theorem synthesis_cache_transparent_witness:
  "tts_run list_lru (\<lambda>x. [0, 0, 0, 0])
     [Speak ''hi'' None sy_default, AddEngine ''kokoro-onnx'' beep_engine, Speak ''hi'' None sy_default,
      Speak ''hi'' (Some ''kokoro-onnx'') sy_default, Speak [] None sy_default]
     (tm_new list_lru tc_default, 0) =
   [Some (Inl (''Engine '' @ [CHR 0x27] @ ''kokoro-onnx'' @ [CHR 0x27] @ '' not found'')), None,
    Some (Inr (\<lparr>ad_samples = [1 / 2], ad_sample_rate = 24000, ad_channels = 1\<rparr>, None)),
    Some (Inr (\<lparr>ad_samples = [1 / 2], ad_sample_rate = 24000, ad_channels = 1\<rparr>, None)),
    Some (Inl ''Text cannot be empty'')]"
proof -
  let ?ops = "[Speak ''hi'' None sy_default, AddEngine ''kokoro-onnx'' beep_engine, Speak ''hi'' None sy_default,
      Speak ''hi'' (Some ''kokoro-onnx'') sy_default, Speak [] None sy_default]"
  have "synthesis_cache_key (\<lambda>x. [0, 0, 0, 0]) ''hi'' ''kokoro-onnx'' sy_default \<noteq>
    synthesis_cache_key (\<lambda>x. [0, 0, 0, 0]) [] ''kokoro-onnx'' sy_default"
    by (simp add: sy_default_def synthesis_cache_key_fnv1a text_of_def) code_simp
  then have inj: "inj_on (key_of (\<lambda>x. [0, 0, 0, 0])) (requests (tc_default_engine tc_default) ?ops)"
    by (auto simp: key_of_def asked_engine_def tc_default_def)
  have pure: "\<forall>i e. AddEngine i e \<in> set ?ops \<longrightarrow> pure_engine e"
    by (simp add: pure_engine_def beep_engine_def)
  show ?thesis
    using synthesis_cache_transparent [OF list_speech.speech_cache_axioms pure inj, of 0]
    by (simp add: answer_def asked_engine_def tc_default_def validate_text_def beep_engine_def torch_engine_def
        torch_capabilities_def)
qed

end
