(* ===== verification/Paths.thy ===== *)
theory Paths
  imports Text
begin

text \<open>
  Unix paths as \<open>std::path\<close> reads them: a \<open>PathBuf\<close> is its text, and comparisons go over its components.
  The two path checks of the model downloads (\<open>models/download.rs\<close>) are here too, with what they guarantee.
\<close>

section \<open>Components\<close>

datatype component = RootDir | CurDir | ParentDir | Normal string

fun split_slash :: "string \<Rightarrow> string list" where
  "split_slash [] = [[]]"
| "split_slash (c # cs) =
     (if c = CHR ''/'' then [] # split_slash cs
      else (c # hd (split_slash cs)) # tl (split_slash cs))"

definition part_component :: "string \<Rightarrow> component option" where
  "part_component s =
     (if s = [] \<or> s = ''.'' then None else if s = ''..'' then Some ParentDir else Some (Normal s))"

definition parts :: "string \<Rightarrow> component list" where
  "parts p = List.map_filter part_component (split_slash p)"

definition path_prefix :: "string \<Rightarrow> component list" where
  "path_prefix p =
     (if starts_with p ''/'' then [RootDir] else if hd (split_slash p) = ''.'' then [CurDir] else [])"

definition components :: "string \<Rightarrow> component list" where
  "components p = path_prefix p @ parts p"

definition is_absolute :: "string \<Rightarrow> bool" where
  "is_absolute p \<longleftrightarrow> starts_with p ''/''"

definition join_path :: "string \<Rightarrow> string \<Rightarrow> string" where
  "join_path base p =
     (if is_absolute p then p
      else if base \<noteq> [] \<and> last base \<noteq> CHR ''/'' then base @ ''/'' @ p
      else base @ p)"

fun comps_start_with :: "component list \<Rightarrow> component list \<Rightarrow> bool" where
  "comps_start_with p [] = True"
| "comps_start_with [] (c # cs) = False"
| "comps_start_with (d # ds) (c # cs) = (d = c \<and> comps_start_with ds cs)"

section \<open>The checks of the downloads\<close>

fun is_normal :: "component \<Rightarrow> bool" where
  "is_normal (Normal s) = True"
| "is_normal _ = False"

definition is_safe_relative_path :: "string \<Rightarrow> bool" where
  "is_safe_relative_path p \<longleftrightarrow> p \<noteq> [] \<and> CHR 0x00 \<notin> set p \<and> list_all is_normal (components p)"

text \<open>The lexical normal form; \<open>None\<close> is a parent of nothing.\<close>

fun normalize :: "component list \<Rightarrow> component list \<Rightarrow> component list option" where
  "normalize acc [] = Some acc"
| "normalize acc (ParentDir # cs) =
     (if acc = [] \<or> last acc = RootDir then None else normalize (butlast acc) cs)"
| "normalize acc (CurDir # cs) = normalize acc cs"
| "normalize acc (RootDir # cs) = normalize [RootDir] cs"
| "normalize acc (Normal s # cs) = normalize (acc @ [Normal s]) cs"

definition path_is_within :: "string \<Rightarrow> string \<Rightarrow> bool" where
  "path_is_within child base \<longleftrightarrow>
     (case normalize [] (components child) of
        None \<Rightarrow> False
      | Some n \<Rightarrow> comps_start_with n (components base))"

section \<open>Facts about paths\<close>

lemma split_slash_nonempty [simp]: "split_slash p \<noteq> []"
  by (cases p) auto

lemma split_slash_append: "split_slash (p @ CHR ''/'' # q) = split_slash p @ split_slash q"
proof (induction p)
  case (Cons c p)
  have "split_slash p = hd (split_slash p) # tl (split_slash p)" by simp
  with Cons show ?case by auto
qed simp

lemma parts_append: "parts (p @ CHR ''/'' # q) = parts p @ parts q"
  by (simp add: parts_def split_slash_append map_filter_def)

lemma parts_slash: "parts (p @ ''/'') = parts p"
  using parts_append [of p "[]"] by (simp add: parts_def map_filter_def part_component_def)

lemma parts_Nil [simp]: "parts [] = []"
  by (simp add: parts_def map_filter_def part_component_def)

lemma hd_split_append: "hd (split_slash (p @ CHR ''/'' # q)) = hd (split_slash p)"
  by (simp add: split_slash_append hd_append)

lemma prefix_append:
  assumes "p \<noteq> []"
  shows "path_prefix (p @ CHR ''/'' # q) = path_prefix p"
proof -
  have "starts_with (p @ CHR ''/'' # q) ''/'' \<longleftrightarrow> starts_with p ''/''" using assms by (cases p) auto
  then show ?thesis unfolding path_prefix_def hd_split_append by simp
qed

lemma prefix_slash: "path_prefix (p @ CHR ''/'' # q) = path_prefix (p @ ''/'')"
proof -
  have "starts_with (p @ CHR ''/'' # q) ''/'' \<longleftrightarrow> starts_with (p @ ''/'') ''/''" by (cases p) auto
  then show ?thesis unfolding path_prefix_def hd_split_append by simp
qed

text \<open>A relative path joined to a base adds its components, a leading dot apart.\<close>

lemma join_nonempty: "base \<noteq> [] \<Longrightarrow> join_path base p \<noteq> []"
  by (auto simp: join_path_def is_absolute_def)

lemma components_join:
  assumes "base \<noteq> []" "\<not> is_absolute p"
  shows "components (join_path base p) = components base @ parts p"
proof (cases "last base = CHR ''/''")
  case False
  then show ?thesis
    using assms by (simp add: join_path_def components_def prefix_append parts_append)
next
  case True
  then obtain b where b: "base = b @ ''/''" using assms(1) by (metis append_butlast_last_id)
  then have "join_path base p = b @ CHR ''/'' # p" using assms(2) by (simp add: join_path_def)
  then show ?thesis
    unfolding b components_def by (simp only: prefix_slash [of b p] parts_append parts_Nil append_assoc append_Nil)
qed

lemma safe_components:
  assumes "is_safe_relative_path p"
  shows "\<not> is_absolute p \<and> components p = parts p \<and> list_all is_normal (parts p)"
  using assms
  by (auto simp: is_safe_relative_path_def components_def path_prefix_def is_absolute_def split: if_splits)

lemma normalize_normal: "list_all is_normal cs \<Longrightarrow> normalize acc (cs @ ds) = normalize (acc @ cs) ds"
proof (induction cs arbitrary: acc)
  case (Cons c cs)
  then show ?case by (cases c) auto
qed simp

text \<open>A base without dots: the root or not, and names.\<close>

definition plain_path :: "string \<Rightarrow> bool" where
  "plain_path p \<longleftrightarrow> p \<noteq> [] \<and> list_all is_normal (parts p) \<and> path_prefix p \<noteq> [CurDir]"

lemma comps_start_with_iff: "comps_start_with p q \<longleftrightarrow> (\<exists>r. p = q @ r)"
  by (induction p q rule: comps_start_with.induct) auto

lemma normalize_plain:
  "plain_path base \<Longrightarrow> list_all is_normal cs \<Longrightarrow> normalize [] (components base @ cs) = Some (components base @ cs)"
  using normalize_normal [of "parts base @ cs" "path_prefix base" "[]"]
  by (auto simp: plain_path_def components_def path_prefix_def normalize_normal [of _ _ "[]", simplified] split: if_splits)

text \<open>Below a plain base the second check never refuses what the first accepts.\<close>

lemma safe_is_within:
  assumes "plain_path base" "is_safe_relative_path p"
  shows "path_is_within (join_path base p) base"
proof -
  have "components (join_path base p) = components base @ parts p"
    using assms safe_components by (simp add: components_join plain_path_def)
  then show ?thesis
    using normalize_plain [OF assms(1), of "parts p"] safe_components [OF assms(2)]
    by (simp add: path_is_within_def comps_start_with_iff)
qed

text \<open>Below a base that starts with a dot it refuses everything: the normal form has lost the dot.\<close>

lemma normalize_no_dot: "normalize acc cs = Some n \<Longrightarrow> CurDir \<notin> set acc \<Longrightarrow> CurDir \<notin> set n"
  by (induction acc cs rule: normalize.induct) (auto split: if_splits dest: in_set_butlastD)

lemma dot_base_refuses:
  assumes "hd (split_slash base) = ''.''"
  shows "\<not> path_is_within child base"
proof -
  have "CurDir \<in> set (components base)"
    using assms by (cases base) (auto simp: components_def path_prefix_def starts_with_iff split: if_splits)
  then show ?thesis
    using normalize_no_dot [of "[]" "components child"]
    by (auto simp: path_is_within_def comps_start_with_iff split: option.split)
qed

end
