(* ===== verification/Download.thy ===== *)
theory Download
  imports Paths Value Floats
begin

text \<open>
  The manager of model downloads (\<open>models/download.rs\<close>): tasks, the transfers from HuggingFace and from
  a URL, the permits, the models in the cache, and the progress channels. The URL parser, the HTTP client
  and the errors of the file system are the fields of \<open>download_env\<close>; a channel is a \<open>watch\<close> channel of
  tokio, with the laws of the locale below. A file is known by the components of its path: links are not
  modelled. The transfers of one repository run in the order of their completion, one after the other.
\<close>

section \<open>Watch channels\<close>

record ('a, 'ch) watch_ops =
  wo_channel :: "'a \<Rightarrow> 'ch"
  wo_send :: "'a \<Rightarrow> 'ch \<Rightarrow> 'ch"
  wo_subscribe :: "'ch \<Rightarrow> 'ch"
  wo_drop :: "'ch \<Rightarrow> 'ch"
  wo_borrow :: "'ch \<Rightarrow> 'a"
  wo_receivers :: "'ch \<Rightarrow> nat"

text \<open>A value sent while there is no receiver is not stored: \<open>send\<close> fails and leaves the channel alone.\<close>

locale watch_channel =
  fixes W :: "('a, 'ch) watch_ops"
  assumes channel_laws: "wo_borrow W (wo_channel W v) = v \<and> wo_receivers W (wo_channel W v) = 1"
    and send_laws: "wo_borrow W (wo_send W v c) = (if wo_receivers W c = 0 then wo_borrow W c else v) \<and>
      wo_receivers W (wo_send W v c) = wo_receivers W c"
    and subscribe_laws: "wo_borrow W (wo_subscribe W c) = wo_borrow W c \<and>
      wo_receivers W (wo_subscribe W c) = wo_receivers W c + 1"
    and drop_laws: "wo_borrow W (wo_drop W c) = wo_borrow W c \<and>
      wo_receivers W (wo_drop W c) = wo_receivers W c - 1"

definition pair_watch :: "('a, 'a \<times> nat) watch_ops" where
  "pair_watch = \<lparr>wo_channel = (\<lambda>v. (v, 1)), wo_send = (\<lambda>v c. if snd c = 0 then c else (v, snd c)),
     wo_subscribe = (\<lambda>c. (fst c, snd c + 1)), wo_drop = (\<lambda>c. (fst c, snd c - 1)), wo_borrow = fst, wo_receivers = snd\<rparr>"

section \<open>Tasks and models\<close>

datatype model_source =
  HuggingFace string "string option" | TorchHub string string | Url string | Local string

datatype download_status = Pending | Downloading | Completed | Failed | Cancelled

record download_task =
  dt_id :: string
  dt_model_name :: string
  dt_source :: model_source
  dt_status :: download_status
  dt_progress :: real
  dt_total_size :: "u64 option"
  dt_downloaded_size :: u64
  dt_error :: "string option"
  dt_started_at :: nat
  dt_completed_at :: "nat option"

record dl_metadata =
  dl_description :: "string option"
  dl_tags :: "string list"
  dl_framework :: "string option"
  dl_task :: "string option"
  dl_license :: "string option"

definition no_metadata :: dl_metadata where
  "no_metadata = \<lparr>dl_description = None, dl_tags = [], dl_framework = None, dl_task = None, dl_license = None\<rparr>"

record model_info =
  mi_name :: string
  mi_source :: model_source
  mi_local_path :: string
  mi_size_bytes :: u64
  mi_downloaded_at :: nat
  mi_metadata :: dl_metadata

record 'ch download_manager =
  dm_cache_dir :: string
  dm_tasks :: "string \<Rightarrow> download_task option"
  dm_models :: "string \<Rightarrow> model_info option"
  dm_max_concurrent :: nat
  dm_permits :: nat
  dm_channels :: "string \<Rightarrow> 'ch option"

definition dm_new :: "string \<Rightarrow> 'ch download_manager" where
  "dm_new cache_dir = \<lparr>dm_cache_dir = cache_dir, dm_tasks = Map.empty, dm_models = Map.empty,
     dm_max_concurrent = 3, dm_permits = 3, dm_channels = Map.empty\<rparr>"

section \<open>What is outside\<close>

record url_parts =
  up_scheme :: string
  up_host :: "string option"
  up_segments :: "string list option"

record http_reply =
  hr_success :: bool
  hr_length :: "u64 option"
  hr_chunks :: "(string + u8 list) list"
  hr_json :: "string + val"

text \<open>A directory entry as it is read, or the error of reading it.\<close>

datatype fs_tree = FsFile u64 | FsDir "fs_tree list" | FsOther | FsUnreadable string

type_synonym file_store = "component list \<Rightarrow> u8 list option"

text \<open>
  \<open>de_mkdir\<close>, \<open>de_create\<close> and \<open>de_remove\<close> give the error of making a directory, creating a file and
  removing a directory, if there is one; a removal that fails has removed some files first.
\<close>

record download_env =
  de_parse :: "string \<Rightarrow> string + url_parts"
  de_fetch :: "string \<Rightarrow> string + http_reply"
  de_mkdir :: "component list \<Rightarrow> string option"
  de_create :: "string \<Rightarrow> string option"
  de_tree :: "string \<Rightarrow> fs_tree list"
  de_exists :: "string \<Rightarrow> bool"
  de_remove :: "string \<Rightarrow> (string \<times> component list list) option"

text \<open>The sizes of the files below a directory, until an entry cannot be read.\<close>

fun tree_size :: "fs_tree \<Rightarrow> string + u64"
and entries_size :: "u64 \<Rightarrow> fs_tree list \<Rightarrow> string + u64" where
  "tree_size (FsFile n) = Inr n"
| "tree_size (FsDir es) = entries_size 0 es"
| "tree_size FsOther = Inr 0"
| "tree_size (FsUnreadable e) = Inl e"
| "entries_size n [] = Inr n"
| "entries_size n (t # es) = bindR (tree_size t) (\<lambda>k. entries_size (n + k) es)"

definition calculate_dir_size :: "fs_tree list \<Rightarrow> string + u64" where
  "calculate_dir_size es = entries_size 0 es"

section \<open>Updates of a task\<close>

definition notify_task_subscribers ::
  "(download_task, 'ch) watch_ops \<Rightarrow> download_task \<Rightarrow> 'ch download_manager \<Rightarrow> 'ch download_manager" where
  "notify_task_subscribers W t m =
     (case dm_channels m (dt_id t) of
        Some ch \<Rightarrow> m\<lparr>dm_channels := (dm_channels m)(dt_id t \<mapsto> wo_send W t ch)\<rparr>
      | None \<Rightarrow> m)"

definition update_task ::
  "(download_task, 'ch) watch_ops \<Rightarrow> string \<Rightarrow> (download_task \<Rightarrow> download_task) \<Rightarrow> 'ch download_manager \<Rightarrow>
   'ch download_manager" where
  "update_task W i f m =
     (case dm_tasks m i of
        Some t \<Rightarrow> notify_task_subscribers W (f t) (m\<lparr>dm_tasks := (dm_tasks m)(i \<mapsto> f t)\<rparr>)
      | None \<Rightarrow> m)"

definition update_task_status ::
  "(download_task, 'ch) watch_ops \<Rightarrow> nat \<Rightarrow> string \<Rightarrow> download_status \<Rightarrow> 'ch download_manager \<Rightarrow> 'ch download_manager" where
  "update_task_status W now i status =
     update_task W i (\<lambda>t. t\<lparr>dt_status := status,
       dt_completed_at := (if status = Completed then Some now else dt_completed_at t)\<rparr>)"

definition update_task_progress ::
  "(download_task, 'ch) watch_ops \<Rightarrow> string \<Rightarrow> real \<Rightarrow> u64 \<Rightarrow> u64 option \<Rightarrow> 'ch download_manager \<Rightarrow> 'ch download_manager" where
  "update_task_progress W i progress downloaded size_hint =
     update_task W i (\<lambda>t. t\<lparr>dt_progress := progress, dt_downloaded_size := downloaded, dt_total_size := size_hint\<rparr>)"

definition update_task_error ::
  "(download_task, 'ch) watch_ops \<Rightarrow> nat \<Rightarrow> string \<Rightarrow> string \<Rightarrow> 'ch download_manager \<Rightarrow> 'ch download_manager" where
  "update_task_error W now i err =
     update_task W i (\<lambda>t. t\<lparr>dt_status := Failed, dt_error := Some err, dt_completed_at := Some now\<rparr>)"

section \<open>Transfers\<close>

text \<open>The body of a reply, chunk by chunk into a file; \<open>progress\<close> is the percentage to report.\<close>

fun write_chunks ::
  "(download_task, 'ch) watch_ops \<Rightarrow> string \<Rightarrow> (u64 \<Rightarrow> u64 \<Rightarrow> real) \<Rightarrow> u64 option \<Rightarrow> u64 \<Rightarrow> (string + u8 list) list \<Rightarrow>
   component list \<Rightarrow> 'ch download_manager \<times> file_store \<Rightarrow> (string + unit) \<times> 'ch download_manager \<times> file_store" where
  "write_chunks W i progress size_hint downloaded [] key mf = (Inr (), mf)"
| "write_chunks W i progress size_hint downloaded (Inl e # cs) key mf = (Inl e, mf)"
| "write_chunks W i progress size_hint downloaded (Inr b # cs) key (m, files) =
     (let content = (case files key of Some c \<Rightarrow> c | None \<Rightarrow> []);
          files = files(key \<mapsto> content @ b);
          downloaded = downloaded + word_of_nat (length b);
          m = (case size_hint of
                 Some n \<Rightarrow> update_task_progress W i (progress downloaded n) downloaded size_hint m
               | None \<Rightarrow> m)
      in write_chunks W i progress size_hint downloaded cs key (m, files))"

definition save_body ::
  "(download_task, 'ch) watch_ops \<Rightarrow> download_env \<Rightarrow> string \<Rightarrow> (u64 \<Rightarrow> u64 \<Rightarrow> real) \<Rightarrow> http_reply \<Rightarrow> string \<Rightarrow>
   'ch download_manager \<times> file_store \<Rightarrow> (string + unit) \<times> 'ch download_manager \<times> file_store" where
  "save_body W env i progress reply file_path mf =
     (case de_create env file_path of
        Some e \<Rightarrow> (Inl e, mf)
      | None \<Rightarrow>
          (let (m, files) = mf; key = components file_path
           in write_chunks W i progress (hr_length reply) 0 (hr_chunks reply) key (m, files(key \<mapsto> []))))"

definition allowed_hosts :: "string list" where
  "allowed_hosts = [''huggingface.co'', ''cdn-lfs.huggingface.co'', ''github.com'', ''objects.githubusercontent.com'',
     ''download.pytorch.org'', ''storage.googleapis.com'']"

definition check_url :: "url_parts \<Rightarrow> string + unit" where
  "check_url u =
     (let host = (case up_host u of Some h \<Rightarrow> h | None \<Rightarrow> []);
          is_loopback = host \<in> {''localhost'', ''127.0.0.1'', ''[::1]'', ''::1''}
      in if \<not> (up_scheme u = ''https'' \<or> (up_scheme u = ''http'' \<and> is_loopback))
         then Inl (''scheme '' @ [CHR 0x27] @ up_scheme u @ [CHR 0x27] @ '' is not allowed for model downloads'')
         else if \<not> is_loopback \<and> \<not> list_ex (\<lambda>h. host = h \<or> ends_with host (''.'' @ h)) allowed_hosts
         then Inl (''model download host '' @ [CHR 0x27] @ host @ [CHR 0x27] @ '' is not in the allowlist'')
         else Inr ())"

definition raw_filename :: "url_parts \<Rightarrow> string" where
  "raw_filename u =
     (case up_segments u of
        Some ss \<Rightarrow> if ss \<noteq> [] \<and> last ss \<noteq> [] then last ss else ''model.bin''
      | None \<Rightarrow> ''model.bin'')"

definition url_progress :: "rnd \<Rightarrow> u64 \<Rightarrow> u64 \<Rightarrow> real" where
  "url_progress fl downloaded n = fl (fl (fl (real (unat downloaded)) / fl (real (unat n))) * 100)"

definition download_from_url ::
  "(download_task, 'ch) watch_ops \<Rightarrow> rnd \<Rightarrow> download_env \<Rightarrow> string \<Rightarrow> string \<Rightarrow> string \<Rightarrow>
   'ch download_manager \<times> file_store \<Rightarrow> (string + unit) \<times> 'ch download_manager \<times> file_store" where
  "download_from_url W fl env i url target_dir mf =
     (case de_parse env url of
        Inl e \<Rightarrow> (Inl ''invalid model URL'', mf)
      | Inr u \<Rightarrow>
          (case check_url u of
             Inl e \<Rightarrow> (Inl e, mf)
           | Inr _ \<Rightarrow>
               (case de_fetch env url of
                  Inl e \<Rightarrow> (Inl e, mf)
                | Inr reply \<Rightarrow>
                    (let raw = raw_filename u; file_path = join_path target_dir raw
                     in if \<not> hr_success reply then (Inl (''Failed to download from URL: '' @ url), mf)
                        else if \<not> is_safe_relative_path raw \<or> CHR ''/'' \<in> set raw \<or> CHR 0x5C \<in> set raw
                        then (Inl (''rejected unsafe filename in URL: '' @ raw), mf)
                        else if \<not> path_is_within file_path target_dir
                        then (Inl (''resolved filename escapes target dir: '' @ raw), mf)
                        else save_body W env i (url_progress fl) reply file_path mf))))"

definition hf_progress :: "rnd \<Rightarrow> nat \<Rightarrow> nat \<Rightarrow> u64 \<Rightarrow> u64 \<Rightarrow> real" where
  "hf_progress fl idx total_files downloaded n =
     (let file_progress = fl (fl (fl (real idx) / fl (real total_files)) * 100);
          chunk_progress = fl (fl (fl (fl (real (unat downloaded)) / fl (real (unat n))) * fl (1 / fl (real total_files))) * 100)
      in fl (file_progress + chunk_progress))"

definition hf_file ::
  "(download_task, 'ch) watch_ops \<Rightarrow> rnd \<Rightarrow> download_env \<Rightarrow> string \<Rightarrow> string \<Rightarrow> string \<Rightarrow> string \<Rightarrow> nat \<Rightarrow> nat \<times> string \<Rightarrow>
   'ch download_manager \<times> file_store \<Rightarrow> (string + unit) \<times> 'ch download_manager \<times> file_store" where
  "hf_file W fl env i repo branch target total_files ip mf =
     (let (idx, path) = ip;
          file_url = ''https://huggingface.co/'' @ repo @ ''/resolve/'' @ branch @ ''/'' @ path;
          file_path = join_path target path
      in if \<not> path_is_within file_path target then (Inl (''rejected path escaping target dir: '' @ path), mf)
         else case de_mkdir env (butlast (components file_path)) of
           Some e \<Rightarrow> (Inl e, mf)
         | None \<Rightarrow>
             (case de_fetch env file_url of
                Inl e \<Rightarrow> (Inl (''Failed to download file: '' @ path), mf)
              | Inr reply \<Rightarrow>
                  if \<not> hr_success reply then (Inr (), mf)
                  else save_body W env i (hf_progress fl idx total_files) reply file_path mf))"

text \<open>All files are fetched; the result is the first error in the order of completion.\<close>

fun hf_files ::
  "(nat \<times> string \<Rightarrow> 's \<Rightarrow> (string + unit) \<times> 's) \<Rightarrow> (nat \<times> string) list \<Rightarrow> 's \<Rightarrow> (string + unit) \<times> 's" where
  "hf_files get [] s = (Inr (), s)"
| "hf_files get (ip # ips) s =
     (let (r, s) = get ip s; (rs, s) = hf_files get ips s in (bindR r (\<lambda>_. rs), s))"

definition files_to_download :: "val list \<Rightarrow> string list" where
  "files_to_download files =
     filter is_safe_relative_path (filter (\<lambda>p. \<not> ends_with p ''/'')
       (List.map_filter (\<lambda>f. Option.bind (vget ''path'' f) as_str) files))"

definition download_from_huggingface ::
  "(download_task, 'ch) watch_ops \<Rightarrow> rnd \<Rightarrow> download_env \<Rightarrow> ((nat \<times> string) list \<Rightarrow> (nat \<times> string) list) \<Rightarrow> string \<Rightarrow> string \<Rightarrow>
   string option \<Rightarrow> string \<Rightarrow> 'ch download_manager \<times> file_store \<Rightarrow> (string + unit) \<times> 'ch download_manager \<times> file_store" where
  "download_from_huggingface W fl env order i repo_id revision target_dir mf =
     (let branch = (case revision of Some r \<Rightarrow> r | None \<Rightarrow> ''main'');
          api_url = ''https://huggingface.co/api/models/'' @ repo_id
      in case de_fetch env api_url of
           Inl e \<Rightarrow> (Inl ''Failed to fetch model info'', mf)
         | Inr response \<Rightarrow>
             if \<not> hr_success response then (Inl (''Model not found: '' @ repo_id), mf)
             else case hr_json response of
               Inl e \<Rightarrow> (Inl e, mf)
             | Inr _ \<Rightarrow>
                 (case bindR (de_fetch env (api_url @ ''/tree/'' @ branch)) hr_json of
                    Inl e \<Rightarrow> (Inl e, mf)
                  | Inr (JArray files) \<Rightarrow>
                      (let paths = files_to_download files
                       in hf_files (hf_file W fl env i repo_id branch target_dir (length paths))
                            (order (enumerate 0 paths)) mf)
                  | Inr _ \<Rightarrow> (Inl ''invalid type, expected a sequence'', mf)))"

section \<open>Tasks\<close>

definition new_task :: "nat \<Rightarrow> string \<Rightarrow> string \<Rightarrow> model_source \<Rightarrow> download_task" where
  "new_task now i name source = \<lparr>dt_id = i, dt_model_name = name, dt_source = source, dt_status = Pending,
     dt_progress = 0, dt_total_size = None, dt_downloaded_size = 0, dt_error = None, dt_started_at = now,
     dt_completed_at = None\<rparr>"

text \<open>The id is new; the worker that is spawned for the task is a step of its own.\<close>

definition dm_download_model ::
  "nat \<Rightarrow> string \<Rightarrow> string \<Rightarrow> model_source \<Rightarrow> 'ch download_manager \<Rightarrow> string \<times> 'ch download_manager" where
  "dm_download_model now i name source m = (i, m\<lparr>dm_tasks := (dm_tasks m)(i \<mapsto> new_task now i name source)\<rparr>)"

definition model_dir :: "'ch download_manager \<Rightarrow> download_task \<Rightarrow> string" where
  "model_dir m t = join_path (dm_cache_dir m) (dt_model_name t)"

definition dm_begin ::
  "(download_task, 'ch) watch_ops \<Rightarrow> nat \<Rightarrow> string \<Rightarrow> 'ch download_manager \<Rightarrow> (string + download_task) \<times> 'ch download_manager"
where
  "dm_begin W now i m =
     (case dm_tasks m i of
        None \<Rightarrow> (Inl ''Task not found'', m)
      | Some t \<Rightarrow> (Inr t, update_task_status W now i Downloading m))"

definition dm_transfer ::
  "(download_task, 'ch) watch_ops \<Rightarrow> rnd \<Rightarrow> download_env \<Rightarrow> ((nat \<times> string) list \<Rightarrow> (nat \<times> string) list) \<Rightarrow>
   download_task \<Rightarrow> 'ch download_manager \<times> file_store \<Rightarrow> (string + unit) \<times> 'ch download_manager \<times> file_store" where
  "dm_transfer W fl env order t mf =
     (let i = dt_id t; dir = model_dir (fst mf) t
      in case de_mkdir env (components dir) of
           Some e \<Rightarrow> (Inl e, mf)
         | None \<Rightarrow>
             (case dt_source t of
                HuggingFace repo_id revision \<Rightarrow> download_from_huggingface W fl env order i repo_id revision dir mf
              | Url url \<Rightarrow> download_from_url W fl env i url dir mf
              | TorchHub _ _ \<Rightarrow> (Inl ''TorchHub downloads not yet implemented'', mf)
              | Local _ \<Rightarrow> (Inl (''Local models don'' @ [CHR 0x27] @ ''t need downloading''), mf)))"

definition dm_publish ::
  "download_env \<Rightarrow> nat \<Rightarrow> download_task \<Rightarrow> 'ch download_manager \<Rightarrow> (string + unit) \<times> 'ch download_manager" where
  "dm_publish env now t m =
     (let dir = model_dir m t
      in case calculate_dir_size (de_tree env dir) of
           Inl e \<Rightarrow> (Inl e, m)
         | Inr bytes \<Rightarrow>
             (Inr (), m\<lparr>dm_models := (dm_models m)(dt_model_name t \<mapsto>
                \<lparr>mi_name = dt_model_name t, mi_source = dt_source t, mi_local_path = dir, mi_size_bytes = bytes,
                 mi_downloaded_at = now, mi_metadata = no_metadata\<rparr>)\<rparr>))"

text \<open>One task from its permit to its end, while no other runs; the permit is there and given back.\<close>

definition execute_download ::
  "(download_task, 'ch) watch_ops \<Rightarrow> rnd \<Rightarrow> download_env \<Rightarrow> ((nat \<times> string) list \<Rightarrow> (nat \<times> string) list) \<Rightarrow> nat \<Rightarrow> string \<Rightarrow>
   'ch download_manager \<times> file_store \<Rightarrow> (string + unit) \<times> 'ch download_manager \<times> file_store" where
  "execute_download W fl env order now i mf =
     (let (m, files) = mf; (r, m) = dm_begin W now i m
      in case r of
           Inl e \<Rightarrow> (Inl e, m, files)
         | Inr t \<Rightarrow>
             (case dm_transfer W fl env order t (m, files) of
                (Inl e, mf) \<Rightarrow> (Inl e, mf)
              | (Inr _, m, files) \<Rightarrow>
                  (let m = update_task_status W now i Completed m; (r, m) = dm_publish env now t m
                   in (r, m, files))))"

definition run_worker ::
  "(download_task, 'ch) watch_ops \<Rightarrow> rnd \<Rightarrow> download_env \<Rightarrow> ((nat \<times> string) list \<Rightarrow> (nat \<times> string) list) \<Rightarrow> nat \<Rightarrow> string \<Rightarrow>
   'ch download_manager \<times> file_store \<Rightarrow> 'ch download_manager \<times> file_store" where
  "run_worker W fl env order now i mf =
     (case execute_download W fl env order now i mf of
        (Inl e, m, files) \<Rightarrow> (update_task_error W now i e m, files)
      | (Inr _, mf) \<Rightarrow> mf)"

section \<open>Queries, subscriptions, deletion\<close>

definition get_task_status :: "string \<Rightarrow> 'ch download_manager \<Rightarrow> download_task option" where
  "get_task_status i m = dm_tasks m i"

text \<open>
  \<open>subscribe_task\<close> is not atomic: the task is read before the channel is stored, in \<open>subscribe_insert\<close>.
\<close>

definition subscribe_insert ::
  "(download_task, 'ch) watch_ops \<Rightarrow> string \<Rightarrow> download_task \<Rightarrow> 'ch download_manager \<Rightarrow> 'ch download_manager" where
  "subscribe_insert W i t m = m\<lparr>dm_channels := (dm_channels m)(i \<mapsto> wo_channel W t)\<rparr>"

definition subscribe_task ::
  "(download_task, 'ch) watch_ops \<Rightarrow> string \<Rightarrow> 'ch download_manager \<Rightarrow> bool \<times> 'ch download_manager" where
  "subscribe_task W i m =
     (case dm_channels m i of
        Some ch \<Rightarrow> (True, m\<lparr>dm_channels := (dm_channels m)(i \<mapsto> wo_subscribe W ch)\<rparr>)
      | None \<Rightarrow>
          (case dm_tasks m i of
             None \<Rightarrow> (False, m)
           | Some t \<Rightarrow> (True, subscribe_insert W i t m)))"

definition unsubscribe ::
  "(download_task, 'ch) watch_ops \<Rightarrow> string \<Rightarrow> 'ch download_manager \<Rightarrow> 'ch download_manager" where
  "unsubscribe W i m =
     (case dm_channels m i of
        Some ch \<Rightarrow> m\<lparr>dm_channels := (dm_channels m)(i \<mapsto> wo_drop W ch)\<rparr>
      | None \<Rightarrow> m)"

definition dm_list_tasks :: "string list \<Rightarrow> 'ch download_manager \<Rightarrow> download_task list" where
  "dm_list_tasks iter m = List.map_filter (dm_tasks m) iter"

definition dm_list_models :: "string list \<Rightarrow> 'ch download_manager \<Rightarrow> model_info list" where
  "dm_list_models iter m = List.map_filter (dm_models m) iter"

definition dm_get_model :: "string \<Rightarrow> 'ch download_manager \<Rightarrow> model_info option" where
  "dm_get_model name m = dm_models m name"

definition below :: "string \<Rightarrow> component list \<Rightarrow> bool" where
  "below dir key \<longleftrightarrow> comps_start_with key (components dir)"

definition dm_delete_model ::
  "download_env \<Rightarrow> string \<Rightarrow> 'ch download_manager \<times> file_store \<Rightarrow> (string + unit) \<times> 'ch download_manager \<times> file_store" where
  "dm_delete_model env name mf =
     (let (m, files) = mf
      in case dm_models m name of
           None \<Rightarrow> (Inl (''Model not found: '' @ name), m, files)
         | Some info \<Rightarrow>
             (let m = m\<lparr>dm_models := (dm_models m)(name := None)\<rparr>; dir = mi_local_path info
              in if \<not> de_exists env dir then (Inr (), m, files)
                 else case de_remove env dir of
                   Some (e, removed) \<Rightarrow>
                     (Inl ''Failed to delete model directory'', m,
                      \<lambda>k. if k \<in> set removed \<and> below dir k then None else files k)
                 | None \<Rightarrow> (Inr (), m, \<lambda>k. if below dir k then None else files k)))"

record cache_info =
  ci_cache_dir :: string
  ci_total_size_bytes :: u64
  ci_model_count :: nat
  ci_models :: "model_info list"

definition get_cache_info :: "string list \<Rightarrow> 'ch download_manager \<Rightarrow> cache_info" where
  "get_cache_info iter m =
     \<lparr>ci_cache_dir = dm_cache_dir m, ci_total_size_bytes = sum_list (map mi_size_bytes (dm_list_models iter m)),
      ci_model_count = length iter, ci_models = dm_list_models iter m\<rparr>"

section \<open>The cache at the start\<close>

text \<open>
  One entry of the cache directory. \<open>ce_metadata\<close> is \<open>metadata.json\<close>, if it is there: the error of reading
  it, or what it says, the defaults when it does not parse.
\<close>

record cache_entry =
  ce_path :: string
  ce_is_dir :: bool
  ce_name :: "string option"
  ce_metadata :: "(string + dl_metadata) option"

fun scan_cache ::
  "download_env \<Rightarrow> nat \<Rightarrow> (string + cache_entry) list \<Rightarrow> 'ch download_manager \<Rightarrow> (string + unit) \<times> 'ch download_manager" where
  "scan_cache env now [] m = (Inr (), m)"
| "scan_cache env now (Inl e # es) m = (Inl e, m)"
| "scan_cache env now (Inr c # es) m =
     (if \<not> ce_is_dir c then scan_cache env now es m
      else case (case ce_metadata c of Some r \<Rightarrow> r | None \<Rightarrow> Inr no_metadata) of
        Inl e \<Rightarrow> (Inl e, m)
      | Inr md \<Rightarrow>
          (case calculate_dir_size (de_tree env (ce_path c)) of
             Inl e \<Rightarrow> (Inl e, m)
           | Inr bytes \<Rightarrow>
               let name = (case ce_name c of Some n \<Rightarrow> n | None \<Rightarrow> ''unknown'')
               in scan_cache env now es (m\<lparr>dm_models := (dm_models m)(name \<mapsto>
                    \<lparr>mi_name = name, mi_source = Local (ce_path c), mi_local_path = ce_path c, mi_size_bytes = bytes,
                     mi_downloaded_at = now, mi_metadata = md\<rparr>)\<rparr>)))"

definition dm_initialize ::
  "download_env \<Rightarrow> nat \<Rightarrow> (string + cache_entry) list \<Rightarrow> 'ch download_manager \<Rightarrow> (string + unit) \<times> 'ch download_manager" where
  "dm_initialize env now entries m =
     (case de_mkdir env (components (dm_cache_dir m)) of
        Some e \<Rightarrow> (Inl ''Failed to create cache directory'', m)
      | None \<Rightarrow> scan_cache env now entries m)"

section \<open>What a transfer touches\<close>

definition task_core :: "download_task \<Rightarrow> string \<times> string \<times> model_source \<times> download_status \<times> nat option" where
  "task_core t = (dt_id t, dt_model_name t, dt_source t, dt_status t, dt_completed_at t)"

text \<open>The same manager up to progress and channels, and files that differ only below a directory.\<close>

definition transfer_frame ::
  "string \<Rightarrow> 'ch download_manager \<times> file_store \<Rightarrow> 'ch download_manager \<times> file_store \<Rightarrow> bool" where
  "transfer_frame dir mf mf' \<longleftrightarrow>
     dm_cache_dir (fst mf') = dm_cache_dir (fst mf) \<and> dm_models (fst mf') = dm_models (fst mf) \<and>
     dm_permits (fst mf') = dm_permits (fst mf) \<and>
     (\<forall>j. map_option task_core (dm_tasks (fst mf') j) = map_option task_core (dm_tasks (fst mf) j)) \<and>
     (\<forall>k. snd mf' k \<noteq> snd mf k \<longrightarrow> below dir k)"

lemma transfer_frame_refl [simp]: "transfer_frame dir mf mf"
  by (simp add: transfer_frame_def)

lemma transfer_frame_trans:
  assumes "transfer_frame dir mf mf'" "transfer_frame dir mf' mf''"
  shows "transfer_frame dir mf mf''"
proof -
  have "below dir k" if "snd mf'' k \<noteq> snd mf k" for k
    using assms that by (cases "snd mf' k = snd mf k") (simp_all add: transfer_frame_def)
  then show ?thesis using assms by (simp add: transfer_frame_def)
qed

lemma notify_frame [simp]:
  "dm_cache_dir (notify_task_subscribers W t m) = dm_cache_dir m"
  "dm_models (notify_task_subscribers W t m) = dm_models m"
  "dm_permits (notify_task_subscribers W t m) = dm_permits m"
  "dm_tasks (notify_task_subscribers W t m) = dm_tasks m"
  by (simp_all add: notify_task_subscribers_def split: option.split)

lemma update_task_frame [simp]:
  "dm_cache_dir (update_task W i f m) = dm_cache_dir m"
  "dm_models (update_task W i f m) = dm_models m"
  "dm_permits (update_task W i f m) = dm_permits m"
  "dm_tasks (update_task W i f m) = (dm_tasks m)(i := map_option f (dm_tasks m i))"
  by (auto simp: update_task_def fun_eq_iff split: option.split)

lemma progress_frame: "transfer_frame dir (m, files) (update_task_progress W i p d n m, files)"
  by (auto simp: transfer_frame_def update_task_progress_def task_core_def option.map_comp comp_def intro!: option.map_cong)

lemma file_frame: "below dir k \<Longrightarrow> transfer_frame dir (m, files) (m, files(k \<mapsto> c))"
  by (simp add: transfer_frame_def)

lemma write_chunks_frame:
  assumes "below dir key" "write_chunks W i progress n d cs key mf = (r, mf')"
  shows "transfer_frame dir mf mf'"
  using assms(2)
proof (induction cs arbitrary: d mf)
  case Nil
  then show ?case by simp
next
  case (Cons c cs)
  obtain m files where mf: "mf = (m, files)" by (cases mf)
  show ?case
  proof (cases c)
    case (Inl e)
    then show ?thesis using Cons.prems by (simp add: mf)
  next
    case (Inr b)
    let ?content = "case files key of Some c \<Rightarrow> c | None \<Rightarrow> []"
    let ?files = "files(key \<mapsto> ?content @ b)"
    let ?d = "d + word_of_nat (length b)"
    let ?m = "case n of Some k \<Rightarrow> update_task_progress W i (progress ?d k) ?d n m | None \<Rightarrow> m"
    have "transfer_frame dir (m, files) (m, ?files)" by (rule file_frame) (rule assms(1))
    moreover have "transfer_frame dir (m, ?files) (?m, ?files)" by (simp add: progress_frame split: option.split)
    moreover have "transfer_frame dir (?m, ?files) mf'" using Cons by (simp add: mf Inr Let_def)
    ultimately show ?thesis unfolding mf by (blast intro: transfer_frame_trans)
  qed
qed

lemma save_body_frame:
  assumes "below dir (components p)" "save_body W env i progress reply p mf = (r, mf')"
  shows "transfer_frame dir mf mf'"
proof (cases "de_create env p")
  case None
  obtain m files where mf: "mf = (m, files)" by (cases mf)
  have "transfer_frame dir (m, files(components p \<mapsto> [])) mf'"
    using assms(2) None by (auto simp: save_body_def mf Let_def intro: write_chunks_frame [OF assms(1)])
  then show ?thesis unfolding mf by (rule transfer_frame_trans [OF file_frame [OF assms(1)]])
qed (use assms(2) in \<open>simp add: save_body_def\<close>)

text \<open>A safe file name below a directory.\<close>

lemma safe_below:
  assumes "dir \<noteq> []" "is_safe_relative_path p"
  shows "below dir (components (join_path dir p))"
  using components_join [OF assms(1)] safe_components [OF assms(2)] by (simp add: below_def comps_start_with_iff)

lemma hf_file_frame:
  assumes "dir \<noteq> []" "is_safe_relative_path (snd ip)" "hf_file W fl env i repo branch dir n ip mf = (r, mf')"
  shows "transfer_frame dir mf mf'"
  using assms(2,3) unfolding hf_file_def Let_def
  by (auto split: prod.splits if_splits option.splits sum.splits intro: save_body_frame [OF safe_below [OF assms(1)]])

lemma hf_files_frame:
  assumes "\<And>ip mf r mf'. ip \<in> set ips \<Longrightarrow> get ip mf = (r, mf') \<Longrightarrow> transfer_frame dir mf mf'"
    and "hf_files get ips mf = (r, mf')"
  shows "transfer_frame dir mf mf'"
  using assms
proof (induction ips arbitrary: mf r)
  case (Cons ip ips)
  obtain r1 mf1 where g: "get ip mf = (r1, mf1)" by (metis surj_pair)
  obtain rs where rest: "hf_files get ips mf1 = (rs, mf')"
    using Cons.prems(2) g by (auto simp: Let_def split: prod.splits)
  have "transfer_frame dir mf1 mf'" by (rule Cons.IH [OF Cons.prems(1) rest]) simp_all
  with Cons.prems(1) [OF _ g] show ?case by (auto intro: transfer_frame_trans)
qed simp

lemma from_huggingface_frame:
  assumes "dir \<noteq> []" "\<And>xs. set (order xs) \<subseteq> set xs"
    and "download_from_huggingface W fl env order i repo_id revision dir mf = (r, mf')"
  shows "transfer_frame dir mf mf'"
proof -
  have "is_safe_relative_path (snd ip)" if "ip \<in> set (order (enumerate 0 (files_to_download files)))" for ip files
  proof -
    have "ip \<in> set (enumerate 0 (files_to_download files))" using that assms(2) by blast
    then have "snd ip \<in> snd ` set (enumerate 0 (files_to_download files))" by (rule imageI)
    then have "snd ip \<in> set (files_to_download files)" unfolding set_map [symmetric] map_snd_enumerate .
    then show ?thesis by (simp add: files_to_download_def)
  qed
  note safe = this
  have "transfer_frame dir mf mf'"
    if "hf_files (hf_file W fl env i repo_id branch dir n) (order (enumerate 0 (files_to_download files))) mf = (r, mf')"
    for branch n files
    by (rule hf_files_frame [OF _ that]) (rule hf_file_frame [OF assms(1) safe])
  with assms(3) show ?thesis
    by (auto simp: download_from_huggingface_def Let_def split: sum.splits if_splits json.splits)
qed

lemma from_url_frame:
  assumes "dir \<noteq> []" "download_from_url W fl env i url dir mf = (r, mf')"
  shows "transfer_frame dir mf mf'"
  using assms(2) unfolding download_from_url_def Let_def
  by (auto split: sum.splits if_splits intro: save_body_frame [OF safe_below [OF assms(1)]])

lemma dm_transfer_frame:
  assumes "model_dir (fst mf) t \<noteq> []" "\<And>xs. set (order xs) \<subseteq> set xs" "dm_transfer W fl env order t mf = (r, mf')"
  shows "transfer_frame (model_dir (fst mf) t) mf mf'"
  using assms(3) unfolding dm_transfer_def Let_def
  by (auto split: option.splits model_source.splits intro: from_huggingface_frame [OF assms(1,2)] from_url_frame [OF assms(1)])

section \<open>Channels\<close>

locale progress_channel = watch_channel W for W :: "(download_task, 'ch) watch_ops"
begin

text \<open>Who holds a receiver when the task changes sees the change.\<close>

lemma subscriber_sees:
  assumes "dm_channels m i = Some ch" "0 < wo_receivers W ch" "dm_tasks m i = Some t" "dt_id (f t) = i"
  shows "\<exists>ch'. dm_channels (update_task W i f m) i = Some ch' \<and> wo_borrow W ch' = f t \<and>
    wo_receivers W ch' = wo_receivers W ch"
  using assms send_laws [of "f t" ch] by (auto simp: update_task_def notify_task_subscribers_def)

text \<open>A channel whose receivers are gone keeps its old value, and the next subscriber gets that.\<close>

lemma reconnect_stale:
  assumes "dm_channels m i = Some ch" "wo_receivers W ch = 0" "dm_tasks m i = Some t" "dt_id (f t) = i"
  shows "\<exists>ch'. dm_channels (snd (subscribe_task W i (update_task W i f m))) i = Some ch' \<and> wo_borrow W ch' = wo_borrow W ch"
  using assms send_laws [of "f t" ch] subscribe_laws [of "wo_send W (f t) ch"]
  by (auto simp: update_task_def notify_task_subscribers_def subscribe_task_def)

text \<open>The change between the two halves of a first subscription is lost.\<close>

lemma late_subscriber_stale:
  assumes "dm_channels m i = None" "dm_tasks m i = Some t" "dt_id (f t) = i"
  shows "\<exists>ch'. dm_channels (subscribe_insert W i t (update_task W i f m)) i = Some ch' \<and> wo_borrow W ch' = t"
  using assms channel_laws [of t] by (simp add: subscribe_insert_def)

end

interpretation pair_watch: progress_channel pair_watch
  by unfold_locales (auto simp: pair_watch_def)

end
