(* ===== verification/DownloadApi.thy ===== *)
theory DownloadApi
  imports Download Errors "HOL-Library.List_Lexorder" "HOL-Library.Char_ord"
begin

text \<open>
  The endpoints over the download manager (\<open>api/model_download.rs\<close>), and the life of the manager under
  them: requests and the workers they start, step by step.
\<close>

section \<open>Requests\<close>

record download_model_request =
  dr_model_name :: string
  dr_source_type :: string
  dr_repo_id :: "string option"
  dr_revision :: "string option"
  dr_url :: "string option"

definition accept_download :: "download_model_request \<Rightarrow> api_error + string \<times> model_source" where
  "accept_download req =
     (if is_blank (dr_model_name req) then Inl (BadRequest ''model_name must not be empty'')
      else if CHR ''/'' \<in> set (dr_model_name req) \<or> contains (dr_model_name req) ''..''
      then Inl (BadRequest (''model_name must not contain path separators or '' @ [CHR 0x27] @ ''..'' @ [CHR 0x27]))
      else map_sum id (Pair (dr_model_name req))
        (if dr_source_type req = ''huggingface''
         then case dr_repo_id req of
             None \<Rightarrow> Inl (BadRequest ''repo_id required for HuggingFace source'')
           | Some repo_id \<Rightarrow> Inr (HuggingFace repo_id (dr_revision req))
         else if dr_source_type req = ''url''
         then case dr_url req of
             None \<Rightarrow> Inl (BadRequest ''url required for URL source'')
           | Some url \<Rightarrow>
               if \<not> starts_with url ''http://'' \<and> \<not> starts_with url ''https://''
               then Inl (BadRequest ''url must start with http:// or https://'')
               else Inr (Url url)
         else Inl (BadRequest (''Unknown source type: '' @ dr_source_type req))))"

record download_model_response =
  dp_task_id :: string
  dp_status :: string
  dp_message :: string

definition api_download_model ::
  "nat \<Rightarrow> string \<Rightarrow> download_model_request \<Rightarrow> 'ch download_manager \<Rightarrow>
   (api_error + download_model_response) \<times> 'ch download_manager" where
  "api_download_model now i req m =
     (case accept_download req of
        Inl e \<Rightarrow> (Inl e, m)
      | Inr (name, source) \<Rightarrow>
          (let (task_id, m) = dm_download_model now i name source m
           in (Inr \<lparr>dp_task_id = task_id, dp_status = ''started'',
                 dp_message = ''Download task '' @ task_id @ '' created for model '' @ name\<rparr>, m)))"

definition get_download_status :: "string \<Rightarrow> 'ch download_manager \<Rightarrow> api_error + download_task" where
  "get_download_status i m =
     (case get_task_status i m of Some t \<Rightarrow> Inr t | None \<Rightarrow> Inl (NotFound (''Task '' @ i @ '' not found'')))"

definition is_terminal :: "download_status \<Rightarrow> bool" where
  "is_terminal s \<longleftrightarrow> s \<in> {Completed, Failed, Cancelled}"

text \<open>The events for the values a receiver sees, one after the other, and whether the stream ended by itself.\<close>

fun sse_events :: "(download_task \<Rightarrow> string + string) \<Rightarrow> download_task list \<Rightarrow> string list \<times> bool" where
  "sse_events to_json [] = ([], False)"
| "sse_events to_json (t # ts) =
     (case to_json t of
        Inl e \<Rightarrow> ([], True)
      | Inr j \<Rightarrow>
          let event = ''data: '' @ j @ [CHR 0x0A, CHR 0x0A]
          in if is_terminal (dt_status t) then ([event], True)
             else (let (es, ended) = sse_events to_json ts in (event # es, ended)))"

definition get_download_events ::
  "(download_task, 'ch) watch_ops \<Rightarrow> string \<Rightarrow> 'ch download_manager \<Rightarrow> (api_error + unit) \<times> 'ch download_manager" where
  "get_download_events W i m =
     (case subscribe_task W i m of
        (True, m) \<Rightarrow> (Inr (), m)
      | (False, m) \<Rightarrow> (Inl (NotFound (''Task '' @ i @ '' not found'')), m))"

section \<open>Models\<close>

fun shrink :: "rnd \<Rightarrow> string list \<Rightarrow> real \<Rightarrow> real \<times> string" where
  "shrink fl [] x = (x, [])"
| "shrink fl [u] x = (x, u)"
| "shrink fl (u # v # us) x = (if 1024 \<le> x then shrink fl (v # us) (fl (x / 1024)) else (x, u))"

text \<open>\<open>show2\<close> prints two decimals.\<close>

definition format_bytes :: "rnd \<Rightarrow> (real \<Rightarrow> string) \<Rightarrow> u64 \<Rightarrow> string" where
  "format_bytes fl show2 bytes =
     (if bytes = 0 then ''0 B''
      else let (x, u) = shrink fl [''B'', ''KB'', ''MB'', ''GB'', ''TB''] (fl (real (unat bytes)))
           in show2 x @ '' '' @ u)"

record model_info_response =
  mx_name :: string
  mx_source :: string
  mx_size_bytes :: u64
  mx_size_human :: string
  mx_downloaded_at :: string

text \<open>How a source and a time are printed are arguments.\<close>

record show_lib =
  sl_fl :: rnd
  sl_decimals :: "real \<Rightarrow> string"
  sl_source :: "model_source \<Rightarrow> string"
  sl_time :: "nat \<Rightarrow> string"

definition model_response :: "show_lib \<Rightarrow> model_info \<Rightarrow> model_info_response" where
  "model_response S i = \<lparr>mx_name = mi_name i, mx_source = sl_source S (mi_source i), mx_size_bytes = mi_size_bytes i,
     mx_size_human = format_bytes (sl_fl S) (sl_decimals S) (mi_size_bytes i),
     mx_downloaded_at = sl_time S (mi_downloaded_at i)\<rparr>"

definition api_list_models :: "show_lib \<Rightarrow> string list \<Rightarrow> 'ch download_manager \<Rightarrow> nat \<times> model_info_response list" where
  "api_list_models S iter m =
     (let infos = map (model_response S) (dm_list_models iter m) in (length infos, infos))"

definition api_get_model_info :: "show_lib \<Rightarrow> string \<Rightarrow> 'ch download_manager \<Rightarrow> api_error + model_info_response" where
  "api_get_model_info S name m =
     (case dm_get_model name m of
        Some i \<Rightarrow> Inr (model_response S i)
      | None \<Rightarrow> Inl (NotFound (''Model '' @ name @ '' not found'')))"

definition api_delete_model ::
  "download_env \<Rightarrow> string \<Rightarrow> 'ch download_manager \<times> file_store \<Rightarrow> (api_error + string) \<times> 'ch download_manager \<times> file_store" where
  "api_delete_model env name mf =
     (case dm_delete_model env name mf of
        (Inr _, mf) \<Rightarrow> (Inr (''Model '' @ name @ '' deleted successfully''), mf)
      | (Inl msg, mf) \<Rightarrow>
          (Inl (if contains msg ''not found'' \<or> contains msg ''Not found'' then NotFound msg else InternalError msg), mf))"

definition api_get_cache_info :: "show_lib \<Rightarrow> string list \<Rightarrow> 'ch download_manager \<Rightarrow> val" where
  "api_get_cache_info S iter m =
     (let c = get_cache_info iter m
      in JObject [(''cache_dir'', JString (ci_cache_dir c)), (''total_size_bytes'', JNumber (PosInt (ci_total_size_bytes c))),
           (''total_size_human'', JString (format_bytes (sl_fl S) (sl_decimals S) (ci_total_size_bytes c))),
           (''model_count'', JNumber (PosInt (word_of_nat (ci_model_count c))))])"

section \<open>The catalogue\<close>

definition str_field :: "string \<Rightarrow> val \<Rightarrow> string option" where
  "str_field k v = Option.bind (vget k v) as_str"

definition str_or :: "string \<Rightarrow> string option \<Rightarrow> string" where
  "str_or d s = (case s of Some t \<Rightarrow> t | None \<Rightarrow> d)"

definition vset :: "string \<Rightarrow> val \<Rightarrow> val \<Rightarrow> val" where
  "vset k x v = (case v of JObject ps \<Rightarrow> JObject (AList.update k x ps) | _ \<Rightarrow> v)"

definition vset_some :: "string \<Rightarrow> val option \<Rightarrow> val \<Rightarrow> val" where
  "vset_some k x v = (case x of Some y \<Rightarrow> vset k y v | None \<Rightarrow> v)"

definition entry_task :: "val \<Rightarrow> string" where
  "entry_task d =
     (case str_field ''task'' d of
        Some t \<Rightarrow> t
      | None \<Rightarrow>
          if (case str_field ''voices'' d of Some s \<Rightarrow> s \<noteq> ''N/A'' \<and> s \<noteq> [] | None \<Rightarrow> False) then ''text-to-speech''
          else if vget ''accuracy'' d \<noteq> None then ''image-classification''
          else ''unknown'')"

definition entry_repo :: "string \<Rightarrow> string option" where
  "entry_repo url =
     (if contains url ''huggingface.co''
      then let ps = split_slash url
           in if 5 \<le> length ps then Some (ps ! 3 @ ''/'' @ ps ! 4) else Some url
      else None)"

definition parse_available_model_entry :: "string \<Rightarrow> val \<Rightarrow> (val \<times> string) option" where
  "parse_available_model_entry i d =
     (case d of
        JObject ps \<Rightarrow>
          (let task = entry_task d; url = str_or [] (str_field ''url'' d);
               v = JObject
                 [(''id'', JString i), (''name'', JString (str_or i (str_field ''name'' d))),
                  (''architecture'', JString (str_or ''Unknown'' (str_field ''architecture'' d))), (''task'', JString task),
                  (''source'', JString (if contains url ''huggingface'' then ''huggingface'' else ''url'')), (''url'', JString url),
                  (''size_estimate'', JString (str_or ''Unknown'' (str_field ''size'' d))),
                  (''status'', JString (str_or ''Available'' (str_field ''status'' d)))];
               v = vset_some ''repo_id'' (map_option JString (entry_repo url)) v;
               v = (if task = ''image-classification''
                    then vset_some ''dataset'' (map_option JString (str_field ''dataset'' d))
                      (vset_some ''rank'' (vget ''rank'' d)
                        (vset_some ''accuracy'' (map_option JString (str_field ''accuracy'' d)) v))
                    else if task = ''text-to-speech''
                    then vset_some ''score'' (vget ''score'' d)
                      (vset_some ''quality'' (map_option JString (str_field ''quality'' d))
                        (vset_some ''voices'' (vget ''voices'' d) v))
                    else v)
           in Some (vset_some ''note'' (map_option JString (str_field ''note'' d)) v, task))
      | _ \<Rightarrow> None)"

definition category_of :: "string \<Rightarrow> string" where
  "category_of task =
     (if task = ''text-to-speech'' then ''tts''
      else if task = ''Image Classification'' \<or> task = ''image-classification'' then ''image-classification''
      else if task = ''automatic-speech-recognition'' then ''speech-recognition''
      else if task = ''zero-shot-image-classification'' then ''multimodal''
      else ''other'')"

definition rank_of :: "val \<Rightarrow> u64" where
  "rank_of v = (case Option.bind (vget ''rank'' v) as_u64 of Some r \<Rightarrow> r | None \<Rightarrow> 999)"

definition count_category :: "(string \<times> nat) list \<Rightarrow> string \<Rightarrow> (string \<times> nat) list" where
  "count_category cs c = AList.update c (case map_of cs c of Some n \<Rightarrow> n + 1 | None \<Rightarrow> 1) cs"

text \<open>The sorted models and the counts of a registry that was read; \<open>None\<close> is the fallback list.\<close>

definition list_available :: "string + val \<Rightarrow> (val list \<times> (string \<times> nat) list) option" where
  "list_available registry =
     (case registry of
        Inl e \<Rightarrow> None
      | Inr r \<Rightarrow>
          (case vget ''models'' r of
             Some (JObject ps) \<Rightarrow>
               (let es = List.map_filter (\<lambda>(i, d). parse_available_model_entry i d) ps;
                    cats = foldl count_category
                      [(''tts'', 0), (''image-classification'', 0), (''speech-recognition'', 0), (''multimodal'', 0)]
                      (map (category_of \<circ> snd) es)
                in Some (sort_key (\<lambda>v. str_or [] (str_field ''task'' v)) (sort_key rank_of (map fst es)), cats))
           | _ \<Rightarrow> None))"

text \<open>The registry file: absent, unreadable or not JSON, or its value.\<close>

datatype registry_file = No_File | Bad_File string | Json_File val

definition sota_entry :: "registry_file \<Rightarrow> string \<Rightarrow> api_error + string \<times> model_source" where
  "sota_entry file i =
     (case file of
        No_File \<Rightarrow> Inl (NotFound ''Model registry not found'')
      | Bad_File e \<Rightarrow> Inl (InternalError e)
      | Json_File r \<Rightarrow>
          (case vget ''models'' r of
             Some (JObject ps) \<Rightarrow>
               (case map_of ps i of
                  None \<Rightarrow> Inl (NotFound (''Model '' @ i @ '' not found in registry''))
                | Some (JObject d) \<Rightarrow>
                    (case str_field ''url'' (JObject d) of
                       None \<Rightarrow> Inl (BadRequest ''Model URL not found'')
                     | Some url \<Rightarrow>
                         let name = str_or i (str_field ''name'' (JObject d))
                         in if contains url ''huggingface.co''
                            then let ps = split_slash url
                                 in if 5 \<le> length ps then Inr (name, HuggingFace (ps ! 3 @ ''/'' @ ps ! 4) None)
                                    else Inr (name, Url url)
                            else if url \<noteq> ''Built-in'' then Inr (name, Url url)
                            else Inl (BadRequest ''Built-in models cannot be downloaded''))
                | Some _ \<Rightarrow> Inl (InternalError ''Invalid model data''))
           | _ \<Rightarrow> Inl (InternalError ''Invalid registry format'')))"

definition download_sota_model ::
  "nat \<Rightarrow> string \<Rightarrow> registry_file \<Rightarrow> string \<Rightarrow> 'ch download_manager \<Rightarrow> (api_error + string \<times> string) \<times> 'ch download_manager" where
  "download_sota_model now new_id file i m =
     (case sota_entry file i of
        Inl e \<Rightarrow> (Inl e, m)
      | Inr (name, source) \<Rightarrow> (let (task_id, m) = dm_download_model now new_id name source m in (Inr (task_id, name), m)))"

definition sota_info :: "string \<times> val \<Rightarrow> val option" where
  "sota_info e =
     (let (i, d) = e
      in case d of
           JObject ps \<Rightarrow>
             if str_field ''task'' d \<noteq> Some ''Image Classification'' then None
             else Some (vset_some ''note'' (map_option JString (str_field ''note'' d)) (JObject
               [(''id'', JString i), (''name'', JString (str_or i (str_field ''name'' d))),
                (''architecture'', JString (str_or ''Unknown'' (str_field ''architecture'' d))),
                (''accuracy'', JString (str_or ''N/A'' (str_field ''accuracy'' d))),
                (''rank'', case vget ''rank'' d of Some r \<Rightarrow> r | None \<Rightarrow> JNull),
                (''size'', JString (str_or ''Unknown'' (str_field ''size'' d))),
                (''url'', JString (str_or [] (str_field ''url'' d))),
                (''dataset'', JString (str_or ''ImageNet-1K'' (str_field ''dataset'' d))),
                (''status'', JString (str_or ''Available'' (str_field ''status'' d)))]))
         | _ \<Rightarrow> None)"

definition list_sota_models :: "registry_file \<Rightarrow> api_error + val list" where
  "list_sota_models file =
     (case file of
        No_File \<Rightarrow> Inr []
      | Bad_File e \<Rightarrow> Inl (InternalError e)
      | Json_File r \<Rightarrow>
          (case vget ''models'' r of
             Some (JObject ps) \<Rightarrow> Inr (sort_key rank_of (List.map_filter sota_info ps))
           | _ \<Rightarrow> Inl (InternalError ''Invalid registry format'')))"

section \<open>The life of the manager\<close>

text \<open>Where the worker of a task is; one that has started holds a permit until it is published or fails.\<close>

datatype worker =
  Queued | Started download_task | Transferred download_task | Announced download_task | Failing string | Over

record 'ch dl_system =
  sy_mgr :: "'ch download_manager"
  sy_files :: file_store
  sy_workers :: "string \<Rightarrow> worker option"

definition set_permits :: "(nat \<Rightarrow> nat) \<Rightarrow> 'ch download_manager \<Rightarrow> 'ch download_manager" where
  "set_permits f m = m\<lparr>dm_permits := f (dm_permits m)\<rparr>"

definition move_to :: "string \<Rightarrow> worker \<Rightarrow> 'ch download_manager \<Rightarrow> file_store \<Rightarrow> 'ch dl_system \<Rightarrow> 'ch dl_system" where
  "move_to i w m files s = \<lparr>sy_mgr = m, sy_files = files, sy_workers = (sy_workers s)(i \<mapsto> w)\<rparr>"

definition worker_step ::
  "(download_task, 'ch) watch_ops \<Rightarrow> rnd \<Rightarrow> download_env \<Rightarrow> ((nat \<times> string) list \<Rightarrow> (nat \<times> string) list) \<Rightarrow> nat \<Rightarrow> string \<Rightarrow>
   'ch dl_system \<Rightarrow> 'ch dl_system option" where
  "worker_step W fl env order now i s =
     (let m = sy_mgr s; files = sy_files s
      in case sy_workers s i of
           Some Queued \<Rightarrow>
             if dm_permits m = 0 then None
             else (case dm_begin W now i m of
                (Inl e, m) \<Rightarrow> Some (move_to i (Failing e) m files s)
              | (Inr t, m) \<Rightarrow> Some (move_to i (Started t) (set_permits (\<lambda>n. n - 1) m) files s))
         | Some (Started t) \<Rightarrow>
             (case dm_transfer W fl env order t (m, files) of
                (Inl e, m, files) \<Rightarrow> Some (move_to i (Failing e) (set_permits Suc m) files s)
              | (Inr _, m, files) \<Rightarrow> Some (move_to i (Transferred t) m files s))
         | Some (Transferred t) \<Rightarrow> Some (move_to i (Announced t) (update_task_status W now i Completed m) files s)
         | Some (Announced t) \<Rightarrow>
             (case dm_publish env now t m of
                (Inl e, m) \<Rightarrow> Some (move_to i (Failing e) (set_permits Suc m) files s)
              | (Inr _, m) \<Rightarrow> Some (move_to i Over (set_permits Suc m) files s))
         | Some (Failing e) \<Rightarrow> Some (move_to i Over (update_task_error W now i e m) files s)
         | _ \<Rightarrow> None)"

inductive dl_step ::
  "(download_task, 'ch) watch_ops \<Rightarrow> rnd \<Rightarrow> download_env \<Rightarrow> ((nat \<times> string) list \<Rightarrow> (nat \<times> string) list) \<Rightarrow>
   'ch dl_system \<Rightarrow> 'ch dl_system \<Rightarrow> bool"
  for W fl env order where
  request: "sy_workers s i = None \<Longrightarrow> api_download_model now i req (sy_mgr s) = (Inr answer, m) \<Longrightarrow>
    dl_step W fl env order s (move_to i Queued m (sy_files s) s)"
| work: "worker_step W fl env order now i s = Some s' \<Longrightarrow> dl_step W fl env order s s'"
| subscribe: "get_download_events W i (sy_mgr s) = (answer, m) \<Longrightarrow> dl_step W fl env order s (s\<lparr>sy_mgr := m\<rparr>)"
| unsubscribe: "dl_step W fl env order s (s\<lparr>sy_mgr := unsubscribe W i (sy_mgr s)\<rparr>)"
| delete: "api_delete_model env name (sy_mgr s, sy_files s) = (answer, m, files) \<Longrightarrow>
    dl_step W fl env order s (s\<lparr>sy_mgr := m, sy_files := files\<rparr>)"

definition dl_init :: "string \<Rightarrow> file_store \<Rightarrow> 'ch dl_system" where
  "dl_init cache_dir files = \<lparr>sy_mgr = dm_new cache_dir, sy_files = files, sy_workers = Map.empty\<rparr>"

definition dl_reachable ::
  "(download_task, 'ch) watch_ops \<Rightarrow> rnd \<Rightarrow> download_env \<Rightarrow> ((nat \<times> string) list \<Rightarrow> (nat \<times> string) list) \<Rightarrow>
   'ch dl_system \<Rightarrow> 'ch dl_system \<Rightarrow> bool" where
  "dl_reachable W fl env order = (dl_step W fl env order)\<^sup>*\<^sup>*"

section \<open>Invariants\<close>

fun holds_permit :: "worker option \<Rightarrow> bool" where
  "holds_permit (Some (Started t)) = True"
| "holds_permit (Some (Transferred t)) = True"
| "holds_permit (Some (Announced t)) = True"
| "holds_permit _ = False"

definition good_name :: "string \<Rightarrow> bool" where
  "good_name n \<longleftrightarrow> n \<noteq> [] \<and> CHR ''/'' \<notin> set n \<and> \<not> contains n ''..''"

text \<open>What the status of a task is at each place of its worker, as the client sees it.\<close>

fun phase_ok :: "worker \<Rightarrow> download_task \<Rightarrow> bool" where
  "phase_ok Queued t = (dt_status t = Pending)"
| "phase_ok (Started u) t = (dt_status t = Downloading \<and> dt_id u = dt_id t \<and> dt_model_name u = dt_model_name t)"
| "phase_ok (Transferred u) t = (dt_status t = Downloading \<and> dt_id u = dt_id t \<and> dt_model_name u = dt_model_name t)"
| "phase_ok (Announced u) t = (dt_status t = Completed \<and> dt_id u = dt_id t \<and> dt_model_name u = dt_model_name t)"
| "phase_ok (Failing e) t = (dt_status t = Downloading \<or> dt_status t = Completed)"
| "phase_ok Over t = (dt_status t = Completed \<or> dt_status t = Failed)"

definition task_ok :: "string \<Rightarrow> worker option \<Rightarrow> download_task option \<Rightarrow> bool" where
  "task_ok i w t \<longleftrightarrow>
     (case (w, t) of
        (None, None) \<Rightarrow> True
      | (Some w, Some t) \<Rightarrow>
          phase_ok w t \<and> dt_id t = i \<and> good_name (dt_model_name t) \<and>
          (dt_completed_at t \<noteq> None \<longleftrightarrow> dt_status t \<in> {Completed, Failed})
      | _ \<Rightarrow> False)"

definition dl_inv :: "string \<Rightarrow> file_store \<Rightarrow> 'ch dl_system \<Rightarrow> bool" where
  "dl_inv cache files0 s \<longleftrightarrow>
     dm_cache_dir (sy_mgr s) = cache \<and> finite (dom (sy_workers s)) \<and>
     dm_permits (sy_mgr s) + card {i. holds_permit (sy_workers s i)} = 3 \<and>
     (\<forall>i. task_ok i (sy_workers s i) (dm_tasks (sy_mgr s) i)) \<and>
     (\<forall>name info. dm_models (sy_mgr s) name = Some info \<longrightarrow>
        (\<exists>n. good_name n \<and> mi_local_path info = join_path cache n)) \<and>
     (\<forall>k. sy_files s k \<noteq> files0 k \<longrightarrow> below cache k)"

text \<open>The directory of a model with a good name is below the cache directory.\<close>

lemma below_model_dir:
  assumes "cache \<noteq> []" "good_name n" "below (join_path cache n) k"
  shows "below cache k"
proof -
  have "\<not> is_absolute n" using assms(2) by (cases n) (auto simp: good_name_def is_absolute_def)
  then show ?thesis
    using assms(3) components_join [OF assms(1)] by (auto simp: below_def comps_start_with_iff)
qed

lemma accept_download_name: "accept_download req = Inr (name, source) \<Longrightarrow> good_name name"
proof -
  assume "accept_download req = Inr (name, source)"
  then have "name = dr_model_name req \<and> \<not> is_blank name \<and> CHR ''/'' \<notin> set name \<and> \<not> contains name ''..''"
    by (auto simp: accept_download_def split: if_splits option.splits)
  moreover have "is_blank []" by (simp add: is_blank.simps)
  ultimately show ?thesis by (auto simp: good_name_def)
qed

lemma card_holds:
  assumes "finite (dom f)"
  shows "card {i. holds_permit ((f(j \<mapsto> w)) i)} + (if holds_permit (f j) then 1 else 0) =
    card {i. holds_permit (f i)} + (if holds_permit (Some w) then 1 else 0)"
proof -
  define A where "A = {i. i \<noteq> j \<and> holds_permit (f i)}"
  have "A \<subseteq> dom f" by (auto simp: A_def dom_def elim: holds_permit.elims)
  then have "finite A" using assms finite_subset by blast
  moreover have "j \<notin> A" by (simp add: A_def)
  moreover have "{i. holds_permit ((f(j \<mapsto> w)) i)} = (if holds_permit (Some w) then insert j A else A)"
    "{i. holds_permit (f i)} = (if holds_permit (f j) then insert j A else A)"
    by (auto simp: A_def)
  ultimately show ?thesis by auto
qed

lemma phase_ok_core: "task_core t = task_core t' \<Longrightarrow> phase_ok w t = phase_ok w t'"
  by (cases w) (simp_all add: task_core_def)

lemma task_ok_core: "map_option task_core t = map_option task_core t' \<Longrightarrow> task_ok i w t = task_ok i w t'"
proof (cases t; cases t')
  fix a b
  assume "map_option task_core t = map_option task_core t'" and t: "t = Some a" "t' = Some b"
  then have core: "task_core a = task_core b" by simp
  show "task_ok i w t = task_ok i w t'"
    unfolding t task_ok_def using phase_ok_core [OF core] core by (simp add: task_core_def split: option.split)
qed simp_all

text \<open>One worker moves: what has to be shown of its task, the permits, the models and the files.\<close>

lemma move_inv:
  assumes inv: "dl_inv cache files0 s"
    and "dm_cache_dir m = cache"
    and "dm_permits m + (if holds_permit (Some w) then 1 else 0) =
      dm_permits (sy_mgr s) + (if holds_permit (sy_workers s i) then 1 else 0)"
    and "\<And>j. j \<noteq> i \<Longrightarrow> map_option task_core (dm_tasks m j) = map_option task_core (dm_tasks (sy_mgr s) j)"
    and "task_ok i (Some w) (dm_tasks m i)"
    and "\<And>name info. dm_models m name = Some info \<Longrightarrow> \<exists>n. good_name n \<and> mi_local_path info = join_path cache n"
    and "\<And>k. files k \<noteq> files0 k \<Longrightarrow> below cache k"
  shows "dl_inv cache files0 (move_to i w m files s)"
proof -
  have "finite (dom (sy_workers s))" using inv by (simp add: dl_inv_def)
  note card = card_holds [OF this, of i w]
  have "dm_permits m + card {j. holds_permit (((sy_workers s)(i \<mapsto> w)) j)} = 3"
    using card assms(3) inv by (simp add: dl_inv_def split: if_splits)
  moreover have "task_ok j (((sy_workers s)(i \<mapsto> w)) j) (dm_tasks m j)" for j
    using assms(5) task_ok_core [OF assms(4), of j] inv by (cases "j = i") (simp_all add: dl_inv_def)
  ultimately show ?thesis
    using assms inv by (simp add: dl_inv_def move_to_def)
qed

lemma frame_models:
  "dl_inv cache files0 s \<Longrightarrow> dm_models m = dm_models (sy_mgr s) \<Longrightarrow> dm_models m name = Some info \<Longrightarrow>
   \<exists>n. good_name n \<and> mi_local_path info = join_path cache n"
  by (simp add: dl_inv_def)

lemma inv_files: "dl_inv cache files0 s \<Longrightarrow> sy_files s k \<noteq> files0 k \<Longrightarrow> below cache k"
  by (simp add: dl_inv_def)

lemma inv_task:
  assumes "dl_inv cache files0 s" "sy_workers s i = Some w"
  obtains t where "dm_tasks (sy_mgr s) i = Some t" "phase_ok w t" "dt_id t = i" "good_name (dt_model_name t)"
    "dt_completed_at t \<noteq> None \<longleftrightarrow> dt_status t \<in> {Completed, Failed}"
proof -
  have "task_ok i (Some w) (dm_tasks (sy_mgr s) i)" using assms by (metis dl_inv_def)
  then show ?thesis using that by (auto simp: task_ok_def split: option.splits)
qed

lemma request_inv:
  assumes "dl_inv cache files0 s" "sy_workers s i = None" "api_download_model now i req (sy_mgr s) = (Inr answer, m)"
  shows "dl_inv cache files0 (move_to i Queued m (sy_files s) s)"
proof -
  obtain name source where acc: "accept_download req = Inr (name, source)"
      and m: "m = (sy_mgr s)\<lparr>dm_tasks := (dm_tasks (sy_mgr s))(i \<mapsto> new_task now i name source)\<rparr>"
    using assms(3) by (auto simp: api_download_model_def dm_download_model_def split: sum.splits)
  show ?thesis
    using assms(1,2) accept_download_name [OF acc]
    by (intro move_inv [OF assms(1)]) (auto simp: m dl_inv_def task_ok_def new_task_def)
qed

text \<open>Updates of the status are seen in the task only.\<close>

lemma status_tasks:
  "dm_tasks (update_task_status W now i st m) i =
     map_option (\<lambda>t. t\<lparr>dt_status := st, dt_completed_at := (if st = Completed then Some now else dt_completed_at t)\<rparr>)
       (dm_tasks m i)"
  "j \<noteq> i \<Longrightarrow> dm_tasks (update_task_status W now i st m) j = dm_tasks m j"
  "dm_tasks (update_task_error W now i e m) i =
     map_option (\<lambda>t. t\<lparr>dt_status := Failed, dt_error := Some e, dt_completed_at := Some now\<rparr>) (dm_tasks m i)"
  "j \<noteq> i \<Longrightarrow> dm_tasks (update_task_error W now i e m) j = dm_tasks m j"
  by (simp_all add: update_task_status_def update_task_error_def)

lemma status_rest [simp]:
  "dm_cache_dir (update_task_status W now i st m) = dm_cache_dir m"
  "dm_models (update_task_status W now i st m) = dm_models m"
  "dm_permits (update_task_status W now i st m) = dm_permits m"
  "dm_cache_dir (update_task_error W now i e m) = dm_cache_dir m"
  "dm_models (update_task_error W now i e m) = dm_models m"
  "dm_permits (update_task_error W now i e m) = dm_permits m"
  "dm_cache_dir (set_permits f m) = dm_cache_dir m"
  "dm_models (set_permits f m) = dm_models m"
  "dm_permits (set_permits f m) = f (dm_permits m)"
  "dm_tasks (set_permits f m) = dm_tasks m"
  by (simp_all add: update_task_status_def update_task_error_def set_permits_def)

lemma start_inv:
  assumes inv: "dl_inv cache files0 s" and w: "sy_workers s i = Some Queued" "dm_permits (sy_mgr s) \<noteq> 0"
    and b: "dm_begin W now i (sy_mgr s) = (r, m)"
  shows "\<exists>t. r = Inr t \<and> dl_inv cache files0 (move_to i (Started t) (set_permits (\<lambda>n. n - 1) m) (sy_files s) s)"
proof -
  obtain t where t: "dm_tasks (sy_mgr s) i = Some t" "phase_ok Queued t" "dt_id t = i" "good_name (dt_model_name t)"
      "dt_completed_at t \<noteq> None \<longleftrightarrow> dt_status t \<in> {Completed, Failed}"
    by (rule inv_task [OF inv w(1)])
  have r: "r = Inr t" "m = update_task_status W now i Downloading (sy_mgr s)" using b t(1) by (simp_all add: dm_begin_def)
  have "dl_inv cache files0 (move_to i (Started t) (set_permits (\<lambda>n. n - 1) m) (sy_files s) s)"
    using w t inv by (intro move_inv [OF inv])
      (auto simp: r(2) status_tasks task_ok_def dl_inv_def)
  with r(1) show ?thesis by blast
qed

lemma transfer_inv:
  assumes inv: "dl_inv cache files0 s" and w: "sy_workers s i = Some (Started t)" and "cache \<noteq> []"
    and "\<And>xs. set (order xs) \<subseteq> set xs"
    and tr: "dm_transfer W fl env order t (sy_mgr s, sy_files s) = (r, m, files)"
  shows "dl_inv cache files0 (move_to i (Transferred t) m files s) \<and>
    dl_inv cache files0 (move_to i (Failing e) (set_permits Suc m) files s)"
proof -
  obtain u where u: "dm_tasks (sy_mgr s) i = Some u" "phase_ok (Started t) u" "dt_id u = i" "good_name (dt_model_name u)"
      "dt_completed_at u \<noteq> None \<longleftrightarrow> dt_status u \<in> {Completed, Failed}"
    by (rule inv_task [OF inv w])
  have dir: "model_dir (sy_mgr s) t = join_path cache (dt_model_name u)" using inv u(2) by (simp add: model_dir_def dl_inv_def)
  then have "model_dir (sy_mgr s) t \<noteq> []" using join_nonempty [OF assms(3)] by simp
  then have fr: "transfer_frame (join_path cache (dt_model_name u)) (sy_mgr s, sy_files s) (m, files)"
    using dm_transfer_frame [OF _ assms(4) tr] dir by simp
  have files: "below cache k" if "files k \<noteq> files0 k" for k
  proof (cases "files k = sy_files s k")
    case True
    then show ?thesis using inv_files [OF inv] that by simp
  next
    case False
    then show ?thesis using fr below_model_dir [OF assms(3) u(4)] by (simp add: transfer_frame_def)
  qed
  have "map_option task_core (dm_tasks m i) = Some (task_core u)" using fr u(1) by (simp add: transfer_frame_def)
  then obtain u' where u': "dm_tasks m i = Some u'" "task_core u' = task_core u" by auto
  have ok: "task_ok i (Some (Transferred t)) (dm_tasks m i)" "task_ok i (Some (Failing e)) (dm_tasks m i)"
    using u u' by (auto simp: task_ok_def task_core_def)
  have rest: "dm_cache_dir m = cache" "dm_permits m = dm_permits (sy_mgr s)" "dm_models m = dm_models (sy_mgr s)"
      "map_option task_core (dm_tasks m j) = map_option task_core (dm_tasks (sy_mgr s) j)" for j
    using fr inv by (simp_all add: transfer_frame_def dl_inv_def)
  have "dl_inv cache files0 (move_to i (Transferred t) m files s)"
    using w rest ok(1) files frame_models [OF inv rest(3)] by (intro move_inv [OF inv]) auto
  moreover have "dl_inv cache files0 (move_to i (Failing e) (set_permits Suc m) files s)"
    using w rest ok(2) files frame_models [OF inv rest(3)] by (intro move_inv [OF inv]) auto
  ultimately show ?thesis ..
qed

lemma complete_inv:
  assumes inv: "dl_inv cache files0 s" and w: "sy_workers s i = Some (Transferred t)"
  shows "dl_inv cache files0 (move_to i (Announced t) (update_task_status W now i Completed (sy_mgr s)) (sy_files s) s)"
proof -
  obtain u where u: "dm_tasks (sy_mgr s) i = Some u" "phase_ok (Transferred t) u" "dt_id u = i" "good_name (dt_model_name u)"
    by (rule inv_task [OF inv w])
  show ?thesis
    using w u inv by (intro move_inv [OF inv]) (auto simp: status_tasks task_ok_def dl_inv_def)
qed

lemma publish_inv:
  assumes inv: "dl_inv cache files0 s" and w: "sy_workers s i = Some (Announced t)"
    and p: "dm_publish env now t (sy_mgr s) = (r, m)"
  shows "dl_inv cache files0 (move_to i Over (set_permits Suc m) (sy_files s) s) \<and>
    dl_inv cache files0 (move_to i (Failing e) (set_permits Suc m) (sy_files s) s)"
proof -
  obtain u where u: "dm_tasks (sy_mgr s) i = Some u" "phase_ok (Announced t) u" "dt_id u = i" "good_name (dt_model_name u)"
      "dt_completed_at u \<noteq> None \<longleftrightarrow> dt_status u \<in> {Completed, Failed}"
    by (rule inv_task [OF inv w])
  have rest: "dm_cache_dir m = cache" "dm_permits m = dm_permits (sy_mgr s)" "dm_tasks m = dm_tasks (sy_mgr s)"
    using p inv by (auto simp: dm_publish_def Let_def dl_inv_def split: sum.splits)
  have models: "\<exists>n. good_name n \<and> mi_local_path info = join_path cache n" if "dm_models m name = Some info" for name info
  proof (cases "dm_models (sy_mgr s) name = Some info")
    case True
    then show ?thesis using inv by (simp add: dl_inv_def)
  next
    case False
    then have "mi_local_path info = join_path cache (dt_model_name u)"
      using p that u(2) inv by (auto simp: dm_publish_def Let_def dl_inv_def model_dir_def split: sum.splits if_splits)
    with u(4) show ?thesis by blast
  qed
  have ok: "task_ok i (Some Over) (dm_tasks m i)" "task_ok i (Some (Failing e)) (dm_tasks m i)"
    using u by (auto simp: rest(3) task_ok_def)
  have "dl_inv cache files0 (move_to i Over (set_permits Suc m) (sy_files s) s)"
    using w rest ok(1) models inv_files [OF inv] by (intro move_inv [OF inv]) auto
  moreover have "dl_inv cache files0 (move_to i (Failing e) (set_permits Suc m) (sy_files s) s)"
    using w rest ok(2) models inv_files [OF inv] by (intro move_inv [OF inv]) auto
  ultimately show ?thesis ..
qed

lemma fail_inv:
  assumes inv: "dl_inv cache files0 s" and w: "sy_workers s i = Some (Failing e)"
  shows "dl_inv cache files0 (move_to i Over (update_task_error W now i e (sy_mgr s)) (sy_files s) s)"
proof -
  obtain u where u: "dm_tasks (sy_mgr s) i = Some u" "phase_ok (Failing e) u" "dt_id u = i" "good_name (dt_model_name u)"
    by (rule inv_task [OF inv w])
  show ?thesis
    using w u inv by (intro move_inv [OF inv]) (auto simp: status_tasks task_ok_def dl_inv_def)
qed

lemma worker_step_inv:
  assumes inv: "dl_inv cache files0 s" and "cache \<noteq> []" "\<And>xs. set (order xs) \<subseteq> set xs"
    and st: "worker_step W fl env order now i s = Some s'"
  shows "dl_inv cache files0 s'"
proof (cases "sy_workers s i")
  case (Some w)
  show ?thesis
  proof (cases w)
    case Queued
    with st Some have p: "dm_permits (sy_mgr s) \<noteq> 0" by (auto simp: worker_step_def Let_def split: if_splits)
    obtain r m where b: "dm_begin W now i (sy_mgr s) = (r, m)" by fastforce
    show ?thesis using start_inv [OF inv _ p b] st Some Queued b p by (auto simp: worker_step_def)
  next
    case (Started t)
    obtain r m files where tr: "dm_transfer W fl env order t (sy_mgr s, sy_files s) = (r, m, files)" by (metis surj_pair)
    show ?thesis
      using transfer_inv [OF inv _ assms(2,3) tr] st Some Started tr by (cases r) (auto simp: worker_step_def)
  next
    case (Transferred t)
    then show ?thesis using complete_inv [OF inv] st Some by (auto simp: worker_step_def)
  next
    case (Announced t)
    obtain r m where p: "dm_publish env now t (sy_mgr s) = (r, m)" by fastforce
    show ?thesis using publish_inv [OF inv _ p] st Some Announced p by (cases r) (auto simp: worker_step_def)
  next
    case (Failing e)
    then show ?thesis using fail_inv [OF inv] st Some by (auto simp: worker_step_def)
  qed (use st Some in \<open>simp add: worker_step_def\<close>)
qed (use st in \<open>simp add: worker_step_def\<close>)

lemma subscribe_frame:
  "sy_workers (s\<lparr>sy_mgr := m\<rparr>) = sy_workers s" "sy_files (s\<lparr>sy_mgr := m\<rparr>) = sy_files s"
  "subscribe_task W i m = (ok, m') \<Longrightarrow> dm_cache_dir m' = dm_cache_dir m \<and> dm_permits m' = dm_permits m \<and>
     dm_tasks m' = dm_tasks m \<and> dm_models m' = dm_models m"
  "dm_cache_dir (unsubscribe W i m) = dm_cache_dir m" "dm_permits (unsubscribe W i m) = dm_permits m"
  "dm_tasks (unsubscribe W i m) = dm_tasks m" "dm_models (unsubscribe W i m) = dm_models m"
  by (auto simp: subscribe_task_def subscribe_insert_def unsubscribe_def split: option.splits)

lemma delete_frame:
  assumes "dm_delete_model env name (m, files) = (r, m', files')"
  shows "dm_cache_dir m' = dm_cache_dir m \<and> dm_permits m' = dm_permits m \<and> dm_tasks m' = dm_tasks m \<and>
    (\<forall>n info. dm_models m' n = Some info \<longrightarrow> dm_models m n = Some info) \<and>
    (\<forall>k. files' k \<noteq> files k \<longrightarrow> (\<exists>info. dm_models m name = Some info \<and> below (mi_local_path info) k))"
  using assms by (auto simp: dm_delete_model_def Let_def split: option.splits if_splits prod.splits)

lemma delete_inv:
  assumes inv: "dl_inv cache files0 s" and "cache \<noteq> []"
    and d: "dm_delete_model env name (sy_mgr s, sy_files s) = (r, m, files)"
  shows "dl_inv cache files0 (s\<lparr>sy_mgr := m, sy_files := files\<rparr>)"
proof -
  note fr = delete_frame [OF d]
  have "below cache k" if "files k \<noteq> files0 k" for k
  proof (cases "files k = sy_files s k")
    case True
    then show ?thesis using inv_files [OF inv] that by simp
  next
    case False
    then obtain info where "dm_models (sy_mgr s) name = Some info" "below (mi_local_path info) k" using fr by blast
    then show ?thesis using inv below_model_dir [OF assms(2)] by (metis dl_inv_def)
  qed
  then show ?thesis using inv fr by (simp add: dl_inv_def) blast
qed

lemma dl_step_inv:
  assumes inv: "dl_inv cache files0 s" and "cache \<noteq> []" "\<And>xs. set (order xs) \<subseteq> set xs"
    and "dl_step W fl env order s s'"
  shows "dl_inv cache files0 s'"
  using assms(4)
proof cases
  case (request i now req answer m)
  then show ?thesis using request_inv [OF inv] by simp
next
  case (work now i)
  then show ?thesis using worker_step_inv [OF inv assms(2,3)] by simp
next
  case (subscribe i answer m)
  then have "\<exists>ok. subscribe_task W i (sy_mgr s) = (ok, m)" by (auto simp: get_download_events_def split: prod.splits bool.splits)
  then obtain ok where "subscribe_task W i (sy_mgr s) = (ok, m)" by blast
  from subscribe_frame(3) [OF this] show ?thesis using inv subscribe by (simp add: dl_inv_def)
next
  case (unsubscribe i)
  then show ?thesis using inv by (simp add: dl_inv_def subscribe_frame)
next
  case (delete name answer m files)
  then have "\<exists>r. dm_delete_model env name (sy_mgr s, sy_files s) = (r, m, files)"
    by (auto simp: api_delete_model_def split: prod.splits sum.splits)
  then show ?thesis using delete_inv [OF inv assms(2)] delete by blast
qed

lemma dl_reachable_inv:
  assumes "dl_reachable W fl env order (dl_init cache files0) s" "cache \<noteq> []" "\<And>xs. set (order xs) \<subseteq> set xs"
  shows "dl_inv cache files0 s"
  using assms(1) unfolding dl_reachable_def
proof (induction rule: rtranclp_induct)
  case base
  then show ?case by (simp add: dl_init_def dm_new_def dl_inv_def task_ok_def)
next
  case (step s s')
  then show ?case by (blast intro: dl_step_inv [OF _ assms(2,3)])
qed

section \<open>Properties\<close>


text \<open>
  C27. At any moment at most three downloads are between their permit and their end, and free permits and
  these add up to three; a task whose worker is over is completed or failed, one that is not has no end time.
\<close>

theorem download_slots:
  assumes "dl_reachable W fl env order (dl_init cache files) s" "cache \<noteq> []" "\<And>xs. set (order xs) \<subseteq> set xs"
  shows "dm_permits (sy_mgr s) + card {i. holds_permit (sy_workers s i)} = 3 \<and>
    (\<forall>i t. dm_tasks (sy_mgr s) i = Some t \<longrightarrow>
       (\<exists>w. sy_workers s i = Some w \<and> phase_ok w t) \<and> dt_status t \<noteq> Cancelled \<and>
       (dt_completed_at t \<noteq> None \<longleftrightarrow> dt_status t \<in> {Completed, Failed}))"
proof -
  note inv = dl_reachable_inv [OF assms]
  have "(\<exists>w. sy_workers s i = Some w \<and> phase_ok w t) \<and> dt_status t \<noteq> Cancelled \<and>
      (dt_completed_at t \<noteq> None \<longleftrightarrow> dt_status t \<in> {Completed, Failed})"
    if "dm_tasks (sy_mgr s) i = Some t" for i t
  proof -
    have "task_ok i (sy_workers s i) (Some t)" using inv that by (metis dl_inv_def)
    then obtain w where w: "sy_workers s i = Some w" "phase_ok w t"
        "dt_completed_at t \<noteq> None \<longleftrightarrow> dt_status t \<in> {Completed, Failed}"
      by (auto simp: task_ok_def split: option.splits)
    moreover have "dt_status t \<noteq> Cancelled" using w(2) by (cases w) auto
    ultimately show ?thesis by blast
  qed
  with inv show ?thesis by (simp add: dl_inv_def)
qed

definition demo_env :: download_env where
  "demo_env = \<lparr>de_parse = \<lambda>u. Inr \<lparr>up_scheme = ''https'', up_host = Some ''github.com'', up_segments = Some [''x'', ''net.bin'']\<rparr>,
     de_fetch = \<lambda>u. Inr \<lparr>hr_success = True, hr_length = None, hr_chunks = [Inr [1], Inr [2]], hr_json = Inl ''''\<rparr>,
     de_mkdir = \<lambda>p. None, de_create = \<lambda>p. None, de_tree = \<lambda>p. [FsFile 2], de_exists = \<lambda>p. True, de_remove = \<lambda>p. None\<rparr>"

definition demo_request :: download_model_request where
  "demo_request = \<lparr>dr_model_name = ''net'', dr_source_type = ''url'', dr_repo_id = None, dr_revision = None,
     dr_url = Some ''https://github.com/x/net.bin''\<rparr>"

definition demo_system :: "nat \<Rightarrow> (download_task \<times> nat) dl_system" where
  "demo_system n =
     ((\<lambda>s. the (worker_step pair_watch exact demo_env (\<lambda>xs. xs) 0 ''1'' s)) ^^ n)
       (move_to ''1'' Queued (snd (api_download_model 0 ''1'' demo_request (dm_new ''models''))) Map.empty
          (dl_init ''models'' Map.empty))"

lemma demo_accepted: "accept_download demo_request = Inr (''net'', Url ''https://github.com/x/net.bin'')"
  by code_simp

lemma demo_reachable:
  "dl_reachable pair_watch exact demo_env (\<lambda>xs. xs) (dl_init ''models'' Map.empty) (demo_system 2)"
proof -
  let ?step = "dl_step pair_watch exact demo_env (\<lambda>xs. xs) :: (download_task \<times> nat) dl_system \<Rightarrow> _"
  have "api_download_model 0 ''1'' demo_request (dm_new ''models'') =
      (Inr \<lparr>dp_task_id = ''1'', dp_status = ''started'', dp_message = ''Download task 1 created for model net''\<rparr>,
       snd (api_download_model 0 ''1'' demo_request (dm_new ''models'')))"
    by (simp add: api_download_model_def demo_accepted dm_download_model_def)
  then have "?step (dl_init ''models'' Map.empty) (demo_system 0)"
    using dl_step.request [of "dl_init ''models'' Map.empty" "''1''"] by (simp add: demo_system_def dl_init_def)
  moreover have "\<exists>s'. worker_step pair_watch exact demo_env (\<lambda>xs. xs) 0 ''1'' (demo_system 0) = Some s'"
    by (simp add: demo_system_def worker_step_def move_to_def api_download_model_def demo_accepted dm_download_model_def
        dm_new_def dm_begin_def Let_def)
  then have "?step (demo_system 0) (demo_system 1)" by (auto simp: demo_system_def intro: dl_step.work)
  moreover have "\<exists>s'. worker_step pair_watch exact demo_env (\<lambda>xs. xs) 0 ''1'' (demo_system 1) = Some s'"
    by (simp add: demo_system_def worker_step_def move_to_def api_download_model_def demo_accepted dm_download_model_def
        dm_new_def dm_begin_def Let_def split: prod.split sum.split)
  then have "?step (demo_system 1) (demo_system 2)"
    by (auto simp: demo_system_def numeral_2_eq_2 intro: dl_step.work)
  ultimately show ?thesis unfolding dl_reachable_def by (meson converse_rtranclp_into_rtranclp rtranclp.rtrancl_refl)
qed

lemma demo_written:
  "sy_files (demo_system 2) [Normal ''models'', Normal ''net'', Normal ''net.bin''] = Some [1, 2]"
proof -
  have "join_path ''models'' ''net'' = ''models/net''" "join_path ''models/net'' ''net.bin'' = ''models/net/net.bin''"
    "path_is_within ''models/net/net.bin'' ''models/net''" "is_safe_relative_path ''net.bin''"
    "components ''models/net/net.bin'' = [Normal ''models'', Normal ''net'', Normal ''net.bin'']"
    by code_simp+
  then show ?thesis
    by (simp add: demo_system_def numeral_2_eq_2 worker_step_def move_to_def api_download_model_def demo_accepted
        dm_download_model_def dm_new_def dm_begin_def Let_def dm_transfer_def demo_env_def new_task_def
        download_from_url_def check_url_def raw_filename_def allowed_hosts_def model_dir_def save_body_def)
qed


theorem download_slots_witness:
  "dm_permits (sy_mgr (demo_system 2)) + card {i. holds_permit (sy_workers (demo_system 2) i)} = 3"
  using download_slots [OF demo_reachable] by simp

section \<open>What the manager does not do\<close>

text \<open>The name \<open>.\<close> is accepted: its model is the cache directory itself, and deleting it deletes everything.\<close>

lemma dot_model_deletes_cache:
  assumes "cache \<noteq> []" "dm_models m ''.'' = Some info" "mi_local_path info = join_path cache ''.''"
    and "de_exists env (mi_local_path info)" "de_remove env (mi_local_path info) = None"
  shows "accept_download (demo_request\<lparr>dr_model_name := ''.''\<rparr>) = Inr (''.'', Url ''https://github.com/x/net.bin'') \<and>
    (\<forall>k. snd (snd (dm_delete_model env ''.'' (m, files))) k = (if below cache k then None else files k))"
proof -
  have "\<not> is_absolute ''.''" "parts ''.'' = []" by code_simp+
  then have "components (join_path cache ''.'') = components cache" by (simp add: components_join [OF assms(1)])
  then have "below (join_path cache ''.'') k = below cache k" for k by (simp add: below_def)
  moreover have "accept_download (demo_request\<lparr>dr_model_name := ''.''\<rparr>) = Inr (''.'', Url ''https://github.com/x/net.bin'')"
    by code_simp
  ultimately show ?thesis using assms(2-5) by (simp add: dm_delete_model_def Let_def)
qed

text \<open>With a cache directory that starts with a dot no URL download can succeed.\<close>

lemma hd_split_join:
  assumes "base \<noteq> []" "\<not> is_absolute p" "hd (split_slash base) = ''.''"
  shows "hd (split_slash (join_path base p)) = ''.''"
proof (cases "last base = CHR ''/''")
  case False
  then show ?thesis using assms by (simp add: join_path_def hd_split_append)
next
  case True
  then obtain b where b: "base = b @ ''/''" using assms(1) by (metis append_butlast_last_id)
  then show ?thesis using assms(2,3) hd_split_append [of b "[]"] hd_split_append [of b p] by (simp add: join_path_def)
qed

lemma dot_cache_refuses:
  assumes "hd (split_slash cache) = ''.''" "good_name n"
  shows "isl (fst (download_from_url W fl env i url (join_path cache n) mf))"
proof -
  have "\<not> is_absolute n" using assms(2) by (cases n) (auto simp: good_name_def is_absolute_def)
  moreover have "cache \<noteq> []" using assms(1) by auto
  ultimately have "hd (split_slash (join_path cache n)) = ''.''" using assms(1) by (intro hd_split_join)
  from dot_base_refuses [OF this] show ?thesis
    by (auto simp: download_from_url_def Let_def split: sum.split)
qed

text \<open>A file of a repository that cannot be fetched is left out, and the download counts as complete.\<close>

lemma missing_file_ignored:
  assumes "path_is_within (join_path target path) target" "de_mkdir env (butlast (components (join_path target path))) = None"
    and "de_fetch env (''https://huggingface.co/'' @ repo @ ''/resolve/'' @ branch @ ''/'' @ path) = Inr reply"
    and "\<not> hr_success reply"
  shows "hf_file W fl env i repo branch target n (idx, path) mf = (Inr (), mf)"
  using assms by (simp add: hf_file_def)

text \<open>A task is announced as completed before its model is known, and may still turn to failed.\<close>

lemma completed_then_failed:
  assumes "sy_workers s i = Some (Announced t)" "dm_publish env now t (sy_mgr s) = (Inl e, m)"
    and "dm_tasks (sy_mgr s) i = Some u" "dt_status u = Completed"
  shows "\<exists>s' s'' u'. worker_step W fl env order now i s = Some s' \<and> worker_step W fl env order now i s' = Some s'' \<and>
    dm_tasks (sy_mgr s'') i = Some u' \<and> dt_status u' = Failed"
proof -
  have "m = sy_mgr s" using assms(2) by (simp add: dm_publish_def Let_def split: sum.splits)
  then show ?thesis
    using assms by (simp add: worker_step_def move_to_def status_tasks)
qed

text \<open>A stream that starts from a stale value does not end: it waits for a change that has been.\<close>

lemma stale_stream_waits: "\<not> is_terminal (dt_status t) \<Longrightarrow> to_json t = Inr j \<Longrightarrow> \<not> snd (sse_events to_json [t])"
  by simp

text \<open>The catalogue: the spelling of the registry file gets neither rank nor accuracy.\<close>

lemma spaced_task_unranked:
  assumes "parse_available_model_entry i d = Some (v, task)" "str_field ''task'' d = Some ''Image Classification''"
  shows "rank_of v = 999 \<and> vget ''accuracy'' v = None"
proof -
  have "entry_task d = ''Image Classification''" using assms(2) by (simp add: entry_task_def)
  then show ?thesis
    using assms(1)
    by (auto simp: parse_available_model_entry_def Let_def vset_some_def vset_def rank_of_def update_conv'
        split: json.splits option.splits)
qed

text \<open>Sizes below the largest unit are shown as a number from 1 to 1024.\<close>

lemma shrink_range:
  "us \<noteq> [] \<Longrightarrow> 1 \<le> x \<Longrightarrow> x < 1024 ^ length us \<Longrightarrow> 1 \<le> fst (shrink exact us x) \<and> fst (shrink exact us x) < 1024"
  by (induction exact us x rule: shrink.induct) (auto simp: field_simps)

end
