(* ===== verification/Registry.thy ===== *)
theory Registry
  imports Errors Value
begin

text \<open>
  The model registry (\<open>models/registry.rs\<close>). The concurrent map is a partial function; what iterates
  over it takes the order of the keys as an argument. A path is the list of its components. The file
  system and the derived decoders of the configuration records are the record \<open>model_fs\<close>; the two
  readings of the clock at a registration are an argument.
\<close>

datatype model_format = PyTorch | ONNX | Candle | SafeTensors

definition from_extension :: "string \<Rightarrow> model_format option" where
  "from_extension ext =
     (let e = to_ascii_lowercase ext
      in if e = ''pt'' \<or> e = ''pth'' then Some PyTorch
         else if e = ''onnx'' then Some ONNX
         else if e = ''safetensors'' then Some SafeTensors else None)"

record normalization_params =
  np_mean :: "real list"
  np_std :: "real list"

record image_preprocessing =
  ip_resize :: "(u32 \<times> u32) option"
  ip_normalize :: "normalization_params option"
  ip_to_tensor :: bool
  ip_color_space :: "string option"

record mel_spectrogram_params =
  ms_n_fft :: nat
  ms_hop_length :: nat
  ms_n_mels :: nat

record audio_preprocessing =
  aq_sample_rate :: "u32 option"
  aq_channels :: "u32 option"
  aq_normalize :: bool
  aq_to_mel :: "mel_spectrogram_params option"

record text_preprocessing =
  tp_tokenizer :: "string option"
  tp_max_length :: "nat option"
  tp_padding :: bool
  tp_truncation :: bool

record preprocessing_config =
  pp_image :: "image_preprocessing option"
  pp_audio :: "audio_preprocessing option"
  pp_text :: "text_preprocessing option"
  pp_custom :: "val option"

datatype output_type = Classification | Regression | Segmentation | Detection | Generation_Output | Raw

record postprocessing_config =
  po_output_type :: output_type
  po_threshold :: "real option"
  po_top_k :: "nat option"
  po_custom :: "val option"

type_synonym path = "string list"

record model_metadata =
  md_id :: string
  md_name :: string
  md_format :: model_format
  md_path :: path
  md_version :: string
  md_description :: "string option"
  md_tags :: "string list"
  md_input_schema :: "val option"
  md_output_schema :: "val option"
  md_preprocessing :: "preprocessing_config option"
  md_postprocessing :: "postprocessing_config option"
  md_created_at :: nat
  md_updated_at :: nat
  md_file_size :: u64
  md_checksum :: "string option"

record model_entry =
  me_metadata :: model_metadata
  me_is_loaded :: bool
  me_load_count :: u64
  me_last_used :: "nat option"

record model_registry =
  mr_models :: "string \<Rightarrow> model_entry option"
  mr_base_path :: path

definition mr_new :: "path \<Rightarrow> model_registry" where
  "mr_new base = \<lparr>mr_models = Map.empty, mr_base_path = base\<rparr>"

record model_fs =
  fs_exists :: "path \<Rightarrow> bool"
  fs_is_file :: "path \<Rightarrow> bool"
  fs_is_dir :: "path \<Rightarrow> bool"
  fs_size :: "path \<Rightarrow> string + u64"
  fs_read :: "path \<Rightarrow> string + string"
  fs_entries :: "path \<Rightarrow> string + (string + path) list"
  fs_show :: "path \<Rightarrow> string"
  fs_from_json :: "string \<Rightarrow> string + val"
  fs_preprocessing :: "val \<Rightarrow> preprocessing_config option"
  fs_postprocessing :: "val \<Rightarrow> postprocessing_config option"

section \<open>File names\<close>

text \<open>Stem and extension: what is before and after the last dot; a leading dot is part of the stem.\<close>

definition split_name :: "string \<Rightarrow> string \<times> string option" where
  "split_name name =
     (let after = takeWhile (\<lambda>c. c \<noteq> CHR ''.'') (rev name);
          stem = rev (drop (length after + 1) (rev name))
      in if CHR ''.'' \<in> set name \<and> stem \<noteq> [] then (stem, Some (rev after)) else (name, None))"

definition file_name :: "path \<Rightarrow> string option" where
  "file_name p = (if p = [] \<or> last p = ''..'' then None else Some (last p))"

definition extension :: "path \<Rightarrow> string option" where
  "extension p = Option.bind (file_name p) (snd \<circ> split_name)"

definition file_stem :: "path \<Rightarrow> string option" where
  "file_stem p = map_option (fst \<circ> split_name) (file_name p)"

definition with_json :: "path \<Rightarrow> path" where
  "with_json p = (case file_stem p of None \<Rightarrow> p | Some s \<Rightarrow> butlast p @ [s @ ''.json''])"

section \<open>Registering\<close>

definition load_model_config ::
  "model_fs \<Rightarrow> path \<Rightarrow>
   string + preprocessing_config option \<times> postprocessing_config option \<times> val option \<times> val option" where
  "load_model_config fs p =
     (case fs_read fs p of
        Inl e \<Rightarrow> Inl ''Failed to read config file''
      | Inr content \<Rightarrow>
          (case fs_from_json fs content of
             Inl e \<Rightarrow> Inl ''Failed to parse config JSON''
           | Inr config \<Rightarrow>
               Inr (Option.bind (vget ''preprocessing'' config) (fs_preprocessing fs),
                    Option.bind (vget ''postprocessing'' config) (fs_postprocessing fs),
                    vget ''input_schema'' config, vget ''output_schema'' config)))"

definition model_id_of :: "path \<Rightarrow> string option \<Rightarrow> string" where
  "model_id_of p name =
     (case name of Some n \<Rightarrow> n | None \<Rightarrow> (case file_stem p of Some s \<Rightarrow> s | None \<Rightarrow> ''unknown''))"

definition new_entry ::
  "model_format \<Rightarrow> path \<Rightarrow> string option \<Rightarrow> nat \<times> nat \<Rightarrow> u64 \<Rightarrow>
   preprocessing_config option \<times> postprocessing_config option \<times> val option \<times> val option \<Rightarrow> model_entry" where
  "new_entry format p name now bytes cfg =
     (let (pre, post, inp, outp) = cfg
      in \<lparr>me_metadata =
            \<lparr>md_id = model_id_of p name, md_name = (case name of Some n \<Rightarrow> n | None \<Rightarrow> model_id_of p name),
             md_format = format, md_path = p, md_version = ''1.0.0'', md_description = None, md_tags = [],
             md_input_schema = inp, md_output_schema = outp, md_preprocessing = pre, md_postprocessing = post,
             md_created_at = fst now, md_updated_at = snd now, md_file_size = bytes, md_checksum = None\<rparr>,
          me_is_loaded = False, me_load_count = 0, me_last_used = None\<rparr>)"

definition described_entry :: "model_fs \<Rightarrow> nat \<times> nat \<Rightarrow> path \<Rightarrow> string option \<Rightarrow> string + model_entry" where
  "described_entry fs now p name =
     (if \<not> fs_exists fs p then Inl (''Model file does not exist: '' @ fs_show fs p)
      else case extension p of
        None \<Rightarrow> Inl ''Invalid file extension''
      | Some ext \<Rightarrow>
          (case from_extension ext of
             None \<Rightarrow> Inl (''Unsupported model format: '' @ ext)
           | Some format \<Rightarrow>
               (case fs_size fs p of
                  Inl e \<Rightarrow> Inl ''Failed to read file metadata''
                | Inr bytes \<Rightarrow>
                    bindR (if fs_exists fs (with_json p) then load_model_config fs (with_json p)
                           else Inr (None, None, None, None))
                      (\<lambda>cfg. Inr (new_entry format p name now bytes cfg)))))"

definition register_from_path ::
  "model_fs \<Rightarrow> nat \<times> nat \<Rightarrow> path \<Rightarrow> string option \<Rightarrow> model_registry \<Rightarrow> (string + string) \<times> model_registry" where
  "register_from_path fs now p name reg =
     (case described_entry fs now p name of
        Inl e \<Rightarrow> (Inl e, reg)
      | Inr entry \<Rightarrow>
          (Inr (model_id_of p name), reg\<lparr>mr_models := (mr_models reg)(model_id_of p name \<mapsto> entry)\<rparr>))"

definition is_model_file :: "model_fs \<Rightarrow> path \<Rightarrow> bool" where
  "is_model_file fs p \<longleftrightarrow> fs_is_file fs p \<and> Option.bind (extension p) from_extension \<noteq> None"

fun scan_entries ::
  "model_fs \<Rightarrow> nat \<times> nat \<Rightarrow> (string + path) list \<Rightarrow> string list \<Rightarrow> model_registry \<Rightarrow>
   (string + string list) \<times> model_registry" where
  "scan_entries fs now [] registered reg = (Inr registered, reg)"
| "scan_entries fs now (Inl e # es) registered reg = (Inl e, reg)"
| "scan_entries fs now (Inr p # es) registered reg =
     (if is_model_file fs p
      then case register_from_path fs now p None reg of
             (Inr i, reg) \<Rightarrow> scan_entries fs now es (registered @ [i]) reg
           | (Inl _, reg) \<Rightarrow> scan_entries fs now es registered reg
      else scan_entries fs now es registered reg)"

definition mr_scan_directory ::
  "model_fs \<Rightarrow> nat \<times> nat \<Rightarrow> path \<Rightarrow> model_registry \<Rightarrow> (string + string list) \<times> model_registry" where
  "mr_scan_directory fs now dir reg =
     (if \<not> fs_exists fs dir \<or> \<not> fs_is_dir fs dir then (Inl (''Invalid directory path: '' @ fs_show fs dir), reg)
      else case fs_entries fs dir of
             Inl e \<Rightarrow> (Inl ''Failed to read directory'', reg)
           | Inr es \<Rightarrow> scan_entries fs now es [] reg)"

section \<open>The other operations\<close>

definition mr_get_model :: "string \<Rightarrow> model_registry \<Rightarrow> string + model_metadata" where
  "mr_get_model i reg =
     (case mr_models reg i of
        Some e \<Rightarrow> Inr (me_metadata e)
      | None \<Rightarrow> Inl (inference_error_msg (ModelNotFound i)))"

definition mr_update_model ::
  "string \<Rightarrow> (model_entry \<Rightarrow> model_entry) \<Rightarrow> model_registry \<Rightarrow> (string + unit) \<times> model_registry" where
  "mr_update_model i f reg =
     (case mr_models reg i of
        Some e \<Rightarrow> (Inr (), reg\<lparr>mr_models := (mr_models reg)(i \<mapsto> f e)\<rparr>)
      | None \<Rightarrow> (Inl (inference_error_msg (ModelNotFound i)), reg))"

definition mr_mark_loaded :: "string \<Rightarrow> model_registry \<Rightarrow> (string + unit) \<times> model_registry" where
  "mr_mark_loaded i = mr_update_model i (\<lambda>e. e\<lparr>me_is_loaded := True, me_load_count := me_load_count e + 1\<rparr>)"

definition mr_mark_used :: "nat \<Rightarrow> string \<Rightarrow> model_registry \<Rightarrow> (string + unit) \<times> model_registry" where
  "mr_mark_used now i = mr_update_model i (\<lambda>e. e\<lparr>me_last_used := Some now\<rparr>)"

text \<open>The entries in the order of an iteration.\<close>

definition entries :: "string list \<Rightarrow> model_registry \<Rightarrow> model_entry list" where
  "entries iter reg = List.map_filter (mr_models reg) iter"

definition mr_list_models :: "string list \<Rightarrow> model_registry \<Rightarrow> model_metadata list" where
  "mr_list_models iter reg = map me_metadata (entries iter reg)"

definition mr_list_by_format :: "string list \<Rightarrow> model_format \<Rightarrow> model_registry \<Rightarrow> model_metadata list" where
  "mr_list_by_format iter f reg = map me_metadata (filter (\<lambda>e. md_format (me_metadata e) = f) (entries iter reg))"

definition mr_search_by_tags :: "string list \<Rightarrow> string list \<Rightarrow> model_registry \<Rightarrow> model_metadata list" where
  "mr_search_by_tags iter tags reg =
     map me_metadata (filter (\<lambda>e. list_ex (\<lambda>t. t \<in> set (md_tags (me_metadata e))) tags) (entries iter reg))"

definition mr_unregister :: "string \<Rightarrow> model_registry \<Rightarrow> (string + unit) \<times> model_registry" where
  "mr_unregister i reg =
     (case mr_models reg i of
        Some _ \<Rightarrow> (Inr (), reg\<lparr>mr_models := (mr_models reg)(i := None)\<rparr>)
      | None \<Rightarrow> (Inl (inference_error_msg (ModelNotFound i)), reg))"

record registry_stats =
  rs_total_models :: nat
  rs_loaded_models :: nat
  rs_format_counts :: "model_format \<Rightarrow> nat option"
  rs_total_size_bytes :: u64

definition count_format :: "(model_format \<Rightarrow> nat option) \<Rightarrow> model_entry \<Rightarrow> (model_format \<Rightarrow> nat option)" where
  "count_format counts e =
     (let f = md_format (me_metadata e)
      in counts(f \<mapsto> (case counts f of Some n \<Rightarrow> n | None \<Rightarrow> 0) + 1))"

definition mr_get_stats :: "string list \<Rightarrow> model_registry \<Rightarrow> registry_stats" where
  "mr_get_stats iter reg =
     (let es = entries iter reg
      in \<lparr>rs_total_models = length es, rs_loaded_models = length (filter me_is_loaded es),
          rs_format_counts = foldl count_format Map.empty es,
          rs_total_size_bytes = sum_list (map (md_file_size \<circ> me_metadata) es)\<rparr>)"

fun format_name :: "model_format \<Rightarrow> string" where
  "format_name PyTorch = ''pytorch''"
| "format_name ONNX = ''onnx''"
| "format_name Candle = ''candle''"
| "format_name SafeTensors = ''safetensors''"

text \<open>How a path and a time are written in JSON are arguments.\<close>

definition export_entry :: "(path \<Rightarrow> string) \<Rightarrow> (nat \<Rightarrow> string) \<Rightarrow> model_entry \<Rightarrow> val" where
  "export_entry sp st e =
     (let m = me_metadata e
      in JObject [(''id'', JString (md_id m)), (''name'', JString (md_name m)),
           (''format'', JString (format_name (md_format m))), (''path'', JString (sp (md_path m))),
           (''version'', JString (md_version m)), (''is_loaded'', JBool (me_is_loaded e)),
           (''load_count'', JNumber (PosInt (me_load_count e))),
           (''last_used'', (case me_last_used e of Some t \<Rightarrow> JString (st t) | None \<Rightarrow> JNull))])"

definition mr_export_registry ::
  "(path \<Rightarrow> string) \<Rightarrow> (nat \<Rightarrow> string) \<Rightarrow> nat \<Rightarrow> string list \<Rightarrow> model_registry \<Rightarrow> val" where
  "mr_export_registry sp st now iter reg =
     (let models = map (export_entry sp st) (entries iter reg)
      in JObject [(''models'', JArray models), (''total'', JNumber (PosInt (word_of_nat (length models)))),
           (''exported_at'', JString (st now))])"

section \<open>The life of an entry\<close>

datatype reg_op =
  Register model_fs "nat \<times> nat" path "string option"
| Unregister string
| MarkLoaded string
| MarkUsed nat string

fun reg_step :: "reg_op \<Rightarrow> model_registry \<Rightarrow> model_registry" where
  "reg_step (Register fs now p name) reg = snd (register_from_path fs now p name reg)"
| "reg_step (Unregister i) reg = snd (mr_unregister i reg)"
| "reg_step (MarkLoaded i) reg = snd (mr_mark_loaded i reg)"
| "reg_step (MarkUsed t i) reg = snd (mr_mark_used t i reg)"

text \<open>What a client knows of one model: its file since it was last registered, and how often it was loaded since.\<close>

fun known_step :: "string \<Rightarrow> (path \<times> nat) option \<Rightarrow> reg_op \<Rightarrow> (path \<times> nat) option" where
  "known_step i k (Register fs now p name) =
     (if model_id_of p name = i \<and> \<not> isl (described_entry fs now p name) then Some (p, 0) else k)"
| "known_step i k (Unregister j) = (if j = i then None else k)"
| "known_step i k (MarkLoaded j) = (if j = i then map_option (map_prod id Suc) k else k)"
| "known_step i k (MarkUsed t j) = k"

definition entry_knows :: "string \<Rightarrow> model_entry option \<Rightarrow> (path \<times> nat) option \<Rightarrow> bool" where
  "entry_knows i e k \<longleftrightarrow>
     (case (e, k) of
        (None, None) \<Rightarrow> True
      | (Some e, Some (p, n)) \<Rightarrow>
          md_id (me_metadata e) = i \<and> md_path (me_metadata e) = p \<and> me_load_count e = word_of_nat n \<and>
          (me_is_loaded e \<longleftrightarrow> 0 < n)
      | _ \<Rightarrow> False)"

lemma described_entry_Inr:
  "described_entry fs now p name = Inr e \<Longrightarrow>
   md_id (me_metadata e) = model_id_of p name \<and> md_path (me_metadata e) = p \<and> me_load_count e = 0 \<and> \<not> me_is_loaded e"
  by (auto simp: described_entry_def new_entry_def bindR_Inr_iff split: if_splits option.splits sum.splits prod.splits)

lemma entry_knows_step:
  assumes "entry_knows i (mr_models reg i) k"
  shows "entry_knows i (mr_models (reg_step op reg) i) (known_step i k op)"
proof (cases op)
  case (Register fs now p name)
  then show ?thesis
    using assms described_entry_Inr [of fs now p name]
    by (cases "described_entry fs now p name") (auto simp: register_from_path_def entry_knows_def)
next
  case (Unregister j)
  then show ?thesis using assms by (auto simp: mr_unregister_def entry_knows_def split: option.splits)
next
  case (MarkLoaded j)
  then show ?thesis
    using assms by (auto simp: mr_mark_loaded_def mr_update_model_def entry_knows_def split: option.splits)
next
  case (MarkUsed t j)
  then show ?thesis
    using assms by (auto simp: mr_mark_used_def mr_update_model_def entry_knows_def split: option.splits)
qed


section \<open>Statistics\<close>

lemma counted_formats:
  "(case foldl count_format counts es f of Some n \<Rightarrow> n | None \<Rightarrow> 0) =
   (case counts f of Some n \<Rightarrow> n | None \<Rightarrow> 0) + length (filter (\<lambda>e. md_format (me_metadata e) = f) es)"
  by (induction es arbitrary: counts) (auto simp: count_format_def Let_def)

lemma formats_partition:
  "length es = (\<Sum>f \<leftarrow> [PyTorch, ONNX, Candle, SafeTensors]. length (filter (\<lambda>e. md_format (me_metadata e) = f) es))"
proof (induction es)
  case (Cons e es)
  then show ?case by (cases "md_format (me_metadata e)") simp_all
qed simp

lemma length_entries:
  "set iter = dom (mr_models reg) \<Longrightarrow> distinct iter \<Longrightarrow> length (entries iter reg) = card (dom (mr_models reg))"
proof -
  assume iter: "set iter = dom (mr_models reg)" "distinct iter"
  have "length (entries ks reg) = length ks" if "set ks \<subseteq> dom (mr_models reg)" for ks
    using that by (induction ks) (auto simp: entries_def map_filter_simps split: option.split)
  with iter show ?thesis by (metis distinct_card order_refl)
qed

text \<open>The counts of the formats add up to the number of models, and no more are loaded than there are.\<close>

lemma stats_add_up:
  assumes "set iter = dom (mr_models reg)" "distinct iter"
  shows "rs_total_models (mr_get_stats iter reg) = card (dom (mr_models reg)) \<and>
    rs_total_models (mr_get_stats iter reg) = (\<Sum>f \<leftarrow> [PyTorch, ONNX, Candle, SafeTensors].
      case rs_format_counts (mr_get_stats iter reg) f of Some n \<Rightarrow> n | None \<Rightarrow> 0) \<and>
    rs_loaded_models (mr_get_stats iter reg) \<le> rs_total_models (mr_get_stats iter reg)"
  using length_entries [OF assms] formats_partition [of "entries iter reg"]
    length_filter_le [of me_is_loaded "entries iter reg"]
  by (simp add: mr_get_stats_def Let_def counted_formats)

section \<open>Scanning\<close>

definition from_file :: "model_fs \<Rightarrow> nat \<times> nat \<Rightarrow> (string + path) list \<Rightarrow> string \<Rightarrow> model_entry option \<Rightarrow> bool" where
  "from_file fs now es i e \<longleftrightarrow>
     (\<exists>p entry. Inr p \<in> set es \<and> is_model_file fs p \<and> model_id_of p None = i \<and>
        described_entry fs now p None = Inr entry \<and> e = Some entry)"

lemma scan_entries_spec:
  assumes "scan_entries fs now es ids0 reg = (r, reg')"
  shows "(\<forall>ids. r = Inr ids \<longrightarrow> (\<exists>new. ids = ids0 @ new \<and>
      (\<forall>i. if i \<in> set new then from_file fs now es i (mr_models reg' i) else mr_models reg' i = mr_models reg i)))"
  using assms
proof (induction fs now es ids0 reg rule: scan_entries.induct)
  case (3 fs now p es ids0 reg)
  show ?case
  proof (cases "is_model_file fs p \<and> \<not> isl (described_entry fs now p None)")
    case True
    then obtain entry where entry: "described_entry fs now p None = Inr entry"
      by (cases "described_entry fs now p None") simp_all
    define j reg1 where "j = model_id_of p None" and "reg1 = reg\<lparr>mr_models := (mr_models reg)(j \<mapsto> entry)\<rparr>"
    have reg1: "register_from_path fs now p None reg = (Inr j, reg1)"
      by (simp add: register_from_path_def entry j_def reg1_def)
    then have rest: "scan_entries fs now es (ids0 @ [j]) reg1 = (r, reg')" using "3.prems" True by simp
    show ?thesis
    proof (intro allI impI)
      fix ids assume "r = Inr ids"
      then obtain new where new: "ids = (ids0 @ [j]) @ new"
          "\<forall>i. if i \<in> set new then from_file fs now es i (mr_models reg' i) else mr_models reg' i = mr_models reg1 i"
        using "3.IH"(2) [OF _ reg1 [symmetric] refl rest] True by blast
      have "if i \<in> set (j # new) then from_file fs now (Inr p # es) i (mr_models reg' i)
          else mr_models reg' i = mr_models reg i" for i
        using new(2) [rule_format, of i] True entry
        by (auto simp: from_file_def reg1_def j_def split: if_splits)
      then show "\<exists>new. ids = ids0 @ new \<and> (\<forall>i. if i \<in> set new then from_file fs now (Inr p # es) i (mr_models reg' i)
          else mr_models reg' i = mr_models reg i)"
        using new(1) by (intro exI [of _ "j # new"]) simp
    qed
  next
    case False
    have same: "from_file fs now (Inr p # es) i e = from_file fs now es i e" for i e
      using False by (auto simp: from_file_def)
    show ?thesis
    proof (cases "is_model_file fs p")
      case True
      then obtain e where "register_from_path fs now p None reg = (Inl e, reg)"
        using False by (auto simp: register_from_path_def isl_def)
      then show ?thesis unfolding same using "3.IH"(1) [OF True _ refl] "3.prems" True by simp
    next
      case other: False
      then show ?thesis unfolding same using "3.IH"(3) "3.prems" by simp
    qed
  qed
qed auto

end
