(* ===== verification/ModelManager.thy ===== *)
theory ModelManager
  imports Registry Floats
begin

text \<open>
  The model manager (\<open>models/manager.rs\<close>), the part of the ONNX loader it calls and the endpoints of the
  registry (\<open>api/registry.rs\<close>), in the default build, without the \<open>torch\<close> feature. Creating an ONNX session
  is the argument \<open>load\<close>; an instance is of type \<open>'m\<close>.
\<close>

section \<open>Legacy models\<close>

record base_model =
  bm_name :: string
  bm_device :: string
  bm_is_loaded :: bool

definition bm_new :: "string \<Rightarrow> base_model" where
  "bm_new name = \<lparr>bm_name = name, bm_device = ''cpu'', bm_is_loaded = False\<rparr>"

definition bm_load :: "base_model \<Rightarrow> base_model" where
  "bm_load m = m\<lparr>bm_is_loaded := True\<rparr>"

definition bm_forward :: "base_model \<Rightarrow> val \<Rightarrow> inference_error + val" where
  "bm_forward m inputs = (if bm_is_loaded m then Inr inputs else Inl (ModelLoadError ''Model not loaded''))"

definition bm_model_info :: "base_model \<Rightarrow> val" where
  "bm_model_info m = JObject [(''name'', JString (bm_name m)), (''device'', JString (bm_device m)),
     (''loaded'', JBool (bm_is_loaded m))]"

section \<open>The manager\<close>

record models_config =
  mo_cache_dir :: path
  mo_auto_load :: "string list"

record device_config =
  dc_device_id :: nat
  dc_device_ids :: "nat list option"

record 'm model_manager =
  mm_models :: "string \<Rightarrow> base_model option"
  mm_registry :: model_registry
  mm_loaded_onnx_models :: "string \<Rightarrow> 'm list option"
  mm_onnx_replica_idx :: u64
  mm_models_config :: models_config
  mm_device_config :: device_config

definition mm_new :: "models_config \<Rightarrow> device_config \<Rightarrow> 'm model_manager" where
  "mm_new mc dc = \<lparr>mm_models = Map.empty, mm_registry = mr_new (mo_cache_dir mc),
     mm_loaded_onnx_models = Map.empty, mm_onnx_replica_idx = 0, mm_models_config = mc, mm_device_config = dc\<rparr>"

definition mm_register_model_from_path ::
  "model_fs \<Rightarrow> nat \<times> nat \<Rightarrow> path \<Rightarrow> string option \<Rightarrow> 'm model_manager \<Rightarrow>
   (inference_error + string) \<times> 'm model_manager" where
  "mm_register_model_from_path fs now p name mm =
     (let (r, reg) = register_from_path fs now p name (mm_registry mm)
      in (map_sum ModelLoadError id r, mm\<lparr>mm_registry := reg\<rparr>))"

definition mm_scan_and_register ::
  "model_fs \<Rightarrow> nat \<times> nat \<Rightarrow> path \<Rightarrow> 'm model_manager \<Rightarrow> (inference_error + string list) \<times> 'm model_manager" where
  "mm_scan_and_register fs now dir mm =
     (let (r, reg) = mr_scan_directory fs now dir (mm_registry mm)
      in (map_sum ModelLoadError id r, mm\<lparr>mm_registry := reg\<rparr>))"

definition mm_get_model_metadata :: "string \<Rightarrow> 'm model_manager \<Rightarrow> inference_error + model_metadata" where
  "mm_get_model_metadata i mm = map_sum ModelLoadError id (mr_get_model i (mm_registry mm))"

definition load_pytorch_model :: "string \<Rightarrow> inference_error + unit" where
  "load_pytorch_model i =
     Inl (ModelLoadError ''PyTorch support not enabled. Compile with --features torch'')"

definition infer_pytorch :: "string \<Rightarrow> val \<Rightarrow> inference_error + val" where
  "infer_pytorch i input =
     Inl (ModelLoadError ''PyTorch support not enabled. Compile with --features torch'')"

definition devices_of :: "device_config \<Rightarrow> nat list" where
  "devices_of dc = (case dc_device_ids dc of Some ids \<Rightarrow> ids | None \<Rightarrow> [dc_device_id dc])"

definition load_onnx_model ::
  "(path \<Rightarrow> nat \<Rightarrow> string + 'm) \<Rightarrow> string \<Rightarrow> 'm model_manager \<Rightarrow> (inference_error + unit) \<times> 'm model_manager" where
  "load_onnx_model load i mm =
     (case mm_get_model_metadata i mm of
        Inl e \<Rightarrow> (Inl e, mm)
      | Inr md \<Rightarrow>
          if md_format md \<noteq> ONNX then (Inl (ModelLoadError (''Model '' @ i @ '' is not an ONNX model'')), mm)
          else case mapR (load (md_path md)) (devices_of (mm_device_config mm)) of
                 Inl e \<Rightarrow> (Inl (ModelLoadError e), mm)
               | Inr instances \<Rightarrow>
                   let (r, reg) = mr_mark_loaded i (mm_registry mm)
                   in (map_sum ModelLoadError id r,
                       mm\<lparr>mm_loaded_onnx_models := (mm_loaded_onnx_models mm)(i \<mapsto> instances), mm_registry := reg\<rparr>))"

text \<open>The loader's inference on a generic model is not implemented and says so.\<close>

definition onnx_infer :: "'m \<Rightarrow> val \<Rightarrow> model_metadata \<Rightarrow> string + val" where
  "onnx_infer m input md =
     Inl (''Generic ONNX inference for model '' @ [CHR 0x27] @ md_name md @ [CHR 0x27] @
       '' is not implemented: input tensor conversion from arbitrary JSON schemas is not yet wired up. Use the '' @
       ''dedicated /classify, /detect, /tts, or /stt endpoints instead.'')"

definition infer_onnx ::
  "('m \<Rightarrow> val \<Rightarrow> model_metadata \<Rightarrow> string + val) \<Rightarrow> nat \<Rightarrow> string \<Rightarrow> val \<Rightarrow> 'm model_manager \<Rightarrow>
   (inference_error + val) \<times> 'm model_manager" where
  "infer_onnx run now i input mm =
     (case mm_get_model_metadata i mm of
        Inl e \<Rightarrow> (Inl e, mm)
      | Inr md \<Rightarrow>
          (case mm_loaded_onnx_models mm i of
             None \<Rightarrow> (Inl (ModelNotFound (''Model '' @ i @ '' not loaded'')), mm)
           | Some instances \<Rightarrow>
               if instances = [] then (Inl (ModelLoadError ''No model instances loaded''), mm)
               else let idx = unat (mm_onnx_replica_idx mm) mod length instances;
                        mm = mm\<lparr>mm_onnx_replica_idx := mm_onnx_replica_idx mm + 1\<rparr>
                    in case run (instances ! idx) input md of
                         Inl e \<Rightarrow> (Inl (ModelLoadError e), mm)
                       | Inr out \<Rightarrow>
                           let (r, reg) = mr_mark_used now i (mm_registry mm)
                           in (bindR (map_sum ModelLoadError id r) (\<lambda>_. Inr out), mm\<lparr>mm_registry := reg\<rparr>)))"

definition infer_registered ::
  "('m \<Rightarrow> val \<Rightarrow> model_metadata \<Rightarrow> string + val) \<Rightarrow> nat \<Rightarrow> string \<Rightarrow> val \<Rightarrow> 'm model_manager \<Rightarrow>
   (inference_error + val) \<times> 'm model_manager" where
  "infer_registered run now i input mm =
     (case mm_get_model_metadata i mm of
        Inl e \<Rightarrow> (Inl e, mm)
      | Inr md \<Rightarrow>
          (case md_format md of
             PyTorch \<Rightarrow> (Inl (ModelLoadError ''PyTorch support disabled''), mm)
           | ONNX \<Rightarrow> infer_onnx run now i input mm
           | Candle \<Rightarrow> (Inl (ModelLoadError ''Unsupported format: Candle''), mm)
           | SafeTensors \<Rightarrow> (Inl (ModelLoadError ''Unsupported format: SafeTensors''), mm)))"

text \<open>A format in JSON is its lower-case name.\<close>

definition mm_get_registry_stats :: "rnd \<Rightarrow> model_format list \<Rightarrow> string list \<Rightarrow> 'm model_manager \<Rightarrow> val" where
  "mm_get_registry_stats fl formats iter mm =
     (let s = mr_get_stats iter (mm_registry mm)
      in JObject [(''total_models'', JNumber (PosInt (word_of_nat (rs_total_models s)))),
           (''loaded_models'', JNumber (PosInt (word_of_nat (rs_loaded_models s)))),
           (''format_counts'', JObject (List.map_filter
              (\<lambda>f. map_option (\<lambda>n. (format_name f, JNumber (PosInt (word_of_nat n)))) (rs_format_counts s f)) formats)),
           (''total_size_mb'', JNumber (Float (fl (fl (fl (real (unat (rs_total_size_bytes s))) / 1024) / 1024))))])"

definition mm_register_model :: "string \<Rightarrow> base_model \<Rightarrow> 'm model_manager \<Rightarrow> 'm model_manager" where
  "mm_register_model name m mm = mm\<lparr>mm_models := (mm_models mm)(name \<mapsto> m)\<rparr>"

definition mm_load_model :: "string \<Rightarrow> 'm model_manager \<Rightarrow> (inference_error + unit) \<times> 'm model_manager" where
  "mm_load_model name mm =
     (case mm_models mm name of
        Some m \<Rightarrow> (Inr (), mm\<lparr>mm_models := (mm_models mm)(name \<mapsto> bm_load m)\<rparr>)
      | None \<Rightarrow> (Inl (ModelNotFound name), mm))"

definition mm_get_model :: "string \<Rightarrow> 'm model_manager \<Rightarrow> inference_error + base_model" where
  "mm_get_model name mm = (case mm_models mm name of Some m \<Rightarrow> Inr m | None \<Rightarrow> Inl (ModelNotFound name))"

definition mm_list_available :: "string list \<Rightarrow> string list \<Rightarrow> 'm model_manager \<Rightarrow> string list" where
  "mm_list_available legacy iter mm = legacy @ map md_id (mr_list_models iter (mm_registry mm))"

section \<open>Start\<close>

fun scan_dirs :: "model_fs \<Rightarrow> nat \<times> nat \<Rightarrow> path list \<Rightarrow> 'm model_manager \<Rightarrow> 'm model_manager" where
  "scan_dirs fs now [] mm = mm"
| "scan_dirs fs now (d # ds) mm =
     scan_dirs fs now ds (if fs_exists fs d \<and> fs_is_dir fs d then snd (mm_scan_and_register fs now d mm) else mm)"

text \<open>What is loaded of a legacy model is a copy, which is dropped.\<close>

fun auto_load :: "(path \<Rightarrow> nat \<Rightarrow> string + 'm) \<Rightarrow> string list \<Rightarrow> 'm model_manager \<Rightarrow> 'm model_manager" where
  "auto_load load [] mm = mm"
| "auto_load load (name # names) mm =
     auto_load load names
       (case mm_get_model name mm of
          Inr m \<Rightarrow> (let copy = bm_load m in mm)
        | Inl _ \<Rightarrow>
            (case mr_get_model name (mm_registry mm) of
               Inl _ \<Rightarrow> mm
             | Inr md \<Rightarrow> if md_format md = ONNX then snd (load_onnx_model load name mm) else mm))"

definition initialize_default_models ::
  "model_fs \<Rightarrow> (path \<Rightarrow> nat \<Rightarrow> string + 'm) \<Rightarrow> nat \<times> nat \<Rightarrow> 'm model_manager \<Rightarrow> 'm model_manager" where
  "initialize_default_models fs load now mm =
     (let mm = mm_register_model ''example'' (bm_new ''example'') mm;
          mm = scan_dirs fs now [mo_cache_dir (mm_models_config mm), [''.'', ''models''], [''.'', ''models'', ''audio'']] mm
      in auto_load load (mo_auto_load (mm_models_config mm)) mm)"

section \<open>The endpoints\<close>

datatype 'b api_response = Success 'b | Failure string

record 'a http_answer =
  ha_status :: nat
  ha_body :: "'a api_response"

text \<open>
  \<open>pl_canonicalize\<close> resolves a path, links and dots included; \<open>pl_create_dirs\<close> makes a directory.
\<close>

record path_lib =
  pl_canonicalize :: "path \<Rightarrow> string + path"
  pl_create_dirs :: "path \<Rightarrow> string + unit"
  pl_parse :: "string \<Rightarrow> path"

fun path_starts_with :: "path \<Rightarrow> path \<Rightarrow> bool" where
  "path_starts_with p [] = True"
| "path_starts_with [] (c # cs) = False"
| "path_starts_with (d # ds) (c # cs) = (d = c \<and> path_starts_with ds cs)"

definition ensure_within_models_dir :: "path_lib \<Rightarrow> model_fs \<Rightarrow> path \<Rightarrow> path \<Rightarrow> string + path" where
  "ensure_within_models_dir pl fs cache_dir p =
     bindR (if fs_exists fs cache_dir then Inr ()
            else map_sum (\<lambda>e. ''failed to prepare models directory '' @ fs_show fs cache_dir @ '': '' @ e) id
                   (pl_create_dirs pl cache_dir))
      (\<lambda>_. bindR (map_sum (\<lambda>e. ''failed to resolve models directory '' @ fs_show fs cache_dir @ '': '' @ e) id
                    (pl_canonicalize pl cache_dir))
      (\<lambda>base. bindR (map_sum (\<lambda>e. ''path does not exist or cannot be resolved: '' @ e) id (pl_canonicalize pl p))
      (\<lambda>canonical. if path_starts_with canonical base then Inr canonical
         else Inl (''path '' @ fs_show fs canonical @ '' is outside the configured models directory '' @ fs_show fs base))))"

definition api_register_model ::
  "path_lib \<Rightarrow> model_fs \<Rightarrow> nat \<times> nat \<Rightarrow> string \<Rightarrow> string option \<Rightarrow> 'm model_manager \<Rightarrow>
   (string \<times> model_metadata) http_answer \<times> 'm model_manager" where
  "api_register_model pl fs now p name mm =
     (case ensure_within_models_dir pl fs (mo_cache_dir (mm_models_config mm)) (pl_parse pl p) of
        Inl e \<Rightarrow> (\<lparr>ha_status = 400, ha_body = Failure e\<rparr>, mm)
      | Inr p \<Rightarrow>
          (case mm_register_model_from_path fs now p name mm of
             (Inl e, mm) \<Rightarrow> (\<lparr>ha_status = 400, ha_body = Failure (inference_error_msg e)\<rparr>, mm)
           | (Inr i, mm) \<Rightarrow>
               (case mm_get_model_metadata i mm of
                  Inl e \<Rightarrow> (\<lparr>ha_status = 500, ha_body = Failure (inference_error_msg e)\<rparr>, mm)
                | Inr md \<Rightarrow> (\<lparr>ha_status = 200, ha_body = Success (i, md)\<rparr>, mm))))"

definition api_scan_directory ::
  "path_lib \<Rightarrow> model_fs \<Rightarrow> nat \<times> nat \<Rightarrow> string \<Rightarrow> 'm model_manager \<Rightarrow>
   (nat \<times> string list) http_answer \<times> 'm model_manager" where
  "api_scan_directory pl fs now p mm =
     (case ensure_within_models_dir pl fs (mo_cache_dir (mm_models_config mm)) (pl_parse pl p) of
        Inl e \<Rightarrow> (\<lparr>ha_status = 400, ha_body = Failure e\<rparr>, mm)
      | Inr p \<Rightarrow>
          (case mm_scan_and_register fs now p mm of
             (Inl e, mm) \<Rightarrow> (\<lparr>ha_status = 400, ha_body = Failure (inference_error_msg e)\<rparr>, mm)
           | (Inr ids, mm) \<Rightarrow> (\<lparr>ha_status = 200, ha_body = Success (length ids, ids)\<rparr>, mm)))"

definition api_get_model_metadata :: "string \<Rightarrow> 'm model_manager \<Rightarrow> model_metadata http_answer" where
  "api_get_model_metadata i mm =
     (case mm_get_model_metadata i mm of
        Inr md \<Rightarrow> \<lparr>ha_status = 200, ha_body = Success md\<rparr>
      | Inl e \<Rightarrow> \<lparr>ha_status = 404, ha_body = Failure (inference_error_msg e)\<rparr>)"

definition format_of_query :: "string \<Rightarrow> model_format option" where
  "format_of_query s =
     (let f = to_ascii_lowercase s
      in if f \<in> {''pytorch'', ''pt'', ''pth''} then Some PyTorch else if f = ''onnx'' then Some ONNX
         else if f = ''candle'' then Some Candle else if f = ''safetensors'' then Some SafeTensors else None)"

definition api_list_registered_models ::
  "string list \<Rightarrow> string option \<Rightarrow> 'm model_manager \<Rightarrow> (model_metadata list \<times> nat) http_answer" where
  "api_list_registered_models iter query mm =
     (let answer = (\<lambda>ms. \<lparr>ha_status = 200, ha_body = Success (ms, length ms)\<rparr>)
      in case query of
           None \<Rightarrow> answer (mr_list_models iter (mm_registry mm))
         | Some s \<Rightarrow>
             (case format_of_query s of
                None \<Rightarrow> \<lparr>ha_status = 400, ha_body = Failure (''Unknown format: '' @ s)\<rparr>
              | Some f \<Rightarrow> answer (mr_list_by_format iter f (mm_registry mm))))"

definition torch_disabled :: "unit http_answer" where
  "torch_disabled = \<lparr>ha_status = 400,
     ha_body = Failure ''PyTorch support not enabled. Compile with --features torch''\<rparr>"

section \<open>Inference on a registered model\<close>

text \<open>
  C46. In the default build no generic inference can succeed: whatever is registered and loaded, running
  a model on whatever input answers with an error and leaves the registry as it was.
\<close>

theorem generic_inference_fails:
  "isl (fst (infer_registered onnx_infer now i input mm)) \<and>
   mm_registry (snd (infer_registered onnx_infer now i input mm)) = mm_registry mm"
  by (auto simp: infer_registered_def infer_onnx_def onnx_infer_def mm_get_model_metadata_def Let_def
      split: sum.splits model_format.splits option.splits)

section \<open>Replicas\<close>

fun infer_many ::
  "('m \<Rightarrow> val \<Rightarrow> model_metadata \<Rightarrow> string + val) \<Rightarrow> nat \<Rightarrow> string \<Rightarrow> val list \<Rightarrow> 'm model_manager \<Rightarrow>
   (inference_error + val) list \<times> 'm model_manager" where
  "infer_many run now i [] mm = ([], mm)"
| "infer_many run now i (x # xs) mm =
     (let (r, mm) = infer_onnx run now i x mm; (rs, mm) = infer_many run now i xs mm in (r # rs, mm))"

lemma infer_onnx_instance:
  assumes "mr_models (mm_registry mm) i = Some e" "mm_loaded_onnx_models mm i = Some instances" "instances \<noteq> []"
  shows "fst (infer_onnx run now i x mm) =
      map_sum ModelLoadError id (run (instances ! (unat (mm_onnx_replica_idx mm) mod length instances)) x (me_metadata e)) \<and>
    (\<exists>e'. mr_models (mm_registry (snd (infer_onnx run now i x mm))) i = Some e' \<and> me_metadata e' = me_metadata e) \<and>
    mm_loaded_onnx_models (snd (infer_onnx run now i x mm)) i = Some instances \<and>
    mm_onnx_replica_idx (snd (infer_onnx run now i x mm)) = mm_onnx_replica_idx mm + 1"
  using assms
  by (auto simp: infer_onnx_def mm_get_model_metadata_def mr_get_model_def mr_mark_used_def mr_update_model_def Let_def
      split: sum.splits)

text \<open>
  C47. Replicas take turns: the \<open>k\<close>-th of a series of inferences runs on the replica \<open>k\<close> places after the
  first, around the list, so that any \<open>n\<close> calls in a row use each of \<open>n\<close> replicas once.
\<close>

theorem replicas_take_turns:
  assumes "mr_models (mm_registry mm) i = Some e" "mm_loaded_onnx_models mm i = Some instances" "instances \<noteq> []"
    and "unat (mm_onnx_replica_idx mm) + length xs < 2 ^ 64"
  shows "fst (infer_many run now i xs mm) =
    map (\<lambda>(k, x). map_sum ModelLoadError id
        (run (instances ! ((unat (mm_onnx_replica_idx mm) + k) mod length instances)) x (me_metadata e)))
      (enumerate 0 xs)"
  using assms
proof (induction xs arbitrary: mm e)
  case (Cons x xs)
  define mm' where "mm' = snd (infer_onnx run now i x mm)"
  note step = infer_onnx_instance [OF Cons.prems(1,2,3), of run now x, folded mm'_def]
  obtain e' where e': "mr_models (mm_registry mm') i = Some e'" "me_metadata e' = me_metadata e" using step by blast
  have idx: "unat (mm_onnx_replica_idx mm') = unat (mm_onnx_replica_idx mm) + 1"
    using step Cons.prems(4) by (simp add: unat_inc)
  have "fst (infer_many run now i xs mm') =
      map (\<lambda>(k, x). map_sum ModelLoadError id
          (run (instances ! ((unat (mm_onnx_replica_idx mm') + k) mod length instances)) x (me_metadata e')))
        (enumerate 0 xs)"
    using step Cons.prems(3,4) idx by (intro Cons.IH [OF e'(1)]) simp_all
  moreover have "enumerate 0 (x # xs) = (0, x) # map (\<lambda>(k, y). (Suc k, y)) (enumerate 0 xs)"
    by (auto simp: enumerate_Suc_eq)
  moreover have "fst (infer_many run now i (x # xs) mm) = fst (infer_onnx run now i x mm) # fst (infer_many run now i xs mm')"
    by (simp add: mm'_def split_beta Let_def)
  ultimately show ?case
    by (simp add: step [THEN conjunct1] idx e'(2) comp_def id_def split_beta)
qed simp

definition two_replicas :: "string model_manager" where
  "two_replicas = (mm_new \<lparr>mo_cache_dir = [''m''], mo_auto_load = []\<rparr> \<lparr>dc_device_id = 0, dc_device_ids = Some [0, 1]\<rparr>)
     \<lparr>mm_registry := \<lparr>mr_models = [''a'' \<mapsto> new_entry ONNX [''m'', ''a.onnx''] None (0, 0) 9 (None, None, None, None)],
        mr_base_path = [''m'']\<rparr>,
      mm_loaded_onnx_models := [''a'' \<mapsto> [''first'', ''second'']]\<rparr>"

lemma replicas_take_turns_witness:
  "fst (infer_many (\<lambda>m x md. Inr (JString m)) 0 ''a'' [JNull, JNull, JNull] two_replicas) =
   [Inr (JString ''first''), Inr (JString ''second''), Inr (JString ''first'')]"
proof -
  have loaded: "mr_models (mm_registry two_replicas) ''a'' =
      Some (new_entry ONNX [''m'', ''a.onnx''] None (0, 0) 9 (None, None, None, None))"
    "mm_loaded_onnx_models two_replicas ''a'' = Some [''first'', ''second'']"
    "mm_onnx_replica_idx two_replicas = 0"
    by (simp_all add: two_replicas_def mm_new_def)
  show ?thesis
    using replicas_take_turns [OF loaded(1,2), of "[JNull, JNull, JNull]" "\<lambda>m x md. Inr (JString m)" 0]
    by (simp add: loaded(3) del: infer_many.simps)
qed

text \<open>Registering a loaded model again replaces what the registry says, not the instances that run.\<close>

lemma reregistered_runs_old_instances:
  assumes "described_entry fs now p name = Inr entry"
  shows "mm_loaded_onnx_models (snd (mm_register_model_from_path fs now p name mm)) = mm_loaded_onnx_models mm \<and>
    (\<exists>e. mr_models (mm_registry (snd (mm_register_model_from_path fs now p name mm))) (model_id_of p name) = Some e \<and>
       \<not> me_is_loaded e \<and> md_path (me_metadata e) = p)"
  using assms described_entry_Inr [OF assms]
  by (simp add: mm_register_model_from_path_def register_from_path_def split_beta)

section \<open>Start\<close>

lemma scan_legacy [simp]: "mm_models (snd (mm_scan_and_register fs now d mm)) = mm_models mm"
  by (simp add: mm_scan_and_register_def split_beta)

lemma scan_dirs_legacy [simp]: "mm_models (scan_dirs fs now ds mm) = mm_models mm"
  by (induction ds arbitrary: mm) simp_all

lemma load_onnx_legacy [simp]: "mm_models (snd (load_onnx_model load i mm)) = mm_models mm"
  by (auto simp: load_onnx_model_def split_beta split: sum.splits)

lemma auto_load_legacy [simp]: "mm_models (auto_load load names mm) = mm_models mm"
  by (induction names arbitrary: mm) (simp_all split: sum.split)

text \<open>A legacy model named in the configuration is not loaded at the start: its copy was.\<close>

lemma auto_load_loads_copy:
  "mm_get_model ''example'' (initialize_default_models fs load now mm) = Inr (bm_new ''example'')"
  by (simp add: initialize_default_models_def mm_get_model_def mm_register_model_def Let_def)

section \<open>The sandbox\<close>

lemma path_starts_with_append: "path_starts_with p q \<longleftrightarrow> (\<exists>r. p = q @ r)"
  by (induction p q rule: path_starts_with.induct) auto

text \<open>All models lie under the directory.\<close>

definition registry_within :: "path \<Rightarrow> model_registry \<Rightarrow> bool" where
  "registry_within base reg \<longleftrightarrow>
     \<not> (\<exists>i e. mr_models reg i = Some e \<and> \<not> path_starts_with (md_path (me_metadata e)) base)"

lemma register_within:
  assumes "registry_within base reg" "path_starts_with p base"
  shows "registry_within base (snd (register_from_path fs now p name reg))"
  using assms described_entry_Inr [of fs now p name]
  by (auto simp: registry_within_def register_from_path_def split: sum.splits)

lemma scan_entries_within:
  assumes "registry_within base reg" "\<forall>p. Inr p \<in> set es \<longrightarrow> path_starts_with p base"
  shows "registry_within base (snd (scan_entries fs now es ids reg))"
  using assms
proof (induction fs now es ids reg rule: scan_entries.induct)
  case (3 fs now p es ids reg)
  have r: "registry_within base (snd (register_from_path fs now p None reg))"
    using 3(4,5) by (intro register_within) simp_all
  obtain x reg1 where reg1: "register_from_path fs now p None reg = (x, reg1)" by fastforce
  then have "registry_within base reg1" using r by simp
  with 3 reg1 show ?case by (cases x) (simp_all split: if_splits)
qed simp_all

lemma ensure_within:
  "ensure_within_models_dir pl fs cache_dir p = Inr q \<Longrightarrow>
   \<exists>base. pl_canonicalize pl cache_dir = Inr base \<and> path_starts_with q base"
  by (auto simp: ensure_within_models_dir_def bindR_Inr_iff map_sum_def split: sum.splits if_splits)

text \<open>Listing a directory gives its children.\<close>

definition lists_children :: "model_fs \<Rightarrow> bool" where
  "lists_children fs \<longleftrightarrow>
     (\<forall>d es p. fs_entries fs d = Inr es \<longrightarrow> Inr p \<in> set es \<longrightarrow> (\<exists>name. p = d @ [name]))"

datatype api_request = PostRegister string "string option" | PostScan string

fun api_call ::
  "path_lib \<Rightarrow> model_fs \<Rightarrow> nat \<times> nat \<Rightarrow> api_request \<Rightarrow> 'm model_manager \<Rightarrow> nat \<times> 'm model_manager" where
  "api_call pl fs now (PostRegister p name) mm = map_prod ha_status id (api_register_model pl fs now p name mm)"
| "api_call pl fs now (PostScan p) mm = map_prod ha_status id (api_scan_directory pl fs now p mm)"

lemma api_call_within:
  assumes "lists_children fs" "pl_canonicalize pl (mo_cache_dir (mm_models_config mm)) = Inr base"
    and "registry_within base (mm_registry mm)"
  shows "registry_within base (mm_registry (snd (api_call pl fs now c mm))) \<and>
    mm_models_config (snd (api_call pl fs now c mm)) = mm_models_config mm"
proof (cases c)
  case (PostRegister p name)
  show ?thesis
  proof (cases "ensure_within_models_dir pl fs (mo_cache_dir (mm_models_config mm)) (pl_parse pl p)")
    case (Inl e)
    then show ?thesis using assms(3) PostRegister by (simp add: api_register_model_def)
  next
    case (Inr q)
    then have "path_starts_with q base" using ensure_within assms(2) by fastforce
    from register_within [OF assms(3) this, of fs now name] show ?thesis
      using Inr PostRegister
      by (auto simp: api_register_model_def mm_register_model_from_path_def split_beta split: sum.splits)
  qed
next
  case (PostScan p)
  show ?thesis
  proof (cases "ensure_within_models_dir pl fs (mo_cache_dir (mm_models_config mm)) (pl_parse pl p)")
    case (Inl e)
    then show ?thesis using assms(3) PostScan by (simp add: api_scan_directory_def)
  next
    case (Inr q)
    then have q: "path_starts_with q base" using ensure_within assms(2) by fastforce
    have "registry_within base (snd (mr_scan_directory fs now q (mm_registry mm)))"
    proof (cases "fs_entries fs q")
      case (Inr es)
      have "\<forall>p. Inr p \<in> set es \<longrightarrow> path_starts_with p base"
        using assms(1) Inr q by (fastforce simp: lists_children_def path_starts_with_append)
      from scan_entries_within [OF assms(3) this] show ?thesis
        using assms(3) Inr by (simp add: mr_scan_directory_def)
    qed (use assms(3) in \<open>simp add: mr_scan_directory_def\<close>)
    then show ?thesis
      using Inr PostScan
      by (auto simp: api_scan_directory_def mm_scan_and_register_def split_beta split: sum.splits)
  qed
qed

lemma api_calls_within:
  assumes "lists_children fs" "pl_canonicalize pl (mo_cache_dir mc) = Inr base"
    and "registry_within base (mm_registry mm)" "mm_models_config mm = mc"
  shows "registry_within base (mm_registry (foldl (\<lambda>mm (now, c). snd (api_call pl fs now c mm)) mm calls))"
  using assms(3,4)
  by (induction calls arbitrary: mm) (auto simp: assms(2) api_call_within [OF assms(1)] split: prod.splits)

text \<open>
  C23. The endpoints register nothing outside the models directory: in any run of register and scan
  requests, with any paths, links and dots in them, every registered model lies under the canonical
  directory, and a request for a path elsewhere is answered 400.
\<close>

theorem registry_sandbox:
  assumes "lists_children fs" "pl_canonicalize pl (mo_cache_dir mc) = Inr base"
  shows "registry_within base (mm_registry (foldl (\<lambda>mm (now, c). snd (api_call pl fs now c mm)) (mm_new mc dc) calls)) \<and>
    (pl_canonicalize pl (pl_parse pl p) = Inr outside \<and> \<not> path_starts_with outside base \<longrightarrow>
       ha_status (fst (api_register_model pl fs now p name (mm_new mc dc))) = 400 \<and>
       ha_status (fst (api_scan_directory pl fs now p (mm_new mc dc))) = 400)"
proof
  show "registry_within base (mm_registry (foldl (\<lambda>mm (now, c). snd (api_call pl fs now c mm)) (mm_new mc dc) calls))"
    by (rule api_calls_within [OF assms]) (simp_all add: mm_new_def registry_within_def mr_new_def)
next
  show "pl_canonicalize pl (pl_parse pl p) = Inr outside \<and> \<not> path_starts_with outside base \<longrightarrow>
       ha_status (fst (api_register_model pl fs now p name (mm_new mc dc))) = 400 \<and>
       ha_status (fst (api_scan_directory pl fs now p (mm_new mc dc))) = 400"
  proof
    assume out: "pl_canonicalize pl (pl_parse pl p) = Inr outside \<and> \<not> path_starts_with outside base"
    then have "isl (ensure_within_models_dir pl fs (mo_cache_dir mc) (pl_parse pl p))"
      using assms(2) by (cases "pl_create_dirs pl (mo_cache_dir mc)") (auto simp: ensure_within_models_dir_def)
    then show "ha_status (fst (api_register_model pl fs now p name (mm_new mc dc))) = 400 \<and>
       ha_status (fst (api_scan_directory pl fs now p (mm_new mc dc))) = 400"
      by (auto simp: api_register_model_def api_scan_directory_def mm_new_def isl_def)
  qed
qed

definition one_file_fs :: model_fs where
  "one_file_fs = \<lparr>fs_exists = \<lambda>p. p = [''m''] \<or> p = [''m'', ''a.onnx''], fs_is_file = \<lambda>p. p = [''m'', ''a.onnx''],
     fs_is_dir = \<lambda>p. p = [''m''], fs_size = \<lambda>p. Inr 9, fs_read = \<lambda>p. Inl ''none'', fs_entries = \<lambda>p. Inr [Inr (p @ [''a.onnx''])],
     fs_show = concat, fs_from_json = \<lambda>s. Inl ''none'', fs_preprocessing = \<lambda>_. None, fs_postprocessing = \<lambda>_. None\<rparr>"

definition plain_paths :: path_lib where
  "plain_paths = \<lparr>pl_canonicalize = Inr, pl_create_dirs = \<lambda>p. Inr (),
     pl_parse = \<lambda>s. if s = ''passwd'' then [''etc'', ''passwd''] else [''m'', s]\<rparr>"

lemma registry_sandbox_witness:
  "registry_within [''m''] (mm_registry (foldl (\<lambda>mm (now, c). snd (api_call plain_paths one_file_fs now c mm))
      (mm_new \<lparr>mo_cache_dir = [''m''], mo_auto_load = []\<rparr> \<lparr>dc_device_id = 0, dc_device_ids = None\<rparr> :: nat model_manager)
      [((0, 0), PostRegister ''a.onnx'' None), ((0, 0), PostScan ''passwd'')]))"
proof -
  have "lists_children one_file_fs" by (auto simp: lists_children_def one_file_fs_def)
  moreover have "pl_canonicalize plain_paths (mo_cache_dir \<lparr>mo_cache_dir = [''m''], mo_auto_load = []\<rparr>) = Inr [''m'']"
    by (simp add: plain_paths_def)
  ultimately show ?thesis by (rule registry_sandbox [THEN conjunct1])
qed

end
