(* ===== verification/Engine.thy ===== *)
theory Engine
  imports ModelManager Security Monitor
begin

text \<open>
  The inference engine (\<open>core/engine.rs\<close>): the sanitiser before and after, the model manager, the metrics. Running
  an ONNX session is the argument \<open>run\<close>, times and latencies are arguments.
\<close>

record 'm engine =
  en_model_manager :: "'m model_manager"
  en_metrics :: metrics_collector
  en_sanitizer :: sanitizer_config

definition engine_new :: "'m model_manager \<Rightarrow> sanitizer_config \<Rightarrow> 'm engine" where
  "engine_new mm cfg = \<lparr>en_model_manager = mm, en_metrics = mx_new, en_sanitizer = cfg\<rparr>"

text \<open>A registered model first, a legacy one otherwise.\<close>

definition run_model ::
  "('m \<Rightarrow> val \<Rightarrow> model_metadata \<Rightarrow> string + val) \<Rightarrow> nat \<Rightarrow> string \<Rightarrow> val \<Rightarrow> 'm model_manager \<Rightarrow>
   (inference_error + val) \<times> 'm model_manager" where
  "run_model run now name inputs mm =
     (if \<not> isl (mm_get_model_metadata name mm) then infer_registered run now name inputs mm
      else (bindR (mm_get_model name mm) (\<lambda>m. bm_forward m inputs), mm))"

definition en_infer ::
  "rnd \<Rightarrow> ('m \<Rightarrow> val \<Rightarrow> model_metadata \<Rightarrow> string + val) \<Rightarrow> nat \<Rightarrow> real \<Rightarrow> string \<Rightarrow> val \<Rightarrow> 'm engine \<Rightarrow>
   (inference_error + val) \<times> 'm engine" where
  "en_infer fl run now latency_ms name inputs en =
     (case sanitize_input (en_sanitizer en) inputs of
        Inl e \<Rightarrow> (Inl (InvalidInput e), en)
      | Inr sanitized \<Rightarrow>
          (let (r, mm) = run_model run now name sanitized (en_model_manager en);
               en = en\<lparr>en_model_manager := mm\<rparr>
           in case r of
                Inl e \<Rightarrow> (Inl e, en)
              | Inr v \<Rightarrow>
                  (Inr (sanitize_output fl (en_sanitizer en) v),
                   en\<lparr>en_metrics := mx_record_inference fl now name latency_ms (en_metrics en)\<rparr>)))"

fun en_warmup ::
  "rnd \<Rightarrow> ('m \<Rightarrow> val \<Rightarrow> model_metadata \<Rightarrow> string + val) \<Rightarrow> nat \<Rightarrow> real \<Rightarrow> string list \<Rightarrow> 'm engine \<Rightarrow> 'm engine" where
  "en_warmup fl run now latency_ms [] en = en"
| "en_warmup fl run now latency_ms (name # names) en =
     en_warmup fl run now latency_ms names
       (case mm_get_model name (en_model_manager en) of
          Inr _ \<Rightarrow> snd (en_infer fl run now latency_ms name (JObject [(''test'', JBool True)]) en)
        | Inl _ \<Rightarrow> en)"

definition en_tts_synthesize :: "string \<Rightarrow> string \<Rightarrow> 'm engine \<Rightarrow> inference_error + string" where
  "en_tts_synthesize name txt en =
     bindR (map_sum InvalidInput id (sanitize_input (en_sanitizer en) (JString txt)))
       (\<lambda>v. case as_str v of
          None \<Rightarrow> Inl (InvalidInput ''Sanitized text is not a string'')
        | Some _ \<Rightarrow>
            bindR (mm_get_model name (en_model_manager en))
              (\<lambda>_. Inl (InferenceFailed (''This registered-model TTS path is not implemented and no longer returns '' @
                 ''fabricated placeholder audio. Use POST /tts/synthesize instead.''))))"

definition en_health_check :: "nat \<Rightarrow> 'm engine \<Rightarrow> val" where
  "en_health_check now_ms en =
     (let r = mx_get_request_metrics (en_metrics en)
      in JObject [(''healthy'', JBool True), (''checks'', JObject [(''models'', JBool True), (''engine'', JBool True)]),
           (''timestamp'', JNumber (PosInt (word_of_nat now_ms))),
           (''stats'', JObject [(''total_requests'', JNumber (PosInt (rm_total_requests r))),
              (''total_errors'', JNumber (PosInt (rm_total_errors r))),
              (''avg_latency_ms'', JNumber (Float (rm_avg_latency_ms r)))])])"

definition en_get_stats :: "'m engine \<Rightarrow> val" where
  "en_get_stats en =
     (let r = mx_get_request_metrics (en_metrics en)
      in JObject [(''total_requests'', JNumber (PosInt (rm_total_requests r))),
           (''total_errors'', JNumber (PosInt (rm_total_errors r))),
           (''average_latency_ms'', JNumber (Float (rm_avg_latency_ms r))),
           (''max_latency_ms'', JNumber (Float (rm_max_latency_ms r))),
           (''min_latency_ms'', JNumber (Float (rm_min_latency_ms r)))])"

section \<open>Facts\<close>

lemma en_infer_sanitizer [simp]: "en_sanitizer (snd (en_infer fl run now l name v en)) = en_sanitizer en"
  by (auto simp: en_infer_def Let_def split: sum.split prod.split)

text \<open>A result is public, whatever the model gave, and only results are counted.\<close>

lemma en_infer_public:
  "en_infer fl run now l name v en = (Inr w, en') \<Longrightarrow> public (sc_remove_null_values (en_sanitizer en)) w"
  by (auto simp: en_infer_def Let_def sanitize_output_public split: sum.splits prod.splits)

lemma en_infer_counts:
  "mx_request_count (en_metrics (snd (en_infer fl run now l name v en))) =
     mx_request_count (en_metrics en) + (if isl (fst (en_infer fl run now l name v en)) then 0 else 1) \<and>
   mx_error_count (en_metrics (snd (en_infer fl run now l name v en))) = mx_error_count (en_metrics en)"
  by (auto simp: en_infer_def Let_def mx_record_inference_def mx_record_request_def split: sum.split prod.split option.split)

text \<open>What the default build can fail with.\<close>

fun default_build_error :: "inference_error \<Rightarrow> bool" where
  "default_build_error (InvalidInput e) = True"
| "default_build_error (ModelLoadError e) = True"
| "default_build_error (ModelNotFound e) = True"
| "default_build_error _ = False"

lemma load_error: "map_sum ModelLoadError id r = Inl e \<Longrightarrow> default_build_error e"
  by (cases r) auto

lemma infer_onnx_error: "infer_onnx run now i v mm = (Inl e, mm') \<Longrightarrow> default_build_error e"
  by (auto simp: infer_onnx_def mm_get_model_metadata_def Let_def bindR_def
      dest: load_error split: sum.splits option.splits if_splits prod.splits)

lemma en_infer_error: "en_infer fl run now l name v en = (Inl e, en') \<Longrightarrow> default_build_error e"
  by (auto simp: en_infer_def run_model_def infer_registered_def Let_def mm_get_model_metadata_def mm_get_model_def
      bindR_def bm_forward_def dest: infer_onnx_error load_error
      split: sum.splits prod.splits option.splits model_format.splits if_splits)

text \<open>Warming up looks for legacy models only: a registered model is left cold.\<close>

lemma warmup_skips_registered:
  "(\<forall>name \<in> set names. mm_models (en_model_manager en) name = None) \<Longrightarrow> en_warmup fl run now l names en = en"
  by (induction names) (auto simp: mm_get_model_def)

text \<open>The old synthesis endpoint cannot succeed.\<close>

lemma tts_synthesize_fails: "isl (en_tts_synthesize name txt en)"
  by (auto simp: en_tts_synthesize_def bindR_def split: sum.split option.split)

end
