(* ===== verification/Predict.thy ===== *)
theory Predict
  imports Engine Dedup CircuitBreaker
begin

text \<open>
  The endpoint \<open>/predict\<close> (\<open>api/handlers.rs\<close>), where the rate limiter, the store of recent answers, the
  circuit breaker and the inference engine meet, and the smaller endpoints of the same file. A request brings
  the readings of the clocks on its way; one request runs at a time.
\<close>

record infer_request =
  iq_model_name :: string
  iq_inputs :: val
  iq_priority :: "32 word"
  iq_timeout :: "real option"

record infer_response =
  ia_success :: bool
  ia_result :: "val option"
  ia_error :: "string option"
  ia_processing_time :: "real option"
  ia_model_info :: "val option"

text \<open>An answer: the status and the body; a client over its limit gets the message alone.\<close>

datatype predict_answer = TooManyRequests string | Answered nat infer_response

text \<open>What comes with one request: the peer and the clock readings, in the order of its steps.\<close>

record arrival =
  ar_peer :: "string option"
  ar_limit :: u64
  ar_key :: u64
  ar_lookup :: u64
  ar_breaker :: nat
  ar_infer :: nat
  ar_latency_ms :: real
  ar_end :: nat
  ar_store :: u64
  ar_elapsed_ms :: u64

text \<open>The LRU cache, the printer of \<open>serde_json\<close>, rounding and the runtime.\<close>

record ('m, 'c) predict_lib =
  xl_lru :: "(val, 'c) dedup_lru"
  xl_scalar :: "val \<Rightarrow> string"
  xl_quote :: "string \<Rightarrow> string"
  xl_fl :: rnd
  xl_run :: "'m \<Rightarrow> val \<Rightarrow> model_metadata \<Rightarrow> string + val"

record ('m, 'c) predict_state =
  ps_limiter :: rate_limiter
  ps_dedup :: "'c deduplicator"
  ps_breaker :: circuit_breaker
  ps_engine :: "'m engine"

fun is_backend_failure :: "inference_error \<Rightarrow> bool" where
  "is_backend_failure InferenceTimeout = True"
| "is_backend_failure (GpuError s) = True"
| "is_backend_failure (InferenceFailed s) = True"
| "is_backend_failure _ = False"

fun predict_status :: "inference_error \<Rightarrow> nat" where
  "predict_status (InvalidInput s) = 400"
| "predict_status (ModelNotFound s) = 404"
| "predict_status (AuthenticationFailed s) = 401"
| "predict_status InferenceTimeout = 504"
| "predict_status (GpuError s) = 503"
| "predict_status _ = 500"

definition success_response :: "val \<Rightarrow> real \<Rightarrow> val option \<Rightarrow> infer_response" where
  "success_response v t info = \<lparr>ia_success = True, ia_result = Some v, ia_error = None, ia_processing_time = Some t,
     ia_model_info = info\<rparr>"

definition failure_response :: "string \<Rightarrow> real \<Rightarrow> infer_response" where
  "failure_response msg t = \<lparr>ia_success = False, ia_result = None, ia_error = Some msg, ia_processing_time = Some t,
     ia_model_info = None\<rparr>"

text \<open>The engine's turn: its result is stored for ten seconds, its error told to the breaker by its kind.\<close>

definition predict_infer ::
  "('m, 'c) predict_lib \<Rightarrow> arrival \<Rightarrow> infer_request \<Rightarrow> string \<Rightarrow> ('m, 'c) predict_state \<Rightarrow>
   predict_answer \<times> ('m, 'c) predict_state" where
  "predict_infer X t req key s =
     (let (r, en) = en_infer (xl_fl X) (xl_run X) (ar_infer t) (ar_latency_ms t) (iq_model_name req) (iq_inputs req) (ps_engine s);
          s = s\<lparr>ps_engine := en\<rparr>;
          elapsed = xl_fl X (real (unat (ar_elapsed_ms t)))
      in case r of
           Inr v \<Rightarrow>
             (Answered 200 (success_response v elapsed None),
              s\<lparr>ps_breaker := cb_record_success (ps_breaker s),
                ps_dedup := dd_set (xl_lru X) (ar_store t) key v 10 (ps_dedup s)\<rparr>)
         | Inl e \<Rightarrow>
             (Answered (predict_status e) (failure_response (inference_error_msg e) elapsed),
              s\<lparr>ps_breaker := (if is_backend_failure e then cb_record_failure (ar_end t) (ps_breaker s)
                 else cb_record_success (ps_breaker s))\<rparr>))"

definition predict ::
  "('m, 'c) predict_lib \<Rightarrow> arrival \<Rightarrow> infer_request \<Rightarrow> ('m, 'c) predict_state \<Rightarrow> predict_answer \<times> ('m, 'c) predict_state"
where
  "predict X t req s =
     (let client_ip = (case ar_peer t of Some ip \<Rightarrow> ip | None \<Rightarrow> ''unknown'');
          (allowed, lim) = rl_is_allowed (ar_limit t) client_ip (ps_limiter s);
          s = s\<lparr>ps_limiter := lim\<rparr>
      in case allowed of
           Inl e \<Rightarrow> (TooManyRequests (rle_message e), s)
         | Inr _ \<Rightarrow>
             (let key = dd_generate_key (xl_scalar X) (xl_quote X) (ar_key t) (iq_model_name req) (iq_inputs req);
                  (cached, d) = dd_get (xl_lru X) (ar_lookup t) key (ps_dedup s);
                  s = s\<lparr>ps_dedup := d\<rparr>
              in case cached of
                   Some v \<Rightarrow>
                     (Answered 200 (success_response v 0 (Some (JObject [(''source'', JString ''deduplication_cache'')]))), s)
                 | None \<Rightarrow>
                     (let (a, b) = cb_try_acquire (ar_breaker t) (ps_breaker s); s = s\<lparr>ps_breaker := b\<rparr>
                      in case a of
                           Inl msg \<Rightarrow> (Answered 503 (failure_response msg 0), s)
                         | Inr _ \<Rightarrow> predict_infer X t req key s)))"

section \<open>The other endpoints\<close>

record tts_request =
  tr_model_name :: string
  tr_text :: string
  tr_voice :: "string option"
  tr_speed :: real
  tr_pitch :: real
  tr_volume :: real
  tr_language :: string
  tr_emotion :: "string option"
  tr_output_format :: string

record tts_response =
  ts_success :: bool
  ts_audio_data :: "string option"
  ts_audio_format :: "string option"
  ts_duration :: "real option"
  ts_sample_rate :: "u32 option"
  ts_processing_time :: "real option"
  ts_error :: "string option"

fun tts_status :: "inference_error \<Rightarrow> nat" where
  "tts_status (InvalidInput s) = 400"
| "tts_status (ModelNotFound s) = 404"
| "tts_status InferenceTimeout = 504"
| "tts_status _ = 500"

definition synthesize_tts :: "real \<Rightarrow> tts_request \<Rightarrow> 'm engine \<Rightarrow> nat \<times> tts_response" where
  "synthesize_tts elapsed req en =
     (case en_tts_synthesize (tr_model_name req) (tr_text req) en of
        Inr audio \<Rightarrow>
          (200, \<lparr>ts_success = True, ts_audio_data = Some audio, ts_audio_format = Some (tr_output_format req),
             ts_duration = None, ts_sample_rate = Some 16000, ts_processing_time = Some elapsed, ts_error = None\<rparr>)
      | Inl e \<Rightarrow>
          (tts_status e, \<lparr>ts_success = False, ts_audio_data = None, ts_audio_format = None, ts_duration = None,
             ts_sample_rate = None, ts_processing_time = Some elapsed, ts_error = Some (inference_error_msg e)\<rparr>))"

definition list_legacy_models :: "string list \<Rightarrow> string list \<Rightarrow> 'm model_manager \<Rightarrow> val" where
  "list_legacy_models legacy iter mm =
     (let ids = mm_list_available legacy iter mm
      in JObject [(''models'', JArray (map JString ids)), (''total'', JNumber (PosInt (word_of_nat (length ids))))])"

definition health_check :: "rnd \<Rightarrow> nat \<Rightarrow> nat \<Rightarrow> (nat \<Rightarrow> string) \<Rightarrow> 'm engine \<Rightarrow> monitor \<Rightarrow> val" where
  "health_check fl now now_ms show_time en mon =
     (let h = mo_get_health_status fl now mon; m = mo_get_metrics fl now mon;
          error_rate = (if 0 < sm_total_requests m
            then fl (fl (real (unat (hs_error_count h))) / fl (real (unat (sm_total_requests m)))) else 0)
      in JObject [(''healthy'', JBool (hs_healthy h)), (''checks'', en_health_check now_ms en),
           (''uptime_seconds'', JNumber (PosInt (hs_uptime_seconds h))),
           (''active_requests'', JNumber (PosInt (hs_active_requests h))),
           (''total_requests'', JNumber (PosInt (sm_total_requests m))),
           (''avg_latency_ms'', JNumber (Float (hs_response_time_ms h))),
           (''error_count'', JNumber (PosInt (hs_error_count h))), (''error_rate'', JNumber (Float error_rate)),
           (''timestamp'', JString (show_time now))])"

section \<open>Runs\<close>

fun predict_run ::
  "('m, 'c) predict_lib \<Rightarrow> (arrival \<times> infer_request) list \<Rightarrow> ('m, 'c) predict_state \<Rightarrow>
   predict_answer list \<times> ('m, 'c) predict_state" where
  "predict_run X [] s = ([], s)"
| "predict_run X ((t, req) # rs) s =
     (let (a, s) = predict X t req s; (as, s) = predict_run X rs s in (a # as, s))"

fun answered_result :: "predict_answer \<Rightarrow> val option" where
  "answered_result (Answered st r) = ia_result r"
| "answered_result (TooManyRequests m) = None"

fun answered_status :: "predict_answer \<Rightarrow> nat" where
  "answered_status (Answered st r) = st"
| "answered_status (TooManyRequests m) = 429"

text \<open>Every value in the store is public.\<close>

definition store_public :: "(val, 'c) dedup_lru \<Rightarrow> bool \<Rightarrow> 'c deduplicator \<Rightarrow> bool" where
  "store_public L no_nulls d \<longleftrightarrow> (\<forall>k v t l. dd_binding L d k = Some (v, t, l) \<longrightarrow> public no_nulls v)"

text \<open>The four ways of a request.\<close>

lemma predict_cases:
  obtains (limited) msg lim where "predict X t req s = (TooManyRequests msg, s\<lparr>ps_limiter := lim\<rparr>)"
  | (cached) lim key v d where "dd_get (xl_lru X) (ar_lookup t) key (ps_dedup s) = (Some v, d)"
      "predict X t req s = (Answered 200 (success_response v 0 (Some (JObject [(''source'', JString ''deduplication_cache'')]))),
         s\<lparr>ps_limiter := lim, ps_dedup := d\<rparr>)"
  | (refused) lim key d msg b where "dd_get (xl_lru X) (ar_lookup t) key (ps_dedup s) = (None, d)"
      "cb_try_acquire (ar_breaker t) (ps_breaker s) = (Inl msg, b)"
      "predict X t req s = (Answered 503 (failure_response msg 0), s\<lparr>ps_limiter := lim, ps_dedup := d, ps_breaker := b\<rparr>)"
  | (inferred) lim key d u b where "dd_get (xl_lru X) (ar_lookup t) key (ps_dedup s) = (None, d)"
      "cb_try_acquire (ar_breaker t) (ps_breaker s) = (Inr u, b)"
      "predict X t req s = predict_infer X t req key (s\<lparr>ps_limiter := lim, ps_dedup := d, ps_breaker := b\<rparr>)"
proof -
  define ip where "ip = (case ar_peer t of Some ip \<Rightarrow> ip | None \<Rightarrow> ''unknown'')"
  obtain allowed lim where al: "rl_is_allowed (ar_limit t) ip (ps_limiter s) = (allowed, lim)" by fastforce
  define key where "key = dd_generate_key (xl_scalar X) (xl_quote X) (ar_key t) (iq_model_name req) (iq_inputs req)"
  obtain c d where get: "dd_get (xl_lru X) (ar_lookup t) key (ps_dedup s) = (c, d)" by fastforce
  obtain r b where acq: "cb_try_acquire (ar_breaker t) (ps_breaker s) = (r, b)" by fastforce
  have eq: "predict X t req s =
    (case allowed of
       Inl e \<Rightarrow> (TooManyRequests (rle_message e), s\<lparr>ps_limiter := lim\<rparr>)
     | Inr _ \<Rightarrow>
         (case c of
            Some v \<Rightarrow> (Answered 200 (success_response v 0 (Some (JObject [(''source'', JString ''deduplication_cache'')]))),
              s\<lparr>ps_limiter := lim, ps_dedup := d\<rparr>)
          | None \<Rightarrow>
              (case r of
                 Inl msg \<Rightarrow> (Answered 503 (failure_response msg 0), s\<lparr>ps_limiter := lim, ps_dedup := d, ps_breaker := b\<rparr>)
               | Inr _ \<Rightarrow> predict_infer X t req key (s\<lparr>ps_limiter := lim, ps_dedup := d, ps_breaker := b\<rparr>))))"
    using al get acq by (simp add: predict_def ip_def [symmetric] key_def [symmetric] Let_def split: sum.split option.split)
  show ?thesis
  proof (cases allowed)
    case (Inl e)
    then show ?thesis using limited eq by simp
  next
    case al: (Inr v)
    show ?thesis
    proof (cases c)
      case (Some v)
      then show ?thesis using cached get eq al by simp
    next
      case None
      then show ?thesis using refused inferred get acq eq al by (cases r) simp_all
    qed
  qed
qed

locale predict_store = dedup_lru L lru_wf for L :: "(val, 'c) dedup_lru" and lru_wf
begin

lemma store_smaller:
  assumes "store_public L b d" "dd_binding L d' \<subseteq>\<^sub>m dd_binding L d"
  shows "store_public L b d'"
  unfolding store_public_def
proof (intro allI impI)
  fix k v t l assume "dd_binding L d' k = Some (v, t, l)"
  then have "dd_binding L d k = Some (v, t, l)" by (rule map_leD [OF assms(2)])
  then show "public b v" using assms(1) unfolding store_public_def by blast
qed

lemma store_set:
  assumes "store_public L b d" "public b v" "dd_wf lru_wf n d"
  shows "store_public L b (dd_set L now key v ttl d)"
  unfolding store_public_def
proof (intro allI impI)
  have le: "dd_binding L (dd_set L now key v ttl d) \<subseteq>\<^sub>m (dd_binding L d)(key \<mapsto> (v, now, ttl))"
    using dd_set_facts [OF assms(3)] by blast
  fix k u t l assume "dd_binding L (dd_set L now key v ttl d) k = Some (u, t, l)"
  then have "((dd_binding L d)(key \<mapsto> (v, now, ttl))) k = Some (u, t, l)" by (rule map_leD [OF le])
  then show "public b u" using assms(1,2) unfolding store_public_def by (auto split: if_splits)
qed

lemma predict_public:
  assumes "xl_lru X = L" "dd_wf lru_wf n (ps_dedup s)" "store_public L b (ps_dedup s)"
    and "b = sc_remove_null_values (en_sanitizer (ps_engine s))" "predict X t req s = (a, s')"
  shows "(\<forall>v. answered_result a = Some v \<longrightarrow> public b v) \<and> dd_wf lru_wf n (ps_dedup s') \<and>
    store_public L b (ps_dedup s') \<and> en_sanitizer (ps_engine s') = en_sanitizer (ps_engine s)"
proof (rule predict_cases [of X t req s], goal_cases)
  case limited: (1 msg lim)
  then show ?thesis using assms by auto
next
  case cached: (2 lim key v d)
  note g = dd_get_facts [OF assms(2) cached(1) [unfolded assms(1)]]
  have "public b v" using g assms(3) unfolding store_public_def by blast
  then show ?thesis using cached(2) g store_smaller [OF assms(3)] assms(5) by (auto simp: success_response_def)
next
  case refused: (3 lim key d msg br)
  note g = dd_get_facts [OF assms(2) refused(1) [unfolded assms(1)]]
  then show ?thesis using refused(3) store_smaller [OF assms(3)] assms(5) by (auto simp: failure_response_def)
next
  case inferred: (4 lim key d u br)
  note g = dd_get_facts [OF assms(2) inferred(1) [unfolded assms(1)]]
  have d: "store_public L b d" using g by (intro store_smaller [OF assms(3)]) blast
  obtain w en where inf: "en_infer (xl_fl X) (xl_run X) (ar_infer t) (ar_latency_ms t) (iq_model_name req) (iq_inputs req)
      (ps_engine s) = (w, en)" by fastforce
  have en: "en_sanitizer en = en_sanitizer (ps_engine s)"
    using en_infer_sanitizer [of "xl_fl X" "xl_run X" "ar_infer t" "ar_latency_ms t" "iq_model_name req" "iq_inputs req"
        "ps_engine s"] inf by simp
  show ?thesis
  proof (cases w)
    case (Inl e)
    then show ?thesis using inferred(3) assms(5) inf g d en by (auto simp: predict_infer_def failure_response_def Let_def)
  next
    case (Inr v)
    have pub: "public b v" using en_infer_public inf Inr assms(4) by blast
    note set = dd_set_facts [of n d "ar_store t" key v 10]
    have "store_public L b (dd_set L (ar_store t) key v 10 d)" using g by (intro store_set [OF d pub]) blast
    then show ?thesis
      using inferred(3) assms(1,5) inf Inr en pub set g by (auto simp: predict_infer_def success_response_def Let_def)
  qed
qed

lemma predict_run_public:
  assumes "xl_lru X = L" "dd_wf lru_wf n (ps_dedup s)" "store_public L b (ps_dedup s)"
    and "b = sc_remove_null_values (en_sanitizer (ps_engine s))" "a \<in> set (fst (predict_run X rs s))"
    "answered_result a = Some v"
  shows "public b v"
  using assms(2-)
proof (induction rs arbitrary: s)
  case (Cons r rs)
  obtain t req where r: "r = (t, req)" by (cases r)
  obtain a' s' where step: "predict X t req s = (a', s')" by fastforce
  note inv = predict_public [OF assms(1) Cons.prems(1,2,3) step]
  show ?case
  proof (cases "a = a'")
    case False
    then have "a \<in> set (fst (predict_run X rs s'))" using Cons.prems(4) step by (auto simp: r split: prod.splits)
    then show ?thesis using Cons.IH [of s'] Cons.prems(3,5) inv by simp
  qed (use inv Cons.prems(5) in blast)
qed simp

lemma new_store:
  "dd_wf lru_wf n (dd_new L n) \<and> store_public L b (dd_new L n)"
  using dedup.init_binding [of n] by (simp add: store_public_def)

end

interpretation list_predict: predict_store list_lru list_lru_wf
  by unfold_locales

section \<open>Properties\<close>

definition ps_new ::
  "('m, 'c) predict_lib \<Rightarrow> u64 \<times> u64 \<Rightarrow> nat \<Rightarrow> cb_config \<Rightarrow> 'm engine \<Rightarrow> ('m, 'c) predict_state" where
  "ps_new X limits cap_n cfg en = \<lparr>ps_limiter = rl_new (fst limits) (snd limits),
     ps_dedup = dd_new (xl_lru X) cap_n, ps_breaker = cb_new cfg, ps_engine = en\<rparr>"


text \<open>The breaker hears of successes only.\<close>

lemma default_build_no_backend_failure: "default_build_error e \<Longrightarrow> \<not> is_backend_failure e"
  by (cases e) auto

lemma closed_stays:
  "cb_state b = Closed \<Longrightarrow> cb_state (cb_record_success b) = Closed \<and> cb_try_acquire now b = (Inr (), b)"
  by (simp add: cb_record_success_def cb_on_success_def cb_try_acquire_def)

lemma predict_breaker_closed:
  assumes "cb_state (ps_breaker s) = Closed"
  shows "cb_state (ps_breaker (snd (predict X t req s))) = Closed \<and> answered_status (fst (predict X t req s)) \<noteq> 503"
proof (rule predict_cases [of X t req s], goal_cases)
  case inferred: (4 lim key d u b)
  then have b: "cb_state b = Closed" using assms by (simp add: closed_stays)
  obtain w en where inf: "en_infer (xl_fl X) (xl_run X) (ar_infer t) (ar_latency_ms t) (iq_model_name req) (iq_inputs req)
      (ps_engine s) = (w, en)" by fastforce
  show ?case
  proof (cases w)
    case (Inl e)
    then have e: "default_build_error e" using en_infer_error inf by blast
    then have "predict_status e \<noteq> 503" by (cases e) auto
    then show ?thesis using inferred(3) inf Inl b default_build_no_backend_failure [OF e]
      by (simp add: predict_infer_def Let_def closed_stays)
  next
    case (Inr v)
    then show ?thesis using inferred(3) inf b by (simp add: predict_infer_def Let_def closed_stays)
  qed
qed (use assms in \<open>auto simp: closed_stays\<close>)

text \<open>
  In the default build (no \<open>torch\<close> feature) the breaker in front of the engine never opens: from a new
  breaker, after any run of requests it is closed and no request was answered 503. Every failure of the engine,
  a failed ONNX session among them, is told as a load error, which is no failure of the backend.
\<close>

theorem predict_breaker_dead:
  "cb_state (ps_breaker (snd (predict_run X rs (ps_new X limits n cfg en)))) = Closed \<and>
   503 \<notin> set (map answered_status (fst (predict_run X rs (ps_new X limits n cfg en))))"
proof -
  have run: "cb_state (ps_breaker s) = Closed \<Longrightarrow>
    cb_state (ps_breaker (snd (predict_run X rs s))) = Closed \<and> 503 \<notin> answered_status ` set (fst (predict_run X rs s))" for s
  proof (induction rs arbitrary: s)
    case (Cons r rs)
    obtain t req where r: "r = (t, req)" by (cases r)
    show ?case using predict_breaker_closed [OF Cons.prems, of X t req] Cons.IH [of "snd (predict X t req s)"]
      by (auto simp: r split: prod.split)
  qed simp
  show ?thesis using run [of "ps_new X limits n cfg en"] by (simp add: ps_new_def cb_new_def)
qed

definition one_arrival :: arrival where
  "one_arrival = \<lparr>ar_peer = None, ar_limit = 5, ar_key = 5, ar_lookup = 5, ar_breaker = 5, ar_infer = 5, ar_latency_ms = 1,
     ar_end = 6, ar_store = 6, ar_elapsed_ms = 1\<rparr>"

definition chatty_lib :: "(string, nat \<times> (string \<times> val dedup_entry) list) predict_lib" where
  "chatty_lib = \<lparr>xl_lru = list_lru, xl_scalar = (\<lambda>_. ''''), xl_quote = id, xl_fl = (\<lambda>x. x),
     xl_run = (\<lambda>m v md. Inr (JObject [(''_debug'', JString m), (''text'', v)]))\<rparr>"


end
