(* ===== verification/SessionPool.thy ===== *)
theory SessionPool
  imports Main "HOL-Library.Multiset"
begin

text \<open>
  The pool of ONNX sessions of the Kokoro engine (\<open>core/kokoro_onnx.rs\<close>) with requests that interleave: a permit
  of the semaphore, then the mutex of the stack, then the session itself; a guard that is dropped takes the
  mutex with \<open>try_lock\<close> and gives up its session where it does not get it. Every step is one atomic access.
\<close>

datatype 's guard_pc =
    Waiting_Permit
  | Permitted            \<comment> \<open>\<open>acquire\<close>, before \<open>sessions.lock()\<close>\<close>
  | Locked_Pop           \<comment> \<open>holds the mutex, before \<open>pop\<close>\<close>
  | Using 's
  | Locked_Push 's       \<comment> \<open>\<open>drop\<close>, holds the mutex, before \<open>push\<close>\<close>
  | Leaving              \<comment> \<open>before the permit is dropped\<close>
  | Pool_Empty           \<comment> \<open>no session was left although a permit was\<close>

record 's session_pool =
  se_sessions :: "'s list"
  se_permits :: nat
  se_lock :: "nat option"
  se_guards :: "nat \<Rightarrow> 's guard_pc"
  se_lost :: "'s list"

definition se_new :: "'s list \<Rightarrow> 's session_pool" where
  "se_new ss = \<lparr>se_sessions = ss, se_permits = length ss, se_lock = None, se_guards = (\<lambda>_. Waiting_Permit), se_lost = []\<rparr>"

definition se_goto :: "nat \<Rightarrow> 's guard_pc \<Rightarrow> 's session_pool \<Rightarrow> 's session_pool" where
  "se_goto t pc p = p\<lparr>se_guards := (se_guards p)(t := pc)\<rparr>"

text \<open>\<open>acquire\<close>. The stack is a \<open>Vec\<close>: its last element is taken.\<close>

fun acquire_step :: "nat \<Rightarrow> 's session_pool \<Rightarrow> 's session_pool option" where
  "acquire_step t p =
     (case se_guards p t of
        Waiting_Permit \<Rightarrow>
          if 0 < se_permits p then Some (se_goto t Permitted (p\<lparr>se_permits := se_permits p - 1\<rparr>)) else None
      | Permitted \<Rightarrow> if se_lock p = None then Some (se_goto t Locked_Pop (p\<lparr>se_lock := Some t\<rparr>)) else None
      | Locked_Pop \<Rightarrow>
          let p = p\<lparr>se_lock := None\<rparr>
          in if se_sessions p = [] then Some (se_goto t Pool_Empty p)
             else Some (se_goto t (Using (last (se_sessions p))) (p\<lparr>se_sessions := butlast (se_sessions p)\<rparr>))
      | _ \<Rightarrow> None)"

text \<open>The end of a request: \<open>drop\<close> and the release of the permit, after a failure too.\<close>

fun drop_step :: "nat \<Rightarrow> 's session_pool \<Rightarrow> 's session_pool option" where
  "drop_step t p =
     (case se_guards p t of
        Using s \<Rightarrow>
          if se_lock p = None then Some (se_goto t (Locked_Push s) (p\<lparr>se_lock := Some t\<rparr>))
          else Some (se_goto t Leaving (p\<lparr>se_lost := s # se_lost p\<rparr>))
      | Locked_Push s \<Rightarrow> Some (se_goto t Leaving (p\<lparr>se_lock := None, se_sessions := se_sessions p @ [s]\<rparr>))
      | Leaving \<Rightarrow> Some (se_goto t Waiting_Permit (p\<lparr>se_permits := Suc (se_permits p)\<rparr>))
      | Pool_Empty \<Rightarrow> Some (se_goto t Waiting_Permit (p\<lparr>se_permits := Suc (se_permits p)\<rparr>))
      | _ \<Rightarrow> None)"

inductive pool_reach :: "'s list \<Rightarrow> 's session_pool \<Rightarrow> bool" for ss where
  start: "pool_reach ss (se_new ss)"
| acquire: "pool_reach ss p \<Longrightarrow> acquire_step t p = Some p' \<Longrightarrow> pool_reach ss p'"
| release: "pool_reach ss p \<Longrightarrow> drop_step t p = Some p' \<Longrightarrow> pool_reach ss p'"

section \<open>What is held\<close>

fun held :: "'s guard_pc \<Rightarrow> 's multiset" where
  "held (Using s) = {#s#}"
| "held (Locked_Push s) = {#s#}"
| "held _ = {#}"

fun holds_lock :: "'s guard_pc \<Rightarrow> bool" where
  "holds_lock Locked_Pop = True"
| "holds_lock (Locked_Push s) = True"
| "holds_lock _ = False"

definition with_permit :: "'s guard_pc \<Rightarrow> nat" where
  "with_permit pc = (if pc = Waiting_Permit then 0 else 1)"

lemma with_permit_simps [simp]:
  "with_permit Waiting_Permit = 0" "pc \<noteq> Waiting_Permit \<Longrightarrow> with_permit pc = 1"
  by (simp_all add: with_permit_def)

lemma size_held: "size (held pc) \<le> with_permit pc"
  by (cases pc) simp_all

text \<open>The threads of \<open>T\<close> are all that have ever called.\<close>

definition pool_inv :: "'s list \<Rightarrow> nat set \<Rightarrow> 's session_pool \<Rightarrow> bool" where
  "pool_inv ss T p \<longleftrightarrow> finite T \<and> (\<forall>t. t \<notin> T \<longrightarrow> se_guards p t = Waiting_Permit) \<and>
     mset (se_sessions p) + mset (se_lost p) + (\<Sum>t\<in>T. held (se_guards p t)) = mset ss \<and>
     se_permits p + (\<Sum>t\<in>T. with_permit (se_guards p t)) = length ss \<and>
     (\<forall>t. se_lock p = Some t \<longleftrightarrow> holds_lock (se_guards p t)) \<and>
     (se_lost p = [] \<longrightarrow> (\<forall>t. se_guards p t \<noteq> Pool_Empty))"

lemma pool_inv_new: "pool_inv ss {} (se_new ss)"
  by (simp add: pool_inv_def se_new_def)

lemma pool_inv_insert: "pool_inv ss T p \<Longrightarrow> pool_inv ss (insert t T) p"
  by (cases "t \<in> T") (auto simp: pool_inv_def insert_absorb)

lemma sum_move:
  fixes f :: "'s guard_pc \<Rightarrow> 'm::comm_monoid_add"
  assumes "finite T" "t \<in> T"
  shows "(\<Sum>u\<in>T. f ((g(t := pc)) u)) + f (g t) = (\<Sum>u\<in>T. f (g u)) + f pc"
proof -
  have "(\<Sum>u\<in>T - {t}. f ((g(t := pc)) u)) = (\<Sum>u\<in>T - {t}. f (g u))" by (rule sum.cong) auto
  then show ?thesis using sum.remove [OF assms, of "\<lambda>u. f ((g(t := pc)) u)"] sum.remove [OF assms, of "\<lambda>u. f (g u)"]
    by (simp add: ac_simps)
qed

lemma pool_sizes:
  assumes "pool_inv ss T p"
  shows "length (se_sessions p) + length (se_lost p) + (\<Sum>u\<in>T. size (held (se_guards p u))) = length ss"
proof -
  have "mset (se_sessions p) + mset (se_lost p) + (\<Sum>u\<in>T. held (se_guards p u)) = mset ss"
    using assms by (simp add: pool_inv_def)
  from arg_cong [OF this, of size] show ?thesis by (simp add: size_multiset_sum)
qed

text \<open>While no session has been lost a thread that has a permit finds one.\<close>

lemma session_left:
  assumes "pool_inv ss T p" "se_guards p t = Locked_Pop" "se_lost p = []"
  shows "se_sessions p \<noteq> []"
proof
  assume none: "se_sessions p = []"
  have T: "finite T" "t \<in> T" using assms(1,2) by (auto simp: pool_inv_def)
  have "(\<Sum>u\<in>T. size (held (se_guards p u))) < (\<Sum>u\<in>T. with_permit (se_guards p u))"
  proof (rule sum_strict_mono_ex1 [OF T(1)])
    show "\<forall>u\<in>T. size (held (se_guards p u)) \<le> with_permit (se_guards p u)"
      by (simp add: size_held)
    show "\<exists>u\<in>T. size (held (se_guards p u)) < with_permit (se_guards p u)"
      using T(2) assms(2) by (auto simp: with_permit_def intro!: bexI [of _ t])
  qed
  moreover have "(\<Sum>u\<in>T. size (held (se_guards p u))) = length ss"
    using pool_sizes [OF assms(1)] assms(3) none by simp
  ultimately show False using assms(1) by (simp add: pool_inv_def)
qed

lemma pool_inv_move:
  assumes "pool_inv ss T p" "se_guards p t = pc" "p' = se_goto t pc' q"
    and "se_guards q = se_guards p"
    and "mset (se_sessions q) + mset (se_lost q) + held pc' = mset (se_sessions p) + mset (se_lost p) + held pc"
    and "se_permits q + with_permit pc' = se_permits p + with_permit pc"
    and "se_lock q = (if holds_lock pc' then Some t else if holds_lock pc then None else se_lock p)"
    and "holds_lock pc' \<and> \<not> holds_lock pc \<longrightarrow> se_lock p = None"
    and "se_lost q = [] \<longrightarrow> se_lost p = [] \<and> pc' \<noteq> Pool_Empty"
  shows "pool_inv ss (insert t T) p'"
proof -
  have inv: "pool_inv ss (insert t T) p" by (rule pool_inv_insert [OF assms(1)])
  then have fin: "finite (insert t T)" by (simp add: pool_inv_def)
  have g: "se_guards p' = (se_guards p)(t := pc')" by (simp add: assms(3,4) se_goto_def)
  have eq: "se_sessions p' = se_sessions q" "se_lost p' = se_lost q" "se_permits p' = se_permits q" "se_lock p' = se_lock q"
    by (simp_all add: assms(3) se_goto_def)
  have h: "(\<Sum>u\<in>insert t T. held (se_guards p' u)) + held pc = (\<Sum>u\<in>insert t T. held (se_guards p u)) + held pc'"
    using sum_move [OF fin, of t held "se_guards p" pc'] assms(2) by (simp add: g)
  have w: "(\<Sum>u\<in>insert t T. with_permit (se_guards p' u)) + with_permit pc =
      (\<Sum>u\<in>insert t T. with_permit (se_guards p u)) + with_permit pc'"
    using sum_move [OF fin, of t with_permit "se_guards p" pc'] assms(2) by (simp add: g)
  have m: "mset (se_sessions p') + mset (se_lost p') + (\<Sum>u\<in>insert t T. held (se_guards p' u)) = mset ss"
  proof -
    have "(mset (se_sessions p') + mset (se_lost p') + (\<Sum>u\<in>insert t T. held (se_guards p' u))) + held pc =
        (mset (se_sessions q) + mset (se_lost q) + held pc') + (\<Sum>u\<in>insert t T. held (se_guards p u))"
      using h by (simp add: eq ac_simps)
    also have "\<dots> = (mset (se_sessions p) + mset (se_lost p) + (\<Sum>u\<in>insert t T. held (se_guards p u))) + held pc"
      using arg_cong [OF assms(5), of "\<lambda>x. x + (\<Sum>u\<in>insert t T. held (se_guards p u))"] by (simp add: ac_simps)
    finally show ?thesis using inv by (simp add: pool_inv_def)
  qed
  have n: "se_permits p' + (\<Sum>u\<in>insert t T. with_permit (se_guards p' u)) = length ss"
    using w assms(6) inv unfolding pool_inv_def eq by linarith
  have lock: "se_lock p = Some u \<longleftrightarrow> holds_lock (se_guards p u)" for u using inv by (simp add: pool_inv_def)
  have l: "se_lock p' = Some u \<longleftrightarrow> holds_lock (se_guards p' u)" for u
  proof (cases "u = t")
    case True
    then show ?thesis using lock [of t] assms(2,7) by (simp add: eq g)
  next
    case False
    then show ?thesis using lock [of t] lock [of u] assms(2,7,8) by (cases "holds_lock pc'"; cases "holds_lock pc") (auto simp: eq g)
  qed
  have e: "se_lost p' = [] \<longrightarrow> (\<forall>u. se_guards p' u \<noteq> Pool_Empty)"
    using inv assms(9) by (simp add: pool_inv_def eq g)
  show ?thesis using inv m n l e unfolding pool_inv_def by (simp add: g)
qed

lemma acquire_step_inv:
  assumes "pool_inv ss T p" "acquire_step t p = Some p'"
  shows "pool_inv ss (insert t T) p'"
proof (cases "se_guards p t")
  case Waiting_Permit
  then show ?thesis using assms(2)
    by (intro pool_inv_move [OF assms(1) refl, where pc' = Permitted and q = "p\<lparr>se_permits := se_permits p - 1\<rparr>"])
      (auto split: if_splits)
next
  case Permitted
  then show ?thesis using assms(2)
    by (intro pool_inv_move [OF assms(1) refl, where pc' = Locked_Pop and q = "p\<lparr>se_lock := Some t\<rparr>"])
      (auto split: if_splits)
next
  case Locked_Pop
  note ls = session_left [OF assms(1) Locked_Pop]
  show ?thesis
  proof (cases "se_sessions p = []")
    case True
    then show ?thesis using assms(2) Locked_Pop ls
      by (intro pool_inv_move [OF assms(1) refl, where pc' = Pool_Empty and q = "p\<lparr>se_lock := None\<rparr>"]) auto
  next
    case False
    then have "mset (se_sessions p) = add_mset (last (se_sessions p)) (mset (butlast (se_sessions p)))"
      by (cases "se_sessions p" rule: rev_cases) auto
    then show ?thesis using assms(2) Locked_Pop False
      by (intro pool_inv_move [OF assms(1) refl, where pc' = "Using (last (se_sessions p))" and
            q = "p\<lparr>se_lock := None, se_sessions := butlast (se_sessions p)\<rparr>"]) auto
  qed
qed (use assms(2) in auto)

lemma drop_step_inv:
  assumes "pool_inv ss T p" "drop_step t p = Some p'"
  shows "pool_inv ss (insert t T) p'"
proof (cases "se_guards p t")
  case (Using s)
  show ?thesis
  proof (cases "se_lock p")
    case None
    then show ?thesis using assms(2) Using
      by (intro pool_inv_move [OF assms(1) refl, where pc' = "Locked_Push s" and q = "p\<lparr>se_lock := Some t\<rparr>"]) auto
  next
    case (Some u)
    then show ?thesis using assms(2) Using
      by (intro pool_inv_move [OF assms(1) refl, where pc' = Leaving and q = "p\<lparr>se_lost := s # se_lost p\<rparr>"]) auto
  qed
next
  case (Locked_Push s)
  then show ?thesis using assms(2)
    by (intro pool_inv_move [OF assms(1) refl, where pc' = Leaving and
          q = "p\<lparr>se_lock := None, se_sessions := se_sessions p @ [s]\<rparr>"]) auto
next
  case Leaving
  then show ?thesis using assms(2)
    by (intro pool_inv_move [OF assms(1) refl, where pc' = Waiting_Permit and q = "p\<lparr>se_permits := Suc (se_permits p)\<rparr>"])
      auto
next
  case Pool_Empty
  then show ?thesis using assms(2) assms(1)
    by (intro pool_inv_move [OF assms(1) refl, where pc' = Waiting_Permit and q = "p\<lparr>se_permits := Suc (se_permits p)\<rparr>"])
      auto
qed (use assms(2) in auto)

lemma pool_reach_inv: "pool_reach ss p \<Longrightarrow> \<exists>T. pool_inv ss T p"
  by (induction rule: pool_reach.induct) (blast intro: pool_inv_new acquire_step_inv drop_step_inv)+

lemma held_once:
  assumes "pool_inv ss T p" "distinct ss" "t \<noteq> u" "se_guards p t = Using s"
  shows "se_guards p u \<noteq> Using s \<and> s \<in> set ss \<and> s \<notin> set (se_sessions p)"
proof -
  have T: "finite T" "t \<in> T" using assms(1,4) by (auto simp: pool_inv_def)
  have split: "(\<Sum>x\<in>T. held (se_guards p x)) = {#s#} + (\<Sum>x\<in>T - {t}. held (se_guards p x))"
    using sum.remove [OF T, of "\<lambda>x. held (se_guards p x)"] assms(4) by simp
  then have total: "mset (se_sessions p) + mset (se_lost p) + {#s#} + (\<Sum>x\<in>T - {t}. held (se_guards p x)) = mset ss"
    using assms(1) by (simp add: pool_inv_def ac_simps)
  have one: "count (mset ss) s \<le> 1" using assms(2) by (simp add: distinct_count_atmost_1)
  have "s \<in> set ss" using arg_cong [OF total, of "\<lambda>M. s \<in># M"] by simp
  moreover have zero: "count (mset (se_sessions p)) s = 0" "count (\<Sum>x\<in>T - {t}. held (se_guards p x)) s = 0"
    using arg_cong [OF total, of "\<lambda>M. count M s"] one unfolding count_union count_single if_P [OF refl] by linarith+
  moreover have "se_guards p u \<noteq> Using s"
  proof
    assume u: "se_guards p u = Using s"
    then have "u \<in> T - {t}" using assms(1,3) by (auto simp: pool_inv_def)
    then show False
      using sum.remove [of "T - {t}" u "\<lambda>x. held (se_guards p x)"] T(1) zero(2) u by simp
  qed
  ultimately show ?thesis by (simp add: count_eq_zero_iff)
qed

lemma held_count:
  "pool_inv ss T p \<Longrightarrow> length (se_sessions p) + card {t. \<exists>s. se_guards p t = Using s} \<le> length ss"
proof -
  assume inv: "pool_inv ss T p"
  let ?U = "{t. \<exists>s. se_guards p t = Using s}"
  have sub: "?U \<subseteq> T" "finite T" using inv by (auto simp: pool_inv_def)
  have "card ?U = (\<Sum>t\<in>?U. size (held (se_guards p t)))" by (subst card_eq_sum) (rule sum.cong, auto)
  also have "\<dots> \<le> (\<Sum>t\<in>T. size (held (se_guards p t)))" using sub by (intro sum_mono2) auto
  finally show ?thesis
    using pool_sizes [OF inv] by linarith
qed

section \<open>Properties\<close>

text \<open>
  However the requests interleave, a session runs one request at a time and is not in the pool while it
  runs, and a request that has a permit finds a session as long as none was lost to a contended return.
\<close>

theorem pool_exclusive:
  assumes "pool_reach ss p" and "distinct ss"
  shows "(\<forall>t u s. t \<noteq> u \<longrightarrow> se_guards p t = Using s \<longrightarrow>
            se_guards p u \<noteq> Using s \<and> s \<in> set ss \<and> s \<notin> set (se_sessions p)) \<and>
         length (se_sessions p) + card {t. \<exists>s. se_guards p t = Using s} \<le> length ss \<and>
         (se_lost p = [] \<longrightarrow> (\<forall>t. se_guards p t \<noteq> Pool_Empty))"
proof -
  obtain T where inv: "pool_inv ss T p" using pool_reach_inv [OF assms(1)] by blast
  show ?thesis
  proof (intro conjI)
    show "\<forall>t u s. t \<noteq> u \<longrightarrow> se_guards p t = Using s \<longrightarrow>
        se_guards p u \<noteq> Using s \<and> s \<in> set ss \<and> s \<notin> set (se_sessions p)"
      using held_once [OF inv assms(2)] by blast
    show "length (se_sessions p) + card {t. \<exists>s. se_guards p t = Using s} \<le> length ss" by (rule held_count [OF inv])
    show "se_lost p = [] \<longrightarrow> (\<forall>t. se_guards p t \<noteq> Pool_Empty)" using inv by (simp add: pool_inv_def)
  qed
qed

text \<open>Runs, for concrete interleavings.\<close>

fun pool_run :: "(bool \<times> nat) list \<Rightarrow> 's session_pool \<Rightarrow> 's session_pool option" where
  "pool_run [] p = Some p"
| "pool_run ((a, t) # ts) p =
     (case (if a then acquire_step t p else drop_step t p) of None \<Rightarrow> None | Some p' \<Rightarrow> pool_run ts p')"

lemma pool_run_reach: "pool_run ts p = Some p' \<Longrightarrow> pool_reach ss p \<Longrightarrow> pool_reach ss p'"
  by (induction ts p rule: pool_run.induct)
    (auto split: option.splits if_splits simp del: acquire_step.simps drop_step.simps
      intro: pool_reach.acquire pool_reach.release)

theorem pool_exclusive_witness:
  "\<exists>p. pool_run [(True, 0), (True, 0), (True, 1), (True, 0), (True, 1), (True, 1)] (se_new [''a'', ''b'']) = Some p \<and>
     se_guards p 0 = Using ''b'' \<and> se_guards p 1 = Using ''a'' \<and> (\<forall>t. se_guards p t \<noteq> Pool_Empty)"
proof -
  let ?ts = "[(True, 0), (True, 0), (True, 1), (True, 0), (True, 1), (True, 1)] :: (bool \<times> nat) list"
  obtain p where p: "pool_run ?ts (se_new [''a'', ''b'']) = Some p" "se_guards p 0 = Using ''b''" "se_guards p 1 = Using ''a''"
    "se_lost p = []" by (simp add: se_new_def se_goto_def)
  show ?thesis
    using pool_exclusive [OF pool_run_reach [OF p(1) pool_reach.start]] p by simp
qed

text \<open>
  One request asks for the mutex while another returns its session: with two sessions, as by default, two such
  moments empty the pool for good, with every permit free.
\<close>

definition contended :: "(bool \<times> nat) list" where
  "contended = [(True, 0), (True, 0), (True, 0), (True, 1), (True, 1), (False, 0), (False, 0), (True, 1),
     (True, 2), (True, 2), (False, 1), (False, 1), (True, 2), (False, 2)]"

lemma pool_dies:
  "\<exists>p. pool_run contended (se_new [a, b]) = Some p \<and> se_sessions p = [] \<and> se_permits p = 2 \<and> se_lock p = None \<and>
     (\<forall>t. se_guards p t = Waiting_Permit)"
  by (simp add: contended_def se_new_def se_goto_def)

lemma dead_stays:
  "pool_run ts p = Some p' \<Longrightarrow> se_sessions p = [] \<Longrightarrow> \<forall>t s. se_guards p t \<noteq> Using s \<and> se_guards p t \<noteq> Locked_Push s \<Longrightarrow>
   se_sessions p' = [] \<and> (\<forall>t s. se_guards p' t \<noteq> Using s)"
proof (induction ts p rule: pool_run.induct)
  case (2 a t ts p)
  obtain q where q: "(if a then acquire_step t p else drop_step t p) = Some q" "pool_run ts q = Some p'"
    using 2(2) by (auto split: option.splits simp del: acquire_step.simps drop_step.simps)
  have "se_sessions q = [] \<and> (\<forall>t s. se_guards q t \<noteq> Using s \<and> se_guards q t \<noteq> Locked_Push s)"
    using q(1) 2(3,4) by (cases "se_guards p t") (auto simp: se_goto_def split: if_splits)
  then show ?case using 2(1) q by blast
qed simp

end
