(* ===== verification/G2p.thy ===== *)
theory G2p
  imports Text
begin

text \<open>
  Graphemes to phonemes for the Kokoro voices (\<open>core/g2p_misaki.rs\<close>). A text is the list of its Unicode scalar
  values. The Unicode tables behind \<open>is_alphabetic\<close>, \<open>is_alphanumeric\<close> and \<open>to_lowercase\<close> are an argument.
\<close>

type_synonym scalars = "int list"
type_synonym token_id = "64 word"

record unicode =
  uo_alphabetic :: "int \<Rightarrow> bool"
  uo_alphanumeric :: "int \<Rightarrow> bool"
  uo_lowercase :: "scalars \<Rightarrow> scalars"

text \<open>The property \<open>White_Space\<close>.\<close>

definition white :: "int \<Rightarrow> bool" where
  "white c \<longleftrightarrow> 9 \<le> c \<and> c \<le> 13 \<or> 8192 \<le> c \<and> c \<le> 8202 \<or>
     c \<in> {32, 133, 160, 5760, 8232, 8233, 8239, 8287, 12288}"

definition trim_scalars :: "scalars \<Rightarrow> scalars" where
  "trim_scalars s = rev (dropWhile white (rev (dropWhile white s)))"

section \<open>The tables\<close>

definition PHONEME_VOCAB :: "(int \<times> int) list" where
  "PHONEME_VOCAB = [
     (59, 1), (58, 2), (44, 3), (46, 4), (33, 5), (63, 6), (8212, 9), (8230, 10), (8220, 11), (40, 12),
     (41, 13), (8221, 14), (8222, 15), (32, 16), (771, 17), (675, 18), (677, 19), (678, 20), (680, 21),
     (7517, 22), (43879, 23), (65, 24), (73, 25), (79, 31), (81, 33), (83, 35), (84, 36), (87, 39), (89, 41),
     (7498, 42), (97, 43), (98, 44), (99, 45), (100, 46), (101, 47), (102, 48), (104, 50), (105, 51), (106, 52),
     (107, 53), (108, 54), (109, 55), (110, 56), (111, 57), (112, 58), (113, 59), (114, 60), (115, 61),
     (116, 62), (117, 63), (118, 64), (119, 65), (120, 66), (121, 67), (122, 68), (593, 69), (592, 70),
     (594, 71), (230, 72), (946, 75), (596, 76), (597, 77), (231, 78), (598, 80), (240, 81), (676, 82),
     (601, 83), (602, 85), (603, 86), (604, 87), (607, 90), (609, 92), (613, 99), (616, 101), (618, 102),
     (669, 103), (623, 110), (624, 111), (331, 112), (627, 113), (626, 114), (628, 115), (248, 116), (632, 118),
     (952, 119), (339, 120), (633, 123), (638, 125), (635, 126), (641, 128), (637, 129), (642, 130), (643, 131),
     (648, 132), (679, 133), (650, 135), (651, 136), (652, 138), (611, 139), (612, 140), (967, 142), (654, 143),
     (658, 147), (660, 148), (712, 156), (716, 157), (720, 158), (688, 162), (690, 164), (8595, 169),
     (8594, 171), (8599, 172), (8600, 173), (7547, 177)]"

definition PRONUNCIATIONS :: "(string \<times> scalars) list" where
  "PRONUNCIATIONS = [
     (''hello'', [104, 601, 108, 712, 79]), (''hi'', [104, 712, 73]), (''hey'', [104, 712, 65]),
     (''goodbye'', [609, 716, 650, 100, 98, 712, 73]), (''bye'', [98, 712, 73]),
     (''thanks'', [952, 712, 230, 331, 107, 115]), (''thank'', [952, 712, 230, 331, 107]),
     (''please'', [112, 108, 712, 105, 122]), (''sorry'', [115, 712, 596, 633, 105]), (''you'', [106, 117]),
     (''i'', [712, 73]), (''me'', [109, 716, 105]), (''my'', [109, 73]), (''we'', [119, 105]),
     (''us'', [716, 652, 115]), (''our'', [716, 87, 601, 633]), (''he'', [104, 105]),
     (''him'', [104, 716, 618, 109]), (''his'', [104, 618, 122]), (''she'', [643, 105]),
     (''her'', [104, 604, 633]), (''it'', [618, 116]), (''its'', [618, 116, 115]), (''they'', [240, 65]),
     (''them'', [240, 716, 603, 109]), (''their'', [240, 603, 633]), (''who'', [104, 716, 117]),
     (''what'', [119, 716, 652, 116]), (''which'', [119, 716, 618, 679]), (''where'', [119, 716, 603, 633]),
     (''when'', [119, 716, 603, 110]), (''why'', [119, 716, 73]), (''how'', [104, 716, 87]),
     (''is'', [618, 122]), (''am'', [230, 109]), (''are'', [593, 633]), (''was'', [119, 652, 122]),
     (''were'', [119, 604, 633]), (''be'', [98, 105]), (''been'', [98, 618, 110]), (''have'', [104, 230, 118]),
     (''has'', [104, 230, 122]), (''had'', [104, 230, 100]), (''do'', [100, 712, 117]),
     (''does'', [100, 712, 652, 122]), (''did'', [100, 712, 618, 100]), (''will'', [119, 618, 108]),
     (''would'', [119, 650, 100]), (''can'', [107, 230, 110]), (''could'', [107, 650, 100]),
     (''should'', [643, 716, 650, 100]), (''may'', [109, 712, 65]), (''might'', [109, 716, 73, 116]),
     (''must'', [109, 712, 652, 115, 116]), (''say'', [115, 712, 65]), (''said'', [115, 712, 603, 100]),
     (''go'', [609, 716, 79]), (''went'', [119, 712, 603, 110, 116]), (''come'', [107, 712, 652, 109]),
     (''came'', [107, 712, 65, 109]), (''know'', [110, 712, 79]), (''think'', [952, 712, 618, 331, 107]),
     (''see'', [115, 712, 105]), (''look'', [108, 712, 650, 107]), (''make'', [109, 716, 65, 107]),
     (''take'', [116, 712, 65, 107]), (''give'', [609, 712, 618, 118]), (''find'', [102, 712, 73, 110, 100]),
     (''tell'', [116, 712, 603, 108]), (''ask'', [712, 230, 115, 107]), (''keep'', [107, 712, 105, 112]),
     (''hold'', [104, 712, 79, 108, 100]), (''turn'', [116, 712, 604, 633, 110]), (''show'', [643, 712, 79]),
     (''start'', [115, 116, 712, 593, 633, 116]), (''stop'', [115, 116, 712, 593, 112]),
     (''play'', [112, 108, 712, 65]), (''run'', [633, 712, 652, 110]), (''move'', [109, 712, 117, 118]),
     (''get'', [609, 603, 116]), (''put'', [112, 716, 650, 116]), (''set'', [115, 712, 603, 116]),
     (''write'', [633, 712, 73, 116]), (''help'', [104, 712, 603, 108, 112]), (''need'', [110, 712, 105, 100]),
     (''want'', [119, 712, 593, 110, 116]), (''feel'', [102, 712, 105, 108]), (''try'', [116, 633, 712, 73]),
     (''leave'', [108, 712, 105, 118]), (''call'', [107, 712, 596, 108]), (''let'', [108, 712, 603, 116]),
     (''begin'', [98, 601, 609, 712, 618, 110]), (''live'', [108, 712, 73, 118]),
     (''use'', [106, 712, 117, 122]), (''listen'', [108, 712, 618, 115, 7498, 110]),
     (''hear'', [104, 712, 618, 633]), (''speak'', [115, 112, 712, 105, 107]), (''the'', [240, 105]),
     (''a'', [65]), (''an'', [230, 110]), (''this'', [240, 618, 115]), (''that'', [240, 230, 116]),
     (''these'', [240, 105, 122]), (''those'', [240, 79, 122]), (''in'', [618, 110]), (''on'', [716, 596, 110]),
     (''at'', [230, 116]), (''to'', [116, 117]), (''for'', [102, 596, 633]), (''of'', [652, 118]),
     (''with'', [119, 618, 240]), (''from'', [102, 633, 652, 109]), (''by'', [98, 73]),
     (''about'', [601, 98, 712, 87, 116]), (''into'', [712, 618, 110, 116, 117]),
     (''through'', [952, 633, 117]), (''during'', [100, 712, 650, 633, 618, 331]),
     (''without'', [119, 618, 240, 712, 87, 116]), (''under'', [712, 652, 110, 100, 601, 633]),
     (''within'', [119, 618, 240, 712, 618, 110]), (''after'', [712, 230, 102, 116, 601, 633]),
     (''before'', [98, 601, 102, 712, 596, 633]), (''between'', [98, 601, 116, 119, 712, 105, 110]),
     (''world'', [119, 712, 604, 633, 108, 100]), (''time'', [116, 712, 73, 109]), (''day'', [100, 712, 65]),
     (''year'', [106, 712, 618, 633]), (''way'', [119, 712, 65]), (''thing'', [952, 712, 618, 331]),
     (''man'', [109, 712, 230, 110]), (''woman'', [119, 712, 650, 109, 601, 110]),
     (''child'', [679, 712, 73, 108, 100]), (''people'', [112, 712, 105, 112, 7498, 108]),
     (''life'', [108, 712, 73, 102]), (''work'', [119, 712, 604, 633, 107]),
     (''place'', [112, 108, 712, 65, 115]), (''home'', [104, 712, 79, 109]), (''here'', [104, 712, 618, 633]),
     (''there'', [240, 603, 633]), (''now'', [110, 712, 87]), (''all'', [712, 596, 108]),
     (''then'', [240, 712, 603, 110]), (''well'', [119, 712, 603, 108]), (''even'', [712, 105, 118, 601, 110]),
     (''back'', [98, 712, 230, 107]), (''also'', [712, 596, 108, 115, 79]),
     (''because'', [98, 601, 107, 712, 652, 122]), (''good'', [609, 712, 650, 100]),
     (''great'', [609, 633, 712, 65, 116]), (''new'', [110, 712, 117]),
     (''first'', [102, 712, 604, 633, 115, 116]), (''last'', [108, 712, 230, 115, 116]),
     (''long'', [108, 712, 596, 331]), (''little'', [108, 712, 618, 84, 7498, 108]), (''own'', [712, 79, 110]),
     (''right'', [633, 712, 73, 116]), (''big'', [98, 712, 618, 609]), (''high'', [104, 712, 73]),
     (''different'', [100, 712, 618, 102, 601, 633, 601, 110, 116]), (''real'', [633, 712, 105, 7498, 108]),
     (''small'', [115, 109, 712, 596, 108]), (''large'', [108, 712, 593, 633, 676]),
     (''very'', [118, 712, 603, 633, 105]), (''more'', [109, 712, 596, 633]),
     (''most'', [109, 712, 79, 115, 116]), (''other'', [712, 652, 240, 601, 633]),
     (''same'', [115, 712, 65, 109]), (''another'', [601, 110, 712, 652, 240, 601, 633]),
     (''always'', [712, 596, 108, 119, 716, 65, 122]), (''never'', [110, 712, 603, 118, 601, 633]),
     (''often'', [712, 596, 102, 7498, 110]), (''usually'', [106, 712, 117, 658, 601, 119, 601, 108, 105]),
     (''too'', [116, 712, 117]), (''one'', [119, 712, 652, 110]), (''two'', [116, 712, 117]),
     (''three'', [952, 633, 712, 105]), (''four'', [102, 712, 596, 633]), (''five'', [102, 712, 73, 118]),
     (''six'', [115, 712, 618, 107, 115]), (''seven'', [115, 712, 603, 118, 601, 110]),
     (''eight'', [712, 65, 116]), (''nine'', [110, 712, 73, 110]), (''ten'', [116, 712, 603, 110]),
     (''quick'', [107, 119, 712, 618, 107]), (''brown'', [98, 633, 712, 87, 110]),
     (''fox'', [102, 712, 593, 107, 115]), (''jumps'', [676, 712, 652, 109, 112, 115]),
     (''over'', [712, 79, 118, 601, 633]), (''lazy'', [108, 712, 65, 122, 105]),
     (''dog'', [100, 712, 596, 609]), (''today'', [116, 601, 100, 712, 65]),
     (''test'', [116, 712, 603, 115, 116]), (''testing'', [116, 712, 603, 115, 116, 618, 331]),
     (''speech'', [115, 112, 712, 105, 679]), (''synthesis'', [115, 712, 618, 110, 952, 601, 115, 618, 115]),
     (''voice'', [118, 712, 89, 115]), (''sound'', [115, 712, 87, 110, 100]),
     (''music'', [109, 106, 712, 117, 122, 618, 107]), (''audio'', [712, 596, 100, 105, 79]),
     (''text'', [116, 712, 603, 107, 115, 116]), (''word'', [119, 712, 604, 633, 100]),
     (''sentence'', [115, 712, 603, 110, 116, 7498, 110, 115]),
     (''system'', [115, 712, 618, 115, 116, 601, 109]),
     (''program'', [112, 633, 712, 79, 609, 633, 716, 230, 109]),
     (''computer'', [107, 601, 109, 112, 106, 712, 117, 84, 601, 633]),
     (''language'', [108, 712, 230, 331, 609, 119, 618, 676]), (''number'', [110, 712, 652, 109, 98, 601, 633]),
     (''service'', [115, 712, 604, 633, 118, 601, 115]), (''hand'', [104, 712, 230, 110, 100]),
     (''point'', [112, 712, 89, 110, 116]), (''part'', [112, 712, 593, 633, 116]),
     (''case'', [107, 712, 65, 115]), (''week'', [119, 712, 105, 107]),
     (''company'', [107, 712, 652, 109, 112, 7498, 110, 105]), (''fact'', [102, 712, 230, 107, 116]),
     (''group'', [609, 633, 712, 117, 112]), (''problem'', [112, 633, 712, 593, 98, 108, 601, 109])]"

definition codes :: "string \<Rightarrow> scalars" where
  "codes s = map of_char s"

definition PRONUNCIATION_DICT :: "(scalars \<times> scalars) list" where
  "PRONUNCIATION_DICT = map (\<lambda>(w, p). (codes w, p)) PRONUNCIATIONS"

text \<open>The keys of the vocabulary are strings, each of a single character.\<close>

definition vocab :: "scalars \<Rightarrow> token_id option" where
  "vocab s = (case s of [c] \<Rightarrow> map_option of_int (map_of PHONEME_VOCAB c) | _ \<Rightarrow> None)"

section \<open>The converter\<close>

text \<open>The words and the other characters of a text; \<open>current\<close> is the word being read.\<close>

fun tokenize_from :: "unicode \<Rightarrow> scalars \<Rightarrow> scalars \<Rightarrow> scalars list" where
  "tokenize_from U cur [] = (if cur = [] then [] else [cur])"
| "tokenize_from U cur (c # cs) =
     (if uo_alphabetic U c \<or> c = 39 then tokenize_from U (cur @ [c]) cs
      else (if cur = [] then [] else [cur]) @ (if white c then [] else [[c]]) @ tokenize_from U [] cs)"

definition tokenize :: "unicode \<Rightarrow> scalars \<Rightarrow> scalars list" where
  "tokenize U s = tokenize_from U [] s"

definition is_punctuation :: "unicode \<Rightarrow> scalars \<Rightarrow> bool" where
  "is_punctuation U s = (case s of [c] \<Rightarrow> \<not> uo_alphanumeric U c | _ \<Rightarrow> False)"

definition phoneme_string_to_tokens :: "scalars \<Rightarrow> token_id list" where
  "phoneme_string_to_tokens ipa = List.map_filter (\<lambda>c. vocab [c]) ipa"

definition letter_ipa :: "int \<Rightarrow> scalars option" where
  "letter_ipa c = map_of
     [(97, [230]), (101, [603]), (105, [618]), (111, [596]), (117, [652]), (98, [98]), (99, [107]), (100, [100]),
      (102, [102]), (103, [609]), (104, [104]), (106, [676]), (107, [107]), (108, [108]), (109, [109]), (110, [110]),
      (112, [112]), (113, [107]), (114, [633]), (115, [115]), (116, [116]), (118, [118]), (119, [119]),
      (120, [107, 115]), (121, [106]), (122, [122])] c"

definition letter_fallback :: "scalars \<Rightarrow> token_id list" where
  "letter_fallback word =
     concat (map (\<lambda>c. case letter_ipa c of None \<Rightarrow> [] | Some ipa \<Rightarrow> List.map_filter (\<lambda>d. vocab [d]) ipa) word)"

definition word_to_tokens :: "scalars \<Rightarrow> token_id list" where
  "word_to_tokens word =
     (case map_of PRONUNCIATION_DICT word of
        Some ipa \<Rightarrow> phoneme_string_to_tokens ipa
      | None \<Rightarrow> letter_fallback word)"

definition emit_word :: "unicode \<Rightarrow> nat \<times> scalars \<Rightarrow> token_id list" where
  "emit_word U = (\<lambda>(i, word).
     (if 0 < i \<and> \<not> is_punctuation U word then (case vocab [32] of Some t \<Rightarrow> [t] | None \<Rightarrow> []) else []) @
     (if is_punctuation U word then (case vocab word of Some t \<Rightarrow> [t] | None \<Rightarrow> []) else word_to_tokens word))"

definition add_period :: "token_id list \<Rightarrow> token_id list" where
  "add_period tokens =
     (if tokens = [] \<or> last tokens \<noteq> 4
      then tokens @ (case vocab [46] of Some period \<Rightarrow> [period] | None \<Rightarrow> []) else tokens)"

definition text_to_tokens :: "unicode \<Rightarrow> scalars \<Rightarrow> token_id list" where
  "text_to_tokens U s =
     add_period (concat (map (emit_word U) (enumerate 0 (tokenize U (uo_lowercase U (trim_scalars s))))))"

section \<open>The tables are complete\<close>

text \<open>The laws of the tables that the proofs need: on ASCII they are as ASCII is.\<close>

definition letter :: "int \<Rightarrow> bool" where
  "letter c \<longleftrightarrow> 97 \<le> c \<and> c \<le> 122"

definition ascii_tables :: "unicode \<Rightarrow> bool" where
  "ascii_tables U \<longleftrightarrow>
     (\<forall>c. 0 \<le> c \<and> c < 128 \<longrightarrow>
        uo_alphabetic U c = (letter c \<or> letter (c + 32)) \<and>
        uo_alphanumeric U c = (letter c \<or> letter (c + 32) \<or> 48 \<le> c \<and> c \<le> 57)) \<and>
     (\<forall>s. (\<forall>c \<in> set s. 0 \<le> c \<and> c < 128 \<and> \<not> letter (c + 32)) \<longrightarrow> uo_lowercase U s = s)"

definition phoneme_of :: "token_id \<Rightarrow> int option" where
  "phoneme_of t = map_of (map prod.swap PHONEME_VOCAB) (uint t)"

lemma vocab_ids: "list_all (\<lambda>p. 1 \<le> snd p \<and> snd p \<le> 177) PHONEME_VOCAB"
  by (simp add: PHONEME_VOCAB_def)

lemma vocab_distinct: "distinct (map snd PHONEME_VOCAB)" "distinct (map fst PHONEME_VOCAB)"
  by (simp_all add: PHONEME_VOCAB_def)

lemma dict_letters: "list_all (\<lambda>p. fst p \<noteq> [] \<and> list_all letter (fst p)) PRONUNCIATION_DICT"
  by (simp add: PRONUNCIATION_DICT_def PRONUNCIATIONS_def codes_def letter_def)

definition dict_phonemes :: scalars where
  "dict_phonemes = [716, 712, 618, 633, 601, 109, 110, 652, 596, 603, 105, 73, 65, 79, 87, 89, 84, 98, 100, 102, 104, 106,
     107, 108, 112, 115, 116, 117, 118, 119, 122, 230, 240, 331, 593, 604, 609, 643, 650, 658, 676, 679, 952, 7498]"

lemma dict_phonemes_complete: "list_all (\<lambda>p. list_all (\<lambda>c. c \<in> set dict_phonemes) (snd p)) PRONUNCIATION_DICT"
  by (simp add: PRONUNCIATION_DICT_def PRONUNCIATIONS_def dict_phonemes_def)

lemma dict_phonemes_vocab: "list_all (\<lambda>c. c \<noteq> 46 \<and> map_of PHONEME_VOCAB c \<noteq> None) dict_phonemes"
  by (simp add: dict_phonemes_def PHONEME_VOCAB_def)

lemma vocab_Some:
  assumes "vocab s = Some t"
  shows "\<exists>c i. s = [c] \<and> map_of PHONEME_VOCAB c = Some i \<and> t = of_int i \<and> 1 \<le> i \<and> i \<le> 177"
proof -
  obtain c i where c: "s = [c]" "map_of PHONEME_VOCAB c = Some i" "t = of_int i"
    using assms by (auto simp: vocab_def split: list.splits)
  then have "1 \<le> i \<and> i \<le> 177" using vocab_ids by (auto simp: list_all_iff dest!: map_of_SomeD)
  with c show ?thesis by blast
qed

definition in_embedding :: "token_id \<Rightarrow> bool" where
  "in_embedding t \<longleftrightarrow> 1 \<le> uint t \<and> uint t \<le> 177"

lemma vocab_range: "vocab s = Some t \<Longrightarrow> in_embedding t"
proof -
  assume "vocab s = Some t"
  then obtain i where "t = of_int i" "1 \<le> i" "i \<le> 177" using vocab_Some by blast
  then show ?thesis by (simp add: uint_word_of_int in_embedding_def)
qed

text \<open>No two phonemes share a token, so a token says which phoneme it stands for.\<close>

lemma phoneme_of_vocab: "vocab [c] = Some t \<Longrightarrow> phoneme_of t = Some c"
proof -
  assume "vocab [c] = Some t"
  then obtain i where i: "map_of PHONEME_VOCAB c = Some i" "t = of_int i" "1 \<le> i" "i \<le> 177"
    using vocab_Some [of "[c]" t] by auto
  then have "uint t = i" by (simp add: uint_word_of_int)
  moreover have "map_of (map prod.swap PHONEME_VOCAB) i = Some c"
    using i(1) vocab_distinct(1) by (intro map_of_is_SomeI) (force simp: comp_def prod.swap_def image_iff dest!: map_of_SomeD)+
  ultimately show ?thesis by (simp add: phoneme_of_def)
qed

lemma phonemes_known:
  "\<forall>c \<in> set p. vocab [c] \<noteq> None \<Longrightarrow> map phoneme_of (phoneme_string_to_tokens p) = map Some p"
  by (induction p) (auto simp: phoneme_string_to_tokens_def map_filter_simps phoneme_of_vocab)

lemma dict_phoneme: "map_of PRONUNCIATION_DICT w = Some p \<Longrightarrow> c \<in> set p \<Longrightarrow> vocab [c] \<noteq> None \<and> c \<noteq> 46"
proof -
  assume "map_of PRONUNCIATION_DICT w = Some p" "c \<in> set p"
  then have "c \<in> set dict_phonemes"
    using dict_phonemes_complete by (fastforce simp: list_all_iff dest!: map_of_SomeD)
  then show ?thesis using dict_phonemes_vocab by (auto simp: list_all_iff vocab_def)
qed

lemma dict_word: "map_of PRONUNCIATION_DICT w = Some p \<Longrightarrow> w \<noteq> [] \<and> (\<forall>c \<in> set w. letter c)"
  using dict_letters by (fastforce simp: list_all_iff dest!: map_of_SomeD)

lemma known_word:
  "map_of PRONUNCIATION_DICT w = Some p \<Longrightarrow> map phoneme_of (word_to_tokens w) = map Some p"
  using dict_phoneme by (auto simp: word_to_tokens_def intro!: phonemes_known)

section \<open>Reading a text of known words\<close>

fun join_words :: "scalars list \<Rightarrow> scalars" where
  "join_words [] = []"
| "join_words [w] = w"
| "join_words (w # ws) = w @ 32 # join_words ws"

lemma letter_table: "ascii_tables U \<Longrightarrow> letter c \<Longrightarrow> uo_alphabetic U c \<and> uo_alphanumeric U c"
  by (simp add: ascii_tables_def letter_def)

lemma space_table: "ascii_tables U \<Longrightarrow> \<not> uo_alphabetic U 32"
  by (simp add: ascii_tables_def letter_def)

lemma tokenize_word:
  "ascii_tables U \<Longrightarrow> \<forall>c \<in> set w. letter c \<Longrightarrow> tokenize_from U cur (w @ s) = tokenize_from U (cur @ w) s"
  by (induction w arbitrary: cur) (auto simp: letter_table)

lemma tokenize_words:
  assumes "ascii_tables U" "\<forall>w \<in> set ws. w \<noteq> [] \<and> (\<forall>c \<in> set w. letter c)"
  shows "tokenize_from U [] (join_words ws) = ws"
  using assms(2)
proof (induction ws rule: join_words.induct)
  case (2 w)
  then show ?case using tokenize_word [OF assms(1), of w "[]" "[]"] by simp
next
  case (3 w v ws)
  have "tokenize_from U [] (w @ 32 # join_words (v # ws)) = w # tokenize_from U [] (join_words (v # ws))"
    using 3(2) tokenize_word [OF assms(1), of w "[]" "32 # join_words (v # ws)"] space_table [OF assms(1)]
    by (auto simp: white_def)
  then show ?case using 3 by simp
qed simp

lemma join_words_chars: "\<forall>w \<in> set ws. \<forall>c \<in> set w. letter c \<Longrightarrow> c \<in> set (join_words ws) \<Longrightarrow> letter c \<or> c = 32"
  by (induction ws rule: join_words.induct) auto

lemma join_words_ends:
  "ws \<noteq> [] \<Longrightarrow> \<forall>w \<in> set ws. w \<noteq> [] \<and> (\<forall>c \<in> set w. letter c) \<Longrightarrow>
   join_words ws \<noteq> [] \<and> letter (hd (join_words ws)) \<and> letter (last (join_words ws))"
  by (induction ws rule: join_words.induct) auto

lemma trim_inner: "s \<noteq> [] \<Longrightarrow> \<not> white (hd s) \<Longrightarrow> \<not> white (last s) \<Longrightarrow> trim_scalars s = s"
proof -
  assume s: "s \<noteq> []" "\<not> white (hd s)" "\<not> white (last s)"
  have "dropWhile white s = s" using s(1,2) by (cases s) auto
  moreover have "dropWhile white (rev s) = rev s" using s(1,3) by (cases s rule: rev_cases) auto
  ultimately show ?thesis by (simp add: trim_scalars_def)
qed

lemma emit_known:
  assumes "ascii_tables U" "map_of PRONUNCIATION_DICT w = Some p"
  shows "map phoneme_of (emit_word U (i, w)) = map Some ((if i = 0 then [] else [32]) @ p)"
proof -
  have w: "w \<noteq> []" "\<forall>c \<in> set w. letter c" using dict_word [OF assms(2)] by auto
  have "\<not> is_punctuation U w"
    using w letter_table [OF assms(1)] by (cases w) (auto simp: is_punctuation_def split: list.split)
  moreover have "vocab [32] = Some 16" by (simp add: vocab_def PHONEME_VOCAB_def)
  moreover have "phoneme_of 16 = Some 32" by (simp add: phoneme_of_def PHONEME_VOCAB_def)
  ultimately show ?thesis using known_word [OF assms(2)] by (simp add: emit_word_def)
qed

lemma emit_all:
  assumes "ascii_tables U"
  shows "map (map_of PRONUNCIATION_DICT) ws = map Some ps \<Longrightarrow>
    map phoneme_of (concat (map (emit_word U) (enumerate n ws))) =
      map Some (if ws = [] then [] else (if n = 0 then [] else [32]) @ join_words ps)"
proof (induction ws arbitrary: ps n)
  case (Cons w ws)
  then obtain p qs where ps: "ps = p # qs" "map_of PRONUNCIATION_DICT w = Some p"
    "map (map_of PRONUNCIATION_DICT) ws = map Some qs" by auto
  have "join_words (p # qs) = p @ (if ws = [] then [] else 32 # join_words qs)"
    using ps(3) by (cases qs) auto
  then show ?case using emit_known [OF assms ps(2), of n] Cons.IH [OF ps(3), of "Suc n"] by (auto simp: ps(1))
qed simp

lemma last_join_words: "ps \<noteq> [] \<Longrightarrow> \<forall>p \<in> set ps. 46 \<notin> set p \<Longrightarrow> 46 \<notin> set (join_words ps)"
  by (induction ps rule: join_words.induct) auto

lemma period: "vocab [46] = Some 4" "phoneme_of 4 = Some 46"
  by (simp_all add: vocab_def phoneme_of_def PHONEME_VOCAB_def)

section \<open>Properties\<close>

text \<open>
  Whatever the text, the tokens are never empty, they end with the token of the period, and each lies between
  1 and 177, within the 178 rows of the model's embedding.
\<close>

theorem tokens_in_range:
  "(\<exists>ts. text_to_tokens U s = ts @ [4]) \<and> (\<forall>t \<in> set (text_to_tokens U s). in_embedding t)"
proof -
  have w: "\<forall>t \<in> set (phoneme_string_to_tokens p). in_embedding t" for p
    using vocab_range by (auto simp: phoneme_string_to_tokens_def map_filter_def)
  have "\<forall>t \<in> set (letter_fallback x). in_embedding t" for x
  proof
    fix t assume "t \<in> set (letter_fallback x)"
    then obtain p where "t \<in> set (List.map_filter (\<lambda>d. vocab [d]) p)"
      by (auto simp: letter_fallback_def split: option.splits)
    then show "in_embedding t" using w [of p] by (simp add: phoneme_string_to_tokens_def)
  qed
  with w have "\<forall>t \<in> set (word_to_tokens x). in_embedding t" for x
    by (simp add: word_to_tokens_def split: option.split)
  moreover have "\<forall>t \<in> set (case vocab x of Some t \<Rightarrow> [t] | None \<Rightarrow> []). in_embedding t" for x
    by (cases "vocab x") (simp_all add: vocab_range)
  ultimately have "\<forall>t \<in> set (emit_word U p). in_embedding t" for p
    unfolding emit_word_def split_beta by (simp only: set_append ball_Un split: if_split) simp
  then have t: "\<forall>t \<in> set (concat (map (emit_word U) (enumerate 0 ws))). in_embedding t" for ws by auto
  have "\<exists>us. add_period ts = us @ [4]" for ts
    by (cases ts rule: rev_cases) (auto simp: add_period_def period(1))
  moreover have "in_embedding 4" using vocab_range [OF period(1)] .
  moreover have "set (add_period ts) \<subseteq> insert 4 (set ts)" for ts by (auto simp: add_period_def period(1))
  ultimately show ?thesis unfolding text_to_tokens_def using t by blast
qed

text \<open>
  C29. A text of words of the dictionary, one space between them, is pronounced in full: read back, its tokens are
  the pronunciations of the words in order, a space between them and a period at the end, and no phoneme is lost.
\<close>

theorem known_words_spoken:
  assumes "ascii_tables U" and "ws \<noteq> []" and "map (map_of PRONUNCIATION_DICT) ws = map Some ps"
  shows "map phoneme_of (text_to_tokens U (join_words ws)) = map Some (join_words ps @ [46])"
proof -
  have known: "\<exists>p. map_of PRONUNCIATION_DICT w = Some p" if "w \<in> set ws" for w
    using arg_cong [OF assms(3), of set] that by (fastforce simp: image_iff set_eq_iff)
  then have ws: "\<forall>w \<in> set ws. w \<noteq> [] \<and> (\<forall>c \<in> set w. letter c)" using dict_word by blast
  have "\<forall>c \<in> set (join_words ws). 0 \<le> c \<and> c < 128 \<and> \<not> letter (c + 32)"
    using join_words_chars ws by (fastforce simp: letter_def)
  then have low: "uo_lowercase U (join_words ws) = join_words ws" using assms(1) by (simp add: ascii_tables_def)
  have trim: "trim_scalars (join_words ws) = join_words ws"
    using join_words_ends [OF assms(2) ws] by (intro trim_inner) (auto simp: letter_def white_def)
  define ts where "ts = concat (map (emit_word U) (enumerate 0 ws))"
  have ts: "map phoneme_of ts = map Some (join_words ps)" using emit_all [OF assms(1,3), of 0] assms(2) by (simp add: ts_def)
  have "\<forall>p \<in> set ps. 46 \<notin> set p"
  proof
    fix p assume "p \<in> set ps"
    then have "Some p \<in> set (map (map_of PRONUNCIATION_DICT) ws)" using assms(3) by simp
    then obtain w where "map_of PRONUNCIATION_DICT w = Some p" by auto
    then show "46 \<notin> set p" using dict_phoneme by blast
  qed
  then have "46 \<notin> set (join_words ps)" using last_join_words [of ps] by (cases "ps = []") auto
  then have "Some 46 \<notin> set (map phoneme_of ts)" by (simp only: ts) auto
  then have "4 \<notin> set ts" using period(2) by force
  then have "ts = [] \<or> last ts \<noteq> 4" by (metis last_in_set)
  then have "text_to_tokens U (join_words ws) = ts @ [4]"
    unfolding text_to_tokens_def trim low tokenize_def tokenize_words [OF assms(1) ws] ts_def [symmetric]
    by (simp add: add_period_def period(1))
  then show ?thesis by (simp add: ts period(2))
qed

definition ascii_unicode :: unicode where
  "ascii_unicode = \<lparr>uo_alphabetic = (\<lambda>c. letter c \<or> letter (c + 32)),
     uo_alphanumeric = (\<lambda>c. letter c \<or> letter (c + 32) \<or> 48 \<le> c \<and> c \<le> 57),
     uo_lowercase = map (\<lambda>c. if letter (c + 32) then c + 32 else c)\<rparr>"

lemma ascii_unicode_tables: "ascii_tables ascii_unicode"
  by (simp add: ascii_tables_def ascii_unicode_def map_idI)

theorem known_words_spoken_witness:
  "map phoneme_of (text_to_tokens ascii_unicode (codes ''hi you'')) = map Some [104, 712, 73, 32, 106, 117, 46]"
proof -
  have d: "map (map_of PRONUNCIATION_DICT) [codes ''hi'', codes ''you''] = map Some [[104, 712, 73], [106, 117]]"
    by (simp add: PRONUNCIATION_DICT_def PRONUNCIATIONS_def codes_def)
  show ?thesis using known_words_spoken [OF ascii_unicode_tables _ d] by (simp add: codes_def)
qed

text \<open>Digits are not read: of a number only the spaces between its digits remain.\<close>

lemma digit_tokens:
  assumes "ascii_tables U" "48 \<le> c \<and> c \<le> 57"
  shows "emit_word U (i, [c]) = (if i = 0 then [] else [16])"
proof -
  have "\<not> is_punctuation U [c]" using assms by (simp add: is_punctuation_def ascii_tables_def)
  moreover have "map_of PRONUNCIATION_DICT [c] = None"
  proof (rule ccontr)
    assume "map_of PRONUNCIATION_DICT [c] \<noteq> None"
    then have "letter c" using dict_word by fastforce
    then show False using assms(2) by (simp add: letter_def)
  qed
  moreover have "letter_ipa c = None"
    using assms(2) by (auto simp: letter_ipa_def map_of_eq_None_iff)
  ultimately show ?thesis by (simp add: emit_word_def word_to_tokens_def letter_fallback_def vocab_def PHONEME_VOCAB_def)
qed

lemma digits_unspoken:
  assumes "ascii_tables U" "\<forall>c \<in> set ds. 48 \<le> c \<and> c \<le> 57"
  shows "text_to_tokens U ds = replicate (length ds - 1) 16 @ [4]"
proof -
  have "\<forall>c \<in> set ds. 0 \<le> c \<and> c < 128 \<and> \<not> letter (c + 32)" using assms(2) by (fastforce simp: letter_def)
  then have low: "uo_lowercase U ds = ds" using assms(1) by (simp add: ascii_tables_def)
  have trim: "trim_scalars ds = ds"
  proof (cases "ds = []")
    case False
    then show ?thesis using assms(2) hd_in_set [of ds] last_in_set [of ds] by (intro trim_inner) (fastforce simp: white_def)+
  qed (simp add: trim_scalars_def)
  have tok: "tokenize_from U [] ds = map (\<lambda>c. [c]) ds"
    using assms by (induction ds) (auto simp: ascii_tables_def letter_def white_def)
  have conc: "concat (map (emit_word U) (enumerate n (map (\<lambda>c. [c]) ds))) = replicate (length ds - (if n = 0 then 1 else 0)) 16" for n
    using assms(2)
  proof (induction ds arbitrary: n)
    case (Cons d ds)
    have "replicate (Suc (length ds)) (16 :: token_id) = 16 # replicate (length ds) 16" by simp
    then show ?case using Cons.IH [of "Suc n"] Cons.prems digit_tokens [OF assms(1), of d n] by simp
  qed simp
  have "add_period (replicate n 16) = replicate n 16 @ [4]" for n by (cases n) (simp_all add: add_period_def period(1))
  then show ?thesis unfolding text_to_tokens_def trim low tokenize_def tok conc by simp
qed

end
