(* ===== verification/Kokoro.thy ===== *)
theory Kokoro
  imports TtsManager G2p Utf8 Value Paths
begin

text \<open>
  The Kokoro engine (\<open>core/kokoro_onnx.rs\<close>): its voices, the cache of phonemes and the request it makes of the
  ONNX model. A session is \<open>'s\<close>; running one, reading files, the bytes of a float and Rust's debug format of a
  string are the record \<open>kokoro_env\<close>, the LRU cache is the argument \<open>L\<close>. One request runs at a time here; how
  requests share the pool is the theory \<open>SessionPool\<close>.
\<close>

definition VOICE_STYLE_DIM :: nat where "VOICE_STYLE_DIM = 256"
definition VOICE_PACK_SIZE :: nat where "VOICE_PACK_SIZE = 510"
definition DEFAULT_POOL_SIZE :: nat where "DEFAULT_POOL_SIZE = 2"
definition G2P_CACHE_CAPACITY :: nat where "G2P_CACHE_CAPACITY = 1024"

datatype kokoro_error = Kokoro_Error string | Kokoro_Panic

record kokoro_config =
  kc_model_dir :: string
  kc_sample_rate :: u32
  kc_pool_size :: nat

record 's kokoro_env =
  kv_exists :: "string \<Rightarrow> bool"
  kv_open :: "string \<Rightarrow> nat \<Rightarrow> string + 's"
  kv_read :: "string \<Rightarrow> string + u8 list"
  kv_f32 :: "u8 list \<Rightarrow> real"
  kv_run :: "'s \<Rightarrow> token_id list \<Rightarrow> real list \<Rightarrow> real \<Rightarrow> (string + real list) \<times> 's"
  kv_debug :: "string \<Rightarrow> string"
  kv_unicode :: unicode

type_synonym 'c g2p_lru = "(string, token_id list, 'c) lru_ops"

record ('s, 'c) kokoro_engine =
  ke_sessions :: "'s list"
  ke_voice_styles :: "string \<Rightarrow> real list option"
  ke_config :: kokoro_config
  ke_capabilities :: engine_capabilities
  ke_g2p_cache :: 'c

section \<open>Voices\<close>

text \<open>\<open>iter\<close> is the order in which the map gives its keys.\<close>

definition fallback_order :: "string \<Rightarrow> string list" where
  "fallback_order requested =
     (if 1 < length requested \<and> requested ! 1 = CHR ''m'' then [''bm_george'', ''am_adam'', ''am_michael'', ''af_bella'']
      else if 1 < length requested \<and> requested ! 1 = CHR ''f'' then [''af_bella'', ''bf_emma'', ''af_sarah'']
      else [''af_bella''])"

definition resolve_voice_id :: "string list \<Rightarrow> (string \<Rightarrow> real list option) \<Rightarrow> string \<Rightarrow> string" where
  "resolve_voice_id iter loaded requested =
     (if loaded requested \<noteq> None then requested
      else case find (\<lambda>c. loaded c \<noteq> None) (fallback_order requested) of
             Some c \<Rightarrow> c
           | None \<Rightarrow> (case iter of [] \<Rightarrow> requested | i # _ \<Rightarrow> i))"

fun chunks_exact4 :: "'a list \<Rightarrow> 'a list list" where
  "chunks_exact4 (a # b # c # d # xs) = [a, b, c, d] # chunks_exact4 xs"
| "chunks_exact4 _ = []"

definition load_voice_style :: "'s kokoro_env \<Rightarrow> string \<Rightarrow> string + real list" where
  "load_voice_style X p =
     bindR (kv_read X p) (\<lambda>bytes.
       let floats = map (kv_f32 X) (chunks_exact4 bytes); expected = VOICE_PACK_SIZE * VOICE_STYLE_DIM
       in if length floats = expected then Inr floats
          else Inl (''Voice style '' @ kv_debug X p @ '': expected '' @ show_nat expected @ '' floats ('' @
            show_nat VOICE_PACK_SIZE @ ''x'' @ show_nat VOICE_STYLE_DIM @ ''), got '' @ show_nat (length floats)))"

definition default_voices :: "string list" where
  "default_voices = [''af_bella'', ''af_sarah'', ''af_nicole'', ''am_adam'', ''am_michael'', ''bf_emma'', ''bf_isabella'',
     ''bm_george'']"

fun load_voices :: "'s kokoro_env \<Rightarrow> string \<Rightarrow> string list \<Rightarrow> (string \<Rightarrow> real list option) \<Rightarrow> string \<Rightarrow> real list option" where
  "load_voices X voices_dir [] styles = styles"
| "load_voices X voices_dir (i # is) styles =
     load_voices X voices_dir is
       (case load_voice_style X (join_path voices_dir (i @ ''.bin'')) of
          Inr style \<Rightarrow> styles(i \<mapsto> style)
        | Inl e \<Rightarrow> styles)"

definition voice :: "string \<Rightarrow> string \<Rightarrow> string \<Rightarrow> voice_gender \<Rightarrow> voice_info" where
  "voice i nm lang g = \<lparr>vi_id = i, vi_name = nm, vi_language = lang, vi_gender = g, vi_quality = Neural\<rparr>"

definition build_capabilities :: "u32 \<Rightarrow> engine_capabilities" where
  "build_capabilities sample_rate = \<lparr>ec_name = ''Kokoro ONNX TTS'', ec_version = ''1.0.0'',
     ec_supported_languages = [''en-US'', ''en-GB''],
     ec_supported_voices =
       [voice ''af_bella'' ''Bella (American Female)'' ''en-US'' Female,
        voice ''af_sarah'' ''Sarah (American Female)'' ''en-US'' Female,
        voice ''af_nicole'' ''Nicole (American Female)'' ''en-US'' Female,
        voice ''am_adam'' ''Adam (American Male)'' ''en-US'' Male,
        voice ''am_michael'' ''Michael (American Male)'' ''en-US'' Male,
        voice ''bf_emma'' ''Emma (British Female)'' ''en-GB'' Female,
        voice ''bf_isabella'' ''Isabella (British Female)'' ''en-GB'' Female,
        voice ''bm_george'' ''George (British Male)'' ''en-GB'' Male],
     ec_max_text_length = 1000, ec_sample_rate = sample_rate, ec_supports_ssml = False, ec_supports_streaming = True\<rparr>"

section \<open>Construction\<close>

fun open_sessions :: "'s kokoro_env \<Rightarrow> string \<Rightarrow> nat \<Rightarrow> nat \<Rightarrow> string + 's list" where
  "open_sessions X p i 0 = Inr []"
| "open_sessions X p i (Suc n) = bindR (kv_open X p i) (\<lambda>s. map_sum id (Cons s) (open_sessions X p (Suc i) n))"

definition kokoro_pool_size :: "val \<Rightarrow> nat" where
  "kokoro_pool_size cfg =
     (case Option.bind (vget ''pool_size'' cfg) as_u64 of Some n \<Rightarrow> unat (max n 1) | None \<Rightarrow> DEFAULT_POOL_SIZE)"

definition kokoro_new :: "'c g2p_lru \<Rightarrow> 's kokoro_env \<Rightarrow> val \<Rightarrow> string + ('s, 'c) kokoro_engine" where
  "kokoro_new L X cfg =
     (let model_dir = (case Option.bind (vget ''model_dir'' cfg) as_str of Some d \<Rightarrow> d | None \<Rightarrow> ''models/tts/kokoro-onnx-int8'');
          pool_size = kokoro_pool_size cfg
      in case find (kv_exists X) (map (join_path model_dir)
                [''kokoro-v1.0.int8.onnx'', ''kokoro-v1.0.onnx'', ''kokoro-v1_0.onnx'', ''model.onnx'']) of
           None \<Rightarrow> Inl (''Kokoro ONNX model not found in '' @ kv_debug X model_dir @
             ''. Download from: https://github.com/thewh1teagle/kokoro-onnx/releases'')
         | Some model_path \<Rightarrow>
             bindR (open_sessions X model_path 0 pool_size) (\<lambda>sessions.
               let sample_rate = (case Option.bind (vget ''sample_rate'' cfg) as_u64 of Some r \<Rightarrow> ucast r | None \<Rightarrow> 24000)
               in Inr \<lparr>ke_sessions = sessions,
                       ke_voice_styles = load_voices X (join_path model_dir ''voices'') default_voices Map.empty,
                       ke_config = \<lparr>kc_model_dir = model_dir, kc_sample_rate = sample_rate, kc_pool_size = pool_size\<rparr>,
                       ke_capabilities = build_capabilities sample_rate,
                       ke_g2p_cache = lru_new L G2P_CACHE_CAPACITY\<rparr>))"

section \<open>Synthesis\<close>

text \<open>The characters of a text.\<close>

definition scalar :: "string \<Rightarrow> int" where
  "scalar bs =
     (let b = (\<lambda>i. int (byte_at bs i) mod 64)
      in if length bs = 1 then int (byte_at bs 0)
         else if length bs = 2 then int (byte_at bs 0) mod 32 * 64 + b 1
         else if length bs = 3 then int (byte_at bs 0) mod 16 * 4096 + b 1 * 64 + b 2
         else int (byte_at bs 0) mod 8 * 262144 + b 1 * 4096 + b 2 * 64 + b 3)"

function scalars_of :: "string \<Rightarrow> scalars" where
  "scalars_of s =
     (if s = [] then [] else scalar (take (snd (char_seq s)) s) # scalars_of (drop (snd (char_seq s)) s))"
  by pat_completeness auto
termination
  by (relation "measure length") (auto simp: char_seq_pos)

declare scalars_of.simps [simp del]

definition cached_g2p :: "'c g2p_lru \<Rightarrow> 's kokoro_env \<Rightarrow> string \<Rightarrow> 'c \<Rightarrow> token_id list \<times> 'c" where
  "cached_g2p L X s cache =
     (case lru_get L s cache of
        (Some tokens, cache) \<Rightarrow> (tokens, cache)
      | (None, cache) \<Rightarrow>
          (let tokens = text_to_tokens (kv_unicode X) (scalars_of s) in (tokens, lru_put L s tokens cache)))"

definition style_vec :: "real list \<Rightarrow> nat \<Rightarrow> real list" where
  "style_vec pack phoneme_count =
     (let style_row = min (phoneme_count - 1) (VOICE_PACK_SIZE - 1)
      in if length pack = VOICE_PACK_SIZE * VOICE_STYLE_DIM
         then take VOICE_STYLE_DIM (drop (style_row * VOICE_STYLE_DIM) pack)
         else replicate VOICE_STYLE_DIM 0)"

definition clamp_sample :: "real \<Rightarrow> real" where
  "clamp_sample s = (if s < - 1 then - 1 else if 1 < s then 1 else s)"

definition synthesize_with_onnx ::
  "'c g2p_lru \<Rightarrow> 's kokoro_env \<Rightarrow> string list \<Rightarrow> string \<Rightarrow> synthesis_params \<Rightarrow> ('s, 'c) kokoro_engine \<Rightarrow>
   (string + audio_data) \<times> ('s, 'c) kokoro_engine" where
  "synthesize_with_onnx L X iter s p e =
     (let (tokens, cache) = cached_g2p L X s (ke_g2p_cache e);
          e = e\<lparr>ke_g2p_cache := cache\<rparr>
      in if tokens = [] then (Inl (''G2P produced no tokens for: '' @ kv_debug X s), e)
         else let requested = (case sy_voice p of Some v \<Rightarrow> v | None \<Rightarrow> ''af_bella'');
                  voice_id = resolve_voice_id iter (ke_voice_styles e) requested;
                  pack = (case ke_voice_styles e voice_id of Some v \<Rightarrow> v | None \<Rightarrow> [])
              in if ke_sessions e = [] then (Inl ''session pool empty after permit acquired'', e)
                 else let (r, session) = kv_run X (last (ke_sessions e)) (0 # tokens @ [0])
                            (style_vec pack (length tokens)) (sy_speed p);
                          e = e\<lparr>ke_sessions := butlast (ke_sessions e) @ [session]\<rparr>
                      in (map_sum id (\<lambda>samples. \<lparr>ad_samples = map clamp_sample samples,
                            ad_sample_rate = kc_sample_rate (ke_config e), ad_channels = 1\<rparr>) r, e))"

text \<open>Whether a cut at byte \<open>n\<close> lies between two characters.\<close>

definition is_char_boundary :: "string \<Rightarrow> nat \<Rightarrow> bool" where
  "is_char_boundary s n \<longleftrightarrow> n = length s \<or> n < length s \<and> \<not> is_cont (byte_at s n)"

definition kokoro_validate :: "('s, 'c) kokoro_engine \<Rightarrow> string \<Rightarrow> string + unit" where
  "kokoro_validate e s =
     (if s = [] then Inl ''Text cannot be empty''
      else if ec_max_text_length (ke_capabilities e) < length s
      then Inl (''Text too long (max '' @ show_nat (ec_max_text_length (ke_capabilities e)) @ '' characters)'')
      else Inr ())"

text \<open>The error of a failed synthesis quotes the first forty bytes of the text.\<close>

definition with_quote :: "'s kokoro_env \<Rightarrow> string \<Rightarrow> string + audio_data \<Rightarrow> kokoro_error + spoken" where
  "with_quote X s r =
     (case r of
        Inr audio \<Rightarrow> Inr (audio, None)
      | Inl _ \<Rightarrow>
          if is_char_boundary s (min (length s) 40)
          then Inl (Kokoro_Error (''Kokoro ONNX synthesis failed for: '' @ kv_debug X (take 40 s)))
          else Inl Kokoro_Panic)"

definition kokoro_synthesize ::
  "'c g2p_lru \<Rightarrow> 's kokoro_env \<Rightarrow> string list \<Rightarrow> string \<Rightarrow> synthesis_params \<Rightarrow> ('s, 'c) kokoro_engine \<Rightarrow>
   (kokoro_error + spoken) \<times> ('s, 'c) kokoro_engine" where
  "kokoro_synthesize L X iter s p e =
     (case kokoro_validate e s of
        Inl m \<Rightarrow> (Inl (Kokoro_Error m), e)
      | Inr _ \<Rightarrow> (let (r, e) = synthesize_with_onnx L X iter s p e in (with_quote X s r, e)))"

fun kokoro_run ::
  "'c g2p_lru \<Rightarrow> 's kokoro_env \<Rightarrow> string list \<Rightarrow> (string \<times> synthesis_params) list \<Rightarrow> ('s, 'c) kokoro_engine \<Rightarrow>
   (kokoro_error + spoken) list \<times> ('s, 'c) kokoro_engine" where
  "kokoro_run L X iter [] e = ([], e)"
| "kokoro_run L X iter ((s, p) # rs) e =
     (let (a, e) = kokoro_synthesize L X iter s p e; (as, e) = kokoro_run L X iter rs e in (a # as, e))"

section \<open>The request to the model\<close>

lemma style_vec_length: "length (style_vec pack n) = VOICE_STYLE_DIM"
  by (auto simp: style_vec_def Let_def VOICE_STYLE_DIM_def VOICE_PACK_SIZE_def min_def)

text \<open>A loaded voice pack has a row for every length, so the row is a slice of the pack.\<close>

lemma load_voices_size:
  "load_voices X d is styles i = Some pack \<Longrightarrow>
   styles i = Some pack \<or> length pack = VOICE_PACK_SIZE * VOICE_STYLE_DIM"
proof (induction "is" arbitrary: styles)
  case (Cons j js)
  show ?case
  proof (cases "load_voice_style X (join_path d (j @ ''.bin''))")
    case (Inr style)
    then have "length style = VOICE_PACK_SIZE * VOICE_STYLE_DIM"
      by (auto simp: load_voice_style_def bindR_def Let_def split: sum.splits if_splits)
    moreover have "(styles(j \<mapsto> style)) i = Some pack \<or> length pack = VOICE_PACK_SIZE * VOICE_STYLE_DIM"
      by (rule Cons.IH) (use Cons.prems Inr in \<open>simp add: fun_upd_def\<close>)
    ultimately show ?thesis by (cases "i = j") auto
  qed (use Cons in auto)
qed simp

lemma open_sessions_length: "open_sessions X p i n = Inr ss \<Longrightarrow> length ss = n"
proof (induction n arbitrary: i ss)
  case (Suc n)
  then show ?case by (cases "open_sessions X p (Suc i) n") (auto simp: bindR_def split: sum.splits)
qed simp

section \<open>Voices\<close>

text \<open>A voice that is loaded is used as asked for; otherwise, where anything is loaded, a loaded one.\<close>

lemma resolved_voice_loaded:
  assumes "set iter = dom loaded" "loaded \<noteq> Map.empty"
  shows "loaded (resolve_voice_id iter loaded requested) \<noteq> None \<and>
    (loaded requested \<noteq> None \<longrightarrow> resolve_voice_id iter loaded requested = requested)"
proof -
  have "dom loaded \<noteq> {}" using assms(2) by (simp add: dom_eq_empty_conv)
  then have ne: "iter \<noteq> []" unfolding assms(1) [symmetric] by simp
  have "loaded (hd iter) \<noteq> None" using hd_in_set [OF ne] assms(1) by blast
  then show ?thesis using ne
    by (auto simp: resolve_voice_id_def find_Some_iff split: option.split list.split)
qed

text \<open>The substitute need not be of the gender asked for, although a voice of that gender is loaded.\<close>

lemma substitute_changes_gender:
  assumes "loaded = [''am_adam'' \<mapsto> a, ''bf_isabella'' \<mapsto> b]" "set iter = dom loaded" "hd iter = ''am_adam''"
  shows "resolve_voice_id iter loaded ''bf_emma'' = ''am_adam''"
  using assms by (cases iter) (auto simp: resolve_voice_id_def fallback_order_def)

section \<open>Answers do not depend on what came before\<close>

text \<open>The answer of a session without cache or pool.\<close>

definition kokoro_answer ::
  "'s kokoro_env \<Rightarrow> string list \<Rightarrow> 's \<Rightarrow> (string \<Rightarrow> real list option) \<Rightarrow> u32 \<Rightarrow> string \<times> synthesis_params \<Rightarrow>
   kokoro_error + spoken" where
  "kokoro_answer X iter session styles sample_rate = (\<lambda>(s, p).
     if s = [] then Inl (Kokoro_Error ''Text cannot be empty'')
     else if 1000 < length s then Inl (Kokoro_Error (''Text too long (max '' @ show_nat 1000 @ '' characters)''))
     else let tokens = text_to_tokens (kv_unicode X) (scalars_of s);
              v = resolve_voice_id iter styles (case sy_voice p of Some v \<Rightarrow> v | None \<Rightarrow> ''af_bella'')
          in with_quote X s (map_sum id (\<lambda>samples. \<lparr>ad_samples = map clamp_sample samples,
               ad_sample_rate = sample_rate, ad_channels = 1\<rparr>)
               (fst (kv_run X session (0 # tokens @ [0])
                  (style_vec (case styles v of Some pack \<Rightarrow> pack | None \<Rightarrow> []) (length tokens)) (sy_speed p)))))"

locale g2p_cache = lru L lru_wf for L :: "'c g2p_lru" and lru_wf
begin

definition cache_true :: "'s kokoro_env \<Rightarrow> 'c \<Rightarrow> bool" where
  "cache_true X c \<longleftrightarrow> lru_wf G2P_CACHE_CAPACITY c \<and>
     (\<forall>s v. map_of (lru_iter L c) s = Some v \<longrightarrow> v = text_to_tokens (kv_unicode X) (scalars_of s))"

lemma cached_g2p_exact:
  assumes "cache_true X c" "cached_g2p L X s c = (tokens, c')"
  shows "tokens = text_to_tokens (kv_unicode X) (scalars_of s) \<and> cache_true X c'"
proof -
  obtain r d where get: "lru_get L s c = (r, d)" by fastforce
  have wf: "lru_wf G2P_CACHE_CAPACITY c" using assms(1) by (simp add: cache_true_def)
  note g = get_iter [OF wf get]
  have "map_of (lru_iter L d) = map_of (lru_iter L c)" using get_same [OF wf, of s] get by simp
  then have d: "cache_true X d" using g assms(1) by (simp add: cache_true_def)
  show ?thesis
  proof (cases r)
    case (Some v)
    then show ?thesis using assms d g get by (auto simp: cached_g2p_def cache_true_def)
  next
    case None
    have wfd: "lru_wf G2P_CACHE_CAPACITY d" "0 < G2P_CACHE_CAPACITY" using d by (simp_all add: cache_true_def G2P_CACHE_CAPACITY_def)
    let ?t = "text_to_tokens (kv_unicode X) (scalars_of s)"
    have "cache_true X (lru_put L s ?t d)"
      unfolding cache_true_def
    proof (intro conjI allI impI)
      show "lru_wf G2P_CACHE_CAPACITY (lru_put L s ?t d)" using put_iter [OF wfd] by blast
      fix u v assume "map_of (lru_iter L (lru_put L s ?t d)) u = Some v"
      then have "((map_of (lru_iter L d))(s \<mapsto> ?t)) u = Some v" by (rule map_leD [OF put_same [OF wfd]])
      then show "v = text_to_tokens (kv_unicode X) (scalars_of u)" using d by (auto simp: cache_true_def split: if_splits)
    qed
    then show ?thesis using None get assms(2) by (auto simp: cached_g2p_def Let_def)
  qed
qed

lemma synthesize_answer:
  assumes "cache_true X (ke_g2p_cache e)" "ke_sessions e \<noteq> []" "ec_max_text_length (ke_capabilities e) = 1000"
    and pure: "\<And>s s' ts st sp. fst (kv_run X s ts st sp) = fst (kv_run X s' ts st sp)"
    and "kokoro_synthesize L X iter s p e = (a, e')"
  shows "a = kokoro_answer X iter session (ke_voice_styles e) (kc_sample_rate (ke_config e)) (s, p) \<and>
    cache_true X (ke_g2p_cache e') \<and> ke_sessions e' \<noteq> [] \<and> ke_voice_styles e' = ke_voice_styles e \<and>
    ke_config e' = ke_config e \<and> ke_capabilities e' = ke_capabilities e"
proof -
  obtain tokens c where g2p: "cached_g2p L X s (ke_g2p_cache e) = (tokens, c)" by fastforce
  note t = cached_g2p_exact [OF assms(1) g2p]
  have ne: "tokens \<noteq> []" using tokens_in_range [of "kv_unicode X" "scalars_of s"] t by auto
  let ?v = "resolve_voice_id iter (ke_voice_styles e) (case sy_voice p of Some v \<Rightarrow> v | None \<Rightarrow> ''af_bella'')"
  let ?st = "style_vec (case ke_voice_styles e ?v of Some pack \<Rightarrow> pack | None \<Rightarrow> []) (length tokens)"
  obtain r q where run: "kv_run X (last (ke_sessions e)) (0 # tokens @ [0]) ?st (sy_speed p) = (r, q)" by fastforce
  have r: "fst (kv_run X session (0 # tokens @ [0]) ?st (sy_speed p)) = r"
    using pure [of session "0 # tokens @ [0]" ?st "sy_speed p" "last (ke_sessions e)"] run by simp
  show ?thesis
    using assms(1,2,3,5) g2p ne run r t
    by (auto simp: kokoro_synthesize_def kokoro_validate_def synthesize_with_onnx_def kokoro_answer_def Let_def split_beta)
qed

lemma run_answers:
  assumes "cache_true X (ke_g2p_cache e)" "ke_sessions e \<noteq> []" "ec_max_text_length (ke_capabilities e) = 1000"
    and pure: "\<And>s s' ts st sp. fst (kv_run X s ts st sp) = fst (kv_run X s' ts st sp)"
  shows "fst (kokoro_run L X iter rs e) =
    map (kokoro_answer X iter session (ke_voice_styles e) (kc_sample_rate (ke_config e))) rs"
  using assms(1-3)
proof (induction rs arbitrary: e)
  case (Cons r rs)
  obtain s p where r: "r = (s, p)" by (cases r)
  obtain a e' where step: "kokoro_synthesize L X iter s p e = (a, e')" by fastforce
  note facts = synthesize_answer [OF Cons.prems pure step, of session]
  then show ?case using Cons.IH [of e'] Cons.prems(3) step by (simp add: r split_beta)
qed simp

lemma new_true:
  assumes "kokoro_new L X cfg = Inr e"
  shows "cache_true X (ke_g2p_cache e) \<and> ke_sessions e \<noteq> [] \<and> ec_max_text_length (ke_capabilities e) = 1000"
proof -
  have "0 < kokoro_pool_size cfg"
    by (auto simp: kokoro_pool_size_def DEFAULT_POOL_SIZE_def unat_gt_0 split: option.split)
      (metis max.cobounded2 word_le_0_iff zero_neq_one)
  moreover have "lru_iter L (lru_new L G2P_CACHE_CAPACITY) = [] \<and> lru_wf G2P_CACHE_CAPACITY (lru_new L G2P_CACHE_CAPACITY)"
    using new_iter [of G2P_CACHE_CAPACITY] by (simp add: G2P_CACHE_CAPACITY_def)
  ultimately show ?thesis
    using assms open_sessions_length [of X _ 0 "kokoro_pool_size cfg"]
    by (fastforce simp: kokoro_new_def bindR_Inr_iff cache_true_def build_capabilities_def Let_def split: option.splits)
qed

end

interpretation list_g2p: g2p_cache list_lru list_lru_wf
  by unfold_locales

section \<open>Properties\<close>

text \<open>
  C30. With sessions that answer alike (they are opened from one file), no request leaves a trace in the answers
  of a new engine: whatever was asked before, each answer is the one a session gives to the zero-framed tokens of
  the text, a style row of 256 numbers and the speed, its samples clamped, or the error, with no cache or pool
  between.
\<close>

theorem kokoro_history_free:
  assumes "g2p_cache L lru_wf" and "kokoro_new L X cfg = Inr e"
    and "\<And>s s' ts st sp. fst (kv_run X s ts st sp) = fst (kv_run X s' ts st sp)"
  shows "fst (kokoro_run L X iter rs e) =
    map (kokoro_answer X iter session (ke_voice_styles e) (kc_sample_rate (ke_config e))) rs"
  using g2p_cache.run_answers [OF assms(1) _ _ _ assms(3)] g2p_cache.new_true [OF assms(1,2)] by blast

text \<open>A model that answers with the number of tokens it got; there are no voice files.\<close>

definition counting_env :: "unit kokoro_env" where
  "counting_env = \<lparr>kv_exists = (\<lambda>p. True), kv_open = (\<lambda>p i. Inr ()), kv_read = (\<lambda>p. Inl ''missing''),
     kv_f32 = (\<lambda>b. 0), kv_run = (\<lambda>s ts st sp. (Inr [real (length ts), 1 / 2], ())), kv_debug = id,
     kv_unicode = ascii_unicode\<rparr>"

lemma hi_tokens: "text_to_tokens ascii_unicode (scalars_of ''hi'') = [50, 156, 25, 4]"
proof -
  have "scalars_of ''hi'' = codes ''hi''"
    by (simp add: scalars_of.simps char_seq_def utf8_width_def byte_at_def scalar_def codes_def Let_def)
  moreover have "tokenize ascii_unicode (codes ''hi'') = [codes ''hi'']"
    by (simp add: tokenize_def codes_def ascii_unicode_def letter_def white_def)
  moreover have "uo_lowercase ascii_unicode (trim_scalars (codes ''hi'')) = codes ''hi''"
    by (simp add: ascii_unicode_def codes_def trim_scalars_def white_def letter_def)
  moreover have "map_of PRONUNCIATION_DICT (codes ''hi'') = Some [104, 712, 73]"
    by (simp add: PRONUNCIATION_DICT_def PRONUNCIATIONS_def codes_def)
  moreover have "phoneme_string_to_tokens [104, 712, 73] = [50, 156, 25]"
    by (simp add: phoneme_string_to_tokens_def map_filter_simps vocab_def PHONEME_VOCAB_def)
  moreover have "\<not> is_punctuation ascii_unicode (codes ''hi'')" by (simp add: is_punctuation_def codes_def)
  ultimately show ?thesis by (simp add: text_to_tokens_def emit_word_def word_to_tokens_def add_period_def period(1))
qed

theorem kokoro_history_free_witness:
  "\<exists>e. kokoro_new list_lru counting_env (JObject []) = Inr e \<and>
     fst (kokoro_run list_lru counting_env [] [(''hi'', sy_default), ([], sy_default), (''hi'', sy_default)] e) =
       [Inr (\<lparr>ad_samples = [1, 1 / 2], ad_sample_rate = 24000, ad_channels = 1\<rparr>, None),
        Inl (Kokoro_Error ''Text cannot be empty''),
        Inr (\<lparr>ad_samples = [1, 1 / 2], ad_sample_rate = 24000, ad_channels = 1\<rparr>, None)]"
proof -
  obtain e where e: "kokoro_new list_lru counting_env (JObject []) = Inr e" "kc_sample_rate (ke_config e) = 24000"
    by (simp add: kokoro_new_def counting_env_def kokoro_pool_size_def vget_def DEFAULT_POOL_SIZE_def bindR_def
        numeral_2_eq_2 Let_def)
  show ?thesis
    using kokoro_history_free [OF list_g2p.g2p_cache_axioms e(1), of "[]" "[(''hi'', sy_default), ([], sy_default), (''hi'', sy_default)]"
        "()"] e
    by (simp add: kokoro_answer_def counting_env_def hi_tokens with_quote_def clamp_sample_def Let_def)
qed

text \<open>A failed synthesis of a text whose fortieth byte lies inside a character is a panic, not an error.\<close>

lemma failed_quote_panics:
  "length s = 39 \<Longrightarrow> with_quote X (s @ utf8 [195, 169]) (Inl m) = Inl Kokoro_Panic"
  by (simp add: with_quote_def is_char_boundary_def byte_at_def nth_append utf8_def is_cont_def)

end
