(* ===== verification/ModelsApi.thy ===== *)
theory ModelsApi
  imports Download Digits
begin

text \<open>
  The catalogue of models and its downloads (\<open>api/models.rs\<close>). The catalogue is read once; the disk is a list of
  files with their content and a list of directories, paths by their components. The HTTP client, errors of the
  disk, and the float parser and printer are the record \<open>catalogue_env\<close>; the files of a repository are
  fetched one after the other in the order they finish, which \<open>ce_order\<close> gives.
\<close>

section \<open>The catalogue\<close>

record catalogue_model =
  cm_name :: string
  cm_score :: real
  cm_rank :: int
  cm_size :: string
  cm_url :: string
  cm_architecture :: string
  cm_voices :: string
  cm_quality :: string
  cm_status :: string
  cm_note :: "string option"
  cm_model_type :: string
  cm_task :: string

record catalogue =
  ct_version :: string
  ct_updated :: string
  ct_models :: "string \<Rightarrow> catalogue_model option"

definition ct_empty :: catalogue where
  "ct_empty = \<lparr>ct_version = ''0.0'', ct_updated = [], ct_models = Map.empty\<rparr>"

record catalogue_env =
  ce_parse_f32 :: "string \<Rightarrow> real option"
  ce_f32 :: "number \<Rightarrow> real"
  ce_show_number :: "number \<Rightarrow> string"
  ce_fetch :: "string \<Rightarrow> string + http_reply"
  ce_mkdir :: "component list \<Rightarrow> string option"
  ce_create :: "component list \<Rightarrow> string option"
  ce_order :: "(string \<times> string) list \<Rightarrow> (string \<times> string) list"

text \<open>\<open>str::parse::<i32>\<close>.\<close>

definition parse_i32 :: "string \<Rightarrow> int option" where
  "parse_i32 s =
     (let (sign, ds) = (case s of c # cs \<Rightarrow> if c = CHR ''-'' then (- 1, cs) else if c = CHR ''+'' then (1, cs) else (1, s)
                                 | [] \<Rightarrow> (1, []));
          n = sign * int (digits_value 10 ds)
      in if ds \<noteq> [] \<and> list_all is_dec ds \<and> - (2 ^ 31) \<le> n \<and> n < 2 ^ 31 then Some n else None)"

definition de_f32_or_str :: "catalogue_env \<Rightarrow> val \<Rightarrow> real" where
  "de_f32_or_str E v =
     (case v of
        JNumber n \<Rightarrow> ce_f32 E n
      | JString s \<Rightarrow> (case ce_parse_f32 E s of Some x \<Rightarrow> x | None \<Rightarrow> 0)
      | _ \<Rightarrow> 0)"

definition de_i32_or_str :: "val \<Rightarrow> int" where
  "de_i32_or_str v =
     (case v of
        JNumber n \<Rightarrow> (case as_i64 v of Some i \<Rightarrow> if - (2 ^ 31) \<le> i \<and> i < 2 ^ 31 then i else 0 | None \<Rightarrow> 0)
      | JString s \<Rightarrow> (case parse_i32 s of Some i \<Rightarrow> i | None \<Rightarrow> 0)
      | _ \<Rightarrow> 0)"

definition de_string_or_num :: "catalogue_env \<Rightarrow> val \<Rightarrow> string" where
  "de_string_or_num E v = (case v of JString s \<Rightarrow> s | JNumber n \<Rightarrow> ce_show_number E n | _ \<Rightarrow> [])"

text \<open>A field that must be a text, with its default where it is left out.\<close>

definition text_field :: "string \<Rightarrow> string option \<Rightarrow> val \<Rightarrow> string + string" where
  "text_field k dflt v =
     (case vget k v of
        Some (JString s) \<Rightarrow> Inr s
      | Some _ \<Rightarrow> Inl ''invalid type, expected a string''
      | None \<Rightarrow> (case dflt of Some d \<Rightarrow> Inr d | None \<Rightarrow> Inl (''missing field '' @ k)))"

definition note_field :: "val \<Rightarrow> string + string option" where
  "note_field v =
     (case vget ''note'' v of
        None \<Rightarrow> Inr None
      | Some JNull \<Rightarrow> Inr None
      | Some (JString s) \<Rightarrow> Inr (Some s)
      | Some _ \<Rightarrow> Inl ''invalid type, expected a string'')"

definition model_of_json :: "catalogue_env \<Rightarrow> val \<Rightarrow> string + catalogue_model" where
  "model_of_json E v =
     (case v of
        JObject _ \<Rightarrow>
          bindR (text_field ''name'' None v) (\<lambda>nm.
          bindR (text_field ''size'' (Some []) v) (\<lambda>sz.
          bindR (text_field ''url'' (Some []) v) (\<lambda>url.
          bindR (text_field ''architecture'' (Some []) v) (\<lambda>arch.
          bindR (text_field ''quality'' (Some []) v) (\<lambda>quality.
          bindR (text_field ''status'' (Some []) v) (\<lambda>status.
          bindR (note_field v) (\<lambda>note.
          bindR (text_field ''model_type'' (Some []) v) (\<lambda>ty.
          bindR (text_field ''task'' (Some []) v) (\<lambda>task.
            Inr \<lparr>cm_name = nm,
                 cm_score = (case vget ''score'' v of Some x \<Rightarrow> de_f32_or_str E x | None \<Rightarrow> 0),
                 cm_rank = (case vget ''rank'' v of Some x \<Rightarrow> de_i32_or_str x | None \<Rightarrow> 0),
                 cm_size = sz, cm_url = url, cm_architecture = arch,
                 cm_voices = (case vget ''voices'' v of Some x \<Rightarrow> de_string_or_num E x | None \<Rightarrow> []),
                 cm_quality = quality, cm_status = status, cm_note = note, cm_model_type = ty, cm_task = task\<rparr>)))))))))
      | _ \<Rightarrow> Inl ''invalid type, expected struct ModelInfo'')"

definition catalogue_of_json :: "catalogue_env \<Rightarrow> val \<Rightarrow> string + catalogue" where
  "catalogue_of_json E v =
     bindR (text_field ''version'' None v) (\<lambda>version.
     bindR (text_field ''updated'' None v) (\<lambda>updated.
       case vget ''models'' v of
         Some (JObject ps) \<Rightarrow>
           bindR (mapR (\<lambda>(i, m). map_sum id (Pair i) (model_of_json E m)) ps) (\<lambda>ms.
             Inr \<lparr>ct_version = version, ct_updated = updated, ct_models = map_of (rev ms)\<rparr>)
       | Some _ \<Rightarrow> Inl ''invalid type, expected a map''
       | None \<Rightarrow> Inl ''missing field models''))"

text \<open>\<open>parse\<close> is the parser of \<open>serde_json\<close>, the variable and the file are as they are found, \<open>built_in\<close> is the copy in the binary.\<close>

definition from_json_str :: "catalogue_env \<Rightarrow> (string \<Rightarrow> string + val) \<Rightarrow> string \<Rightarrow> catalogue" where
  "from_json_str E parse s = (case bindR (parse s) (catalogue_of_json E) of Inr c \<Rightarrow> c | Inl e \<Rightarrow> ct_empty)"

definition ct_load ::
  "catalogue_env \<Rightarrow> (string \<Rightarrow> string + val) \<Rightarrow> string option \<Rightarrow> (string \<Rightarrow> string option) \<Rightarrow> string \<Rightarrow> catalogue" where
  "ct_load E parse var read_file built_in =
     (let p = (case var of Some s \<Rightarrow> if s = [] then ''model_registry.json'' else s | None \<Rightarrow> ''model_registry.json'')
      in from_json_str E parse (case read_file p of Some d \<Rightarrow> d | None \<Rightarrow> built_in))"

text \<open>\<open>iter\<close> is the order in which the map gives its keys; the sort is stable.\<close>

definition ct_list :: "string list \<Rightarrow> catalogue \<Rightarrow> (string \<times> catalogue_model) list" where
  "ct_list iter c =
     sort_key (\<lambda>p. cm_rank (snd p)) (List.map_filter (\<lambda>i. map_option (Pair i) (ct_models c i)) iter)"

definition comparison_entry :: "string \<times> catalogue_model \<Rightarrow> val" where
  "comparison_entry = (\<lambda>(i, m). JObject [(''id'', JString i), (''name'', JString (cm_name m)),
     (''score'', JNumber (Float (cm_score m))),
     (''rank'', JNumber (if cm_rank m < 0 then NegInt (cm_rank m) else PosInt (word_of_int (cm_rank m)))),
     (''size'', JString (cm_size m)), (''quality'', JString (cm_quality m)), (''status'', JString (cm_status m)),
     (''architecture'', JString (cm_architecture m))])"

definition get_model_comparison :: "string list \<Rightarrow> catalogue \<Rightarrow> val" where
  "get_model_comparison iter c =
     (let cs = map comparison_entry (ct_list iter c)
      in JObject [(''models'', JArray cs), (''total_count'', JNumber (PosInt (word_of_nat (length cs))))])"

section \<open>The disk\<close>

record disk =
  dk_files :: "(component list \<times> u8 list) list"
  dk_dirs :: "component list list"

definition model_cache_dir :: "string \<Rightarrow> string \<Rightarrow> string" where
  "model_cache_dir i ty =
     join_path
       (if ty = ''tts'' \<or> ty = [] then ''models/tts''
        else if ty = ''image-classification'' then ''models/classification''
        else if ty = ''object-detection'' then ''models/detection''
        else if ty = ''segmentation'' then ''models/segmentation''
        else if ty = ''neural-network'' then ''models/neural''
        else if ty = ''speech-to-text'' then ''models/stt''
        else if ty = ''text-classification'' \<or> ty = ''feature-extraction'' \<or> ty = ''nlp'' then ''models/nlp''
        else ''models/other'') i"

text \<open>The entries of a directory are the paths one component longer.\<close>

definition dir_has_entry :: "disk \<Rightarrow> component list \<Rightarrow> bool" where
  "dir_has_entry d dir \<longleftrightarrow> list_ex (\<lambda>p. p \<noteq> [] \<and> butlast p = dir) (map fst (dk_files d) @ dk_dirs d)"

definition is_available :: "disk \<Rightarrow> string \<Rightarrow> catalogue_model \<Rightarrow> bool" where
  "is_available d i m \<longleftrightarrow>
     cm_url m = ''Built-in'' \<or> cm_status m = ''Active'' \<or>
     (let dir = components (model_cache_dir i (cm_model_type m)) in dir \<in> set (dk_dirs d) \<and> dir_has_entry d dir)"

definition ct_downloaded :: "disk \<Rightarrow> string list \<Rightarrow> catalogue \<Rightarrow> (string \<times> catalogue_model) list" where
  "ct_downloaded d iter c =
     filter (\<lambda>(i, m). is_available d i m) (List.map_filter (\<lambda>i. map_option (Pair i) (ct_models c i)) iter)"

fun prefixes_of :: "component list \<Rightarrow> component list list" where
  "prefixes_of [] = []"
| "prefixes_of (c # cs) = [c] # map (Cons c) (prefixes_of cs)"

definition create_dir_all :: "catalogue_env \<Rightarrow> component list \<Rightarrow> disk \<Rightarrow> (string + unit) \<times> disk" where
  "create_dir_all E dir d =
     (case ce_mkdir E dir of
        Some e \<Rightarrow> (Inl e, d)
      | None \<Rightarrow> (Inr (), d\<lparr>dk_dirs := dk_dirs d @ filter (\<lambda>p. p \<notin> set (dk_dirs d)) (prefixes_of dir)\<rparr>))"

definition write_file :: "component list \<Rightarrow> u8 list \<Rightarrow> disk \<Rightarrow> disk" where
  "write_file p b d = d\<lparr>dk_files := AList.update p b (dk_files d)\<rparr>"

section \<open>Downloads\<close>

text \<open>The bytes that arrive before the stream ends or breaks, and the error.\<close>

fun body_bytes :: "(string + u8 list) list \<Rightarrow> u8 list \<times> string option" where
  "body_bytes [] = ([], None)"
| "body_bytes (Inl e # cs) = ([], Some e)"
| "body_bytes (Inr b # cs) = (let (bs, e) = body_bytes cs in (b @ bs, e))"

definition download_file_streaming ::
  "catalogue_env \<Rightarrow> string \<Rightarrow> string \<Rightarrow> disk \<Rightarrow> (string + unit) \<times> disk" where
  "download_file_streaming E url dest d =
     (case ce_fetch E url of
        Inl e \<Rightarrow> (Inl e, d)
      | Inr reply \<Rightarrow>
          if \<not> hr_success reply then (Inl (''HTTP error downloading '' @ url), d)
          else case ce_create E (components dest) of
                 Some e \<Rightarrow> (Inl e, d)
               | None \<Rightarrow>
                   (let (bs, e) = body_bytes (hr_chunks reply)
                    in ((case e of Some m \<Rightarrow> Inl m | None \<Rightarrow> Inr ()), write_file (components dest) bs d)))"

definition wanted_path :: "string \<Rightarrow> bool" where
  "wanted_path p \<longleftrightarrow>
     \<not> starts_with p ''.git'' \<and> \<not> ends_with p ''.md'' \<and> \<not> ends_with p ''.txt'' \<and> \<not> contains p ''test'' \<and>
     \<not> contains p ''example''"

definition suspicious_path :: "string \<Rightarrow> bool" where
  "suspicious_path p \<longleftrightarrow> contains p ''..'' \<or> starts_with p ''/'' \<or> is_absolute p"

definition listed_files :: "val list \<Rightarrow> string list" where
  "listed_files fs =
     List.map_filter (\<lambda>f. if vget ''type'' f = Some (JString ''file'') then Option.bind (vget ''path'' f) as_str else None) fs"

definition repo_files :: "string \<Rightarrow> string \<Rightarrow> val list \<Rightarrow> (string \<times> string) list" where
  "repo_files repo_id target_dir fs =
     map (\<lambda>p. (''https://huggingface.co/'' @ repo_id @ ''/resolve/main/'' @ p, join_path target_dir p))
       (filter (\<lambda>p. \<not> suspicious_path p) (filter wanted_path (listed_files fs)))"

text \<open>\<open>Path::parent\<close>, by components.\<close>

definition parent_dir :: "component list \<Rightarrow> component list option" where
  "parent_dir p = (if p = [] \<or> p = [RootDir] then None else Some (butlast p))"

definition download_one :: "catalogue_env \<Rightarrow> string \<times> string \<Rightarrow> disk \<Rightarrow> (string + unit) \<times> disk" where
  "download_one E = (\<lambda>(url, dest) d.
     (case parent_dir (components dest) of
        None \<Rightarrow> download_file_streaming E url dest d
      | Some parent \<Rightarrow>
          (case create_dir_all E parent d of
             (Inl e, d) \<Rightarrow> (Inl (''Failed to create directories for '' @ dest @ '': '' @ e), d)
           | (Inr _, d) \<Rightarrow> download_file_streaming E url dest d)))"

text \<open>Each file is tried; failures are only logged.\<close>

fun download_files_concurrent :: "catalogue_env \<Rightarrow> (string \<times> string) list \<Rightarrow> disk \<Rightarrow> disk" where
  "download_files_concurrent E [] d = d"
| "download_files_concurrent E (f # fs) d = download_files_concurrent E fs (snd (download_one E f d))"

definition as_array :: "string + val \<Rightarrow> string + val list" where
  "as_array r = bindR r (\<lambda>v. case v of JArray vs \<Rightarrow> Inr vs | _ \<Rightarrow> Inl ''invalid type, expected a sequence'')"

definition download_huggingface_repo :: "catalogue_env \<Rightarrow> string \<Rightarrow> string \<Rightarrow> disk \<Rightarrow> (string + unit) \<times> disk" where
  "download_huggingface_repo E repo_id target_dir d =
     (case ce_fetch E (''https://huggingface.co/api/models/'' @ repo_id @ ''/tree/main'') of
        Inl e \<Rightarrow> (Inl e, d)
      | Inr reply \<Rightarrow>
          if \<not> hr_success reply then (Inl ''Failed to fetch repository file list: HTTP error'', d)
          else case as_array (hr_json reply) of
                 Inl e \<Rightarrow> (Inl e, d)
               | Inr fs \<Rightarrow> (Inr (), download_files_concurrent E (ce_order E (repo_files repo_id target_dir fs)) d))"

definition direct_suffixes :: "string list" where
  "direct_suffixes = [''.pt'', ''.pth'', ''.onnx'', ''.bin'', ''.safetensors'', ''.gguf'']"

text \<open>\<open>rsplit('.').next()\<close>: what follows the last dot, or everything.\<close>

definition after_last_dot :: "string \<Rightarrow> string" where
  "after_last_dot s = rev (takeWhile (\<lambda>c. c \<noteq> CHR ''.'') (rev s))"

fun trim_start_matches :: "nat \<Rightarrow> string \<Rightarrow> string \<Rightarrow> string" where
  "trim_start_matches 0 p s = s"
| "trim_start_matches (Suc n) p s = (case strip_prefix p s of Some t \<Rightarrow> trim_start_matches n p t | None \<Rightarrow> s)"

definition repo_id_of :: "string \<Rightarrow> string" where
  "repo_id_of url =
     rev (dropWhile (\<lambda>c. c = CHR ''/'') (rev (trim_start_matches (length url) ''https://huggingface.co/'' url)))"

definition resolve_extension :: "string \<Rightarrow> string" where
  "resolve_extension url = (if ends_with url ''.pth'' then ''pth'' else if ends_with url ''.onnx'' then ''onnx'' else ''bin'')"

definition download_config :: "catalogue_env \<Rightarrow> string option \<Rightarrow> string \<Rightarrow> disk \<Rightarrow> (string + unit) \<times> disk" where
  "download_config E note cache_dir d =
     (case note of
        None \<Rightarrow> (Inr (), d)
      | Some n \<Rightarrow>
          if \<not> contains n ''http'' then (Inr (), d)
          else case ce_fetch E n of
                 Inl e \<Rightarrow> (Inl e, d)
               | Inr reply \<Rightarrow>
                   if \<not> hr_success reply then (Inr (), d)
                   else let (bs, e) = body_bytes (hr_chunks reply); p = components (join_path cache_dir ''config.json'')
                        in case e of
                             Some m \<Rightarrow> (Inl m, d)
                           | None \<Rightarrow> (case ce_create E p of Some m \<Rightarrow> (Inl m, d) | None \<Rightarrow> (Inr (), write_file p bs d)))"

definition download_model_async :: "catalogue_env \<Rightarrow> string \<Rightarrow> catalogue_model \<Rightarrow> disk \<Rightarrow> (string + unit) \<times> disk" where
  "download_model_async E i m d =
     (let cache_dir = model_cache_dir i (cm_model_type m); url = cm_url m
      in case create_dir_all E (components cache_dir) d of
           (Inl e, d) \<Rightarrow> (Inl e, d)
         | (Inr _, d) \<Rightarrow>
             if url = ''Built-in'' then (Inr (), d)
             else if contains url ''resolve''
             then (case download_file_streaming E url (join_path cache_dir (''model.'' @ resolve_extension url)) d of
                     (Inl e, d) \<Rightarrow> (Inl e, d)
                   | (Inr _, d) \<Rightarrow> download_config E (cm_note m) cache_dir d)
             else if starts_with url ''https://huggingface.co/''
             then download_huggingface_repo E (repo_id_of url) cache_dir d
             else if list_ex (ends_with url) direct_suffixes
             then download_file_streaming E url (join_path cache_dir (''model.'' @ after_last_dot url)) d
             else (Inr (), d))"

section \<open>Requests\<close>

text \<open>An accepted download runs in the background: the answer, and the model to fetch.\<close>

datatype download_answer = Not_Found string | Already_Downloaded catalogue_model | Download_Initiated catalogue_model

definition request_download :: "catalogue \<Rightarrow> string \<Rightarrow> disk \<Rightarrow> download_answer" where
  "request_download c i d =
     (case ct_models c i of
        None \<Rightarrow> Not_Found i
      | Some m \<Rightarrow> if is_available d i m then Already_Downloaded m else Download_Initiated m)"

definition get_catalogue_model :: "catalogue \<Rightarrow> string \<Rightarrow> string + catalogue_model" where
  "get_catalogue_model c i = (case ct_models c i of Some m \<Rightarrow> Inr m | None \<Rightarrow> Inl ''Model not found'')"

text \<open>Requests of a run, each download finished before the next.\<close>

fun catalogue_run :: "catalogue_env \<Rightarrow> catalogue \<Rightarrow> string list \<Rightarrow> disk \<Rightarrow> download_answer list \<times> disk" where
  "catalogue_run E c [] d = ([], d)"
| "catalogue_run E c (i # is) d =
     (let a = request_download c i d;
          d = (case a of Download_Initiated m \<Rightarrow> snd (download_model_async E i m d) | _ \<Rightarrow> d);
          (as, d) = catalogue_run E c is d
      in (a # as, d))"

section \<open>Where files go\<close>

lemma piece_contained: "s \<in> set (split_slash p) \<Longrightarrow> contains p s"
proof -
  assume "s \<in> set (split_slash p)"
  then have "\<exists>xs ys. p = xs @ s @ ys \<and> (s = hd (split_slash p) \<longrightarrow> True)"
  proof (induction p arbitrary: s)
    case (Cons c p)
    have split: "split_slash p = hd (split_slash p) # tl (split_slash p)" by simp
    have hd: "\<exists>ys. p = hd (split_slash p) @ ys"
    proof (induction p)
      case (Cons b q)
      then show ?case by auto
    qed simp
    consider "s = c # hd (split_slash p)" | "s = []" | "s \<in> set (split_slash p)"
      using Cons.prems split by (auto split: if_splits dest: list.set_sel(2) [rotated])
    then show ?case
    proof cases
      case 1
      obtain ys where "p = hd (split_slash p) @ ys" using hd by blast
      with 1 have "c # p = [] @ s @ ys" by simp
      then show ?thesis by blast
    next
      case 3
      then obtain xs ys where "p = xs @ s @ ys" using Cons.IH by blast
      then have "c # p = (c # xs) @ s @ ys" by simp
      then show ?thesis by blast
    qed auto
  qed simp
  then show ?thesis by (auto simp: contains_iff)
qed

lemma parts_normal: "\<not> contains p ''..'' \<Longrightarrow> list_all is_normal (parts p)"
proof -
  assume no: "\<not> contains p ''..''"
  then have "''..'' \<notin> set (split_slash p)" using piece_contained by blast
  then have "list_all is_normal (List.map_filter part_component ss)" if "set ss \<subseteq> set (split_slash p)" for ss
    using that by (induction ss) (auto simp: map_filter_simps part_component_def split: option.split)
  then show ?thesis unfolding parts_def by blast
qed

lemma join_below:
  assumes "base \<noteq> []" "\<not> is_absolute p" "\<not> contains p ''..''"
  shows "\<exists>rest. components (join_path base p) = components base @ rest \<and> list_all is_normal rest"
  using components_join [OF assms(1,2)] parts_normal [OF assms(3)] by blast

lemma cache_dir_nonempty: "model_cache_dir i ty \<noteq> []"
  unfolding model_cache_dir_def by (rule join_nonempty) simp

text \<open>All that changed is at or below a directory.\<close>

definition changes_below :: "component list \<Rightarrow> disk \<Rightarrow> disk \<Rightarrow> bool" where
  "changes_below dir d d' \<longleftrightarrow>
     (\<forall>p. map_of (dk_files d') p \<noteq> map_of (dk_files d) p \<longrightarrow> (\<exists>rest. p = dir @ rest \<and> list_all is_normal rest))"

lemma changes_refl [simp]: "changes_below dir d d"
  by (simp add: changes_below_def)

lemma changes_trans: "changes_below dir d d' \<Longrightarrow> changes_below dir d' d'' \<Longrightarrow> changes_below dir d d''"
  unfolding changes_below_def by metis

lemma changes_dirs [simp]: "changes_below dir d (d'\<lparr>dk_dirs := ds\<rparr>) = changes_below dir d d'"
  by (simp add: changes_below_def)

lemma create_dir_all_changes: "changes_below dir d (snd (create_dir_all E p d))"
  by (simp add: create_dir_all_def split: option.split)

lemma write_file_changes: "list_all is_normal rest \<Longrightarrow> changes_below dir d (write_file (dir @ rest) b d)"
  by (auto simp: changes_below_def write_file_def update_conv')

lemma streaming_changes:
  assumes "components dest = dir @ rest" "list_all is_normal rest"
  shows "changes_below dir d (snd (download_file_streaming E url dest d))"
  by (auto simp: download_file_streaming_def assms(1) write_file_changes [OF assms(2)] split: sum.split option.split prod.split)

lemma download_one_changes:
  assumes "components dest = dir @ rest" "list_all is_normal rest"
  shows "changes_below dir d (snd (download_one E (url, dest) d))"
proof (cases "parent_dir (components dest)")
  case None
  then show ?thesis by (simp add: download_one_def streaming_changes [OF assms])
next
  case (Some parent)
  obtain r d1 where mk: "create_dir_all E parent d = (r, d1)" by fastforce
  have "changes_below dir d d1" using create_dir_all_changes [of dir d E parent] mk by simp
  then show ?thesis using streaming_changes [OF assms, of d1 E url] Some mk
    by (auto simp: download_one_def split: sum.split intro: changes_trans)
qed

lemma download_files_changes:
  "\<forall>f \<in> set fs. \<exists>rest. components (snd f) = dir @ rest \<and> list_all is_normal rest \<Longrightarrow>
   changes_below dir d (download_files_concurrent E fs d)"
proof (induction fs arbitrary: d)
  case (Cons f fs)
  obtain url dest where f: "f = (url, dest)" by (cases f)
  then obtain rest where "components dest = dir @ rest" "list_all is_normal rest" using Cons.prems by auto
  then have "changes_below dir d (snd (download_one E f d))" unfolding f by (rule download_one_changes)
  then show ?case using Cons by (auto intro: changes_trans)
qed simp

lemma repo_files_below:
  assumes "target \<noteq> []" "f \<in> set (repo_files repo_id target fs)"
  shows "\<exists>rest. components (snd f) = components target @ rest \<and> list_all is_normal rest"
proof -
  obtain p where "snd f = join_path target p" "\<not> suspicious_path p" using assms(2) by (auto simp: repo_files_def)
  then show ?thesis using join_below [OF assms(1)] by (auto simp: suspicious_path_def)
qed

lemma ends_with_iff: "ends_with s p \<longleftrightarrow> (\<exists>xs. s = xs @ p)"
proof -
  have "rev s = rev p @ t \<longleftrightarrow> s = rev t @ p" for t by (metis rev_append rev_rev_ident)
  moreover have "(\<exists>t. s = rev t @ p) \<longleftrightarrow> (\<exists>xs. s = xs @ p)" by (metis rev_rev_ident)
  ultimately show ?thesis by (simp add: ends_with_def starts_with_iff)
qed

lemma direct_extension:
  "list_ex (ends_with url) direct_suffixes \<Longrightarrow>
   after_last_dot url \<in> {''pt'', ''pth'', ''onnx'', ''bin'', ''safetensors'', ''gguf''}"
  by (auto simp: direct_suffixes_def ends_with_iff after_last_dot_def)

lemma model_file_below:
  assumes "ext \<in> {''pt'', ''pth'', ''onnx'', ''bin'', ''safetensors'', ''gguf''}" "base \<noteq> []"
  shows "\<exists>rest. components (join_path base (''model.'' @ ext)) = components base @ rest \<and> list_all is_normal rest"
  using assms by (intro join_below) (auto simp: is_absolute_def)

lemma resolve_extension_cases: "resolve_extension url \<in> {''pt'', ''pth'', ''onnx'', ''bin'', ''safetensors'', ''gguf''}"
  by (simp add: resolve_extension_def)

lemma config_changes:
  assumes "cache \<noteq> []"
  shows "changes_below (components cache) d (snd (download_config E note cache d))"
proof -
  obtain rest where "components (join_path cache ''config.json'') = components cache @ rest" "list_all is_normal rest"
    using join_below [OF assms, of "''config.json''"] by (auto simp: is_absolute_def)
  then show ?thesis
    by (auto simp: download_config_def Let_def write_file_changes split: option.split sum.split prod.split)
qed

lemma repo_changes:
  assumes "target \<noteq> []" "\<And>fs. set (ce_order E fs) \<subseteq> set fs"
  shows "changes_below (components target) d (snd (download_huggingface_repo E repo_id target d))"
proof -
  have "changes_below (components target) d (download_files_concurrent E (ce_order E (repo_files repo_id target fs)) d)" for fs
    using assms(2) [of "repo_files repo_id target fs"] repo_files_below [OF assms(1)]
    by (intro download_files_changes) blast
  then show ?thesis by (auto simp: download_huggingface_repo_def split: sum.split)
qed

lemma download_model_changes:
  assumes "\<And>fs. set (ce_order E fs) \<subseteq> set fs"
  shows "changes_below (components (model_cache_dir i (cm_model_type m))) d (snd (download_model_async E i m d))"
proof -
  let ?c = "model_cache_dir i (cm_model_type m)" and ?u = "cm_url m"
  obtain r d1 where mk: "create_dir_all E (components ?c) d = (r, d1)" by fastforce
  have d1: "changes_below (components ?c) d d1" using create_dir_all_changes [of _ d E "components ?c"] mk by simp
  have saved: "changes_below (components ?c) d1 (snd (download_file_streaming E ?u (join_path ?c (''model.'' @ ext)) d1))"
    if ext: "ext \<in> {''pt'', ''pth'', ''onnx'', ''bin'', ''safetensors'', ''gguf''}" for ext
    using model_file_below [OF ext cache_dir_nonempty] streaming_changes by blast
  have config: "changes_below (components ?c) d' (snd (download_config E nt ?c d'))" for d' nt
    by (rule config_changes [OF cache_dir_nonempty])
  have repo: "changes_below (components ?c) d1 (snd (download_huggingface_repo E (repo_id_of ?u) ?c d1))"
    by (rule repo_changes [OF cache_dir_nonempty assms])
  show ?thesis
  proof (cases r)
    case (Inl e)
    then show ?thesis using d1 mk by (simp add: download_model_async_def Let_def)
  next
    case (Inr u)
    consider "?u = ''Built-in''" | "?u \<noteq> ''Built-in''" "contains ?u ''resolve''"
      | "?u \<noteq> ''Built-in''" "\<not> contains ?u ''resolve''" "starts_with ?u ''https://huggingface.co/''"
      | "?u \<noteq> ''Built-in''" "\<not> contains ?u ''resolve''" "\<not> starts_with ?u ''https://huggingface.co/''" by blast
    then show ?thesis
    proof cases
      case 2
      obtain q d2 where q: "download_file_streaming E ?u (join_path ?c (''model.'' @ resolve_extension ?u)) d1 = (q, d2)" by fastforce
      then have "changes_below (components ?c) d d2" using saved [OF resolve_extension_cases [of ?u]] d1 changes_trans by fastforce
      then show ?thesis using 2 Inr mk q config [of d2 "cm_note m"]
        by (auto simp: download_model_async_def Let_def split: sum.split intro: changes_trans)
    next
      case 3
      then show ?thesis using Inr mk repo d1 by (auto simp: download_model_async_def Let_def intro: changes_trans)
    next
      case 4
      then show ?thesis using Inr mk saved [OF direct_extension [of ?u]] d1
        by (auto simp: download_model_async_def Let_def intro: changes_trans)
    qed (use Inr mk d1 in \<open>simp add: download_model_async_def Let_def\<close>)
  qed
qed

section \<open>Properties\<close>

text \<open>
  Whatever repositories list and servers send, a run of download requests changes files only below the cache
  directory of a requested model of the catalogue: each file is that directory followed by plain names.
\<close>

theorem catalogue_confined:
  assumes "\<And>fs. set (ce_order E fs) \<subseteq> set fs"
    and "catalogue_run E c ids d = (as, d')" and "map_of (dk_files d') p \<noteq> map_of (dk_files d) p"
  shows "\<exists>i m rest. i \<in> set ids \<and> ct_models c i = Some m \<and>
    p = components (model_cache_dir i (cm_model_type m)) @ rest \<and> list_all is_normal rest"
  using assms(2,3)
proof (induction ids arbitrary: d as)
  case (Cons i ids)
  define a where "a = request_download c i d"
  define d1 where "d1 = (case a of Download_Initiated m \<Rightarrow> snd (download_model_async E i m d) | _ \<Rightarrow> d)"
  obtain bs where rest: "catalogue_run E c ids d1 = (bs, d')"
    using Cons.prems(1) by (auto simp: a_def [symmetric] d1_def [symmetric] Let_def split: prod.splits)
  show ?case
  proof (cases "map_of (dk_files d1) p = map_of (dk_files d) p")
    case True
    then show ?thesis using Cons.IH [OF rest] Cons.prems(2) by (simp del: map_of_eq_None_iff) blast
  next
    case False
    then obtain m where m: "a = Download_Initiated m" by (cases a) (auto simp: d1_def)
    then have c: "ct_models c i = Some m" by (auto simp: a_def request_download_def split: option.splits if_splits)
    have "changes_below (components (model_cache_dir i (cm_model_type m))) d d1"
      using download_model_changes [OF assms(1), of i m d] m by (simp add: d1_def)
    then show ?thesis using False c unfolding changes_below_def by (metis list.set_intros(1))
  qed
qed simp

definition tiny_model :: "string \<Rightarrow> catalogue_model" where
  "tiny_model url = \<lparr>cm_name = ''m'', cm_score = 0, cm_rank = 1, cm_size = [], cm_url = url, cm_architecture = [],
     cm_voices = [], cm_quality = [], cm_status = ''Available'', cm_note = None, cm_model_type = ''nlp'', cm_task = []\<rparr>"

definition broken_env :: catalogue_env where
  "broken_env = \<lparr>ce_parse_f32 = (\<lambda>s. None), ce_f32 = (\<lambda>n. 0), ce_show_number = (\<lambda>n. []),
     ce_fetch = (\<lambda>u. Inr \<lparr>hr_success = True, hr_length = None, hr_chunks = [Inr [1, 2], Inl ''reset''], hr_json = Inl ''no json''\<rparr>),
     ce_mkdir = (\<lambda>p. None), ce_create = (\<lambda>p. None), ce_order = (\<lambda>fs. fs)\<rparr>"

definition tiny_catalogue :: catalogue where
  "tiny_catalogue = \<lparr>ct_version = ''1'', ct_updated = [], ct_models = [''x'' \<mapsto> tiny_model ''https://h/m.onnx'']\<rparr>"

text \<open>A transfer that breaks leaves its first bytes, and from then on the model counts as downloaded.\<close>

lemma split_slash_step:
  "split_slash (c # cs) = (if c = CHR ''/'' then [] # split_slash cs else case split_slash cs of s # ss \<Rightarrow> (c # s) # ss)"
  by (cases "split_slash cs") (simp_all del: split_slash_nonempty, metis split_slash_nonempty)

lemma tiny_paths:
  "model_cache_dir ''x'' ''nlp'' = ''models/nlp/x''"
  "components ''models/nlp/x'' = [Normal ''models'', Normal ''nlp'', Normal ''x'']"
  "components (join_path ''models/nlp/x'' ''model.onnx'') = [Normal ''models'', Normal ''nlp'', Normal ''x'', Normal ''model.onnx'']"
  by (simp_all add: model_cache_dir_def join_path_def is_absolute_def components_def path_prefix_def parts_def
      part_component_def map_filter_simps split_slash_step del: split_slash.simps(2))

lemma tiny_url:
  "\<not> contains ''https://h/m.onnx'' ''resolve''" "list_ex (ends_with ''https://h/m.onnx'') direct_suffixes"
  "after_last_dot ''https://h/m.onnx'' = ''onnx''"
  by (simp_all add: direct_suffixes_def ends_with_def after_last_dot_def)

lemma broken_download_available:
  "fst (catalogue_run broken_env tiny_catalogue [''x'', ''x''] \<lparr>dk_files = [], dk_dirs = []\<rparr>) =
     [Download_Initiated (tiny_model ''https://h/m.onnx''), Already_Downloaded (tiny_model ''https://h/m.onnx'')] \<and>
   dk_files (snd (catalogue_run broken_env tiny_catalogue [''x''] \<lparr>dk_files = [], dk_dirs = []\<rparr>)) =
     [([Normal ''models'', Normal ''nlp'', Normal ''x'', Normal ''model.onnx''], [1, 2])]"
proof -
  let ?m = "tiny_model ''https://h/m.onnx''" and ?d = "\<lparr>dk_files = [], dk_dirs = []\<rparr> :: disk"
  let ?d' = "snd (download_model_async broken_env ''x'' ?m ?d)"
  have url: "cm_url ?m = ''https://h/m.onnx''" "cm_model_type ?m = ''nlp''" "cm_status ?m = ''Available''"
    by (simp_all add: tiny_model_def)
  have files: "dk_files ?d' = [([Normal ''models'', Normal ''nlp'', Normal ''x'', Normal ''model.onnx''], [1, 2])]"
    and dirs: "[Normal ''models'', Normal ''nlp'', Normal ''x''] \<in> set (dk_dirs ?d')"
    by (simp_all add: download_model_async_def url tiny_paths tiny_url create_dir_all_def broken_env_def
        download_file_streaming_def write_file_def Let_def)
  have "\<not> is_available ?d ''x'' ?m" by (simp add: is_available_def url)
  moreover have "is_available ?d' ''x'' ?m"
    using files dirs by (simp add: is_available_def url tiny_paths dir_has_entry_def)
  ultimately show ?thesis using files
    by (simp add: tiny_catalogue_def request_download_def Let_def)
qed

theorem catalogue_confined_witness:
  "\<exists>i m rest. i \<in> {''x''} \<and> ct_models tiny_catalogue i = Some m \<and>
     [Normal ''models'', Normal ''nlp'', Normal ''x'', Normal ''model.onnx''] = components (model_cache_dir i (cm_model_type m)) @ rest \<and> list_all is_normal rest"
proof -
  let ?d = "\<lparr>dk_files = [], dk_dirs = []\<rparr> :: disk"
  obtain as d' where run: "catalogue_run broken_env tiny_catalogue [''x''] ?d = (as, d')" by fastforce
  then have "dk_files d' = [([Normal ''models'', Normal ''nlp'', Normal ''x'', Normal ''model.onnx''], [1, 2])]" using broken_download_available by simp
  then have "map_of (dk_files d') ([Normal ''models'', Normal ''nlp'', Normal ''x'', Normal ''model.onnx'']) \<noteq> map_of (dk_files ?d) ([Normal ''models'', Normal ''nlp'', Normal ''x'', Normal ''model.onnx''])"
    by simp
  from catalogue_confined [OF _ run this] show ?thesis by (simp add: broken_env_def)
qed

text \<open>Files that a model needs may not be wanted: a vocabulary, and whatever has "test" in its name.\<close>

lemma needed_files_unwanted: "\<not> wanted_path ''vocab.txt'' \<and> \<not> wanted_path ''latest.safetensors''"
  by (simp add: wanted_path_def ends_with_def)

text \<open>Once the files are listed the download of a repository succeeds, whatever becomes of the files.\<close>

lemma repo_errors_ignored:
  "ce_fetch E (''https://huggingface.co/api/models/'' @ repo @ ''/tree/main'') = Inr reply \<Longrightarrow> hr_success reply \<Longrightarrow>
   hr_json reply = Inr (JArray fs) \<Longrightarrow> fst (download_huggingface_repo E repo target d) = Inr ()"
  by (simp add: download_huggingface_repo_def as_array_def)

text \<open>One entry that cannot be read empties the whole catalogue.\<close>

lemma bad_entry_empties:
  assumes "parse s = Inr (JObject ps)" "map_of ps ''models'' = Some (JObject ms)" "(i, JObject []) \<in> set ms"
  shows "from_json_str E parse s = ct_empty"
proof -
  have "model_of_json E (JObject []) = Inl ''missing field name''" by (simp add: model_of_json_def text_field_def)
  then have "\<nexists>r. mapR (\<lambda>(i, m). map_sum id (Pair i) (model_of_json E m)) ms = Inr r"
    using assms(3) by (fastforce simp: mapR_Inr_list_all2 in_set_conv_decomp list_all2_append1 list_all2_Cons1)
  then have "\<nexists>c. catalogue_of_json E (JObject ps) = Inr c" using assms(2) by (auto simp: catalogue_of_json_def bindR_Inr_iff)
  then show ?thesis using assms(1) by (auto simp: from_json_str_def split: sum.split)
qed

end
