(* ===== verification/WsAudio.thy ===== *)
theory WsAudio
  imports TtsPipeline TtsManager Value
begin

text \<open>
  The audio WebSocket (\<open>api/ws_audio.rs\<close>): one session speaks texts as streams of chunks and collects samples to
  transcribe. A session is a state machine driven by what \<open>select!\<close> picks: a tick of the heartbeat, a message of
  the client, or the next item of the speech stream. The receiver of a stream is the list of items the pipeline
  will still send; a send fails once the connection is gone, which \<open>sn_left\<close> says.
\<close>

section \<open>Messages\<close>

datatype client_msg =
    Tts string "string option" real
  | SttBegin u32
  | SttEnd

datatype server_msg =
    Ready
  | TtsMeta u32 string
  | TtsDone u64
  | Transcript string real bool
  | Error_Msg string

datatype frame = TextFrame server_msg | BinaryFrame "u8 list" | PingFrame "u8 list" | PongFrame "u8 list" | CloseFrame

text \<open>A message of the client, continuations joined; \<open>OtherFrame\<close> is a pong.\<close>

datatype ws_message = TextMessage string | BinaryMessage "u8 list" | PingMessage "u8 list" | CloseMessage | OtherFrame

text \<open>\<open>wa_parse\<close> reads JSON, \<open>wa_bad\<close> is its report on a text that is no message; a stream is what the pipeline sends.\<close>

record 'e ws_audio_env =
  wa_parse :: "string \<Rightarrow> val option"
  wa_f32 :: "number \<Rightarrow> real"
  wa_bad :: "string \<Rightarrow> string"
  wa_engine :: "string \<Rightarrow> 'e option"
  wa_default_engine :: "'e option"
  wa_stream :: "'e \<Rightarrow> string \<Rightarrow> synthesis_params \<Rightarrow> (string + audio_chunk) list"
  wa_transcribe :: "audio_data \<Rightarrow> string + string \<times> real"
  wa_bits :: "real \<Rightarrow> u8 list"
  wa_of_bits :: "u8 list \<Rightarrow> real"

definition default_sample_rate :: u32 where "default_sample_rate = 16000"

text \<open>A message is tagged by its \<open>type\<close>; a field of the wrong kind or out of range is refused.\<close>

definition opt_field :: "string \<Rightarrow> (val \<Rightarrow> 'a option) \<Rightarrow> 'a \<Rightarrow> val \<Rightarrow> 'a option" where
  "opt_field k f dflt v = (case vget k v of None \<Rightarrow> Some dflt | Some x \<Rightarrow> f x)"

definition as_u32 :: "val \<Rightarrow> u32 option" where
  "as_u32 v = Option.bind (as_u64 v) (\<lambda>n. if unat n < 2 ^ 32 then Some (ucast n) else None)"

definition as_real :: "(number \<Rightarrow> real) \<Rightarrow> val \<Rightarrow> real option" where
  "as_real f v = (case v of JNumber n \<Rightarrow> Some (f n) | _ \<Rightarrow> None)"

definition as_opt_str :: "val \<Rightarrow> string option option" where
  "as_opt_str v = (case v of JNull \<Rightarrow> Some None | JString s \<Rightarrow> Some (Some s) | _ \<Rightarrow> None)"

definition client_msg_of :: "(number \<Rightarrow> real) \<Rightarrow> val \<Rightarrow> client_msg option" where
  "client_msg_of f v =
     (case Option.bind (vget ''type'' v) as_str of
        None \<Rightarrow> None
      | Some t \<Rightarrow>
          if t = ''tts''
          then Option.bind (Option.bind (vget ''text'' v) as_str) (\<lambda>s.
               Option.bind (opt_field ''voice'' as_opt_str None v) (\<lambda>voice.
               map_option (Tts s voice) (opt_field ''speed'' (as_real f) 1 v)))
          else if t = ''stt_begin'' then map_option SttBegin (opt_field ''sample_rate'' as_u32 default_sample_rate v)
          else if t = ''stt_end'' then Some SttEnd
          else None)"

section \<open>The session\<close>

record tts_stream =
  ss_rx :: "(string + audio_chunk) list"
  ss_sent_meta :: bool
  ss_total_samples :: nat
  ss_sample_rate :: u32

datatype session_state = Idle_State | StreamingTts tts_stream | AccumulatingStt "real list" u32

record ws_session =
  sn_state :: session_state
  sn_out :: "frame list"
  sn_left :: "nat option"
  sn_open :: bool

definition ws_send :: "frame \<Rightarrow> ws_session \<Rightarrow> bool \<times> ws_session" where
  "ws_send f s =
     (case sn_left s of
        Some 0 \<Rightarrow> (False, s)
      | Some (Suc n) \<Rightarrow> (True, s\<lparr>sn_out := sn_out s @ [f], sn_left := Some n\<rparr>)
      | None \<Rightarrow> (True, s\<lparr>sn_out := sn_out s @ [f]\<rparr>))"

definition send_msg :: "server_msg \<Rightarrow> ws_session \<Rightarrow> ws_session" where
  "send_msg m s = snd (ws_send (TextFrame m) s)"

definition ws_break :: "ws_session \<Rightarrow> ws_session" where
  "ws_break s = (snd (ws_send CloseFrame s))\<lparr>sn_open := False\<rparr>"

definition send_or_break :: "frame \<Rightarrow> ws_session \<Rightarrow> ws_session" where
  "send_or_break f s = (case ws_send f s of (True, s) \<Rightarrow> s | (False, s) \<Rightarrow> ws_break s)"

definition MAX_STT_SAMPLES :: nat where "MAX_STT_SAMPLES = 30 * 60 * 16000"

definition start_tts :: "'e ws_audio_env \<Rightarrow> string \<Rightarrow> string option \<Rightarrow> real \<Rightarrow> ws_session \<Rightarrow> ws_session" where
  "start_tts E txt v speed s =
     (if is_blank txt then send_msg (Error_Msg ''text is empty'') s
      else case (case Option.bind v (wa_engine E) of Some e \<Rightarrow> Some e | None \<Rightarrow> wa_default_engine E) of
             None \<Rightarrow> send_msg (Error_Msg ''no TTS engine available'') s
           | Some e \<Rightarrow>
               s\<lparr>sn_state := StreamingTts \<lparr>ss_rx = wa_stream E e txt (sy_default\<lparr>sy_speed := speed, sy_voice := v\<rparr>),
                   ss_sent_meta = False, ss_total_samples = 0, ss_sample_rate = 24000\<rparr>\<rparr>)"

definition finish_stt :: "'e ws_audio_env \<Rightarrow> real list \<Rightarrow> u32 \<Rightarrow> ws_session \<Rightarrow> ws_session" where
  "finish_stt E samples rate s =
     (if samples = [] then send_msg (Error_Msg ''no audio received'') s
      else case wa_transcribe E \<lparr>ad_samples = samples, ad_sample_rate = rate, ad_channels = 1\<rparr> of
             Inr (txt, confidence) \<Rightarrow> send_msg (Transcript txt confidence True) s
           | Inl e \<Rightarrow> send_msg (Error_Msg e) s)"

fun f32_chunks :: "u8 list \<Rightarrow> u8 list list" where
  "f32_chunks (a # b # c # d # xs) = [a, b, c, d] # f32_chunks xs"
| "f32_chunks _ = []"

definition dispatch :: "'e ws_audio_env \<Rightarrow> client_msg \<Rightarrow> ws_session \<Rightarrow> ws_session" where
  "dispatch E m s =
     (case m of
        Tts txt v speed \<Rightarrow> start_tts E txt v speed s
      | SttBegin rate \<Rightarrow> s\<lparr>sn_state := AccumulatingStt [] rate\<rparr>
      | SttEnd \<Rightarrow>
          (case sn_state s of
             AccumulatingStt buf rate \<Rightarrow> finish_stt E buf rate (s\<lparr>sn_state := Idle_State\<rparr>)
           | _ \<Rightarrow> send_msg (Error_Msg ''not in STT session'') s))"

definition cap_message :: string where
  "cap_message = ''stt buffer cap exceeded (30 min limit) '' @ map char_of [226, 128, 148 :: nat] @ '' call stt_end''"

text \<open>Whether the session goes on, and the session.\<close>

definition handle_incoming :: "'e ws_audio_env \<Rightarrow> ws_message \<Rightarrow> ws_session \<Rightarrow> bool \<times> ws_session" where
  "handle_incoming E msg s =
     (case msg of
        TextMessage t \<Rightarrow>
          (True, case Option.bind (wa_parse E t) (client_msg_of (wa_f32 E)) of
                   Some m \<Rightarrow> dispatch E m s
                 | None \<Rightarrow> send_msg (Error_Msg (''bad message: '' @ wa_bad E t)) s)
      | BinaryMessage bin \<Rightarrow>
          (case sn_state s of
             AccumulatingStt buf rate \<Rightarrow>
               (let samples = map (wa_of_bits E) (f32_chunks bin)
                in if MAX_STT_SAMPLES < length buf + length samples
                   then (False, send_msg (Error_Msg cap_message) s)
                   else (True, s\<lparr>sn_state := AccumulatingStt (buf @ samples) rate\<rparr>))
           | _ \<Rightarrow> (True, s))
      | PingMessage d \<Rightarrow> ws_send (PongFrame d) s
      | CloseMessage \<Rightarrow> (False, s)
      | OtherFrame \<Rightarrow> (True, s))"

text \<open>The next item of the stream.\<close>

definition done_ms :: "tts_stream \<Rightarrow> u64" where
  "done_ms t = (word_of_nat (ss_total_samples t) * 1000) div ucast (max (ss_sample_rate t) 1)"

definition send_chunk :: "'e ws_audio_env \<Rightarrow> audio_chunk \<Rightarrow> tts_stream \<Rightarrow> ws_session \<Rightarrow> ws_session" where
  "send_chunk E c t s =
     (let t = t\<lparr>ss_total_samples := ss_total_samples t + length (ad_samples (ac_audio c))\<rparr>;
          s = s\<lparr>sn_state := StreamingTts t\<rparr>
      in send_or_break (BinaryFrame (to_f32_le (wa_bits E) c)) s)"

definition stream_item :: "'e ws_audio_env \<Rightarrow> tts_stream \<Rightarrow> ws_session \<Rightarrow> ws_session" where
  "stream_item E t s =
     (case ss_rx t of
        Inr c # rx \<Rightarrow>
          (let t = t\<lparr>ss_rx := rx\<rparr>
           in if ss_sent_meta t then send_chunk E c t s
              else let rate = ad_sample_rate (ac_audio c); t = t\<lparr>ss_sample_rate := rate\<rparr>
                   in case ws_send (TextFrame (TtsMeta rate ''pcm_f32le'')) s of
                        (False, s) \<Rightarrow> ws_break s
                      | (True, s) \<Rightarrow> send_chunk E c (t\<lparr>ss_sent_meta := True\<rparr>) s)
      | Inl e # rx \<Rightarrow> (send_msg (Error_Msg e) s)\<lparr>sn_state := Idle_State\<rparr>
      | [] \<Rightarrow> (send_msg (TtsDone (done_ms t)) s)\<lparr>sn_state := Idle_State\<rparr>)"

text \<open>What \<open>select!\<close> picks; \<open>Incoming None\<close> is the end of the connection or an error of it.\<close>

datatype ws_event = Tick | Incoming "ws_message option" | Item

definition ws_step :: "'e ws_audio_env \<Rightarrow> ws_event \<Rightarrow> ws_session \<Rightarrow> ws_session" where
  "ws_step E ev s =
     (if \<not> sn_open s then s
      else case ev of
             Tick \<Rightarrow> send_or_break (PingFrame [104, 98]) s
           | Incoming None \<Rightarrow> ws_break s
           | Incoming (Some m) \<Rightarrow> (case handle_incoming E m s of (True, s) \<Rightarrow> s | (False, s) \<Rightarrow> ws_break s)
           | Item \<Rightarrow> (case sn_state s of StreamingTts t \<Rightarrow> stream_item E t s | _ \<Rightarrow> s))"

definition ws_start :: "nat option \<Rightarrow> ws_session" where
  "ws_start left =
     (case ws_send (TextFrame Ready) \<lparr>sn_state = Idle_State, sn_out = [], sn_left = left, sn_open = True\<rparr> of
        (True, s) \<Rightarrow> s
      | (False, s) \<Rightarrow> s\<lparr>sn_open := False\<rparr>)"

definition ws_run :: "'e ws_audio_env \<Rightarrow> ws_event list \<Rightarrow> nat option \<Rightarrow> ws_session" where
  "ws_run E es left = fold (ws_step E) es (ws_start left)"

section \<open>What the client sees\<close>

text \<open>Whether a stream has been announced after the last one that was done.\<close>

fun announced :: "bool \<Rightarrow> frame list \<Rightarrow> bool" where
  "announced p [] = p"
| "announced p (TextFrame (TtsMeta r e) # fs) = announced True fs"
| "announced p (TextFrame (TtsDone d) # fs) = announced False fs"
| "announced p (f # fs) = announced p fs"

text \<open>Sound comes only in announced streams.\<close>

definition wire_ok :: "frame list \<Rightarrow> bool" where
  "wire_ok out \<longleftrightarrow> (\<forall>before b after. out = before @ BinaryFrame b # after \<longrightarrow> announced False before)"

definition ready_first :: "frame list \<Rightarrow> bool" where
  "ready_first out \<longleftrightarrow> out = [] \<or> hd out = TextFrame Ready"

lemma announced_append: "announced p (fs @ gs) = announced (announced p fs) gs"
  by (induction p fs rule: announced.induct) auto

lemma wire_ok_snoc: "wire_ok (fs @ [f]) \<longleftrightarrow> wire_ok fs \<and> (\<forall>b. f = BinaryFrame b \<longrightarrow> announced False fs)"
  unfolding wire_ok_def append_eq_append_conv2
  by (auto simp: append_eq_Cons_conv Cons_eq_append_conv) blast+

definition ws_inv :: "ws_session \<Rightarrow> bool" where
  "ws_inv s \<longleftrightarrow> wire_ok (sn_out s) \<and> ready_first (sn_out s) \<and> (sn_open s \<longrightarrow> sn_out s \<noteq> []) \<and>
     (case sn_state s of
        StreamingTts t \<Rightarrow> ss_sent_meta t \<longrightarrow> announced False (sn_out s)
      | AccumulatingStt buf rate \<Rightarrow> length buf \<le> MAX_STT_SAMPLES
      | Idle_State \<Rightarrow> True)"

text \<open>Frames that say nothing of a stream.\<close>

fun plain_frame :: "frame \<Rightarrow> bool" where
  "plain_frame (TextFrame (TtsMeta r e)) = False"
| "plain_frame (TextFrame (TtsDone d)) = False"
| "plain_frame (BinaryFrame b) = False"
| "plain_frame _ = True"

lemma announced_plain: "plain_frame f \<Longrightarrow> announced p (fs @ [f]) = announced p fs"
  by (cases f rule: plain_frame.cases) (auto simp: announced_append)

lemma ws_send_state [simp]:
  "sn_state (snd (ws_send f s)) = sn_state s" "sn_open (snd (ws_send f s)) = sn_open s"
  by (auto simp: ws_send_def split: option.split nat.split)

lemma ws_send_out:
  "ws_send f s = (b, s') \<Longrightarrow> sn_out s' = (if b then sn_out s @ [f] else sn_out s)"
  by (auto simp: ws_send_def split: option.splits nat.splits)

lemma send_plain_inv: "ws_inv s \<Longrightarrow> plain_frame f \<Longrightarrow> sn_open s \<Longrightarrow> ws_inv (snd (ws_send f s))"
proof -
  assume s: "ws_inv s" "plain_frame f" "sn_open s"
  obtain b s' where send: "ws_send f s = (b, s')" by fastforce
  have "sn_state s' = sn_state s" using ws_send_state(1) [of f s] send by simp
  moreover have "ready_first (sn_out s @ [f])" using s by (auto simp: ws_inv_def ready_first_def hd_append)
  ultimately show ?thesis
    using s ws_send_out [OF send] send announced_plain [OF s(2)]
    by (auto simp: ws_inv_def wire_ok_snoc split: session_state.splits)
qed

lemma ws_break_inv: "ws_inv s \<Longrightarrow> sn_open s \<Longrightarrow> ws_inv (ws_break s)"
  using send_plain_inv [of s CloseFrame] by (auto simp: ws_break_def ws_inv_def split: session_state.split)

lemma send_or_break_inv: "ws_inv s \<Longrightarrow> sn_open s \<Longrightarrow> plain_frame f \<Longrightarrow> ws_inv (send_or_break f s)"
  using send_plain_inv [of s f] ws_send_state(2) [of f s]
  by (cases "ws_send f s") (auto simp: send_or_break_def intro: ws_break_inv split: bool.split)

lemma send_msg_inv: "ws_inv s \<Longrightarrow> sn_open s \<Longrightarrow> plain_frame (TextFrame m) \<Longrightarrow> ws_inv (send_msg m s) \<and> sn_open (send_msg m s)"
  using send_plain_inv [of s "TextFrame m"] by (simp add: send_msg_def)

lemma set_state_inv:
  assumes "ws_inv s" "sn_open s"
    and "\<And>t. st = StreamingTts t \<Longrightarrow> ss_sent_meta t \<Longrightarrow> announced False (sn_out s)"
    and "\<And>buf rate. st = AccumulatingStt buf rate \<Longrightarrow> length buf \<le> MAX_STT_SAMPLES"
  shows "ws_inv (s\<lparr>sn_state := st\<rparr>) \<and> sn_open (s\<lparr>sn_state := st\<rparr>)"
  using assms by (auto simp: ws_inv_def split: session_state.split)

lemma set_stream_inv:
  "ws_inv s \<Longrightarrow> sn_open s \<Longrightarrow> ss_sent_meta t \<longrightarrow> announced False (sn_out s) \<Longrightarrow> ws_inv (s\<lparr>sn_state := StreamingTts t\<rparr>)"
  by (simp add: ws_inv_def)

lemma start_tts_inv: "ws_inv s \<Longrightarrow> sn_open s \<Longrightarrow> ws_inv (start_tts E txt v speed s) \<and> sn_open (start_tts E txt v speed s)"
  by (simp add: start_tts_def send_msg_inv set_stream_inv split: option.split)

lemma finish_stt_inv: "ws_inv s \<Longrightarrow> sn_open s \<Longrightarrow> ws_inv (finish_stt E b r s) \<and> sn_open (finish_stt E b r s)"
  by (auto simp: finish_stt_def send_msg_inv split: sum.split prod.split)

lemma dispatch_inv:
  assumes "ws_inv s" "sn_open s"
  shows "ws_inv (dispatch E m s) \<and> sn_open (dispatch E m s)"
proof (cases m)
  case (SttBegin rate)
  then show ?thesis using set_state_inv [OF assms, of "AccumulatingStt [] rate"] by (simp add: dispatch_def)
next
  case SttEnd
  have idle: "ws_inv (s\<lparr>sn_state := Idle_State\<rparr>) \<and> sn_open (s\<lparr>sn_state := Idle_State\<rparr>)"
    using set_state_inv [OF assms, of Idle_State] by simp
  then show ?thesis using SttEnd assms finish_stt_inv [of "s\<lparr>sn_state := Idle_State\<rparr>" E] send_msg_inv [OF assms]
    by (cases "sn_state s") (simp_all add: dispatch_def)
qed (use assms start_tts_inv in \<open>simp add: dispatch_def\<close>)

lemma handle_incoming_inv:
  assumes "ws_inv s" "sn_open s" "handle_incoming E msg s = (b, s')"
  shows "ws_inv s' \<and> sn_open s'"
proof (cases msg)
  case (TextMessage t)
  then show ?thesis using assms dispatch_inv [OF assms(1,2)] send_msg_inv [OF assms(1,2)]
    by (auto simp: handle_incoming_def split: option.splits)
next
  case (BinaryMessage bin)
  show ?thesis
  proof (cases "sn_state s")
    case (AccumulatingStt buf rate)
    then show ?thesis using assms BinaryMessage send_msg_inv [OF assms(1,2)]
      set_state_inv [OF assms(1,2), of "AccumulatingStt (buf @ map (wa_of_bits E) (f32_chunks bin)) rate"]
      by (auto simp: handle_incoming_def Let_def split: if_splits)
  qed (use assms BinaryMessage in \<open>auto simp: handle_incoming_def\<close>)
next
  case (PingMessage d)
  then show ?thesis using assms send_plain_inv [OF assms(1), of "PongFrame d"] ws_send_state(2) [of "PongFrame d" s]
    by (simp add: handle_incoming_def)
qed (use assms in \<open>auto simp: handle_incoming_def\<close>)

text \<open>A chunk is sent in an announced stream.\<close>

lemma send_chunk_inv:
  assumes "ws_inv s" "sn_open s" "announced False (sn_out s)"
  shows "ws_inv (send_chunk E c t s)"
proof -
  define u where "u = s\<lparr>sn_state := StreamingTts (t\<lparr>ss_total_samples := ss_total_samples t + length (ad_samples (ac_audio c))\<rparr>)\<rparr>"
  have u: "ws_inv u" "sn_open u" "sn_out u = sn_out s" using set_stream_inv [OF assms(1,2)] assms(3) by (simp_all add: u_def assms(2))
  let ?f = "BinaryFrame (to_f32_le (wa_bits E) c)"
  obtain b v where send: "ws_send ?f u = (b, v)" by fastforce
  have eq: "send_chunk E c t s = (if b then v else ws_break v)"
    using send by (simp add: send_chunk_def send_or_break_def Let_def u_def)
  have st: "sn_state v = sn_state u" "sn_open v = sn_open u" using ws_send_state [of ?f u] send by simp_all
  show ?thesis
  proof (cases b)
    case True
    have "ready_first (sn_out s @ [?f])" using assms(1,2) by (auto simp: ws_inv_def ready_first_def hd_append)
    then show ?thesis using eq True ws_send_out [OF send] u st assms(3)
      by (auto simp: ws_inv_def wire_ok_snoc announced_append split: session_state.splits)
  next
    case False
    then have "v = u" using send by (auto simp: ws_send_def split: option.splits nat.splits)
    then show ?thesis using eq False ws_break_inv [OF u(1,2)] by simp
  qed
qed

lemma send_meta_inv:
  assumes "ws_inv s" "sn_open s" "ws_send (TextFrame (TtsMeta r e)) s = (True, s')"
  shows "ws_inv s' \<and> sn_open s' \<and> announced False (sn_out s')"
proof -
  have st: "sn_state s' = sn_state s" "sn_open s' = sn_open s"
    using ws_send_state [of "TextFrame (TtsMeta r e)" s] assms(3) by simp_all
  have "ready_first (sn_out s @ [TextFrame (TtsMeta r e)])" using assms(1,2) by (auto simp: ws_inv_def ready_first_def hd_append)
  then show ?thesis using ws_send_out [OF assms(3)] assms(1,2) st
    by (auto simp: ws_inv_def wire_ok_snoc announced_append split: session_state.splits)
qed

lemma end_stream_inv:
  assumes "ws_inv s" "sn_open s" "\<And>b. f \<noteq> BinaryFrame b"
  shows "ws_inv ((snd (ws_send f s))\<lparr>sn_state := Idle_State\<rparr>)"
proof -
  obtain b v where send: "ws_send f s = (b, v)" by fastforce
  have "ready_first (sn_out s @ [f])" using assms(1,2) by (auto simp: ws_inv_def ready_first_def hd_append)
  then show ?thesis using send ws_send_out [OF send] ws_send_state(2) [of f s] assms
    by (auto simp: ws_inv_def wire_ok_snoc)
qed

lemma stream_item_inv:
  assumes "ws_inv s" "sn_open s" "sn_state s = StreamingTts t"
  shows "ws_inv (stream_item E t s)"
proof (cases "ss_rx t")
  case Nil
  then show ?thesis using end_stream_inv [OF assms(1,2)] by (simp add: stream_item_def send_msg_def)
next
  case (Cons i rx)
  show ?thesis
  proof (cases i)
    case (Inl e)
    then show ?thesis using Cons end_stream_inv [OF assms(1,2)] by (simp add: stream_item_def send_msg_def)
  next
    case (Inr c)
    show ?thesis
    proof (cases "ss_sent_meta t")
      case True
      then have "announced False (sn_out s)" using assms(1,3) by (simp add: ws_inv_def)
      then show ?thesis using Cons Inr True send_chunk_inv [OF assms(1,2)] by (simp add: stream_item_def)
    next
      case False
      let ?f = "TextFrame (TtsMeta (ad_sample_rate (ac_audio c)) ''pcm_f32le'')"
      obtain b v where send: "ws_send ?f s = (b, v)" by fastforce
      show ?thesis
      proof (cases b)
        case True
        then show ?thesis using Cons Inr False send send_meta_inv [OF assms(1,2)] send_chunk_inv [of v]
          by (simp add: stream_item_def Let_def)
      next
        case b: False
        then have "v = s" using send by (auto simp: ws_send_def split: option.splits nat.splits)
        then show ?thesis using Cons Inr False send b ws_break_inv [OF assms(1,2)]
          by (simp add: stream_item_def Let_def)
      qed
    qed
  qed
qed

lemma ws_step_inv: "ws_inv s \<Longrightarrow> ws_inv (ws_step E ev s)"
proof (cases "sn_open s")
  case op: True
  assume inv: "ws_inv s"
  show ?thesis
  proof (cases ev)
    case Tick
    then show ?thesis using op inv send_or_break_inv by (simp add: ws_step_def)
  next
    case (Incoming m)
    show ?thesis
    proof (cases m)
      case None
      then show ?thesis using Incoming op inv ws_break_inv by (simp add: ws_step_def)
    next
      case (Some msg)
      obtain b s' where h: "handle_incoming E msg s = (b, s')" by fastforce
      then show ?thesis using Incoming Some op handle_incoming_inv [OF inv op h] ws_break_inv
        by (cases b) (simp_all add: ws_step_def)
    qed
  next
    case Item
    then show ?thesis using op inv stream_item_inv by (auto simp: ws_step_def split: session_state.split)
  qed
qed (simp add: ws_step_def)

lemma ws_run_inv: "ws_inv (ws_run E es left)"
proof -
  have "ws_inv (ws_start left)"
    by (auto simp: ws_start_def ws_send_def ws_inv_def ready_first_def wire_ok_def Cons_eq_append_conv split: option.split nat.split)
  moreover have "ws_inv s \<Longrightarrow> ws_inv (fold (ws_step E) es s)" for s
    by (induction es arbitrary: s) (simp_all add: ws_step_inv)
  ultimately show ?thesis by (simp add: ws_run_def)
qed

section \<open>Properties\<close>

definition buffered :: "ws_session \<Rightarrow> nat" where
  "buffered s = (case sn_state s of AccumulatingStt buf rate \<Rightarrow> length buf | _ \<Rightarrow> 0)"


text \<open>The reply to \<open>stt_end\<close>.\<close>

definition stt_reply :: "'e ws_audio_env \<Rightarrow> real list \<Rightarrow> u32 \<Rightarrow> server_msg" where
  "stt_reply E samples rate =
     (if samples = [] then Error_Msg ''no audio received''
      else case wa_transcribe E \<lparr>ad_samples = samples, ad_sample_rate = rate, ad_channels = 1\<rparr> of
             Inr (txt, confidence) \<Rightarrow> Transcript txt confidence True | Inl e \<Rightarrow> Error_Msg e)"

lemma finish_stt_reply: "finish_stt E samples rate s = send_msg (stt_reply E samples rate) s"
  by (simp add: finish_stt_def stt_reply_def split: sum.split prod.split)

fun heard :: "'e ws_audio_env \<Rightarrow> ws_event \<Rightarrow> real list" where
  "heard E (Incoming (Some (BinaryMessage bin))) = map (wa_of_bits E) (f32_chunks bin)"
| "heard E _ = []"

fun pings :: "ws_event \<Rightarrow> frame list" where
  "pings Tick = [PingFrame [104, 98]]"
| "pings _ = []"

text \<open>Sound and ticks, the events of a recording.\<close>

fun recording :: "ws_event \<Rightarrow> bool" where
  "recording Tick = True"
| "recording (Incoming (Some (BinaryMessage bin))) = True"
| "recording _ = False"

lemma record_step:
  assumes "recording ev" "sn_open s" "sn_left s = None" "sn_state s = AccumulatingStt buf rate"
    "length (buf @ heard E ev) \<le> MAX_STT_SAMPLES"
  shows "ws_step E ev s = s\<lparr>sn_state := AccumulatingStt (buf @ heard E ev) rate, sn_out := sn_out s @ pings ev\<rparr>"
  using assms by (cases ev rule: recording.cases)
    (auto simp: ws_step_def send_or_break_def ws_send_def handle_incoming_def Let_def)

lemma record_run:
  assumes "list_all recording es" "sn_open s" "sn_left s = None" "sn_state s = AccumulatingStt buf rate"
    "length (buf @ concat (map (heard E) es)) \<le> MAX_STT_SAMPLES"
  shows "fold (ws_step E) es s =
    s\<lparr>sn_state := AccumulatingStt (buf @ concat (map (heard E) es)) rate, sn_out := sn_out s @ concat (map pings es)\<rparr>"
  using assms
proof (induction es arbitrary: s buf)
  case (Cons ev es)
  then show ?case by (simp add: record_step [of ev s buf rate])
qed simp

text \<open>
  C32. A recording is transcribed as it was sent: from \<open>stt_begin\<close> on, with ticks in between and within the cap,
  the samples of all binary frames in their order, and nothing else, are given to the recogniser at the announced
  rate, its answer is the one reply and the session is idle.
\<close>

theorem recording_transcribed:
  assumes "sn_open s" and "sn_left s = None" and "list_all recording es"
    and "length (concat (map (heard E) es)) \<le> MAX_STT_SAMPLES"
    and "Option.bind (wa_parse E b) (client_msg_of (wa_f32 E)) = Some (SttBegin rate)"
    and "Option.bind (wa_parse E t) (client_msg_of (wa_f32 E)) = Some SttEnd"
    and "s' = fold (ws_step E) (Incoming (Some (TextMessage b)) # es @ [Incoming (Some (TextMessage t))]) s"
  shows "sn_state s' = Idle_State \<and>
    sn_out s' = sn_out s @ concat (map pings es) @ [TextFrame (stt_reply E (concat (map (heard E) es)) rate)]"
proof -
  let ?s = "s\<lparr>sn_state := AccumulatingStt [] rate\<rparr>"
  have "ws_step E (Incoming (Some (TextMessage b))) s = ?s"
    using assms(1,5) by (simp add: ws_step_def handle_incoming_def dispatch_def)
  moreover have "fold (ws_step E) es ?s =
      ?s\<lparr>sn_state := AccumulatingStt (concat (map (heard E) es)) rate, sn_out := sn_out s @ concat (map pings es)\<rparr>"
    using record_run [of es ?s "[]" rate E] assms(1-4) by simp
  ultimately show ?thesis
    using assms(1,2,6,7) by (simp add: ws_step_def handle_incoming_def dispatch_def finish_stt_reply send_msg_def ws_send_def)
qed

definition echo_env :: "unit ws_audio_env" where
  "echo_env = \<lparr>wa_parse = (\<lambda>s. Some (JObject [(''type'', JString s)])), wa_f32 = (\<lambda>n. 0), wa_bad = id,
     wa_engine = (\<lambda>i. None), wa_default_engine = Some (),
     wa_stream = (\<lambda>e s p. [Inr \<lparr>ac_sentence_index = 0, ac_is_last = True,
        ac_audio = \<lparr>ad_samples = replicate 12 0, ad_sample_rate = 12000, ad_channels = 1\<rparr>\<rparr>]),
     wa_transcribe = (\<lambda>a. Inr (show_nat (length (ad_samples a)), 1)), wa_bits = (\<lambda>x. [0, 0, 0, 0]), wa_of_bits = (\<lambda>b. 0)\<rparr>"

theorem recording_transcribed_witness:
  "sn_out (fold (ws_step echo_env) [Incoming (Some (TextMessage ''stt_begin'')), Incoming (Some (BinaryMessage [0, 0, 0, 0])),
      Tick, Incoming (Some (BinaryMessage [0, 0, 0, 0, 7])), Incoming (Some (TextMessage ''stt_end''))] (ws_start None)) =
    [TextFrame Ready, PingFrame [104, 98], TextFrame (Transcript (show_nat 2) 1 True)]"
proof -
  have start: "ws_start None = \<lparr>sn_state = Idle_State, sn_out = [TextFrame Ready], sn_left = None, sn_open = True\<rparr>"
    by (simp add: ws_start_def ws_send_def)
  show ?thesis
    using recording_transcribed [OF _ _ _ _ _ _ refl, of "ws_start None"
        "[Incoming (Some (BinaryMessage [0, 0, 0, 0])), Tick, Incoming (Some (BinaryMessage [0, 0, 0, 0, 7]))]"
        echo_env "''stt_begin''" 16000 "''stt_end''"]
    by (simp add: start echo_env_def client_msg_of_def opt_field_def default_sample_rate_def MAX_STT_SAMPLES_def stt_reply_def
        numeral_2_eq_2 [symmetric])
qed

text \<open>A stream that nothing interrupts is announced, sent whole and closed with its length.\<close>

definition stream_frames :: "'e ws_audio_env \<Rightarrow> audio_chunk list \<Rightarrow> frame list" where
  "stream_frames E cs = map (\<lambda>c. BinaryFrame (to_f32_le (wa_bits E) c)) cs"

lemma stream_run:
  assumes "sn_open s" "sn_left s = None" "sn_state s = StreamingTts t" "ss_rx t = map Inr cs" "ss_sent_meta t"
  shows "fold (ws_step E) (replicate (Suc (length cs)) Item) s =
    s\<lparr>sn_state := Idle_State, sn_out := sn_out s @ stream_frames E cs @
      [TextFrame (TtsDone (done_ms (t\<lparr>ss_total_samples := ss_total_samples t + (\<Sum>c\<leftarrow>cs. length (ad_samples (ac_audio c)))\<rparr>)))]\<rparr>"
  using assms
proof (induction cs arbitrary: s t)
  case Nil
  then show ?case by (simp add: ws_step_def stream_item_def send_msg_def ws_send_def stream_frames_def)
next
  case (Cons c cs)
  let ?t = "t\<lparr>ss_rx := map Inr cs, ss_total_samples := ss_total_samples t + length (ad_samples (ac_audio c))\<rparr>"
  let ?s = "s\<lparr>sn_state := StreamingTts ?t, sn_out := sn_out s @ [BinaryFrame (to_f32_le (wa_bits E) c)]\<rparr>"
  have "ws_step E Item s = ?s"
    using Cons.prems by (simp add: ws_step_def stream_item_def send_chunk_def send_or_break_def ws_send_def Let_def)
  moreover have "fold (ws_step E) (replicate (Suc (length cs)) Item) ?s =
      ?s\<lparr>sn_state := Idle_State, sn_out := sn_out ?s @ stream_frames E cs @
        [TextFrame (TtsDone (done_ms (?t\<lparr>ss_total_samples := ss_total_samples ?t + (\<Sum>c\<leftarrow>cs. length (ad_samples (ac_audio c)))\<rparr>)))]\<rparr>"
    using Cons.prems by (intro Cons.IH) simp_all
  ultimately show ?case by (simp add: stream_frames_def done_ms_def add.assoc)
qed

text \<open>A request to record cuts a stream off: the client gets neither the rest nor the end of it.\<close>

lemma recording_cuts_speech:
  assumes "sn_open s" "sn_state s = StreamingTts t" "Option.bind (wa_parse E b) (client_msg_of (wa_f32 E)) = Some (SttBegin rate)"
  shows "ws_step E (Incoming (Some (TextMessage b))) s = s\<lparr>sn_state := AccumulatingStt [] rate\<rparr>"
  using assms by (simp add: ws_step_def handle_incoming_def dispatch_def)

text \<open>Over the cap the client is told to call \<open>stt_end\<close>, and the session is closed.\<close>

lemma cap_closes:
  assumes "sn_open s" "sn_state s = AccumulatingStt buf rate" "MAX_STT_SAMPLES < length buf + length (f32_chunks bin)"
  shows "\<not> sn_open (ws_step E (Incoming (Some (BinaryMessage bin))) s)"
  using assms by (simp add: ws_step_def handle_incoming_def Let_def ws_break_def)

text \<open>The bytes of a frame beyond the last whole sample are lost.\<close>

lemma split_sample_lost: "f32_chunks [a, b] @ f32_chunks [c, d] = [] \<and> f32_chunks ([a, b] @ [c, d]) = [[a, b, c, d]]"
  by simp

end
