(* ===== verification/LogFiles.thy ===== *)
theory LogFiles
  imports Paths Errors Utf8 Floats
begin

text \<open>
  The log endpoints (\<open>api/logging.rs\<close>): listing the log directory, reading a log file and emptying one. The
  file system is a map from the components of a path to a node; its errors are fields of \<open>log_env\<close>. A call that
  never returns is \<open>None\<close>.
\<close>

section \<open>Lines\<close>

abbreviation LF :: char where "LF \<equiv> CHR 0x0A"
abbreviation CR :: char where "CR \<equiv> CHR 0x0D"

text \<open>\<open>str::lines\<close>, and what \<open>BufRead::lines\<close> yields on the bytes of a file.\<close>

fun text_lines :: "string \<Rightarrow> string list" where
  "text_lines [] = []"
| "text_lines (c # cs) =
     (if c = LF then [] # text_lines cs
      else if c = CR \<and> cs \<noteq> [] \<and> hd cs = LF then [] # text_lines (tl cs)
      else case text_lines cs of [] \<Rightarrow> [[c]] | l # ls \<Rightarrow> (c # l) # ls)"

fun join_lines :: "string list \<Rightarrow> string" where
  "join_lines [] = []"
| "join_lines [l] = l"
| "join_lines (l # ls) = l @ LF # join_lines ls"

definition not_utf8 :: string where "not_utf8 = ''stream did not contain valid UTF-8''"

text \<open>An open file as \<open>lines\<close> reads it: a directory opens, and every read of it fails.\<close>

datatype log_node = LogText string | LogDir

datatype line_reader = Reader "(string + string) list" | Failing string

definition line_item :: "string \<Rightarrow> string + string" where
  "line_item l = (if utf8_valid l then Inr l else Inl not_utf8)"

record log_env =
  lv_names :: "(component list \<Rightarrow> log_node option) \<Rightarrow> string list option"
  lv_stat :: "component list \<Rightarrow> string option"
  lv_dir_size :: "component list \<Rightarrow> u64"
  lv_modified :: "component list \<Rightarrow> string option"
  lv_open :: "component list \<Rightarrow> string option"
  lv_dir_error :: string
  lv_write :: "component list \<Rightarrow> (string \<times> nat option) option"
  lv_now :: string
  lv_level :: "string option"

type_synonym log_store = "component list \<Rightarrow> log_node option"

definition open_lines :: "log_env \<Rightarrow> component list \<Rightarrow> log_node \<Rightarrow> string + line_reader" where
  "open_lines E p n =
     (case lv_open E p of
        Some e \<Rightarrow> Inl e
      | None \<Rightarrow> Inr (case n of LogText s \<Rightarrow> Reader (map line_item (text_lines s)) | LogDir \<Rightarrow> Failing (lv_dir_error E)))"

fun next_line :: "line_reader \<Rightarrow> ((string + string) \<times> line_reader) option" where
  "next_line (Reader []) = None"
| "next_line (Reader (l # ls)) = Some (l, Reader ls)"
| "next_line (Failing e) = Some (Inl e, Failing e)"

partial_function (option) count_items :: "nat \<Rightarrow> line_reader \<Rightarrow> nat option" where
  "count_items n r = (case next_line r of None \<Rightarrow> Some n | Some (l, r') \<Rightarrow> count_items (n + 1) r')"

definition count_lines :: "log_env \<Rightarrow> component list \<Rightarrow> log_node \<Rightarrow> (string + nat) option" where
  "count_lines E p n = (case open_lines E p n of Inl e \<Rightarrow> Some (Inl e) | Inr r \<Rightarrow> map_option Inr (count_items 0 r))"

text \<open>\<open>collect\<close> into a \<open>Result\<close> stops at the first error.\<close>

partial_function (option) collect_items :: "string list \<Rightarrow> line_reader \<Rightarrow> (string + string list) option" where
  "collect_items acc r =
     (case next_line r of
        None \<Rightarrow> Some (Inr acc)
      | Some (Inl e, r') \<Rightarrow> Some (Inl e)
      | Some (Inr l, r') \<Rightarrow> collect_items (acc @ [l]) r')"

definition select_lines :: "bool \<Rightarrow> nat \<Rightarrow> string list \<Rightarrow> string list" where
  "select_lines from_end n ls =
     (if from_end then (if n < length ls then drop (length ls - n) ls else ls)
      else (if n < length ls then take n ls else ls))"

definition read_lines_from_file :: "log_env \<Rightarrow> component list \<Rightarrow> log_node \<Rightarrow> int \<Rightarrow> bool \<Rightarrow> (api_error + string) option" where
  "read_lines_from_file E p n lines from_end =
     (case open_lines E p n of
        Inl e \<Rightarrow> Some (Inl (InternalError (''Failed to open file: '' @ e)))
      | Inr r \<Rightarrow>
          (case collect_items [] r of
             None \<Rightarrow> None
           | Some (Inl e) \<Rightarrow> Some (Inl (InternalError (''Failed to read lines: '' @ e)))
           | Some (Inr ls) \<Rightarrow> Some (Inr (join_lines (select_lines from_end (nat lines) ls)))))"

definition read_to_string :: "log_env \<Rightarrow> component list \<Rightarrow> log_node \<Rightarrow> string + string" where
  "read_to_string E p n =
     (case lv_open E p of
        Some e \<Rightarrow> Inl e
      | None \<Rightarrow> (case n of LogText s \<Rightarrow> (if utf8_valid s then Inr s else Inl not_utf8) | LogDir \<Rightarrow> Inl (lv_dir_error E)))"

section \<open>Endpoints\<close>

definition is_valid_log_filename :: "string \<Rightarrow> bool" where
  "is_valid_log_filename f \<longleftrightarrow>
     contains f ''.log'' \<and> \<not> contains f ''/'' \<and> \<not> contains f [CHR 0x5C] \<and> \<not> contains f ''..''"

definition log_path :: "string \<Rightarrow> component list" where
  "log_path f = components (join_path ''logs'' f)"

record log_file_info =
  lf_name :: string
  lf_path :: string
  lf_size_bytes :: u64
  lf_size_mb :: real
  lf_line_count :: nat
  lf_modified :: string

record logging_info =
  li_log_directory :: string
  li_log_level :: string
  li_available_log_files :: "log_file_info list"
  li_total_log_size_mb :: real

record log_file_content =
  lc_file_name :: string
  lc_content :: string
  lc_line_count :: nat
  lc_total_lines :: nat
  lc_from_end :: bool

record clear_log_response =
  lr_success :: bool
  lr_message :: string
  lr_original_size_bytes :: u64
  lr_original_size_mb :: real

definition node_size :: "log_env \<Rightarrow> component list \<Rightarrow> log_node \<Rightarrow> u64" where
  "node_size E p n = (case n of LogText s \<Rightarrow> word_of_nat (length s) | LogDir \<Rightarrow> lv_dir_size E p)"

definition size_mb :: "rnd \<Rightarrow> u64 \<Rightarrow> real" where
  "size_mb fl n = fl (fl (real (unat n)) / (1024 * 1024))"

text \<open>What the listing does with one entry of the directory: nothing, or an entry of the answer.\<close>

definition log_file_entry :: "rnd \<Rightarrow> log_env \<Rightarrow> log_store \<Rightarrow> string \<Rightarrow> log_file_info option option" where
  "log_file_entry fl E fs name =
     (let p = log_path name
      in if \<not> contains name ''.log'' then Some None
         else case fs p of
                None \<Rightarrow> Some None
              | Some n \<Rightarrow>
                  if lv_stat E p \<noteq> None then Some None
                  else case count_lines E p n of
                         None \<Rightarrow> None
                       | Some c \<Rightarrow>
                           Some (Some \<lparr>lf_name = name, lf_path = join_path ''logs'' name,
                             lf_size_bytes = node_size E p n, lf_size_mb = size_mb fl (node_size E p n),
                             lf_line_count = (case c of Inr k \<Rightarrow> k | Inl e \<Rightarrow> 0),
                             lf_modified = (case lv_modified E p of Some t \<Rightarrow> t | None \<Rightarrow> ''Unknown'')\<rparr>))"

fun log_file_entries :: "rnd \<Rightarrow> log_env \<Rightarrow> log_store \<Rightarrow> string list \<Rightarrow> log_file_info list option" where
  "log_file_entries fl E fs [] = Some []"
| "log_file_entries fl E fs (n # ns) =
     (case log_file_entry fl E fs n of
        None \<Rightarrow> None
      | Some i \<Rightarrow> map_option (\<lambda>is. (case i of None \<Rightarrow> is | Some i \<Rightarrow> i # is)) (log_file_entries fl E fs ns))"

definition get_logging_info :: "rnd \<Rightarrow> log_env \<Rightarrow> log_store \<Rightarrow> logging_info option" where
  "get_logging_info fl E fs =
     (let level = (case lv_level E of Some l \<Rightarrow> l | None \<Rightarrow> ''info'');
          names = (if fs [Normal ''logs''] = Some LogDir then (case lv_names E fs of Some ns \<Rightarrow> ns | None \<Rightarrow> []) else [])
      in map_option (\<lambda>is. \<lparr>li_log_directory = ''logs'', li_log_level = level,
             li_available_log_files = sort_key lf_name is,
             li_total_log_size_mb = size_mb fl (sum_list (map lf_size_bytes is))\<rparr>)
           (log_file_entries fl E fs names))"

definition get_log_file ::
    "log_env \<Rightarrow> log_store \<Rightarrow> string \<Rightarrow> int option \<Rightarrow> bool option \<Rightarrow> (api_error + log_file_content) option" where
  "get_log_file E fs f lines_opt end_opt =
     (let lines = (case lines_opt of Some n \<Rightarrow> n | None \<Rightarrow> 100);
          from_end = (case end_opt of Some b \<Rightarrow> b | None \<Rightarrow> True)
      in if \<not> is_valid_log_filename f then Some (Inl (BadRequest ''Invalid log file name''))
         else case fs (log_path f) of
                None \<Rightarrow> Some (Inl (NotFound (''Log file not found: '' @ f)))
              | Some n \<Rightarrow>
                  (case (if lines \<le> 0
                         then Some (case read_to_string E (log_path f) n of
                                      Inl e \<Rightarrow> Inl (InternalError (''Failed to read log file: '' @ e)) | Inr s \<Rightarrow> Inr s)
                         else read_lines_from_file E (log_path f) n lines from_end) of
                     None \<Rightarrow> None
                   | Some (Inl e) \<Rightarrow> Some (Inl e)
                   | Some (Inr content) \<Rightarrow>
                       map_option (\<lambda>c. Inr \<lparr>lc_file_name = f, lc_content = content,
                           lc_line_count = length (text_lines content),
                           lc_total_lines = (case c of Inr k \<Rightarrow> k | Inl e \<Rightarrow> 0), lc_from_end = from_end\<rparr>)
                         (count_lines E (log_path f) n)))"

definition clear_message :: "log_env \<Rightarrow> string" where
  "clear_message E = ''# Log file cleared at '' @ lv_now E @ [LF]"

definition clear_log_file :: "rnd \<Rightarrow> log_env \<Rightarrow> string \<Rightarrow> log_store \<Rightarrow> (api_error + clear_log_response) \<times> log_store" where
  "clear_log_file fl E f fs =
     (if \<not> is_valid_log_filename f then (Inl (BadRequest ''Invalid log file name''), fs)
      else case fs (log_path f) of
             None \<Rightarrow> (Inl (NotFound (''Log file not found: '' @ f)), fs)
           | Some n \<Rightarrow>
               (case lv_stat E (log_path f) of
                  Some e \<Rightarrow> (Inl (InternalError (''Failed to get file metadata: '' @ e)), fs)
                | None \<Rightarrow>
                    let size = node_size E (log_path f) n;
                        failed = (\<lambda>e. Inl (InternalError (''Failed to clear log file: '' @ e)))
                    in case n of
                         LogDir \<Rightarrow> (failed (lv_dir_error E), fs)
                       | LogText s \<Rightarrow>
                           (case lv_write E (log_path f) of
                              Some (e, None) \<Rightarrow> (failed e, fs)
                            | Some (e, Some k) \<Rightarrow> (failed e, fs(log_path f \<mapsto> LogText (take k (clear_message E))))
                            | None \<Rightarrow>
                                (Inr \<lparr>lr_success = True, lr_message = ''Log file '' @ f @ '' cleared successfully'',
                                   lr_original_size_bytes = size, lr_original_size_mb = size_mb fl size\<rparr>,
                                 fs(log_path f \<mapsto> LogText (clear_message E))))))"

section \<open>Facts\<close>

lemma count_items_reader [simp]: "count_items n (Reader ls) = Some (n + length ls)"
  by (induction ls arbitrary: n) (simp_all add: count_items.simps)

text \<open>Reading a directory fails line after line: the count never ends.\<close>

lemma count_items_failing [simp]: "count_items n (Failing e) = None"
proof -
  have "r \<noteq> Failing e" if "count_items n r = Some k" for n r k
  proof (rule count_items.raw_induct [where P = "\<lambda>n r k. r \<noteq> Failing e", OF _ that], rule notI)
    fix g n r k
    assume IH: "\<And>n r k. g n r = Some k \<Longrightarrow> r \<noteq> Failing e"
      and body: "(case next_line r of None \<Rightarrow> Some n | Some (l, r') \<Rightarrow> g (n + 1) r') = Some k" and "r = Failing e"
    then have "g (n + 1) (Failing e) = Some k" by simp
    then show False using IH by blast
  qed
  then show ?thesis by (metis not_None_eq)
qed

lemma collect_items_reader [simp]:
  "collect_items acc (Reader ls) = Some (case mapR (\<lambda>x. x) ls of Inl e \<Rightarrow> Inl e | Inr xs \<Rightarrow> Inr (acc @ xs))"
proof (induction ls arbitrary: acc)
  case (Cons l ls)
  then show ?case
    by (subst collect_items.simps) (auto simp: bindR_def split: sum.splits)
qed (simp add: collect_items.simps)

lemma collect_items_failing [simp]: "collect_items acc (Failing e) = Some (Inl e)"
  by (simp add: collect_items.simps)

lemma split_slash_plain: "CHR ''/'' \<notin> set p \<Longrightarrow> split_slash p = [p]"
  by (induction p) auto

lemma contains_char: "contains s [c] \<longleftrightarrow> c \<in> set s"
  by (simp add: contains_iff in_set_conv_decomp)

definition log_area :: "component list set" where
  "log_area = {[Normal ''logs'', Normal n] | n. contains n ''.log''}"

lemma log_path_valid:
  assumes "is_valid_log_filename f"
  shows "log_path f = [Normal ''logs'', Normal f]"
proof -
  have slash: "CHR ''/'' \<notin> set f" and ext: "contains f ''.log''"
    using assms by (auto simp: is_valid_log_filename_def contains_char)
  have "f \<noteq> []" "f \<noteq> ''.''" "f \<noteq> ''..''" using ext by auto
  then have "parts f = [Normal f]"
    using slash by (simp add: parts_def split_slash_plain map_filter_def part_component_def)
  moreover have "\<not> is_absolute f" using slash by (cases f) (auto simp: is_absolute_def)
  moreover have "components ''logs'' = [Normal ''logs'']"
    by (simp add: components_def path_prefix_def parts_def map_filter_def part_component_def)
  ultimately show ?thesis by (simp add: log_path_def components_join)
qed

lemma valid_in_area: "is_valid_log_filename f \<Longrightarrow> log_path f \<in> log_area"
  by (auto simp: log_path_valid log_area_def is_valid_log_filename_def)

lemma mapR_line_item: "mapR line_item ls = (if list_all utf8_valid ls then Inr ls else Inl not_utf8)"
  by (induction ls) (simp_all add: line_item_def bindR_def)

lemma mapR_id_map: "mapR (\<lambda>x. x) (map g ls) = mapR g ls"
  by (induction ls) simp_all

text \<open>Every call of the file endpoint returns, on a directory too.\<close>

lemma get_log_file_returns: "get_log_file E fs f lines from_end \<noteq> None"
proof -
  have read: "read_lines_from_file E p n k b \<noteq> None" for p n k b
    by (simp add: read_lines_from_file_def open_lines_def split: option.split log_node.split sum.split)
  have "count_lines E p (LogText s) \<noteq> None" for p s
    by (simp add: count_lines_def open_lines_def split: option.split)
  moreover have "read_lines_from_file E p LogDir k b = Some (Inr c) \<Longrightarrow> count_lines E p LogDir \<noteq> None" for p k b c
    by (simp add: read_lines_from_file_def open_lines_def split: option.splits)
  moreover have "read_to_string E p LogDir \<noteq> Inr c" for p c
    by (simp add: read_to_string_def split: option.split)
  ultimately show ?thesis
    using read unfolding get_log_file_def Let_def
    by (auto split: option.splits sum.splits log_node.splits)
      (metis (no_types) log_node.exhaust option.distinct(1))+
qed

text \<open>The listing returns unless a directory among the entries has the name of a log file.\<close>

lemma log_file_entry_returns:
  "log_file_entry fl E fs name = None \<longleftrightarrow>
     contains name ''.log'' \<and> fs (log_path name) = Some LogDir \<and>
     lv_stat E (log_path name) = None \<and> lv_open E (log_path name) = None"
  by (auto simp: log_file_entry_def count_lines_def open_lines_def Let_def split: option.splits log_node.splits)

lemma log_file_entries_returns:
  "log_file_entries fl E fs ns = None \<longleftrightarrow> (\<exists>n\<in>set ns. log_file_entry fl E fs n = None)"
  by (induction ns) (auto split: option.splits)

lemma listing_hangs:
  assumes "fs [Normal ''logs''] = Some LogDir" "lv_names E fs = Some ns" "n \<in> set ns" "contains n ''.log''"
    "fs (log_path n) = Some LogDir" "lv_stat E (log_path n) = None" "lv_open E (log_path n) = None"
  shows "get_logging_info fl E fs = None"
proof -
  have "log_file_entries fl E fs ns = None"
    using assms(3-7) log_file_entries_returns log_file_entry_returns by metis
  then show ?thesis by (simp add: get_logging_info_def assms(1,2))
qed

text \<open>Lines of a text.\<close>

lemma text_lines_plain: "LF \<notin> set l \<Longrightarrow> l \<noteq> [] \<Longrightarrow> text_lines l = [l]"
proof (induction l)
  case (Cons c cs)
  then show ?case by (cases cs) auto
qed simp

lemma text_lines_cons: "LF \<notin> set l \<Longrightarrow> CR \<notin> set l \<Longrightarrow> text_lines (l @ LF # s) = l # text_lines s"
  by (induction l) (auto simp: hd_append)

lemma text_lines_join:
  assumes "list_all (\<lambda>l. LF \<notin> set l \<and> CR \<notin> set l) ls" "ls \<noteq> []" "last ls \<noteq> []"
  shows "text_lines (join_lines ls) = ls"
  using assms by (induction ls rule: join_lines.induct) (simp_all add: text_lines_plain text_lines_cons)

text \<open>An empty line at the end of what is returned is not counted.\<close>

lemma empty_line_uncounted: "select_lines True 1 (text_lines [CHR ''a'', LF, LF]) = [[]] \<and> text_lines (join_lines [[]]) = []"
  by (simp add: select_lines_def)

text \<open>The last \<open>n\<close> lines, or the first.\<close>

definition wanted :: "bool \<Rightarrow> nat \<Rightarrow> string list \<Rightarrow> string list" where
  "wanted from_end n ls = (if from_end then rev (take n (rev ls)) else take n ls)"

lemma select_lines_wanted: "select_lines from_end n ls = wanted from_end n ls"
  by (simp add: select_lines_def wanted_def take_rev)

lemma collect_texts:
  "collect_items [] (Reader (map line_item ls)) = Some (if list_all utf8_valid ls then Inr ls else Inl not_utf8)"
  using mapR_line_item [of ls] by (simp add: mapR_id_map [of line_item, unfolded id_def])

section \<open>Properties\<close>

datatype log_request = ListLogs | ReadLog string "int option" "bool option" | ClearLog string

definition log_step :: "rnd \<Rightarrow> log_env \<Rightarrow> log_request \<Rightarrow> log_store \<Rightarrow> log_store" where
  "log_step fl E r fs = (case r of ClearLog f \<Rightarrow> snd (clear_log_file fl E f fs) | _ \<Rightarrow> fs)"

text \<open>Which files a request may have changed.\<close>

definition unchanged_outside :: "component list set \<Rightarrow> log_store \<Rightarrow> log_store \<Rightarrow> bool" where
  "unchanged_outside A fs fs' \<longleftrightarrow>
     (\<forall>p. fs' p \<noteq> fs p \<longrightarrow> p \<in> A \<and> (\<exists>s. fs p = Some (LogText s)) \<and> (\<exists>s. fs' p = Some (LogText s)))"

lemma clear_unchanged: "unchanged_outside log_area fs (snd (clear_log_file fl E f fs))"
  by (auto simp: unchanged_outside_def clear_log_file_def Let_def valid_in_area
      split: option.splits log_node.splits if_splits)

lemma unchanged_trans:
  "unchanged_outside A fs gs \<Longrightarrow> unchanged_outside A gs hs \<Longrightarrow> unchanged_outside A fs hs"
  unfolding unchanged_outside_def by metis

lemma step_unchanged: "unchanged_outside log_area fs (log_step fl E r fs)"
  using clear_unchanged by (cases r) (auto simp: log_step_def unchanged_outside_def)

text \<open>
  C33. Whatever names a client asks for, and in whatever order: a run of log requests changes nothing but texts
  directly in the log directory whose names hold \<open>.log\<close>, and what reading a log returns depends on those files
  alone.
\<close>

theorem log_endpoints_confined:
  "unchanged_outside log_area fs (fold (log_step fl E) rs fs) \<and>
   get_log_file E fs f lines from_end = get_log_file E (fs |` log_area) f lines from_end"
proof
  show "unchanged_outside log_area fs (fold (log_step fl E) rs fs)"
  proof (induction rs arbitrary: fs)
    case (Cons r rs)
    show ?case using unchanged_trans [OF step_unchanged Cons.IH] by simp
  qed (simp add: unchanged_outside_def)
  have "(fs |` log_area) (log_path f) = fs (log_path f)" if "is_valid_log_filename f"
    using valid_in_area [OF that] by (simp add: restrict_map_def)
  then show "get_log_file E fs f lines from_end = get_log_file E (fs |` log_area) f lines from_end"
    by (cases "is_valid_log_filename f") (simp_all only: get_log_file_def Let_def if_True if_False not_True_eq_False not_False_eq_True)
qed

text \<open>A readable log gives the lines asked for, and its length.\<close>

lemma log_file_lines:
  assumes "is_valid_log_filename f" "fs (log_path f) = Some (LogText s)" "lv_open E (log_path f) = None"
    and "list_all utf8_valid (text_lines s)" "0 < n"
  shows "\<exists>c. get_log_file E fs f (Some n) (Some from_end) = Some (Inr c) \<and>
    lc_content c = join_lines (wanted from_end (nat n) (text_lines s)) \<and> lc_total_lines c = length (text_lines s)"
  using assms by (simp add: get_log_file_def read_lines_from_file_def open_lines_def count_lines_def collect_texts
      select_lines_wanted del: collect_items_reader)

text \<open>An emptied log holds one line, and its length before is in the answer.\<close>

lemma cleared_log:
  assumes "clear_log_file fl E f fs = (Inr r, fs')" "LF \<notin> set (lv_now E)" "CR \<notin> set (lv_now E)"
  shows "\<exists>s. fs (log_path f) = Some (LogText s) \<and> lr_original_size_bytes r = word_of_nat (length s) \<and>
    (\<exists>t. fs' (log_path f) = Some (LogText t) \<and> text_lines t = [''# Log file cleared at '' @ lv_now E])"
proof -
  have "text_lines (clear_message E) = [''# Log file cleared at '' @ lv_now E]"
    using text_lines_cons [of "''# Log file cleared at '' @ lv_now E" "[]"] assms(2,3) by (simp add: clear_message_def)
  with assms(1) show ?thesis
    by (auto simp: clear_log_file_def Let_def node_size_def split: option.splits log_node.splits if_splits)
qed

end
