(* ===== verification/ImagePipeline.thy ===== *)
theory ImagePipeline
  imports Postprocess TensorPool
begin

text \<open>
  From the bytes of an image to the tensor of a model (\<open>core/image_pipeline.rs\<close>), and the ONNX classifier
  (\<open>core/ort_classify.rs\<close>). Decoders and the resizer are the fields of \<open>image_lib\<close>, a session of the model is a
  function; a tensor is its data in memory order beside its sizes. \<open>None\<close> is a panic.
\<close>

section \<open>Preprocessing\<close>

record preprocess_config =
  pc_width :: u32
  pc_height :: u32
  pc_mean :: "real list"
  pc_std :: "real list"

definition pc_imagenet :: "rnd \<Rightarrow> u32 \<Rightarrow> u32 \<Rightarrow> preprocess_config" where
  "pc_imagenet fl w h = \<lparr>pc_width = w, pc_height = h,
     pc_mean = map fl [485 / 1000, 456 / 1000, 406 / 1000], pc_std = map fl [229 / 1000, 224 / 1000, 225 / 1000]\<rparr>"

definition pc_identity :: "u32 \<Rightarrow> u32 \<Rightarrow> preprocess_config" where
  "pc_identity w h = \<lparr>pc_width = w, pc_height = h, pc_mean = [0, 0, 0], pc_std = [1, 1, 1]\<rparr>"

text \<open>\<open>il_simd\<close> is the feature \<open>simd-image\<close>; the JPEG decoder may know no dimensions.\<close>

record image_lib =
  il_simd :: bool
  il_jpeg :: "u8 list \<Rightarrow> string + u8 list \<times> (u16 \<times> u16) option"
  il_generic :: "u8 list \<Rightarrow> string + u8 list \<times> u32 \<times> u32"
  il_resize :: "u8 list \<Rightarrow> u32 \<Rightarrow> u32 \<Rightarrow> u32 \<Rightarrow> u32 \<Rightarrow> string + u8 list"

definition decode_jpeg_zune :: "image_lib \<Rightarrow> u8 list \<Rightarrow> string + u8 list \<times> u32 \<times> u32" where
  "decode_jpeg_zune I data =
     (case il_jpeg I data of
        Inl e \<Rightarrow> Inl (''zune-jpeg decode error: '' @ e)
      | Inr (pixels, None) \<Rightarrow> Inl ''zune-jpeg: no dimensions after decode''
      | Inr (pixels, Some (w, h)) \<Rightarrow> Inr (pixels, ucast w, ucast h))"

definition decode_to_hwc_rgb :: "image_lib \<Rightarrow> u8 list \<Rightarrow> string + u8 list \<times> u32 \<times> u32" where
  "decode_to_hwc_rgb I data =
     (let is_jpeg = (3 \<le> length data \<and> data ! 0 = 0xFF \<and> data ! 1 = 0xD8 \<and> data ! 2 = 0xFF)
      in if il_simd I \<and> is_jpeg then decode_jpeg_zune I data else il_generic I data)"

definition resize_hwc :: "image_lib \<Rightarrow> u8 list \<Rightarrow> u32 \<Rightarrow> u32 \<Rightarrow> u32 \<Rightarrow> u32 \<Rightarrow> string + u8 list \<times> u32 \<times> u32" where
  "resize_hwc I src src_w src_h dst_w dst_h =
     (if src_w = 0 \<or> src_h = 0 then Inl ''resize: zero src dimension''
      else if dst_w = 0 \<or> dst_h = 0 then Inl ''resize: zero dst dimension''
      else map_sum (\<lambda>e. ''fast_image_resize '' @ e) (\<lambda>out. (out, dst_w, dst_h)) (il_resize I src src_w src_h dst_w dst_h))"

text \<open>
  \<open>pod_align_to_mut\<close> splits a slice where the alignment of its address allows: \<open>a\<close> floats before, then groups of
  eight, then the rest.
\<close>

fun lanes8 :: "'a list \<Rightarrow> 'a list list" where
  "lanes8 (a # b # c # d # e # f # g # h # xs) = [a, b, c, d, e, f, g, h] # lanes8 xs"
| "lanes8 xs = []"

definition normalize_channel_simd :: "rnd \<Rightarrow> nat \<Rightarrow> real list \<Rightarrow> real \<Rightarrow> real \<Rightarrow> real list" where
  "normalize_channel_simd fl a channel mean std =
     (let one = (\<lambda>v. fl (fl (v - mean) / std));
          head = take a channel; middle = lanes8 (drop a channel);
          tail = drop (a + 8 * length middle) channel
      in map one head @ concat (map (map one) middle) @ map one tail)"

text \<open>A tensor of three channels, from the values at channel, row and column.\<close>

definition nchw_of :: "nat \<Rightarrow> nat \<Rightarrow> (nat \<Rightarrow> nat \<Rightarrow> nat \<Rightarrow> 'a) \<Rightarrow> 'a list" where
  "nchw_of height width f =
     concat (map (\<lambda>c. concat (map (\<lambda>h. map (\<lambda>w. f c h w) [0..<width]) [0..<height])) [0..<3])"

text \<open>The channel \<open>c\<close> of a tensor whose channels have \<open>n\<close> values each.\<close>

definition channel_of :: "nat \<Rightarrow> nat \<Rightarrow> 'a list \<Rightarrow> 'a list" where
  "channel_of n c t = take n (drop (c * n) t)"

definition hwc_u8_to_nchw_f32 ::
    "rnd \<Rightarrow> nat \<Rightarrow> u8 list \<Rightarrow> nat \<Rightarrow> nat \<Rightarrow> real list \<Rightarrow> real list \<Rightarrow> real list option" where
  "hwc_u8_to_nchw_f32 fl a src height width mean std =
     (if length src < 3 * (height * width) then None
      else let out = nchw_of height width (\<lambda>c h w. fl (real (unat (src ! (h * width * 3 + w * 3 + c))) / 255))
           in Some (concat (map (\<lambda>c.
                normalize_channel_simd fl a (channel_of (height * width) c out) (mean ! c) (std ! c)) [0..<3])))"

definition preprocess_bytes :: "rnd \<Rightarrow> nat \<Rightarrow> image_lib \<Rightarrow> preprocess_config \<Rightarrow> u8 list \<Rightarrow> (string + real list) option" where
  "preprocess_bytes fl a I cfg data =
     (if data = [] then Some (Inl ''empty image data'')
      else case bindR (decode_to_hwc_rgb I data) (\<lambda>(hwc, w, h).
                  if w \<noteq> pc_width cfg \<or> h \<noteq> pc_height cfg then resize_hwc I hwc w h (pc_width cfg) (pc_height cfg)
                  else Inr (hwc, w, h)) of
             Inl e \<Rightarrow> Some (Inl e)
           | Inr (hwc, w, h) \<Rightarrow>
               map_option Inr (hwc_u8_to_nchw_f32 fl a hwc (unat h) (unat w) (pc_mean cfg) (pc_std cfg)))"

text \<open>All images are preprocessed; a panic of one is a panic of the batch, and the first error is reported.\<close>

definition preprocess_batch ::
    "rnd \<Rightarrow> nat \<Rightarrow> image_lib \<Rightarrow> preprocess_config \<Rightarrow> u8 list list \<Rightarrow> (string + real list list) option" where
  "preprocess_batch fl a I cfg images =
     (if images = [] then Some (Inl ''empty batch'')
      else let results = map (preprocess_bytes fl a I cfg) images
           in if None \<in> set results then None else Some (mapR the results))"

section \<open>The classifier\<close>

datatype input_format = NchwImageNet | NhwcZeroTo255

text \<open>A session: the name of the input, its shape and data give the first output.\<close>

type_synonym session_run = "string \<Rightarrow> nat list \<Rightarrow> real list \<Rightarrow> string + real list"

record ort_classifier =
  oc_labels :: "string list"
  oc_input_name :: string
  oc_format :: input_format
  oc_output_is_prob :: bool

text \<open>\<open>new\<close>, given the lines of the labels file and the names of the first input and output.\<close>

definition oc_new :: "string list \<Rightarrow> string option \<Rightarrow> string option \<Rightarrow> string + ort_classifier" where
  "oc_new label_lines inputs outputs =
     (case inputs of
        None \<Rightarrow> Inl ''model has no inputs''
      | Some input_name \<Rightarrow>
          Inr \<lparr>oc_labels = filter (\<lambda>l. l \<noteq> []) (map trim_white label_lines), oc_input_name = input_name,
            oc_format = (if contains input_name ''images'' then NhwcZeroTo255 else NchwImageNet),
            oc_output_is_prob = (case outputs of
                Some o' \<Rightarrow> contains (to_ascii_lowercase o') ''softmax'' \<or> contains (to_ascii_lowercase o') ''sigmoid''
              | None \<Rightarrow> False)\<rparr>)"

definition oc_softmax :: "rnd \<Rightarrow> real list \<Rightarrow> real list" where
  "oc_softmax fl logits =
     (if logits = [] then []
      else let m = Max (set logits) in normalised fl (map (\<lambda>x. fl (exp (fl (x - m)))) logits))"

text \<open>\<open>sort_unstable_by\<close> orders by falling confidence and leaves the order of equal ones open: it is an argument.\<close>

type_synonym ranker = "(nat \<times> real) list \<Rightarrow> (nat \<times> real) list"

definition ranks :: "ranker \<Rightarrow> bool" where
  "ranks srt \<longleftrightarrow> (\<forall>xs. mset (srt xs) = mset xs \<and> sorted (map (\<lambda>p. - snd p) (srt xs)))"

definition top_k :: "ranker \<Rightarrow> real list \<Rightarrow> nat \<Rightarrow> (nat \<times> real) list" where
  "top_k srt probs k = take k (srt (enumerate 0 probs))"

definition IMAGENET_MEAN :: "rnd \<Rightarrow> real list" where
  "IMAGENET_MEAN fl = map fl [485 / 1000, 456 / 1000, 406 / 1000]"

definition IMAGENET_STD :: "rnd \<Rightarrow> real list" where
  "IMAGENET_STD fl = map fl [229 / 1000, 224 / 1000, 225 / 1000]"

definition nchw_imagenet_to_nhwc_255 :: "rnd \<Rightarrow> real list \<Rightarrow> nat \<Rightarrow> nat \<Rightarrow> real list" where
  "nchw_imagenet_to_nhwc_255 fl nchw h w =
     concat (map (\<lambda>hi. concat (map (\<lambda>wi. map (\<lambda>ci.
       let v = nchw ! (ci * h * w + hi * w + wi);
           pixel = fl (fl (fl (v * IMAGENET_STD fl ! ci) + IMAGENET_MEAN fl ! ci) * 255)
       in clamp 0 255 pixel) [0..<3]) [0..<w])) [0..<h])"

definition prediction_of :: "string list \<Rightarrow> nat \<times> real \<Rightarrow> prediction" where
  "prediction_of labels p =
     (let (class_id, confidence) = p
      in \<lparr>pd_label = (if class_id < length labels then labels ! class_id else ''class_'' @ show_nat class_id),
          pd_confidence = confidence, pd_class_id = class_id\<rparr>)"

text \<open>One image; the output is copied into a buffer of the pool.\<close>

definition classify_one ::
    "rnd \<Rightarrow> ranker \<Rightarrow> session_run \<Rightarrow> ort_classifier \<Rightarrow> nat \<Rightarrow> nat \<Rightarrow> nat \<Rightarrow> real list \<Rightarrow> tensor_pool \<Rightarrow>
     (string + prediction list) \<times> tensor_pool" where
  "classify_one fl srt run B h w k img pool =
     (case (case oc_format B of
              NchwImageNet \<Rightarrow> run (oc_input_name B) [1, 3, h, w] img
            | NhwcZeroTo255 \<Rightarrow> run (oc_input_name B) [1, h, w, 3] (nchw_imagenet_to_nhwc_255 fl img h w)) of
        Inl e \<Rightarrow> (Inl e, pool)
      | Inr raw_view \<Rightarrow>
          (let shape = ts_new [word_of_nat (length raw_view)];
               (buf, pool) = tp_acquire shape pool;
               raw_buf = take 0 buf @ raw_view;
               probs = (if oc_output_is_prob B then raw_buf else oc_softmax fl raw_buf);
               pool = tp_release shape raw_buf pool
           in (Inr (map (prediction_of (oc_labels B)) (top_k srt probs k)), pool)))"

fun classify_nchw ::
    "rnd \<Rightarrow> ranker \<Rightarrow> session_run \<Rightarrow> ort_classifier \<Rightarrow> nat \<Rightarrow> nat \<Rightarrow> nat \<Rightarrow> real list list \<Rightarrow> tensor_pool \<Rightarrow>
     (string + prediction list list) \<times> tensor_pool" where
  "classify_nchw fl srt run B h w k [] pool = (Inr [], pool)"
| "classify_nchw fl srt run B h w k (img # imgs) pool =
     (case classify_one fl srt run B h w k img pool of
        (Inl e, pool) \<Rightarrow> (Inl e, pool)
      | (Inr preds, pool) \<Rightarrow>
          (case classify_nchw fl srt run B h w k imgs pool of
             (Inl e, pool) \<Rightarrow> (Inl e, pool)
           | (Inr results, pool) \<Rightarrow> (Inr (preds # results), pool)))"

section \<open>Facts\<close>

text \<open>However the address of a slice is aligned, every value is normalised once.\<close>

lemma concat_lanes8: "concat (map (map g) (lanes8 xs)) = map g (take (8 * length (lanes8 xs)) xs)"
  by (induction xs rule: lanes8.induct) (simp_all add: numeral_eq_Suc)

lemma normalize_channel_eq:
  "normalize_channel_simd fl a xs mean std = map (\<lambda>v. fl (fl (v - mean) / std)) xs"
proof -
  let ?one = "\<lambda>v. fl (fl (v - mean) / std)" and ?n = "8 * length (lanes8 (drop a xs))"
  have rest: "drop (a + ?n) xs = drop ?n (drop a xs)" by (simp add: add.commute)
  have "map ?one (take a xs) @ map ?one (take ?n (drop a xs)) @ map ?one (drop ?n (drop a xs)) =
      map ?one (take a xs @ take ?n (drop a xs) @ drop ?n (drop a xs))"
    by (simp only: map_append)
  then show ?thesis
    by (simp only: normalize_channel_simd_def Let_def concat_lanes8 rest append_take_drop_id)
qed

lemma concat_rows: "concat (map (\<lambda>h. map (\<lambda>w. F (h * n + w)) [0..<n]) [0..<m]) = map F [0..<m * n]"
proof (induction m)
  case (Suc m)
  have "map F [m * n..<m * n + n] = map F (map (\<lambda>i. i + m * n) [0..<n])"
    by (simp only: map_add_upt add.commute)
  then have "map F [m * n..<m * n + n] = map (\<lambda>w. F (m * n + w)) [0..<n]" by (simp add: comp_def add.commute)
  moreover have "[0..<Suc m * n] = [0..<m * n] @ [m * n..<m * n + n]"
    using upt_add_eq_append [of 0 "m * n" n] by (simp add: add.commute [of n])
  ultimately show ?case using Suc by simp
qed simp

lemma nchw_of_flat:
  "nchw_of height width (\<lambda>c h w. F c (h * width + w)) = concat (map (\<lambda>c. map (F c) [0..<height * width]) [0..<3])"
  by (simp add: nchw_of_def concat_rows)

lemma upt_3: "[0..<3] = [0, 1, 2 :: nat]"
  by (simp add: upt_rec)

text \<open>The tensor of an image: per channel, all pixels in their order.\<close>

lemma tensor_of_image:
  assumes "3 * (h * w) \<le> length src"
  shows "hwc_u8_to_nchw_f32 fl a src h w mean std = Some (concat (map (\<lambda>c.
    map (\<lambda>p. fl (fl (fl (real (unat (src ! (p * 3 + c))) / 255) - mean ! c) / std ! c)) [0..<h * w]) [0..<3]))"
proof -
  let ?F = "\<lambda>c p. fl (real (unat (src ! (p * 3 + c))) / 255)"
  have out: "nchw_of h w (\<lambda>c r k. fl (real (unat (src ! (r * w * 3 + k * 3 + c))) / 255)) =
      map (?F 0) [0..<h * w] @ map (?F 1) [0..<h * w] @ map (?F 2) [0..<h * w]"
    using nchw_of_flat [of h w ?F] by (simp add: upt_3 algebra_simps)
  show ?thesis
    unfolding hwc_u8_to_nchw_f32_def Let_def out using assms
    by (simp add: channel_of_def normalize_channel_eq upt_3 comp_def)
qed

lemma tensor_length:
  "hwc_u8_to_nchw_f32 fl a src h w mean std = Some t \<Longrightarrow> length t = 3 * (h * w)"
  using tensor_of_image [of h w src fl a mean std]
  by (cases "3 * (h * w) \<le> length src") (auto simp: upt_3 hwc_u8_to_nchw_f32_def)

lemma tensor_nth:
  assumes "3 * (h * w) \<le> length src" "c < 3" "p < h * w" "hwc_u8_to_nchw_f32 fl a src h w mean std = Some t"
  shows "t ! (c * (h * w) + p) = fl (fl (fl (real (unat (src ! (p * 3 + c))) / 255) - mean ! c) / std ! c)"
proof -
  from assms(2) consider "c = 0" | "c = 1" | "c = 2" by linarith
  then show ?thesis
    using assms(3) assms(4) [symmetric, simplified tensor_of_image [OF assms(1)]]
    by cases (auto simp: upt_3 nth_append)
qed

text \<open>What the pool holds does not matter for the answer.\<close>

definition class_probs :: "rnd \<Rightarrow> session_run \<Rightarrow> ort_classifier \<Rightarrow> nat \<Rightarrow> nat \<Rightarrow> real list \<Rightarrow> string + real list" where
  "class_probs fl run B h w img =
     map_sum id (\<lambda>raw. if oc_output_is_prob B then raw else oc_softmax fl raw)
       (case oc_format B of
          NchwImageNet \<Rightarrow> run (oc_input_name B) [1, 3, h, w] img
        | NhwcZeroTo255 \<Rightarrow> run (oc_input_name B) [1, h, w, 3] (nchw_imagenet_to_nhwc_255 fl img h w))"

definition image_answer ::
    "rnd \<Rightarrow> ranker \<Rightarrow> session_run \<Rightarrow> ort_classifier \<Rightarrow> nat \<Rightarrow> nat \<Rightarrow> nat \<Rightarrow> real list \<Rightarrow> string + prediction list" where
  "image_answer fl srt run B h w k img =
     map_sum id (\<lambda>probs. map (prediction_of (oc_labels B)) (top_k srt probs k)) (class_probs fl run B h w img)"

lemma classify_one_answer: "fst (classify_one fl srt run B h w k img pool) = image_answer fl srt run B h w k img"
  by (simp add: classify_one_def image_answer_def class_probs_def Let_def split: sum.split prod.split)

lemma classify_nchw_answer:
  "fst (classify_nchw fl srt run B h w k imgs pool) = mapR (image_answer fl srt run B h w k) imgs"
proof (induction imgs arbitrary: pool)
  case (Cons img imgs)
  obtain r p where one: "classify_one fl srt run B h w k img pool = (r, p)" by fastforce
  then have r: "r = image_answer fl srt run B h w k img" using classify_one_answer by (metis fst_conv)
  obtain rs p' where rest: "classify_nchw fl srt run B h w k imgs p = (rs, p')" by fastforce
  then have "rs = mapR (image_answer fl srt run B h w k) imgs" using Cons by (metis fst_conv)
  with one rest r show ?case by (auto simp: bindR_def split: sum.splits)
qed simp

section \<open>Back to pixels\<close>

lemma concat_pixels: "concat (map (\<lambda>p. [f (p * 3), f (p * 3 + 1), f (p * 3 + 2)]) [0..<n]) = map f [0..<3 * n]"
proof (induction n)
  case (Suc n)
  have "[n * 3..<n * 3 + 3] = [n * 3, n * 3 + 1, n * 3 + 2]" by (simp add: upt_conv_Cons)
  then have "[0..<3 * Suc n] = [0..<3 * n] @ [n * 3, n * 3 + 1, n * 3 + 2]"
    using upt_add_eq_append [of 0 "n * 3" 3] by (simp add: mult.commute [of 3] add.commute [of 3])
  with Suc show ?case by simp
qed simp

lemma concat_nested: "concat (concat xss) = concat (map concat xss)"
  by (induction xss) simp_all

lemma nhwc_flat:
  "nchw_imagenet_to_nhwc_255 fl t h w = concat (map (\<lambda>p. map (\<lambda>ci.
     clamp 0 255 (fl (fl (fl (t ! (ci * (h * w) + p) * IMAGENET_STD fl ! ci) + IMAGENET_MEAN fl ! ci) * 255))) [0..<3])
   [0..<h * w])"
proof -
  let ?G = "\<lambda>p. map (\<lambda>ci.
     clamp 0 255 (fl (fl (fl (t ! (ci * (h * w) + p) * IMAGENET_STD fl ! ci) + IMAGENET_MEAN fl ! ci) * 255))) [0..<3]"
  have "concat (map ?G [0..<h * w]) = concat (concat (map (\<lambda>hi. map (\<lambda>wi. ?G (hi * w + wi)) [0..<w]) [0..<h]))"
    by (rule arg_cong [where f = concat], rule concat_rows [symmetric])
  also have "\<dots> = concat (map (\<lambda>hi. concat (map (\<lambda>wi. ?G (hi * w + wi)) [0..<w])) [0..<h])"
    by (simp add: concat_nested comp_def)
  finally show ?thesis by (simp add: nchw_imagenet_to_nhwc_255_def Let_def add.assoc mult.assoc)
qed

text \<open>
  In exact arithmetic the conversion for models that take pixels undoes the normalisation: whatever the
  alignment of the buffers, the model gets the bytes of the image back, in the order of rows, columns and channels.
\<close>

theorem pixels_roundtrip:
  assumes "hwc_u8_to_nchw_f32 exact a src h w (pc_mean (pc_imagenet exact wd ht)) (pc_std (pc_imagenet exact wd ht)) = Some t"
  shows "nchw_imagenet_to_nhwc_255 exact t h w = map (\<lambda>b. real (unat b)) (take (3 * (h * w)) src)"
proof -
  have len: "3 * (h * w) \<le> length src" using assms by (simp add: hwc_u8_to_nchw_f32_def split: if_splits)
  have px: "map (\<lambda>ci. clamp 0 255 ((t ! (ci * (h * w) + p) * IMAGENET_STD exact ! ci + IMAGENET_MEAN exact ! ci) * 255)) [0..<3] =
      [real (unat (src ! (p * 3))), real (unat (src ! (p * 3 + 1))), real (unat (src ! (p * 3 + 2)))]"
    if p: "p < h * w" for p
  proof -
    have byte: "clamp 0 255 (real (unat b)) = real (unat b)" for b :: u8
      using unsigned_less [of b, where 'a = nat] by (simp add: clamp_def del: of_nat_unat)
    have "(t ! (c * (h * w) + p) * IMAGENET_STD exact ! c + IMAGENET_MEAN exact ! c) * 255 = real (unat (src ! (p * 3 + c)))"
      if "c < 3" for c
      using tensor_nth [OF len that p assms] that
      by (auto simp: pc_imagenet_def IMAGENET_STD_def IMAGENET_MEAN_def less_Suc_eq numeral_eq_Suc)
    from this [of 0] this [of 1] this [of 2] show ?thesis
      by (simp add: upt_3 byte del: of_nat_unat)
  qed
  have "nchw_imagenet_to_nhwc_255 exact t h w =
      concat (map (\<lambda>p. [real (unat (src ! (p * 3))), real (unat (src ! (p * 3 + 1))), real (unat (src ! (p * 3 + 2)))]) [0..<h * w])"
    unfolding nhwc_flat using px by (intro arg_cong [where f = concat] map_cong) auto
  also have "\<dots> = map (\<lambda>i. real (unat (src ! i))) [0..<3 * (h * w)]"
    by (rule concat_pixels)
  also have "\<dots> = map (\<lambda>b. real (unat b)) (take (3 * (h * w)) src)"
    using len by (intro nth_equalityI) simp_all
  finally show ?thesis .
qed

theorem pixels_roundtrip_witness:
  "\<exists>t. hwc_u8_to_nchw_f32 exact 5 [1, 2, 3, 255, 0, 9] 1 2 (pc_mean (pc_imagenet exact 2 1)) (pc_std (pc_imagenet exact 2 1)) = Some t \<and>
     nchw_imagenet_to_nhwc_255 exact t 1 2 = [1, 2, 3, 255, 0, 9]"
proof -
  obtain t where t: "hwc_u8_to_nchw_f32 exact 5 [1, 2, 3, 255, 0, 9] 1 2 (pc_mean (pc_imagenet exact 2 1))
      (pc_std (pc_imagenet exact 2 1)) = Some t"
    by (simp add: hwc_u8_to_nchw_f32_def Let_def)
  from pixels_roundtrip [OF this] t show ?thesis by simp
qed

section \<open>Ranking\<close>

text \<open>The \<open>k\<close> best classes of a list of probabilities, best first.\<close>

definition best_of :: "real list \<Rightarrow> nat \<Rightarrow> prediction list \<Rightarrow> bool" where
  "best_of probs k preds \<longleftrightarrow>
     length preds = min k (length probs) \<and> distinct (map pd_class_id preds) \<and>
     (\<forall>p\<in>set preds. pd_class_id p < length probs \<and> pd_confidence p = probs ! pd_class_id p) \<and>
     sorted_wrt (\<ge>) (map pd_confidence preds) \<and>
     (\<forall>c<length probs. c \<notin> pd_class_id ` set preds \<longrightarrow> (\<forall>p\<in>set preds. probs ! c \<le> pd_confidence p))"

lemma prediction_fields [simp]:
  "pd_class_id (prediction_of labels p) = fst p" "pd_confidence (prediction_of labels p) = snd p"
  by (simp_all add: prediction_of_def split: prod.split)

lemma falling: "sorted (map (\<lambda>p. - snd p) ys) \<longleftrightarrow> sorted_wrt (\<ge>) (map snd ys)" for ys :: "(nat \<times> real) list"
  by (simp add: sorted_wrt_map)

lemma take_falling:
  assumes "sorted_wrt (\<ge>) (map snd ys)" "x \<in> set ys" "x \<notin> set (take k ys)" "y \<in> set (take k ys)"
  shows "snd x \<le> (snd y :: real)"
proof -
  have "x \<in> set (drop k ys)" using assms(2,3) by (metis Un_iff append_take_drop_id set_append)
  moreover have "sorted_wrt (\<ge>) (map snd (take k ys) @ map snd (drop k ys))"
    using assms(1) by (metis append_take_drop_id map_append)
  ultimately show ?thesis using assms(4) by (auto simp: sorted_wrt_append)
qed

lemma top_k_best:
  assumes "ranks srt"
  shows "best_of probs k (map (prediction_of labels) (top_k srt probs k))"
proof -
  let ?ys = "srt (enumerate 0 probs)"
  have m: "mset ?ys = mset (enumerate 0 probs)" and s: "sorted_wrt (\<ge>) (map snd ?ys)"
    using assms falling by (simp_all add: ranks_def)
  have el: "set ?ys = set (enumerate 0 probs)" using m by (rule mset_eq_setD)
  have el': "x \<in> set ?ys \<longleftrightarrow> fst x < length probs \<and> snd x = probs ! fst x" for x
    unfolding el by (cases x) (auto simp: in_set_enumerate_eq)
  have "mset (map fst ?ys) = mset (map fst (enumerate 0 probs))" using m by (simp only: mset_map)
  then have d: "distinct (map fst ?ys)" by (metis distinct_upt map_fst_enumerate mset_eq_imp_distinct_iff)
  have top: "x \<in> set (take k ?ys) \<Longrightarrow> x \<in> set ?ys" for x by (rule in_set_takeD)
  have "length ?ys = length probs" using mset_eq_length [OF m] by simp
  moreover have "distinct (map fst (take k ?ys))" using d by (simp add: take_map [symmetric])
  moreover have "sorted_wrt (\<ge>) (map snd (take k ?ys))" using s by (simp add: take_map [symmetric] sorted_wrt_take)
  moreover have "probs ! c \<le> snd p" if "c < length probs" "c \<notin> fst ` set (take k ?ys)" "p \<in> set (take k ?ys)" for c p
    using take_falling [OF s, of "(c, probs ! c)" k p] that el' by (force simp: image_iff)
  ultimately show ?thesis
    using top el' by (auto simp: best_of_def top_k_def comp_def image_image)
qed

lemma predictions_ranked':
  assumes "ranks srt" and "fst (classify_nchw fl srt run B h w k imgs pool) = Inr results"
  shows "length results = length imgs \<and>
    (\<forall>i<length imgs. \<exists>probs. class_probs fl run B h w (imgs ! i) = Inr probs \<and> best_of probs k (results ! i))"
proof -
  have all: "list_all2 (\<lambda>img r. image_answer fl srt run B h w k img = Inr r) imgs results"
    using assms(2) by (simp add: classify_nchw_answer mapR_Inr_list_all2)
  moreover have "\<exists>probs. class_probs fl run B h w img = Inr probs \<and> best_of probs k r"
    if "image_answer fl srt run B h w k img = Inr r" for img r
    using that top_k_best [OF assms(1)] by (cases "class_probs fl run B h w img") (auto simp: image_answer_def)
  ultimately show ?thesis by (auto simp: list_all2_conv_all_nth)
qed

text \<open>
  With any sort that puts the greater confidence first, the classifier answers each image of a batch, whatever
  the buffer pool holds, with its best classes: \<open>top_k\<close> of them or all there are, each once, with the model's
  confidence, in falling order, and no class left out is better than one that is listed.
\<close>

theorem predictions_ranked:
  assumes "ranks srt" and "fst (classify_nchw fl srt run B h w k imgs pool) = Inr results"
  shows "length results = length imgs \<and>
    (\<forall>i<length imgs. \<exists>probs. class_probs fl run B h w (imgs ! i) = Inr probs \<and> best_of probs k (results ! i))"
  using predictions_ranked' [OF assms] .

definition stable_rank :: ranker where
  "stable_rank xs = sort_key (\<lambda>p. - snd p) xs"

lemma stable_rank_ranks [simp]: "ranks stable_rank"
  by (simp add: ranks_def stable_rank_def)

definition echo_classifier :: ort_classifier where
  "echo_classifier = \<lparr>oc_labels = [''cat'', ''dog''], oc_input_name = ''data'', oc_format = NchwImageNet,
     oc_output_is_prob = True\<rparr>"

theorem predictions_ranked_witness:
  "\<exists>r. fst (classify_nchw exact stable_rank (\<lambda>n s x. Inr x) echo_classifier 1 1 2 [[1 / 10, 6 / 10, 3 / 10]] (tp_new 64)) = Inr [r] \<and>
     best_of [1 / 10, 6 / 10, 3 / 10] 2 r"
proof -
  obtain r where r: "fst (classify_nchw exact stable_rank (\<lambda>n s x. Inr x) echo_classifier 1 1 2 [[1 / 10, 6 / 10, 3 / 10]] (tp_new 64)) = Inr [r]"
    by (simp add: classify_nchw_answer image_answer_def class_probs_def echo_classifier_def del: classify_nchw.simps)
  from predictions_ranked [OF stable_rank_ranks this] r show ?thesis
    by (simp add: class_probs_def echo_classifier_def del: classify_nchw.simps)
qed

end
