(* ===== verification/Classify.thy ===== *)
theory Classify
  imports ImagePipeline Errors
begin

text \<open>
  The classification endpoints (\<open>api/classify.rs\<close>): a batch that is answered as a whole, and a stream with an event
  per image. The backend is what the trait \<open>ClassificationBackend\<close> asks for, the locale below; the classifier of
  \<open>ImagePipeline\<close> is one. Clocks, base64 and the configuration are fields of \<open>classify_env\<close>.
\<close>

record batch_classify_request =
  bc_images :: "string list"
  bc_top_k :: usize
  bc_model_width :: u32
  bc_model_height :: u32
  bc_skip_postprocess :: bool

definition default_top_k :: usize where "default_top_k = 5"
definition default_model_dim :: u32 where "default_model_dim = 224"

record batch_classify_response =
  br_results :: "prediction list list"
  br_batch_size :: nat

text \<open>
  \<open>cv_late\<close> says whether the image at an index takes longer than the timeout, \<open>cv_item_ms\<close> and \<open>cv_batch_ms\<close> what
  the clocks show; \<open>cv_join\<close> is the text of a task that panicked.
\<close>

type_synonym backend = "nat \<Rightarrow> nat \<Rightarrow> nat \<Rightarrow> real list list \<Rightarrow> string + prediction list list"

record classify_env =
  cv_fl :: rnd
  cv_lib :: image_lib
  cv_align :: nat
  cv_b64 :: "string \<Rightarrow> string + u8 list"
  cv_limit_mb :: usize
  cv_timeout_secs :: nat
  cv_post :: classify_config
  cv_show_f32 :: "real \<Rightarrow> string"
  cv_backend :: backend
  cv_join :: string
  cv_late :: "nat \<Rightarrow> bool"
  cv_item_ms :: "nat \<Rightarrow> real"
  cv_batch_ms :: real

section \<open>The batch\<close>

fun check_sizes :: "usize \<Rightarrow> nat \<Rightarrow> string list \<Rightarrow> api_error + unit" where
  "check_sizes limit_mb i [] = Inr ()"
| "check_sizes limit_mb i (b64 # bs) =
     (if unat (sat_mul limit_mb (1024 * 1024)) < length b64
      then Inl (PayloadTooLarge (''image['' @ show_nat i @ ''] base64 exceeds '' @ show_nat (unat limit_mb) @ '' MiB limit''))
      else check_sizes limit_mb (i + 1) bs)"

definition batch_checks :: "batch_classify_request \<Rightarrow> api_error + unit" where
  "batch_checks req =
     (if bc_images req = [] then Inl (BadRequest ''images array must not be empty'')
      else if 128 < length (bc_images req) then Inl (BadRequest ''batch too large (max 128 images)'')
      else if bc_top_k req = 0 then Inl (BadRequest ''top_k must be >= 1'')
      else if 1000 < bc_top_k req then Inl (BadRequest ''top_k must be <= 1000'')
      else if bc_model_width req = 0 \<or> bc_model_height req = 0
      then Inl (BadRequest ''model_width and model_height must be >= 1'')
      else if 4096 < bc_model_width req \<or> 4096 < bc_model_height req
      then Inl (BadRequest ''model_width and model_height must be <= 4096'')
      else Inr ())"

definition decode_image :: "classify_env \<Rightarrow> nat \<times> string \<Rightarrow> api_error + u8 list" where
  "decode_image E ib =
     map_sum (\<lambda>e. BadRequest (''image['' @ show_nat (fst ib) @ '']: '' @ e)) id (cv_b64 E (snd ib))"

text \<open>The blocking task of a batch.\<close>

definition run_batch :: "classify_env \<Rightarrow> preprocess_config \<Rightarrow> nat \<Rightarrow> u8 list list \<Rightarrow> (string + prediction list list) option" where
  "run_batch E cfg k raws =
     map_option (\<lambda>r. bindR r (cv_backend E (unat (pc_height cfg)) (unat (pc_width cfg)) k))
       (preprocess_batch (cv_fl E) (cv_align E) (cv_lib E) cfg raws)"

definition batch_classify ::
    "classify_env \<Rightarrow> batch_classify_request \<Rightarrow> nat \<Rightarrow> string \<Rightarrow> api_error + batch_classify_response envelope" where
  "batch_classify E req latency rid =
     bindR (batch_checks req) (\<lambda>_.
     bindR (check_sizes (cv_limit_mb E) 0 (bc_images req)) (\<lambda>_.
     bindR (mapR (decode_image E) (enumerate 0 (bc_images req))) (\<lambda>raws.
     bindR (case run_batch E (pc_imagenet (cv_fl E) (bc_model_width req) (bc_model_height req)) (unat (bc_top_k req)) raws of
              None \<Rightarrow> Inl (InternalError (''task join: '' @ cv_join E))
            | Some (Inl e) \<Rightarrow> Inl (BadRequest (''classify failed: '' @ e))
            | Some (Inr results) \<Rightarrow> Inr results) (\<lambda>results.
       let (results, steps, warnings) =
             (if bc_skip_postprocess req then (results, [], [])
              else classify_process (cv_fl E) (cv_show_f32 E) results (cv_post E))
       in Inr (en_from_inference (cv_fl E) \<lparr>br_results = results, br_batch_size = length results\<rparr> latency
            ''classification-backend'' (bc_skip_postprocess req) steps warnings rid)))))"

section \<open>The stream\<close>

datatype stream_event =
    Predictions nat nat real "prediction list"
  | ItemFailed nat nat string
  | BatchDone nat real

definition prediction_json :: "prediction \<Rightarrow> val" where
  "prediction_json p = JObject [(''label'', JString (pd_label p)), (''confidence'', JNumber (Float (pd_confidence p))),
     (''class_id'', JNumber (PosInt (word_of_nat (pd_class_id p))))]"

definition event_json :: "stream_event \<Rightarrow> val" where
  "event_json ev =
     (let num = (\<lambda>n. JNumber (PosInt (word_of_nat n)))
      in case ev of
           Predictions idx n ms preds \<Rightarrow>
             JObject [(''idx'', num idx), (''total'', num n), (''ms'', JNumber (Float ms)),
               (''predictions'', JArray (map prediction_json preds))]
         | ItemFailed idx n e \<Rightarrow> JObject [(''idx'', num idx), (''total'', num n), (''error'', JString e)]
         | BatchDone n ms \<Rightarrow>
             JObject [(''type'', JString ''done''), (''total'', num n), (''batch_ms'', JNumber (Float ms))])"

definition sse_event :: "(val \<Rightarrow> string) \<Rightarrow> stream_event \<Rightarrow> string" where
  "sse_event show_json ev = ''data: '' @ show_json (event_json ev) @ [CHR 0x0A, CHR 0x0A]"

definition round1 :: "rnd \<Rightarrow> real \<Rightarrow> real" where
  "round1 fl ms = fl (round_away (fl (ms * 10)) / 10)"

definition item_event :: "classify_env \<Rightarrow> preprocess_config \<Rightarrow> nat \<Rightarrow> nat \<Rightarrow> nat \<times> string \<Rightarrow> stream_event" where
  "item_event E cfg k cnt ib =
     (let idx = fst ib
      in case cv_b64 E (snd ib) of
           Inl e \<Rightarrow> ItemFailed idx cnt e
         | Inr raw \<Rightarrow>
             if cv_late E idx
             then ItemFailed idx cnt (''classify timeout after '' @ show_nat (cv_timeout_secs E) @ ''s'')
             else case run_batch E cfg k [raw] of
                    None \<Rightarrow> ItemFailed idx cnt (''task join: '' @ cv_join E)
                  | Some (Inl e) \<Rightarrow> ItemFailed idx cnt e
                  | Some (Inr v) \<Rightarrow>
                      Predictions idx cnt (round1 (cv_fl E) (cv_item_ms E idx)) (if v = [] then [] else last v))"

text \<open>The channel: what was sent, and how many sends still find the receiver.\<close>

definition send_event :: "stream_event \<Rightarrow> stream_event list \<times> nat option \<Rightarrow> bool \<times> stream_event list \<times> nat option" where
  "send_event ev ch =
     (case snd ch of
        None \<Rightarrow> (True, fst ch @ [ev], None)
      | Some 0 \<Rightarrow> (False, ch)
      | Some (Suc n) \<Rightarrow> (True, fst ch @ [ev], Some n))"

fun is_failed :: "stream_event \<Rightarrow> bool" where
  "is_failed (ItemFailed i t e) = True"
| "is_failed _ = False"

text \<open>A failed send ends the loop for predictions only.\<close>

fun stream_items ::
    "(nat \<times> string \<Rightarrow> stream_event) \<Rightarrow> (nat \<times> string) list \<Rightarrow> stream_event list \<times> nat option \<Rightarrow> stream_event list \<times> nat option" where
  "stream_items f [] ch = ch"
| "stream_items f (ib # ibs) ch =
     (let (sent, ch) = send_event (f ib) ch
      in if sent \<or> is_failed (f ib) then stream_items f ibs ch else ch)"

definition stream_config :: "classify_env \<Rightarrow> batch_classify_request \<Rightarrow> preprocess_config" where
  "stream_config E req =
     pc_imagenet (cv_fl E) (max 1 (min 4096 (bc_model_width req))) (max 1 (min 4096 (bc_model_height req)))"

definition stream_top_k :: "batch_classify_request \<Rightarrow> nat" where
  "stream_top_k req = unat (max 1 (min 1000 (bc_top_k req)))"

definition stream_classify :: "classify_env \<Rightarrow> batch_classify_request \<Rightarrow> nat option \<Rightarrow> api_error + stream_event list" where
  "stream_classify E req left =
     (if bc_images req = [] then Inl (BadRequest ''images must not be empty'')
      else if 128 < length (bc_images req) then Inl (BadRequest ''batch too large (max 128)'')
      else bindR (check_sizes (cv_limit_mb E) 0 (bc_images req)) (\<lambda>_.
        let cnt = length (bc_images req);
            ch = stream_items (item_event E (stream_config E req) (stream_top_k req) cnt)
                   (enumerate 0 (bc_images req)) ([], left)
        in Inr (fst (snd (send_event (BatchDone cnt (round1 (cv_fl E) (cv_batch_ms E))) ch)))))"

section \<open>The backend\<close>

text \<open>What the trait asks for, and that the images of a batch do not touch each other.\<close>

locale classification_backend =
  fixes classify :: backend
  assumes one_by_one: "classify h w k imgs = mapR (\<lambda>img. map_sum id hd (classify h w k [img])) imgs"
    and sorted_top: "classify h w k imgs = Inr rs \<Longrightarrow>
      list_all (\<lambda>r. length r \<le> k \<and> sorted_wrt (\<ge>) (map pd_confidence r)) rs"
begin

lemma one_image: "classify h w k [img] = Inr v \<Longrightarrow> v = [hd v]"
proof -
  assume "classify h w k [img] = Inr v"
  then show "v = [hd v]" using one_by_one [of h w k "[img]"] unfolding mapR.simps by simp
qed

lemma batch_of_items:
  "classify h w k imgs = Inr rs \<Longrightarrow> list_all2 (\<lambda>img r. classify h w k [img] = Inr [r]) imgs rs"
proof -
  assume "classify h w k imgs = Inr rs"
  then have "list_all2 (\<lambda>img r. map_sum id hd (classify h w k [img]) = Inr r) imgs rs"
    using one_by_one [of h w k imgs] by (simp only: mapR_Inr_list_all2)
  then show ?thesis
  proof (rule list_all2_mono)
    fix img r
    assume "map_sum id hd (classify h w k [img]) = Inr r"
    then obtain v where "classify h w k [img] = Inr v" "hd v = r" by (cases "classify h w k [img]") auto
    with one_image [of h w k img v] show "classify h w k [img] = Inr [r]" by simp
  qed
qed

end

interpretation ort: classification_backend
  "\<lambda>h w k imgs. fst (classify_nchw fl stable_rank run B h w k imgs pool)" for fl run B pool
proof
  fix h w k imgs rs
  show "fst (classify_nchw fl stable_rank run B h w k imgs pool) =
      mapR (\<lambda>img. map_sum id hd (fst (classify_nchw fl stable_rank run B h w k [img] pool))) imgs"
    unfolding classify_nchw_answer
    by (rule mapR_cong) (auto simp: bindR_def split: sum.split)
  assume "fst (classify_nchw fl stable_rank run B h w k imgs pool) = Inr rs"
  from predictions_ranked' [OF stable_rank_ranks this]
  show "list_all (\<lambda>r. length r \<le> k \<and> sorted_wrt (\<ge>) (map pd_confidence r)) rs"
    by (auto simp: list_all_length best_of_def)
qed

section \<open>The stream and the batch\<close>

definition upto :: "nat option \<Rightarrow> 'a list \<Rightarrow> 'a list" where
  "upto left xs = (case left of None \<Rightarrow> xs | Some n \<Rightarrow> take n xs)"

text \<open>A channel holds what was sent of a list, up to the point at which the client left.\<close>

definition sent_of :: "nat option \<Rightarrow> stream_event list \<Rightarrow> stream_event list \<times> nat option" where
  "sent_of left xs = (upto left xs, map_option (\<lambda>n. n - length xs) left)"

lemma send_sent:
  "snd (send_event ev (sent_of left xs)) = sent_of left (xs @ [ev])"
  "\<not> fst (send_event ev (sent_of left xs)) \<Longrightarrow> sent_of left (xs @ ys) = sent_of left xs"
  by (auto simp: send_event_def sent_of_def upto_def split: option.splits nat.splits)

lemma stream_items_sent: "stream_items f ibs (sent_of left xs) = sent_of left (xs @ map f ibs)"
proof (induction ibs arbitrary: xs)
  case (Cons ib ibs)
  obtain s ch where send: "send_event (f ib) (sent_of left xs) = (s, ch)"
    by (cases "send_event (f ib) (sent_of left xs)") blast
  then have ch: "ch = sent_of left (xs @ [f ib])" using send_sent(1) [of "f ib" left xs] by simp
  show ?case
  proof (cases "s \<or> is_failed (f ib)")
    case True
    then show ?thesis using Cons.IH [of "xs @ [f ib]"] by (simp add: send ch)
  next
    case False
    then have "sent_of left (xs @ ys) = sent_of left xs" for ys using send_sent(2) [of "f ib" left xs ys] send by simp
    then show ?thesis using False by (simp add: send ch)
  qed
qed simp

lemma stream_events:
  assumes "bc_images req \<noteq> []" "length (bc_images req) \<le> 128" "check_sizes (cv_limit_mb E) 0 (bc_images req) = Inr ()"
  shows "stream_classify E req left = Inr (upto left
    (map (item_event E (stream_config E req) (stream_top_k req) (length (bc_images req))) (enumerate 0 (bc_images req)) @
     [BatchDone (length (bc_images req)) (round1 (cv_fl E) (cv_batch_ms E))]))"
proof -
  have "([], left) = sent_of left []" by (auto simp: sent_of_def upto_def split: option.split)
  then show ?thesis
    using assms by (simp add: stream_classify_def Let_def stream_items_sent send_sent) (simp add: sent_of_def)
qed

lemma clamp_word: "x \<noteq> 0 \<Longrightarrow> x \<le> m \<Longrightarrow> max 1 (min m x) = (x :: 'a :: len word)"
proof -
  assume x: "x \<noteq> 0" "x \<le> m"
  then have "1 \<le> x" by (simp add: word_le_nat_alt Suc_le_eq unat_gt_0)
  with x(2) show ?thesis by (simp add: min_def max_def)
qed

lemma decode_Inr: "decode_image E ib = Inr raw \<longleftrightarrow> cv_b64 E (snd ib) = Inr raw"
  by (cases "cv_b64 E (snd ib)") (simp_all add: decode_image_def)

lemma outcome_Inr:
  "(case r of None \<Rightarrow> Inl a | Some (Inl e) \<Rightarrow> Inl (b e) | Some (Inr x) \<Rightarrow> Inr x) = Inr y \<longleftrightarrow> r = Some (Inr y)"
  by (auto split: option.split sum.split)

lemma preprocess_items:
  assumes "preprocess_batch fl a I cfg raws = Some (Inr ts)"
  shows "list_all2 (\<lambda>raw t. preprocess_batch fl a I cfg [raw] = Some (Inr [t])) raws ts"
proof -
  have none: "None \<notin> set (map (preprocess_bytes fl a I cfg) raws)"
    and all: "mapR the (map (preprocess_bytes fl a I cfg) raws) = Inr ts"
    using assms by (simp_all add: preprocess_batch_def Let_def split: if_splits)
  then have "list_all2 (\<lambda>raw t. the (preprocess_bytes fl a I cfg raw) = Inr t) raws ts"
    by (simp add: mapR_Inr_list_all2 list_all2_map1)
  then show ?thesis
  proof (rule list.rel_mono_strong)
    fix raw t
    assume "raw \<in> set raws" "the (preprocess_bytes fl a I cfg raw) = Inr t"
    with none have "preprocess_bytes fl a I cfg raw = Some (Inr t)"
      by (cases "preprocess_bytes fl a I cfg raw") (force simp: image_iff)+
    then show "preprocess_batch fl a I cfg [raw] = Some (Inr [t])" by (simp add: preprocess_batch_def)
  qed
qed

context classification_backend
begin

lemma run_items:
  assumes "cv_backend E = classify" "run_batch E cfg k raws = Some (Inr rs)"
  shows "list_all2 (\<lambda>raw r. run_batch E cfg k [raw] = Some (Inr [r])) raws rs"
proof -
  let ?pre = "preprocess_batch (cv_fl E) (cv_align E) (cv_lib E) cfg"
  obtain ts where pre: "?pre raws = Some (Inr ts)"
    and cl: "classify (unat (pc_height cfg)) (unat (pc_width cfg)) k ts = Inr rs"
    using assms by (auto simp: run_batch_def bindR_Inr_iff)
  have "list_all2 (\<lambda>raw t. ?pre [raw] = Some (Inr [t])) raws ts" by (rule preprocess_items [OF pre])
  moreover have "list_all2 (\<lambda>t r. classify (unat (pc_height cfg)) (unat (pc_width cfg)) k [t] = Inr [r]) ts rs"
    by (rule batch_of_items [OF cl])
  ultimately show ?thesis
    by (rule list_all2_trans [rotated 1]) (simp add: run_batch_def assms(1))
qed

lemma batch_streams:
  assumes "cv_backend E = classify" and "batch_classify E req latency rid = Inr env" and "bc_skip_postprocess req"
    and "\<And>i. i < length (bc_images req) \<Longrightarrow> \<not> cv_late E i"
  shows "stream_classify E req left = Inr (upto left
    (map (\<lambda>(i, r). Predictions i (length (bc_images req)) (round1 (cv_fl E) (cv_item_ms E i)) r)
       (enumerate 0 (br_results (en_data env))) @
     [BatchDone (length (bc_images req)) (round1 (cv_fl E) (cv_batch_ms E))]))"
proof -
  let ?imgs = "bc_images req" and ?n = "length (bc_images req)" and ?k = "unat (bc_top_k req)"
  let ?cfg = "pc_imagenet (cv_fl E) (bc_model_width req) (bc_model_height req)"
  let ?rs = "br_results (en_data env)"
  have checks: "batch_checks req = Inr ()" "check_sizes (cv_limit_mb E) 0 ?imgs = Inr ()"
    using assms(2) by (simp_all add: batch_classify_def bindR_Inr_iff)
  obtain raws where raws: "mapR (decode_image E) (enumerate 0 ?imgs) = Inr raws"
    and run: "run_batch E ?cfg ?k raws = Some (Inr ?rs)"
    using assms(2,3)
    by (auto simp: batch_classify_def bindR_Inr_iff outcome_Inr en_from_inference_def)
  have ok: "?imgs \<noteq> []" "?n \<le> 128" "bc_top_k req \<noteq> 0" "bc_top_k req \<le> 1000"
      "bc_model_width req \<noteq> 0" "bc_model_height req \<noteq> 0" "bc_model_width req \<le> 4096" "bc_model_height req \<le> 4096"
    using checks(1) by (auto simp: batch_checks_def split: if_splits)
  then have cfg: "stream_config E req = ?cfg" "stream_top_k req = ?k"
    by (simp_all only: stream_config_def stream_top_k_def clamp_word not_False_eq_True)
  have dec: "list_all2 (\<lambda>ib raw. decode_image E ib = Inr raw) (enumerate 0 ?imgs) raws"
    using raws by (simp add: mapR_Inr_list_all2)
  moreover have "list_all2 (\<lambda>raw r. run_batch E ?cfg ?k [raw] = Some (Inr [r])) raws ?rs"
    by (rule run_items [OF assms(1) run])
  ultimately have "length ?rs = ?n" and item: "\<And>i. i < ?n \<Longrightarrow>
      cv_b64 E (?imgs ! i) = Inr (raws ! i) \<and> run_batch E ?cfg ?k [raws ! i] = Some (Inr [?rs ! i])"
    by (simp_all add: list_all2_conv_all_nth nth_enumerate_eq decode_Inr)
  then have "map (item_event E ?cfg ?k ?n) (enumerate 0 ?imgs) =
      map (\<lambda>(i, r). Predictions i ?n (round1 (cv_fl E) (cv_item_ms E i)) r) (enumerate 0 ?rs)"
    using assms(4) by (intro nth_equalityI) (simp_all add: nth_enumerate_eq item_event_def)
  then show ?thesis by (simp add: stream_events [OF ok(1,2) checks(2)] cfg)
qed

end


definition demo_env :: classify_env where
  "demo_env = \<lparr>cv_fl = exact, cv_lib = \<lparr>il_simd = False, il_jpeg = (\<lambda>d. Inl []), il_generic = (\<lambda>d. Inr (d, 1, 1)),
       il_resize = (\<lambda>d a b c e. Inl [])\<rparr>, cv_align = 0, cv_b64 = (\<lambda>s. Inr [1, 2, 3]), cv_limit_mb = 5, cv_timeout_secs = 30,
     cv_post = cc_default exact, cv_show_f32 = (\<lambda>x. []),
     cv_backend = (\<lambda>h w k imgs. fst (classify_nchw exact stable_rank (\<lambda>n s x. Inr x) echo_classifier h w k imgs (tp_new 64))),
     cv_join = [], cv_late = (\<lambda>i. False), cv_item_ms = (\<lambda>i. 0), cv_batch_ms = 0\<rparr>"

definition demo_req :: batch_classify_request where
  "demo_req = \<lparr>bc_images = [''a'', ''b''], bc_top_k = 2, bc_model_width = 1, bc_model_height = 1, bc_skip_postprocess = True\<rparr>"


section \<open>Where they differ\<close>

text \<open>The stream never applies the post-processing, and takes sizes that the batch refuses.\<close>

lemma stream_raw:
  "stream_classify (E\<lparr>cv_post := c\<rparr>) (req\<lparr>bc_skip_postprocess := b\<rparr>) left = stream_classify E req left"
proof -
  have run: "run_batch (E\<lparr>cv_post := c\<rparr>) = run_batch E" by (intro ext) (simp add: run_batch_def)
  have "item_event (E\<lparr>cv_post := c\<rparr>) = item_event E" by (intro ext) (simp add: item_event_def run Let_def split: sum.split option.split)
  then show ?thesis
    by (simp add: stream_classify_def stream_config_def stream_top_k_def)
qed

lemma zero_top_k:
  "bc_images req \<noteq> [] \<Longrightarrow> length (bc_images req) \<le> 128 \<Longrightarrow> bc_top_k req = 0 \<Longrightarrow>
   batch_checks req = Inl (BadRequest ''top_k must be >= 1'') \<and> stream_top_k req = 1"
  by (simp add: batch_checks_def stream_top_k_def max_def min_def word_le_nat_alt)

text \<open>A failure of the model is reported as a bad request.\<close>

lemma model_failure_is_400:
  assumes "batch_checks req = Inr ()" "check_sizes (cv_limit_mb E) 0 (bc_images req) = Inr ()"
    and "mapR (decode_image E) (enumerate 0 (bc_images req)) = Inr raws"
    and "run_batch E (pc_imagenet (cv_fl E) (bc_model_width req) (bc_model_height req)) (unat (bc_top_k req)) raws = Some (Inl e)"
  shows "batch_classify E req latency rid = Inl (BadRequest (''classify failed: '' @ e))"
  using assms by (simp add: batch_classify_def)

text \<open>Blank lines of the labels file are dropped, so the labels after one move to other classes.\<close>

lemma blank_label_shifts:
  assumes "oc_new [a, [], b] (Some n) outputs = Inr B" "trim_white a \<noteq> []" "trim_white b \<noteq> []"
  shows "pd_label (prediction_of (oc_labels B) (1, c)) = trim_white b"
proof -
  have "oc_labels B = [trim_white a, trim_white b]"
    using assms by (auto simp: oc_new_def trim_white_def)
  then show ?thesis by (simp add: prediction_of_def)
qed

end
