(* ===== verification/Bootstrap.thy ===== *)
theory Bootstrap
  imports Paths
begin

text \<open>
  The model files fetched when the server starts (\<open>core/model_bootstrap.rs\<close>, and \<open>ensure_whisper_models\<close> of
  \<open>core/whisper_onnx.rs\<close>). The HTTP client and the errors of the file system are the fields of \<open>boot_env\<close>; a file is
  known by its path. A write that fails after the file was opened leaves the first bytes.
\<close>

record boot_env =
  be_mkdir :: "string \<Rightarrow> string option"
  be_client :: "string option"
  be_get :: "string \<Rightarrow> string + nat \<times> (string + u8 list)"
  be_write :: "string \<Rightarrow> (string \<times> nat option) option"
  be_show_status :: "nat \<Rightarrow> string"
  be_debug :: "string \<Rightarrow> string"

type_synonym files = "string \<Rightarrow> u8 list option"

definition is_success :: "nat \<Rightarrow> bool" where
  "is_success status \<longleftrightarrow> 200 \<le> status \<and> status < 300"

definition store_file :: "boot_env \<Rightarrow> string \<Rightarrow> u8 list \<Rightarrow> files \<Rightarrow> (string + unit) \<times> files" where
  "store_file E dest bytes fs =
     (case be_write E dest of
        None \<Rightarrow> (Inr (), fs(dest \<mapsto> bytes))
      | Some (e, None) \<Rightarrow> (Inl (''writing '' @ be_debug E dest), fs)
      | Some (e, Some n) \<Rightarrow> (Inl (''writing '' @ be_debug E dest), fs(dest \<mapsto> take n bytes)))"

definition fetch_file :: "boot_env \<Rightarrow> string \<Rightarrow> string \<Rightarrow> string \<Rightarrow> files \<Rightarrow> (string + unit) \<times> files" where
  "fetch_file E status_error url dest fs =
     (case be_get E url of
        Inl e \<Rightarrow> (Inl (''GET '' @ url), fs)
      | Inr (status, body) \<Rightarrow>
          if \<not> is_success status then (Inl status_error, fs)
          else case body of Inl e \<Rightarrow> (Inl e, fs) | Inr bytes \<Rightarrow> store_file E dest bytes fs)"

definition status_of :: "boot_env \<Rightarrow> string \<Rightarrow> string" where
  "status_of E url = (case be_get E url of Inr (status, body) \<Rightarrow> be_show_status E status | Inl e \<Rightarrow> [])"

definition download_file :: "boot_env \<Rightarrow> string \<Rightarrow> string \<Rightarrow> files \<Rightarrow> (string + unit) \<times> files" where
  "download_file E url dest fs = fetch_file E (''HTTP '' @ status_of E url @ '' downloading '' @ url) url dest fs"

definition file_len :: "string \<Rightarrow> files \<Rightarrow> nat" where
  "file_len p fs = (case fs p of Some bs \<Rightarrow> length bs | None \<Rightarrow> 0)"

text \<open>\<open>dest.exists() && len > limit\<close>\<close>

definition bigger :: "nat \<Rightarrow> string \<Rightarrow> files \<Rightarrow> bool" where
  "bigger limit p fs \<longleftrightarrow> fs p \<noteq> None \<and> limit < file_len p fs"

text \<open>Directories first: the error of the first that cannot be made.\<close>

fun make_dirs :: "boot_env \<Rightarrow> string list \<Rightarrow> string + unit" where
  "make_dirs E [] = Inr ()"
| "make_dirs E (d # ds) = (case be_mkdir E d of Some e \<Rightarrow> Inl e | None \<Rightarrow> make_dirs E ds)"

definition then_client :: "boot_env \<Rightarrow> string + unit \<Rightarrow> string + unit" where
  "then_client E r = bindR r (\<lambda>_. case be_client E of Some e \<Rightarrow> Inl e | None \<Rightarrow> Inr ())"

section \<open>Whisper\<close>

definition WHISPER_BASE :: string where
  "WHISPER_BASE = ''https://huggingface.co/onnx-community/whisper-base/resolve/main''"

definition whisper_files :: "(string \<times> string) list" where
  "whisper_files =
     [(''encoder_model_quantized.onnx'', WHISPER_BASE @ ''/onnx/encoder_model_quantized.onnx''),
      (''decoder_model_quantized.onnx'', WHISPER_BASE @ ''/onnx/decoder_model_quantized.onnx''),
      (''vocab.json'', WHISPER_BASE @ ''/vocab.json'')]"

fun fetch_all :: "boot_env \<Rightarrow> string \<Rightarrow> (string \<times> string) list \<Rightarrow> files \<Rightarrow> (string + unit) \<times> files" where
  "fetch_all E dir [] fs = (Inr (), fs)"
| "fetch_all E dir ((filename, url) # rest) fs =
     (let dest = join_path dir filename
      in if bigger 1024 dest fs then fetch_all E dir rest fs
         else case fetch_file E (''downloading '' @ filename @ '': HTTP '' @ status_of E url) url dest fs of
                (Inl e, fs) \<Rightarrow> (Inl e, fs)
              | (Inr u, fs) \<Rightarrow> fetch_all E dir rest fs)"

definition ensure_whisper_models :: "boot_env \<Rightarrow> string \<Rightarrow> files \<Rightarrow> (string + unit) \<times> files" where
  "ensure_whisper_models E dir fs =
     (case then_client E (make_dirs E [dir]) of Inl e \<Rightarrow> (Inl e, fs) | Inr u \<Rightarrow> fetch_all E dir whisper_files fs)"

section \<open>Kokoro, YOLO and the classifier\<close>

definition HF_KOKORO :: string where
  "HF_KOKORO = ''https://huggingface.co/onnx-community/Kokoro-82M-ONNX/resolve/main''"

definition KOKORO_VOICES :: "string list" where
  "KOKORO_VOICES = [''af_bella'', ''af_sarah'', ''af_nicole'', ''am_adam'', ''am_michael'', ''bf_emma'', ''bf_isabella'',
     ''bm_george'']"

text \<open>A voice that cannot be had is skipped.\<close>

fun fetch_voices :: "boot_env \<Rightarrow> string \<Rightarrow> string list \<Rightarrow> files \<Rightarrow> files" where
  "fetch_voices E dir [] fs = fs"
| "fetch_voices E dir (voice # vs) fs =
     (let dest = join_path dir (voice @ ''.bin'')
      in fetch_voices E dir vs
           (if bigger 1024 dest fs then fs
            else snd (download_file E (HF_KOKORO @ ''/voices/'' @ voice @ ''.bin'') dest fs)))"

definition ensure_kokoro_models :: "boot_env \<Rightarrow> string \<Rightarrow> files \<Rightarrow> (string + unit) \<times> files" where
  "ensure_kokoro_models E dir fs =
     (case then_client E (make_dirs E [dir, join_path dir ''voices'']) of
        Inl e \<Rightarrow> (Inl e, fs)
      | Inr u \<Rightarrow>
          (let dest = join_path dir ''kokoro-v1.0.int8.onnx'';
               (r, fs) = (if bigger (1024 * 1024) dest fs then (Inr (), fs)
                          else download_file E (HF_KOKORO @ ''/onnx/model_quantized.onnx'') dest fs)
           in case r of
                Inl e \<Rightarrow> (Inl ''no kokoro ONNX model could be obtained; TTS may be unavailable'', fs)
              | Inr u \<Rightarrow> (Inr (), fetch_voices E (join_path dir ''voices'') KOKORO_VOICES fs)))"

definition YOLO_URL :: string where
  "YOLO_URL = ''https://huggingface.co/Evintkoo/yolov8n-int8-onnx/resolve/main/yolov8n-int8.onnx''"

definition ensure_yolo_models :: "boot_env \<Rightarrow> string \<Rightarrow> files \<Rightarrow> (string + unit) \<times> files" where
  "ensure_yolo_models E dir fs =
     (case make_dirs E [dir] of
        Inl e \<Rightarrow> (Inl e, fs)
      | Inr u \<Rightarrow>
          (let dest = join_path dir ''yolov8n-int8.onnx''
           in if bigger (1024 * 1024) dest fs then (Inr (), fs)
              else case then_client E (Inr ()) of
                     Inl e \<Rightarrow> (Inl e, fs)
                   | Inr u \<Rightarrow>
                       (let (r, fs) = download_file E YOLO_URL dest fs
                        in (map_sum (\<lambda>e. ''yolov8n download failed'') id r, fs))))"

definition CLASSIFY_URL :: string where
  "CLASSIFY_URL = ''https://github.com/onnx/models/raw/main/validated/vision/classification/efficientnet-lite4/model/efficientnet-lite4-11-int8.onnx''"

definition LABELS_URL :: string where
  "LABELS_URL = ''https://raw.githubusercontent.com/pytorch/hub/master/imagenet_classes.txt''"

definition ensure_classify_models :: "boot_env \<Rightarrow> string \<Rightarrow> files \<Rightarrow> (string + unit) \<times> files" where
  "ensure_classify_models E dir fs =
     (case then_client E (make_dirs E [dir]) of
        Inl e \<Rightarrow> (Inl e, fs)
      | Inr u \<Rightarrow>
          (let onnx_dest = join_path dir ''efficientnet-lite4-11-int8.onnx'';
               labels_dest = join_path dir ''imagenet1000.txt'';
               (r, fs) = (if file_len onnx_dest fs < 1024 * 1024
                          then download_file E CLASSIFY_URL onnx_dest fs else (Inr (), fs))
           in case r of
                Inl e \<Rightarrow> (Inl ''efficientnet download failed'', fs)
              | Inr u \<Rightarrow>
                  (Inr (), if file_len labels_dest fs < 1024 then snd (download_file E LABELS_URL labels_dest fs) else fs)))"

section \<open>What is there after a start\<close>

text \<open>A file of the given size is left alone; otherwise it is the body of a successful reply.\<close>

definition obtained :: "boot_env \<Rightarrow> nat \<Rightarrow> string \<Rightarrow> string \<Rightarrow> files \<Rightarrow> files \<Rightarrow> bool" where
  "obtained E limit url dest fs fs' \<longleftrightarrow>
     (if bigger limit dest fs then fs' dest = fs dest
      else \<exists>status bytes. be_get E url = Inr (status, Inr bytes) \<and> is_success status \<and> fs' dest = Some bytes)"

lemma fetch_obtains:
  "fetch_file E se url dest fs = (Inr u, fs') \<Longrightarrow>
   (\<exists>status bytes. be_get E url = Inr (status, Inr bytes) \<and> is_success status \<and> fs' = fs(dest \<mapsto> bytes))"
  by (auto simp: fetch_file_def store_file_def split: sum.splits if_splits option.splits)

lemma fetch_touches: "p \<noteq> dest \<Longrightarrow> snd (fetch_file E se url dest fs) p = fs p"
  by (auto simp: fetch_file_def store_file_def split: sum.split option.split)

lemma fetch_all_untouched:
  "p \<notin> (\<lambda>x. join_path dir (fst x)) ` set xs \<Longrightarrow> snd (fetch_all E dir xs fs) p = fs p"
proof (induction E dir xs fs rule: fetch_all.induct)
  case (2 E dir filename url rest fs)
  let ?dest = "join_path dir filename"
  let ?f = "fetch_file E (''downloading '' @ filename @ '': HTTP '' @ status_of E url) url ?dest fs"
  obtain r fs1 where f: "?f = (r, fs1)" by fastforce
  have "fs1 p = fs p" 
    using fetch_touches [of p ?dest E "''downloading '' @ filename @ '': HTTP '' @ status_of E url" url fs] 2(3) f
    by simp
  then show ?case
    using 2 f by (cases r) (auto simp: Let_def)
qed simp

lemma fetch_all_obtains:
  assumes "fetch_all E dir xs fs = (Inr u, fs')" "distinct (map (\<lambda>x. join_path dir (fst x)) xs)" "(f, url) \<in> set xs"
  shows "obtained E 1024 url (join_path dir f) fs fs'"
  using assms
proof (induction E dir xs fs rule: fetch_all.induct)
  case (2 E dir filename url' rest fs)
  let ?dest = "join_path dir filename"
  let ?f = "fetch_file E (''downloading '' @ filename @ '': HTTP '' @ status_of E url') url' ?dest fs"
  have fresh: "?dest \<notin> (\<lambda>x. join_path dir (fst x)) ` set rest" using 2(4) by (auto simp: image_iff)
  show ?case
  proof (cases "bigger 1024 ?dest fs")
    case True
    then have rest: "fetch_all E dir rest fs = (Inr u, fs')" using 2(3) by (simp add: Let_def)
    show ?thesis
    proof (cases "(f, url) = (filename, url')")
      case True
      then show ?thesis
        using fetch_all_untouched [OF fresh, of E fs] rest \<open>bigger 1024 ?dest fs\<close> by (simp add: obtained_def)
    next
      case False
      then show ?thesis using 2(1) [OF refl True rest] 2(4,5) by auto
    qed
  next
    case small: False
    then obtain fs1 where one: "?f = (Inr (), fs1)" and rest: "fetch_all E dir rest fs1 = (Inr u, fs')"
      using 2(3) by (auto simp: Let_def split: prod.splits sum.splits)
    show ?thesis
    proof (cases "(f, url) = (filename, url')")
      case True
      then show ?thesis
        using fetch_all_untouched [OF fresh, of E fs1] rest fetch_obtains [OF one] small by (auto simp: obtained_def)
    next
      case False
      then have "(f, url) \<in> set rest" "distinct (map (\<lambda>x. join_path dir (fst x)) rest)" using 2(4,5) by auto
      then have "obtained E 1024 url (join_path dir f) fs1 fs'" using 2(2) [OF refl small one [symmetric] refl rest] by blast
      moreover have "join_path dir f \<noteq> ?dest" using fresh \<open>(f, url) \<in> set rest\<close> by (force simp: image_iff)
      then have "fs1 (join_path dir f) = fs (join_path dir f)"
        using fetch_obtains [OF one] by auto
      ultimately show ?thesis by (simp add: obtained_def bigger_def file_len_def)
    qed
  qed
qed simp

lemma join_relative_inj: "\<not> is_absolute a \<Longrightarrow> \<not> is_absolute b \<Longrightarrow> join_path dir a = join_path dir b \<Longrightarrow> a = b"
  by (auto simp: join_path_def split: if_splits)

lemma whisper_distinct: "distinct (map (\<lambda>x. join_path dir (fst x)) whisper_files)"
proof -
  have "distinct (map fst whisper_files)" "\<forall>x\<in>set whisper_files. \<not> is_absolute (fst x)"
    by (simp_all add: whisper_files_def is_absolute_def)
  then show ?thesis using join_relative_inj by (auto simp: distinct_map inj_on_def)
qed

text \<open>A start that succeeds has all files of the recogniser, and has touched no other.\<close>

lemma whisper_models_obtained:
  assumes "ensure_whisper_models E dir fs = (Inr u, fs')"
  shows "(\<forall>(f, url)\<in>set whisper_files. obtained E 1024 url (join_path dir f) fs fs') \<and>
    (\<forall>p. p \<notin> (\<lambda>x. join_path dir (fst x)) ` set whisper_files \<longrightarrow> fs' p = fs p)"
proof -
  have run: "fetch_all E dir whisper_files fs = (Inr u, fs')"
    using assms by (auto simp: ensure_whisper_models_def split: sum.splits)
  show ?thesis
    using fetch_all_obtains [OF run whisper_distinct] fetch_all_untouched [of _ dir whisper_files E fs] run by auto
qed

text \<open>
  A transfer is not atomic: when writing breaks off beyond the least size, the next start takes what is there for
  the file.
\<close>

lemma broken_write_accepted:
  assumes "be_get E url = Inr (200, Inr bytes)" "be_write E dest = Some (e, Some n)" "limit < n" "n \<le> length bytes"
  shows "fst (download_file E url dest fs) \<noteq> Inr () \<and> bigger limit dest (snd (download_file E url dest fs))"
  using assms by (simp add: download_file_def fetch_file_def is_success_def store_file_def bigger_def file_len_def)

text \<open>The server starts without a voice that cannot be had, but not without the model.\<close>

lemma kokoro_model_obtained:
  assumes "ensure_kokoro_models E dir fs = (Inr u, fs')" "\<not> bigger (1024 * 1024) (join_path dir ''kokoro-v1.0.int8.onnx'') fs"
  shows "\<exists>status bytes. be_get E (HF_KOKORO @ ''/onnx/model_quantized.onnx'') = Inr (status, Inr bytes) \<and> is_success status"
  using assms fetch_obtains
  by (fastforce simp: ensure_kokoro_models_def download_file_def Let_def split: sum.splits prod.splits if_splits)

end
