(* ===== verification/Whisper.thy ===== *)
theory Whisper
  imports Audio Utf8 Sampling
begin

text \<open>
  The Whisper recogniser (\<open>core/whisper_onnx.rs\<close>): the log-mel spectrogram, the greedy decoder and the vocabulary.
  The Fourier transform and the two sessions are arguments. \<open>fl\<close> rounds to \<open>f32\<close>, \<open>fd\<close> to \<open>f64\<close>; a character of
  a token is its code point.
\<close>

section \<open>Constants\<close>

definition WHISPER_RATE :: u32 where "WHISPER_RATE = 16000"
definition N_FFT :: nat where "N_FFT = 400"
definition HOP_LENGTH :: nat where "HOP_LENGTH = 160"
definition N_MELS :: nat where "N_MELS = 80"
definition MEL_FRAMES :: nat where "MEL_FRAMES = 3000"
definition MAX_AUDIO_SAMPLES :: nat where "MAX_AUDIO_SAMPLES = 480000"
definition SOT :: int where "SOT = 50258"
definition LANG_EN :: int where "LANG_EN = 50259"
definition TASK_TRANSCRIBE :: int where "TASK_TRANSCRIBE = 50359"
definition NO_TIMESTAMPS :: int where "NO_TIMESTAMPS = 50363"
definition EOT :: int where "EOT = 50257"
definition TIMESTAMP_BEGIN :: int where "TIMESTAMP_BEGIN = 50364"
definition MAX_NEW_TOKENS :: nat where "MAX_NEW_TOKENS = 224"

section \<open>The spectrogram\<close>

definition hann_window :: "rnd \<Rightarrow> real list" where
  "hann_window fl =
     map (\<lambda>n. fl (fl (1 / 2) * fl (1 - fl (cos (fl (fl (fl (2 * fl pi) * real n) / real N_FFT)))))) [0..<N_FFT]"

definition hz_to_mel :: "rnd \<Rightarrow> real \<Rightarrow> real" where
  "hz_to_mel fd hz = fd (2595 * fd (log 10 (fd (1 + fd (hz / 700)))))"

definition mel_to_hz :: "rnd \<Rightarrow> real \<Rightarrow> real" where
  "mel_to_hz fd mel = fd (700 * fd (fd (10 powr fd (mel / 2595)) - 1))"

definition mel_points :: "rnd \<Rightarrow> u32 \<Rightarrow> nat \<Rightarrow> real list" where
  "mel_points fd sample_rate n_mels =
     (let mel_min = hz_to_mel fd 0; mel_max = hz_to_mel fd (fd (real (unat sample_rate) / 2))
      in map (\<lambda>i. mel_to_hz fd (fd (mel_min + fd (fd (real i * fd (mel_max - mel_min)) / real (n_mels + 1)))))
           [0..<n_mels + 2])"

text \<open>One value of a triangle.\<close>

definition filter_value :: "rnd \<Rightarrow> real \<Rightarrow> real \<Rightarrow> real \<Rightarrow> real \<Rightarrow> real" where
  "filter_value fd f_low f_mid f_high f =
     (if f_low \<le> f \<and> f \<le> f_mid then fd (fd (f - f_low) / fd (f_mid - f_low))
      else if f_mid < f \<and> f \<le> f_high then fd (fd (f_high - f) / fd (f_high - f_mid))
      else 0)"

definition build_mel_filterbank :: "rnd \<Rightarrow> rnd \<Rightarrow> u32 \<Rightarrow> nat \<Rightarrow> nat \<Rightarrow> real list" where
  "build_mel_filterbank fl fd sample_rate n_fft n_mels =
     (let n_freqs = n_fft div 2 + 1; pts = mel_points fd sample_rate n_mels;
          freqs = map (\<lambda>k. fd (fd (real k * real (unat sample_rate)) / real n_fft)) [0..<n_freqs]
      in concat (map (\<lambda>m. map (\<lambda>f. fl (filter_value fd (pts ! m) (pts ! (m + 1)) (pts ! (m + 2)) f)) freqs) [0..<n_mels]))"

definition pad_or_clip :: "real list \<Rightarrow> real list" where
  "pad_or_clip samples =
     take MAX_AUDIO_SAMPLES samples @ replicate (MAX_AUDIO_SAMPLES - length samples) 0"

definition fft_frame :: "rnd \<Rightarrow> real list \<Rightarrow> nat \<Rightarrow> real list" where
  "fft_frame fl padded t =
     (let start = t * HOP_LENGTH; end' = min (start + N_FFT) (length padded)
      in map (\<lambda>i. fl ((if start + i < end' then padded ! (start + i) else 0) * hann_window fl ! i)) [0..<N_FFT])"

definition power_spectrum :: "rnd \<Rightarrow> (real list \<Rightarrow> (real \<times> real) list) \<Rightarrow> real list \<Rightarrow> nat \<Rightarrow> real list" where
  "power_spectrum fl fft padded t =
     map (\<lambda>(re, im). fl (fl (re * re) + fl (im * im))) (take (N_FFT div 2 + 1) (fft (fft_frame fl padded t)))"

definition dot :: "rnd \<Rightarrow> real list \<Rightarrow> real list \<Rightarrow> real" where
  "dot fl xs ys = foldl (\<lambda>acc (x, y). fl (acc + fl (x * y))) 0 (zip xs ys)"

text \<open>The row of a filter.\<close>

definition filter_row :: "rnd \<Rightarrow> rnd \<Rightarrow> nat \<Rightarrow> real list" where
  "filter_row fl fd m =
     (let n_freqs = N_FFT div 2 + 1
      in take n_freqs (drop (m * n_freqs) (build_mel_filterbank fl fd WHISPER_RATE N_FFT N_MELS)))"

definition mel_energies :: "rnd \<Rightarrow> rnd \<Rightarrow> (real list \<Rightarrow> (real \<times> real) list) \<Rightarrow> real list \<Rightarrow> real list" where
  "mel_energies fl fd fft samples =
     (let power = map (power_spectrum fl fft (pad_or_clip samples)) [0..<MEL_FRAMES]
      in concat (map (\<lambda>m. map (dot fl (filter_row fl fd m)) power) [0..<N_MELS]))"

definition compress_logs :: "rnd \<Rightarrow> real list \<Rightarrow> real list" where
  "compress_logs fl mel =
     (let logs = map (\<lambda>v. fl (log 10 (max v (fl (1 / 10 ^ 10))))) mel; max_val = Max (set logs)
      in map (\<lambda>v. fl (fl (max v (fl (max_val - 8)) + 4) / 4)) logs)"

definition log_mel_spectrogram :: "rnd \<Rightarrow> rnd \<Rightarrow> (real list \<Rightarrow> (real \<times> real) list) \<Rightarrow> real list \<Rightarrow> real list" where
  "log_mel_spectrogram fl fd fft samples = compress_logs fl (mel_energies fl fd fft samples)"

section \<open>The vocabulary\<close>

text \<open>The character of each byte; those without one of their own get the characters from 256 on, in turn.\<close>

definition own_char :: "nat \<Rightarrow> bool" where
  "own_char b \<longleftrightarrow> 33 \<le> b \<and> b \<le> 126 \<or> 161 \<le> b \<and> b \<le> 172 \<or> 174 \<le> b \<and> b \<le> 255"

fun byte_chars :: "nat \<Rightarrow> nat list \<Rightarrow> nat list" where
  "byte_chars n [] = []"
| "byte_chars n (b # bs) = (if own_char b then b # byte_chars n bs else (256 + n) # byte_chars (n + 1) bs)"

definition bytes_to_unicode :: "nat list" where
  "bytes_to_unicode = byte_chars 0 [0..<256]"

text \<open>The reverse table has signed bytes.\<close>

definition u2b_table :: "u8 list" where
  "u2b_table = fold (\<lambda>(b, c) table. if c < length table then table[c := word_of_nat b] else table)
     (enumerate 0 bytes_to_unicode) (replicate 512 (- 1))"

definition encode_utf8 :: "nat \<Rightarrow> u8 list" where
  "encode_utf8 c =
     (if c < 128 then [word_of_nat c]
      else if c < 2048 then [word_of_nat (192 + c div 64), word_of_nat (128 + c mod 64)]
      else if c < 65536 then [word_of_nat (224 + c div 4096), word_of_nat (128 + c div 64 mod 64), word_of_nat (128 + c mod 64)]
      else [word_of_nat (240 + c div 262144), word_of_nat (128 + c div 4096 mod 64), word_of_nat (128 + c div 64 mod 64),
            word_of_nat (128 + c mod 64)])"

definition char_bytes :: "nat \<Rightarrow> u8 list" where
  "char_bytes c = (if c < length u2b_table \<and> 0 \<le> sint (u2b_table ! c) then [u2b_table ! c] else encode_utf8 c)"

definition token_bytes :: "(int \<Rightarrow> nat list option) \<Rightarrow> int list \<Rightarrow> u8 list" where
  "token_bytes vocab ids = concat (map (\<lambda>i.
     if TIMESTAMP_BEGIN \<le> i then []
     else case vocab i of None \<Rightarrow> [] | Some s \<Rightarrow> concat (map char_bytes s)) ids)"

definition text_of_bytes :: "u8 list \<Rightarrow> string" where
  "text_of_bytes bs = map (\<lambda>b. char_of (unat b)) bs"

definition decode_tokens :: "(int \<Rightarrow> nat list option) \<Rightarrow> int list \<Rightarrow> string" where
  "decode_tokens vocab ids = utf8_lossy (text_of_bytes (token_bytes vocab ids))"

section \<open>Transcription\<close>

text \<open>An end that is not finite is \<open>None\<close>.\<close>

record transcription_segment =
  tg_text :: string
  tg_start_time :: real
  tg_end_time :: "real option"
  tg_confidence :: real

record transcription_result =
  tr_text :: string
  tr_language :: "string option"
  tr_confidence :: real
  tr_segments :: "transcription_segment list option"

text \<open>
  The encoder takes a spectrogram, the decoder the hidden states with their width and the tokens so far;
  \<open>'s\<close> is a resampler.
\<close>

record 's whisper_pipeline =
  wp_encoder :: "real list \<Rightarrow> string + real list"
  wp_decoder :: "real list \<Rightarrow> nat \<Rightarrow> int list \<Rightarrow> string + real list"
  wp_vocab :: "int \<Rightarrow> nat list option"
  wp_resampler :: "'s resampler_lib"
  wp_fft :: "real list \<Rightarrow> (real \<times> real) list"

text \<open>\<open>max_by\<close> keeps the last of equal values.\<close>

fun last_max :: "nat \<times> real \<Rightarrow> (nat \<times> real) list \<Rightarrow> nat \<times> real" where
  "last_max best [] = best"
| "last_max best (x # xs) = last_max (if snd best \<le> snd x then x else best) xs"

definition next_token :: "real list \<Rightarrow> nat \<Rightarrow> int" where
  "next_token logits seq_len =
     (let vocab_size = length logits div seq_len; offset = (seq_len - 1) * vocab_size
      in case enumerate 0 (take vocab_size (drop offset logits)) of
           [] \<Rightarrow> EOT
         | x # xs \<Rightarrow> int (fst (last_max x xs)))"

fun greedy_decode :: "nat \<Rightarrow> (int list \<Rightarrow> string + real list) \<Rightarrow> int list \<Rightarrow> string + int list" where
  "greedy_decode 0 dec tokens = Inr tokens"
| "greedy_decode (Suc n) dec tokens =
     bindR (dec tokens) (\<lambda>logits.
       let t = next_token logits (length tokens)
       in if t = EOT then Inr tokens else greedy_decode n dec (tokens @ [t]))"

definition forced_prefix :: "int list" where
  "forced_prefix = [SOT, LANG_EN, TASK_TRANSCRIBE, NO_TIMESTAMPS]"

text \<open>\<open>chunks\<close> of a slice; the last one may be shorter.\<close>

function chunks_of :: "nat \<Rightarrow> 'a list \<Rightarrow> 'a list list" where
  "chunks_of n xs = (if xs = [] \<or> n = 0 then [] else take n xs # chunks_of n (drop n xs))"
  by pat_completeness auto
termination
  by (relation "measure (length \<circ> snd)") auto

declare chunks_of.simps [simp del]

definition downmix :: "rnd \<Rightarrow> audio_data \<Rightarrow> real list" where
  "downmix fl a =
     (if 1 < ad_channels a
      then map (\<lambda>ch. fl (fsum fl ch / real (length ch))) (chunks_of (unat (ad_channels a)) (ad_samples a))
      else ad_samples a)"

definition build_segments :: "rnd \<Rightarrow> string \<Rightarrow> transcription_segment list" where
  "build_segments fl txt =
     map (\<lambda>(i, w). \<lparr>tg_text = w, tg_start_time = fl (real i * fl (4 / 10)), tg_end_time = Some (fl (real (i + 1) * fl (4 / 10))),
       tg_confidence = fl (9 / 10)\<rparr>) (enumerate 0 (split_white txt))"

definition recognise ::
    "rnd \<Rightarrow> rnd \<Rightarrow> 's whisper_pipeline \<Rightarrow> audio_data \<Rightarrow> bool \<Rightarrow> string + transcription_result" where
  "recognise fl fd W src return_timestamps =
     bindR (wp_encoder W (log_mel_spectrogram fl fd (wp_fft W) (downmix fl src))) (\<lambda>v.
     let dim = length v div 1500
     in if 1500 * dim \<noteq> length v then Inl ''building encoder_hidden_states tensor''
        else bindR (greedy_decode MAX_NEW_TOKENS (wp_decoder W v dim) forced_prefix) (\<lambda>tokens.
          let txt = trim_white (decode_tokens (wp_vocab W) (drop (length forced_prefix) tokens))
          in Inr \<lparr>tr_text = txt, tr_language = Some ''en'', tr_confidence = fl (9 / 10),
               tr_segments = (if return_timestamps then Some (build_segments fl txt) else None)\<rparr>))"

definition whisper_transcribe ::
    "rnd \<Rightarrow> rnd \<Rightarrow> 's whisper_pipeline \<Rightarrow> audio_data \<Rightarrow> bool \<Rightarrow> 's resampler_pool \<Rightarrow>
     ((audio_error + transcription_result) \<times> 's resampler_pool) option" where
  "whisper_transcribe fl fd W audio return_timestamps pool =
     map_option (\<lambda>(r, pool). (bindR r (\<lambda>src. map_sum Audio_Error id (recognise fl fd W src return_timestamps)), pool))
       (if ad_sample_rate audio \<noteq> WHISPER_RATE then resample (wp_resampler W) audio WHISPER_RATE pool
        else Some (Inr audio, pool))"

section \<open>Facts about the vocabulary\<close>

lemma byte_chars_set:
  "x \<in> set (byte_chars n bs) \<Longrightarrow> x \<in> set bs \<and> own_char x \<or> 256 + n \<le> x \<and> x < 256 + n + length bs"
  by (induction n bs rule: byte_chars.induct) (auto split: if_splits)

lemma byte_chars_length [simp]: "length (byte_chars n bs) = length bs"
  by (induction n bs rule: byte_chars.induct) auto

lemma byte_chars_distinct: "distinct bs \<Longrightarrow> \<forall>b\<in>set bs. b < 256 \<Longrightarrow> distinct (byte_chars n bs)"
proof (induction n bs rule: byte_chars.induct)
  case (2 n b bs)
  have "b \<notin> set (byte_chars n bs)" if "own_char b" using byte_chars_set [of b n bs] 2(3,4) by auto
  moreover have "256 + n \<notin> set (byte_chars (n + 1) bs)" using byte_chars_set [of "256 + n" "n + 1" bs] 2(4) by auto
  ultimately show ?case using 2 by simp
qed simp

lemma unicode_length [simp]: "length bytes_to_unicode = 256"
  by (simp add: bytes_to_unicode_def)

lemma unicode_distinct: "distinct bytes_to_unicode"
  unfolding bytes_to_unicode_def by (rule byte_chars_distinct) auto

lemma unicode_bound: "c \<in> set bytes_to_unicode \<Longrightarrow> c < 512"
  using byte_chars_set [of c 0 "[0..<256]"] by (auto simp: bytes_to_unicode_def)

lemma fold_update:
  assumes "distinct (map snd xs)" "\<forall>p\<in>set xs. snd p < length t"
  shows "length (fold (\<lambda>(b, c) t. if c < length t then t[c := f b] else t) xs t) = length t \<and>
    (\<forall>(b, c)\<in>set xs. fold (\<lambda>(b, c) t. if c < length t then t[c := f b] else t) xs t ! c = f b) \<and>
    (\<forall>c. c \<notin> snd ` set xs \<longrightarrow> fold (\<lambda>(b, c) t. if c < length t then t[c := f b] else t) xs t ! c = t ! c)"
  using assms
proof (induction xs arbitrary: t)
  case (Cons p xs)
  obtain b c where p: "p = (b, c)" by fastforce
  have "c \<notin> snd ` set xs" using Cons.prems(1) p by simp
  with Cons.IH [of "t[c := f b]"] Cons.prems p show ?case by (auto simp: nth_list_update)
qed simp

lemma u2b_length [simp]: "length u2b_table = 512"
  and u2b_byte: "b < 256 \<Longrightarrow> u2b_table ! (bytes_to_unicode ! b) = word_of_nat b"
proof -
  have "distinct (map snd (enumerate 0 bytes_to_unicode))" using unicode_distinct by simp
  moreover have "\<forall>p\<in>set (enumerate 0 bytes_to_unicode). snd p < length (replicate 512 (- 1 :: u8))"
    using unicode_bound by (auto simp: in_set_enumerate_eq)
  ultimately have *: "length u2b_table = 512 \<and>
      (\<forall>(b, c)\<in>set (enumerate 0 bytes_to_unicode). u2b_table ! c = word_of_nat b)"
    using fold_update [of "enumerate 0 bytes_to_unicode" "replicate 512 (- 1 :: u8)" word_of_nat]
    by (simp add: u2b_table_def)
  then show "length u2b_table = 512" by blast
  show "u2b_table ! (bytes_to_unicode ! b) = word_of_nat b" if "b < 256"
    using * that by (auto simp: in_set_enumerate_eq)
qed

lemma signed_byte: "b < 256 \<Longrightarrow> 0 \<le> sint (word_of_nat b :: u8) \<longleftrightarrow> b < 128"
proof -
  assume b: "b < 256"
  then have "uint (word_of_nat b :: u8) = int b" by (simp add: uint_nat unat_of_nat_small)
  then have "sint (word_of_nat b :: u8) = signed_take_bit 7 (int b)" by (simp add: sint_uint)
  moreover have "signed_take_bit 7 (int b) = (if b < 128 then int b else int b - 256)"
  proof -
    have "(int b + 128) mod 256 = (if b < 128 then int b + 128 else int b - 128)" 
    proof (cases "b < 128")
      case False
      then show ?thesis using b mod_add_self2 [of "int b - 128" 256] by (simp add: add.commute)
    qed simp
    then show ?thesis by (simp add: signed_take_bit_eq_take_bit_shift take_bit_eq_mod)
  qed
  ultimately show ?thesis using b by auto
qed

text \<open>The bytes that a character of the vocabulary is decoded to: only those below 128 find their way back.\<close>

lemma char_bytes_unicode:
  "b < 256 \<Longrightarrow> char_bytes (bytes_to_unicode ! b) = (if b < 128 then [word_of_nat b] else encode_utf8 (bytes_to_unicode ! b))"
  using unicode_bound [of "bytes_to_unicode ! b"] signed_byte [of b] by (simp add: char_bytes_def u2b_byte)

text \<open>The characters that spell bytes, and tokens that spell a text.\<close>

definition spell :: "u8 list \<Rightarrow> nat list" where
  "spell bs = map (\<lambda>b. bytes_to_unicode ! unat b) bs"

definition spells :: "(int \<Rightarrow> nat list option) \<Rightarrow> int list \<Rightarrow> u8 list \<Rightarrow> bool" where
  "spells vocab ids bs \<longleftrightarrow>
     (\<forall>i\<in>set ids. i < TIMESTAMP_BEGIN \<and> vocab i \<noteq> None) \<and> concat (map (\<lambda>i. the (vocab i)) ids) = spell bs"

definition returned_bytes :: "u8 \<Rightarrow> u8 list" where
  "returned_bytes b = (if b < 128 then [b] else encode_utf8 (bytes_to_unicode ! unat b))"

lemma spelled_bytes: "spells vocab ids bs \<Longrightarrow> token_bytes vocab ids = concat (map returned_bytes bs)"
proof -
  assume sp: "spells vocab ids bs"
  have "token_bytes vocab ids = concat (map (\<lambda>i. concat (map char_bytes (the (vocab i)))) ids)"
    using sp unfolding token_bytes_def spells_def by (intro arg_cong [where f = concat] map_cong) auto
  also have "\<dots> = concat (map char_bytes (concat (map (\<lambda>i. the (vocab i)) ids)))"
    by (induction ids) simp_all
  also have "\<dots> = concat (map (\<lambda>b. char_bytes (bytes_to_unicode ! unat b)) bs)"
    using sp by (simp add: spells_def spell_def comp_def)
  also have "\<dots> = concat (map returned_bytes bs)"
  proof (intro arg_cong [where f = concat] map_cong refl)
    fix b :: u8
    have "unat b < 256" using unsigned_less [of b, where 'a = nat] by simp
    then show "char_bytes (bytes_to_unicode ! unat b) = returned_bytes b"
      by (simp add: char_bytes_unicode returned_bytes_def word_less_nat_alt)
  qed
  finally show ?thesis .
qed

lemma ascii_valid: "list_all (\<lambda>c. of_char c < (128 :: nat)) s \<Longrightarrow> utf8_valid s"
proof (induction s)
  case (Cons c s)
  have "char_seq (c # s) = (True, 1)"
    using Cons.prems by (simp add: char_seq_def byte_at_def utf8_width_def)
  with Cons show ?case by (simp add: utf8_valid.simps [of "c # s"])
qed simp

section \<open>Properties\<close>


definition toy_vocab :: "int \<Rightarrow> nat list option" where
  "toy_vocab i = (if i = 7 then Some (spell [72, 105]) else if i = 8 then Some (spell [33]) else None)"


text \<open>Any other text is garbled: its bytes from 128 on come back as two or more, so it is never what was spelled.\<close>

lemma returned_length: "128 \<le> b \<Longrightarrow> 2 \<le> length (returned_bytes b)"
proof -
  assume b: "128 \<le> b"
  have ub: "unat b < 256" using unsigned_less [of b, where 'a = nat] by simp
  have "bytes_to_unicode ! unat b \<ge> 128"
  proof -
    have "x \<in> set bs \<and> own_char x \<and> byte_chars n bs ! i = x \<or> 256 \<le> byte_chars n bs ! i"
      if "i < length bs" "bs ! i = x" for n i x bs
      using that by (induction n bs arbitrary: i rule: byte_chars.induct) (auto simp: nth_Cons split: nat.splits)
    from this [of "unat b" "[0..<256]" "unat b" 0] ub b show ?thesis
      by (auto simp: bytes_to_unicode_def word_le_nat_alt)
  qed
  then show ?thesis using b by (auto simp: returned_bytes_def encode_utf8_def)
qed

lemma non_ascii_garbled:
  assumes "spells vocab ids bs" "b \<in> set bs" "128 \<le> b"
  shows "length bs < length (token_bytes vocab ids)"
proof -
  have one: "1 \<le> length (returned_bytes c)" for c
    using returned_length [of c] by (cases "128 \<le> c") (auto simp: returned_bytes_def)
  have all: "length xs \<le> length (concat (map returned_bytes xs))" for xs
    using one by (induction xs) (simp, metis Suc_eq_plus1_left add_mono concat.simps(2) length_append length_Cons list.simps(9) plus_1_eq_Suc)
  obtain xs ys where "bs = xs @ b # ys" using assms(2) by (auto simp: in_set_conv_decomp)
  then show ?thesis
    using all [of xs] all [of ys] returned_length [OF assms(3)] by (simp add: spelled_bytes [OF assms(1)])
qed

text \<open>The last of the greatest values.\<close>

lemma last_max_spec:
  "last_max b xs \<in> set (b # xs) \<and> (\<forall>y\<in>set (b # xs). snd y \<le> snd (last_max b xs))"
  by (induction b xs rule: last_max.induct) (auto intro: order_trans)

text \<open>The row of the last position, and what is chosen from it.\<close>

definition last_row :: "real list \<Rightarrow> nat \<Rightarrow> real list" where
  "last_row logits n = take (length logits div n) (drop ((n - 1) * (length logits div n)) logits)"

lemma next_token_best:
  assumes "last_row logits n \<noteq> []"
  shows "\<exists>i < length (last_row logits n). next_token logits n = int i \<and> 
    (\<forall>v\<in>set (last_row logits n). v \<le> last_row logits n ! i)"
proof -
  obtain x xs where row: "enumerate 0 (last_row logits n) = x # xs"
    using assms by (cases "enumerate 0 (last_row logits n)") (metis length_enumerate length_0_conv, blast)
  have "set (last_row logits n) = snd ` set (x # xs)" using row by (metis map_snd_enumerate set_map)
  moreover have "last_max x xs \<in> set (enumerate 0 (last_row logits n))" using last_max_spec [of x xs] row by simp
  moreover have "next_token logits n = int (fst (last_max x xs))"
    using row by (simp add: next_token_def last_row_def)
  ultimately show ?thesis using last_max_spec [of x xs] by (auto simp: in_set_enumerate_eq)
qed

text \<open>
  C36. The greedy decoder ends: an answer is the forced prefix and at most as many new tokens as allowed, none of
  them the end of text, each the choice the decoder makes after the tokens before it; it stops early only because
  the next choice is the end of text.
\<close>

theorem greedy_decode_spec:
  assumes "greedy_decode n dec tokens = Inr out"
  shows "\<exists>new. out = tokens @ new \<and> length new \<le> n \<and> EOT \<notin> set new \<and>
    (\<forall>i<length new. \<exists>logits. dec (tokens @ take i new) = Inr logits \<and> next_token logits (length tokens + i) = new ! i) \<and>
    (length new < n \<longrightarrow> (\<exists>logits. dec out = Inr logits \<and> next_token logits (length out) = EOT))"
  using assms
proof (induction n dec tokens rule: greedy_decode.induct)
  case (2 n dec tokens)
  obtain logits where dec: "dec tokens = Inr logits" using 2(2) by (auto simp: bindR_Inr_iff)
  let ?t = "next_token logits (length tokens)"
  show ?case
  proof (cases "?t = EOT")
    case True
    then show ?thesis using 2(2) dec by (intro exI [of _ "[]"]) simp
  next
    case False
    then have "greedy_decode n dec (tokens @ [?t]) = Inr out" using 2(2) dec by (simp add: Let_def)
    from 2(1) [OF refl False this] obtain new where new: "out = (tokens @ [?t]) @ new" "length new \<le> n" "EOT \<notin> set new"
      "\<forall>i<length new. \<exists>l. dec ((tokens @ [?t]) @ take i new) = Inr l \<and> next_token l (length (tokens @ [?t]) + i) = new ! i"
      "length new < n \<longrightarrow> (\<exists>l. dec out = Inr l \<and> next_token l (length out) = EOT)" by blast
    have "\<exists>l. dec (tokens @ take i (?t # new)) = Inr l \<and> next_token l (length tokens + i) = (?t # new) ! i"
      if "i < length (?t # new)" for i
      using that new(4) dec by (cases i) auto
    with new False show ?thesis by (intro exI [of _ "?t # new"]) auto
  qed
qed simp

definition toy_decoder :: "int list \<Rightarrow> string + real list" where
  "toy_decoder ts = Inr (if length ts < 6 then concat (replicate (length ts) [0, 1]) else [])"

theorem greedy_decode_spec_witness:
  "\<exists>new. greedy_decode 5 toy_decoder forced_prefix = Inr (forced_prefix @ new) \<and> length new = 2 \<and> EOT \<notin> set new"
proof -
  have run: "greedy_decode 5 toy_decoder forced_prefix = Inr (forced_prefix @ [1, 1])"
    by code_simp
  from greedy_decode_spec [OF this] show ?thesis using run by simp
qed

text \<open>
  C99. Whatever the sound, the spectrogram has 80 times 3000 values, and they lie in a window of the eight decades
  below the loudest one: for some \<open>M\<close>, between the values that \<open>M - 8\<close> and \<open>M\<close> are scaled to.
\<close>

theorem log_mel_window:
  assumes "rounding fl"
  shows "length (log_mel_spectrogram fl fd fft samples) = N_MELS * MEL_FRAMES \<and>
    (\<exists>M. \<forall>x\<in>set (log_mel_spectrogram fl fd fft samples).
      fl (fl (fl (M - 8) + 4) / 4) \<le> x \<and> x \<le> fl (fl (M + 4) / 4))"
proof -
  let ?mel = "mel_energies fl fd fft samples"
  let ?logs = "map (\<lambda>v. fl (log 10 (max v (fl (1 / 10 ^ 10))))) ?mel"
  let ?M = "Max (set ?logs)"
  have len: "length ?mel = N_MELS * MEL_FRAMES"
    by (simp add: mel_energies_def Let_def length_concat comp_def sum_list_triv)
  then have ne: "set ?logs \<noteq> {}" by (simp add: N_MELS_def MEL_FRAMES_def flip: length_0_conv)
  have "?M \<in> set ?logs" using ne by (intro Max_in) simp_all
  then have "fl ?M = ?M" using assms by (auto simp: rounding_def)
  then have top: "fl (?M - 8) \<le> ?M" using rounding_mono [OF assms, of "?M - 8" ?M] by simp
  have "fl (fl (fl (?M - 8) + 4) / 4) \<le> fl (fl (max v (fl (?M - 8)) + 4) / 4) \<and>
      fl (fl (max v (fl (?M - 8)) + 4) / 4) \<le> fl (fl (?M + 4) / 4)" if "v \<in> set ?logs" for v
  proof -
    have "v \<le> ?M" using that by simp
    then show ?thesis using top
      by (intro conjI rounding_mono [OF assms] divide_right_mono) (auto intro!: rounding_mono [OF assms])
  qed
  then have "\<forall>x\<in>set (compress_logs fl ?mel). fl (fl (fl (?M - 8) + 4) / 4) \<le> x \<and> x \<le> fl (fl (?M + 4) / 4)"
    by (auto simp: compress_logs_def Let_def)
  moreover have "length (compress_logs fl ?mel) = N_MELS * MEL_FRAMES" by (simp add: compress_logs_def Let_def len)
  ultimately show ?thesis unfolding log_mel_spectrogram_def by blast
qed

theorem log_mel_window_witness:
  "\<exists>M. \<forall>x\<in>set (log_mel_spectrogram exact exact (\<lambda>b. map (\<lambda>x. (x, 0)) b) [1 / 2, 0]).
     ((M - 8) + 4) / 4 \<le> x \<and> x \<le> (M + 4) / (4 :: real)"
  using log_mel_window [OF rounding_exact, of exact "\<lambda>b. map (\<lambda>x. (x, 0)) b" "[1 / 2, 0]"] by simp

text \<open>The filters are weights: no value is below 0 or above 1.\<close>

lemma filter_weight:
  assumes "rounding fd" "representable fd 1"
  shows "0 \<le> filter_value fd f_low f_mid f_high f \<and> filter_value fd f_low f_mid f_high f \<le> 1"
proof -
  have ratio: "0 \<le> fd (fd a / fd b) \<and> fd (fd a / fd b) \<le> 1" if "0 \<le> a" "a \<le> b" for a b
  proof -
    have "0 \<le> fd a" "fd a \<le> fd b" using that rounding_nonneg [OF assms(1)] rounding_mono [OF assms(1)] by auto
    then have "0 \<le> fd a / fd b" "fd a / fd b \<le> 1" using order_le_less [of 0 "fd b"] by (auto simp: divide_le_eq_1)
    then show ?thesis using rounding_nonneg [OF assms(1)] rounding_below [OF assms] by simp
  qed
  show ?thesis
    using ratio [of "f - f_low" "f_mid - f_low"] ratio [of "f_high - f" "f_high - f_mid"] by (simp add: filter_value_def)
qed

end
