(* ===== verification/AudioModels.thy ===== *)
theory AudioModels
  imports Whisper Paths
begin

text \<open>
  The audio models of the server (\<open>core/audio_models.rs\<close>) in the default build, without the feature \<open>onnx\<close>: the
  placeholder models and the manager that prefers Whisper to them. A path is its text; \<open>'s\<close> is a resampler.
\<close>

record tts_config =
  tc_model_path :: string
  tc_vocoder_path :: "string option"
  tc_sample_rate :: u32
  tc_max_text_length :: nat

record stt_config =
  st_model_path :: string
  st_sample_rate :: u32
  st_chunk_length_secs :: real

record tts_parameters =
  tp_speed :: real
  tp_pitch :: real
  tp_energy :: real

definition tp_default_parameters :: tts_parameters where
  "tp_default_parameters = \<lparr>tp_speed = 1, tp_pitch = 1, tp_energy = 1\<rparr>"

text \<open>\<open>as u32\<close> from a float that is finite.\<close>

definition f32_to_u32 :: "real \<Rightarrow> u32" where
  "f32_to_u32 x = (if x \<le> 0 then 0 else if 2 ^ 32 \<le> x then - 1 else word_of_nat (nat \<lfloor>x\<rfloor>))"

section \<open>The models\<close>

definition synthesize_fallback :: "rnd \<Rightarrow> tts_config \<Rightarrow> string \<Rightarrow> tts_parameters \<Rightarrow> audio_data" where
  "synthesize_fallback fl c txt p =
     (let duration = max (fl (fl (real (length txt)) * fl (1 / 10))) 1;
          sample_count = nat \<lfloor>fl (fl (real (unat (tc_sample_rate c))) * duration)\<rfloor>;
          frequency = fl (440 * tp_pitch p);
          two_pi = fl (2 * fl pi)
      in \<lparr>ad_samples = map (\<lambda>i.
            let t = fl (fl (real i) / fl (real (unat (tc_sample_rate c))))
            in fl (fl (sin (fl (fl (two_pi * frequency) * t))) * fl (3 / 10))) [0..<sample_count],
          ad_sample_rate = tc_sample_rate c, ad_channels = 1\<rparr>)"

definition tts_synthesize :: "rnd \<Rightarrow> tts_config \<Rightarrow> string \<Rightarrow> tts_parameters \<Rightarrow> string + audio_data" where
  "tts_synthesize fl c txt p =
     (if tc_max_text_length c < length txt
      then Inl (''Text too long: '' @ show_nat (length txt) @ '' characters (max: '' @ show_nat (tc_max_text_length c) @ '')'')
      else Inr (synthesize_fallback fl c txt p))"

text \<open>A rate of 0 makes the length infinite, or no number when there is no sample.\<close>

definition stt_duration :: "rnd \<Rightarrow> audio_data \<Rightarrow> real option" where
  "stt_duration fl a =
     (if ad_sample_rate a = 0 then None
      else Some (fl (fl (real (length (ad_samples a))) / fl (real (unat (ad_sample_rate a))))))"

definition whole_seconds :: "rnd \<Rightarrow> audio_data \<Rightarrow> u32" where
  "whole_seconds fl a =
     (case stt_duration fl a of Some d \<Rightarrow> f32_to_u32 d | None \<Rightarrow> if ad_samples a = [] then 0 else - 1)"

definition transcribe_fallback :: "rnd \<Rightarrow> audio_data \<Rightarrow> bool \<Rightarrow> transcription_result" where
  "transcribe_fallback fl a return_timestamps =
     (let txt = ''[Transcription placeholder - '' @ show_nat (unat (whole_seconds fl a)) @ '' seconds of audio]''
      in \<lparr>tr_text = txt, tr_language = Some ''en'', tr_confidence = 0,
          tr_segments = (if return_timestamps
            then Some [\<lparr>tg_text = txt, tg_start_time = 0, tg_end_time = stt_duration fl a, tg_confidence = 0\<rparr>]
            else None)\<rparr>)"

section \<open>The manager\<close>

text \<open>The pipeline is beside the pool of its resamplers.\<close>

record 's audio_manager =
  am_tts_models :: "string \<Rightarrow> tts_config option"
  am_stt_models :: "string \<Rightarrow> stt_config option"
  am_model_dir :: string
  am_whisper :: "('s whisper_pipeline \<times> 's resampler_pool) option"

definition am_new :: "string \<Rightarrow> 's audio_manager" where
  "am_new dir = \<lparr>am_tts_models = Map.empty, am_stt_models = Map.empty, am_model_dir = dir, am_whisper = None\<rparr>"

definition set_whisper_pipeline :: "'s whisper_pipeline \<Rightarrow> 's resampler_pool \<Rightarrow> 's audio_manager \<Rightarrow> 's audio_manager" where
  "set_whisper_pipeline W pool m = m\<lparr>am_whisper := Some (W, pool)\<rparr>"

definition am_transcribe_audio ::
    "rnd \<Rightarrow> rnd \<Rightarrow> audio_data \<Rightarrow> bool \<Rightarrow> 's audio_manager \<Rightarrow> ((audio_error + transcription_result) \<times> 's audio_manager) option" where
  "am_transcribe_audio fl fd a ts m =
     (case am_whisper m of
        Some (W, pool) \<Rightarrow>
          map_option (\<lambda>(r, pool). (r, m\<lparr>am_whisper := Some (W, pool)\<rparr>)) (whisper_transcribe fl fd W a ts pool)
      | None \<Rightarrow>
          Some (case am_stt_models m ''default'' of
                  Some c \<Rightarrow> Inr (transcribe_fallback fl a ts)
                | None \<Rightarrow> Inl (Audio_Error
                    (''STT model not loaded '' @ map char_of [226, 128, 148 :: nat] @
                     '' Whisper models are downloading on first run, please retry'')), m))"

definition load_tts_model :: "string \<Rightarrow> tts_config \<Rightarrow> 's audio_manager \<Rightarrow> 's audio_manager" where
  "load_tts_model name c m = m\<lparr>am_tts_models := (am_tts_models m)(name \<mapsto> c)\<rparr>"

definition load_stt_model :: "string \<Rightarrow> stt_config \<Rightarrow> 's audio_manager \<Rightarrow> 's audio_manager" where
  "load_stt_model name c m = m\<lparr>am_stt_models := (am_stt_models m)(name \<mapsto> c)\<rparr>"

definition get_tts_model :: "string \<Rightarrow> 's audio_manager \<Rightarrow> tts_config option" where
  "get_tts_model name m = am_tts_models m name"

definition get_stt_model :: "string \<Rightarrow> 's audio_manager \<Rightarrow> stt_config option" where
  "get_stt_model name m = am_stt_models m name"

text \<open>\<open>iter\<close> is the order in which a map gives its keys.\<close>

definition list_tts_models :: "((string \<Rightarrow> tts_config option) \<Rightarrow> string list) \<Rightarrow> 's audio_manager \<Rightarrow> string list" where
  "list_tts_models iter m = iter (am_tts_models m)"

definition list_stt_models :: "((string \<Rightarrow> stt_config option) \<Rightarrow> string list) \<Rightarrow> 's audio_manager \<Rightarrow> string list" where
  "list_stt_models iter m = (if am_whisper m \<noteq> None then [''whisper-onnx''] else iter (am_stt_models m))"

definition init_default_audio_models :: "(string \<Rightarrow> bool) \<Rightarrow> 's audio_manager \<Rightarrow> 's audio_manager" where
  "init_default_audio_models exists' m =
     (let tts_path = join_path (am_model_dir m) ''tts_default.onnx''; stt_path = join_path (am_model_dir m) ''stt_default.onnx'';
          m = (if exists' tts_path
               then load_tts_model ''default'' \<lparr>tc_model_path = tts_path, tc_vocoder_path = None,
                      tc_sample_rate = 16000, tc_max_text_length = 1000\<rparr> m
               else m)
      in if exists' stt_path
         then load_stt_model ''default'' \<lparr>st_model_path = stt_path, st_sample_rate = 16000, st_chunk_length_secs = 30\<rparr> m
         else m)"

section \<open>Facts\<close>

text \<open>The placeholders are what the default build serves: the text and the sound do not depend on any model file.\<close>

lemma placeholder_transcription:
  assumes "am_whisper m = None" "am_stt_models m ''default'' = Some c"
  shows "am_transcribe_audio fl fd a ts m = Some (Inr (transcribe_fallback fl a ts), m)"
  using assms by (simp add: am_transcribe_audio_def)

lemma placeholder_speech:
  assumes "length s = length t" "tts_synthesize fl c s p = Inr a"
  shows "tts_synthesize fl c t p = Inr a"
  using assms by (simp add: tts_synthesize_def synthesize_fallback_def split: if_splits)

lemma transcribe_keeps_models:
  "am_transcribe_audio fl fd a ts m = Some (r, m') \<Longrightarrow>
   am_tts_models m' = am_tts_models m \<and> am_stt_models m' = am_stt_models m"
  by (auto simp: am_transcribe_audio_def split: option.splits prod.splits)

end
