(* ===== verification/AudioApi.thy ===== *)
theory AudioApi
  imports AudioModels Postprocess Errors
begin

text \<open>
  The audio endpoints (\<open>api/audio.rs\<close>): speech, transcription and validation of uploads. A multipart body is the
  list of its fields, each the chunks that arrive or an error; base64, the libraries of the audio processor and the
  clock are fields of \<open>audio_env\<close>. The text of an error is its outermost message.
\<close>

record synthesize_request =
  sr_text :: string
  sr_model :: "string option"
  sr_voice :: "string option"
  sr_speed :: "real option"
  sr_pitch :: "real option"
  sr_skip_postprocess :: bool

record synthesize_response =
  sp_audio_base64 :: string
  sp_sample_rate :: u32
  sp_duration_secs :: real
  sp_format :: string

record transcript_segment =
  ts_text :: string
  ts_start :: real
  ts_end :: "real option"
  ts_confidence :: real

record transcribe_response =
  tp_text :: string
  tp_language :: "string option"
  tp_confidence :: real
  tp_segments :: "transcript_segment list option"

record audio_validation_response =
  av_valid :: bool
  av_format :: string
  av_sample_rate :: u32
  av_channels :: u16
  av_duration_secs :: real
  av_errors :: "string list"

record audio_health_response =
  ah_status :: string
  ah_audio_backend :: string
  ah_supported_formats :: "string list"
  ah_models_available :: "string list"

record field_data =
  fd_name :: "string option"
  fd_chunks :: "(string + u8 list) list"

type_synonym multipart = "(string + field_data) list"

record audio_env =
  ae_fl :: rnd
  ae_fd :: rnd
  ae_wav :: wav_lib
  ae_codec :: codec_lib
  ae_sanitizer :: sanitizer_config
  ae_post :: audio_config
  ae_show_f32 :: "real \<Rightarrow> string"
  ae_b64 :: "u8 list \<Rightarrow> string"
  ae_limit_mb :: usize
  ae_max_secs :: u32

fun audio_error_text :: "audio_error \<Rightarrow> string" where
  "audio_error_text (Audio_Error e) = e"
| "audio_error_text Audio_Panic = ''panic''"

section \<open>Speech\<close>

text \<open>The blocking task: the sound, the steps and warnings, and the WAV file.\<close>

definition speak_task ::
    "audio_env \<Rightarrow> tts_config \<Rightarrow> string \<Rightarrow> tts_parameters \<Rightarrow> bool \<Rightarrow>
     string + audio_data \<times> string list \<times> string list \<times> u8 list" where
  "speak_task E c txt p skip_pp =
     bindR (tts_synthesize (ae_fl E) c txt p) (\<lambda>audio.
       let (samples, steps, warnings) =
             (if skip_pp then (ad_samples audio, [], [])
              else audio_process (ae_fl E) (ae_show_f32 E) (ad_samples audio) (ad_sample_rate audio) (ae_post E));
           audio = audio\<lparr>ad_samples := samples\<rparr>
       in map_sum audio_error_text (\<lambda>wav. (audio, steps, warnings, wav)) (save_wav (ae_fl E) (ae_wav E) audio))"

definition synthesize_speech ::
    "audio_env \<Rightarrow> 's audio_manager \<Rightarrow> synthesize_request \<Rightarrow> nat \<Rightarrow> string \<Rightarrow> api_error + synthesize_response envelope" where
  "synthesize_speech E m req latency rid =
     (if sr_text req = [] then Inl (BadRequest ''Text cannot be empty'')
      else
        let model_name = (case sr_model req of Some n \<Rightarrow> n | None \<Rightarrow> ''default'')
        in bindR (case sanitize_input (ae_sanitizer E) (JString (sr_text req)) of
                    Inl e \<Rightarrow> Inl (BadRequest (''Invalid input: '' @ e))
                  | Inr v \<Rightarrow>
                      (case as_str v of
                         None \<Rightarrow> Inl (BadRequest ''Sanitized text is not a string'') | Some s \<Rightarrow> Inr s)) (\<lambda>txt.
           case get_tts_model model_name m of
             None \<Rightarrow> Inl (NotFound (''TTS model '' @ [CHR 0x27] @ model_name @ [CHR 0x27] @ '' not found''))
           | Some c \<Rightarrow>
               let p = \<lparr>tp_speed = (case sr_speed req of Some x \<Rightarrow> x | None \<Rightarrow> 1),
                        tp_pitch = (case sr_pitch req of Some x \<Rightarrow> x | None \<Rightarrow> 1), tp_energy = 1\<rparr>
               in case speak_task E c txt p (sr_skip_postprocess req) of
                    Inl e \<Rightarrow> Inl (InternalError (''TTS synthesis failed: '' @ e))
                  | Inr (audio, steps, warnings, wav) \<Rightarrow>
                      Inr (en_from_inference (ae_fl E)
                        \<lparr>sp_audio_base64 = ae_b64 E wav, sp_sample_rate = ad_sample_rate audio,
                         sp_duration_secs = ad_duration_secs (ae_fl E) audio, sp_format = ''wav''\<rparr>
                        latency model_name (sr_skip_postprocess req) steps warnings rid)))"

section \<open>Uploads\<close>

definition max_bytes :: "audio_env \<Rightarrow> usize" where
  "max_bytes E = sat_mul (ae_limit_mb E) (1024 * 1024)"

definition upload_too_large :: "audio_env \<Rightarrow> api_error" where
  "upload_too_large E = PayloadTooLarge (''audio upload exceeds '' @ show_nat (unat (ae_limit_mb E)) @ '' MiB limit'')"

fun append_audio :: "audio_env \<Rightarrow> (string + u8 list) list \<Rightarrow> u8 list \<Rightarrow> api_error + u8 list" where
  "append_audio E [] acc = Inr acc"
| "append_audio E (Inl e # cs) acc = Inl (BadRequest e)"
| "append_audio E (Inr data # cs) acc =
     (if unat (max_bytes E) < length acc + length data then Inl (upload_too_large E)
      else append_audio E cs (acc @ data))"

text \<open>Each chunk of the text field is decoded alone.\<close>

fun read_text :: "(string + u8 list) list \<Rightarrow> string \<Rightarrow> api_error + string" where
  "read_text [] acc = Inr acc"
| "read_text (Inl e # cs) acc = Inl (BadRequest e)"
| "read_text (Inr data # cs) acc = read_text cs (acc @ utf8_lossy (text_of_bytes data))"

text \<open>\<open>parse::<bool>\<close>, a text that is no bool being false.\<close>

definition parse_flag :: "string \<Rightarrow> bool" where
  "parse_flag s \<longleftrightarrow> trim_white s = ''true''"

fun read_upload :: "audio_env \<Rightarrow> multipart \<Rightarrow> u8 list \<times> bool \<Rightarrow> api_error + u8 list \<times> bool" where
  "read_upload E [] acc = Inr acc"
| "read_upload E (Inl e # fs) acc = Inl (BadRequest e)"
| "read_upload E (Inr f # fs) (acc, ts) =
     (let name = (case fd_name f of Some n \<Rightarrow> n | None \<Rightarrow> [])
      in if name = ''audio'' \<or> name = ''file''
         then bindR (append_audio E (fd_chunks f) acc) (\<lambda>acc. read_upload E fs (acc, ts))
         else if name = ''timestamps''
         then bindR (read_text (fd_chunks f) []) (\<lambda>s. read_upload E fs (acc, parse_flag s))
         else read_upload E fs (acc, ts))"

text \<open>\<open>None\<close> is a transcription that does not end.\<close>

definition transcribe_audio ::
    "audio_env \<Rightarrow> multipart \<Rightarrow> 's audio_manager \<Rightarrow> ((api_error + transcribe_response) \<times> 's audio_manager) option" where
  "transcribe_audio E payload m =
     (case bindR (read_upload E payload ([], False)) (\<lambda>(data, ts).
             if data = [] then Inl (BadRequest ''No audio data provided'')
             else map_sum (\<lambda>e. BadRequest (''Invalid audio: '' @ audio_error_text e)) (\<lambda>a. (a, ts))
                    (load_audio (ae_fl E) (ae_wav E) (ae_codec E) (ap_with_max_duration_secs (ae_max_secs E) ap_new) data)) of
        Inl e \<Rightarrow> Some (Inl e, m)
      | Inr (a, ts) \<Rightarrow>
          map_option (\<lambda>(r, m).
            (case r of
               Inl Audio_Panic \<Rightarrow> Inl (InternalError ''task join: panic'')
             | Inl (Audio_Error e) \<Rightarrow> Inl (InternalError (''Transcription failed: '' @ e))
             | Inr t \<Rightarrow>
                 Inr \<lparr>tp_text = tr_text t, tp_language = tr_language t, tp_confidence = tr_confidence t,
                   tp_segments = map_option (map (\<lambda>g. \<lparr>ts_text = tg_text g, ts_start = tg_start_time g,
                     ts_end = tg_end_time g, ts_confidence = tg_confidence g\<rparr>)) (tr_segments t)\<rparr>, m))
            (am_transcribe_audio (ae_fl E) (ae_fd E) a ts m))"

fun read_all :: "audio_env \<Rightarrow> multipart \<Rightarrow> u8 list \<Rightarrow> api_error + u8 list" where
  "read_all E [] acc = Inr acc"
| "read_all E (Inl e # fs) acc = Inl (BadRequest e)"
| "read_all E (Inr f # fs) acc = bindR (append_audio E (fd_chunks f) acc) (read_all E fs)"

definition invalid_audio :: "string \<Rightarrow> audio_validation_response" where
  "invalid_audio e = \<lparr>av_valid = False, av_format = ''unknown'', av_sample_rate = 0, av_channels = 0,
     av_duration_secs = 0, av_errors = [e]\<rparr>"

fun audio_format_name :: "audio_format \<Rightarrow> string" where
  "audio_format_name Wav = ''Wav''"
| "audio_format_name Mp3 = ''Mp3''"
| "audio_format_name Flac = ''Flac''"
| "audio_format_name Ogg = ''Ogg''"

definition validate_upload :: "audio_env \<Rightarrow> multipart \<Rightarrow> api_error + audio_validation_response" where
  "validate_upload E payload =
     bindR (read_all E payload []) (\<lambda>data. Inr
       (if data = [] then invalid_audio ''No audio data provided''
        else case validate_audio (ae_fl E) (ae_wav E) (ae_codec E) ap_new data of
               Inr md \<Rightarrow> \<lparr>av_valid = True, av_format = audio_format_name (am_format md), av_sample_rate = am_sample_rate md,
                 av_channels = am_channels md, av_duration_secs = am_duration_secs md, av_errors = []\<rparr>
             | Inl e \<Rightarrow> invalid_audio (audio_error_text e)))"

definition audio_health ::
    "((string \<Rightarrow> tts_config option) \<Rightarrow> string list) \<Rightarrow> ((string \<Rightarrow> stt_config option) \<Rightarrow> string list) \<Rightarrow>
     's audio_manager \<Rightarrow> audio_health_response" where
  "audio_health tts_iter stt_iter m =
     \<lparr>ah_status = ''ok'', ah_audio_backend = ''Symphonia (fallback mode)'',
      ah_supported_formats = [''wav'', ''mp3'', ''flac'', ''ogg''],
      ah_models_available = map ((@) ''TTS: '') (list_tts_models tts_iter m) @ map ((@) ''STT: '') (list_stt_models stt_iter m)\<rparr>"

section \<open>Bounds\<close>

lemma append_audio_bound:
  "append_audio E cs acc = Inr out \<Longrightarrow> length acc \<le> unat (max_bytes E) \<Longrightarrow> length out \<le> unat (max_bytes E)"
  by (induction E cs acc rule: append_audio.induct) (auto split: if_splits)

lemma read_upload_bound:
  "read_upload E fs acc = Inr (out, ts) \<Longrightarrow> length (fst acc) \<le> unat (max_bytes E) \<Longrightarrow> length out \<le> unat (max_bytes E)"
proof (induction E fs acc rule: read_upload.induct)
  case (3 E f fs acc ts')
  note IH = "3.IH" and prems = "3.prems"
  define name where "name = (case fd_name f of Some n \<Rightarrow> n | None \<Rightarrow> [])"
  consider (audio) "name = ''audio'' \<or> name = ''file''" | (flag) "name = ''timestamps''"
    | (other) "\<not> (name = ''audio'' \<or> name = ''file'')" "name \<noteq> ''timestamps''" by blast
  then show ?case
  proof cases
    case audio
    then obtain acc' where "append_audio E (fd_chunks f) acc = Inr acc'" "read_upload E fs (acc', ts') = Inr (out, ts)"
      using prems(1) by (auto simp: name_def [symmetric] Let_def bindR_Inr_iff)
    then show ?thesis using IH(1) [OF name_def audio] append_audio_bound prems(2) by auto
  next
    case flag
    then obtain s where "read_upload E fs (acc, parse_flag s) = Inr (out, ts)"
      using prems(1) by (auto simp: name_def [symmetric] Let_def bindR_Inr_iff)
    then show ?thesis using IH(2) [OF name_def] flag prems(2) by auto
  next
    case other
    then have "read_upload E fs (acc, ts') = Inr (out, ts)" using prems(1) by (auto simp: name_def [symmetric] Let_def)
    then show ?thesis using IH(3) [OF name_def other] prems(2) by simp
  qed
qed auto

lemma reply_Inr:
  "(case r of Inl Audio_Panic \<Rightarrow> Inl x | Inl (Audio_Error e) \<Rightarrow> Inl (f e) | Inr t \<Rightarrow> Inr (g t)) = Inr y \<longleftrightarrow>
   (\<exists>t. r = Inr t \<and> y = g t)"
  by (auto split: sum.split audio_error.split)

text \<open>
  C37. What the transcription endpoint answers comes from bounded work: whatever fields a client sends, at most the
  configured number of bytes was kept of the upload, and the recogniser got the sound loaded from them, which lasts
  at most the configured seconds.
\<close>

theorem transcription_bounded:
  assumes "honest_header (ae_wav E)"
    and "\<And>data ps. cl_packets (ae_codec E) data = Inr ps \<Longrightarrow>
      sum_list (map (\<lambda>p. case snd p of Some d \<Rightarrow> length (dp_samples d) | None \<Rightarrow> 0) ps) < 2 ^ 64"
    and "transcribe_audio E payload m = Some (Inr resp, m')"
  shows "\<exists>data ts a t. read_upload E payload ([], False) = Inr (data, ts) \<and> length data \<le> unat (max_bytes E) \<and>
    load_audio (ae_fl E) (ae_wav E) (ae_codec E) (ap_with_max_duration_secs (ae_max_secs E) ap_new) data = Inr a \<and>
    length (ad_samples a) \<le> unat (ad_sample_rate a) * unat (ad_channels a) * unat (ae_max_secs E) \<and>
    am_transcribe_audio (ae_fl E) (ae_fd E) a ts m = Some (Inr t, m') \<and> tp_text resp = tr_text t"
proof -
  let ?ap = "ap_with_max_duration_secs (ae_max_secs E) ap_new"
  let ?load = "load_audio (ae_fl E) (ae_wav E) (ae_codec E) ?ap"
  have step: "bindR (read_upload E payload ([], False)) (\<lambda>(data, ts).
      if data = [] then Inl (BadRequest ''No audio data provided'')
      else map_sum (\<lambda>e. BadRequest (''Invalid audio: '' @ audio_error_text e)) (\<lambda>a. (a, ts)) (?load data)) \<noteq> Inl e" for e
    using assms(3) by (auto simp: transcribe_audio_def)
  obtain data ts where up: "read_upload E payload ([], False) = Inr (data, ts)"
    using step by (cases "read_upload E payload ([], False)") auto
  obtain a where ne: "data \<noteq> []" and a: "?load data = Inr a"
    using step by (cases "?load data"; cases "data = []") (auto simp: up)
  obtain t where "am_transcribe_audio (ae_fl E) (ae_fd E) a ts m = Some (Inr t, m')" "tp_text resp = tr_text t"
    using assms(3) ne a
    by (auto simp: transcribe_audio_def up reply_Inr)
  moreover have "within_cap ?ap a"
    by (rule loaded_audio_within_cap [OF assms(1) a]) (rule assms(2))
  moreover have "length data \<le> unat (max_bytes E)" using read_upload_bound [OF up] by simp
  ultimately show ?thesis using up a by (auto simp: within_cap_def ap_with_max_duration_secs_def)
qed

definition toy_audio_env :: audio_env where
  "toy_audio_env = \<lparr>ae_fl = exact, ae_fd = exact, ae_wav = toy_wav, ae_codec = silent_codec, ae_sanitizer = sc_default,
     ae_post = au_default exact, ae_show_f32 = (\<lambda>x. []), ae_b64 = (\<lambda>b. []), ae_limit_mb = 1, ae_max_secs = 60\<rparr>"

definition toy_upload :: multipart where
  "toy_upload = [Inr \<lparr>fd_name = Some ''file'', fd_chunks = [Inr [0x52, 0x49, 0x46], Inr [0x46, 0, 0, 0]]\<rparr>]"

definition toy_manager :: "unit audio_manager" where
  "toy_manager = load_stt_model ''default'' \<lparr>st_model_path = [], st_sample_rate = 16000, st_chunk_length_secs = 30\<rparr> (am_new [])"

theorem transcription_bounded_witness:
  "\<exists>resp data ts. transcribe_audio toy_audio_env toy_upload toy_manager = Some (Inr resp, toy_manager) \<and>
     read_upload toy_audio_env toy_upload ([], False) = Inr (data, ts) \<and> length data \<le> unat (max_bytes toy_audio_env)"
proof -
  have cap: "max_bytes toy_audio_env = 1048576" by (simp add: max_bytes_def toy_audio_env_def sat_mul_def)
  have up: "read_upload toy_audio_env toy_upload ([], False) = Inr ([0x52, 0x49, 0x46, 0x46, 0, 0, 0], False)"
    by (simp add: toy_upload_def cap)
  have load: "load_audio exact toy_wav silent_codec (ap_with_max_duration_secs 60 ap_new) [0x52, 0x49, 0x46, 0x46, 0, 0, 0] =
      Inr \<lparr>ad_samples = [0, 0], ad_sample_rate = 8000, ad_channels = 2\<rparr>"
    by (simp add: load_audio_def validate_audio_def validate_wav_def load_wav_def toy_wav_def RIFF_def ap_new_def
        ap_with_max_duration_secs_def I32_MAX_def)
  obtain resp where run: "transcribe_audio toy_audio_env toy_upload toy_manager = Some (Inr resp, toy_manager)"
    using load by (simp add: transcribe_audio_def up, simp add: toy_audio_env_def am_transcribe_audio_def toy_manager_def
        load_stt_model_def am_new_def)
  have "honest_header (ae_wav toy_audio_env)" by (auto simp: honest_header_def toy_wav_def toy_audio_env_def split: if_splits)
  moreover have "cl_packets (ae_codec toy_audio_env) d \<noteq> Inr ps" for d ps by (simp add: silent_codec_def toy_audio_env_def)
  ultimately show ?thesis using transcription_bounded [OF _ _ run] run by blast
qed

section \<open>What the endpoints get wrong\<close>

text \<open>Validation does not use the configured duration, so it passes what transcription refuses.\<close>

lemma validation_ignores_cap:
  "validate_upload (E\<lparr>ae_max_secs := n\<rparr>) payload = validate_upload E payload"
proof -
  have "append_audio (E\<lparr>ae_max_secs := n\<rparr>) cs acc = append_audio E cs acc" for cs acc
    by (induction E cs acc rule: append_audio.induct) (simp_all add: max_bytes_def upload_too_large_def)
  then have "read_all (E\<lparr>ae_max_secs := n\<rparr>) fs acc = read_all E fs acc" for fs acc
    by (induction E fs acc rule: read_all.induct) (auto simp: bindR_def split: sum.split)
  then show ?thesis by (simp add: validate_upload_def cong: if_cong)
qed

lemma voice_ignored: "synthesize_speech E m (req\<lparr>sr_voice := v\<rparr>) latency rid = synthesize_speech E m req latency rid"
  by (simp add: synthesize_speech_def Let_def cong: if_cong option.case_cong sum.case_cong)

text \<open>A text beyond the limit of the model is the client's fault, and answered as an error of the server.\<close>

lemma long_text_is_500:
  assumes "sr_text req \<noteq> []" "sanitize_input (ae_sanitizer E) (JString (sr_text req)) = Inr (JString s)"
    and "get_tts_model (case sr_model req of Some n \<Rightarrow> n | None \<Rightarrow> ''default'') m = Some c" "tc_max_text_length c < length s"
  shows "\<exists>e. synthesize_speech E m req latency rid = Inl (InternalError e)"
  using assms by (simp add: synthesize_speech_def speak_task_def tts_synthesize_def as_str_def)

end
