(* ===== verification/WsInfer.thy ===== *)
theory WsInfer
  imports WsAudio Classify "HOL-Library.Product_Lexorder"
begin

text \<open>
  The inference WebSockets (\<open>api/ws_infer.rs\<close>): a detection and a classification session, each a loop over ticks
  and messages that answers every binary message with a numbered frame. What differs is the configuration and the
  work on a frame. Clocks, the model directory and detectors, a \<open>'d\<close>, are fields of the environments; the number of
  the frame at hand is the time at which they are asked. \<open>None\<close> as a result is a panic of the task.
\<close>

section \<open>Messages\<close>

record infer_config =
  ic_version :: "string option"
  ic_size :: "string option"
  ic_conf :: real
  ic_iou :: real
  ic_top_k :: usize
  ic_width :: u32
  ic_height :: u32

definition default_conf :: "rnd \<Rightarrow> real" where "default_conf fl = fl (5 / 10)"
definition default_iou :: "rnd \<Rightarrow> real" where "default_iou fl = fl (45 / 100)"
definition ws_default_top_k :: usize where "ws_default_top_k = 5"
definition default_dim :: u32 where "default_dim = 224"

definition infer_config_of :: "rnd \<Rightarrow> (number \<Rightarrow> real) \<Rightarrow> val \<Rightarrow> infer_config option" where
  "infer_config_of fl f v =
     (if Option.bind (vget ''type'' v) as_str \<noteq> Some ''config'' then None
      else Option.bind (opt_field ''version'' as_opt_str None v) (\<lambda>version.
           Option.bind (opt_field ''size'' as_opt_str None v) (\<lambda>size.
           Option.bind (opt_field ''conf'' (as_real f) (default_conf fl) v) (\<lambda>conf.
           Option.bind (opt_field ''iou'' (as_real f) (default_iou fl) v) (\<lambda>iou.
           Option.bind (opt_field ''top_k'' as_u64 ws_default_top_k v) (\<lambda>top_k.
           Option.bind (opt_field ''width'' as_u32 default_dim v) (\<lambda>width.
           map_option (\<lambda>height. \<lparr>ic_version = version, ic_size = size, ic_conf = conf, ic_iou = iou,
               ic_top_k = top_k, ic_width = width, ic_height = height\<rparr>)
             (opt_field ''height'' as_u32 default_dim v))))))))"

record detection_result =
  dr_label :: string
  dr_conf :: real
  dr_bbox :: "real list"

datatype infer_msg =
    InferReady string u64
  | DetectMsg u64 real nat "detection_result list"
  | ClassifyMsg u64 real "prediction list"
  | InferError u64 string

datatype infer_frame = InferText infer_msg | InferPing "u8 list" | InferPong "u8 list" | InferClose

section \<open>The loop of a session\<close>

record ('c, 's) infer_session =
  is_cfg :: 'c
  is_frame :: u64
  is_cache :: 's
  is_out :: "infer_frame list"
  is_left :: "nat option"
  is_open :: bool

definition infer_send :: "infer_frame \<Rightarrow> ('c, 's) infer_session \<Rightarrow> bool \<times> ('c, 's) infer_session" where
  "infer_send f s =
     (case is_left s of
        Some 0 \<Rightarrow> (False, s)
      | Some (Suc n) \<Rightarrow> (True, s\<lparr>is_out := is_out s @ [f], is_left := Some n\<rparr>)
      | None \<Rightarrow> (True, s\<lparr>is_out := is_out s @ [f]\<rparr>))"

definition infer_break :: "('c, 's) infer_session \<Rightarrow> ('c, 's) infer_session" where
  "infer_break s = (snd (infer_send InferClose s))\<lparr>is_open := False\<rparr>"

definition infer_send_or_break :: "infer_frame \<Rightarrow> ('c, 's) infer_session \<Rightarrow> ('c, 's) infer_session" where
  "infer_send_or_break f s = (case infer_send f s of (True, s) \<Rightarrow> s | (False, s) \<Rightarrow> infer_break s)"

text \<open>An error of the connection is skipped; its end is \<open>Ended\<close>.\<close>

datatype infer_event = InferTick | Received ws_message | ReceiveError | Ended

text \<open>\<open>work\<close> gives the message for a frame from its number and bytes.\<close>

definition infer_step ::
    "(string \<Rightarrow> 'c \<Rightarrow> 'c) \<Rightarrow> (u64 \<Rightarrow> u8 list \<Rightarrow> 'c \<Rightarrow> 's \<Rightarrow> infer_msg \<times> 's) \<Rightarrow> infer_event \<Rightarrow>
     ('c, 's) infer_session \<Rightarrow> ('c, 's) infer_session" where
  "infer_step configure work ev s =
     (if \<not> is_open s then s
      else case ev of
             InferTick \<Rightarrow> infer_send_or_break (InferPing [104, 98]) s
           | ReceiveError \<Rightarrow> s
           | Ended \<Rightarrow> infer_break s
           | Received m \<Rightarrow>
               (case m of
                  TextMessage txt \<Rightarrow> s\<lparr>is_cfg := configure txt (is_cfg s)\<rparr>
                | BinaryMessage data \<Rightarrow>
                    (let n = is_frame s + 1; (msg, cache) = work n data (is_cfg s) (is_cache s)
                     in infer_send_or_break (InferText msg) (s\<lparr>is_frame := n, is_cache := cache\<rparr>))
                | PingMessage d \<Rightarrow> infer_send_or_break (InferPong d) s
                | CloseMessage \<Rightarrow> infer_break s
                | OtherFrame \<Rightarrow> s))"

definition infer_start :: "string \<Rightarrow> 'c \<Rightarrow> 's \<Rightarrow> nat option \<Rightarrow> ('c, 's) infer_session" where
  "infer_start task cfg cache left =
     (case infer_send (InferText (InferReady task 0))
         \<lparr>is_cfg = cfg, is_frame = 0, is_cache = cache, is_out = [], is_left = left, is_open = True\<rparr> of
        (True, s) \<Rightarrow> s
      | (False, s) \<Rightarrow> s\<lparr>is_open := False\<rparr>)"

section \<open>Detection\<close>

record detect_cfg =
  dg_version :: string
  dg_size :: string
  dg_conf :: real
  dg_iou :: real

definition detect_cfg_default :: "rnd \<Rightarrow> detect_cfg" where
  "detect_cfg_default fl = \<lparr>dg_version = ''v8'', dg_size = ''n'', dg_conf = fl (5 / 10), dg_iou = fl (45 / 100)\<rparr>"

record 'd detect_env =
  de_fl :: rnd
  de_json :: "string \<Rightarrow> val option"
  de_f32 :: "number \<Rightarrow> real"
  de_names :: "u64 \<Rightarrow> string list option"
  de_new :: "u64 \<Rightarrow> string \<Rightarrow> (string + 'd) option"
  de_detect :: "'d \<Rightarrow> u8 list \<Rightarrow> real \<Rightarrow> real \<Rightarrow> (string + yolo_results) option"
  de_ms :: "u64 \<Rightarrow> real"
  de_panic :: string

definition detect_configure :: "'d detect_env \<Rightarrow> string \<Rightarrow> detect_cfg \<Rightarrow> detect_cfg" where
  "detect_configure E txt cfg =
     (case Option.bind (de_json E txt) (infer_config_of (de_fl E) (de_f32 E)) of
        None \<Rightarrow> cfg
      | Some c \<Rightarrow>
          \<lparr>dg_version = (case ic_version c of Some v \<Rightarrow> v | None \<Rightarrow> dg_version cfg),
           dg_size = (case ic_size c of Some s \<Rightarrow> s | None \<Rightarrow> dg_size cfg), dg_conf = ic_conf c, dg_iou = ic_iou c\<rparr>)"

text \<open>Only ASCII letters matter to the tests on the lower-cased name.\<close>

definition ver_score :: "string \<Rightarrow> int" where
  "ver_score name =
     (let n = to_ascii_lowercase name
      in if contains n ''yolo12'' \<or> contains n ''yolov12'' then 120
         else if contains n ''yolo11'' \<or> contains n ''yolov11'' then 110
         else if contains n ''yolov10'' \<or> contains n ''yolo10'' then 100
         else if contains n ''yolov8'' \<or> contains n ''yolo8'' then 80
         else if contains n ''yolov5'' \<or> contains n ''yolo5'' then 50
         else 10)"

definition size_score :: "string \<Rightarrow> int" where
  "size_score name =
     (let n = to_ascii_lowercase name
      in if ends_with n ''n.onnx'' then 5 else if ends_with n ''s.onnx'' then 4
         else if ends_with n ''m.onnx'' then 3 else if ends_with n ''l.onnx'' then 2 else 1)"

definition is_yolo_onnx :: "string \<Rightarrow> bool" where
  "is_yolo_onnx name \<longleftrightarrow>
     ends_with name ''.onnx'' \<and> 5 < length name \<and> contains (to_ascii_lowercase name) ''yolo'' \<and>
     \<not> starts_with (to_ascii_lowercase name) ''tiny''"

text \<open>\<open>max_by_key\<close>: the last of the greatest.\<close>

fun max_by_key :: "('a \<Rightarrow> 'k :: linorder) \<Rightarrow> 'a list \<Rightarrow> 'a option" where
  "max_by_key f [] = None"
| "max_by_key f (x # xs) =
     (case max_by_key f xs of None \<Rightarrow> Some x | Some y \<Rightarrow> Some (if f y < f x then x else y))"

definition find_best_yolo_onnx :: "string list option \<Rightarrow> string option" where
  "find_best_yolo_onnx names =
     (case names of
        None \<Rightarrow> None
      | Some ns \<Rightarrow>
          map_option ((@) ''models/yolo/'')
            (max_by_key (\<lambda>n. (ver_score n, size_score n)) (filter is_yolo_onnx ns)))"

definition no_model :: string where
  "no_model = ''No YOLO ONNX model found in models/yolo/ '' @ map char_of [226, 128, 148 :: nat] @ '' download one first''"

text \<open>
  The cache: the detector and the path of its model. A path without a detector is an error here and a panic in the
  code; no session gets there.
\<close>

type_synonym 'd detector_cache = "'d option \<times> string option"

definition load_detector :: "'d detect_env \<Rightarrow> u64 \<Rightarrow> string \<Rightarrow> 'd detector_cache \<Rightarrow> (string + 'd) \<times> 'd detector_cache" where
  "load_detector E n path cache =
     (if snd cache = Some path then (case fst cache of Some d \<Rightarrow> (Inr d, cache) | None \<Rightarrow> (Inl [], cache))
      else case de_new E n path of
             None \<Rightarrow> (Inl (''task join: '' @ de_panic E), cache)
           | Some (Inl e) \<Rightarrow> (Inl e, cache)
           | Some (Inr d) \<Rightarrow> (Inr d, (Some d, Some path)))"

definition detection_result_of :: "detection \<Rightarrow> detection_result" where
  "detection_result_of d = \<lparr>dr_label = dt_class_name d, dr_conf = dt_confidence d,
     dr_bbox = [bb_x1 (dt_bbox d), bb_y1 (dt_bbox d), bb_x2 (dt_bbox d), bb_y2 (dt_bbox d)]\<rparr>"

definition process_detect_frame ::
    "'d detect_env \<Rightarrow> u64 \<Rightarrow> u8 list \<Rightarrow> detect_cfg \<Rightarrow> 'd detector_cache \<Rightarrow> (string + detection_result list) \<times> 'd detector_cache" where
  "process_detect_frame E n bytes cfg cache =
     (case find_best_yolo_onnx (de_names E n) of
        None \<Rightarrow> (Inl no_model, cache)
      | Some path \<Rightarrow>
          (case load_detector E n path cache of
             (Inl e, cache) \<Rightarrow> (Inl e, cache)
           | (Inr d, cache) \<Rightarrow>
               (case de_detect E d bytes (dg_conf cfg) (dg_iou cfg) of
                  None \<Rightarrow> (Inl (''task join: '' @ de_panic E), cache)
                | Some (Inl e) \<Rightarrow> (Inl e, cache)
                | Some (Inr r) \<Rightarrow> (Inr (map detection_result_of (yr_detections r)), cache))))"

definition detect_work ::
    "'d detect_env \<Rightarrow> u64 \<Rightarrow> u8 list \<Rightarrow> detect_cfg \<Rightarrow> 'd detector_cache \<Rightarrow> infer_msg \<times> 'd detector_cache" where
  "detect_work E n bytes cfg cache =
     (case process_detect_frame E n bytes cfg cache of
        (Inr dets, cache) \<Rightarrow> (DetectMsg n (de_ms E n) (length dets) dets, cache)
      | (Inl e, cache) \<Rightarrow> (InferError n e, cache))"

definition run_detect_session ::
    "'d detect_env \<Rightarrow> infer_event list \<Rightarrow> nat option \<Rightarrow> (detect_cfg, 'd detector_cache) infer_session" where
  "run_detect_session E es left =
     fold (infer_step (detect_configure E) (detect_work E)) es
       (infer_start ''detect'' (detect_cfg_default (de_fl E)) (None, None) left)"

section \<open>Classification\<close>

record classify_cfg =
  kg_top_k :: usize
  kg_width :: u32
  kg_height :: u32

definition classify_cfg_default :: classify_cfg where
  "classify_cfg_default = \<lparr>kg_top_k = 5, kg_width = 224, kg_height = 224\<rparr>"

definition classify_configure :: "(string \<Rightarrow> val option) \<Rightarrow> (number \<Rightarrow> real) \<Rightarrow> rnd \<Rightarrow> string \<Rightarrow> classify_cfg \<Rightarrow> classify_cfg" where
  "classify_configure parse f32 fl txt cfg =
     (case Option.bind (parse txt) (infer_config_of fl f32) of
        None \<Rightarrow> cfg
      | Some c \<Rightarrow>
          \<lparr>kg_top_k = max 1 (min 1000 (ic_top_k c)), kg_width = max 1 (min 4096 (ic_width c)),
           kg_height = max 1 (min 4096 (ic_height c))\<rparr>)"

text \<open>The environment is that of the classification endpoints; an item of the stream is worked on in the same way.\<close>

definition process_classify_frame :: "classify_env \<Rightarrow> u8 list \<Rightarrow> classify_cfg \<Rightarrow> string + prediction list" where
  "process_classify_frame E bytes cfg =
     (case run_batch E (pc_imagenet (cv_fl E) (kg_width cfg) (kg_height cfg)) (unat (kg_top_k cfg)) [bytes] of
        None \<Rightarrow> Inl (''task join: '' @ cv_join E)
      | Some (Inl e) \<Rightarrow> Inl e
      | Some (Inr v) \<Rightarrow> Inr (if v = [] then [] else last v))"

definition classify_work :: "classify_env \<Rightarrow> u64 \<Rightarrow> u8 list \<Rightarrow> classify_cfg \<Rightarrow> unit \<Rightarrow> infer_msg \<times> unit" where
  "classify_work E n bytes cfg u =
     (case process_classify_frame E bytes cfg of
        Inr preds \<Rightarrow> (ClassifyMsg n (cv_item_ms E (unat n)) preds, u)
      | Inl e \<Rightarrow> (InferError n e, u))"

definition run_classify_session ::
    "classify_env \<Rightarrow> (string \<Rightarrow> val option) \<Rightarrow> (number \<Rightarrow> real) \<Rightarrow> infer_event list \<Rightarrow> nat option \<Rightarrow>
     (classify_cfg, unit) infer_session" where
  "run_classify_session E parse f32 es left =
     fold (infer_step (classify_configure parse f32 (cv_fl E)) (classify_work E)) es
       (infer_start ''classify'' classify_cfg_default () left)"

section \<open>What the client sees\<close>

text \<open>The numbers of the answered frames.\<close>

fun frame_no :: "infer_frame \<Rightarrow> u64 option" where
  "frame_no (InferText (DetectMsg n ms c ds)) = Some n"
| "frame_no (InferText (ClassifyMsg n ms ps)) = Some n"
| "frame_no (InferText (InferError n e)) = Some n"
| "frame_no f = None"

definition numbers :: "infer_frame list \<Rightarrow> u64 list" where
  "numbers out = List.map_filter frame_no out"

fun is_binary :: "infer_event \<Rightarrow> bool" where
  "is_binary (Received (BinaryMessage d)) = True"
| "is_binary ev = False"

text \<open>The greeting comes first, then frames are answered 1, 2, 3 and so on; \<open>k\<close> of them.\<close>

definition numbered :: "string \<Rightarrow> nat \<Rightarrow> ('c, 's) infer_session \<Rightarrow> bool" where
  "numbered task k s \<longleftrightarrow>
     numbers (is_out s) = map word_of_nat [1..<Suc k] \<and> (is_open s \<longrightarrow> is_frame s = word_of_nat k) \<and>
     (is_open s \<longrightarrow> is_out s \<noteq> []) \<and> (is_out s \<noteq> [] \<longrightarrow> hd (is_out s) = InferText (InferReady task 0))"

lemma numbers_snoc: "numbers (out @ [f]) = numbers out @ (case frame_no f of Some n \<Rightarrow> [n] | None \<Rightarrow> [])"
  by (simp add: numbers_def map_filter_def split: option.split)

lemma infer_send_fields [simp]:
  "is_open (snd (infer_send f s)) = is_open s" "is_cfg (snd (infer_send f s)) = is_cfg s"
  "is_frame (snd (infer_send f s)) = is_frame s"
  "is_out (snd (infer_send f s)) = (if fst (infer_send f s) then is_out s @ [f] else is_out s)"
  by (auto simp: infer_send_def split: option.split nat.split)

lemma infer_break_fields [simp]:
  "\<not> is_open (infer_break s)" "is_cfg (infer_break s) = is_cfg s"
  by (simp_all add: infer_break_def)

lemma infer_break_out:
  obtains "is_out (infer_break s) = is_out s" | "is_out (infer_break s) = is_out s @ [InferClose]"
  by (cases "fst (infer_send InferClose s)") (auto simp: infer_break_def)

lemma send_or_break_alt:
  "infer_send_or_break f s =
     (if fst (infer_send f s) then snd (infer_send f s) else infer_break (snd (infer_send f s)))"
  by (simp add: infer_send_or_break_def split: prod.split bool.split)

lemma break_numbered:
  assumes "numbers (is_out s) = map word_of_nat [1..<Suc k]"
    and "is_out s \<noteq> []" "hd (is_out s) = InferText (InferReady task 0)"
  shows "numbered task k (infer_break s)"
  by (rule infer_break_out [of s]) (use assms in \<open>simp_all add: numbered_def numbers_snoc del: upt_Suc\<close>)

lemma break_open_numbered: "numbered task k s \<Longrightarrow> is_open s \<Longrightarrow> numbered task k (infer_break s)"
  by (intro break_numbered) (simp_all add: numbered_def del: upt_Suc)

text \<open>A frame that is no answer leaves the numbers alone.\<close>

lemma send_numbered:
  assumes "numbered task k s" "is_open s" "frame_no f = None"
  shows "numbered task k (infer_send_or_break f s)"
proof (cases "fst (infer_send f s)")
  case True
  then show ?thesis using assms by (simp add: send_or_break_alt numbered_def numbers_snoc del: upt_Suc)
next
  case False
  then have "numbered task k (infer_break (snd (infer_send f s)))"
    using assms by (intro break_numbered) (simp_all add: numbered_def del: upt_Suc)
  then show ?thesis using False by (simp add: send_or_break_alt)
qed

lemma answer_numbered:
  assumes "numbered task k s" "is_open s" "frame_no f = Some (word_of_nat (Suc k))"
    and "is_frame t = word_of_nat (Suc k)" "is_out t = is_out s" "is_open t"
  shows "\<exists>j \<le> Suc k. numbered task j (infer_send_or_break f t)"
proof (cases "fst (infer_send f t)")
  case True
  then have "numbered task (Suc k) (infer_send_or_break f t)"
    using assms by (auto simp: send_or_break_alt numbered_def numbers_snoc)
  then show ?thesis by blast
next
  case False
  have "numbered task k (infer_break (snd (infer_send f t)))"
    using assms False by (intro break_numbered) (simp_all add: numbered_def del: upt_Suc)
  then show ?thesis using False by (intro exI [of _ k]) (simp add: send_or_break_alt)
qed

lemma step_numbered:
  assumes "numbered task k s" "\<And>n d c u. frame_no (InferText (fst (work n d c u))) = Some n"
  shows "\<exists>j \<le> k + (if is_binary ev then 1 else 0). numbered task j (infer_step configure work ev s)"
proof (cases "is_open s")
  case op: True
  have same: "numbered task k t \<Longrightarrow> \<exists>j \<le> k + (if is_binary ev then 1 else 0). numbered task j t" for t :: "('a, 'b) infer_session"
    by (intro exI [of _ k]) simp
  show ?thesis
  proof (cases ev)
    case InferTick
    then show ?thesis using op assms(1) by (intro same) (simp add: infer_step_def send_numbered)
  next
    case ReceiveError
    then show ?thesis using op assms(1) by (intro same) (simp add: infer_step_def)
  next
    case Ended
    then show ?thesis using op assms(1) by (intro same) (simp add: infer_step_def break_open_numbered)
  next
    case (Received m)
    show ?thesis
    proof (cases m)
      case (BinaryMessage d)
      obtain msg c where w: "work (is_frame s + 1) d (is_cfg s) (is_cache s) = (msg, c)" by fastforce
      have n: "is_frame s + 1 = word_of_nat (Suc k)" using assms(1) op by (simp add: numbered_def)
      have "frame_no (InferText msg) = Some (word_of_nat (Suc k))" using assms(2) w n by (metis fst_conv)
      then have "\<exists>j \<le> Suc k. numbered task j (infer_send_or_break (InferText msg) (s\<lparr>is_frame := is_frame s + 1, is_cache := c\<rparr>))"
        using assms(1) op n by (intro answer_numbered) simp_all
      then show ?thesis using op w by (simp add: infer_step_def Received BinaryMessage Let_def)
    next
      case CloseMessage
      then show ?thesis using op assms(1) Received by (intro same) (simp add: infer_step_def break_open_numbered)
    next
      case (PingMessage d)
      then show ?thesis using op assms(1) Received by (intro same) (simp add: infer_step_def send_numbered)
    qed (use op assms(1) Received in \<open>intro same, simp add: infer_step_def numbered_def\<close>)+
  qed
next
  case False
  then show ?thesis using assms(1) by (intro exI [of _ k]) (simp add: infer_step_def)
qed

lemma run_numbered:
  assumes "numbered task k s" "\<And>n d c u. frame_no (InferText (fst (work n d c u))) = Some n"
  shows "\<exists>j \<le> k + length (filter is_binary es). numbered task j (fold (infer_step configure work) es s)"
  using assms(1)
proof (induction es arbitrary: k s)
  case (Cons ev es)
  obtain i where i: "i \<le> k + (if is_binary ev then 1 else 0)" "numbered task i (infer_step configure work ev s)"
    using step_numbered [OF Cons.prems, of work ev configure] assms(2) by blast
  from Cons.IH [OF i(2)] obtain j where "j \<le> i + length (filter is_binary es)"
    "numbered task j (fold (infer_step configure work) es (infer_step configure work ev s))" by blast
  with i(1) show ?case by (intro exI [of _ j]) auto
qed auto

lemma start_numbered: "numbered task 0 (infer_start task cfg cache left)"
  by (auto simp: infer_start_def infer_send_def numbered_def numbers_def map_filter_def split: option.split nat.split)

lemma works_numbered:
  "frame_no (InferText (fst (detect_work E n d c u))) = Some n"
  "frame_no (InferText (fst (classify_work F n d c' u'))) = Some n"
  by (simp_all add: detect_work_def classify_work_def split: prod.split sum.split)

text \<open>What a classification session asks of the backend.\<close>

definition in_limits :: "classify_cfg \<Rightarrow> bool" where
  "in_limits c \<longleftrightarrow> 1 \<le> kg_top_k c \<and> kg_top_k c \<le> 1000 \<and> 1 \<le> kg_width c \<and> kg_width c \<le> 4096 \<and>
     1 \<le> kg_height c \<and> kg_height c \<le> 4096"

lemma configure_limits: "in_limits c \<Longrightarrow> in_limits (classify_configure p f fl txt c)"
  by (auto simp: classify_configure_def in_limits_def split: option.split)

lemma keep_cfg [simp]: "is_cfg (infer_send_or_break f s) = is_cfg s"
  by (simp add: send_or_break_alt)

lemma step_cfg:
  assumes "P (is_cfg s)" "\<And>txt c. P c \<Longrightarrow> P (configure txt c)"
  shows "P (is_cfg (infer_step configure work ev s))"
  using assms by (cases ev) (auto simp: infer_step_def Let_def split: ws_message.split prod.split)

lemma run_cfg:
  assumes "P (is_cfg s)" "\<And>txt c. P c \<Longrightarrow> P (configure txt c)"
  shows "P (is_cfg (fold (infer_step configure work) es s))"
  using assms(1) by (induction es arbitrary: s) (simp_all add: step_cfg [where P = P] assms(2))

section \<open>A client that keeps reading\<close>

fun ends_session :: "infer_event \<Rightarrow> bool" where
  "ends_session Ended = True"
| "ends_session (Received CloseMessage) = True"
| "ends_session ev = False"

lemma send_unlimited:
  assumes "is_left s = None"
  shows "infer_send_or_break f s = s\<lparr>is_out := is_out s @ [f]\<rparr>" "infer_break s = s\<lparr>is_out := is_out s @ [InferClose], is_open := False\<rparr>"
  using assms by (simp_all add: infer_send_or_break_def infer_break_def infer_send_def)

lemma end_step: "ends_session ev \<Longrightarrow> is_open s \<Longrightarrow> infer_step configure work ev s = infer_break s"
  by (cases ev rule: ends_session.cases) (simp_all add: infer_step_def)

lemma step_unlimited:
  fixes configure :: "string \<Rightarrow> 'c \<Rightarrow> 'c"
  assumes "is_open s" "is_left s = None" "is_frame s = word_of_nat k" "numbers (is_out s) = map word_of_nat [1..<Suc k]"
    and "\<And>n d c u. frame_no (InferText (fst (work n d c u))) = Some n" "\<not> ends_session ev"
  defines "t \<equiv> infer_step configure work ev s" and "j \<equiv> k + (if is_binary ev then 1 else 0)"
  shows "is_open t \<and> is_left t = None \<and> is_frame t = word_of_nat j \<and> numbers (is_out t) = map word_of_nat [1..<Suc j]"
proof (cases "is_binary ev")
  case True
  then obtain d where ev: "ev = Received (BinaryMessage d)" by (elim is_binary.elims) auto
  obtain msg c where w: "work (1 + word_of_nat k) d (is_cfg s) (is_cache s) = (msg, c)" by fastforce
  then have "frame_no (InferText msg) = Some (1 + word_of_nat k)" using assms(5) by (metis fst_conv)
  then show ?thesis using assms(1-4) w ev by (simp add: t_def j_def infer_step_def send_unlimited numbers_snoc add.commute)
next
  case False
  then show ?thesis using assms(1-4,6)
    by (cases ev rule: ends_session.cases)
      (simp_all add: t_def j_def infer_step_def send_unlimited numbers_snoc del: upt_Suc)
qed

lemma run_unlimited:
  assumes "is_open s" "is_left s = None" "is_frame s = word_of_nat k" "numbers (is_out s) = map word_of_nat [1..<Suc k]"
    and "\<And>n d c u. frame_no (InferText (fst (work n d c u))) = Some n"
  shows "numbers (is_out (fold (infer_step configure work) es s)) =
    map word_of_nat [1..<Suc (k + length (filter is_binary (takeWhile (Not \<circ> ends_session) es)))]"
  using assms(1-4)
proof (induction es arbitrary: k s)
  case (Cons ev es)
  have closed: "fold (infer_step configure work) es t = t" if "\<not> is_open t" for es and t :: "('a, 'b) infer_session"
    using that by (induction es) (simp_all add: infer_step_def)
  show ?case
  proof (cases "ends_session ev")
    case True
    with Cons.prems show ?thesis
      by (simp add: end_step send_unlimited closed numbers_snoc del: upt_Suc)
  next
    case False
    let ?t = "infer_step configure work ev s" and ?k = "k + (if is_binary ev then 1 else 0)"
    have "is_open ?t" "is_left ?t = None" "is_frame ?t = word_of_nat ?k" "numbers (is_out ?t) = map word_of_nat [1..<Suc ?k]"
      using step_unlimited [where work = work, OF Cons.prems assms(5) False, of configure] by blast+
    from Cons.IH [OF this] False show ?thesis by (simp del: upt_Suc)
  qed
qed simp

section \<open>The cached detector\<close>

text \<open>The cache holds what the detector's construction gives for its path.\<close>

definition cache_current :: "(string \<Rightarrow> (string + 'd) option) \<Rightarrow> 'd detector_cache \<Rightarrow> bool" where
  "cache_current build cache \<longleftrightarrow> (case snd cache of None \<Rightarrow> fst cache = None
     | Some p \<Rightarrow> (\<exists>d. fst cache = Some d \<and> build p = Some (Inr d)))"

lemma load_detector_current:
  assumes "\<And>n p. de_new E n p = build p" "cache_current build cache"
  shows "fst (load_detector E n p cache) = fst (load_detector E n p (None, None))"
    and "cache_current build (snd (load_detector E n p cache))"
  using assms by (auto simp: load_detector_def cache_current_def split: option.splits sum.splits)

lemma detect_work_current:
  assumes "\<And>n p. de_new E n p = build p" "cache_current build cache"
  shows "fst (detect_work E n d c cache) = fst (detect_work E n d c (None, None))"
    and "cache_current build (snd (detect_work E n d c cache))"
proof -
  have "fst (process_detect_frame E n d c cache) = fst (process_detect_frame E n d c (None, None)) \<and>
    cache_current build (snd (process_detect_frame E n d c cache))"
  proof (cases "find_best_yolo_onnx (de_names E n)")
    case (Some p)
    obtain r t t' where "load_detector E n p cache = (r, t)" "load_detector E n p (None, None) = (r, t')" "cache_current build t"
      using load_detector_current [where E = E and cache = cache, OF assms, of n p] by (metis prod.collapse)
    then show ?thesis using Some by (simp add: process_detect_frame_def split: option.split sum.split)
  qed (use assms(2) in \<open>simp add: process_detect_frame_def\<close>)
  then obtain r t t' where "process_detect_frame E n d c cache = (r, t)" "process_detect_frame E n d c (None, None) = (r, t')"
    "cache_current build t" by (metis prod.collapse)
  then show "fst (detect_work E n d c cache) = fst (detect_work E n d c (None, None))"
    "cache_current build (snd (detect_work E n d c cache))"
    by (simp_all add: detect_work_def split: sum.split)
qed

text \<open>The reference: a detector built afresh for every frame.\<close>

definition uncached_work ::
    "'d detect_env \<Rightarrow> u64 \<Rightarrow> u8 list \<Rightarrow> detect_cfg \<Rightarrow> 'd detector_cache \<Rightarrow> infer_msg \<times> 'd detector_cache" where
  "uncached_work E n bytes cfg cache = (fst (detect_work E n bytes cfg (None, None)), (None, None))"

definition forget_detector :: "('c, 'd detector_cache) infer_session \<Rightarrow> ('c, 'd detector_cache) infer_session" where
  "forget_detector s = s\<lparr>is_cache := (None, None)\<rparr>"

lemma forget_detector_simps [simp]:
  "is_open (forget_detector s) = is_open s" "is_out (forget_detector s) = is_out s" "is_cfg (forget_detector s) = is_cfg s"
  "is_frame (forget_detector s) = is_frame s" "is_left (forget_detector s) = is_left s" "is_cache (forget_detector s) = (None, None)"
  by (simp_all add: forget_detector_def)

lemma forget_send:
  "infer_send_or_break f (forget_detector s) = forget_detector (infer_send_or_break f s)"
  "infer_break (forget_detector s) = forget_detector (infer_break s)"
  "is_cache (infer_send_or_break f s) = is_cache s" "is_cache (infer_break s) = is_cache s"
  by (simp_all add: infer_send_or_break_def infer_break_def infer_send_def forget_detector_def split: option.split nat.split)

lemma forget_step:
  assumes "\<And>n p. de_new E n p = build p" "cache_current build (is_cache s)"
  shows "infer_step configure (uncached_work E) ev (forget_detector s) =
      forget_detector (infer_step configure (detect_work E) ev s)"
    and "cache_current build (is_cache (infer_step configure (detect_work E) ev s))"
proof -
  have "infer_step configure (uncached_work E) ev (forget_detector s) =
      forget_detector (infer_step configure (detect_work E) ev s) \<and>
      cache_current build (is_cache (infer_step configure (detect_work E) ev s))"
  proof (cases "\<exists>d. ev = Received (BinaryMessage d)")
    case True
    then obtain d where ev: "ev = Received (BinaryMessage d)" by blast
    let ?n = "is_frame s + 1"
    obtain m t t' where w: "detect_work E ?n d (is_cfg s) (is_cache s) = (m, t)"
      "detect_work E ?n d (is_cfg s) (None, None) = (m, t')" "cache_current build t"
      using detect_work_current [where E = E, OF assms, of ?n d "is_cfg s"] by (metis prod.collapse)
    have upd: "(forget_detector s)\<lparr>is_frame := ?n, is_cache := (None, None)\<rparr> = forget_detector (s\<lparr>is_frame := ?n, is_cache := t\<rparr>)"
      by (simp add: forget_detector_def)
    show ?thesis
    proof (cases "is_open s")
      case True
      then have *: "infer_step configure (detect_work E) ev s = infer_send_or_break (InferText m) (s\<lparr>is_frame := ?n, is_cache := t\<rparr>)"
        "infer_step configure (uncached_work E) ev (forget_detector s) =
          infer_send_or_break (InferText m) ((forget_detector s)\<lparr>is_frame := ?n, is_cache := (None, None)\<rparr>)"
        using w by (simp_all add: infer_step_def ev uncached_work_def)
      show ?thesis unfolding * upd by (simp add: forget_send w(3))
    qed (use assms(2) in \<open>simp add: infer_step_def\<close>)
  next
    case False
    have "(forget_detector s)\<lparr>is_cfg := c\<rparr> = forget_detector (s\<lparr>is_cfg := c\<rparr>)" for c by (simp add: forget_detector_def)
    then show ?thesis using False assms(2)
      by (auto simp: infer_step_def forget_send split: infer_event.split ws_message.split)
  qed
  then show "infer_step configure (uncached_work E) ev (forget_detector s) =
      forget_detector (infer_step configure (detect_work E) ev s)"
    "cache_current build (is_cache (infer_step configure (detect_work E) ev s))" by simp_all
qed

lemma forget_run:
  assumes "\<And>n p. de_new E n p = build p" "cache_current build (is_cache s)"
  shows "fold (infer_step configure (uncached_work E)) es (forget_detector s) =
    forget_detector (fold (infer_step configure (detect_work E)) es s)"
  using assms(2) by (induction es arbitrary: s) (simp_all add: forget_step [where E = E, OF assms(1)])

section \<open>The sessions\<close>

text \<open>
  C38. Whatever arrives and whenever the client stops reading, the first thing sent is the greeting for the task, and
  the answers to frames are numbered 1, 2, 3 and so on without a gap, at most one for each binary message; while the
  client reads, every binary message up to the end of the session has its answer. A classification session keeps its
  configuration within the limits the backend is asked for.
\<close>

theorem inference_sessions_numbered:
  fixes E :: "'d detect_env"
  shows "(\<exists>k \<le> length (filter is_binary es). numbered ''detect'' k (run_detect_session E es left)) \<and>
    (\<exists>k \<le> length (filter is_binary es). numbered ''classify'' k (run_classify_session F p f es left)) \<and>
    numbers (is_out (run_detect_session E es None)) =
      map word_of_nat [1..<Suc (length (filter is_binary (takeWhile (Not \<circ> ends_session) es)))] \<and>
    numbers (is_out (run_classify_session F p f es None)) =
      map word_of_nat [1..<Suc (length (filter is_binary (takeWhile (Not \<circ> ends_session) es)))] \<and>
    in_limits (is_cfg (run_classify_session F p f es left))"
proof (intro conjI)
  show "\<exists>k \<le> length (filter is_binary es). numbered ''detect'' k (run_detect_session E es left)"
    unfolding run_detect_session_def by (rule run_numbered [where k = 0, simplified]) (rule start_numbered works_numbered)+
  show "\<exists>k \<le> length (filter is_binary es). numbered ''classify'' k (run_classify_session F p f es left)"
    unfolding run_classify_session_def by (rule run_numbered [where k = 0, simplified]) (rule start_numbered works_numbered)+
  have start: "is_open (infer_start t c u None)" "is_left (infer_start t c u None) = None"
    "is_frame (infer_start t c u None) = word_of_nat 0" "numbers (is_out (infer_start t c u None)) = map word_of_nat [1..<Suc 0]"
    for t and c :: 'x and u :: 'y
    by (simp_all add: infer_start_def infer_send_def numbers_def map_filter_def)
  show "numbers (is_out (run_detect_session E es None)) =
      map word_of_nat [1..<Suc (length (filter is_binary (takeWhile (Not \<circ> ends_session) es)))]"
    unfolding run_detect_session_def
    by (rule run_unlimited [OF start, unfolded add_0_left]) (rule works_numbered)
  show "numbers (is_out (run_classify_session F p f es None)) =
      map word_of_nat [1..<Suc (length (filter is_binary (takeWhile (Not \<circ> ends_session) es)))]"
    unfolding run_classify_session_def
    by (rule run_unlimited [OF start, unfolded add_0_left]) (rule works_numbered)
  have "is_cfg (infer_start t c u l) = c" for t l and c :: classify_cfg and u :: unit
    by (simp add: infer_start_def infer_send_def split: option.split nat.split)
  then show "in_limits (is_cfg (run_classify_session F p f es left))" unfolding run_classify_session_def
    by (intro run_cfg [where P = in_limits]) (simp_all add: configure_limits, simp add: in_limits_def classify_cfg_default_def)
qed


text \<open>Two frames, between which a better model appears; both fail, each with the name of its model.\<close>

definition moving_models :: "string detect_env" where
  "moving_models = \<lparr>de_fl = (\<lambda>x. x), de_json = (\<lambda>_. None), de_f32 = (\<lambda>_. 0),
     de_names = (\<lambda>n. Some (if n = 1 then [''yolov8n.onnx''] else [''yolo11n.onnx'', ''yolov8n.onnx''])),
     de_new = (\<lambda>n p. Some (Inr p)), de_detect = (\<lambda>d b c i. Some (Inl d)), de_ms = (\<lambda>_. 0), de_panic = ''''\<rparr>"


text \<open>A configuration that sets one threshold sets the other back to its default.\<close>

lemma partial_config_resets:
  assumes "de_json E txt = Some (JObject [(''type'', JString ''config''), (''conf'', JNumber x)])"
  shows "detect_configure E txt c = c\<lparr>dg_conf := de_f32 E x, dg_iou := default_iou (de_fl E)\<rparr>"
  using assms by (cases c) (simp add: detect_configure_def infer_config_of_def opt_field_def as_real_def)

text \<open>The default model of the server is not taken for a nano model.\<close>

lemma default_model_not_nano: "size_score ''yolov8n-int8.onnx'' = 1 \<and> size_score ''yolov8l.onnx'' = 2"
  by code_simp

end
