(* ===== verification/TtsApi.thy ===== *)
theory TtsApi
  imports TtsManager TtsPipeline Postprocess Errors
begin

text \<open>
  The speech endpoints over the engine manager (\<open>api/tts.rs\<close>). A text is the list of its characters; the
  manager sees their bytes. In a stream, the wait of the reader for each result is an argument, in milliseconds; the
  sentences are synthesised by the task of the pipeline as if the reader stayed, for what it makes of sentences that
  are never read is not seen. \<open>None\<close> as a result is a panic.
\<close>

record synthesis_request =
  sq_text :: "uchar list"
  sq_engine :: "string option"
  sq_voice :: "string option"
  sq_speed :: real
  sq_pitch :: real
  sq_language :: "string option"
  sq_skip_postprocess :: bool

definition default_speed :: real where "default_speed = 1"
definition default_pitch :: real where "default_pitch = 1"

text \<open>A duration that is not finite is \<open>None\<close>, the null it is written as.\<close>

record synthesis_response =
  sn_audio_base64 :: string
  sn_sample_rate :: u32
  sn_duration_secs :: "real option"
  sn_format :: string
  sn_engine_used :: string

record engine_info_response =
  ei_id :: string
  ei_name :: string
  ei_version :: string
  ei_languages :: "string list"
  ei_voices_count :: nat

record engine_list_response =
  el_engines :: "engine_info_response list"
  el_total :: nat

record voice_list_response =
  vl_voices :: "voice_info list"
  vl_total :: nat
  vl_engine :: string

record tts_health_response =
  hr_status :: string
  hr_engines_loaded :: nat
  hr_timestamp :: string

record tts_env =
  tv_fl :: rnd
  tv_bits :: "real \<Rightarrow> u8 list"
  tv_wav :: wav_lib
  tv_post :: audio_config
  tv_show_f32 :: "real \<Rightarrow> string"
  tv_b64 :: "u8 list \<Rightarrow> string"
  tv_iter :: "string list"
  tv_chunk_timeout_secs :: u64

section \<open>Synthesis\<close>

definition check_text :: "uchar list \<Rightarrow> api_error + unit" where
  "check_text s =
     (if s = [] then Inl (BadRequest ''Text cannot be empty'')
      else if 50000 < length (concat s) then Inl (BadRequest ''Text too long (max 50000 characters)'') else Inr ())"

definition params_of :: "synthesis_request \<Rightarrow> synthesis_params" where
  "params_of req = \<lparr>sy_speed = max (25 / 100) (min 4 (sq_speed req)), sy_pitch = max (5 / 10) (min 2 (sq_pitch req)),
     sy_voice = sq_voice req, sy_language = sq_language req\<rparr>"

definition requested_engine :: "tts_env \<Rightarrow> ('w, 'c) tts_manager \<Rightarrow> string option \<Rightarrow> string" where
  "requested_engine E tm engine =
     (case engine of
        Some i \<Rightarrow> i
      | None \<Rightarrow> (case tm_get_default_engine (tv_iter E) tm of Some e \<Rightarrow> te_name e | None \<Rightarrow> ''unknown''))"

definition engine_used :: "string \<Rightarrow> string option \<Rightarrow> string" where
  "engine_used requested actual =
     (case actual of
        Some a \<Rightarrow> if a \<noteq> requested then requested @ '' ('' @ a @ '')'' else requested
      | None \<Rightarrow> requested)"

definition synthesize ::
    "(u64, spoken, 'c) lru_ops \<Rightarrow> tts_env \<Rightarrow> synthesis_request \<Rightarrow> nat \<Rightarrow> string \<Rightarrow> ('w, 'c) tts_manager \<times> 'w \<Rightarrow>
     (api_error + synthesis_response envelope) \<times> ('w, 'c) tts_manager \<times> 'w" where
  "synthesize L E req latency rid tw =
     (case check_text (sq_text req) of
        Inl e \<Rightarrow> (Inl e, tw)
      | Inr _ \<Rightarrow>
          (case tm_synthesize L (tv_bits E) (concat (sq_text req)) (sq_engine req) (params_of req) tw of
             (Inl e, tw) \<Rightarrow> (Inl (InternalError (''Synthesis failed: '' @ e)), tw)
           | (Inr (audio, actual), tw) \<Rightarrow>
               (let used = engine_used (requested_engine E (fst tw) (sq_engine req)) actual;
                    (samples, steps, warnings) =
                      (if sq_skip_postprocess req then (ad_samples audio, [], [])
                       else audio_process (tv_fl E) (tv_show_f32 E) (ad_samples audio) (ad_sample_rate audio) (tv_post E));
                    audio = audio\<lparr>ad_samples := samples\<rparr>
                in case save_wav (tv_fl E) (tv_wav E) audio of
                     Inl (Audio_Error e) \<Rightarrow> (Inl (InternalError e), tw)
                   | Inl Audio_Panic \<Rightarrow> (Inl (InternalError ''panic''), tw)
                   | Inr wav \<Rightarrow>
                       (Inr (en_from_inference (tv_fl E)
                          \<lparr>sn_audio_base64 = tv_b64 E wav, sn_sample_rate = ad_sample_rate audio,
                           sn_duration_secs =
                             (if ad_sample_rate audio = 0 then None
                              else Some (tv_fl E (tv_fl E (real (length (ad_samples audio))) /
                                     tv_fl E (real (unat (ad_sample_rate audio)))))),
                           sn_format = ''wav'', sn_engine_used = used\<rparr>
                          latency used (sq_skip_postprocess req) steps warnings rid), tw))))"

section \<open>The stream\<close>

text \<open>Results in the channel with the wait for each, and the wait for its end.\<close>

type_synonym chunk_source = "(nat \<times> (string + audio_chunk)) list \<times> nat"

datatype chunk_item = Body "u8 list" | ServerError string | GatewayTimeout string

definition chunk_timeout_secs :: "u64 \<Rightarrow> bool \<Rightarrow> nat" where
  "chunk_timeout_secs limit first = (if first then min (4 * unat limit) (2 ^ 64 - 1) else unat limit)"

definition poll_chunk ::
    "tts_env \<Rightarrow> chunk_source option \<times> bool \<Rightarrow> (chunk_item \<times> chunk_source option \<times> bool) option" where
  "poll_chunk E st =
     (case st of
        (None, first) \<Rightarrow> None
      | (Some (rs, close), first) \<Rightarrow>
          (let secs = chunk_timeout_secs (tv_chunk_timeout_secs E) first;
               late = (\<lambda>wait. 1000 * secs < wait);
               timeout = Some (GatewayTimeout (''TTS '' @ (if first then ''first '' else []) @ ''chunk timeout after '' @
                   show_nat secs @ ''s''), None, False)
           in case rs of
                [] \<Rightarrow> if late close then timeout else None
              | (wait, r) # rs \<Rightarrow>
                  if late wait then timeout
                  else case r of
                         Inr c \<Rightarrow> Some (Body (to_pcm16_le (tv_fl E) c), Some (rs, close), False)
                       | Inl e \<Rightarrow> Some (ServerError e, None, False)))"

function response_body :: "tts_env \<Rightarrow> chunk_source option \<times> bool \<Rightarrow> chunk_item list" where
  "response_body E st = (case poll_chunk E st of None \<Rightarrow> [] | Some (item, st) \<Rightarrow> item # response_body E st)"
  by pat_completeness auto
termination
  by (relation "measure (\<lambda>(E, s, first). case s of None \<Rightarrow> 0 | Some (rs, close) \<Rightarrow> Suc (length rs))")
    (auto simp: poll_chunk_def Let_def split: option.splits prod.splits list.splits sum.splits if_splits)

declare response_body.simps [simp del]

text \<open>What the task of the pipeline sends for a text.\<close>

definition sent_chunks ::
    "'w tts_engine \<Rightarrow> synthesis_params \<Rightarrow> uchar list \<Rightarrow> 'w \<Rightarrow> ((string + audio_chunk) list \<times> 'w) option" where
  "sent_chunks e p s w =
     synthesize_streaming sp_default
       (\<lambda>s (out, w). let (r, w) = te_synthesize e (concat s) p w in (r, (out, w)))
       (\<lambda>r (out, w). (True, (out @ [r], w))) s ([], w)"

definition stream_synthesize ::
    "tts_env \<Rightarrow> (nat \<Rightarrow> nat) \<Rightarrow> synthesis_request \<Rightarrow> ('w, 'c) tts_manager \<times> 'w \<Rightarrow> ((api_error + chunk_item list) \<times> 'w) option" where
  "stream_synthesize E wait req tw =
     (let (tm, w) = tw
      in case check_text (sq_text req) of
           Inl e \<Rightarrow> Some (Inl e, w)
         | Inr _ \<Rightarrow>
             (case (case sq_engine req of Some i \<Rightarrow> tm_engines tm i | None \<Rightarrow> tm_get_default_engine (tv_iter E) tm) of
                None \<Rightarrow> Some (Inl (InternalError ''No TTS engine available''), w)
              | Some e \<Rightarrow>
                  map_option
                    (\<lambda>(rs, w). (Inr (response_body E (Some (map (\<lambda>(k, r). (wait k, r)) (enumerate 0 rs), wait (length rs)), True)), w))
                    (sent_chunks e (params_of req) (sq_text req) w)))"

section \<open>Views\<close>

definition list_engines :: "tts_env \<Rightarrow> ('w, 'c) tts_manager \<Rightarrow> engine_list_response" where
  "list_engines E tm =
     (let engines = List.map_filter (\<lambda>i. map_option (\<lambda>c. \<lparr>ei_id = i, ei_name = ec_name c, ei_version = ec_version c,
            ei_languages = ec_supported_languages c, ei_voices_count = length (ec_supported_voices c)\<rparr>)
            (tm_get_capabilities i tm)) (tv_iter E)
      in \<lparr>el_engines = engines, el_total = length engines\<rparr>)"

definition engine_not_found :: "string \<Rightarrow> api_error" where
  "engine_not_found i = NotFound (''Engine '' @ [CHR 0x27] @ i @ [CHR 0x27] @ '' not found'')"

definition get_capabilities :: "string \<Rightarrow> ('w, 'c) tts_manager \<Rightarrow> api_error + engine_capabilities" where
  "get_capabilities i tm =
     (case tm_get_capabilities i tm of None \<Rightarrow> Inl (engine_not_found i) | Some c \<Rightarrow> Inr c)"

definition list_voices :: "string \<Rightarrow> ('w, 'c) tts_manager \<Rightarrow> api_error + voice_list_response" where
  "list_voices i tm =
     (case map_option te_list_voices (tm_engines tm i) of
        None \<Rightarrow> Inl (engine_not_found i)
      | Some vs \<Rightarrow> Inr \<lparr>vl_voices = vs, vl_total = length vs, vl_engine = i\<rparr>)"

definition tts_get_stats ::
    "(u64, spoken, 'c) lru_ops \<Rightarrow> tts_env \<Rightarrow> bool list \<Rightarrow> ('w, 'c) tts_manager \<Rightarrow> tts_manager_stats" where
  "tts_get_stats L E free tm = tm_get_stats L (tv_iter E) free tm"

definition tts_health :: "tts_env \<Rightarrow> string \<Rightarrow> ('w, 'c) tts_manager \<Rightarrow> tts_health_response" where
  "tts_health E now tm = \<lparr>hr_status = ''healthy'', hr_engines_loaded = length (tv_iter E), hr_timestamp = now\<rparr>"

section \<open>What a stream says\<close>

text \<open>The sound of a sentence, with the engine as a function of the text.\<close>

definition spoken_body :: "tts_env \<Rightarrow> (string \<Rightarrow> string + spoken) \<Rightarrow> uchar list \<Rightarrow> chunk_item" where
  "spoken_body E f s = Body (concat (map (le16 \<circ> pcm16 (tv_fl E)) (ad_samples (fst (projr (f (concat s)))))))"

fun is_failure :: "chunk_item \<Rightarrow> bool" where
  "is_failure (Body b) = False"
| "is_failure x = True"

definition chunk_result :: "nat \<Rightarrow> nat \<Rightarrow> string + spoken \<Rightarrow> string + audio_chunk" where
  "chunk_result n idx r = map_sum id (\<lambda>(audio, _). \<lparr>ac_sentence_index = idx, ac_is_last = (idx = n - 1), ac_audio = audio\<rparr>) r"

lemma sent_in_order:
  assumes "\<And>s w. fst (te_synthesize e s p w) = f s" "[] \<notin> set ss"
  shows "fst (stream_loop (\<lambda>s (out, w). let (r, w) = te_synthesize e (concat s) p w in (r, (out, w)))
       (\<lambda>r (out, w). (True, (out @ [r], w))) n idx ss (out, w)) =
     out @ map (\<lambda>(k, s). chunk_result n k (f (concat s))) (enumerate idx ss)"
  using assms(2)
proof (induction ss arbitrary: idx out w)
  case (Cons s ss)
  obtain w' where "te_synthesize e (concat s) p w = (f (concat s), w')" using assms(1) by (metis prod.collapse)
  moreover have "s \<noteq> []" using Cons.prems by auto
  ultimately show ?case using Cons by (simp add: chunk_result_def)
qed simp

text \<open>Bodies for the first results, as long as they come in time, and at most one failure after them.\<close>

lemma response_body_shape:
  fixes wait :: "nat \<Rightarrow> nat"
  defines "src \<equiv> \<lambda>i rs. (map (\<lambda>(k, r). (wait k, r)) (enumerate i rs), wait (i + length rs))"
  shows "\<exists>n \<le> length rs. (\<forall>r \<in> set (take n rs). \<not> isl r) \<and>
    ((n = length rs \<and> response_body E (Some (src i rs), first) = map (\<lambda>r. Body (to_pcm16_le (tv_fl E) (projr r))) (take n rs)) \<or>
     (\<exists>x. response_body E (Some (src i rs), first) = map (\<lambda>r. Body (to_pcm16_le (tv_fl E) (projr r))) (take n rs) @ [x] \<and> is_failure x))"
  unfolding src_def
proof (induction rs arbitrary: i first)
  case Nil
  then show ?case
    by (simp add: response_body.simps [of E "(Some _, _)"] response_body.simps [of E "(None, _)"] poll_chunk_def Let_def)
next
  case (Cons r rs)
  let ?src = "(map (\<lambda>(k, r). (wait k, r)) (enumerate (Suc i) rs), wait (Suc i + length rs))"
  let ?late = "1000 * chunk_timeout_secs (tv_chunk_timeout_secs E) first < wait i"
  show ?case
  proof (cases "\<not> ?late \<and> \<not> isl r")
    case True
    then obtain c where r: "r = Inr c" by (cases r) simp_all
    have eq: "response_body E (Some (map (\<lambda>(k, r). (wait k, r)) (enumerate i (r # rs)), wait (i + length (r # rs))), first) =
        Body (to_pcm16_le (tv_fl E) c) # response_body E (Some ?src, False)"
      using True r by (subst response_body.simps) (simp add: poll_chunk_def Let_def)
    obtain n where n: "n \<le> length rs" "\<forall>r \<in> set (take n rs). \<not> isl r"
      "(n = length rs \<and> response_body E (Some ?src, False) = map (\<lambda>r. Body (to_pcm16_le (tv_fl E) (projr r))) (take n rs)) \<or>
       (\<exists>x. response_body E (Some ?src, False) = map (\<lambda>r. Body (to_pcm16_le (tv_fl E) (projr r))) (take n rs) @ [x] \<and> is_failure x)"
      using Cons.IH [of "Suc i" False] by blast
    show ?thesis unfolding eq by (rule exI [of _ "Suc n"]) (use n r in auto)
  next
    case False
    then have "\<exists>x. response_body E (Some (map (\<lambda>(k, r). (wait k, r)) (enumerate i (r # rs)), wait (i + length (r # rs))), first) = [x] \<and> is_failure x"
      by (subst response_body.simps) (cases r, auto simp: poll_chunk_def Let_def response_body.simps [of E "(None, _)"])
    then show ?thesis by (intro exI [of _ 0]) simp
  qed
qed

lemma response_body_complete:
  assumes "\<forall>r \<in> set rs. \<not> isl r" "\<forall>k. wait k \<le> 1000 * unat (tv_chunk_timeout_secs E)"
  shows "response_body E (Some (map (\<lambda>(k, r). (wait k, r)) (enumerate i rs), wait (i + length rs)), first) =
    map (\<lambda>r. Body (to_pcm16_le (tv_fl E) (projr r))) rs"
proof -
  have "unat (tv_chunk_timeout_secs E) < 2 ^ 64" using unsigned_less [where 'a = nat, of "tv_chunk_timeout_secs E"] by simp
  then have "unat (tv_chunk_timeout_secs E) \<le> chunk_timeout_secs (tv_chunk_timeout_secs E) first" for first
    by (simp add: chunk_timeout_secs_def)
  then have late: "\<not> 1000 * chunk_timeout_secs (tv_chunk_timeout_secs E) first < wait k" for k first
    using assms(2) by (meson linorder_not_le mult_le_mono2 order_trans)
  show ?thesis using assms(1)
  proof (induction rs arbitrary: i first)
    case Nil
    then show ?case by (subst response_body.simps) (simp add: poll_chunk_def Let_def late)
  next
    case (Cons r rs)
    then obtain c where "r = Inr c" by (cases r) simp_all
    with Cons.IH [of "Suc i" False] Cons.prems show ?case
      by (subst response_body.simps) (simp add: poll_chunk_def Let_def late)
  qed
qed

lemma take_upt_min: "take n [0..<m] = [0..<min m n]"
  by (metis add_0 min.commute nat_le_linear min_def take_all take_upt length_upt diff_zero)

definition chosen_engine :: "tts_env \<Rightarrow> synthesis_request \<Rightarrow> ('w, 'c) tts_manager \<Rightarrow> 'w tts_engine option" where
  "chosen_engine E req tm = (case sq_engine req of Some i \<Rightarrow> tm_engines tm i | None \<Rightarrow> tm_get_default_engine (tv_iter E) tm)"

lemma stream_synthesize_eq:
  assumes "check_text (sq_text req) = Inr ()" "chosen_engine E req tm = Some e"
    and "\<And>s w. fst (te_synthesize e s (params_of req) w) = f s"
    and "split_sentences sp_default (sq_text req) = Some ss" "[] \<notin> set ss"
  defines "rs \<equiv> map (\<lambda>(k, s). chunk_result (length ss) k (f (concat s))) (enumerate 0 ss)"
  shows "\<exists>w'. stream_synthesize E wait req (tm, w) =
    Some (Inr (response_body E (Some (map (\<lambda>(k, r). (wait k, r)) (enumerate 0 rs), wait (length rs)), True)), w')"
proof -
  obtain t where "sent_chunks e (params_of req) (sq_text req) w = Some t" "fst t = rs"
    using sent_in_order [where e = e and p = "params_of req" and f = f, OF assms(3,5), of "length ss" 0 "[]" w]
    by (simp add: sent_chunks_def synthesize_streaming_def rs_def assms(4))
  then obtain w' where "sent_chunks e (params_of req) (sq_text req) w = Some (rs, w')" by (cases t) simp
  then show ?thesis using assms(1,2) by (simp add: stream_synthesize_def chosen_engine_def)
qed

lemma bodies_of_sentences:
  "map (\<lambda>r. Body (to_pcm16_le (tv_fl E) (projr r))) (map (\<lambda>(k, s). chunk_result m k (f (concat s))) (enumerate i ss)) =
    map (spoken_body E f) ss"
  if "\<forall>s \<in> set ss. \<not> isl (f (concat s))"
  using that
proof (induction ss arbitrary: i)
  case (Cons s ss)
  then obtain a where "f (concat s) = Inr a" by (cases "f (concat s)") auto
  with Cons show ?case by (cases a) (simp add: spoken_body_def chunk_result_def to_pcm16_le_def comp_def)
qed simp

lemma isl_chunk_result [simp]: "isl (chunk_result m k r) = isl r"
  by (cases r) (simp_all add: chunk_result_def)

text \<open>
  C40. A stream speaks the text and nothing else. With an engine whose result is a function of the text, the body is
  the sound of the first sentences, in order, and then at most one failure, after which nothing follows; the
  sentences together have the black characters of the text. When every sentence can be spoken and none keeps the
  reader waiting longer than the limit, all of them are heard and there is no failure. The request never panics.
\<close>

theorem stream_speaks_in_order:
  assumes "check_text (sq_text req) = Inr ()" "chosen_engine E req tm = Some e"
    and "\<And>s w. fst (te_synthesize e s (params_of req) w) = f s"
  shows "\<exists>ss n items w'. stream_synthesize E wait req (tm, w) = Some (Inr items, w') \<and>
    split_sentences sp_default (sq_text req) = Some ss \<and> black (concat ss) = black (sq_text req) \<and> n \<le> length ss \<and>
    (items = map (spoken_body E f) (take n ss) \<and> n = length ss \<or>
     (\<exists>x. items = map (spoken_body E f) (take n ss) @ [x] \<and> is_failure x)) \<and>
    ((\<forall>k. wait k \<le> 1000 * unat (tv_chunk_timeout_secs E)) \<and> (\<forall>s \<in> set ss. \<not> isl (f (concat s))) \<longrightarrow>
      items = map (spoken_body E f) ss)"
proof -
  have "0 < sp_max_chars sp_default" by (simp add: sp_default_def)
  then obtain ss where
    ss: "split_sentences sp_default (sq_text req) = Some ss" "black (concat ss) = black (sq_text req)" "[] \<notin> set ss"
    by (rule splitter_exists)
  define rs where "rs = map (\<lambda>(k, s). chunk_result (length ss) k (f (concat s))) (enumerate 0 ss)"
  let ?src = "(map (\<lambda>(k, r). (wait k, r)) (enumerate 0 rs), wait (length rs))"
  let ?items = "response_body E (Some ?src, True)"
  obtain w' where eq: "stream_synthesize E wait req (tm, w) = Some (Inr ?items, w')"
    using stream_synthesize_eq [where e = e and f = f, OF assms ss(1,3)] unfolding rs_def by blast
  have len: "length rs = length ss" by (simp add: rs_def)
  have take: "take n rs = map (\<lambda>(k, s). chunk_result (length ss) k (f (concat s))) (enumerate 0 (take n ss))" for n
    by (simp add: rs_def take_map enumerate_eq_zip take_zip take_upt_min)
  obtain n where n: "n \<le> length rs" "\<forall>r \<in> set (take n rs). \<not> isl r"
    "n = length rs \<and> ?items = map (\<lambda>r. Body (to_pcm16_le (tv_fl E) (projr r))) (take n rs) \<or>
     (\<exists>x. ?items = map (\<lambda>r. Body (to_pcm16_le (tv_fl E) (projr r))) (take n rs) @ [x] \<and> is_failure x)"
    using response_body_shape [where i = 0 and first = True, of rs E wait] by auto
  have speakable: "\<not> isl (f (concat s))" if "s \<in> set (take n ss)" for s
  proof -
    have "s \<in> snd ` set (enumerate 0 (take n ss))" using that by (metis list.set_map map_snd_enumerate)
    then show ?thesis using n(2) unfolding take by auto
  qed
  have bodies: "map (\<lambda>r. Body (to_pcm16_le (tv_fl E) (projr r))) (take n rs) = map (spoken_body E f) (take n ss)"
    unfolding take by (intro bodies_of_sentences ballI speakable)
  have complete: "?items = map (spoken_body E f) ss"
    if "\<forall>k. wait k \<le> 1000 * unat (tv_chunk_timeout_secs E)" "\<forall>s \<in> set ss. \<not> isl (f (concat s))"
  proof -
    have "\<forall>r \<in> set rs. \<not> isl r" using that(2) by (auto simp: rs_def in_set_enumerate_eq)
    from response_body_complete [where i = 0 and first = True, OF this that(1)] show ?thesis
      using bodies_of_sentences [where f = f, OF that(2), of E "length ss" 0] by (simp add: rs_def)
  qed
  show ?thesis
    using eq ss n(1,3) complete unfolding len bodies by blast
qed

definition beep_request :: synthesis_request where
  "beep_request = \<lparr>sq_text = map (\<lambda>c. [c]) ''Hi'', sq_engine = None, sq_voice = None, sq_speed = 1, sq_pitch = 1,
     sq_language = None, sq_skip_postprocess = True\<rparr>"

definition beep_env :: tts_env where
  "beep_env = \<lparr>tv_fl = (\<lambda>x. x), tv_bits = (\<lambda>_. []), tv_wav = \<lparr>wl_open = \<lambda>_. Inl [], wl_floats = \<lambda>_. Inl [],
     wl_ints = \<lambda>_. Inl [], wl_write = \<lambda>_ _. Inl [], wl_show = \<lambda>_. []\<rparr>, tv_post = au_default (\<lambda>x. x), tv_show_f32 = (\<lambda>_. []),
     tv_b64 = (\<lambda>_. []), tv_iter = [''kokoro-onnx''], tv_chunk_timeout_secs = 30\<rparr>"

text \<open>One sentence, spoken in time.\<close>

theorem stream_speaks_in_order_witness:
  "\<exists>w'. stream_synthesize beep_env (\<lambda>k. 0) beep_request
     (snd (tm_register_engine ''kokoro-onnx'' beep_engine (tm_new list_lru tc_default)), 0) =
   Some (Inr [Body [255, 63]], w')"
proof -
  let ?f = "\<lambda>s. Inr (\<lparr>ad_samples = [1 / 2], ad_sample_rate = 24000, ad_channels = 1\<rparr>, None)"
  let ?tm = "snd (tm_register_engine ''kokoro-onnx'' beep_engine (tm_new list_lru tc_default))"
  have check: "check_text (sq_text beep_request) = Inr ()" by (simp add: check_text_def beep_request_def)
  have engine: "chosen_engine beep_env beep_request ?tm = Some beep_engine"
    by (simp add: chosen_engine_def beep_request_def tm_get_default_engine_def tm_register_engine_def tm_new_def Let_def
        tc_default_def)
  have "sq_text beep_request = [''H'', ''i'']" by (simp add: beep_request_def)
  moreover have "is_boundary ''H'' = False" "is_boundary ''i'' = False" "utrim [''H'', ''i''] = [''H'', ''i'']" by code_simp+
  ultimately have split: "split_sentences sp_default (sq_text beep_request) = Some [[''H'', ''i'']]"
    using short_text_one_sentence [of "[''H'', ''i'']" sp_default] by (simp add: bytes_in_def sp_default_def)
  have pcm: "spoken_body beep_env ?f s = Body [255, 63]" for s
    by (simp add: spoken_body_def beep_env_def pcm16_def le16_def to_i16_def Let_def)
  from stream_speaks_in_order [where f = ?f, OF check engine, of "\<lambda>_. 0" 0] show ?thesis
    by (fastforce simp: beep_engine_def split pcm)
qed

section \<open>Parameters and errors\<close>

lemma params_in_range:
  "25 / 100 \<le> sy_speed (params_of req)" "sy_speed (params_of req) \<le> 4"
  "5 / 10 \<le> sy_pitch (params_of req)" "sy_pitch (params_of req) \<le> 2"
  by (simp_all add: params_of_def)

text \<open>An engine the client misspells is an error of the server.\<close>

lemma unknown_engine_is_500:
  assumes "check_text (sq_text req) = Inr ()" "sq_engine req = Some i" "tm_engines tm i = None"
  shows "stream_synthesize E wait req (tm, w) = Some (Inl (InternalError ''No TTS engine available''), w)"
    and "get_capabilities i tm = Inl (engine_not_found i)" "list_voices i tm = Inl (engine_not_found i)"
  using assms by (simp_all add: stream_synthesize_def get_capabilities_def list_voices_def tm_get_capabilities_def)

text \<open>The limit counts bytes: half as many two-byte characters are refused.\<close>

lemma limit_counts_bytes:
  assumes "\<forall>c \<in> set s. length c = 2" "length s = 25001"
  shows "check_text s = Inl (BadRequest ''Text too long (max 50000 characters)'')"
proof -
  have "length (concat s) = 2 * length s" using assms(1) by (induction s) simp_all
  then show ?thesis using assms(2) by (auto simp: check_text_def)
qed

text \<open>A blank text is accepted, and its stream is empty.\<close>

lemma blank_text_streams_nothing:
  assumes "utrim (sq_text req) = []" "check_text (sq_text req) = Inr ()" "chosen_engine E req tm = Some e"
    and "wait 0 = 0"
  shows "stream_synthesize E wait req (tm, w) = Some (Inr [], w)"
  using assms by (simp add: stream_synthesize_def chosen_engine_def sent_chunks_def synthesize_streaming_def split_blank
      response_body.simps [of E "(Some _, _)"] poll_chunk_def Let_def)

text \<open>Once a stream has failed, nothing follows.\<close>

lemma nothing_after_failure: "poll_chunk E (None, first) = None"
  by (simp add: poll_chunk_def)

end
