(* ===== verification/Spec2Isabelle.thy ===== *)
theory Spec2Isabelle
  imports BreakerRace PerModelBreaker TokenBucket Permits Retry Batch Inflight Cache Dedup ModelCache
  TensorPool ModelPool WorkerPool Gate HttpFetch Executor Errors Security Monitor Sampling AgentApi Chat Postprocess AgentTools Generation
  ImageSecurity TtsPipeline TtsManager DownloadApi Predict SessionPool Kokoro ModelsApi WsAudio LogFiles Classify Bootstrap AudioApi WsInfer TtsApi
begin

text \<open>
  Verification of the torch-inference server.
\<close>

end
